(* ===== verification/WB_Prelude.thy ===== *)
theory WB_Prelude
  imports "HOL-Library.Word" "HOL-Library.Monad_Syntax" "HOL-Library.List_Lexorder" "HOL-Library.Char_ord"
begin

text \<open>
  Shared vocabulary of the development.

  \<^item> Undefined behaviour of the C++ code (a null or dangling dereference, a write or read outside
    an allocated block) is the value \<^const>\<open>None\<close> of an option result; a theorem that an operation
    returns \<^const>\<open>Some\<close> is a memory-safety theorem.
  \<^item> A block of memory is the list of its bytes; \<open>memcpy_at\<close>, \<open>memset_at\<close> and \<open>mem_read\<close> are the
    C library's copies with their bounds written out.
  \<^item> The allocator is the parameter \<open>heap_env\<close>: which sizes it can serve and what the fresh bytes of
    a grown block hold.
  \<^item> \<open>std::set\<close> is a strictly sorted list (iteration is in key order) and \<open>std::map\<close> an association
    list with strictly sorted keys.
  \<^item> Integers are copied to and from memory in little-endian order (\<open>le_encode\<close>, \<open>le_decode\<close>).
\<close>

named_theorems mem_simps \<open>bounded copies inside a block\<close>
named_theorems codec_simps \<open>little-endian encodings and their lengths\<close>
named_theorems omap_simps \<open>ordered maps and sets\<close>

type_synonym byte = "8 word"
type_synonym u32 = "32 word"

subsection \<open>Little-endian integers\<close>

primrec le_encode :: "nat \<Rightarrow> nat \<Rightarrow> byte list" where
  "le_encode 0 v = []"
| "le_encode (Suc n) v = word_of_nat v # le_encode n (v div 256)"

primrec le_decode :: "byte list \<Rightarrow> nat" where
  "le_decode [] = 0"
| "le_decode (b # bs) = unat b + 256 * le_decode bs"

lemma length_le_encode [simp, codec_simps]: "length (le_encode n v) = n"
  by (induction n arbitrary: v) auto

lemma unat_word_of_nat_byte: "unat (word_of_nat v :: byte) = v mod 256"
  by (simp add: unat_of_nat)

lemma le_decode_encode_mod: "le_decode (le_encode n v) = v mod 256 ^ n"
proof (induction n arbitrary: v)
  case 0
  then show ?case by simp
next
  case (Suc n)
  have "le_decode (le_encode (Suc n) v) = v mod 256 + 256 * (v div 256 mod 256 ^ n)"
    by (simp add: Suc.IH unat_word_of_nat_byte)
  also have "\<dots> = v mod (256 * 256 ^ n)"
    by (simp add: mod_mult2_eq)
  finally show ?case by simp
qed

lemma le_decode_encode [codec_simps]: "v < 256 ^ n \<Longrightarrow> le_decode (le_encode n v) = v"
  by (simp add: le_decode_encode_mod)

lemma le_decode_bound: "le_decode bs < 256 ^ length bs"
proof (induction bs)
  case (Cons b bs)
  have "unat b < 256" using unsigned_less[of b, where ?'a = nat] by simp
  with Cons show ?case by simp
qed simp

lemma le_encode_decode [codec_simps]: "le_encode (length bs) (le_decode bs) = bs"
proof (induction bs)
  case (Cons b bs)
  have b: "unat b < 256" using unsigned_less[of b, where ?'a = nat] by simp
  have "unat (word_of_nat (unat b + 256 * le_decode bs) :: byte) = unat b"
    by (subst unat_word_of_nat_byte) (use b in simp)
  then have "word_of_nat (unat b + 256 * le_decode bs) = (b :: byte)"
    by (simp only: word_unat_eq_iff)
  moreover have "(unat b + 256 * le_decode bs) div 256 = le_decode bs"
    using b by simp
  ultimately show ?case using Cons by simp
qed simp

lemma le_encode_4: "le_encode 4 v =
    [word_of_nat v, word_of_nat (v div 256), word_of_nat (v div 65536), word_of_nat (v div 16777216)]"
proof -
  have four: "4 = Suc (Suc (Suc (Suc 0)))" by simp
  show ?thesis by (subst four, simp only: le_encode.simps) (simp add: div_mult2_eq[symmetric])
qed

subsection \<open>Blocks of memory and the allocator\<close>

definition memcpy_at :: "byte list \<Rightarrow> nat \<Rightarrow> byte list \<Rightarrow> byte list option" where
  "memcpy_at d off s =
     (if off + length s \<le> length d then Some (take off d @ s @ drop (off + length s) d) else None)"

definition memset_at :: "byte list \<Rightarrow> nat \<Rightarrow> byte \<Rightarrow> nat \<Rightarrow> byte list option" where
  "memset_at d off b n = memcpy_at d off (replicate n b)"

definition mem_read :: "byte list \<Rightarrow> nat \<Rightarrow> nat \<Rightarrow> byte list option" where
  "mem_read d off n = (if off + n \<le> length d then Some (take n (drop off d)) else None)"

record heap_env =
  he_ok :: "nat \<Rightarrow> bool"   \<comment> \<open>an allocation of this many bytes succeeds\<close>
  he_fill :: "nat \<Rightarrow> byte" \<comment> \<open>what an uninitialised byte holds\<close>

definition heap_ok :: "heap_env \<Rightarrow> bool" where
  "heap_ok H \<longleftrightarrow> (\<forall>n. he_ok H n)"

definition plenty :: heap_env where
  "plenty = \<lparr> he_ok = (\<lambda>_. True), he_fill = (\<lambda>_. 0xCD) \<rparr>"

definition starved :: heap_env where
  "starved = \<lparr> he_ok = (\<lambda>_. False), he_fill = (\<lambda>_. 0) \<rparr>"

lemma heap_ok_plenty [simp]: "heap_ok plenty"
  by (simp add: heap_ok_def plenty_def)

lemma heap_okD: "heap_ok H \<Longrightarrow> he_ok H n"
  by (simp add: heap_ok_def)

text \<open>\<open>realloc\<close> keeps the common prefix of the block; \<^const>\<open>None\<close> is the null pointer it returns when
  it fails (the old block is untouched).  The first argument is the number of header bytes that
  precede the flexible array.\<close>

definition realloc_block :: "heap_env \<Rightarrow> nat \<Rightarrow> byte list \<Rightarrow> nat \<Rightarrow> byte list option" where
  "realloc_block H hdr d n =
     (if he_ok H (n + hdr) then Some (take n d @ map (he_fill H) [length d..<n]) else None)"

definition calloc_block :: "heap_env \<Rightarrow> nat \<Rightarrow> nat \<Rightarrow> byte list option" where
  "calloc_block H hdr n = (if he_ok H (n + hdr) then Some (replicate n 0) else None)"

lemma memcpy_at_Some [mem_simps]:
  "off + length s \<le> length d \<Longrightarrow> memcpy_at d off s = Some (take off d @ s @ drop (off + length s) d)"
  by (simp add: memcpy_at_def)

lemma memcpy_at_None [mem_simps]: "length d < off + length s \<Longrightarrow> memcpy_at d off s = None"
  by (simp add: memcpy_at_def)

lemma memcpy_at_length: "memcpy_at d off s = Some d' \<Longrightarrow> length d' = length d"
  by (auto simp: memcpy_at_def split: if_splits)

lemma mem_read_Some [mem_simps]: "off + n \<le> length d \<Longrightarrow> mem_read d off n = Some (take n (drop off d))"
  by (simp add: mem_read_def)

lemma mem_read_None [mem_simps]: "length d < off + n \<Longrightarrow> mem_read d off n = None"
  by (simp add: mem_read_def)

lemma realloc_block_ok [mem_simps]:
  "heap_ok H \<Longrightarrow> realloc_block H hdr d n = Some (take n d @ map (he_fill H) [length d..<n])"
  by (simp add: realloc_block_def heap_okD)

lemma calloc_block_ok [mem_simps]: "heap_ok H \<Longrightarrow> calloc_block H hdr n = Some (replicate n 0)"
  by (simp add: calloc_block_def heap_okD)

lemma realloc_block_length: "realloc_block H hdr d n = Some d' \<Longrightarrow> length d' = n"
  by (auto simp: realloc_block_def split: if_splits)

subsection \<open>Ordered sets and maps\<close>

text \<open>\<open>std::set\<close>: a strictly sorted list; \<open>std::map\<close>: an association list with strictly sorted keys.\<close>

definition oset_ok :: "'a::linorder list \<Rightarrow> bool" where
  "oset_ok xs \<longleftrightarrow> sorted_wrt (<) xs"

primrec oset_insert :: "'a::linorder \<Rightarrow> 'a list \<Rightarrow> 'a list" where
  "oset_insert x [] = [x]"
| "oset_insert x (y # ys) = (if x < y then x # y # ys else if x = y then y # ys else y # oset_insert x ys)"

definition oset_erase :: "'a::linorder \<Rightarrow> 'a list \<Rightarrow> 'a list" where
  "oset_erase x xs = filter (\<lambda>y. y \<noteq> x) xs"

definition omap_ok :: "('k::linorder \<times> 'v) list \<Rightarrow> bool" where
  "omap_ok m \<longleftrightarrow> oset_ok (map fst m)"

primrec omap_put :: "'k::linorder \<Rightarrow> 'v \<Rightarrow> ('k \<times> 'v) list \<Rightarrow> ('k \<times> 'v) list" where
  "omap_put k v [] = [(k, v)]"
| "omap_put k v (p # ps) =
     (if k < fst p then (k, v) # p # ps else if k = fst p then (k, v) # ps else p # omap_put k v ps)"

definition omap_erase :: "'k::linorder \<Rightarrow> ('k \<times> 'v) list \<Rightarrow> ('k \<times> 'v) list" where
  "omap_erase k m = filter (\<lambda>p. fst p \<noteq> k) m"

abbreviation omap_find :: "('k::linorder \<times> 'v) list \<Rightarrow> 'k \<Rightarrow> 'v option" where
  "omap_find m k \<equiv> map_of m k"

lemma set_oset_insert [simp, omap_simps]: "set (oset_insert x xs) = insert x (set xs)"
  by (induction xs) auto

lemma oset_ok_Nil [simp]: "oset_ok []"
  by (simp add: oset_ok_def)

lemma oset_ok_insert [simp, intro]: "oset_ok xs \<Longrightarrow> oset_ok (oset_insert x xs)"
  by (induction xs) (auto simp: oset_ok_def)

lemma oset_ok_distinct: "oset_ok xs \<Longrightarrow> distinct xs"
  by (simp add: oset_ok_def strict_sorted_iff)

lemma set_oset_erase [simp, omap_simps]: "set (oset_erase x xs) = set xs - {x}"
  by (auto simp: oset_erase_def)

lemma oset_ok_erase [simp, intro]: "oset_ok xs \<Longrightarrow> oset_ok (oset_erase x xs)"
  by (simp add: oset_ok_def oset_erase_def sorted_wrt_filter)

lemma omap_ok_Nil [simp]: "omap_ok []"
  by (simp add: omap_ok_def)

lemma keys_omap_put [simp, omap_simps]: "fst ` set (omap_put k v m) = insert k (fst ` set m)"
  by (induction m) auto

lemma map_fst_omap_put: "map fst (omap_put k v m) = oset_insert k (map fst m)"
  by (induction m) auto

lemma omap_ok_put [simp, intro]: "omap_ok m \<Longrightarrow> omap_ok (omap_put k v m)"
  by (simp add: omap_ok_def map_fst_omap_put oset_ok_insert)

lemma omap_find_put [simp, omap_simps]: "omap_find (omap_put k v m) = (omap_find m)(k \<mapsto> v)"
  by (induction m) (auto simp: fun_eq_iff)

lemma map_fst_omap_erase: "map fst (omap_erase k m) = oset_erase k (map fst m)"
  by (induction m) (auto simp: omap_erase_def oset_erase_def)

lemma omap_ok_erase [simp, intro]: "omap_ok m \<Longrightarrow> omap_ok (omap_erase k m)"
  by (simp add: omap_ok_def map_fst_omap_erase oset_ok_erase)

lemma omap_find_erase [simp, omap_simps]: "omap_find (omap_erase k m) = (omap_find m)(k := None)"
  by (induction m) (auto simp: omap_erase_def fun_eq_iff)

lemma set_omap_erase: "set (omap_erase k m) = {p \<in> set m. fst p \<noteq> k}"
  by (auto simp: omap_erase_def)

lemma omap_ok_distinct: "omap_ok m \<Longrightarrow> distinct (map fst m)"
  by (simp add: omap_ok_def oset_ok_distinct)

lemma omap_find_iff: "omap_ok m \<Longrightarrow> (k, v) \<in> set m \<longleftrightarrow> omap_find m k = Some v"
  using map_of_eq_Some_iff[OF omap_ok_distinct] by fastforce

lemma omap_find_dom: "dom (omap_find m) = fst ` set m"
  by (rule dom_map_of_conv_image_fst)

text \<open>\<open>map::insert\<close> keeps the value of a key that is already there.\<close>

definition omap_insert :: "'k::linorder \<Rightarrow> 'v \<Rightarrow> ('k \<times> 'v) list \<Rightarrow> ('k \<times> 'v) list" where
  "omap_insert k v m = (if omap_find m k = None then omap_put k v m else m)"

lemma omap_ok_insert [simp, intro]: "omap_ok m \<Longrightarrow> omap_ok (omap_insert k v m)"
  by (simp add: omap_insert_def)

lemma omap_find_insert [omap_simps]:
  "omap_find (omap_insert k v m) = (if omap_find m k = None then (omap_find m)(k \<mapsto> v) else omap_find m)"
proof (cases "omap_find m k = None")
  case True
  then have "omap_insert k v m = omap_put k v m" by (simp add: omap_insert_def)
  with True show ?thesis by (simp add: fun_eq_iff)
next
  case False
  then have "omap_insert k v m = m" unfolding omap_insert_def by (rule if_not_P)
  with False show ?thesis by auto
qed

subsection \<open>Loops over a collection\<close>

text \<open>A loop whose body may be undefined: it runs the body on every element in order.\<close>

primrec each :: "('a \<Rightarrow> 'w \<Rightarrow> 'w option) \<Rightarrow> 'a list \<Rightarrow> 'w \<Rightarrow> 'w option" where
  "each f [] w = Some w"
| "each f (x # xs) w = do { w' \<leftarrow> f x w; each f xs w' }"

lemma each_append: "each f (xs @ ys) w = do { w' \<leftarrow> each f xs w; each f ys w' }"
  by (induction xs arbitrary: w) (auto split: Option.bind_splits)

text \<open>The loop rule: an invariant that every step keeps makes the whole loop defined.\<close>

lemma each_total:
  assumes "P w" "\<And>x w. x \<in> set xs \<Longrightarrow> P w \<Longrightarrow> \<exists>w'. f x w = Some w' \<and> P w'"
  shows "\<exists>w'. each f xs w = Some w' \<and> P w'"
  using assms
proof (induction xs arbitrary: w)
  case (Cons x xs)
  then obtain w1 where "f x w = Some w1" "P w1" by (metis list.set_intros(1))
  with Cons.IH[of w1] Cons.prems show ?case by auto
qed simp

text \<open>The results of a partial function over a list, all of which must be defined.\<close>

primrec all_some :: "'a option list \<Rightarrow> 'a list option" where
  "all_some [] = Some []"
| "all_some (x # xs) = do { y \<leftarrow> x; ys \<leftarrow> all_some xs; Some (y # ys) }"

lemma all_some_map:
  "(\<And>x. x \<in> set xs \<Longrightarrow> f x = Some (g x)) \<Longrightarrow> all_some (map f xs) = Some (map g xs)"
  by (induction xs) auto

end
