(* ===== verification/Transcode.thy ===== *)
theory Transcode
  imports WB_Prelude
begin

text \<open>
  The growing byte buffer \<open>BinaryData\<close> and the base class of
  \<open>framework/server/transcode.cpp\<close>: \<open>Transcode::Write\<close>, \<open>Read\<close>, \<open>IsDataEnough\<close> and the chain of
  kernels behind \<open>Encode\<close> and \<open>Decode\<close>.

  A \<open>size_t\<close> is a natural number (no buffer of the server comes near \<open>2^64\<close> bytes); a length that is
  stored in a packet is a \<open>uint32_t\<close> and is taken modulo \<open>2^32\<close> where the code does so.
\<close>

subsection \<open>BinaryData\<close>

text \<open>\<open>bd_data\<close> is the allocated flexible array, of which the code uses the first \<open>size\<close> bytes; a write
  that leaves the array is undefined behaviour.\<close>

record bd =
  bd_size :: nat
  bd_offset :: nat
  bd_data :: "byte list"

definition bd_ok :: "bd \<Rightarrow> bool" where
  "bd_ok b \<longleftrightarrow> bd_size b \<le> length (bd_data b) \<and> bd_offset b \<le> bd_size b"

definition bd_bytes :: "bd \<Rightarrow> byte list" where
  "bd_bytes b = take (bd_offset b) (bd_data b)"

abbreviation (input) PACKETLEN :: nat where "PACKETLEN \<equiv> 4"
abbreviation (input) OPCODELEN :: nat where "OPCODELEN \<equiv> 4"
abbreviation (input) HEADERLEN :: nat where "HEADERLEN \<equiv> 8"
abbreviation (input) FACTOR :: nat where "FACTOR \<equiv> 2"
abbreviation (input) BD_HEADER :: nat where "BD_HEADER \<equiv> 16"  \<comment> \<open>\<open>sizeof(BinaryData)\<close>\<close>

text \<open>The loop \<open>while (size < need) size *= FACTOR\<close>: it does not end when it is entered at size 0.\<close>

partial_function (option) grow_loop :: "nat \<Rightarrow> nat \<Rightarrow> nat option" where
  "grow_loop need sz = (if sz < need then grow_loop need (sz * FACTOR) else Some sz)"

definition Transcode_Write :: "heap_env \<Rightarrow> bd \<Rightarrow> byte list \<Rightarrow> bd option" where
  "Transcode_Write H dest src = (let len = length src in
     if len + bd_offset dest > bd_size dest then
       do {
         sz \<leftarrow> grow_loop (len + bd_offset dest) ((if bd_size dest = 0 then 1 else bd_size dest) * FACTOR);
         (case realloc_block H BD_HEADER (bd_data dest) sz of
            Some d \<Rightarrow> do {
              d' \<leftarrow> memcpy_at d (bd_offset dest) src;
              Some \<lparr> bd_size = sz, bd_offset = bd_offset dest + len, bd_data = d' \<rparr> }
          | None \<Rightarrow> do {
              d' \<leftarrow> memset_at (bd_data dest) (bd_offset dest) 0 (sz - bd_offset dest);
              Some \<lparr> bd_size = sz, bd_offset = bd_offset dest, bd_data = d' \<rparr> })
       }
     else do {
       d' \<leftarrow> memcpy_at (bd_data dest) (bd_offset dest) src;
       Some (dest\<lparr> bd_data := d', bd_offset := bd_offset dest + len \<rparr>) })"

text \<open>\<open>Read(dest, src, offset, len)\<close>: the bytes it puts in \<open>dest\<close>, the new \<open>offset\<close> and the new
  \<open>is_good\<close>.  The caller owns \<open>dest\<close> and its size.\<close>

definition Transcode_Read :: "bd \<Rightarrow> bool \<Rightarrow> nat \<Rightarrow> nat \<Rightarrow> (byte list \<times> nat \<times> bool) option" where
  "Transcode_Read src good off len =
     (if off + len > bd_offset src then Some (replicate len 0, bd_offset src, False)
      else do { bs \<leftarrow> mem_read (bd_data src) off len; Some (bs, off + len, good) })"

text \<open>\<open>IsDataEnough(message, &actualSize)\<close>: the answer, \<open>actualSize\<close> (initially 0) and \<open>is_good\<close>.\<close>

definition IsDataEnough :: "bd option \<Rightarrow> bool \<Rightarrow> (bool \<times> nat \<times> bool) option" where
  "IsDataEnough message good = (case message of
     None \<Rightarrow> Some (False, 0, good)
   | Some m \<Rightarrow>
       if bd_offset m < PACKETLEN then Some (False, 0, good)
       else do {
         (bs, _, good') \<leftarrow> Transcode_Read m good 0 PACKETLEN;
         let actualSize = le_decode bs in
         Some (\<not> actualSize > bd_offset m, actualSize, good') })"

subsection \<open>The chain of kernels\<close>

text \<open>A pointer to a buffer is \<^typ>\<open>bd option\<close>.  \<open>doEncode\<close>, \<open>doDecode\<close> are the virtual methods of the
  outer coder and \<open>kern\<close> (the member \<open>kernel_\<close>) the inner one's \<open>Encode\<close> or \<open>Decode\<close>; \<open>'s\<close> is the state \<open>doDecode\<close> changes.\<close>

definition Transcode_Encode ::
  "(bd option \<Rightarrow> bd option option) \<Rightarrow> (bd option \<Rightarrow> bd option option) option \<Rightarrow> bd option \<Rightarrow> bd option option" where
  "Transcode_Encode doEncode kern message = (case message of
     None \<Rightarrow> Some None
   | Some m \<Rightarrow> (case kern of
       Some k \<Rightarrow> do { res \<leftarrow> doEncode (Some m); k res }
     | None \<Rightarrow> doEncode (Some m)))"

definition Transcode_Decode ::
  "('s \<Rightarrow> bd \<Rightarrow> (bd option \<times> 's) option) \<Rightarrow> (bd option \<Rightarrow> bd option option) option \<Rightarrow> 's \<Rightarrow> bd option
   \<Rightarrow> (bd option \<times> 's) option" where
  "Transcode_Decode doDecode kern s message = (case message of
     None \<Rightarrow> Some (None, s)
   | Some m \<Rightarrow> (case kern of
       Some k \<Rightarrow> do {
         res \<leftarrow> k (Some m);
         (case res of None \<Rightarrow> Some (None, s) | Some r \<Rightarrow> doDecode s r) }
     | None \<Rightarrow> doDecode s m))"

subsection \<open>Growing\<close>

lemma grow_loop_Some:
  assumes "0 < sz"
  shows "\<exists>s. grow_loop need sz = Some s \<and> need \<le> s \<and> sz \<le> s \<and> (sz < need \<longrightarrow> s < 2 * need)"
  using assms
proof (induction "need - sz" arbitrary: sz rule: less_induct)
  case less
  show ?case
  proof (cases "sz < need")
    case True
    then have "need - sz * 2 < need - sz" using less.prems by arith
    from less.hyps[OF this] less.prems obtain s where
      "grow_loop need (sz * 2) = Some s" "need \<le> s" "sz * 2 \<le> s" "sz * 2 < need \<longrightarrow> s < 2 * need"
      by auto
    moreover have "\<not> sz * 2 < need \<Longrightarrow> s = sz * 2"
      using calculation(1) by (subst (asm) grow_loop.simps) simp
    ultimately show ?thesis using True less.prems
      by (subst grow_loop.simps) auto
  next
    case False
    then show ?thesis by (subst grow_loop.simps) simp
  qed
qed

text \<open>The facts every user of the buffer shares.\<close>

lemma Transcode_Write_ok:
  assumes "heap_ok H" "bd_ok b"
  shows "\<exists>b'. Transcode_Write H b src = Some b' \<and> bd_ok b' \<and> bd_bytes b' = bd_bytes b @ src
           \<and> bd_offset b' = bd_offset b + length src \<and> bd_size b \<le> bd_size b'"
proof (cases "length src + bd_offset b > bd_size b")
  case False
  with assms show ?thesis
    by (auto simp: Transcode_Write_def Let_def memcpy_at_Some bd_ok_def bd_bytes_def)
next
  case True
  let ?s0 = "(if bd_size b = 0 then 1 else bd_size b) * 2"
  have "0 < ?s0" by simp
  then obtain s where s: "grow_loop (length src + bd_offset b) ?s0 = Some s"
    "length src + bd_offset b \<le> s" "?s0 \<le> s"
    using grow_loop_Some[of ?s0 "length src + bd_offset b"] by force
  have "bd_size b \<le> s" using s(3) by (auto split: if_splits)
  with True s assms show ?thesis
    by (auto simp: Transcode_Write_def Let_def realloc_block_ok memcpy_at_Some bd_ok_def bd_bytes_def
        simp del: mult_Suc_right split: if_splits)
qed

lemma Transcode_WriteE:
  assumes "heap_ok H" "bd_ok b"
  obtains b' where "Transcode_Write H b src = Some b'" "bd_ok b'" "bd_bytes b' = bd_bytes b @ src"
    "bd_offset b' = bd_offset b + length src" "bd_size b \<le> bd_size b'"
  using Transcode_Write_ok[OF assms] by blast

lemma Transcode_Read_enough:
  "bd_ok b \<Longrightarrow> off + n \<le> bd_offset b \<Longrightarrow>
     Transcode_Read b good off n = Some (take n (drop off (bd_bytes b)), off + n, good)"
  by (auto simp: Transcode_Read_def mem_read_Some bd_ok_def bd_bytes_def drop_take min_def)

lemma Transcode_Read_short:
  "bd_offset b < off + n \<Longrightarrow> Transcode_Read b good off n = Some (replicate n 0, bd_offset b, False)"
  by (simp add: Transcode_Read_def)

lemma length_bd_bytes [simp]: "bd_ok b \<Longrightarrow> length (bd_bytes b) = bd_offset b"
  by (simp add: bd_bytes_def bd_ok_def)

end
