(* ===== verification/Packet.thy ===== *)
theory Packet
  imports Transcode
begin

text \<open>
  The stream of values \<open>PacketTranscode\<close> (\<open>framework/server/transcode_packet.cpp\<close>) and the message
  \<open>ProtobufTranscode\<close> (\<open>framework/server/transcode_protobuf.cpp\<close>) built on the buffer.
\<close>

subsection \<open>PacketTranscode\<close>

record packet =
  pk_buf :: bd         \<comment> \<open>\<open>buf_\<close>\<close>
  pk_offset :: nat     \<comment> \<open>\<open>offset_\<close>, the read position\<close>
  pk_good :: bool      \<comment> \<open>\<open>is_good\<close>\<close>

text \<open>A failed \<open>calloc\<close> is dereferenced at once, hence undefined behaviour.\<close>

definition Packet_new :: "heap_env \<Rightarrow> packet option" where
  "Packet_new H = do {
     d \<leftarrow> calloc_block H BD_HEADER HEADERLEN;
     Some \<lparr> pk_buf = \<lparr> bd_size = HEADERLEN, bd_offset = HEADERLEN, bd_data = d \<rparr>,
            pk_offset = 0, pk_good = True \<rparr> }"

definition SetOpcode :: "packet \<Rightarrow> nat \<Rightarrow> packet option" where
  "SetOpcode p opcode = do {
     d \<leftarrow> memcpy_at (bd_data (pk_buf p)) PACKETLEN (le_encode OPCODELEN opcode);
     Some (p\<lparr> pk_buf := (pk_buf p)\<lparr> bd_data := d \<rparr> \<rparr>) }"

definition Packet_new_opcode :: "heap_env \<Rightarrow> nat \<Rightarrow> packet option" where
  "Packet_new_opcode H opcode = do { p \<leftarrow> Packet_new H; SetOpcode p opcode }"

definition Packet_Reset :: "packet \<Rightarrow> packet option" where
  "Packet_Reset p = do {
     d \<leftarrow> memset_at (bd_data (pk_buf p)) 0 0 (bd_size (pk_buf p));
     Some (p\<lparr> pk_buf := (pk_buf p)\<lparr> bd_data := d, bd_offset := HEADERLEN \<rparr>, pk_offset := HEADERLEN \<rparr>) }"

definition GetOpcode :: "packet \<Rightarrow> nat option" where
  "GetOpcode p =
     (if bd_size (pk_buf p) \<ge> HEADERLEN
      then map_option le_decode (mem_read (bd_data (pk_buf p)) PACKETLEN OPCODELEN)
      else Some 0)"

text \<open>\<open>Write(this->buf_, ...)\<close> and \<open>Read(..., this->buf_, offset_, len)\<close>.\<close>

definition pk_write :: "heap_env \<Rightarrow> packet \<Rightarrow> byte list \<Rightarrow> packet option" where
  "pk_write H p src = do { b \<leftarrow> Transcode_Write H (pk_buf p) src; Some (p\<lparr> pk_buf := b \<rparr>) }"

definition pk_read :: "packet \<Rightarrow> nat \<Rightarrow> (byte list \<times> packet) option" where
  "pk_read p n = do {
     (bs, off, good) \<leftarrow> Transcode_Read (pk_buf p) (pk_good p) (pk_offset p) n;
     Some (bs, p\<lparr> pk_offset := off, pk_good := good \<rparr>) }"

text \<open>\<open>append(buffer, len)\<close> with a signed \<open>len\<close>: a negative one becomes a \<open>size_t\<close> larger than any
  object.\<close>

definition Packet_append :: "heap_env \<Rightarrow> packet \<Rightarrow> byte list \<Rightarrow> int \<Rightarrow> packet option" where
  "Packet_append H p buffer len =
     (if len < 0 then None
      else do { src \<leftarrow> mem_read buffer 0 (nat len); pk_write H p src })"

text \<open>The values of fixed size: \<open>sizeof(value)\<close> bytes are copied.  Signed integers are read with
  \<^const>\<open>sint\<close>; \<open>double\<close>, \<open>float\<close>, \<open>bool\<close> and \<open>char\<close> are their object representations of 8, 4, 1 and
  1 bytes.\<close>

definition put_word :: "heap_env \<Rightarrow> packet \<Rightarrow> 'a::len word \<Rightarrow> packet option" where
  "put_word H p v = pk_write H p (le_encode (LENGTH('a) div 8) (unat v))"

definition get_word :: "packet \<Rightarrow> ('a::len word \<times> packet) option" where
  "get_word p = do {
     (bs, p') \<leftarrow> pk_read p (LENGTH('a) div 8);
     Some (word_of_nat (le_decode bs), p') }"

definition put_string :: "heap_env \<Rightarrow> packet \<Rightarrow> byte list \<Rightarrow> packet option" where
  "put_string H p s = (let len = length s mod 2 ^ 32 in do {
     p1 \<leftarrow> pk_write H p (le_encode 4 len);
     pk_write H p1 (take len s) })"

text \<open>\<open>new char[len + 1]\<close> is computed in \<open>uint32_t\<close>, so \<open>str\<close> has \<open>(len + 1) mod 2^32\<close> bytes.\<close>

definition get_string :: "packet \<Rightarrow> byte list \<Rightarrow> (byte list \<times> packet) option" where
  "get_string p value = do {
     (lb, p1) \<leftarrow> pk_read p 4;
     let len = le_decode lb;
     let cap = (len + 1) mod 2 ^ 32;
     (bs, p2) \<leftarrow> pk_read p1 len;
     str \<leftarrow> memcpy_at (replicate cap 0) 0 bs;
     str' \<leftarrow> memcpy_at str len [0];
     Some (value @ take len str', p2) }"

text \<open>\<open>operator<<(const char*)\<close>: the string ends at the first NUL of its block.\<close>

definition put_cstr :: "heap_env \<Rightarrow> packet \<Rightarrow> byte list \<Rightarrow> packet option" where
  "put_cstr H p blk =
     (if 0 \<in> set blk then put_string H p (takeWhile (\<lambda>b. b \<noteq> 0) blk) else None)"

text \<open>\<open>operator>>(char*)\<close> skips the string and stores an empty one.\<close>

definition get_cstr :: "packet \<Rightarrow> byte list \<Rightarrow> (byte list \<times> packet) option" where
  "get_cstr p value = do {
     (_, p') \<leftarrow> get_string p [];
     value' \<leftarrow> memcpy_at value 0 [0];
     Some (value', p') }"

definition put_packet :: "heap_env \<Rightarrow> packet \<Rightarrow> packet \<Rightarrow> packet option" where
  "put_packet H p v = (let len = nat ((int (bd_offset (pk_buf v)) - int HEADERLEN) mod 2 ^ 32) in do {
     p1 \<leftarrow> pk_write H p (le_encode 4 len);
     src \<leftarrow> mem_read (bd_data (pk_buf v)) HEADERLEN len;
     pk_write H p1 src })"

text \<open>\<open>memset(value.buf_, 0, value.buf_->size)\<close> overwrites the header of the structure first.\<close>

definition bd_zero_from_header :: "bd \<Rightarrow> bd option" where
  "bd_zero_from_header b = do {
     m \<leftarrow> memset_at (le_encode 8 (bd_size b) @ le_encode 8 (bd_offset b) @ bd_data b) 0 0 (bd_size b);
     Some \<lparr> bd_size = le_decode (take 8 m), bd_offset = le_decode (take 8 (drop 8 m)),
            bd_data = drop BD_HEADER m \<rparr> }"

definition get_packet :: "heap_env \<Rightarrow> packet \<Rightarrow> packet \<Rightarrow> (packet \<times> packet) option" where
  "get_packet H p v = do {
     (lb, p1) \<leftarrow> pk_read p 4;
     let len = le_decode lb;
     let fill = (\<lambda>d. do {
       (bs, p2) \<leftarrow> pk_read p1 len;
       d' \<leftarrow> memcpy_at d HEADERLEN bs;
       Some (v\<lparr> pk_buf := \<lparr> bd_size = len + HEADERLEN, bd_offset = len + HEADERLEN, bd_data = d' \<rparr>,
                pk_offset := HEADERLEN \<rparr>, p2) });
     if bd_size (pk_buf v) < len then
       (case realloc_block H BD_HEADER (bd_data (pk_buf v)) (len + HEADERLEN) of
          Some d \<Rightarrow> fill d
        | None \<Rightarrow> do { b \<leftarrow> bd_zero_from_header (pk_buf v); Some (v\<lparr> pk_buf := b \<rparr>, p1) })
     else fill (bd_data (pk_buf v)) }"

definition Packet_doEndpointEncode :: "heap_env \<Rightarrow> packet \<Rightarrow> bd option" where
  "Packet_doEndpointEncode H p = do {
     d \<leftarrow> calloc_block H BD_HEADER (bd_offset (pk_buf p));
     src \<leftarrow> mem_read (bd_data (pk_buf p)) 0 (bd_offset (pk_buf p));
     r \<leftarrow> Transcode_Write H \<lparr> bd_size = bd_offset (pk_buf p), bd_offset = 0, bd_data = d \<rparr> src;
     let dataOffset = bd_offset r;
     r' \<leftarrow> Transcode_Write H (r\<lparr> bd_offset := 0 \<rparr>) (le_encode PACKETLEN dataOffset);
     Some (r'\<lparr> bd_offset := dataOffset \<rparr>) }"

definition Packet_doEndpointDecode :: "heap_env \<Rightarrow> packet \<Rightarrow> bd \<Rightarrow> packet option" where
  "Packet_doEndpointDecode H p message = do {
     (bs, off, good) \<leftarrow> Transcode_Read message (pk_good p) 0 PACKETLEN;
     let size = le_decode bs;
     let p1 = p\<lparr> pk_offset := off, pk_good := good \<rparr>;
     if size > bd_offset message then Some p1
     else (case realloc_block H BD_HEADER (bd_data (pk_buf p)) size of
       Some d \<Rightarrow> do {
         src \<leftarrow> mem_read (bd_data message) 0 size;
         b \<leftarrow> Transcode_Write H \<lparr> bd_size = size, bd_offset = 0, bd_data = d \<rparr> src;
         Some (p1\<lparr> pk_buf := b, pk_offset := HEADERLEN \<rparr>) }
     | None \<Rightarrow> Some p1) }"

text \<open>\<open>PacketTranscode::Encode\<close> and \<open>Decode\<close> go through the base class and
  \<open>EndpointTranscode::doEncode/doDecode\<close>.\<close>

definition Packet_Encode :: "heap_env \<Rightarrow> (bd option \<Rightarrow> bd option option) option \<Rightarrow> packet \<Rightarrow> bd option option" where
  "Packet_Encode H kern p =
     Transcode_Encode (\<lambda>_. map_option Some (Packet_doEndpointEncode H p)) kern (Some (pk_buf p))"

definition Packet_Decode ::
  "heap_env \<Rightarrow> (bd option \<Rightarrow> bd option option) option \<Rightarrow> packet \<Rightarrow> bd option \<Rightarrow> packet option" where
  "Packet_Decode H kern p message =
     map_option snd (Transcode_Decode
       (\<lambda>p m. map_option (Pair None) (Packet_doEndpointDecode H p m)) kern p message)"

subsection \<open>ProtobufTranscode\<close>

record protobuf =
  pb_opcode :: u32
  pb_body :: "byte list"

definition Protobuf_new :: "u32 \<Rightarrow> byte list \<Rightarrow> protobuf" where
  "Protobuf_new opcode body = \<lparr> pb_opcode = opcode, pb_body = body \<rparr>"

definition Protobuf_Reset :: "protobuf \<Rightarrow> protobuf" where
  "Protobuf_Reset b = b\<lparr> pb_opcode := 0, pb_body := [] \<rparr>"

definition FromPacketTranscode :: "protobuf \<Rightarrow> packet \<Rightarrow> (protobuf \<times> packet) option" where
  "FromPacketTranscode b packet = do {
     op \<leftarrow> GetOpcode packet;
     (body, packet') \<leftarrow> get_string packet (pb_body b);
     Some (b\<lparr> pb_opcode := word_of_nat op, pb_body := body \<rparr>, packet') }"

definition Protobuf_doEndpointEncode :: "heap_env \<Rightarrow> protobuf \<Rightarrow> bd option" where
  "Protobuf_doEndpointEncode H b = do {
     d \<leftarrow> calloc_block H BD_HEADER (12 + length (pb_body b));
     let dataOffset = 12 + length (pb_body b);
     r1 \<leftarrow> Transcode_Write H \<lparr> bd_size = dataOffset, bd_offset = 0, bd_data = d \<rparr>
             (le_encode PACKETLEN dataOffset);
     r2 \<leftarrow> Transcode_Write H r1 (le_encode OPCODELEN (unat (pb_opcode b)));
     r3 \<leftarrow> Transcode_Write H r2 (le_encode 4 (length (pb_body b)));
     Transcode_Write H r3 (pb_body b) }"

definition Protobuf_doEndpointDecode :: "protobuf \<Rightarrow> bool \<Rightarrow> bd \<Rightarrow> protobuf option" where
  "Protobuf_doEndpointDecode b good message = do {
     (bs, _, _) \<leftarrow> Transcode_Read message good 0 PACKETLEN;
     let size = le_decode bs;
     if size < 8 \<or> size > bd_offset message then Some b
     else do {
       op \<leftarrow> mem_read (bd_data message) PACKETLEN OPCODELEN;
       body \<leftarrow> mem_read (bd_data message) (bd_offset message + 12) (nat ((int size - 12) mod 2 ^ 32));
       Some (b\<lparr> pb_opcode := word_of_nat (le_decode op), pb_body := body \<rparr>) } }"

subsection \<open>Reading and writing a packet\<close>

definition pk_ok :: "packet \<Rightarrow> bool" where
  "pk_ok p \<longleftrightarrow> bd_ok (pk_buf p) \<and> pk_offset p \<le> bd_offset (pk_buf p)"

definition pk_bytes :: "packet \<Rightarrow> byte list" where
  "pk_bytes p = bd_bytes (pk_buf p)"

definition pk_unread :: "packet \<Rightarrow> byte list" where
  "pk_unread p = drop (pk_offset p) (pk_bytes p)"

lemma pk_writeE:
  assumes "heap_ok H" "pk_ok p"
  obtains p' where "pk_write H p src = Some p'" "pk_ok p'" "pk_bytes p' = pk_bytes p @ src"
    "pk_offset p' = pk_offset p" "pk_good p' = pk_good p"
proof -
  from assms(2) have "bd_ok (pk_buf p)" by (simp add: pk_ok_def)
  from Transcode_WriteE[OF assms(1) this, of src] obtain b where
    "Transcode_Write H (pk_buf p) src = Some b" "bd_ok b" "bd_bytes b = bd_bytes (pk_buf p) @ src"
    "bd_offset b = bd_offset (pk_buf p) + length src" by metis
  then show thesis using assms(2)
    by (intro that[of "p\<lparr>pk_buf := b\<rparr>"]) (auto simp: pk_write_def pk_ok_def pk_bytes_def)
qed

lemma pk_readE:
  assumes "pk_ok p" "n \<le> length (pk_unread p)"
  obtains p' where "pk_read p n = Some (take n (pk_unread p), p')" "pk_ok p'"
    "pk_unread p' = drop n (pk_unread p)" "pk_buf p' = pk_buf p" "pk_good p' = pk_good p"
proof -
  from assms have ok: "bd_ok (pk_buf p)" and le: "pk_offset p + n \<le> bd_offset (pk_buf p)"
    by (auto simp: pk_ok_def pk_unread_def pk_bytes_def)
  show thesis
    by (rule that[of "p\<lparr>pk_offset := pk_offset p + n, pk_good := pk_good p\<rparr>"])
      (use ok le in \<open>auto simp: pk_read_def Transcode_Read_enough pk_unread_def pk_bytes_def pk_ok_def
         add.commute\<close>)
qed

lemma pk_read_total:
  assumes "bd_ok (pk_buf p)"
  obtains bs p' where "pk_read p n = Some (bs, p')" "length bs = n" "pk_buf p' = pk_buf p"
proof (cases "pk_offset p + n \<le> bd_offset (pk_buf p)")
  case True
  then show thesis
    by (intro that[of "take n (drop (pk_offset p) (bd_bytes (pk_buf p)))" "p\<lparr>pk_offset := pk_offset p + n\<rparr>"])
      (use True assms in \<open>auto simp: pk_read_def Transcode_Read_enough\<close>)
next
  case False
  then show thesis
    by (intro that[of "replicate n 0" "p\<lparr>pk_offset := bd_offset (pk_buf p), pk_good := False\<rparr>"]) (auto simp: pk_read_def Transcode_Read_short)
qed

lemma Packet_newE:
  assumes "heap_ok H"
  obtains p where "Packet_new H = Some p" "pk_ok p" "pk_bytes p = replicate 8 0" "pk_offset p = 0"
    "pk_good p"
  using assms
  by (intro that[of "\<lparr> pk_buf = \<lparr> bd_size = 8, bd_offset = 8, bd_data = replicate 8 0 \<rparr>,
       pk_offset = 0, pk_good = True \<rparr>"])
    (auto simp: Packet_new_def calloc_block_ok pk_ok_def bd_ok_def pk_bytes_def bd_bytes_def)

lemma take_splice:
  assumes "8 \<le> n" "n \<le> length d" "length e = 4"
  shows "take n (take 4 d @ e @ drop 8 d) = take 4 (take n d) @ e @ drop 8 (take n d)"
  using assms by (simp add: drop_take min_def)

lemma SetOpcodeE:
  assumes "pk_ok p" "8 \<le> length (pk_bytes p)"
  obtains p' where "SetOpcode p op = Some p'" "pk_ok p'"
    "pk_bytes p' = take 4 (pk_bytes p) @ le_encode 4 op @ drop 8 (pk_bytes p)"
    "pk_offset p' = pk_offset p" "pk_good p' = pk_good p"
proof -
  let ?b = "pk_buf p"
  let ?d = "take 4 (bd_data ?b) @ le_encode 4 op @ drop 8 (bd_data ?b)"
  from assms have b: "8 \<le> bd_offset ?b" "bd_offset ?b \<le> length (bd_data ?b)" "length ?d = length (bd_data ?b)"
    by (auto simp: pk_ok_def pk_bytes_def bd_ok_def bd_bytes_def)
  have set: "SetOpcode p op = Some (p\<lparr> pk_buf := ?b\<lparr> bd_data := ?d \<rparr> \<rparr>)"
    using b(1,2) by (simp add: SetOpcode_def memcpy_at_Some)
  have bytes: "take (bd_offset ?b) ?d
      = take 4 (bd_bytes ?b) @ le_encode 4 op @ drop 8 (bd_bytes ?b)"
    unfolding bd_bytes_def by (rule take_splice[OF b(1,2)]) simp
  show thesis
    by (rule that[OF set])
      (use b(3) assms(1) bytes in \<open>simp_all add: pk_ok_def bd_ok_def pk_bytes_def bd_bytes_def\<close>)
qed

lemma GetOpcode_bytes:
  assumes "pk_ok p" "8 \<le> length (pk_bytes p)"
  shows "GetOpcode p = Some (le_decode (take 4 (drop 4 (pk_bytes p))))"
proof -
  from assms have "8 \<le> bd_offset (pk_buf p)" "bd_offset (pk_buf p) \<le> bd_size (pk_buf p)"
    "bd_size (pk_buf p) \<le> length (bd_data (pk_buf p))"
    by (auto simp: pk_ok_def pk_bytes_def bd_ok_def)
  then show ?thesis
    by (simp add: GetOpcode_def mem_read_def pk_bytes_def bd_bytes_def drop_take min_def)
qed

end
