(* ===== verification/Packet_Codec.thy ===== *)
theory Packet_Codec
  imports Packet
begin

text \<open>
  What the packet codecs promise: the wire format of a frame, the interface \<open>stream_codec\<close> every pair
  \<open>operator<<\<close>/\<open>operator>>\<close> implements, and the round trips through \<open>doEndpointEncode\<close> and
  \<open>doEndpointDecode\<close>.
\<close>

subsection \<open>Frames on the wire\<close>

lemma Transcode_Write_inplace:
  "bd_offset b + length src \<le> bd_size b \<Longrightarrow> bd_ok b \<Longrightarrow>
   Transcode_Write H b src = Some (b\<lparr> bd_data := take (bd_offset b) (bd_data b) @ src @
     drop (bd_offset b + length src) (bd_data b), bd_offset := bd_offset b + length src \<rparr>)"
  by (simp add: Transcode_Write_def Let_def memcpy_at_Some bd_ok_def)

lemma Packet_encodeE:
  assumes "heap_ok H" "pk_ok p" "4 \<le> length (pk_bytes p)"
  obtains r where "Packet_doEndpointEncode H p = Some r" "bd_ok r"
    "bd_bytes r = le_encode 4 (length (pk_bytes p)) @ drop 4 (pk_bytes p)"
proof -
  let ?n = "bd_offset (pk_buf p)" and ?d = "pk_bytes p"
  have n: "length ?d = ?n" "?n \<le> length (bd_data (pk_buf p))" and ge: "4 \<le> ?n"
    using assms by (auto simp: pk_ok_def pk_bytes_def bd_ok_def)
  have src: "mem_read (bd_data (pk_buf p)) 0 ?n = Some ?d"
    using n(2) by (simp add: mem_read_Some pk_bytes_def bd_bytes_def)
  show thesis
    by (rule that[of "\<lparr> bd_size = ?n, bd_offset = ?n, bd_data = le_encode 4 ?n @ drop 4 ?d \<rparr>"])
      (use assms(1) n(1) ge src in \<open>simp_all add: Packet_doEndpointEncode_def calloc_block_ok
         Transcode_Write_inplace bd_ok_def bd_bytes_def Let_def\<close>)
qed

lemma Packet_decodeE:
  assumes "heap_ok H" "bd_ok m" "4 \<le> bd_offset m"
    "le_decode (take 4 (bd_bytes m)) = sz" "sz \<le> bd_offset m"
  obtains p' where "Packet_doEndpointDecode H p m = Some p'" "bd_ok (pk_buf p')"
    "pk_bytes p' = take sz (bd_bytes m)" "pk_offset p' = 8" "pk_good p' = pk_good p"
proof -
  have rd: "Transcode_Read m (pk_good p) 0 4 = Some (take 4 (bd_bytes m), 4, pk_good p)"
    using assms by (simp add: Transcode_Read_enough)
  have len: "bd_offset m \<le> length (bd_data m)" using assms(2) by (simp add: bd_ok_def)
  let ?d = "take sz (bd_data (pk_buf p)) @ map (he_fill H) [length (bd_data (pk_buf p))..<sz]"
  have src: "mem_read (bd_data m) 0 sz = Some (take sz (bd_bytes m))"
    using len assms(5) by (simp add: mem_read_Some bd_bytes_def)
  have "bd_ok \<lparr> bd_size = sz, bd_offset = 0, bd_data = ?d \<rparr>" by (simp add: bd_ok_def)
  from Transcode_WriteE[OF assms(1) this, of "take sz (bd_bytes m)"] obtain b where b:
    "Transcode_Write H \<lparr> bd_size = sz, bd_offset = 0, bd_data = ?d \<rparr> (take sz (bd_bytes m)) = Some b"
    "bd_ok b" "bd_bytes b = take sz (bd_bytes m)"
    by (metis bd_bytes_def append_Nil bd.select_convs(2) take0)
  show thesis
    by (rule that[of "p\<lparr> pk_buf := b, pk_offset := 8, pk_good := pk_good p \<rparr>"])
      (use assms rd src b in \<open>simp_all add: Packet_doEndpointDecode_def realloc_block_ok pk_bytes_def\<close>)
qed

text \<open>The frame of a protobuf message: total length, opcode, body length, body.\<close>

definition wire_frame :: "nat \<Rightarrow> byte list \<Rightarrow> byte list" where
  "wire_frame op body =
     le_encode 4 (12 + length body) @ le_encode 4 op @ le_encode 4 (length body) @ body"

lemma length_wire_frame [simp]: "length (wire_frame op body) = 12 + length body"
  by (simp add: wire_frame_def)

lemma Protobuf_encodeE:
  assumes "heap_ok H"
  obtains r where "Protobuf_doEndpointEncode H b = Some r" "bd_ok r"
    "bd_bytes r = wire_frame (unat (pb_opcode b)) (pb_body b)"
    "bd_offset r = 12 + length (pb_body b)" "bd_size r = 12 + length (pb_body b)"
    "length (bd_data r) = 12 + length (pb_body b)"
proof -
  let ?n = "length (pb_body b)"
  show thesis
    by (rule that[of "\<lparr> bd_size = 12 + ?n, bd_offset = 12 + ?n,
          bd_data = wire_frame (unat (pb_opcode b)) (pb_body b) \<rparr>"])
      (use assms in \<open>simp_all add: Protobuf_doEndpointEncode_def calloc_block_ok
         Transcode_Write_inplace bd_ok_def bd_bytes_def wire_frame_def Let_def\<close>)
qed

subsection \<open>The interface of a stream codec\<close>

primrec put_all :: "(packet \<Rightarrow> 'a \<Rightarrow> packet option) \<Rightarrow> packet \<Rightarrow> 'a list \<Rightarrow> packet option" where
  "put_all put p [] = Some p"
| "put_all put p (x # xs) = do { p' \<leftarrow> put p x; put_all put p' xs }"

primrec get_all :: "(packet \<Rightarrow> ('a \<times> packet) option) \<Rightarrow> nat \<Rightarrow> packet \<Rightarrow> ('a list \<times> packet) option" where
  "get_all get 0 p = Some ([], p)"
| "get_all get (Suc n) p = do { (x, p') \<leftarrow> get p; (xs, p'') \<leftarrow> get_all get n p'; Some (x # xs, p'') }"

locale stream_codec =
  fixes put :: "heap_env \<Rightarrow> packet \<Rightarrow> 'a \<Rightarrow> packet option"
    and get :: "packet \<Rightarrow> ('a \<times> packet) option"
    and enc :: "'a \<Rightarrow> byte list"
    and valid :: "'a \<Rightarrow> bool"
  assumes put_appends: "heap_ok H \<Longrightarrow> pk_ok p \<Longrightarrow> valid x \<Longrightarrow>
      \<exists>p'. put H p x = Some p' \<and> pk_ok p' \<and> pk_bytes p' = pk_bytes p @ enc x
         \<and> pk_offset p' = pk_offset p \<and> pk_good p' = pk_good p"
    and get_reads: "pk_ok p \<Longrightarrow> valid x \<Longrightarrow> pk_unread p = enc x @ rest \<Longrightarrow>
      \<exists>p'. get p = Some (x, p') \<and> pk_ok p' \<and> pk_unread p' = rest \<and> pk_buf p' = pk_buf p
         \<and> pk_good p' = pk_good p"
begin

lemma put_all_appends:
  assumes "heap_ok H" "pk_ok p" "list_all valid xs"
  shows "\<exists>p'. put_all (put H) p xs = Some p' \<and> pk_ok p' \<and> pk_bytes p' = pk_bytes p @ concat (map enc xs)
           \<and> pk_offset p' = pk_offset p \<and> pk_good p' = pk_good p"
  using assms
proof (induction xs arbitrary: p)
  case (Cons x xs)
  then obtain p1 where "put H p x = Some p1" "pk_ok p1" "pk_bytes p1 = pk_bytes p @ enc x"
    "pk_offset p1 = pk_offset p" "pk_good p1 = pk_good p"
    using put_appends[of H p x] by auto
  with Cons.IH[of p1] Cons.prems show ?case by auto
qed simp

lemma get_all_reads:
  assumes "pk_ok p" "list_all valid xs" "pk_unread p = concat (map enc xs) @ rest"
  shows "\<exists>p'. get_all get (length xs) p = Some (xs, p') \<and> pk_ok p' \<and> pk_unread p' = rest
           \<and> pk_buf p' = pk_buf p \<and> pk_good p' = pk_good p"
  using assms
proof (induction xs arbitrary: p)
  case (Cons x xs)
  then obtain p1 where "get p = Some (x, p1)" "pk_ok p1" "pk_unread p1 = concat (map enc xs) @ rest"
    "pk_buf p1 = pk_buf p" "pk_good p1 = pk_good p"
    using get_reads[of p x "concat (map enc xs) @ rest"] by auto
  with Cons.IH[of p1] Cons.prems show ?case by auto
qed simp

text \<open>Values written to a fresh packet cross the wire: the receiver's packet yields the same values,
  in the same order, and the same opcode.\<close>

lemma wire_roundtrip:
  assumes "heap_ok H" "list_all valid xs" "8 + length (concat (map enc xs)) < 2 ^ 32" "op < 2 ^ 32"
    "pk_good p0"
  shows "\<exists>p p1 r p2 p3. Packet_new_opcode H op = Some p \<and> put_all (put H) p xs = Some p1
           \<and> Packet_doEndpointEncode H p1 = Some r \<and> Packet_doEndpointDecode H p0 r = Some p2
           \<and> GetOpcode p2 = Some op \<and> get_all get (length xs) p2 = Some (xs, p3)
           \<and> pk_unread p3 = [] \<and> pk_good p3"
proof -
  obtain q where q: "Packet_new H = Some q" "pk_ok q" "pk_bytes q = replicate 8 0" "pk_offset q = 0" "pk_good q"
    using Packet_newE[OF assms(1)] by metis
  from SetOpcodeE[OF q(2), of op] q(3) obtain p where p: "SetOpcode q op = Some p" "pk_ok p"
    "pk_bytes p = replicate 4 0 @ le_encode 4 op"
    by (auto simp: replicate_append_same)
  from put_all_appends[OF assms(1) p(2) assms(2)] obtain p1 where p1:
    "put_all (put H) p xs = Some p1" "pk_ok p1"
    "pk_bytes p1 = (replicate 4 0 @ le_encode 4 op) @ concat (map enc xs)"
    by (auto simp: p(3))
  have len: "length (pk_bytes p1) = 8 + length (concat (map enc xs))" by (simp add: p1(3))
  then obtain r where r: "Packet_doEndpointEncode H p1 = Some r" "bd_ok r"
    "bd_bytes r = le_encode 4 (length (pk_bytes p1)) @ drop 4 (pk_bytes p1)"
    using Packet_encodeE[OF assms(1) p1(2)] by auto
  have off: "bd_offset r = length (pk_bytes p1)"
    using length_bd_bytes[OF r(2)] len by (simp add: r(3))
  have size: "le_decode (take 4 (bd_bytes r)) = length (pk_bytes p1)"
    using assms(3) len by (simp add: r(3) le_decode_encode)
  from Packet_decodeE[OF assms(1) r(2) _ size, of p0] off len obtain p2 where p2:
    "Packet_doEndpointDecode H p0 r = Some p2" "bd_ok (pk_buf p2)"
    "pk_bytes p2 = take (length (pk_bytes p1)) (bd_bytes r)" "pk_offset p2 = 8" "pk_good p2 = pk_good p0"
    by auto
  have bytes: "pk_bytes p2 = le_encode 4 (length (pk_bytes p1)) @ le_encode 4 op @ concat (map enc xs)"
    by (simp add: p2(3) r(3) p1(3))
  have ok: "pk_ok p2" using p2(2,4) arg_cong[OF bytes, of length]
    by (simp add: pk_ok_def pk_bytes_def)
  have unread: "pk_unread p2 = concat (map enc xs) @ []" by (simp add: pk_unread_def bytes p2(4))
  have opc: "GetOpcode p2 = Some op"
    using GetOpcode_bytes[OF ok] assms(4) by (simp add: bytes le_decode_encode)
  from get_all_reads[OF ok assms(2) unread] obtain p3 where
    "get_all get (length xs) p2 = Some (xs, p3)" "pk_unread p3 = []" "pk_good p3 = pk_good p2"
    by auto
  then show ?thesis
    using q(1) p(1) p1(1) r(1) p2(1,5) opc assms(5) by (auto simp: Packet_new_opcode_def)
qed

end

subsection \<open>Pairs of values\<close>

definition put_pair ::
  "(heap_env \<Rightarrow> packet \<Rightarrow> 'a \<Rightarrow> packet option) \<Rightarrow> (heap_env \<Rightarrow> packet \<Rightarrow> 'b \<Rightarrow> packet option)
   \<Rightarrow> heap_env \<Rightarrow> packet \<Rightarrow> 'a \<times> 'b \<Rightarrow> packet option" where
  "put_pair pa pb H p x = do { p' \<leftarrow> pa H p (fst x); pb H p' (snd x) }"

definition get_pair ::
  "(packet \<Rightarrow> ('a \<times> packet) option) \<Rightarrow> (packet \<Rightarrow> ('b \<times> packet) option)
   \<Rightarrow> packet \<Rightarrow> (('a \<times> 'b) \<times> packet) option" where
  "get_pair ga gb p = do { (a, p') \<leftarrow> ga p; (b, p'') \<leftarrow> gb p'; Some ((a, b), p'') }"

locale codec_pair = A: stream_codec putA getA encA validA + B: stream_codec putB getB encB validB
  for putA :: "heap_env \<Rightarrow> packet \<Rightarrow> 'a \<Rightarrow> packet option" and getA encA validA
    and putB :: "heap_env \<Rightarrow> packet \<Rightarrow> 'b \<Rightarrow> packet option" and getB encB validB
begin

lemma pair_put:
  assumes "heap_ok H" "pk_ok p" "validA (fst x)" "validB (snd x)"
  shows "\<exists>p'. put_pair putA putB H p x = Some p' \<and> pk_ok p'
      \<and> pk_bytes p' = pk_bytes p @ encA (fst x) @ encB (snd x)
      \<and> pk_offset p' = pk_offset p \<and> pk_good p' = pk_good p"
proof -
  from A.put_appends[OF assms(1-3)] obtain p1 where "putA H p (fst x) = Some p1" "pk_ok p1"
    "pk_bytes p1 = pk_bytes p @ encA (fst x)" "pk_offset p1 = pk_offset p" "pk_good p1 = pk_good p" by auto
  with B.put_appends[OF assms(1) this(2) assms(4)] show ?thesis by (auto simp: put_pair_def)
qed

lemma pair_get:
  assumes "pk_ok p" "validA (fst x)" "validB (snd x)" "pk_unread p = (encA (fst x) @ encB (snd x)) @ rest"
  shows "\<exists>p'. get_pair getA getB p = Some (x, p') \<and> pk_ok p' \<and> pk_unread p' = rest
      \<and> pk_buf p' = pk_buf p \<and> pk_good p' = pk_good p"
proof -
  from A.get_reads[OF assms(1,2), of "encB (snd x) @ rest"] assms(4) obtain p1 where
    "getA p = Some (fst x, p1)" "pk_ok p1" "pk_unread p1 = encB (snd x) @ rest"
    "pk_buf p1 = pk_buf p" "pk_good p1 = pk_good p" by auto
  with B.get_reads[OF this(2) assms(3) this(3)] show ?thesis by (auto simp: get_pair_def)
qed

end

sublocale codec_pair \<subseteq> P: stream_codec "put_pair putA putB" "get_pair getA getB"
    "\<lambda>x. encA (fst x) @ encB (snd x)" "\<lambda>x. validA (fst x) \<and> validB (snd x)"
  by unfold_locales (blast intro: pair_put pair_get)+

subsection \<open>The codecs of the code\<close>

abbreviation enc_word :: "'a::len word \<Rightarrow> byte list" where
  "enc_word v \<equiv> le_encode (LENGTH('a) div 8) (unat v)"

definition enc_string :: "byte list \<Rightarrow> byte list" where
  "enc_string s = le_encode 4 (length s) @ s"

definition valid_string :: "byte list \<Rightarrow> bool" where
  "valid_string s \<longleftrightarrow> length s < 2 ^ 32 - 1"

lemma stream_codec_word:
  assumes "8 dvd LENGTH('a::len)"
  shows "stream_codec (put_word :: heap_env \<Rightarrow> packet \<Rightarrow> 'a word \<Rightarrow> packet option) get_word enc_word (\<lambda>_. True)"
proof
  fix H p and x :: "'a word"
  assume "heap_ok H" "pk_ok p"
  from pk_writeE[OF this, of "enc_word x"] show "\<exists>p'. put_word H p x = Some p' \<and> pk_ok p'
    \<and> pk_bytes p' = pk_bytes p @ enc_word x \<and> pk_offset p' = pk_offset p \<and> pk_good p' = pk_good p"
    by (metis put_word_def)
next
  fix p and x :: "'a word" and rest
  assume p: "pk_ok p" "pk_unread p = enc_word x @ rest"
  have "(256 :: nat) ^ (LENGTH('a) div 8) = 2 ^ (8 * (LENGTH('a) div 8))"
    by (simp add: power_mult)
  then have "unat x < 256 ^ (LENGTH('a) div 8)"
    using assms unsigned_less[of x, where ?'a = nat] by simp
  then have dec: "word_of_nat (le_decode (enc_word x)) = x" by (simp add: le_decode_encode)
  from p(2) have "LENGTH('a) div 8 \<le> length (pk_unread p)" by simp
  then obtain p' where "pk_read p (LENGTH('a) div 8) = Some (enc_word x, p')" "pk_ok p'" "pk_unread p' = rest"
    "pk_buf p' = pk_buf p" "pk_good p' = pk_good p"
    by (rule pk_readE[OF p(1)]) (simp add: p(2))
  with dec show "\<exists>p'. get_word p = Some (x, p') \<and> pk_ok p'
    \<and> pk_unread p' = rest \<and> pk_buf p' = pk_buf p \<and> pk_good p' = pk_good p"
    by (auto simp: get_word_def)
qed

interpretation u8: stream_codec "put_word :: heap_env \<Rightarrow> packet \<Rightarrow> 8 word \<Rightarrow> packet option" get_word
    enc_word "\<lambda>_. True"
  by (rule stream_codec_word) simp

interpretation u16: stream_codec "put_word :: heap_env \<Rightarrow> packet \<Rightarrow> 16 word \<Rightarrow> packet option" get_word
    enc_word "\<lambda>_. True"
  by (rule stream_codec_word) simp

interpretation u32: stream_codec "put_word :: heap_env \<Rightarrow> packet \<Rightarrow> 32 word \<Rightarrow> packet option" get_word
    enc_word "\<lambda>_. True"
  by (rule stream_codec_word) simp

interpretation u64: stream_codec "put_word :: heap_env \<Rightarrow> packet \<Rightarrow> 64 word \<Rightarrow> packet option" get_word
    enc_word "\<lambda>_. True"
  by (rule stream_codec_word) simp

lemma put_string_appends:
  assumes "heap_ok H" "pk_ok p" "valid_string s"
  shows "\<exists>p'. put_string H p s = Some p' \<and> pk_ok p' \<and> pk_bytes p' = pk_bytes p @ enc_string s
    \<and> pk_offset p' = pk_offset p \<and> pk_good p' = pk_good p"
proof -
  have len: "length s mod 2 ^ 32 = length s" using assms(3) by (simp add: valid_string_def)
  from pk_writeE[OF assms(1,2), of "le_encode 4 (length s)"] obtain p1 where p1:
    "pk_write H p (le_encode 4 (length s)) = Some p1" "pk_ok p1"
    "pk_bytes p1 = pk_bytes p @ le_encode 4 (length s)" "pk_offset p1 = pk_offset p" "pk_good p1 = pk_good p"
    by metis
  from pk_writeE[OF assms(1) p1(2), of s] p1 len show ?thesis
    by (auto simp: put_string_def enc_string_def Let_def)
qed

lemma get_string_reads:
  assumes "pk_ok p" "valid_string s" "pk_unread p = enc_string s @ rest"
  shows "\<exists>p'. get_string p acc = Some (acc @ s, p') \<and> pk_ok p' \<and> pk_unread p' = rest
    \<and> pk_buf p' = pk_buf p \<and> pk_good p' = pk_good p"
proof -
  have un: "pk_unread p = le_encode 4 (length s) @ s @ rest" and len: "length s < 2 ^ 32 - 1"
    using assms(2,3) by (simp_all add: enc_string_def valid_string_def)
  have dec: "le_decode (le_encode 4 (length s)) = length s" using len by (simp add: le_decode_encode)
  obtain p1 where p1: "pk_read p 4 = Some (le_encode 4 (length s), p1)" "pk_ok p1"
    "pk_unread p1 = s @ rest" "pk_buf p1 = pk_buf p" "pk_good p1 = pk_good p"
    by (rule pk_readE[OF assms(1), of 4]) (auto simp: un)
  obtain p2 where p2: "pk_read p1 (length s) = Some (s, p2)" "pk_ok p2"
    "pk_unread p2 = rest" "pk_buf p2 = pk_buf p" "pk_good p2 = pk_good p"
    by (rule pk_readE[OF p1(2), of "length s"]) (auto simp: p1)
  have cap: "(length s + 1) mod 2 ^ 32 = length s + 1" using len by simp
  show ?thesis using p1(1) p2 cap
    by (simp add: get_string_def dec Let_def memcpy_at_Some)
qed

interpretation str: stream_codec put_string "\<lambda>p. get_string p []" enc_string valid_string
  using put_string_appends get_string_reads[where acc = "[]"] by unfold_locales auto

interpretation str_u32: codec_pair put_string "\<lambda>p. get_string p []" enc_string valid_string
    "put_word :: heap_env \<Rightarrow> packet \<Rightarrow> 32 word \<Rightarrow> packet option" get_word enc_word "\<lambda>_. True" ..

subsection \<open>Properties\<close>

text \<open>C24: what a client's \<open>ProtobufTranscode::Encode\<close> puts on the wire is, after
  \<open>PacketTranscode\<close>'s decoding and \<open>FromPacketTranscode\<close>, the same opcode and the same body, for every
  body whose frame length fits its 32-bit field, whatever the receiving packet held before.\<close>

theorem protobuf_packet_roundtrip:
  assumes "heap_ok H" "12 + length (pb_body b) < 2 ^ 32"
  shows "\<exists>r p q. Protobuf_doEndpointEncode H b = Some r \<and> Packet_doEndpointDecode H p0 r = Some p
    \<and> FromPacketTranscode (Protobuf_new 0 []) p = Some (b, q)
    \<and> pk_unread q = [] \<and> pk_good q = pk_good p0"
proof -
  let ?op = "unat (pb_opcode b)" and ?body = "pb_body b"
  obtain r where r: "Protobuf_doEndpointEncode H b = Some r" "bd_ok r" "bd_bytes r = wire_frame ?op ?body"
    "bd_offset r = 12 + length ?body"
    using Protobuf_encodeE[OF assms(1)] by metis
  have size: "le_decode (take 4 (bd_bytes r)) = 12 + length ?body"
    using assms(2) by (simp add: r(3) wire_frame_def le_decode_encode)
  from Packet_decodeE[OF assms(1) r(2) _ size, of p0] r(4) obtain p where p:
    "Packet_doEndpointDecode H p0 r = Some p" "bd_ok (pk_buf p)" "pk_bytes p = wire_frame ?op ?body"
    "pk_offset p = 8" "pk_good p = pk_good p0"
    by (auto simp: r(3))
  have ok: "pk_ok p"
    using p(2,4) arg_cong[OF p(3), of length] by (simp add: pk_ok_def pk_bytes_def)
  have op: "?op < 256 ^ 4" using unsigned_less[of "pb_opcode b", where ?'a = nat] by simp
  then have opc: "GetOpcode p = Some ?op"
    using GetOpcode_bytes[OF ok] by (simp add: p(3) wire_frame_def le_decode_encode)
  have "pk_unread p = enc_string ?body @ []"
    by (simp add: pk_unread_def p(3,4) wire_frame_def enc_string_def)
  moreover have "valid_string ?body" using assms(2) by (simp add: valid_string_def)
  ultimately obtain q where "get_string p [] = Some ([] @ ?body, q)" "pk_unread q = []" "pk_good q = pk_good p"
    using get_string_reads[OF ok, of ?body "[]" "[]"] by auto
  then show ?thesis
    using r(1) p(1,5) opc by (auto simp: FromPacketTranscode_def Protobuf_new_def)
qed

theorem protobuf_packet_roundtrip_witness:
  "\<exists>p0 r p q. Packet_new plenty = Some p0 \<and> Protobuf_doEndpointEncode plenty (Protobuf_new 101 [7, 8, 9]) = Some r
    \<and> Packet_doEndpointDecode plenty p0 r = Some p
    \<and> FromPacketTranscode (Protobuf_new 0 []) p = Some (Protobuf_new 101 [7, 8, 9], q)
    \<and> pk_unread q = [] \<and> pk_good q"
proof -
  obtain p0 where "Packet_new plenty = Some p0" "pk_good p0" using Packet_newE[of plenty] by auto
  with protobuf_packet_roundtrip[of plenty "Protobuf_new 101 [7, 8, 9]" p0] show ?thesis
    by (simp add: Protobuf_new_def)
qed

text \<open>A sequence of strings and 32-bit integers written to a packet with \<open>operator<<\<close>, encoded,
  and decoded by the receiver is read back by \<open>operator>>\<close> value by value, with the opcode it was
  sent under.\<close>

theorem packet_stream_roundtrip:
  assumes "heap_ok H" "list_all (\<lambda>x. valid_string (fst x)) xs" "op < 2 ^ 32" "pk_good p0"
    "8 + length (concat (map (\<lambda>x. enc_string (fst x) @ enc_word (snd x)) xs)) < 2 ^ 32"
  shows "\<exists>p p1 r p2 p3. Packet_new_opcode H op = Some p
    \<and> put_all (put_pair put_string put_word H) p (xs :: (byte list \<times> u32) list) = Some p1
    \<and> Packet_doEndpointEncode H p1 = Some r \<and> Packet_doEndpointDecode H p0 r = Some p2
    \<and> GetOpcode p2 = Some op
    \<and> get_all (get_pair (\<lambda>p. get_string p []) get_word) (length xs) p2 = Some (xs, p3)
    \<and> pk_unread p3 = [] \<and> pk_good p3"
  by (rule str_u32.P.wire_roundtrip) (use assms in simp_all)

theorem packet_stream_roundtrip_witness:
  "\<exists>p p1 r p2 p3. Packet_new_opcode plenty 7 = Some p
    \<and> put_all (put_pair put_string put_word plenty) p [([1, 2], 5 :: u32), ([], 6)] = Some p1
    \<and> Packet_doEndpointEncode plenty p1 = Some r \<and> Packet_doEndpointDecode plenty p r = Some p2
    \<and> GetOpcode p2 = Some 7
    \<and> get_all (get_pair (\<lambda>p. get_string p []) get_word) (Suc (Suc 0)) p2 = Some ([([1, 2], 5 :: u32), ([], 6)], p3)
    \<and> pk_unread p3 = [] \<and> pk_good p3"
proof -
  obtain p where p: "Packet_new_opcode plenty 7 = Some p" "pk_good p"
    by (auto simp: Packet_new_opcode_def Packet_new_def SetOpcode_def calloc_block_ok memcpy_at_def)
  show ?thesis
    using packet_stream_roundtrip[of plenty "[([1, 2], 5 :: u32), ([], 6)]" 7 p] p
    by (simp add: valid_string_def enc_string_def del: put_all.simps get_all.simps)
qed

text \<open>C25: reading a string from any received packet is memory-safe unless the four bytes of its
  length are all \<open>0xFF\<close>; then the 32-bit \<open>len + 1\<close> is 0 and the read fills a block of no bytes.\<close>

theorem get_string_unsafe_iff:
  assumes "bd_ok (pk_buf p)"
  shows "get_string p acc = None \<longleftrightarrow> (\<exists>p1. pk_read p 4 = Some ([0xFF, 0xFF, 0xFF, 0xFF], p1))"
proof -
  obtain lb p1 where lb: "pk_read p 4 = Some (lb, p1)" "length lb = 4" "pk_buf p1 = pk_buf p"
    using pk_read_total[OF assms] by metis
  obtain bs p2 where bs: "pk_read p1 (le_decode lb) = Some (bs, p2)" "length bs = le_decode lb"
    using pk_read_total[of p1 "le_decode lb"] assms lb(3) by metis
  have bound: "le_decode lb < 2 ^ 32" using le_decode_bound[of lb] lb(2) by simp
  have "get_string p acc = None \<longleftrightarrow> le_decode lb = 2 ^ 32 - 1"
  proof (cases "le_decode lb = 2 ^ 32 - 1")
    case True
    then show ?thesis using lb bs by (simp add: get_string_def memcpy_at_None)
  next
    case False
    then have "(le_decode lb + 1) mod 2 ^ 32 = le_decode lb + 1" using bound by simp
    then show ?thesis using lb bs False by (simp add: get_string_def Let_def memcpy_at_Some)
  qed
  also have "\<dots> \<longleftrightarrow> lb = le_encode 4 (2 ^ 32 - 1)"
    using le_encode_decode[of lb] lb(2) by (auto simp: le_decode_encode)
  also have "le_encode 4 (2 ^ 32 - 1) = [0xFF, 0xFF, 0xFF, 0xFF]"
    by (simp add: le_encode_4)
  finally show ?thesis using lb(1) by simp
qed

theorem get_string_unsafe_iff_witness:
  "get_string \<lparr> pk_buf = \<lparr> bd_size = 12, bd_offset = 12, bd_data = replicate 12 0xFF \<rparr>,
                pk_offset = 8, pk_good = True \<rparr> [] = None"
  by (subst get_string_unsafe_iff)
    (simp_all add: bd_ok_def pk_read_def Transcode_Read_def mem_read_def numeral_eq_Suc)

text \<open>\<open>operator>>(PacketTranscode&)\<close> into a fresh packet checks the target's size against the body
  alone and forgets the header it writes behind: a body of 1 to 8 bytes overflows the target, any
  other body is copied whole.\<close>

theorem get_packet_fresh:
  assumes "heap_ok H" "Packet_new H = Some v" "pk_ok p" "length body < 2 ^ 32"
    "pk_unread p = enc_string body @ rest"
  shows "(get_packet H p v = None \<longleftrightarrow> body \<noteq> [] \<and> length body \<le> 8)
    \<and> (body = [] \<or> 8 < length body \<longrightarrow> (\<exists>v' p'. get_packet H p v = Some (v', p')
           \<and> pk_unread v' = body \<and> pk_unread p' = rest \<and> pk_ok v'))"
proof -
  let ?n = "length body"
  have un: "pk_unread p = le_encode 4 ?n @ body @ rest" using assms(5) by (simp add: enc_string_def)
  have dec: "le_decode (le_encode 4 ?n) = ?n" using assms(4) by (simp add: le_decode_encode)
  obtain p1 where p1: "pk_read p 4 = Some (le_encode 4 ?n, p1)" "pk_ok p1" "pk_unread p1 = body @ rest"
    by (rule pk_readE[OF assms(3), of 4]) (auto simp: un)
  obtain p2 where p2: "pk_read p1 ?n = Some (body, p2)" "pk_ok p2" "pk_unread p2 = rest"
    by (rule pk_readE[OF p1(2), of ?n]) (auto simp: p1)
  have v: "pk_buf v = \<lparr> bd_size = 8, bd_offset = 8, bd_data = replicate 8 0 \<rparr>"
    using assms(1,2) by (auto simp: Packet_new_def calloc_block_ok)
  have le: "?n \<le> 8 \<Longrightarrow> get_packet H p v = None \<longleftrightarrow> body \<noteq> []"
    using p1(1) p2(1) v by (simp add: get_packet_def dec Let_def memcpy_at_def)
  have gt: "\<exists>v' p'. get_packet H p v = Some (v', p') \<and> pk_unread v' = body \<and> pk_unread p' = rest \<and> pk_ok v'"
    if "body = [] \<or> 8 < ?n"
    using that p1(1) p2(1,3) v assms(1)
    by (auto simp: get_packet_def dec Let_def memcpy_at_def realloc_block_ok pk_unread_def pk_bytes_def
        bd_bytes_def pk_ok_def bd_ok_def)
  have "get_packet H p v = None \<longleftrightarrow> body \<noteq> [] \<and> ?n \<le> 8"
    using le gt by (cases "?n \<le> 8") auto
  with gt show ?thesis by blast
qed

theorem get_packet_fresh_witness:
  "\<exists>v p. Packet_new plenty = Some v \<and> get_packet plenty p v = None"
proof -
  obtain v where v: "Packet_new plenty = Some v" using Packet_newE[of plenty] by auto
  let ?p = "\<lparr> pk_buf = \<lparr> bd_size = 6, bd_offset = 6, bd_data = enc_string [1, 2] \<rparr>,
              pk_offset = 0, pk_good = True \<rparr>"
  have "pk_ok ?p" "pk_unread ?p = enc_string [1, 2] @ []"
    by (simp_all add: pk_ok_def bd_ok_def enc_string_def pk_unread_def pk_bytes_def bd_bytes_def)
  with v get_packet_fresh[of plenty v ?p "[1, 2]" "[]"] show ?thesis by auto
qed

text \<open>\<open>ProtobufTranscode::Decode\<close> of exactly the frame \<open>ProtobufTranscode::Encode\<close> produced reads the
  body behind the end of the frame instead of behind its header: the two are no round trip, and on a
  block that holds just the frame the read is out of bounds.\<close>

theorem protobuf_decode_out_of_bounds:
  assumes "heap_ok H" "pb_body b \<noteq> []" "12 + length (pb_body b) < 2 ^ 32"
  shows "\<exists>r. Protobuf_doEndpointEncode H b = Some r \<and> Protobuf_doEndpointDecode b0 good r = None"
proof -
  let ?n = "12 + length (pb_body b)"
  obtain r where r: "Protobuf_doEndpointEncode H b = Some r" "bd_ok r"
    "bd_bytes r = wire_frame (unat (pb_opcode b)) (pb_body b)" "bd_offset r = ?n" "length (bd_data r) = ?n"
    using Protobuf_encodeE[OF assms(1)] by metis
  have "Transcode_Read r good 0 4 = Some (le_encode 4 ?n, 4, good)"
    using r by (simp add: Transcode_Read_enough wire_frame_def)
  moreover have "le_decode (le_encode 4 ?n) = ?n" using assms(3) by (simp add: le_decode_encode)
  ultimately show ?thesis using r(1,4,5)
    by (auto simp: Protobuf_doEndpointDecode_def Let_def mem_read_Some mem_read_None)
qed

theorem protobuf_decode_out_of_bounds_witness:
  "\<exists>r. Protobuf_doEndpointEncode plenty (Protobuf_new 100 [1]) = Some r
     \<and> Protobuf_doEndpointDecode (Protobuf_new 0 []) True r = None"
  by (rule protobuf_decode_out_of_bounds) (simp_all add: Protobuf_new_def)

text \<open>\<open>Transcode::Write\<close> appends its bytes whenever the allocator can serve it, and keeps the
  buffer well-formed; when the allocator fails, its error path clears memory behind the old block.\<close>

theorem Transcode_Write_correct:
  assumes "bd_ok b" "bd_size b = length (bd_data b)"
  shows "(heap_ok H \<longrightarrow> (\<exists>b'. Transcode_Write H b src = Some b' \<and> bd_ok b' \<and> bd_bytes b' = bd_bytes b @ src))
    \<and> ((\<forall>n. \<not> he_ok H n) \<longrightarrow>
         (Transcode_Write H b src = None \<longleftrightarrow> bd_size b < bd_offset b + length src))"
proof (intro conjI impI)
  assume "heap_ok H"
  then show "\<exists>b'. Transcode_Write H b src = Some b' \<and> bd_ok b' \<and> bd_bytes b' = bd_bytes b @ src"
    using Transcode_Write_ok[OF _ assms(1)] by blast
next
  assume fail: "\<forall>n. \<not> he_ok H n"
  show "Transcode_Write H b src = None \<longleftrightarrow> bd_size b < bd_offset b + length src"
  proof (cases "bd_size b < bd_offset b + length src")
    case False
    then show ?thesis using assms by (simp add: Transcode_Write_inplace)
  next
    case True
    let ?s0 = "(if bd_size b = 0 then 1 else bd_size b) * 2"
    have "0 < ?s0" by simp
    then obtain s where s: "grow_loop (length src + bd_offset b) ?s0 = Some s" "?s0 \<le> s"
      using grow_loop_Some[of ?s0 "length src + bd_offset b"] by blast
    have "length (bd_data b) < s" using s(2) assms(2) by (cases "bd_data b") auto
    moreover have "realloc_block H 16 (bd_data b) s = None" using fail by (simp add: realloc_block_def)
    ultimately show ?thesis using True s(1) assms
      by (simp add: Transcode_Write_def Let_def memset_at_def memcpy_at_None bd_ok_def add.commute)
  qed
qed

theorem Transcode_Write_correct_witness:
  "Transcode_Write starved \<lparr> bd_size = 8, bd_offset = 8, bd_data = replicate 8 0 \<rparr> [1] = None"
  using Transcode_Write_correct[of "\<lparr> bd_size = 8, bd_offset = 8, bd_data = replicate 8 0 \<rparr>" starved "[1]"]
  by (simp add: bd_ok_def starved_def)

end
