(* ===== verification/Queues.thy ===== *)
theory Queues
  imports WB_Prelude "HOL-Library.Multiset"
begin

text \<open>
  The two queues between the network thread and the main thread:
  \<open>framework/base/circularfifo_memory_sequential_consistent.hpp\<close> (a ring buffer for one producer and
  one consumer) and \<open>framework/base/double_buffer_queue.h\<close> (two \<open>std::queue\<close>s that change roles).
  Both are given as whole operations, which implement the interface \<open>fifo\<close>, and as the interleaved
  atomic steps of a producer and a consumer.
\<close>

subsection \<open>The interface\<close>

text \<open>The client's loop \<open>while (queue.pop(&x)) ...\<close>: the values it receives.\<close>

partial_function (option) drain :: "('q \<Rightarrow> 'a option \<times> 'q) \<Rightarrow> 'q \<Rightarrow> ('a list \<times> 'q) option" where
  "drain popf q = (case popf q of
     (None, q') \<Rightarrow> Some ([], q')
   | (Some x, q') \<Rightarrow> do { (xs, q'') \<leftarrow> drain popf q'; Some (x # xs, q'') })"

text \<open>\<open>ready\<close> is the number of elements \<open>pop\<close> can deliver before the producer's side is needed.\<close>

locale fifo =
  fixes invar :: "'q \<Rightarrow> bool"
    and content :: "'q \<Rightarrow> 'a list"
    and ready :: "'q \<Rightarrow> nat"
    and push :: "'q \<Rightarrow> 'a \<Rightarrow> bool \<times> 'q"
    and pop :: "'q \<Rightarrow> 'a option \<times> 'q"
  assumes push_invar: "invar q \<Longrightarrow> push q x = (r, q') \<Longrightarrow> invar q'"
    and push_content: "invar q \<Longrightarrow> push q x = (r, q') \<Longrightarrow> content q' = content q @ (if r then [x] else [])"
    and pop_None: "invar q \<Longrightarrow> pop q = (None, q') \<Longrightarrow> q' = q \<and> ready q = 0"
    and pop_Some: "invar q \<Longrightarrow> pop q = (Some x, q') \<Longrightarrow>
          invar q' \<and> content q = x # content q' \<and> ready q = Suc (ready q')"
begin

lemma drain_ready:
  assumes "invar q"
  shows "\<exists>q'. drain pop q = Some (take (ready q) (content q), q') \<and> invar q'
     \<and> content q' = drop (ready q) (content q) \<and> ready q' = 0"
  using assms
proof (induction "ready q" arbitrary: q)
  case 0
  obtain r q' where r: "pop q = (r, q')" by (cases "pop q")
  with 0 have none: "r = None" using pop_Some[of q _ q'] by (cases r) auto
  with pop_None[OF 0(2)] 0 r show ?case by (subst drain.simps) auto
next
  case (Suc n)
  show ?case
  proof (cases "pop q")
    case (Pair r q1)
    then obtain x where x: "pop q = (Some x, q1)" using pop_None[OF Suc(3)] Suc(2) by (cases r) auto
    from pop_Some[OF Suc(3) x] Suc(2) have q1: "invar q1" "content q = x # content q1" "n = ready q1" "ready q = Suc n"
      by auto
    from Suc(1)[OF q1(3,1)] q1 x show ?thesis by (subst drain.simps) auto
  qed
qed

text \<open>A push is delivered after everything that was queued before it, and only once.\<close>

lemma push_then_pops:
  assumes "invar q" "push q x = (True, q')"
  shows "content q' = content q @ [x]" "invar q'"
  using push_content[OF assms] push_invar[OF assms] by auto

end

subsection \<open>CircularFifo\<close>

text \<open>\<open>N\<close> is the template parameter \<open>Size\<close>; the array has \<open>Capacity = Size + 1\<close> slots.\<close>

record 'a cfifo =
  cf_tail :: nat
  cf_head :: nat
  cf_array :: "'a list"

definition cf_increment :: "nat \<Rightarrow> nat \<Rightarrow> nat" where
  "cf_increment N idx = (idx + 1) mod (N + 1)"

definition cf_new :: "'a list \<Rightarrow> 'a cfifo" where
  "cf_new init = \<lparr> cf_tail = 0, cf_head = 0, cf_array = init \<rparr>"

definition cf_push :: "nat \<Rightarrow> 'a cfifo \<Rightarrow> 'a \<Rightarrow> bool \<times> 'a cfifo" where
  "cf_push N q item =
     (let current_tail = cf_tail q; next_tail = cf_increment N current_tail in
      if next_tail \<noteq> cf_head q
      then (True, q\<lparr> cf_array := (cf_array q)[current_tail := item], cf_tail := next_tail \<rparr>)
      else (False, q))"

definition cf_pop :: "nat \<Rightarrow> 'a cfifo \<Rightarrow> 'a option \<times> 'a cfifo" where
  "cf_pop N q =
     (let current_head = cf_head q in
      if current_head = cf_tail q then (None, q)
      else (Some (cf_array q ! current_head), q\<lparr> cf_head := cf_increment N current_head \<rparr>))"

definition cf_wasEmpty :: "'a cfifo \<Rightarrow> bool" where
  "cf_wasEmpty q \<longleftrightarrow> cf_head q = cf_tail q"

definition cf_wasFull :: "nat \<Rightarrow> 'a cfifo \<Rightarrow> bool" where
  "cf_wasFull N q \<longleftrightarrow> cf_increment N (cf_tail q) = cf_head q"

definition cf_ok :: "nat \<Rightarrow> 'a cfifo \<Rightarrow> bool" where
  "cf_ok N q \<longleftrightarrow> length (cf_array q) = N + 1 \<and> cf_tail q \<le> N \<and> cf_head q \<le> N"

definition cf_count :: "nat \<Rightarrow> 'a cfifo \<Rightarrow> nat" where
  "cf_count N q = (if cf_head q \<le> cf_tail q then cf_tail q - cf_head q else N + 1 + cf_tail q - cf_head q)"

definition cf_slot :: "nat \<Rightarrow> nat \<Rightarrow> nat" where
  "cf_slot N i = (if i \<le> N then i else i - (N + 1))"

definition cf_content :: "nat \<Rightarrow> 'a cfifo \<Rightarrow> 'a list" where
  "cf_content N q = map (\<lambda>i. cf_array q ! cf_slot N (cf_head q + i)) [0..<cf_count N q]"

lemma cf_increment_slot: "i \<le> N \<Longrightarrow> cf_increment N i = cf_slot N (i + 1)"
  by (auto simp: cf_increment_def cf_slot_def mod_if)

lemma cf_ok_new: "length init = N + 1 \<Longrightarrow> cf_ok N (cf_new init)"
  by (simp add: cf_ok_def cf_new_def)

lemma cf_content_new [simp]: "cf_content N (cf_new init) = []"
  by (simp add: cf_content_def cf_count_def cf_new_def)

lemma cf_count_le: "cf_ok N q \<Longrightarrow> cf_count N q \<le> N"
  by (auto simp: cf_ok_def cf_count_def)

lemma cf_full_iff: "cf_ok N q \<Longrightarrow> cf_wasFull N q \<longleftrightarrow> length (cf_content N q) = N"
  by (auto simp: cf_ok_def cf_wasFull_def cf_content_def cf_count_def cf_increment_slot cf_slot_def)

lemma cf_empty_iff: "cf_ok N q \<Longrightarrow> cf_wasEmpty q \<longleftrightarrow> cf_content N q = []"
  by (auto simp: cf_ok_def cf_wasEmpty_def cf_content_def cf_count_def)

text \<open>Writing the slot at the tail and publishing it appends; publishing the next head removes.\<close>

lemma cf_ok_write: "cf_ok N q \<Longrightarrow> cf_ok N (q\<lparr> cf_array := (cf_array q)[i := x] \<rparr>)"
  by (simp add: cf_ok_def)

lemma cf_slot_tail:
  assumes "cf_ok N q" "i < cf_count N q"
  shows "cf_slot N (cf_head q + i) \<noteq> cf_tail q" "cf_slot N (cf_head q + i) \<le> N"
  using assms by (auto simp: cf_ok_def cf_count_def cf_slot_def split: if_splits)

lemma cf_content_write:
  assumes "cf_ok N q"
  shows "cf_content N (q\<lparr> cf_array := (cf_array q)[cf_tail q := x] \<rparr>) = cf_content N q"
proof -
  have "cf_count N (q\<lparr> cf_array := (cf_array q)[cf_tail q := x] \<rparr>) = cf_count N q"
    by (simp add: cf_count_def)
  then show ?thesis
    using nth_list_update_neq[OF not_sym[OF cf_slot_tail(1)[OF assms]]] by (auto simp: cf_content_def)
qed

lemma cf_content_publish:
  assumes "cf_ok N q" "\<not> cf_wasFull N q" "cf_array q ! cf_tail q = x"
  shows "cf_content N (q\<lparr> cf_tail := cf_increment N (cf_tail q) \<rparr>) = cf_content N q @ [x]"
    "cf_ok N (q\<lparr> cf_tail := cf_increment N (cf_tail q) \<rparr>)"
proof -
  let ?q = "q\<lparr> cf_tail := cf_increment N (cf_tail q) \<rparr>"
  have "cf_count N ?q = Suc (cf_count N q)"
    using assms by (auto simp: cf_ok_def cf_wasFull_def cf_count_def cf_increment_slot cf_slot_def)
  moreover have "cf_slot N (cf_head q + cf_count N q) = cf_tail q"
    using assms by (auto simp: cf_ok_def cf_count_def cf_slot_def)
  ultimately show "cf_content N ?q = cf_content N q @ [x]"
    using assms(3) by (simp add: cf_content_def)
  show "cf_ok N ?q" using assms(1) by (simp add: cf_ok_def cf_increment_def less_Suc_eq_le[symmetric])
qed

lemma cf_content_advance:
  assumes "cf_ok N q" "cf_head q \<noteq> cf_tail q"
  shows "cf_content N q = (cf_array q ! cf_head q) # cf_content N (q\<lparr> cf_head := cf_increment N (cf_head q) \<rparr>)"
    "cf_ok N (q\<lparr> cf_head := cf_increment N (cf_head q) \<rparr>)"
proof -
  let ?q = "q\<lparr> cf_head := cf_increment N (cf_head q) \<rparr>"
  have "cf_count N q = Suc (cf_count N ?q)"
    using assms by (auto simp: cf_ok_def cf_count_def cf_increment_slot cf_slot_def)
  moreover have "cf_slot N (cf_head q) = cf_head q" using assms by (simp add: cf_ok_def cf_slot_def)
  moreover have "i < cf_count N ?q \<Longrightarrow> cf_slot N (cf_head q + Suc i) = cf_slot N (cf_head ?q + i)" for i
    using assms by (auto simp: cf_ok_def cf_count_def cf_increment_slot cf_slot_def split: if_splits)
  ultimately show "cf_content N q = (cf_array q ! cf_head q) # cf_content N ?q"
    by (auto simp: cf_content_def upt_conv_Cons map_Suc_upt[symmetric] simp del: upt_Suc)
  show "cf_ok N ?q" using assms(1) by (simp add: cf_ok_def cf_increment_def less_Suc_eq_le[symmetric])
qed

lemma cf_push_result:
  assumes "cf_ok N q"
  shows "fst (cf_push N q x) = (\<not> cf_wasFull N q)"
    "cf_ok N (snd (cf_push N q x))"
    "cf_content N (snd (cf_push N q x)) = cf_content N q @ (if cf_wasFull N q then [] else [x])"
proof -
  let ?w = "q\<lparr> cf_array := (cf_array q)[cf_tail q := x] \<rparr>"
  have "\<not> cf_wasFull N q \<Longrightarrow> \<not> cf_wasFull N ?w" by (simp add: cf_wasFull_def)
  moreover have "cf_array ?w ! cf_tail ?w = x" using assms by (simp add: cf_ok_def)
  ultimately have "\<not> cf_wasFull N q \<Longrightarrow>
      cf_content N (?w\<lparr> cf_tail := cf_increment N (cf_tail ?w) \<rparr>) = cf_content N ?w @ [x]
      \<and> cf_ok N (?w\<lparr> cf_tail := cf_increment N (cf_tail ?w) \<rparr>)"
    using cf_content_publish[OF cf_ok_write[OF assms]] by blast
  then show "fst (cf_push N q x) = (\<not> cf_wasFull N q)"
    "cf_ok N (snd (cf_push N q x))"
    "cf_content N (snd (cf_push N q x)) = cf_content N q @ (if cf_wasFull N q then [] else [x])"
    using assms cf_content_write[OF assms, of x]
    by (auto simp: cf_push_def cf_wasFull_def Let_def)
qed

interpretation cf: fifo "cf_ok N" "cf_content N" "\<lambda>q. length (cf_content N q)" "cf_push N" "cf_pop N" for N
proof (unfold_locales, goal_cases)
  case (1 q x r q') then show ?case using cf_push_result(2)[of N q x] by simp
next
  case (2 q x r q') then show ?case using cf_push_result(1,3)[of N q x] by auto
next
  case (3 q q') then show ?case
    using cf_empty_iff[of N q] by (auto simp: cf_pop_def cf_wasEmpty_def Let_def split: if_splits)
next
  case (4 q x q') then show ?case
    using cf_content_advance[of N q] by (auto simp: cf_pop_def Let_def split: if_splits)
qed

subsection \<open>CircularFifo: one producer, one consumer, step by step\<close>

text \<open>The atomics are sequentially consistent, so an execution is an interleaving of the loads, the
  stores and the array accesses.  A producer in the middle of \<open>push\<close> and a consumer in the middle of
  \<open>pop\<close> are described by what they have loaded; \<open>pushed\<close> and \<open>popped\<close> record the completed calls.\<close>

datatype 'a producer = PIdle | PLoaded 'a nat | PRoom 'a nat | PStored 'a nat
datatype 'a consumer = CIdle | CLoaded nat | CSome nat | CRead nat 'a

record 'a spsc =
  sp_q :: "'a cfifo"
  sp_prod :: "'a producer"
  sp_cons :: "'a consumer"
  sp_pushed :: "'a list"
  sp_popped :: "'a list"

inductive spsc_step :: "nat \<Rightarrow> 'a spsc \<Rightarrow> 'a spsc \<Rightarrow> bool" for N where
  push_load: "sp_prod s = PIdle \<Longrightarrow> spsc_step N s (s\<lparr> sp_prod := PLoaded x (cf_tail (sp_q s)) \<rparr>)"
| push_full: "sp_prod s = PLoaded x ct \<Longrightarrow> cf_increment N ct = cf_head (sp_q s) \<Longrightarrow>
    spsc_step N s (s\<lparr> sp_prod := PIdle \<rparr>)"
| push_room: "sp_prod s = PLoaded x ct \<Longrightarrow> cf_increment N ct \<noteq> cf_head (sp_q s) \<Longrightarrow>
    spsc_step N s (s\<lparr> sp_prod := PRoom x ct \<rparr>)"
| push_store: "sp_prod s = PRoom x ct \<Longrightarrow>
    spsc_step N s (s\<lparr> sp_prod := PStored x ct, sp_q := (sp_q s)\<lparr> cf_array := (cf_array (sp_q s))[ct := x] \<rparr> \<rparr>)"
| push_publish: "sp_prod s = PStored x ct \<Longrightarrow>
    spsc_step N s (s\<lparr> sp_prod := PIdle, sp_pushed := sp_pushed s @ [x],
      sp_q := (sp_q s)\<lparr> cf_tail := cf_increment N ct \<rparr> \<rparr>)"
| pop_load: "sp_cons s = CIdle \<Longrightarrow> spsc_step N s (s\<lparr> sp_cons := CLoaded (cf_head (sp_q s)) \<rparr>)"
| pop_empty: "sp_cons s = CLoaded ch \<Longrightarrow> ch = cf_tail (sp_q s) \<Longrightarrow> spsc_step N s (s\<lparr> sp_cons := CIdle \<rparr>)"
| pop_some: "sp_cons s = CLoaded ch \<Longrightarrow> ch \<noteq> cf_tail (sp_q s) \<Longrightarrow> spsc_step N s (s\<lparr> sp_cons := CSome ch \<rparr>)"
| pop_read: "sp_cons s = CSome ch \<Longrightarrow>
    spsc_step N s (s\<lparr> sp_cons := CRead ch (cf_array (sp_q s) ! ch) \<rparr>)"
| pop_publish: "sp_cons s = CRead ch v \<Longrightarrow>
    spsc_step N s (s\<lparr> sp_cons := CIdle, sp_popped := sp_popped s @ [v],
      sp_q := (sp_q s)\<lparr> cf_head := cf_increment N ch \<rparr> \<rparr>)"

definition spsc_init :: "'a list \<Rightarrow> 'a spsc" where
  "spsc_init mem = \<lparr> sp_q = cf_new mem, sp_prod = PIdle, sp_cons = CIdle, sp_pushed = [], sp_popped = [] \<rparr>"

abbreviation spsc_reach :: "nat \<Rightarrow> 'a list \<Rightarrow> 'a spsc \<Rightarrow> bool" where
  "spsc_reach N mem \<equiv> (spsc_step N)\<^sup>*\<^sup>* (spsc_init mem)"

definition prod_ok :: "nat \<Rightarrow> 'a cfifo \<Rightarrow> 'a producer \<Rightarrow> bool" where
  "prod_ok N q pr = (case pr of
     PIdle \<Rightarrow> True
   | PLoaded x ct \<Rightarrow> ct = cf_tail q
   | PRoom x ct \<Rightarrow> ct = cf_tail q \<and> \<not> cf_wasFull N q
   | PStored x ct \<Rightarrow> ct = cf_tail q \<and> \<not> cf_wasFull N q \<and> cf_array q ! ct = x)"

definition cons_ok :: "'a cfifo \<Rightarrow> 'a consumer \<Rightarrow> bool" where
  "cons_ok q c = (case c of
     CIdle \<Rightarrow> True
   | CLoaded ch \<Rightarrow> ch = cf_head q
   | CSome ch \<Rightarrow> ch = cf_head q \<and> cf_head q \<noteq> cf_tail q
   | CRead ch v \<Rightarrow> ch = cf_head q \<and> cf_head q \<noteq> cf_tail q \<and> v = cf_array q ! ch)"

definition spsc_ok :: "nat \<Rightarrow> 'a spsc \<Rightarrow> bool" where
  "spsc_ok N s \<longleftrightarrow> cf_ok N (sp_q s) \<and> sp_pushed s = sp_popped s @ cf_content N (sp_q s)
     \<and> prod_ok N (sp_q s) (sp_prod s) \<and> cons_ok (sp_q s) (sp_cons s)"

lemma length_cf_content: "length (cf_content N q) = cf_count N q"
  by (simp add: cf_content_def)

lemma cf_not_full_advance:
  assumes "cf_ok N q" "cf_head q \<noteq> cf_tail q"
  shows "\<not> cf_wasFull N (q\<lparr> cf_head := cf_increment N (cf_head q) \<rparr>)"
  using arg_cong[OF cf_content_advance(1)[OF assms], of length] cf_count_le[OF assms(1)]
    cf_full_iff[OF cf_content_advance(2)[OF assms]] by (simp add: length_cf_content)

lemma cf_head_write:
  "cf_ok N q \<Longrightarrow> cf_head q \<noteq> cf_tail q \<Longrightarrow> (cf_array q)[cf_tail q := x] ! cf_head q = cf_array q ! cf_head q"
  by simp

lemma cf_publish_not_empty:
  "cf_ok N q \<Longrightarrow> \<not> cf_wasFull N q \<Longrightarrow> cf_head q \<noteq> cf_increment N (cf_tail q)"
  by (auto simp: cf_wasFull_def)

lemmas cons_prod_defs = prod_ok_def cons_ok_def

lemma spsc_ok_init: "length mem = N + 1 \<Longrightarrow> spsc_ok N (spsc_init mem)"
  by (simp add: spsc_ok_def spsc_init_def cf_ok_new cons_prod_defs)

lemma spsc_ok_step: "spsc_step N s s' \<Longrightarrow> spsc_ok N s \<Longrightarrow> spsc_ok N s'"
proof (induction rule: spsc_step.induct)
  case (push_store s x ct)
  then show ?case
    using cf_content_write[of N "sp_q s" x]
    by (auto simp: spsc_ok_def cons_prod_defs cf_ok_write cf_wasFull_def cf_ok_def split: consumer.splits)
next
  case (push_publish s x ct)
  then show ?case
    using cf_content_publish[of N "sp_q s" x] cf_publish_not_empty[of N "sp_q s"]
    by (auto simp: spsc_ok_def cons_prod_defs split: consumer.splits)
next
  case (pop_publish s ch v)
  then show ?case
    using cf_content_advance[of N "sp_q s"] cf_not_full_advance[of N "sp_q s"]
    by (auto simp: spsc_ok_def cons_prod_defs split: producer.splits)
qed (auto simp: spsc_ok_def cons_prod_defs cf_wasFull_def)

lemma spsc_ok_reach: "spsc_reach N mem s \<Longrightarrow> length mem = N + 1 \<Longrightarrow> spsc_ok N s"
  by (induction rule: rtranclp_induct) (auto intro: spsc_ok_init spsc_ok_step)

text \<open>C26: in every interleaving of one producer and one consumer the consumer receives exactly what was
  pushed, in order, without loss or repetition; the elements under way are the ring's content, never
  more than its size; and the slot the producer writes is never the slot the consumer reads.\<close>

theorem spsc_fifo:
  assumes "spsc_reach N mem s" "length mem = N + 1"
  shows "sp_pushed s = sp_popped s @ cf_content N (sp_q s)
    \<and> length (cf_content N (sp_q s)) \<le> N
    \<and> (\<forall>x ct ch. sp_prod s = PRoom x ct \<and> sp_cons s = CSome ch \<longrightarrow> ct \<noteq> ch)"
proof -
  have ok: "cf_ok N (sp_q s)" "sp_pushed s = sp_popped s @ cf_content N (sp_q s)"
    "prod_ok N (sp_q s) (sp_prod s)" "cons_ok (sp_q s) (sp_cons s)"
    using spsc_ok_reach[OF assms] by (simp_all add: spsc_ok_def)
  have "length (cf_content N (sp_q s)) \<le> N" using cf_count_le[OF ok(1)] by (simp add: length_cf_content)
  moreover have "ct \<noteq> ch" if "sp_prod s = PRoom x ct" "sp_cons s = CSome ch" for x ct ch
    using ok(3,4) that by (simp add: cons_prod_defs)
  ultimately show ?thesis using ok(2) by simp
qed

theorem spsc_fifo_witness:
  "\<exists>s. spsc_reach 1 [0, 0 :: nat] s \<and> sp_prod s = PRoom 5 0 \<and> sp_pushed s = sp_popped s @ cf_content 1 (sp_q s)"
proof -
  let ?s0 = "spsc_init [0, 0 :: nat]"
  let ?s1 = "?s0\<lparr> sp_prod := PLoaded 5 0 \<rparr>" and ?s2 = "?s0\<lparr> sp_prod := PRoom 5 0 \<rparr>"
  have "spsc_step 1 ?s0 ?s1"
    using spsc_step.push_load[of ?s0 1 5] by (simp add: spsc_init_def cf_new_def)
  moreover have "spsc_step 1 ?s1 ?s2"
    using spsc_step.push_room[of ?s1 5 0 1] by (simp add: spsc_init_def cf_new_def cf_increment_def)
  ultimately have reach: "spsc_reach 1 [0, 0 :: nat] ?s2" 
    by (rule converse_rtranclp_into_rtranclp[OF _ r_into_rtranclp])
  from spsc_fifo[OF this] reach show ?thesis by (intro exI[of _ ?s2]) simp
qed

subsection \<open>DoubleBufferQueue\<close>

record 'a dbq =
  db_queues :: "'a list list"   \<comment> \<open>the two \<open>std::queue\<close>s\<close>
  db_index :: nat               \<comment> \<open>\<open>queue_index_\<close>: the queue the consumer reads\<close>

definition dbq_new :: "'a dbq" where
  "dbq_new = \<lparr> db_queues = [[], []], db_index = 0 \<rparr>"

definition NextQueueIndex :: "nat \<Rightarrow> nat" where
  "NextQueueIndex v = (v + 1) mod 2"

definition dbq_swap :: "'a dbq \<Rightarrow> 'a dbq" where
  "dbq_swap q = q\<lparr> db_index := NextQueueIndex (db_index q) \<rparr>"

definition dbq_insert :: "nat \<Rightarrow> 'a \<Rightarrow> 'a dbq \<Rightarrow> 'a dbq" where
  "dbq_insert i t q = q\<lparr> db_queues := (db_queues q)[i := db_queues q ! i @ [t]] \<rparr>"

definition dbq_push :: "'a dbq \<Rightarrow> 'a \<Rightarrow> bool \<times> 'a dbq" where
  "dbq_push q t = (True, dbq_insert (NextQueueIndex (db_index q)) t q)"

definition dbq_pop :: "'a dbq \<Rightarrow> 'a option \<times> 'a dbq" where
  "dbq_pop q = (case db_queues q ! db_index q of
     [] \<Rightarrow> (None, q)
   | t # ts \<Rightarrow> (Some t, q\<lparr> db_queues := (db_queues q)[db_index q := ts] \<rparr>))"

definition dbq_empty :: "'a dbq \<Rightarrow> bool" where
  "dbq_empty q \<longleftrightarrow> db_queues q ! db_index q = []"

definition dbq_size :: "'a dbq \<Rightarrow> nat" where
  "dbq_size q = length (db_queues q ! db_index q)"

text \<open>The destructor hands the elements left to \<open>delete_func_\<close>, in this order.\<close>

definition dbq_destroy :: "'a dbq \<Rightarrow> 'a list" where
  "dbq_destroy q = concat (db_queues q)"

definition dbq_ok :: "'a dbq \<Rightarrow> bool" where
  "dbq_ok q \<longleftrightarrow> length (db_queues q) = 2 \<and> db_index q < 2"

definition dbq_content :: "'a dbq \<Rightarrow> 'a list" where
  "dbq_content q = db_queues q ! db_index q @ db_queues q ! NextQueueIndex (db_index q)"

lemma NextQueueIndex_facts [simp]:
  "NextQueueIndex i < 2" "i < 2 \<Longrightarrow> NextQueueIndex i \<noteq> i" "i < 2 \<Longrightarrow> i \<noteq> NextQueueIndex i" "i < 2 \<Longrightarrow> NextQueueIndex (NextQueueIndex i) = i"
  by (auto simp: NextQueueIndex_def less_2_cases_iff)

lemma dbq_ok_new [simp]: "dbq_ok dbq_new" "dbq_content dbq_new = []"
  by (auto simp: dbq_ok_def dbq_new_def dbq_content_def NextQueueIndex_def)

lemma dbq_push_content: "dbq_ok q \<Longrightarrow> dbq_content (snd (dbq_push q t)) = dbq_content q @ [t]"
  by (simp add: dbq_push_def dbq_insert_def dbq_content_def dbq_ok_def nth_list_update)

lemma dbq_pop_content:
  "dbq_ok q \<Longrightarrow> dbq_pop q = (Some t, q') \<Longrightarrow>
     dbq_ok q' \<and> dbq_content q = t # dbq_content q' \<and> dbq_size q = Suc (dbq_size q')"
  by (auto simp: dbq_pop_def dbq_content_def dbq_ok_def dbq_size_def nth_list_update split: list.splits)

interpretation db: fifo dbq_ok dbq_content dbq_size dbq_push dbq_pop
proof (unfold_locales, goal_cases)
  case (1 q x r q') then show ?case by (auto simp: dbq_push_def dbq_insert_def dbq_ok_def)
next
  case (2 q x r q') then show ?case using dbq_push_content[of q x] by (auto simp: dbq_push_def)
next
  case (3 q q') then show ?case by (auto simp: dbq_pop_def dbq_size_def split: list.splits)
next
  case (4 q x q') then show ?case by (rule dbq_pop_content)
qed

lemma dbq_swap_content:
  "dbq_ok q \<Longrightarrow> dbq_size q = 0 \<Longrightarrow>
     dbq_ok (dbq_swap q) \<and> dbq_content (dbq_swap q) = dbq_content q \<and> dbq_size (dbq_swap q) = length (dbq_content q)"
  by (auto simp: dbq_swap_def dbq_ok_def dbq_content_def dbq_size_def)

text \<open>The consumer's \<open>while (queue->swap()->pop(&t))\<close> style of use: swap, then pop until empty.\<close>

lemma dbq_swap_drain:
  assumes "dbq_ok q" "dbq_size q = 0"
  shows "\<exists>q'. drain dbq_pop (dbq_swap q) = Some (dbq_content q, q') \<and> dbq_ok q'
     \<and> dbq_content q' = [] \<and> dbq_size q' = 0"
  using db.drain_ready[of "dbq_swap q"] dbq_swap_content[OF assms] by auto

subsection \<open>DoubleBufferQueue: producers and a consumer, step by step\<close>

text \<open>A \<open>push\<close> loads \<open>queue_index_\<close> before it takes the mutex of the queue it chose; the consumer swaps
  and then pops until the queue is empty.\<close>

datatype 'a dbq_event =
    DLoad nat 'a       \<comment> \<open>producer \<open>i\<close> enters \<open>push(t)\<close> and loads the index\<close>
  | DInsert nat        \<comment> \<open>producer \<open>i\<close> locks the queue it chose and inserts\<close>
  | DSwap              \<comment> \<open>the consumer swaps and begins to pop\<close>
  | DPop               \<comment> \<open>the consumer calls \<open>pop\<close>; the round ends when it returns false\<close>

record 'a dbq_run =
  dr_q :: "'a dbq"
  dr_pending :: "(nat \<times> 'a \<times> nat) list"   \<comment> \<open>producer, value, chosen queue\<close>
  dr_popping :: bool
  dr_pushed :: "(nat \<times> 'a) list"
  dr_popped :: "'a list"

definition dbq_run0 :: "'a dbq_run" where
  "dbq_run0 = \<lparr> dr_q = dbq_new, dr_pending = [], dr_popping = False, dr_pushed = [], dr_popped = [] \<rparr>"

fun dbq_exec :: "'a dbq_run \<Rightarrow> 'a dbq_event \<Rightarrow> 'a dbq_run option" where
  "dbq_exec s (DLoad i t) =
     (if map_of (dr_pending s) i = None
      then Some (s\<lparr> dr_pending := (i, t, NextQueueIndex (db_index (dr_q s))) # dr_pending s \<rparr>) else None)"
| "dbq_exec s (DInsert i) = (case map_of (dr_pending s) i of
     Some (t, target) \<Rightarrow> Some (s\<lparr> dr_pending := filter (\<lambda>p. fst p \<noteq> i) (dr_pending s),
        dr_q := dbq_insert target t (dr_q s), dr_pushed := dr_pushed s @ [(i, t)] \<rparr>)
   | None \<Rightarrow> None)"
| "dbq_exec s DSwap = (if dr_popping s then None else Some (s\<lparr> dr_q := dbq_swap (dr_q s), dr_popping := True \<rparr>))"
| "dbq_exec s DPop = (if \<not> dr_popping s then None else (case dbq_pop (dr_q s) of
     (None, q) \<Rightarrow> Some (s\<lparr> dr_popping := False \<rparr>)
   | (Some t, q) \<Rightarrow> Some (s\<lparr> dr_q := q, dr_popped := dr_popped s @ [t] \<rparr>)))"

primrec dbq_execs :: "'a dbq_run \<Rightarrow> 'a dbq_event list \<Rightarrow> 'a dbq_run option" where
  "dbq_execs s [] = Some s"
| "dbq_execs s (e # es) = do { s' \<leftarrow> dbq_exec s e; dbq_execs s' es }"

definition dbq_run_ok :: "'a dbq_run \<Rightarrow> bool" where
  "dbq_run_ok s \<longleftrightarrow> dbq_ok (dr_q s) \<and> (\<forall>(i, t, target) \<in> set (dr_pending s). target < 2)
     \<and> mset (map snd (dr_pushed s)) = mset (dr_popped s) + mset (concat (db_queues (dr_q s)))"

lemma mset_concat_update:
  "i < length qs \<Longrightarrow> mset (concat (qs[i := ys])) + mset (qs ! i) = mset (concat qs) + mset ys"
  by (induction qs arbitrary: i) (auto split: nat.splits simp: nth_Cons ac_simps)

lemma dbq_exec_ok: "dbq_exec s e = Some s' \<Longrightarrow> dbq_run_ok s \<Longrightarrow> dbq_run_ok s'"
proof (cases e)
  case (DInsert i)
  assume s: "dbq_exec s e = Some s'" "dbq_run_ok s"
  then obtain t k where p: "map_of (dr_pending s) i = Some (t, k)"
    and s': "s' = s\<lparr> dr_pending := filter (\<lambda>p. fst p \<noteq> i) (dr_pending s),
        dr_q := dbq_insert k t (dr_q s), dr_pushed := dr_pushed s @ [(i, t)] \<rparr>"
    using DInsert by (auto split: option.splits prod.splits)
  have k: "k < length (db_queues (dr_q s))"
    using map_of_SomeD[OF p] s(2) by (auto simp: dbq_run_ok_def dbq_ok_def)
  show ?thesis using s(2) mset_concat_update[OF k, of "db_queues (dr_q s) ! k @ [t]"] s'
    by (auto simp: dbq_run_ok_def dbq_ok_def dbq_insert_def)
next
  case DPop
  assume s: "dbq_exec s e = Some s'" "dbq_run_ok s"
  have i: "db_index (dr_q s) < length (db_queues (dr_q s))" using s(2) by (simp add: dbq_run_ok_def dbq_ok_def)
  show ?thesis using s DPop mset_concat_update[OF i, of "tl (db_queues (dr_q s) ! db_index (dr_q s))"]
    by (auto simp: dbq_run_ok_def dbq_ok_def dbq_pop_def split: if_splits list.splits)
qed (auto simp: dbq_run_ok_def dbq_ok_def dbq_swap_def split: if_splits)

lemma dbq_execs_ok: "dbq_execs s es = Some s' \<Longrightarrow> dbq_run_ok s \<Longrightarrow> dbq_run_ok s'"
  by (induction es arbitrary: s) (auto split: Option.bind_splits intro: dbq_exec_ok)

lemma dbq_run0_ok: "dbq_run_ok dbq_run0"
  by (simp add: dbq_run_ok_def dbq_run0_def dbq_new_def dbq_ok_def)

text \<open>Under every interleaving of the producers and the consumer no element is lost or delivered
  twice: what was pushed is what was popped together with what the two queues still hold.\<close>

theorem dbq_conservation:
  assumes "dbq_execs dbq_run0 es = Some s"
  shows "mset (map snd (dr_pushed s)) = mset (dr_popped s) + mset (dbq_destroy (dr_q s))"
  using dbq_execs_ok[OF assms dbq_run0_ok] by (simp add: dbq_run_ok_def dbq_destroy_def)

theorem dbq_conservation_witness:
  "\<exists>s. dbq_execs dbq_run0 [DLoad 3 (1 :: nat), DLoad 4 2, DInsert 4, DSwap, DPop, DInsert 3] = Some s
     \<and> mset (map snd (dr_pushed s)) = mset (dr_popped s) + mset (dbq_destroy (dr_q s))"
proof -
  let ?r = "dbq_execs dbq_run0 [DLoad 3 (1 :: nat), DLoad 4 2, DInsert 4, DSwap, DPop, DInsert 3]"
  have "?r = Some (the ?r)" by code_simp
  from dbq_conservation[OF this] this show ?thesis by blast
qed

text \<open>The order is not kept: a producer that is suspended between loading the index and inserting
  delivers its first element behind its second one.\<close>

theorem dbq_not_fifo:
  "\<exists>es s. dbq_execs dbq_run0 es = Some s \<and> dr_pushed s = [(0, 1), (0, 2)] \<and> dr_popped s = [2, 1 :: nat]"
proof -
  let ?es = "[DSwap, DPop, DLoad 0 1, DSwap, DPop, DInsert 0, DLoad 0 2, DInsert 0,
              DSwap, DPop, DPop, DSwap, DPop, DPop :: nat dbq_event]"
  let ?r = "dbq_execs dbq_run0 ?es"
  have "?r \<noteq> None \<and> dr_pushed (the ?r) = [(0, 1), (0, 2)] \<and> dr_popped (the ?r) = [2, 1]"
    by code_simp
  then show ?thesis by (intro exI[of _ ?es] exI[of _ "the ?r"]) auto
qed

end
