(* ===== verification/Connection.thy ===== *)
theory Connection
  imports Packet_Codec Queues
begin

text \<open>
  \<open>TcpConnection\<close> (\<open>framework/server/tcp_connection.cpp\<close>): the network thread pushes the chunks it
  receives into a ring of 128 slots, the main thread appends them to \<open>buf_\<close> and takes whole frames
  off its front.  The calls into libuv are parameters (\<open>uv_env\<close>): whether \<open>uv_read_start\<close> and
  \<open>uv_read_stop\<close> succeed.  \<open>c_uv_reading\<close> is libuv's own state: whether \<open>do_read\<close> may be called.
  Messages to the connection's own thread are the list \<open>c_inbox\<close>; the asserts are those of the release
  build (off).
\<close>

subsection \<open>State\<close>

datatype conn_msg = MsgRead | MsgWrite "byte list" | MsgClose | MsgOther nat

record uv_env =
  uv_start_ok :: bool
  uv_stop_ok :: bool

record conn =
  c_buf :: "bd option"                       \<comment> \<open>\<open>buf_\<close>\<close>
  c_queue :: "byte list cfifo"               \<comment> \<open>\<open>read_queue_\<close>: data and len of each chunk\<close>
  c_running :: bool
  c_reading :: bool
  c_closing :: bool
  c_closing_time :: int
  c_keep_alive :: int                        \<comment> \<open>\<open>last_keep_alive_time\<close>\<close>
  c_session_id :: string
  c_remote_address :: string
  c_remote_port :: int
  c_inbox :: "conn_msg list"                 \<comment> \<open>posted and not yet handled, oldest first\<close>
  c_write_reqs :: "(nat \<times> byte list) list"   \<comment> \<open>\<open>write_req_set_\<close>\<close>
  c_wire :: "byte list"                      \<comment> \<open>everything handed to \<open>uv_write\<close>\<close>
  c_uv_reading :: bool
  c_uv_closes :: nat                         \<comment> \<open>calls of \<open>uv_close\<close>\<close>
  c_notices :: nat                           \<comment> \<open>\<open>CLOSE\<close> messages posted to the server\<close>

abbreviation (input) READ_QUEUE :: nat where "READ_QUEUE \<equiv> 128"
abbreviation (input) BUFINITLEN :: nat where "BUFINITLEN \<equiv> 1"

definition Conn_new :: "int \<Rightarrow> byte list list \<Rightarrow> conn" where
  "Conn_new now mem = \<lparr> c_buf = None, c_queue = cf_new mem, c_running = False, c_reading = False,
     c_closing = False, c_closing_time = 0, c_keep_alive = now, c_session_id = [],
     c_remote_address = [], c_remote_port = 0, c_inbox = [], c_write_reqs = [], c_wire = [],
     c_uv_reading = False, c_uv_closes = 0, c_notices = 0 \<rparr>"

text \<open>\<open>Init\<close>: the peer's name, when libuv knows it.\<close>

definition Conn_Init :: "(string \<times> int) option \<Rightarrow> conn \<Rightarrow> conn" where
  "Conn_Init peer c = (case peer of
     Some (addr, port) \<Rightarrow> c\<lparr> c_remote_address := addr, c_remote_port := port, c_running := True \<rparr>
   | None \<Rightarrow> c\<lparr> c_running := True \<rparr>)"

subsection \<open>Session ids\<close>

fun dec_digits :: "nat \<Rightarrow> string" where
  "dec_digits n = (if n < 10 then [char_of (n + 48)] else dec_digits (n div 10) @ [char_of (n mod 10 + 48)])"

declare dec_digits.simps [simp del]

text \<open>\<open>snprintf(session, 10, "%ld", ...)\<close> keeps at most 9 characters.  The static counter is passed in
  and returned.\<close>

definition GetSessionId :: "nat \<Rightarrow> conn \<Rightarrow> string \<times> nat \<times> conn" where
  "GetSessionId session_index c =
     (if c_session_id c = [] then
        (let idx = session_index + 1;
             sid = c_remote_address c @ '':'' @ take 9 (dec_digits idx)
         in (sid, idx, c\<lparr> c_session_id := sid \<rparr>))
      else (c_session_id c, session_index, c))"

subsection \<open>Closing\<close>

definition do_close :: "conn \<Rightarrow> conn" where
  "do_close c = (if c_running c then c\<lparr> c_running := False, c_uv_closes := c_uv_closes c + 1, c_uv_reading := False \<rparr> else c)"

text \<open>libuv calls \<open>on_closed\<close> once for each \<open>uv_close\<close>; it posts \<open>TCP_CONNECTION_MESSAGE_CLOSE\<close> to the
  server.\<close>

definition on_closed :: "conn \<Rightarrow> conn" where
  "on_closed c = c\<lparr> c_notices := c_notices c + 1 \<rparr>"

definition Conn_PostMessage :: "conn_msg \<Rightarrow> conn \<Rightarrow> conn" where
  "Conn_PostMessage m c = c\<lparr> c_inbox := c_inbox c @ [m] \<rparr>"

definition Conn_Close :: "conn \<Rightarrow> conn" where
  "Conn_Close c = (if c_running c then Conn_PostMessage MsgClose c else c)"

definition Conn_OnClosed :: "int \<Rightarrow> conn \<Rightarrow> conn" where
  "Conn_OnClosed now c = c\<lparr> c_closing := True,
     c_closing_time := (if c_closing_time c = 0 then now else c_closing_time c) \<rparr>"

definition IsClosed :: "conn \<Rightarrow> bool" where
  "IsClosed c = c_closing c"

definition SetKeepAliveTime :: "int \<Rightarrow> conn \<Rightarrow> conn" where
  "SetKeepAliveTime t c = c\<lparr> c_keep_alive := t \<rparr>"

definition GetKeepAliveTime :: "conn \<Rightarrow> int" where
  "GetKeepAliveTime c = c_keep_alive c"

subsection \<open>Reading and writing on the network thread\<close>

text \<open>libuv refuses \<open>uv_read_start\<close> on a handle that is closing or closed.\<close>

definition StartRead :: "uv_env \<Rightarrow> conn \<Rightarrow> conn" where
  "StartRead uv c =
     (if uv_start_ok uv \<and> c_uv_closes c = 0 then c\<lparr> c_uv_reading := True, c_reading := True \<rparr>
      else c\<lparr> c_reading := False \<rparr>)"

definition OnRead :: "uv_env \<Rightarrow> byte list \<Rightarrow> conn \<Rightarrow> conn" where
  "OnRead uv item c =
     (let c1 = c\<lparr> c_queue := snd (cf_push READ_QUEUE (c_queue c) item) \<rparr> in
      if cf_wasFull READ_QUEUE (c_queue c1) then
        (if uv_stop_ok uv then c1\<lparr> c_uv_reading := False, c_reading := False \<rparr>
         else if c_running c1 then do_close c1 else c1)
      else c1)"

text \<open>\<open>nread = -1\<close> is \<^const>\<open>None\<close>.\<close>

definition do_read :: "uv_env \<Rightarrow> byte list option \<Rightarrow> conn \<Rightarrow> conn" where
  "do_read uv buf c = (case buf of None \<Rightarrow> do_close c | Some item \<Rightarrow> OnRead uv item c)"

text \<open>\<open>Write(data, len)\<close>; \<open>req\<close> is the address of the new \<open>uv_write_t\<close>.\<close>

definition Conn_Write_data :: "bool \<Rightarrow> nat \<Rightarrow> byte list \<Rightarrow> conn \<Rightarrow> conn" where
  "Conn_Write_data in_async req bytes c =
     (if \<not> in_async then Conn_PostMessage (MsgWrite bytes) c
      else c\<lparr> c_wire := c_wire c @ bytes, c_write_reqs := (req, bytes) # c_write_reqs c \<rparr>)"

definition do_write :: "nat \<Rightarrow> bool \<Rightarrow> conn \<Rightarrow> conn" where
  "do_write req ok c =
     (let c1 = (if ok then c else do_close c)
      in c1\<lparr> c_write_reqs := filter (\<lambda>r. fst r \<noteq> req) (c_write_reqs c1) \<rparr>)"

definition Conn_OnMessage :: "uv_env \<Rightarrow> nat \<Rightarrow> conn_msg \<Rightarrow> conn \<Rightarrow> conn" where
  "Conn_OnMessage uv req msg c =
     (if c_closing c then c
      else case msg of
        MsgRead \<Rightarrow> StartRead uv c
      | MsgWrite bytes \<Rightarrow> Conn_Write_data True req bytes c
      | MsgClose \<Rightarrow> if c_running c then do_close c else c
      | MsgOther _ \<Rightarrow> c)"

subsection \<open>Reading and writing on the main thread\<close>

text \<open>\<open>Write(transcoder)\<close>: \<open>message\<close> is what \<open>transcoder.Encode()\<close> returned.\<close>

definition Conn_Write :: "heap_env \<Rightarrow> bd option \<Rightarrow> conn \<Rightarrow> conn option" where
  "Conn_Write H message c =
     (if c_closing c then Some c
      else do {
        m \<leftarrow> message;
        messageData \<leftarrow> calloc_block H 0 (bd_offset m);
        bytes \<leftarrow> mem_read (bd_data m) 0 (bd_offset m);
        d \<leftarrow> memcpy_at messageData 0 bytes;
        Some (Conn_Write_data False 0 d c) })"

text \<open>\<open>Read(uint8_t** data)\<close>: the chunk, \<^const>\<open>None\<close> when the queue is empty.\<close>

definition Conn_Read_data :: "conn \<Rightarrow> byte list option \<times> conn" where
  "Conn_Read_data c = (case cf_pop READ_QUEUE (c_queue c) of
     (Some item, q) \<Rightarrow>
       (let c1 = c\<lparr> c_queue := q \<rparr>
        in (Some item, if \<not> c_reading c1 then Conn_PostMessage MsgRead c1 else c1))
   | (None, q) \<Rightarrow> (None, c\<lparr> c_queue := q \<rparr>))"

definition BufCat_at :: "heap_env \<Rightarrow> byte list \<Rightarrow> bd \<Rightarrow> bd option" where
  "BufCat_at H bytes b =
     (if bd_offset b + length bytes > bd_size b then do {
        sz \<leftarrow> grow_loop (bd_offset b + length bytes) (bd_size b * FACTOR);
        (case realloc_block H BD_HEADER (bd_data b) sz of
           None \<Rightarrow> Some b
         | Some d \<Rightarrow> do {
             d' \<leftarrow> memcpy_at d (bd_offset b) bytes;
             Some \<lparr> bd_size = sz, bd_offset = bd_offset b + length bytes, bd_data = d' \<rparr> }) }
      else do {
        d' \<leftarrow> memcpy_at (bd_data b) (bd_offset b) bytes;
        Some (b\<lparr> bd_offset := bd_offset b + length bytes, bd_data := d' \<rparr>) })"

definition BufCat :: "heap_env \<Rightarrow> byte list \<Rightarrow> conn \<Rightarrow> conn option" where
  "BufCat H bytes c = do {
     b \<leftarrow> (case c_buf c of
            Some b \<Rightarrow> Some b
          | None \<Rightarrow> do { d \<leftarrow> calloc_block H BD_HEADER BUFINITLEN;
                         Some \<lparr> bd_size = BUFINITLEN, bd_offset = 0, bd_data = d \<rparr> });
     b' \<leftarrow> BufCat_at H bytes b;
     Some (c\<lparr> c_buf := Some b' \<rparr>) }"

text \<open>\<open>BufClear(bufOffset)\<close>: the bytes from \<open>offset\<close> to \<open>bufOffset\<close> move to the front.\<close>

definition BufClear :: "nat \<Rightarrow> bd \<Rightarrow> bd option" where
  "BufClear bufOffset b = do {
     rest \<leftarrow> mem_read (bd_data b) (bd_offset b) (bufOffset - bd_offset b);
     d \<leftarrow> memcpy_at (bd_data b) 0 rest;
     Some (b\<lparr> bd_data := d, bd_offset := bufOffset - bd_offset b \<rparr>) }"

text \<open>\<open>Read(EndpointTranscode&)\<close> with a \<open>PacketTranscode\<close> without kernel: the result, the transcoder and
  the connection.\<close>

definition Conn_Read :: "heap_env \<Rightarrow> packet \<Rightarrow> conn \<Rightarrow> (nat \<times> packet \<times> conn) option" where
  "Conn_Read H p c = do {
     (isEnough, actualLength, good) \<leftarrow> IsDataEnough (c_buf c) (pk_good p);
     let p1 = p\<lparr> pk_good := good \<rparr>;
     if isEnough then do {
       b \<leftarrow> c_buf c;
       let bufOffset = bd_offset b;
       let b1 = b\<lparr> bd_offset := actualLength \<rparr>;
       p2 \<leftarrow> Packet_Decode H None p1 (Some b1);
       b2 \<leftarrow> BufClear bufOffset b1;
       Some (actualLength, p2, c\<lparr> c_buf := Some b2 \<rparr>) }
     else (case Conn_Read_data c of
         (None, c1) \<Rightarrow> Some (0, p1, c1)
       | (Some item, c1) \<Rightarrow>
           if length item = 0 then Some (0, p1, c1)
           else do { c2 \<leftarrow> BufCat H item c1; Some (0, p1, c2) }) }"

text \<open>The destructor frees the chunks up to the first empty one; what it leaves is lost.\<close>

fun Conn_destroy_reads :: "nat \<Rightarrow> conn \<Rightarrow> conn" where
  "Conn_destroy_reads 0 c = c"
| "Conn_destroy_reads (Suc k) c = (case Conn_Read_data c of
     (Some item, c1) \<Rightarrow> if item = [] then c1 else Conn_destroy_reads k c1
   | (None, c1) \<Rightarrow> c1)"

definition Conn_destroy :: "conn \<Rightarrow> conn" where
  "Conn_destroy c = (Conn_destroy_reads (Suc (length (cf_content READ_QUEUE (c_queue c)))) c)
     \<lparr> c_buf := None, c_write_reqs := [] \<rparr>"

end
