(* ===== verification/Connection_Props.thy ===== *)
theory Connection_Props
  imports Connection
begin

text \<open>
  Correctness of \<open>TcpConnection\<close>: the byte stream survives chunking, frames are delivered whole and in
  order, a frame of length 0 stops the connection for ever, and the life cycle of the handle.
\<close>

subsection \<open>The stream of received bytes\<close>

definition buf_bytes :: "bd option \<Rightarrow> byte list" where
  "buf_bytes b = (case b of None \<Rightarrow> [] | Some b \<Rightarrow> bd_bytes b)"

definition buf_ok :: "bd option \<Rightarrow> bool" where
  "buf_ok b \<longleftrightarrow> (case b of None \<Rightarrow> True | Some b \<Rightarrow> bd_ok b \<and> 0 < bd_size b)"

definition conn_ok :: "conn \<Rightarrow> bool" where
  "conn_ok c \<longleftrightarrow> buf_ok (c_buf c) \<and> cf_ok 128 (c_queue c) \<and> [] \<notin> set (cf_content 128 (c_queue c))"

definition chunks :: "conn \<Rightarrow> byte list list" where
  "chunks c = cf_content 128 (c_queue c)"

definition in_stream :: "conn \<Rightarrow> byte list" where
  "in_stream c = buf_bytes (c_buf c) @ concat (chunks c)"

text \<open>The length field of the first frame, once it is there.\<close>

definition frame_size :: "byte list \<Rightarrow> nat" where
  "frame_size bs = le_decode (take 4 bs)"

definition has_frame :: "byte list \<Rightarrow> bool" where
  "has_frame bs \<longleftrightarrow> 4 \<le> length bs \<and> frame_size bs \<le> length bs"

lemma IsDataEnough_ok:
  assumes "buf_ok b"
  shows "\<exists>n g. IsDataEnough b good = Some (has_frame (buf_bytes b), n, g) \<and> g = good
     \<and> (has_frame (buf_bytes b) \<longrightarrow> b \<noteq> None \<and> n = frame_size (buf_bytes b))"
proof (cases b)
  case None
  then show ?thesis by (auto simp: IsDataEnough_def has_frame_def buf_bytes_def)
next
  case (Some m)
  with assms have m: "bd_ok m" by (simp add: buf_ok_def)
  show ?thesis using Some m Transcode_Read_enough[OF m, of 0 4 good]
    by (auto simp: IsDataEnough_def has_frame_def buf_bytes_def frame_size_def Let_def m)
qed

lemma BufCat_at_ok:
  assumes "heap_ok H" "bd_ok b" "0 < bd_size b"
  shows "\<exists>b'. BufCat_at H bytes b = Some b' \<and> bd_ok b' \<and> 0 < bd_size b' \<and> bd_bytes b' = bd_bytes b @ bytes"
proof (cases "bd_offset b + length bytes > bd_size b")
  case True
  from assms(3) have "0 < bd_size b * 2" by simp
  then obtain s where "grow_loop (bd_offset b + length bytes) (bd_size b * 2) = Some s"
    "bd_offset b + length bytes \<le> s" "bd_size b * 2 \<le> s"
    using grow_loop_Some by blast
  with True assms show ?thesis
    by (simp add: BufCat_at_def realloc_block_ok memcpy_at_Some bd_ok_def bd_bytes_def)
next
  case False
  with assms show ?thesis by (simp add: BufCat_at_def memcpy_at_Some bd_ok_def bd_bytes_def)
qed

lemma BufCat_ok:
  assumes "heap_ok H" "buf_ok (c_buf c)"
  shows "\<exists>b. BufCat H bytes c = Some (c\<lparr> c_buf := Some b \<rparr>) \<and> buf_ok (Some b)
     \<and> bd_bytes b = buf_bytes (c_buf c) @ bytes"
proof (cases "c_buf c")
  case None
  let ?b = "\<lparr> bd_size = 1, bd_offset = 0, bd_data = [0] \<rparr>"
  have "bd_ok ?b" and empty: "bd_bytes ?b = []" by (simp_all add: bd_ok_def bd_bytes_def)
  with BufCat_at_ok[OF assms(1), of ?b bytes] obtain b' where
    "BufCat_at H bytes ?b = Some b'" "bd_ok b'" "0 < bd_size b'" "bd_bytes b' = bytes" by auto
  with None assms(1) show ?thesis
    by (intro exI[of _ b']) (simp add: BufCat_def calloc_block_ok buf_bytes_def buf_ok_def)
next
  case (Some b)
  with assms(2) BufCat_at_ok[OF assms(1), of b bytes] show ?thesis
    by (auto simp: BufCat_def buf_ok_def buf_bytes_def)
qed

lemma BufClear_ok:
  assumes "bd_ok b" "n \<le> bd_offset b"
  shows "\<exists>b'. BufClear (bd_offset b) (b\<lparr> bd_offset := n \<rparr>) = Some b' \<and> bd_ok b'
     \<and> bd_size b' = bd_size b \<and> bd_bytes b' = drop n (bd_bytes b)"
  using assms
  by (auto simp: BufClear_def bd_ok_def mem_read_Some memcpy_at_Some bd_bytes_def drop_take)

subsection \<open>One call of Read\<close>

lemma Packet_Decode_None: "Packet_Decode H None p (Some m) = Packet_doEndpointDecode H p m"
  by (cases "Packet_doEndpointDecode H p m")
    (simp_all add: Packet_Decode_def Transcode_Decode_def)

text \<open>A frame of 1 to 3 bytes is too short for its own length field: the packet it yields is empty and
  not good.\<close>

lemma Packet_decode_tiny:
  assumes "heap_ok H" "bd_offset m < 4"
  shows "\<exists>p'. Packet_doEndpointDecode H p m = Some p' \<and> bd_ok (pk_buf p') \<and> pk_bytes p' = []
    \<and> pk_offset p' = 8 \<and> \<not> pk_good p'"
proof -
  have "le_decode (replicate 4 0) = 0" by (simp add: numeral_eq_Suc)
  then show ?thesis using assms
    by (simp add: Packet_doEndpointDecode_def Transcode_Read_short realloc_block_ok mem_read_def
        Transcode_Write_def memcpy_at_def Let_def bd_ok_def pk_bytes_def bd_bytes_def)
qed

lemma Conn_Read_frame:
  assumes "heap_ok H" "conn_ok c" "has_frame (buf_bytes (c_buf c))"
    "n = frame_size (buf_bytes (c_buf c))"
  shows "\<exists>p' b'. Conn_Read H p c = Some (n, p', c\<lparr> c_buf := Some b' \<rparr>) \<and> buf_ok (Some b')
    \<and> bd_bytes b' = drop n (buf_bytes (c_buf c)) \<and> bd_ok (pk_buf p') \<and> pk_offset p' = 8
    \<and> (if n < 4 then pk_bytes p' = [] \<and> \<not> pk_good p'
       else pk_bytes p' = take n (buf_bytes (c_buf c)) \<and> pk_good p' = pk_good p)"
proof -
  have ok: "buf_ok (c_buf c)" using assms(2) by (simp add: conn_ok_def)
  from IsDataEnough_ok[OF ok, of "pk_good p"] assms(3,4) obtain b where
    enough: "IsDataEnough (c_buf c) (pk_good p) = Some (True, n, pk_good p)" and b: "c_buf c = Some b"
    by auto
  have bd: "bd_ok b" "0 < bd_size b" and n: "4 \<le> bd_offset b" "n \<le> bd_offset b"
    using ok assms(3,4) by (auto simp: b buf_ok_def has_frame_def buf_bytes_def)
  let ?m = "b\<lparr> bd_offset := n \<rparr>"
  have m: "bd_ok ?m" "bd_bytes ?m = take n (bd_bytes b)"
    using bd(1) n(2) by (auto simp: bd_ok_def bd_bytes_def min_def)
  obtain b' where b': "BufClear (bd_offset b) ?m = Some b'" "bd_ok b'" "bd_size b' = bd_size b"
    "bd_bytes b' = drop n (bd_bytes b)"
    using BufClear_ok[OF bd(1) n(2)] by blast
  have "\<exists>p'. Packet_doEndpointDecode H p ?m = Some p' \<and> bd_ok (pk_buf p') \<and> pk_offset p' = 8
      \<and> (if n < 4 then pk_bytes p' = [] \<and> \<not> pk_good p'
         else pk_bytes p' = take n (bd_bytes b) \<and> pk_good p' = pk_good p)"
  proof (cases "n < 4")
    case True
    then show ?thesis using Packet_decode_tiny[OF assms(1), of ?m p] by auto
  next
    case False
    have "le_decode (take 4 (bd_bytes b)) = n" by (simp add: assms(4) b buf_bytes_def frame_size_def)
    with False have "le_decode (take 4 (bd_bytes ?m)) = n" unfolding m(2) by (simp add: min_def)
    from Packet_decodeE[OF assms(1) m(1) _ this, of p] False show ?thesis
      by (auto simp: m(2) intro: exI)
  qed
  then obtain p' where "Packet_doEndpointDecode H p ?m = Some p'" "bd_ok (pk_buf p')" "pk_offset p' = 8"
      "if n < 4 then pk_bytes p' = [] \<and> \<not> pk_good p'
       else pk_bytes p' = take n (bd_bytes b) \<and> pk_good p' = pk_good p" by blast
  then show ?thesis using enough b b' bd(2)
    by (intro exI[of _ p'] exI[of _ b']) (simp add: Conn_Read_def Packet_Decode_None buf_ok_def buf_bytes_def)
qed

lemma Conn_Read_data_chunk:
  assumes "cf_ok 128 (c_queue c)" "cf_content 128 (c_queue c) = x # xs"
  shows "\<exists>q c'. Conn_Read_data c = (Some x, c') \<and> c_buf c' = c_buf c \<and> c_queue c' = q
    \<and> cf_ok 128 q \<and> cf_content 128 q = xs"
proof -
  obtain r q where pop: "cf_pop 128 (c_queue c) = (r, q)" by (cases "cf_pop 128 (c_queue c)")
  with cf.pop_None[OF assms(1), of q] assms(2) obtain y where y: "r = Some y" by (cases r) auto
  with cf.pop_Some[OF assms(1), of y q] pop assms(2) show ?thesis
    by (simp add: Conn_Read_data_def Conn_PostMessage_def Let_def)
qed

lemma Conn_Read_chunk:
  assumes "heap_ok H" "conn_ok c" "\<not> has_frame (buf_bytes (c_buf c))"
  shows "\<exists>c'. Conn_Read H p c = Some (0, p, c') \<and> conn_ok c'
    \<and> (case chunks c of [] \<Rightarrow> c' = c
       | x # xs \<Rightarrow> buf_bytes (c_buf c') = buf_bytes (c_buf c) @ x \<and> chunks c' = xs)"
proof -
  have ok: "buf_ok (c_buf c)" "cf_ok 128 (c_queue c)" "[] \<notin> set (chunks c)"
    using assms(2) by (simp_all add: conn_ok_def chunks_def)
  obtain n where enough: "IsDataEnough (c_buf c) (pk_good p) = Some (False, n, pk_good p)"
    using IsDataEnough_ok[OF ok(1)] assms(3) by auto
  show ?thesis
  proof (cases "chunks c")
    case Nil
    then have "cf_pop 128 (c_queue c) = (None, c_queue c)"
      using cf_empty_iff[OF ok(2)] by (simp add: chunks_def cf_pop_def cf_wasEmpty_def)
    then show ?thesis using enough Nil assms(2)
      by (simp add: Conn_Read_def Conn_Read_data_def)
  next
    case (Cons x xs)
    with Conn_Read_data_chunk[OF ok(2)] obtain c1 where c1: "Conn_Read_data c = (Some x, c1)"
      "c_buf c1 = c_buf c" "cf_ok 128 (c_queue c1)" "cf_content 128 (c_queue c1) = xs"
      unfolding chunks_def by blast
    have "x \<noteq> []" using ok(3) Cons by auto
    from BufCat_ok[OF assms(1), of c1 x] ok(1) c1(2) obtain b where
      "BufCat H x c1 = Some (c1\<lparr> c_buf := Some b \<rparr>)" "buf_ok (Some b)" "bd_bytes b = buf_bytes (c_buf c) @ x"
      by auto
    then show ?thesis using enough Cons c1 \<open>x \<noteq> []\<close> ok(3)
      by (simp add: Conn_Read_def conn_ok_def chunks_def buf_bytes_def)
  qed
qed

subsection \<open>Reassembly\<close>

text \<open>The reader's loop: \<open>k\<close> calls of \<open>Read\<close>, collecting the packets of the calls that return a
  length.\<close>

primrec Conn_pump :: "heap_env \<Rightarrow> nat \<Rightarrow> packet \<Rightarrow> conn \<Rightarrow> (byte list list \<times> packet \<times> conn) option" where
  "Conn_pump H 0 p c = Some ([], p, c)"
| "Conn_pump H (Suc k) p c = do {
     (n, p1, c1) \<leftarrow> Conn_Read H p c;
     (out, p2, c2) \<leftarrow> Conn_pump H k p1 c1;
     Some (if 0 < n then pk_bytes p1 # out else out, p2, c2) }"

definition frame_ok :: "byte list \<Rightarrow> bool" where
  "frame_ok f \<longleftrightarrow> 4 \<le> length f \<and> frame_size f = length f"

lemma has_frame_append: "has_frame bs \<Longrightarrow> has_frame (bs @ cs)"
  by (auto simp: has_frame_def frame_size_def)

lemma frame_size_append: "4 \<le> length bs \<Longrightarrow> frame_size (bs @ cs) = frame_size bs"
  by (simp add: frame_size_def)

lemma has_frame_stream: "frame_ok f \<Longrightarrow> has_frame (f @ bs)"
  by (rule has_frame_append) (simp add: frame_ok_def has_frame_def)

text \<open>The first frame of the buffer is the first frame of the stream.\<close>

lemma first_frame:
  assumes "has_frame buf" "buf @ cs = concat fs @ rest" "list_all frame_ok fs" "\<not> has_frame rest"
  obtains f gs where "fs = f # gs" "frame_size buf = length f" "take (length f) buf = f" "0 < length f"
    "4 \<le> length f" "drop (length f) buf @ cs = concat gs @ rest"
proof (cases fs)
  case Nil
  with assms has_frame_append[of buf cs] show ?thesis by simp
next
  case (Cons f gs)
  then have f: "4 \<le> length f" "frame_size f = length f" using assms(3) by (auto simp: frame_ok_def)
  have eq: "buf @ cs = f @ concat gs @ rest" using assms(2) Cons by simp
  have "frame_size buf = frame_size (f @ concat gs @ rest)"
    using assms(1) frame_size_append[of buf cs] eq by (simp add: has_frame_def)
  then have size: "frame_size buf = length f" using f frame_size_append by simp
  then have le: "length f \<le> length buf" using assms(1) by (simp add: has_frame_def)
  then have "take (length f) buf = f"
    using arg_cong[OF eq, of "take (length f)"] by simp
  moreover have "drop (length f) buf @ cs = concat gs @ rest"
    using arg_cong[OF eq, of "drop (length f)"] le by simp
  moreover have "0 < length f" using f(1) by linarith
  ultimately show thesis using that[OF Cons size] f(1) by blast
qed

lemma Conn_pump_frames:
  assumes "heap_ok H" "conn_ok c" "list_all frame_ok fs" "in_stream c = concat fs @ rest"
    "\<not> has_frame rest" "length fs + length (chunks c) \<le> k"
  shows "\<exists>p' c'. Conn_pump H k p c = Some (fs, p', c') \<and> conn_ok c'
    \<and> buf_bytes (c_buf c') = rest \<and> chunks c' = []"
  using assms
proof (induction k arbitrary: fs c p)
  case 0
  then show ?case by (simp add: in_stream_def)
next
  case (Suc k)
  note prems = Suc.prems
  have stream: "buf_bytes (c_buf c) @ concat (chunks c) = concat fs @ rest"
    using prems(4) by (simp add: in_stream_def)
  show ?case
  proof (cases "has_frame (buf_bytes (c_buf c))")
    case True
    from first_frame[OF True stream prems(3,5)] obtain f gs where f: "fs = f # gs"
      "frame_size (buf_bytes (c_buf c)) = length f" "take (length f) (buf_bytes (c_buf c)) = f"
      "0 < length f" "4 \<le> length f"
      "drop (length f) (buf_bytes (c_buf c)) @ concat (chunks c) = concat gs @ rest" by metis
    from Conn_Read_frame[OF prems(1,2) True f(2)[symmetric], of p] f(5) obtain p1 b where
      rd: "Conn_Read H p c = Some (length f, p1, c\<lparr> c_buf := Some b \<rparr>)" "buf_ok (Some b)"
        "bd_bytes b = drop (length f) (buf_bytes (c_buf c))"
        "pk_bytes p1 = take (length f) (buf_bytes (c_buf c))"
      by (auto simp: not_less[symmetric])
    let ?c = "c\<lparr> c_buf := Some b \<rparr>"
    have "conn_ok ?c" "in_stream ?c = concat gs @ rest" "chunks ?c = chunks c"
      using prems(2) rd(2,3) f(6) by (simp_all add: conn_ok_def in_stream_def chunks_def buf_bytes_def)
    with Suc.IH[of ?c gs p1] prems f(1) obtain p' c' where
      "Conn_pump H k p1 ?c = Some (gs, p', c')" "conn_ok c'" "buf_bytes (c_buf c') = rest" "chunks c' = []"
      by auto
    then show ?thesis using rd(1,4) f(1,3,4) by simp
  next
    case False
    from Conn_Read_chunk[OF prems(1,2) False, of p] obtain c1 where rd: "Conn_Read H p c = Some (0, p, c1)"
      "conn_ok c1" "case chunks c of [] \<Rightarrow> c1 = c
         | x # xs \<Rightarrow> buf_bytes (c_buf c1) = buf_bytes (c_buf c) @ x \<and> chunks c1 = xs" by blast
    have "in_stream c1 = in_stream c" using rd(3) by (auto simp: in_stream_def split: list.splits)
    moreover have "length fs + length (chunks c1) \<le> k"
    proof (cases "chunks c")
      case Nil
      then have "fs = []"
        using False stream has_frame_stream prems(3) by (cases fs) auto
      then show ?thesis using Nil rd(3) by simp
    next
      case Cons
      then show ?thesis using rd(3) prems(6) by simp
    qed
    ultimately show ?thesis using Suc.IH[of c1 fs p] prems rd(1,2) by auto
  qed
qed

text \<open>C14: however the network cuts the stream into chunks, and whatever part of it is already in
  \<open>buf_\<close>, reading delivers exactly the complete frames, whole and in order, within one call for each
  frame and each chunk; an incomplete frame stays in the buffer.\<close>

theorem Conn_Read_reassembles:
  assumes "heap_ok H" "conn_ok c" "list_all frame_ok fs" "in_stream c = concat fs @ rest"
    "\<not> has_frame rest" "length fs + length (chunks c) \<le> k"
  shows "\<exists>p' c'. Conn_pump H k p c = Some (fs, p', c') \<and> in_stream c' = rest \<and> conn_ok c'"
  using Conn_pump_frames[OF assms, of p] by (auto simp: in_stream_def)

lemma OnRead_facts:
  "c_buf (OnRead uv item c) = c_buf c"
  "c_queue (OnRead uv item c) = snd (cf_push 128 (c_queue c) item)"
  by (simp_all add: OnRead_def do_close_def Let_def)

lemma OnRead_stream:
  assumes "conn_ok c" "item \<noteq> []" "\<not> cf_wasFull 128 (c_queue c)"
  shows "conn_ok (OnRead uv item c)" "chunks (OnRead uv item c) = chunks c @ [item]"
    "in_stream (OnRead uv item c) = in_stream c @ item"
  using assms cf_push_result[of 128 "c_queue c" item]
  by (auto simp: conn_ok_def chunks_def in_stream_def OnRead_facts)

lemma conn_ok_new:
  assumes "length mem = 129"
  shows "conn_ok (Conn_new now mem)" "chunks (Conn_new now mem) = []" "in_stream (Conn_new now mem) = []"
  using assms
  by (simp_all add: conn_ok_def Conn_new_def buf_ok_def cf_ok_new chunks_def in_stream_def buf_bytes_def)

theorem Conn_Read_reassembles_witness:
  "\<exists>c p p' c'. Conn_pump plenty 3 p c = Some ([[8, 0, 0, 0, 3, 0, 0, 0]], p', c') \<and> in_stream c' = [1]
     \<and> chunks c = [[8, 0, 0], [0, 3, 0, 0, 0, 1]]"
proof -
  define uv where "uv = \<lparr> uv_start_ok = True, uv_stop_ok = True \<rparr>"
  define c0 where "c0 = Conn_new 0 (replicate 129 [])"
  define c1 where "c1 = OnRead uv [8, 0, 0] c0"
  define c2 where "c2 = OnRead uv [0, 3, 0, 0, 0, 1] c1"
  obtain p where p: "Packet_new plenty = Some p" using Packet_newE[of plenty] by auto
  have c0: "conn_ok c0" "chunks c0 = []" "in_stream c0 = []"
    unfolding c0_def by (rule conn_ok_new; simp)+
  have f0: "\<not> cf_wasFull 128 (c_queue c0)"
    using c0 by (simp add: conn_ok_def chunks_def cf_full_iff)
  note c1 = OnRead_stream[OF c0(1) _ f0, of "[8, 0, 0]" uv, folded c1_def]
  have f1: "\<not> cf_wasFull 128 (c_queue c1)"
    using c1(1,2) c0(2) by (simp add: conn_ok_def chunks_def cf_full_iff)
  note c2 = OnRead_stream[OF c1(1) _ f1, of "[0, 3, 0, 0, 0, 1]" uv, folded c2_def]
  have c2': "conn_ok c2" "chunks c2 = [[8, 0, 0], [0, 3, 0, 0, 0, 1]]"
    "in_stream c2 = [8, 0, 0, 0, 3, 0, 0, 0, 1]"
    using c1 c2 c0 by simp_all
  have "frame_ok [8, 0, 0, 0, 3, 0, 0, 0]" by (simp add: frame_ok_def frame_size_def)
  moreover have "\<not> has_frame [1]" by (simp add: has_frame_def)
  ultimately show ?thesis
    using Conn_Read_reassembles[of plenty c2 "[[8, 0, 0, 0, 3, 0, 0, 0]]" "[1]" 3 p] c2' by auto
qed

text \<open>Once the first four bytes of the buffer are 0, every later \<open>Read\<close> returns 0, takes nothing off
  the queue and leaves the buffered bytes as they are: the connection delivers nothing any more.\<close>

theorem Conn_Read_zero_frame_wedged:
  assumes "heap_ok H" "conn_ok c" "4 \<le> length (buf_bytes (c_buf c))" "frame_size (buf_bytes (c_buf c)) = 0"
  shows "\<exists>p' c'. Conn_pump H k p c = Some ([], p', c') \<and> c_queue c' = c_queue c
    \<and> buf_bytes (c_buf c') = buf_bytes (c_buf c) \<and> conn_ok c'"
  using assms
proof (induction k arbitrary: c p)
  case (Suc k)
  have "has_frame (buf_bytes (c_buf c))" using Suc.prems by (simp add: has_frame_def)
  from Conn_Read_frame[OF Suc.prems(1,2) this, of 0 p] Suc.prems(4) obtain p1 b where rd:
    "Conn_Read H p c = Some (0, p1, c\<lparr> c_buf := Some b \<rparr>)" "buf_ok (Some b)"
    "bd_bytes b = buf_bytes (c_buf c)" by auto
  have "conn_ok (c\<lparr> c_buf := Some b \<rparr>)" using Suc.prems(2) rd(2) by (simp add: conn_ok_def)
  with Suc.IH[of "c\<lparr> c_buf := Some b \<rparr>" p1] Suc.prems rd show ?case by (auto simp: buf_bytes_def)
qed simp

theorem Conn_Read_zero_frame_wedged_witness:
  "\<exists>p c p' c'. buf_bytes (c_buf c) = [0, 0, 0, 0, 1] \<and> Conn_pump plenty 1000 p c = Some ([], p', c')
     \<and> buf_bytes (c_buf c') = [0, 0, 0, 0, 1]"
proof -
  obtain p where p: "Packet_new plenty = Some p" using Packet_newE[of plenty] by auto
  define c where "c = (Conn_new 0 (replicate 129 []))
    \<lparr> c_buf := Some \<lparr> bd_size = 8, bd_offset = 5, bd_data = [0, 0, 0, 0, 1, 0, 0, 0] \<rparr> \<rparr>"
  have ok: "conn_ok c" by (simp add: c_def conn_ok_def Conn_new_def buf_ok_def bd_ok_def cf_ok_new)
  have buf: "buf_bytes (c_buf c) = [0, 0, 0, 0, 1]" by (simp add: c_def buf_bytes_def bd_bytes_def)
  have "frame_size (buf_bytes (c_buf c)) = 0" by (simp add: buf frame_size_def)
  with Conn_Read_zero_frame_wedged[of plenty c 1000 p] ok buf obtain p' c' where
    "Conn_pump plenty 1000 p c = Some ([], p', c')" "buf_bytes (c_buf c') = [0, 0, 0, 0, 1]" by auto
  with buf show ?thesis by blast
qed

subsection \<open>The life of a connection\<close>

text \<open>The two threads' operations as events; an event that cannot happen in a state is \<^const>\<open>None\<close>.
  \<open>cr_sent\<close> records the frames the main thread wrote.\<close>

datatype conn_event =
    EvRead "byte list option"   \<comment> \<open>libuv calls \<open>do_read\<close>\<close>
  | EvMsg nat                   \<comment> \<open>the network thread handles its oldest message\<close>
  | EvWritten nat bool          \<comment> \<open>libuv calls \<open>do_write\<close>\<close>
  | EvClosed                    \<comment> \<open>libuv calls \<open>on_closed\<close>\<close>
  | EvPop                       \<comment> \<open>the main thread takes a chunk\<close>
  | EvSend "byte list"          \<comment> \<open>the main thread writes a frame\<close>
  | EvClose                     \<comment> \<open>the main thread calls \<open>Close\<close>\<close>
  | EvOnClosed int              \<comment> \<open>the main thread handles the server's \<open>CLOSE\<close> message\<close>

record conn_run =
  cr_conn :: conn
  cr_sent :: "byte list list"

definition conn_start :: "uv_env \<Rightarrow> byte list list \<Rightarrow> conn_run" where
  "conn_start uv mem = \<lparr> cr_conn = StartRead uv (Conn_Init None (Conn_new 0 mem)), cr_sent = [] \<rparr>"

fun conn_exec :: "uv_env \<Rightarrow> conn_run \<Rightarrow> conn_event \<Rightarrow> conn_run option" where
  "conn_exec uv s (EvRead b) =
     (if c_uv_reading (cr_conn s) then Some (s\<lparr> cr_conn := do_read uv b (cr_conn s) \<rparr>) else None)"
| "conn_exec uv s (EvMsg req) = (case c_inbox (cr_conn s) of
     [] \<Rightarrow> None
   | m # ms \<Rightarrow> Some (s\<lparr> cr_conn := Conn_OnMessage uv req m ((cr_conn s)\<lparr> c_inbox := ms \<rparr>) \<rparr>))"
| "conn_exec uv s (EvWritten req ok) = Some (s\<lparr> cr_conn := do_write req ok (cr_conn s) \<rparr>)"
| "conn_exec uv s EvClosed =
     (if c_notices (cr_conn s) < c_uv_closes (cr_conn s) then Some (s\<lparr> cr_conn := on_closed (cr_conn s) \<rparr>) else None)"
| "conn_exec uv s EvPop = Some (s\<lparr> cr_conn := snd (Conn_Read_data (cr_conn s)) \<rparr>)"
| "conn_exec uv s (EvSend bytes) =
     (if c_closing (cr_conn s) then Some s
      else Some \<lparr> cr_conn = Conn_Write_data False 0 bytes (cr_conn s), cr_sent = cr_sent s @ [bytes] \<rparr>)"
| "conn_exec uv s EvClose = Some (s\<lparr> cr_conn := Conn_Close (cr_conn s) \<rparr>)"
| "conn_exec uv s (EvOnClosed now) =
     (if 0 < c_notices (cr_conn s) then Some (s\<lparr> cr_conn := Conn_OnClosed now (cr_conn s) \<rparr>) else None)"

primrec conn_execs :: "uv_env \<Rightarrow> conn_run \<Rightarrow> conn_event list \<Rightarrow> conn_run option" where
  "conn_execs uv s [] = Some s"
| "conn_execs uv s (e # es) = do { s' \<leftarrow> conn_exec uv s e; conn_execs uv s' es }"

definition life_ok :: "conn \<Rightarrow> bool" where
  "life_ok c \<longleftrightarrow> c_notices c \<le> c_uv_closes c \<and> c_uv_closes c \<le> 1 \<and> (c_running c \<longleftrightarrow> c_uv_closes c = 0)
     \<and> (c_uv_reading c \<longrightarrow> c_running c) \<and> (c_closing c \<longrightarrow> c_notices c = 1)"

fun msg_bytes :: "conn_msg \<Rightarrow> byte list" where
  "msg_bytes (MsgWrite bs) = bs"
| "msg_bytes _ = []"

definition sent_ok :: "conn_run \<Rightarrow> bool" where
  "sent_ok s \<longleftrightarrow> (\<exists>lost. concat (cr_sent s) =
      c_wire (cr_conn s) @ (if c_closing (cr_conn s) then lost else concat (map msg_bytes (c_inbox (cr_conn s)))))"

lemmas conn_op_defs = do_read_def OnRead_def do_close_def Conn_OnMessage_def StartRead_def
  Conn_Write_data_def Conn_PostMessage_def do_write_def on_closed_def Conn_Read_data_def Conn_Close_def
  Conn_OnClosed_def Let_def

lemma life_ok_ops:
  "life_ok c \<Longrightarrow> life_ok (do_close c)"
  "life_ok c \<Longrightarrow> life_ok (StartRead uv c)"
  "life_ok c \<Longrightarrow> life_ok (Conn_PostMessage m c)"
  "life_ok c \<Longrightarrow> life_ok (Conn_Write_data b req bs c)"
  "life_ok c \<Longrightarrow> life_ok (Conn_Close c)"
  "life_ok c \<Longrightarrow> life_ok (c\<lparr> c_queue := q \<rparr>)"
  "life_ok c \<Longrightarrow> life_ok (c\<lparr> c_inbox := ms \<rparr>)"
  "life_ok c \<Longrightarrow> life_ok (c\<lparr> c_write_reqs := ws \<rparr>)"
  "life_ok c \<Longrightarrow> c_notices c < c_uv_closes c \<Longrightarrow> life_ok (on_closed c)"
  "life_ok c \<Longrightarrow> 0 < c_notices c \<Longrightarrow> life_ok (Conn_OnClosed now c)"
  "life_ok c \<Longrightarrow> life_ok (c\<lparr> c_uv_reading := False, c_reading := r \<rparr>)"
  by (auto simp: life_ok_def do_close_def StartRead_def Conn_PostMessage_def Conn_Write_data_def
      Conn_Close_def on_closed_def Conn_OnClosed_def)

lemma life_ok_OnRead: "life_ok c \<Longrightarrow> life_ok (do_read uv b c)"
  using life_ok_ops(11)[of "c\<lparr> c_queue := q \<rparr>" False for q]
  by (cases b) (simp_all add: life_ok_ops do_read_def OnRead_def Let_def)

lemma life_ok_exec:
  assumes "conn_exec uv s e = Some s'" "life_ok (cr_conn s)"
  shows "life_ok (cr_conn s')"
proof (cases e)
  case (EvMsg req)
  with assms show ?thesis
    by (auto simp: Conn_OnMessage_def life_ok_ops split: list.splits conn_msg.splits)
next
  case (EvWritten req ok)
  with assms show ?thesis by (auto simp: do_write_def Let_def life_ok_ops)
next
  case EvPop
  with assms show ?thesis
    by (auto simp: Conn_Read_data_def Let_def life_ok_ops split: prod.splits option.splits)
qed (use assms in \<open>auto simp: life_ok_ops life_ok_OnRead split: if_splits\<close>)

text \<open>Only these two operations touch the written bytes; every other one leaves what is on the wire and
  what waits in the inbox.\<close>

definition pending_writes :: "conn \<Rightarrow> byte list \<times> byte list \<times> bool" where
  "pending_writes c = (c_wire c, concat (map msg_bytes (c_inbox c)), c_closing c)"

lemma pending_writes_ops:
  "pending_writes (do_close c) = pending_writes c"
  "pending_writes (StartRead uv c) = pending_writes c"
  "pending_writes (do_read uv b c) = pending_writes c"
  "pending_writes (do_write req ok c) = pending_writes c"
  "pending_writes (on_closed c) = pending_writes c"
  "pending_writes (Conn_Close c) = pending_writes c"
  "pending_writes (snd (Conn_Read_data c)) = pending_writes c"
proof -
  show "pending_writes (do_read uv b c) = pending_writes c"
    by (cases b) (simp_all add: pending_writes_def do_read_def OnRead_def do_close_def Let_def)
qed (simp_all add: pending_writes_def do_close_def StartRead_def do_write_def on_closed_def Conn_Close_def
    Conn_PostMessage_def Conn_Read_data_def Let_def split: prod.splits option.splits)

lemma sent_ok_cong:
  "sent_ok s \<Longrightarrow> pending_writes c = pending_writes (cr_conn s) \<Longrightarrow> sent_ok (s\<lparr> cr_conn := c \<rparr>)"
  by (auto simp: sent_ok_def pending_writes_def)

lemma sent_ok_exec:
  assumes "conn_exec uv s e = Some s'" "sent_ok s"
  shows "sent_ok s'"
proof (cases e)
  case (EvMsg req)
  with assms obtain m ms where "c_inbox (cr_conn s) = m # ms"
    "s' = s\<lparr> cr_conn := Conn_OnMessage uv req m ((cr_conn s)\<lparr> c_inbox := ms \<rparr>) \<rparr>"
    by (auto split: list.splits)
  with assms(2) show ?thesis
    by (cases m) (auto simp: sent_ok_def Conn_OnMessage_def StartRead_def do_close_def Conn_Write_data_def)
next
  case (EvSend bytes)
  with assms show ?thesis
    by (auto simp: sent_ok_def Conn_Write_data_def Conn_PostMessage_def split: if_splits)
next
  case (EvOnClosed now)
  with assms show ?thesis by (auto simp: sent_ok_def Conn_OnClosed_def split: if_splits)
qed (use assms in \<open>auto simp: sent_ok_cong pending_writes_ops split: if_splits\<close>)

lemma life_ok_execs: "conn_execs uv s es = Some s' \<Longrightarrow> life_ok (cr_conn s) \<Longrightarrow> life_ok (cr_conn s')"
  by (induction es arbitrary: s) (auto split: Option.bind_splits intro: life_ok_exec)

lemma sent_ok_execs: "conn_execs uv s es = Some s' \<Longrightarrow> sent_ok s \<Longrightarrow> sent_ok s'"
  by (induction es arbitrary: s) (auto split: Option.bind_splits intro: sent_ok_exec)

lemma conn_start_ok: "length mem = 129 \<Longrightarrow> life_ok (cr_conn (conn_start uv mem)) \<and> sent_ok (conn_start uv mem)"
  by (simp add: conn_start_def Conn_Init_def Conn_new_def StartRead_def life_ok_def sent_ok_def)

text \<open>C15: in every interleaving of the two threads \<open>uv_close\<close> is called at most once, the server gets at
  most one \<open>CLOSE\<close> message for the connection, it gets it only after \<open>uv_close\<close>, no chunk is received
  after \<open>uv_close\<close>, and the connection is marked closed only after that message.\<close>

theorem conn_close_once:
  assumes "conn_execs uv (conn_start uv mem) es = Some s" "length mem = 129"
  shows "c_uv_closes (cr_conn s) \<le> 1 \<and> c_notices (cr_conn s) \<le> c_uv_closes (cr_conn s)
    \<and> (c_uv_reading (cr_conn s) \<longrightarrow> c_uv_closes (cr_conn s) = 0)
    \<and> (IsClosed (cr_conn s) \<longrightarrow> c_notices (cr_conn s) = 1)"
proof -
  have "life_ok (cr_conn s)"
    using life_ok_execs[OF assms(1)] conn_start_ok[OF assms(2)] by blast
  then show ?thesis by (auto simp: life_ok_def IsClosed_def)
qed

theorem conn_close_once_witness:
  "\<exists>s. conn_execs \<lparr> uv_start_ok = True, uv_stop_ok = True \<rparr>
       (conn_start \<lparr> uv_start_ok = True, uv_stop_ok = True \<rparr> (replicate 129 []))
       [EvClose, EvClose, EvRead None, EvMsg 1, EvMsg 2, EvClosed, EvOnClosed 5] = Some s
     \<and> c_uv_closes (cr_conn s) = 1 \<and> IsClosed (cr_conn s)"
proof -
  let ?uv = "\<lparr> uv_start_ok = True, uv_stop_ok = True \<rparr>"
  let ?r = "conn_execs ?uv (conn_start ?uv (replicate 129 []))
    [EvClose, EvClose, EvRead None, EvMsg 1, EvMsg 2, EvClosed, EvOnClosed 5]"
  have "?r = Some (the ?r)" "IsClosed (cr_conn (the ?r))"
    by (simp_all add: conn_start_def Conn_Init_def Conn_new_def IsClosed_def conn_op_defs)
  with conn_close_once[OF this(1)] show ?thesis by (intro exI[of _ "the ?r"]) auto
qed



subsection \<open>Flow control\<close>

lemma OnRead_full_lost:
  "cf_wasFull 128 (c_queue c) \<Longrightarrow> c_queue (OnRead uv item c) = c_queue c"
  by (simp add: OnRead_facts cf_push_def cf_wasFull_def Let_def)

lemma conn_ok_pop:
  assumes "conn_ok c" "chunks c = x # xs"
  shows "conn_ok (snd (Conn_Read_data c))" "chunks (snd (Conn_Read_data c)) = xs"
proof -
  from assms have "cf_ok 128 (c_queue c)" "cf_content 128 (c_queue c) = x # xs"
    by (simp_all add: conn_ok_def chunks_def)
  from Conn_Read_data_chunk[OF this] assms show "conn_ok (snd (Conn_Read_data c))"
    "chunks (snd (Conn_Read_data c)) = xs" by (auto simp: conn_ok_def chunks_def)
qed

text \<open>The flow-control view of a connection whose libuv calls succeed: the chunks in the ring, whether
  it reads, and the \<open>READ\<close> messages under way.\<close>

definition uv_fine :: uv_env where
  "uv_fine = \<lparr> uv_start_ok = True, uv_stop_ok = True \<rparr>"

definition flow :: "conn \<Rightarrow> nat \<Rightarrow> bool \<Rightarrow> nat \<Rightarrow> bool" where
  "flow c n r i \<longleftrightarrow> conn_ok c \<and> length (chunks c) = n \<and> c_uv_reading c = r \<and> c_reading c = r
     \<and> c_inbox c = replicate i MsgRead \<and> c_uv_closes c = 0 \<and> \<not> c_closing c"

lemma flow_start: "length mem = 129 \<Longrightarrow> flow (cr_conn (conn_start uv_fine mem)) 0 True 0"
  using conn_ok_new[of mem 0]
  by (simp add: flow_def conn_start_def Conn_Init_def StartRead_def uv_fine_def conn_ok_def chunks_def Conn_new_def)

lemma flow_read:
  assumes "flow c n True i" "n < 128"
  shows "flow (do_read uv_fine (Some [1]) c) (Suc n) (Suc n < 128) i"
proof -
  have ok: "conn_ok c" "cf_ok 128 (c_queue c)" using assms by (auto simp: flow_def conn_ok_def)
  have "\<not> cf_wasFull 128 (c_queue c)"
    using assms cf_full_iff[OF ok(2)] by (auto simp: flow_def chunks_def)
  note rd = OnRead_stream[OF ok(1) _ this, of "[1]" uv_fine]
  have "cf_wasFull 128 (snd (cf_push 128 (c_queue c) [1])) \<longleftrightarrow> Suc n = 128"
    using cf_full_iff[of 128 "c_queue (OnRead uv_fine [1] c)"] rd(1,2) assms(1)
    by (simp add: flow_def conn_ok_def chunks_def OnRead_facts)
  then show ?thesis using rd(1,2) assms
    by (auto simp: flow_def do_read_def OnRead_def uv_fine_def Let_def)
qed

lemma flow_pop:
  assumes "flow c (Suc n) False i"
  shows "flow (snd (Conn_Read_data c)) n False (Suc i)"
proof -
  obtain x xs where xs: "chunks c = x # xs" "length xs = n" and ok: "conn_ok c"
    using assms by (auto simp: flow_def length_Suc_conv)
  obtain c' where rd: "Conn_Read_data c = (Some x, c')"
    using Conn_Read_data_chunk[of c x xs] xs ok by (auto simp: conn_ok_def chunks_def)
  then obtain q where "c' = Conn_PostMessage MsgRead (c\<lparr> c_queue := q \<rparr>)"
    using assms by (auto simp: flow_def Conn_Read_data_def Let_def split: prod.splits option.splits)
  with rd conn_ok_pop[OF ok xs(1)] xs(2) assms show ?thesis
    by (simp add: flow_def Conn_PostMessage_def replicate_append_same)
qed

lemma flow_msg: "flow c n r (Suc i) \<Longrightarrow>
    flow (Conn_OnMessage uv_fine req MsgRead (c\<lparr> c_inbox := replicate i MsgRead \<rparr>)) n True i"
  by (simp add: flow_def Conn_OnMessage_def StartRead_def uv_fine_def conn_ok_def chunks_def)

lemma flow_fill:
  assumes "flow (cr_conn s) n True i" "n + Suc k = 128"
  shows "\<exists>s'. conn_execs uv_fine s (replicate (Suc k) (EvRead (Some [1]))) = Some s' \<and> flow (cr_conn s') 128 False i"
  using assms
proof (induction k arbitrary: s n)
  case 0
  then show ?case using flow_read[OF 0(1)] by (simp add: flow_def)
next
  case (Suc k)
  let ?s = "s\<lparr> cr_conn := do_read uv_fine (Some [1]) (cr_conn s) \<rparr>"
  have "flow (cr_conn ?s) (Suc n) True i" using flow_read[OF Suc.prems(1)] Suc.prems(2) by simp
  from Suc.IH[OF this] Suc.prems show ?case by (simp add: flow_def)
qed

lemma conn_execs_append: "conn_execs uv s (es @ fs) = (case conn_execs uv s es of None \<Rightarrow> None | Some s' \<Rightarrow> conn_execs uv s' fs)"
  by (induction es arbitrary: s) (auto split: Option.bind_splits)

text \<open>The ring can overflow although \<open>OnRead\<close> stops reading when it is full: two \<open>Read\<close>s that both
  find \<open>reading_\<close> off post two \<open>READ\<close> messages, and the second one, handled after the ring has filled
  up and reading has been stopped again, restarts reading on the full ring.  The next chunk is lost.\<close>

theorem conn_ring_overflow:
  "\<exists>es s. conn_execs uv_fine (conn_start uv_fine (replicate 129 [])) es = Some s
    \<and> c_uv_reading (cr_conn s) \<and> c_uv_closes (cr_conn s) = 0
    \<and> (\<forall>item. chunks (do_read uv_fine (Some item) (cr_conn s)) = chunks (cr_conn s))"
proof -
  let ?fill = "\<lambda>k. replicate k (EvRead (Some [1]))"
  obtain s1 where s1: "conn_execs uv_fine (conn_start uv_fine (replicate 129 [])) (?fill (Suc 127)) = Some s1"
    "flow (cr_conn s1) 128 False 0"
    using flow_fill[OF flow_start[of "replicate 129 []"], of 127] by auto
  define c2 where "c2 = snd (Conn_Read_data (snd (Conn_Read_data (cr_conn s1))))"
  define c3 where "c3 = Conn_OnMessage uv_fine 0 MsgRead (c2\<lparr> c_inbox := [MsgRead] \<rparr>)"
  have c2: "flow c2 126 False 2"
    using flow_pop[of "cr_conn s1" 127 0] flow_pop[of "snd (Conn_Read_data (cr_conn s1))" 126 1] s1(2)
    by (simp add: c2_def numeral_2_eq_2)
  then have c3: "flow c3 126 True 1" using flow_msg[of c2 126 False 1 0] by (simp add: c3_def numeral_2_eq_2)
  obtain s4 where s4: "conn_execs uv_fine (s1\<lparr> cr_conn := c3 \<rparr>) (?fill (Suc 1)) = Some s4"
    "flow (cr_conn s4) 128 False 1"
    using flow_fill[of "s1\<lparr> cr_conn := c3 \<rparr>" 126 1 1] c3 by auto
  define c5 where "c5 = Conn_OnMessage uv_fine 0 MsgRead ((cr_conn s4)\<lparr> c_inbox := [] \<rparr>)"
  have c5: "flow c5 128 True 0" using flow_msg[of "cr_conn s4" 128 False 0 0] s4(2) by (simp add: c5_def)
  have "conn_execs uv_fine s1 [EvPop, EvPop, EvMsg 0] = Some (s1\<lparr> cr_conn := c3 \<rparr>)"
    using c2 by (simp add: flow_def c3_def c2_def[symmetric] numeral_2_eq_2)
  moreover have "conn_execs uv_fine s4 [EvMsg 0] = Some (s4\<lparr> cr_conn := c5 \<rparr>)"
    using s4(2) by (simp add: flow_def c5_def)
  ultimately have run: "conn_execs uv_fine (conn_start uv_fine (replicate 129 []))
      (?fill (Suc 127) @ [EvPop, EvPop, EvMsg 0] @ ?fill (Suc 1) @ [EvMsg 0]) = Some (s4\<lparr> cr_conn := c5 \<rparr>)"
    by (simp only: conn_execs_append s1(1) s4(1) option.case)
  have "cf_wasFull 128 (c_queue c5)"
    using c5 by (simp add: flow_def conn_ok_def chunks_def cf_full_iff)
  then have "\<forall>item. chunks (do_read uv_fine (Some item) c5) = chunks c5"
    using OnRead_full_lost by (simp add: chunks_def do_read_def)
  moreover obtain s where "s = s4\<lparr> cr_conn := c5 \<rparr>" "cr_conn s = c5" by simp
  ultimately show ?thesis using run c5 unfolding flow_def by metis
qed

subsection \<open>Session ids\<close>

definition dec_value :: "string \<Rightarrow> nat" where
  "dec_value s = foldl (\<lambda>v c. v * 10 + (of_char c - 48)) 0 s"

lemma dec_digit: "d < 10 \<Longrightarrow> of_char (char_of (d + 48 :: nat) :: char) = d + 48"
  by simp

lemma dec_value_digits: "dec_value (dec_digits n) = n"
proof (induction n rule: dec_digits.induct)
  case (1 n)
  then show ?case
    by (subst dec_digits.simps) (auto simp: dec_value_def)
qed

lemma colon_not_digit: "(CHR '':'') \<notin> set (dec_digits n)"
proof (induction n rule: dec_digits.induct)
  case (1 n)
  have "d < 10 \<Longrightarrow> char_of (d + 48 :: nat) \<noteq> CHR '':''" for d
  proof
    assume "d < 10" "char_of (d + 48 :: nat) = CHR '':''"
    then have "of_char (char_of (d + 48 :: nat) :: char) = (of_char (CHR '':'') :: nat)" by simp
    then show False using \<open>d < 10\<close> by simp
  qed
  from this[of n] this[of "n mod 10"] 1 show ?case by (subst dec_digits.simps) auto
qed

lemma length_dec_digits: "0 < k \<Longrightarrow> n < 10 ^ k \<Longrightarrow> length (dec_digits n) \<le> k"
proof (induction n arbitrary: k rule: dec_digits.induct)
  case (1 n)
  show ?case
  proof (cases "n < 10")
    case True
    then show ?thesis using 1(2) by (subst dec_digits.simps) simp
  next
    case False
    with 1(3) obtain j where j: "k = Suc j" "0 < j" by (cases k; cases "k - 1") auto
    then have "n div 10 < 10 ^ j" using 1(3) by (simp add: div_less_iff_less_mult mult.commute)
    from 1(1)[OF False j(2) this] False j(1) show ?thesis by (subst dec_digits.simps) simp
  qed
qed

lemma takeWhile_stop: "x \<notin> set xs \<Longrightarrow> takeWhile (\<lambda>c. c \<noteq> x) (xs @ x # ys) = xs"
  by (induction xs) auto

lemma suffix_after_colon:
  assumes "a @ CHR '':'' # d = b @ CHR '':'' # e" "(CHR '':'') \<notin> set d" "(CHR '':'') \<notin> set e"
  shows "d = e"
proof -
  have "takeWhile (\<lambda>c. c \<noteq> CHR '':'') (rev (a @ CHR '':'' # d)) = rev d"
    "takeWhile (\<lambda>c. c \<noteq> CHR '':'') (rev (b @ CHR '':'' # e)) = rev e"
    using assms(2,3) by (simp_all add: takeWhile_stop)
  then show ?thesis using assms(1) by (metis rev_rev_ident)
qed

lemma GetSessionId_new:
  "c_session_id c = [] \<Longrightarrow> i + 1 < 10 ^ 9 \<Longrightarrow>
     fst (GetSessionId i c) = c_remote_address c @ CHR '':'' # dec_digits (i + 1)"
  using length_dec_digits[of 9 "i + 1"] by (simp add: GetSessionId_def Let_def)

text \<open>Two connections that get their session ids while the counter stays below \<open>10^9\<close> get different
  ids, whatever their addresses, and a connection keeps the id it got.\<close>

theorem session_ids_distinct:
  assumes "c_session_id c = []" "c_session_id d = []" "i + 1 < 10 ^ 9" "j + 1 < 10 ^ 9" "i \<noteq> j"
  shows "fst (GetSessionId i c) \<noteq> fst (GetSessionId j d)
    \<and> GetSessionId k (snd (snd (GetSessionId i c))) = (fst (GetSessionId i c), k, snd (snd (GetSessionId i c)))"
proof -
  have "fst (GetSessionId i c) \<noteq> fst (GetSessionId j d)"
  proof
    assume "fst (GetSessionId i c) = fst (GetSessionId j d)"
    then have "dec_digits (i + 1) = dec_digits (j + 1)"
      using suffix_after_colon[OF _ colon_not_digit colon_not_digit] assms
      by (simp only: GetSessionId_new)
    then show False using dec_value_digits[of "i + 1"] dec_value_digits[of "j + 1"] assms(5) by simp
  qed
  moreover have "GetSessionId k (snd (snd (GetSessionId i c))) = (fst (GetSessionId i c), k, snd (snd (GetSessionId i c)))"
    using assms(1) by (simp add: GetSessionId_def Let_def)
  ultimately show ?thesis by simp
qed

theorem session_ids_distinct_witness:
  "fst (GetSessionId 41 (Conn_Init (Some (''10.0.0.1'', 5000)) (Conn_new 0 [])))
   \<noteq> fst (GetSessionId 42 (Conn_Init (Some (''10.0.0.1'', 5001)) (Conn_new 0 [])))"
  using session_ids_distinct[of "Conn_Init (Some (''10.0.0.1'', 5000)) (Conn_new 0 [])"
      "Conn_Init (Some (''10.0.0.1'', 5001)) (Conn_new 0 [])" 41 42 0]
  by (simp add: Conn_Init_def Conn_new_def)

end
