(* ===== verification/World.thy ===== *)
theory World
  imports Connection
begin

text \<open>
  The application's heap: connections, player sessions and rooms by address, the room manager's map, the
  clock; the messages of \<open>account_opcode_def.h\<close> and the sending operations of
  \<open>game_base/account/source/player_session.cpp\<close>.

  The protobuf classes are generated code on an external library; parsing and serialising are the
  parameter \<open>codec\<close>.  A dereference of an address that holds no live object is \<^const>\<open>None\<close>.
\<close>

type_synonym ptr = nat
type_synonym pbstring = "byte list"   \<comment> \<open>a \<open>std::string\<close> of a protobuf message\<close>

subsection \<open>Opcodes, error codes and error texts\<close>

datatype account_opcode = ProtoBuff_Login | ProtoBuff_Room_Operate | ProtoBuff_Sync_Room_List
  | ProtoBuff_Sync_Player_List | ProtoBuff_Add_Sharp | ProtoBuff_Remove_Sharp | ProtoBuff_Error_Info

fun opcode_num :: "account_opcode \<Rightarrow> u32" where
  "opcode_num ProtoBuff_Login = 100"
| "opcode_num ProtoBuff_Room_Operate = 101"
| "opcode_num ProtoBuff_Sync_Room_List = 102"
| "opcode_num ProtoBuff_Sync_Player_List = 103"
| "opcode_num ProtoBuff_Add_Sharp = 104"
| "opcode_num ProtoBuff_Remove_Sharp = 105"
| "opcode_num ProtoBuff_Error_Info = 106"

datatype shape_error = Shape_Common_Error | Shape_No_In_Room | Shape_Packet_Wrong | Shape_Id_Not_Exist
  | Shape_Wrong_Operation | Shape_Leave_When_not_In_Room | Shape_Create_Room_When_Key_Exist
  | Shape_Copy_Room_When_Src_Key_No_Exist | Shape_Copy_Room_When_Des_Key_Exist
  | Shape_Enter_Room_Not_Exist | Shape_Sync_Player_List_No_Room | Shape_Delete_Room_Not_Exist
  | Shape_Room_Delete_You_Out | shape_Room_Operation_Success

fun error_num :: "shape_error \<Rightarrow> int" where
  "error_num Shape_Common_Error = 0"
| "error_num Shape_No_In_Room = 1"
| "error_num Shape_Packet_Wrong = 2"
| "error_num Shape_Id_Not_Exist = 3"
| "error_num Shape_Wrong_Operation = 4"
| "error_num Shape_Leave_When_not_In_Room = 5"
| "error_num Shape_Create_Room_When_Key_Exist = 6"
| "error_num Shape_Copy_Room_When_Src_Key_No_Exist = 7"
| "error_num Shape_Copy_Room_When_Des_Key_Exist = 8"
| "error_num Shape_Enter_Room_Not_Exist = 9"
| "error_num Shape_Sync_Player_List_No_Room = 10"
| "error_num Shape_Delete_Room_Not_Exist = 11"
| "error_num Shape_Room_Delete_You_Out = 12"
| "error_num shape_Room_Operation_Success = 13"

definition text_bytes :: "string \<Rightarrow> pbstring" where
  "text_bytes s = map (\<lambda>c. word_of_nat (of_char c)) s"

definition ERROR_NOT_IN_ROOM :: pbstring where
  "ERROR_NOT_IN_ROOM = text_bytes ''not in any room''"
definition ERROR_PACKET_WRONG :: pbstring where
  "ERROR_PACKET_WRONG = text_bytes ''the packet you send is wrong''"
definition ERROR_SHAPE_ID_NOT_EXIST :: pbstring where
  "ERROR_SHAPE_ID_NOT_EXIST = text_bytes ''this shape id is not exist''"
definition ERROR_CREATE_ROOM_EXIST :: pbstring where
  "ERROR_CREATE_ROOM_EXIST = text_bytes ''create room when room already exist''"
definition ERROR_ENTER_ROOM_NOT_EXIST :: pbstring where
  "ERROR_ENTER_ROOM_NOT_EXIST = text_bytes ''enter room when room not exist''"
definition ERROR_COPY_ROOM_SRC_NOT_EXIST :: pbstring where
  "ERROR_COPY_ROOM_SRC_NOT_EXIST = text_bytes ''copy room src room not exist''"
definition ERROR_COPY_ROOM_DES_EXIST :: pbstring where
  "ERROR_COPY_ROOM_DES_EXIST = text_bytes ''copy room des room already exist''"
definition ERROR_SYNC_PLAYER_LIST_NO_ROOOM :: pbstring where
  "ERROR_SYNC_PLAYER_LIST_NO_ROOOM = text_bytes ''ask player list ,room not exist''"
definition ERROR_DELETE_ROOM_NOT_EXIST :: pbstring where
  "ERROR_DELETE_ROOM_NOT_EXIST = text_bytes ''delete room not exist''"
definition ERROR_ROOM_DELET :: pbstring where
  "ERROR_ROOM_DELET = text_bytes ''the room you in has been delete,you quit''"
definition SUCCESS_ROOM_OPERATION :: pbstring where
  "SUCCESS_ROOM_OPERATION = text_bytes ''room operation success''"

subsection \<open>Protobuf messages\<close>

text \<open>Every field is optional; an accessor of an unset field returns its default.\<close>

record wb_msg =              \<comment> \<open>\<open>WhiteBoardMessage\<close>\<close>
  wm_id :: "u32 option"
  wm_type :: "pbstring option"
  wm_data :: "pbstring option"
  wm_prop :: "pbstring option"

record wb_list =             \<comment> \<open>\<open>WhiteBoardMessageList\<close>\<close>
  wl_msgid :: "pbstring option"
  wl_shapes :: "wb_msg list"

record remove_shape =        \<comment> \<open>\<open>RemoveShape\<close>\<close>
  rs_msgid :: "pbstring option"
  rs_id :: "u32 option"

record room_operate =        \<comment> \<open>\<open>RoomOperate\<close>\<close>
  ro_type :: "int option"
  ro_name :: "pbstring option"
  ro_src :: "pbstring option"
  ro_des :: "pbstring option"

definition field_or :: "'a \<Rightarrow> 'a option \<Rightarrow> 'a" where
  "field_or d f = (case f of None \<Rightarrow> d | Some v \<Rightarrow> v)"

text \<open>Where the code ignores the result of \<open>ParseFromString\<close> it goes on with whatever the message then
  holds, so the parser returns that too.\<close>

record codec =
  cd_parse_list :: "pbstring \<Rightarrow> bool \<times> wb_list"
  cd_ser_list :: "wb_list \<Rightarrow> pbstring"
  cd_parse_msg :: "pbstring \<Rightarrow> bool \<times> wb_msg"
  cd_ser_msg :: "wb_msg \<Rightarrow> pbstring"
  cd_parse_remove :: "pbstring \<Rightarrow> bool \<times> remove_shape"
  cd_ser_remove :: "remove_shape \<Rightarrow> pbstring"
  cd_parse_operate :: "pbstring \<Rightarrow> bool \<times> room_operate"
  cd_ser_players :: "pbstring list \<Rightarrow> pbstring"
  cd_ser_rooms :: "pbstring list \<Rightarrow> pbstring"
  cd_ser_error :: "int \<Rightarrow> u32 \<Rightarrow> pbstring \<Rightarrow> pbstring"

record env =
  env_heap :: heap_env
  env_codec :: codec

subsection \<open>Objects\<close>

record session =             \<comment> \<open>\<open>PlayerSession\<close>\<close>
  s_conn :: "ptr option"     \<comment> \<open>\<open>conn_\<close>\<close>
  s_id :: string             \<comment> \<open>\<open>sessionId_\<close>\<close>
  s_room :: "ptr option"     \<comment> \<open>\<open>room_\<close>\<close>
  s_name :: pbstring         \<comment> \<open>\<open>usr_name_\<close>\<close>

record room =                \<comment> \<open>\<open>Room\<close>\<close>
  r_key :: pbstring
  r_sessions :: "ptr list"                  \<comment> \<open>\<open>std::set<PlayerSession*>\<close>\<close>
  r_shapes :: "(u32 \<times> pbstring) list"       \<comment> \<open>\<open>std::map<uint32_t, std::string>\<close>\<close>
  r_max_id :: u32
  r_can_delete :: int                       \<comment> \<open>\<open>can_delete_time_\<close>\<close>

record world =
  w_conns :: "ptr \<Rightarrow> conn option"
  w_sessions :: "ptr \<Rightarrow> session option"
  w_rooms :: "ptr \<Rightarrow> room option"
  w_manager :: "(pbstring \<times> ptr) list"      \<comment> \<open>\<open>RoomManager::rooms_\<close>\<close>
  w_next :: ptr                             \<comment> \<open>the next fresh address\<close>
  w_now :: int                              \<comment> \<open>\<open>time(nullptr)\<close>\<close>

definition Session_new :: session where
  "Session_new = \<lparr> s_conn = None, s_id = [], s_room = None, s_name = [] \<rparr>"

definition Room_new :: "pbstring \<Rightarrow> room" where
  "Room_new key = \<lparr> r_key = key, r_sessions = [], r_shapes = [], r_max_id = 1, r_can_delete = 0 \<rparr>"

definition put_session :: "ptr \<Rightarrow> session \<Rightarrow> world \<Rightarrow> world" where
  "put_session s ss w = w\<lparr> w_sessions := (w_sessions w)(s \<mapsto> ss) \<rparr>"

definition put_room :: "ptr \<Rightarrow> room \<Rightarrow> world \<Rightarrow> world" where
  "put_room r rm w = w\<lparr> w_rooms := (w_rooms w)(r \<mapsto> rm) \<rparr>"

subsection \<open>Sending\<close>

definition SendTranscode :: "env \<Rightarrow> ptr \<Rightarrow> protobuf \<Rightarrow> world \<Rightarrow> (bool \<times> world) option" where
  "SendTranscode E s pkt w = do {
     ss \<leftarrow> w_sessions w s;
     (case s_conn ss of
        None \<Rightarrow> Some (False, w)
      | Some p \<Rightarrow> do {
          c \<leftarrow> w_conns w p;
          c' \<leftarrow> Conn_Write (env_heap E) (Protobuf_doEndpointEncode (env_heap E) pkt) c;
          Some (True, w\<lparr> w_conns := (w_conns w)(p \<mapsto> c') \<rparr>) }) }"

definition SendTranscode_packet :: "env \<Rightarrow> ptr \<Rightarrow> packet \<Rightarrow> world \<Rightarrow> (bool \<times> world) option" where
  "SendTranscode_packet E s pkt w = do {
     ss \<leftarrow> w_sessions w s;
     _ \<leftarrow> GetOpcode pkt;
     (case s_conn ss of
        None \<Rightarrow> Some (False, w)
      | Some p \<Rightarrow> do {
          c \<leftarrow> w_conns w p;
          c' \<leftarrow> Conn_Write (env_heap E) (Option.bind (Packet_Encode (env_heap E) None pkt) (\<lambda>m. m)) c;
          Some (True, w\<lparr> w_conns := (w_conns w)(p \<mapsto> c') \<rparr>) }) }"

text \<open>Where the code ignores the result.\<close>

definition send :: "env \<Rightarrow> account_opcode \<Rightarrow> pbstring \<Rightarrow> ptr \<Rightarrow> world \<Rightarrow> world option" where
  "send E op body s w = map_option snd (SendTranscode E s (Protobuf_new (opcode_num op) body) w)"

definition SendErrorToClient ::
  "env \<Rightarrow> ptr \<Rightarrow> shape_error \<Rightarrow> u32 \<Rightarrow> pbstring \<Rightarrow> world \<Rightarrow> world option" where
  "SendErrorToClient E s code extra descr w =
     send E ProtoBuff_Error_Info (cd_ser_error (env_codec E) (error_num code) extra descr) s w"

definition SetRoom :: "ptr \<Rightarrow> ptr option \<Rightarrow> world \<Rightarrow> world option" where
  "SetRoom s r w = do { ss \<leftarrow> w_sessions w s; Some (put_session s (ss\<lparr> s_room := r \<rparr>) w) }"

definition GetUsrName :: "world \<Rightarrow> ptr \<Rightarrow> pbstring option" where
  "GetUsrName w s = map_option s_name (w_sessions w s)"

definition GetRemoteAddress :: "world \<Rightarrow> ptr \<Rightarrow> string option" where
  "GetRemoteAddress w s = do {
     ss \<leftarrow> w_sessions w s;
     (case s_conn ss of None \<Rightarrow> Some [] | Some p \<Rightarrow> map_option c_remote_address (w_conns w p)) }"

end
