(* ===== verification/Room.thy ===== *)
theory Room
  imports World
begin

text \<open>
  \<open>Room\<close> and \<open>RoomManager\<close> (\<open>game_base/account/source/room.cpp\<close>, \<open>room_manager.cpp\<close>): members, the
  shapes on the board, broadcasts, and the creation, copy and deletion of rooms.
\<close>

subsection \<open>Room\<close>

definition Room_BroadCast :: "env \<Rightarrow> ptr \<Rightarrow> account_opcode \<Rightarrow> pbstring \<Rightarrow> world \<Rightarrow> world option" where
  "Room_BroadCast E r op body w = do { rm \<leftarrow> w_rooms w r; each (send E op body) (r_sessions rm) w }"

definition GetPlayerSize :: "room \<Rightarrow> nat" where
  "GetPlayerSize rm = length (r_sessions rm)"

definition player_names :: "world \<Rightarrow> room \<Rightarrow> pbstring list option" where
  "player_names w rm = all_some (map (GetUsrName w) (r_sessions rm))"

definition BroadCastPlayerList :: "env \<Rightarrow> ptr \<Rightarrow> world \<Rightarrow> world option" where
  "BroadCastPlayerList E r w = do {
     rm \<leftarrow> w_rooms w r;
     names \<leftarrow> player_names w rm;
     Room_BroadCast E r ProtoBuff_Sync_Player_List (cd_ser_players (env_codec E) names) w }"

definition SyncPlayerList :: "env \<Rightarrow> ptr \<Rightarrow> ptr \<Rightarrow> world \<Rightarrow> world option" where
  "SyncPlayerList E r s w = do {
     rm \<leftarrow> w_rooms w r;
     names \<leftarrow> player_names w rm;
     send E ProtoBuff_Sync_Player_List (cd_ser_players (env_codec E) names) s w }"

definition shape_list :: "codec \<Rightarrow> room \<Rightarrow> wb_list" where
  "shape_list cd rm = \<lparr> wl_msgid = None, wl_shapes = map (\<lambda>x. snd (cd_parse_msg cd (snd x))) (r_shapes rm) \<rparr>"

definition SyncShapeObjectInfo :: "env \<Rightarrow> ptr \<Rightarrow> ptr \<Rightarrow> world \<Rightarrow> world option" where
  "SyncShapeObjectInfo E r s w = do {
     rm \<leftarrow> w_rooms w r;
     if r_shapes rm = [] then Some w
     else send E ProtoBuff_Add_Sharp (cd_ser_list (env_codec E) (shape_list (env_codec E) rm)) s w }"

definition EnterRoom :: "env \<Rightarrow> ptr \<Rightarrow> ptr \<Rightarrow> world \<Rightarrow> world option" where
  "EnterRoom E r s w = do {
     rm \<leftarrow> w_rooms w r;
     if s \<in> set (r_sessions rm) then Some w
     else do {
       let w1 = put_room r (rm\<lparr> r_can_delete := 0, r_sessions := oset_insert s (r_sessions rm) \<rparr>) w;
       w2 \<leftarrow> SetRoom s (Some r) w1;
       w3 \<leftarrow> SyncShapeObjectInfo E r s w2;
       BroadCastPlayerList E r w3 } }"

definition LeaveRoom :: "env \<Rightarrow> ptr \<Rightarrow> ptr \<Rightarrow> world \<Rightarrow> world option" where
  "LeaveRoom E r s w = do {
     rm \<leftarrow> w_rooms w r;
     w3 \<leftarrow> (if s \<in> set (r_sessions rm) then do {
              let w1 = put_room r (rm\<lparr> r_sessions := oset_erase s (r_sessions rm) \<rparr>) w;
              w2 \<leftarrow> SetRoom s None w1;
              BroadCastPlayerList E r w2 }
            else Some w);
     rm3 \<leftarrow> w_rooms w3 r;
     Some (if GetPlayerSize rm3 = 0 then put_room r (rm3\<lparr> r_can_delete := w_now w3 + 3600 \<rparr>) w3 else w3) }"

definition CanDelete :: "int \<Rightarrow> room \<Rightarrow> bool" where
  "CanDelete now rm \<longleftrightarrow> GetPlayerSize rm = 0 \<and> r_can_delete rm \<noteq> 0 \<and> now > r_can_delete rm"

text \<open>An iterator into \<open>sessions_\<close> is valid as long as its element has not been erased; using an invalid
  one is undefined.  The loop of \<open>ForceDeleteRoom\<close> erases the element its iterator points to and then
  uses it again.\<close>

definition iter_deref :: "world \<Rightarrow> ptr \<Rightarrow> ptr \<Rightarrow> ptr option" where
  "iter_deref w r it = do { rm \<leftarrow> w_rooms w r; if it \<in> set (r_sessions rm) then Some it else None }"

definition ForceDelete_step :: "env \<Rightarrow> ptr \<Rightarrow> ptr \<Rightarrow> world \<Rightarrow> world option" where
  "ForceDelete_step E r it w = do {
     s \<leftarrow> iter_deref w r it;
     w1 \<leftarrow> LeaveRoom E r s w;
     s' \<leftarrow> iter_deref w1 r it;
     SendErrorToClient E s' Shape_Room_Delete_You_Out (opcode_num ProtoBuff_Room_Operate) ERROR_ROOM_DELET w1 }"

definition ForceDeleteRoom :: "env \<Rightarrow> ptr \<Rightarrow> world \<Rightarrow> world option" where
  "ForceDeleteRoom E r w = do {
     rm \<leftarrow> w_rooms w r;
     w1 \<leftarrow> each (ForceDelete_step E r) (r_sessions rm) w;
     rm1 \<leftarrow> w_rooms w1 r;
     Some (put_room r (rm1\<lparr> r_can_delete := w_now w1 \<rparr>) w1) }"

subsection \<open>Shapes\<close>

text \<open>One round of the loop of \<open>PlayerAddShape\<close>: the message (with the id it was given), the room's map
  and next id, and \<open>shape_id\<close>.\<close>

definition add_one_shape :: "codec \<Rightarrow> wb_msg \<Rightarrow> room \<Rightarrow> wb_msg \<times> room \<times> u32" where
  "add_one_shape cd req rm =
     (let shape_id = field_or 0 (wm_id req) in
      case omap_find (r_shapes rm) shape_id of
        Some _ \<Rightarrow> (req, rm\<lparr> r_shapes := omap_put shape_id (cd_ser_msg cd req) (r_shapes rm) \<rparr>, shape_id)
      | None \<Rightarrow>
          (let shape_id' = r_max_id rm; req' = req\<lparr> wm_id := Some shape_id' \<rparr>
           in (req', rm\<lparr> r_shapes := omap_insert shape_id' (cd_ser_msg cd req') (r_shapes rm),
                        r_max_id := r_max_id rm + 1 \<rparr>, shape_id')))"

fun add_shapes :: "codec \<Rightarrow> wb_msg list \<Rightarrow> u32 \<Rightarrow> room \<Rightarrow> wb_msg list \<times> room \<times> u32" where
  "add_shapes cd [] shape_id rm = ([], rm, shape_id)"
| "add_shapes cd (req # reqs) shape_id rm =
     (let (req', rm1, id1) = add_one_shape cd req rm; (reqs', rm2, id2) = add_shapes cd reqs id1 rm1
      in (req' # reqs', rm2, id2))"

definition PlayerAddShape :: "env \<Rightarrow> ptr \<Rightarrow> ptr \<Rightarrow> protobuf \<Rightarrow> world \<Rightarrow> (u32 \<times> world) option" where
  "PlayerAddShape E r s request w = (case cd_parse_list (env_codec E) (pb_body request) of
     (True, req_list) \<Rightarrow> do {
       rm \<leftarrow> w_rooms w r;
       let (reqs', rm', shape_id) = add_shapes (env_codec E) (wl_shapes req_list) 0 rm;
       w' \<leftarrow> Room_BroadCast E r ProtoBuff_Add_Sharp
               (cd_ser_list (env_codec E) (req_list\<lparr> wl_shapes := reqs' \<rparr>)) (put_room r rm' w);
       Some (shape_id, w') }
   | (False, _) \<Rightarrow> do {
       w' \<leftarrow> SendErrorToClient E s Shape_Packet_Wrong (opcode_num ProtoBuff_Add_Sharp) ERROR_PACKET_WRONG w;
       _ \<leftarrow> GetRemoteAddress w' s;
       Some (0, w') })"

definition PlayerRemoveShape :: "env \<Rightarrow> ptr \<Rightarrow> ptr \<Rightarrow> protobuf \<Rightarrow> world \<Rightarrow> (u32 \<times> world) option" where
  "PlayerRemoveShape E r s request w = (case cd_parse_remove (env_codec E) (pb_body request) of
     (True, req) \<Rightarrow> do {
       rm \<leftarrow> w_rooms w r;
       let shape_id = field_or 0 (rs_id req);
       (case omap_find (r_shapes rm) shape_id of
          None \<Rightarrow> do {
            w' \<leftarrow> SendErrorToClient E s Shape_Id_Not_Exist shape_id ERROR_SHAPE_ID_NOT_EXIST w;
            Some (shape_id, w') }
        | Some _ \<Rightarrow> do {
            w' \<leftarrow> Room_BroadCast E r ProtoBuff_Remove_Sharp (cd_ser_remove (env_codec E) req)
                   (put_room r (rm\<lparr> r_shapes := omap_erase shape_id (r_shapes rm) \<rparr>) w);
            Some (shape_id, w') }) }
   | (False, _) \<Rightarrow> do {
       w' \<leftarrow> SendErrorToClient E s Shape_Packet_Wrong (opcode_num ProtoBuff_Remove_Sharp) ERROR_PACKET_WRONG w;
       _ \<leftarrow> GetRemoteAddress w' s;
       Some (0, w') })"

subsection \<open>RoomManager\<close>

abbreviation (input) room_operate_error :: "env \<Rightarrow> ptr \<Rightarrow> shape_error \<Rightarrow> pbstring \<Rightarrow> world \<Rightarrow> world option" where
  "room_operate_error E s code descr \<equiv> SendErrorToClient E s code (opcode_num ProtoBuff_Room_Operate) descr"

definition CreateRoom :: "pbstring \<Rightarrow> world \<Rightarrow> ptr \<times> world" where
  "CreateRoom key w = (w_next w,
     (put_room (w_next w) (Room_new key) w)
       \<lparr> w_manager := omap_insert key (w_next w) (w_manager w), w_next := w_next w + 1 \<rparr>)"

definition BroadCastRoomList :: "env \<Rightarrow> world \<Rightarrow> world option" where
  "BroadCastRoomList E w =
     each (\<lambda>r. Room_BroadCast E r ProtoBuff_Sync_Room_List
                 (cd_ser_rooms (env_codec E) (map fst (w_manager w)))) (map snd (w_manager w)) w"

definition Manager_AskRoomList :: "env \<Rightarrow> ptr \<Rightarrow> world \<Rightarrow> world option" where
  "Manager_AskRoomList E s w =
     send E ProtoBuff_Sync_Room_List (cd_ser_rooms (env_codec E) (map fst (w_manager w))) s w"

definition Manager_DeleteRoom :: "env \<Rightarrow> pbstring \<Rightarrow> ptr \<Rightarrow> world \<Rightarrow> world option" where
  "Manager_DeleteRoom E key s w = (case omap_find (w_manager w) key of
     None \<Rightarrow> room_operate_error E s Shape_Delete_Room_Not_Exist ERROR_DELETE_ROOM_NOT_EXIST w
   | Some r \<Rightarrow> do {
       w1 \<leftarrow> ForceDeleteRoom E r w;
       room_operate_error E s shape_Room_Operation_Success SUCCESS_ROOM_OPERATION w1 })"

definition Manager_CreateRoom :: "env \<Rightarrow> pbstring \<Rightarrow> ptr \<Rightarrow> world \<Rightarrow> world option" where
  "Manager_CreateRoom E key s w = (case omap_find (w_manager w) key of
     Some _ \<Rightarrow> room_operate_error E s Shape_Create_Room_When_Key_Exist ERROR_CREATE_ROOM_EXIST w
   | None \<Rightarrow> do {
       w1 \<leftarrow> BroadCastRoomList E (snd (CreateRoom key w));
       room_operate_error E s shape_Room_Operation_Success SUCCESS_ROOM_OPERATION w1 })"

definition Manager_SyncPlayerList :: "env \<Rightarrow> pbstring \<Rightarrow> ptr \<Rightarrow> world \<Rightarrow> world option" where
  "Manager_SyncPlayerList E key s w = (case omap_find (w_manager w) key of
     None \<Rightarrow> SendErrorToClient E s Shape_Sync_Player_List_No_Room (opcode_num ProtoBuff_Sync_Player_List)
               ERROR_SYNC_PLAYER_LIST_NO_ROOOM w
   | Some r \<Rightarrow> SyncPlayerList E r s w)"

definition Manager_EnterRoom :: "env \<Rightarrow> pbstring \<Rightarrow> ptr \<Rightarrow> world \<Rightarrow> world option" where
  "Manager_EnterRoom E key s w = (case omap_find (w_manager w) key of
     None \<Rightarrow> room_operate_error E s Shape_Enter_Room_Not_Exist ERROR_ENTER_ROOM_NOT_EXIST w
   | Some r \<Rightarrow> do {
       w1 \<leftarrow> EnterRoom E r s w;
       room_operate_error E s shape_Room_Operation_Success SUCCESS_ROOM_OPERATION w1 })"

definition CopyRoom :: "pbstring \<Rightarrow> pbstring \<Rightarrow> world \<Rightarrow> (ptr \<times> world) option" where
  "CopyRoom src des w = do {
     r_src \<leftarrow> omap_find (w_manager w) src;
     room_src \<leftarrow> w_rooms w r_src;
     Some (w_next w,
       (put_room (w_next w) ((Room_new des)\<lparr> r_shapes := r_shapes room_src, r_max_id := r_max_id room_src \<rparr>) w)
         \<lparr> w_next := w_next w + 1 \<rparr>) }"

definition Manager_CopyRoom :: "env \<Rightarrow> pbstring \<Rightarrow> pbstring \<Rightarrow> ptr \<Rightarrow> world \<Rightarrow> world option" where
  "Manager_CopyRoom E src des s w =
     (if omap_find (w_manager w) src = None
      then room_operate_error E s Shape_Copy_Room_When_Src_Key_No_Exist ERROR_COPY_ROOM_SRC_NOT_EXIST w
      else if omap_find (w_manager w) des \<noteq> None
      then room_operate_error E s Shape_Copy_Room_When_Des_Key_Exist ERROR_COPY_ROOM_DES_EXIST w
      else do {
        (r_des, w1) \<leftarrow> CopyRoom src des w;
        w2 \<leftarrow> BroadCastRoomList E (w1\<lparr> w_manager := omap_insert des r_des (w_manager w1) \<rparr>);
        room_operate_error E s shape_Room_Operation_Success SUCCESS_ROOM_OPERATION w2 })"

text \<open>One round of \<open>RoomManager::Update\<close>; the broadcast inside does not touch the map the loop walks.\<close>

definition Manager_Update_step :: "env \<Rightarrow> pbstring \<times> ptr \<Rightarrow> world \<Rightarrow> world option" where
  "Manager_Update_step E it w = do {
     rm \<leftarrow> w_rooms w (snd it);
     if CanDelete (w_now w) rm
     then BroadCastRoomList E (w\<lparr> w_rooms := (w_rooms w)(snd it := None),
            w_manager := omap_erase (fst it) (w_manager w) \<rparr>)
     else Some w }"

definition Manager_Update :: "env \<Rightarrow> world \<Rightarrow> world option" where
  "Manager_Update E w = each (Manager_Update_step E) (w_manager w) w"

text \<open>\<open>~RoomManager\<close> deletes every room and empties the map; sessions keep their pointers.\<close>

definition Manager_destroy :: "world \<Rightarrow> world" where
  "Manager_destroy w = w\<lparr> w_rooms := (\<lambda>r. if r \<in> snd ` set (w_manager w) then None else w_rooms w r),
     w_manager := [] \<rparr>"

end
