(* ===== verification/Player_Session.thy ===== *)
theory Player_Session
  imports Room
begin

text \<open>
  The request handlers of \<open>PlayerSession\<close> (\<open>game_base/account/source/player_session.cpp\<close>) and its
  destructor.
\<close>

definition SessionHandleError :: int where
  "SessionHandleError = 259"

definition HandleAddShape :: "env \<Rightarrow> ptr \<Rightarrow> protobuf \<Rightarrow> world \<Rightarrow> (int \<times> world) option" where
  "HandleAddShape E s request w = do {
     ss \<leftarrow> w_sessions w s;
     w' \<leftarrow> (case s_room ss of
            Some r \<Rightarrow> map_option snd (PlayerAddShape E r s request w)
          | None \<Rightarrow> do {
              w1 \<leftarrow> SendErrorToClient E s Shape_No_In_Room (opcode_num ProtoBuff_Add_Sharp) ERROR_NOT_IN_ROOM w;
              _ \<leftarrow> GetRemoteAddress w1 s;
              Some w1 });
     Some (1, w') }"

definition HandleRemoveShape :: "env \<Rightarrow> ptr \<Rightarrow> protobuf \<Rightarrow> world \<Rightarrow> (int \<times> world) option" where
  "HandleRemoveShape E s request w = do {
     ss \<leftarrow> w_sessions w s;
     w' \<leftarrow> (case s_room ss of
            Some r \<Rightarrow> map_option snd (PlayerRemoveShape E r s request w)
          | None \<Rightarrow> do {
              w1 \<leftarrow> SendErrorToClient E s Shape_No_In_Room (opcode_num ProtoBuff_Remove_Sharp) ERROR_NOT_IN_ROOM w;
              _ \<leftarrow> GetRemoteAddress w1 s;
              Some w1 });
     Some (1, w') }"

definition PlayerEnterRoom :: "env \<Rightarrow> pbstring \<Rightarrow> ptr \<Rightarrow> world \<Rightarrow> world option" where
  "PlayerEnterRoom E key s w = do {
     ss \<leftarrow> w_sessions w s;
     w1 \<leftarrow> (case s_room ss of Some r \<Rightarrow> LeaveRoom E r s w | None \<Rightarrow> Some w);
     Manager_EnterRoom E key s w1 }"

definition PlayerLeaveRoom :: "env \<Rightarrow> ptr \<Rightarrow> world \<Rightarrow> world option" where
  "PlayerLeaveRoom E s w = do {
     ss \<leftarrow> w_sessions w s;
     (case s_room ss of
        Some r \<Rightarrow> do {
          w1 \<leftarrow> LeaveRoom E r s w;
          room_operate_error E s shape_Room_Operation_Success SUCCESS_ROOM_OPERATION w1 }
      | None \<Rightarrow> do {
          w1 \<leftarrow> room_operate_error E s Shape_Leave_When_not_In_Room ERROR_NOT_IN_ROOM w;
          _ \<leftarrow> GetRemoteAddress w1 s;
          Some w1 }) }"

text \<open>The \<open>switch\<close> over \<open>oprate_type\<close>.\<close>

definition RoomOperate_switch :: "env \<Rightarrow> int \<Rightarrow> pbstring \<Rightarrow> pbstring \<Rightarrow> ptr \<Rightarrow> world \<Rightarrow> world option" where
  "RoomOperate_switch E operate_type room_src room_des s w =
     (if operate_type = 1 then Manager_AskRoomList E s w
      else if operate_type = 2 then Manager_CreateRoom E room_src s w
      else if operate_type = 3 then PlayerEnterRoom E room_src s w
      else if operate_type = 4 then PlayerLeaveRoom E s w
      else if operate_type = 5 then Manager_DeleteRoom E room_src s w
      else if operate_type = 6 then Manager_CopyRoom E room_src room_des s w
      else if operate_type = 7 then Manager_SyncPlayerList E room_src s w
      else Some w)"

text \<open>A body that does not parse is answered with an error, and then handled all the same.\<close>

definition HandleRoomOperate :: "env \<Rightarrow> ptr \<Rightarrow> protobuf \<Rightarrow> world \<Rightarrow> (int \<times> world) option" where
  "HandleRoomOperate E s request w = (case cd_parse_operate (env_codec E) (pb_body request) of
     (ok, ro) \<Rightarrow> do {
       w1 \<leftarrow> (if ok then Some w
             else do {
               w1 \<leftarrow> room_operate_error E s Shape_Packet_Wrong ERROR_PACKET_WRONG w;
               _ \<leftarrow> GetRemoteAddress w1 s;
               Some w1 });
       ss \<leftarrow> w_sessions w1 s;
       let w2 = put_session s (ss\<lparr> s_name := field_or [] (ro_name ro) \<rparr>) w1;
       w3 \<leftarrow> RoomOperate_switch E (field_or 0 (ro_type ro)) (field_or [] (ro_src ro)) (field_or [] (ro_des ro)) s w2;
       Some (1, w3) })"

text \<open>\<open>req_handler_\<close> maps three opcodes; \<open>HandleRequest\<close> calls the handler it finds.\<close>

definition HandleRequest :: "env \<Rightarrow> ptr \<Rightarrow> nat \<Rightarrow> protobuf \<Rightarrow> world \<Rightarrow> (int \<times> world) option" where
  "HandleRequest E s opcode request w =
     (if opcode = unat (opcode_num ProtoBuff_Room_Operate) then HandleRoomOperate E s request w
      else if opcode = unat (opcode_num ProtoBuff_Add_Sharp) then HandleAddShape E s request w
      else if opcode = unat (opcode_num ProtoBuff_Remove_Sharp) then HandleRemoveShape E s request w
      else Some (SessionHandleError, w))"

text \<open>\<open>new PlayerSession()\<close> and \<open>delete\<close>, which leaves the room first.\<close>

definition CreatePlayerSession :: "world \<Rightarrow> ptr \<times> world" where
  "CreatePlayerSession w = (w_next w, (put_session (w_next w) Session_new w)\<lparr> w_next := w_next w + 1 \<rparr>)"

definition DestroyPlayerSession :: "env \<Rightarrow> ptr \<Rightarrow> world \<Rightarrow> world option" where
  "DestroyPlayerSession E s w = do {
     w1 \<leftarrow> PlayerLeaveRoom E s w;
     Some (w1\<lparr> w_sessions := (w_sessions w1)(s := None) \<rparr>) }"

end
