(* ===== verification/World_Inv.thy ===== *)
theory World_Inv
  imports Player_Session
begin

text \<open>
  The invariant of the application's heap and what sending does to it: a message to a live session whose
  connection is live is always defined, and only appends one frame to that connection's inbox.
\<close>

subsection \<open>The invariant\<close>

definition conns_live :: "world \<Rightarrow> bool" where
  "conns_live w \<longleftrightarrow> (\<forall>s ss p. w_sessions w s = Some ss \<longrightarrow> s_conn ss = Some p \<longrightarrow> w_conns w p \<noteq> None)"

definition room_of :: "world \<Rightarrow> ptr \<Rightarrow> ptr option" where
  "room_of w s = Option.bind (w_sessions w s) s_room"

definition members :: "world \<Rightarrow> ptr \<Rightarrow> ptr set" where
  "members w r = (case w_rooms w r of None \<Rightarrow> {} | Some rm \<Rightarrow> set (r_sessions rm))"

text \<open>\<open>session->room_ == room\<close> exactly when \<open>session\<close> is a member of \<open>room\<close>, and both are live.\<close>

definition members_ok :: "world \<Rightarrow> bool" where
  "members_ok w \<longleftrightarrow> (\<forall>s r. room_of w s = Some r \<longleftrightarrow> s \<in> members w r)"

definition room_ok :: "room \<Rightarrow> bool" where
  "room_ok rm \<longleftrightarrow> oset_ok (r_sessions rm) \<and> omap_ok (r_shapes rm)"

definition manager_ok :: "world \<Rightarrow> bool" where
  "manager_ok w \<longleftrightarrow> omap_ok (w_manager w) \<and>
     (\<forall>r rm. w_rooms w r = Some rm \<longrightarrow> room_ok rm \<and> omap_find (w_manager w) (r_key rm) = Some r) \<and>
     (\<forall>k r. omap_find (w_manager w) k = Some r \<longrightarrow> (\<exists>rm. w_rooms w r = Some rm \<and> r_key rm = k))"

definition fresh_ok :: "world \<Rightarrow> bool" where
  "fresh_ok w \<longleftrightarrow> (\<forall>p\<ge>w_next w. w_sessions w p = None \<and> w_rooms w p = None \<and> w_conns w p = None)"

definition world_ok :: "world \<Rightarrow> bool" where
  "world_ok w \<longleftrightarrow> conns_live w \<and> members_ok w \<and> manager_ok w \<and> fresh_ok w"

lemmas world_defs = world_ok_def conns_live_def members_ok_def manager_ok_def fresh_ok_def

lemma memberD:
  assumes "world_ok w" "w_rooms w r = Some rm" "s \<in> set (r_sessions rm)"
  obtains ss where "w_sessions w s = Some ss" "s_room ss = Some r"
proof -
  have "room_of w s = Some r" using assms by (simp add: world_ok_def members_ok_def members_def)
  then show thesis using that by (auto simp: room_of_def split: Option.bind_splits)
qed

lemma room_ofD:
  assumes "world_ok w" "w_sessions w s = Some ss" "s_room ss = Some r"
  obtains rm where "w_rooms w r = Some rm" "s \<in> set (r_sessions rm)"
proof -
  have "room_of w s = Some r" using assms(2,3) by (simp add: room_of_def)
  then have "s \<in> members w r" using assms(1) by (simp add: world_ok_def members_ok_def)
  then show thesis using that by (auto simp: members_def split: option.splits)
qed

lemma managedD:
  assumes "world_ok w" "omap_find (w_manager w) k = Some r"
  obtains rm where "w_rooms w r = Some rm" "r_key rm = k"
  using assms unfolding world_ok_def manager_ok_def by blast

lemma room_managed: "manager_ok w \<Longrightarrow> w_rooms w r = Some rm \<Longrightarrow> omap_find (w_manager w) (r_key rm) = Some r"
  unfolding manager_ok_def by blast

lemma managed_room:
  "manager_ok w \<Longrightarrow> omap_find (w_manager w) k = Some r \<Longrightarrow> \<exists>rm. w_rooms w r = Some rm \<and> r_key rm = k"
  unfolding manager_ok_def by blast

subsection \<open>Posting a frame\<close>

definition conn_of :: "world \<Rightarrow> ptr \<Rightarrow> ptr option" where
  "conn_of w s = Option.bind (w_sessions w s) s_conn"

definition name_of :: "world \<Rightarrow> ptr \<Rightarrow> pbstring" where
  "name_of w s = (case w_sessions w s of None \<Rightarrow> [] | Some ss \<Rightarrow> s_name ss)"

definition frame_bytes :: "account_opcode \<Rightarrow> pbstring \<Rightarrow> byte list" where
  "frame_bytes op body = wire_frame (unat (opcode_num op)) body"

definition conn_post :: "byte list \<Rightarrow> conn \<Rightarrow> conn" where
  "conn_post f c = (if c_closing c then c else c\<lparr> c_inbox := c_inbox c @ [MsgWrite f] \<rparr>)"

definition post :: "byte list \<Rightarrow> ptr option \<Rightarrow> world \<Rightarrow> world" where
  "post f p w = (case p of None \<Rightarrow> w
     | Some p \<Rightarrow> w\<lparr> w_conns := (w_conns w)(p := map_option (conn_post f) (w_conns w p)) \<rparr>)"

definition post_all :: "byte list \<Rightarrow> ptr option list \<Rightarrow> world \<Rightarrow> world" where
  "post_all f ps w = fold (post f) ps w"

lemma post_fields [simp]:
  "w_sessions (post f p w) = w_sessions w" "w_rooms (post f p w) = w_rooms w"
  "w_manager (post f p w) = w_manager w" "w_next (post f p w) = w_next w" "w_now (post f p w) = w_now w"
  "conn_of (post f p w) = conn_of w" "name_of (post f p w) = name_of w"
  "room_of (post f p w) = room_of w" "members (post f p w) = members w"
  "w_conns (post f p w) q = None \<longleftrightarrow> w_conns w q = None"
  by (auto simp: post_def conn_of_def name_of_def room_of_def members_def fun_eq_iff split: option.splits)

lemma post_all_fields [simp]:
  "w_sessions (post_all f ps w) = w_sessions w" "w_rooms (post_all f ps w) = w_rooms w"
  "w_manager (post_all f ps w) = w_manager w" "w_next (post_all f ps w) = w_next w"
  "w_now (post_all f ps w) = w_now w" "conn_of (post_all f ps w) = conn_of w"
  "name_of (post_all f ps w) = name_of w" "room_of (post_all f ps w) = room_of w"
  "members (post_all f ps w) = members w" "w_conns (post_all f ps w) q = None \<longleftrightarrow> w_conns w q = None"
  by (induction ps arbitrary: w) (simp_all add: post_all_def)

lemma world_ok_post [simp]: "world_ok (post f p w) = world_ok w"
  by (simp add: world_defs)

lemma world_ok_post_all [simp]: "world_ok (post_all f ps w) = world_ok w"
  by (simp add: world_defs)

lemma post_put_room [simp]: "post f p (put_room r rm w) = put_room r rm (post f p w)"
  by (cases p; cases w) (simp_all add: post_def put_room_def)

lemma post_all_put_room [simp]: "post_all f ps (put_room r rm w) = put_room r rm (post_all f ps w)"
  by (induction ps arbitrary: w) (simp_all add: post_all_def)

lemma post_all_simps [simp]: "post_all f [] w = w" "post_all f (p # ps) w = post_all f ps (post f p w)"
  by (simp_all add: post_all_def)

text \<open>A connection gets the frame once for every entry that names it, unless it is closing.\<close>

lemma post_all_conn:
  "w_conns (post_all f ps w) p = map_option (\<lambda>c. if c_closing c then c
     else c\<lparr> c_inbox := c_inbox c @ replicate (count_list ps (Some p)) (MsgWrite f) \<rparr>) (w_conns w p)"
proof (induction ps arbitrary: w)
  case Nil
  have "map_option (\<lambda>c. if c_closing c then c else c) (w_conns w p) = w_conns w p"
    by (cases "w_conns w p") auto
  then show ?case by (simp cong: if_cong)
next
  case (Cons q qs)
  then show ?case
    by (cases "w_conns w p")
      (auto simp: post_def conn_post_def replicate_append_same split: option.splits)
qed

subsection \<open>Sending\<close>

lemma Conn_Write_frame:
  assumes "heap_ok H"
  shows "Conn_Write H (Protobuf_doEndpointEncode H b) c =
    Some (conn_post (wire_frame (unat (pb_opcode b)) (pb_body b)) c)"
proof -
  obtain r where r: "Protobuf_doEndpointEncode H b = Some r" "bd_ok r"
    "bd_bytes r = wire_frame (unat (pb_opcode b)) (pb_body b)"
    using Protobuf_encodeE[OF assms] by metis
  have len: "bd_offset r \<le> length (bd_data r)" using r(2) by (simp add: bd_ok_def)
  have n: "bd_offset r = 12 + length (pb_body b)" using length_bd_bytes[OF r(2)] by (simp add: r(3))
  have bytes: "take (bd_offset r) (bd_data r) = wire_frame (unat (pb_opcode b)) (pb_body b)"
    using r(3) by (simp add: bd_bytes_def)
  have "mem_read (bd_data r) 0 (bd_offset r) = Some (wire_frame (unat (pb_opcode b)) (pb_body b))"
    using len bytes by (simp add: mem_read_Some)
  then show ?thesis using assms r(1) n
    by (simp add: Conn_Write_def conn_post_def calloc_block_ok memcpy_at_def
        Conn_Write_data_def Conn_PostMessage_def)
qed

lemma send_post:
  assumes "heap_ok (env_heap E)" "world_ok w" "w_sessions w s \<noteq> None"
  shows "send E op body s w = Some (post (frame_bytes op body) (conn_of w s) w)"
proof -
  obtain ss where ss: "w_sessions w s = Some ss" using assms(3) by auto
  show ?thesis
  proof (cases "s_conn ss")
    case None
    then show ?thesis using ss by (simp add: send_def SendTranscode_def conn_of_def post_def)
  next
    case (Some p)
    with ss assms(2) obtain c where "w_conns w p = Some c"
      unfolding world_ok_def conns_live_def by blast
    then show ?thesis using ss Some
      by (simp add: send_def SendTranscode_def Conn_Write_frame[OF assms(1)] conn_of_def post_def
          frame_bytes_def Protobuf_new_def)
  qed
qed

lemma SendError_post:
  assumes "heap_ok (env_heap E)" "world_ok w" "w_sessions w s \<noteq> None"
  shows "SendErrorToClient E s code extra descr w = Some (post (frame_bytes ProtoBuff_Error_Info
    (cd_ser_error (env_codec E) (error_num code) extra descr)) (conn_of w s) w)"
  unfolding SendErrorToClient_def by (rule send_post[OF assms])

lemma GetRemoteAddress_defined:
  "world_ok w \<Longrightarrow> w_sessions w s \<noteq> None \<Longrightarrow> GetRemoteAddress w s \<noteq> None"
  by (auto simp: GetRemoteAddress_def world_ok_def conns_live_def split: option.split)

subsection \<open>The interface of a sender\<close>

text \<open>What the rooms rely on when they send: in a good state a message to a live receiver is defined,
  has a known effect, and keeps both.\<close>

locale messenger =
  fixes ok :: "'w \<Rightarrow> bool"
    and live :: "'w \<Rightarrow> 's \<Rightarrow> bool"
    and sendf :: "'s \<Rightarrow> 'w \<Rightarrow> 'w option"
    and effect :: "'s \<Rightarrow> 'w \<Rightarrow> 'w"
  assumes send_effect: "ok w \<Longrightarrow> live w s \<Longrightarrow> sendf s w = Some (effect s w)"
    and effect_ok: "ok w \<Longrightarrow> ok (effect s w)"
    and effect_live: "live (effect s w) = live w"
begin

lemma each_send:
  assumes "ok w" "\<forall>s\<in>set ss. live w s"
  shows "each sendf ss w = Some (fold effect ss w)"
  using assms by (induction ss arbitrary: w) (simp_all add: send_effect effect_ok effect_live)

end

interpretation sender: messenger "\<lambda>w. heap_ok (env_heap E) \<and> world_ok w" "\<lambda>w s. w_sessions w s \<noteq> None"
    "send E op body" "\<lambda>s w. post (frame_bytes op body) (conn_of w s) w" for E op body
  by unfold_locales (simp_all add: send_post fun_eq_iff)

lemma fold_post: "fold (\<lambda>s w. post f (conn_of w s) w) ss w = post_all f (map (conn_of w) ss) w"
  by (induction ss arbitrary: w) simp_all

lemma each_send_post:
  assumes "heap_ok (env_heap E)" "world_ok w" "\<forall>s\<in>set ss. w_sessions w s \<noteq> None"
  shows "each (send E op body) ss w = Some (post_all (frame_bytes op body) (map (conn_of w) ss) w)"
  using sender.each_send[of E w ss op body] assms by (simp add: fold_post)

end
