(* ===== verification/Room_Facts.thy ===== *)
theory Room_Facts
  imports World_Inv
begin

text \<open>
  The effect of every operation of \<open>Room\<close> and \<open>RoomManager\<close> on a well-formed heap, as an equation: the
  frames it posts and the change of membership, shapes and rooms, with the invariant it keeps.
\<close>

subsection \<open>Broadcasts\<close>

lemma members_live:
  "world_ok w \<Longrightarrow> w_rooms w r = Some rm \<Longrightarrow> \<forall>s\<in>set (r_sessions rm). w_sessions w s \<noteq> None"
  using memberD by (metis option.distinct(1))

definition member_conns :: "world \<Rightarrow> room \<Rightarrow> ptr option list" where
  "member_conns w rm = map (conn_of w) (r_sessions rm)"

lemma member_conns_post [simp]:
  "member_conns (post f p w) = member_conns w" "member_conns (post_all f ps w) = member_conns w"
  by (simp_all add: member_conns_def fun_eq_iff)

lemma Room_BroadCast_eq:
  assumes "heap_ok (env_heap E)" "world_ok w" "w_rooms w r = Some rm"
  shows "Room_BroadCast E r op body w = Some (post_all (frame_bytes op body) (member_conns w rm) w)"
  using each_send_post[OF assms(1,2) members_live[OF assms(2,3)]] assms(3)
  by (simp add: Room_BroadCast_def member_conns_def)

lemma player_names_eq:
  assumes "world_ok w" "w_rooms w r = Some rm"
  shows "player_names w rm = Some (map (name_of w) (r_sessions rm))"
  unfolding player_names_def
  by (rule all_some_map) (use members_live[OF assms] in \<open>auto simp: GetUsrName_def name_of_def\<close>)

definition player_list_frame :: "env \<Rightarrow> world \<Rightarrow> room \<Rightarrow> byte list" where
  "player_list_frame E w rm =
     frame_bytes ProtoBuff_Sync_Player_List (cd_ser_players (env_codec E) (map (name_of w) (r_sessions rm)))"

definition shapes_frame :: "env \<Rightarrow> room \<Rightarrow> byte list" where
  "shapes_frame E rm = frame_bytes ProtoBuff_Add_Sharp (cd_ser_list (env_codec E) (shape_list (env_codec E) rm))"

lemma BroadCastPlayerList_eq:
  assumes "heap_ok (env_heap E)" "world_ok w" "w_rooms w r = Some rm"
  shows "BroadCastPlayerList E r w = Some (post_all (player_list_frame E w rm) (member_conns w rm) w)"
  using Room_BroadCast_eq[OF assms] player_names_eq[OF assms(2,3)] assms(3)
  by (simp add: BroadCastPlayerList_def player_list_frame_def)

lemma SyncPlayerList_eq:
  assumes "heap_ok (env_heap E)" "world_ok w" "w_rooms w r = Some rm" "w_sessions w s \<noteq> None"
  shows "SyncPlayerList E r s w = Some (post (player_list_frame E w rm) (conn_of w s) w)"
  using send_post[OF assms(1,2,4)] player_names_eq[OF assms(2,3)] assms(3)
  by (simp add: SyncPlayerList_def player_list_frame_def)

subsection \<open>Entering and leaving\<close>

definition join :: "ptr \<Rightarrow> room \<Rightarrow> ptr \<Rightarrow> session \<Rightarrow> world \<Rightarrow> world" where
  "join r rm s ss w = put_session s (ss\<lparr> s_room := Some r \<rparr>)
     (put_room r (rm\<lparr> r_can_delete := 0, r_sessions := oset_insert s (r_sessions rm) \<rparr>) w)"

definition part :: "ptr \<Rightarrow> room \<Rightarrow> ptr \<Rightarrow> session \<Rightarrow> world \<Rightarrow> world" where
  "part r rm s ss w = put_session s (ss\<lparr> s_room := None \<rparr>)
     (put_room r (rm\<lparr> r_sessions := oset_erase s (r_sessions rm) \<rparr>) w)"

lemma put_fields [simp]:
  "w_conns (put_room r rm w) = w_conns w" "w_sessions (put_room r rm w) = w_sessions w"
  "w_rooms (put_room r rm w) = (w_rooms w)(r \<mapsto> rm)" "w_manager (put_room r rm w) = w_manager w"
  "w_next (put_room r rm w) = w_next w" "w_now (put_room r rm w) = w_now w"
  "conn_of (put_room r rm w) = conn_of w" "name_of (put_room r rm w) = name_of w"
  "w_conns (put_session s ss w) = w_conns w" "w_sessions (put_session s ss w) = (w_sessions w)(s \<mapsto> ss)"
  "w_rooms (put_session s ss w) = w_rooms w" "w_manager (put_session s ss w) = w_manager w"
  "w_next (put_session s ss w) = w_next w" "w_now (put_session s ss w) = w_now w"
  "room_of (put_room r rm w) = room_of w" "members (put_room r rm w) = (members w)(r := set (r_sessions rm))"
  "room_of (put_session s ss w) = (room_of w)(s := s_room ss)" "members (put_session s ss w) = members w"
  by (simp_all add: put_room_def put_session_def conn_of_def name_of_def room_of_def members_def fun_eq_iff)

lemma members_iff: "world_ok w \<Longrightarrow> s \<in> members w r \<longleftrightarrow> room_of w s = Some r"
  by (simp add: world_ok_def members_ok_def)

lemma conns_live_put:
  "conns_live (put_room r rm w) = conns_live w"
  "conns_live w \<Longrightarrow> (\<forall>p. s_conn ss = Some p \<longrightarrow> w_conns w p \<noteq> None) \<Longrightarrow> conns_live (put_session s ss w)"
  by (auto simp: conns_live_def)

lemma fresh_ok_put:
  "fresh_ok w \<Longrightarrow> w_rooms w r \<noteq> None \<Longrightarrow> fresh_ok (put_room r rm w)"
  "fresh_ok w \<Longrightarrow> w_sessions w s \<noteq> None \<Longrightarrow> fresh_ok (put_session s ss w)"
  by (auto simp: fresh_ok_def)

lemma manager_ok_put:
  "manager_ok w \<Longrightarrow> w_rooms w r = Some rm \<Longrightarrow> r_key rm' = r_key rm \<Longrightarrow> room_ok rm' \<Longrightarrow> manager_ok (put_room r rm' w)"
  "manager_ok (put_session s ss w) = manager_ok w"
  by (force simp: manager_ok_def)+

lemma world_ok_room_ok: "world_ok w \<Longrightarrow> w_rooms w r = Some rm \<Longrightarrow> room_ok rm"
  by (simp add: world_ok_def manager_ok_def)

text \<open>A change of a room that keeps its key and members keeps the invariant.\<close>

lemma world_ok_put_room:
  assumes "world_ok w" "w_rooms w r = Some rm" "r_key rm' = r_key rm" "r_sessions rm' = r_sessions rm"
    "omap_ok (r_shapes rm')"
  shows "world_ok (put_room r rm' w)"
proof -
  have "room_ok rm'" using assms(4,5) world_ok_room_ok[OF assms(1,2)] by (simp add: room_ok_def)
  moreover have "members_ok (put_room r rm' w)"
    using assms(1,2,4) by (auto simp: world_ok_def members_ok_def members_def)
  ultimately show ?thesis using assms(1-3)
    by (auto simp: world_ok_def conns_live_put fresh_ok_put intro: manager_ok_put)
qed

lemma world_ok_put_name:
  assumes "world_ok w" "w_sessions w s = Some ss"
  shows "world_ok (put_session s (ss\<lparr> s_name := nm \<rparr>) w)"
proof -
  have "conns_live (put_session s (ss\<lparr> s_name := nm \<rparr>) w)"
    using assms by (intro conns_live_put) (auto simp: world_ok_def conns_live_def)
  moreover have "members_ok (put_session s (ss\<lparr> s_name := nm \<rparr>) w)"
    using assms(2) members_iff[OF assms(1)] by (auto simp: members_ok_def room_of_def)
  ultimately show ?thesis using assms by (auto simp: world_ok_def manager_ok_put fresh_ok_put)
qed

lemma world_ok_join:
  assumes "world_ok w" "w_rooms w r = Some rm" "w_sessions w s = Some ss" "s_room ss = None"
  shows "world_ok (join r rm s ss w)"
proof -
  have mem: "members w r = set (r_sessions rm)" "room_of w s = None"
    using assms(2-4) by (simp_all add: members_def room_of_def)
  have "conns_live (join r rm s ss w)"
    using assms unfolding join_def by (intro conns_live_put) (auto simp: world_ok_def conns_live_def)
  moreover have "members_ok (join r rm s ss w)"
    unfolding members_ok_def join_def
    by (auto simp: mem(1)[symmetric] members_iff[OF assms(1)] mem(2))
  moreover have "manager_ok (join r rm s ss w)"
    unfolding join_def manager_ok_put(2)
    by (rule manager_ok_put(1)[of _ r rm])
      (use assms world_ok_room_ok[OF assms(1,2)] in \<open>auto simp: world_ok_def room_ok_def\<close>)
  moreover have "fresh_ok (join r rm s ss w)"
    using assms by (simp add: join_def fresh_ok_put world_ok_def)
  ultimately show ?thesis by (simp add: world_ok_def)
qed

lemma world_ok_part:
  assumes "world_ok w" "w_rooms w r = Some rm" "w_sessions w s = Some ss" "s_room ss = Some r"
  shows "world_ok (part r rm s ss w)"
proof -
  have mem: "members w r = set (r_sessions rm)" "room_of w s = Some r"
    using assms(2-4) by (simp_all add: members_def room_of_def)
  have "conns_live (part r rm s ss w)"
    using assms unfolding part_def by (intro conns_live_put) (auto simp: world_ok_def conns_live_def)
  moreover have "members_ok (part r rm s ss w)"
    unfolding members_ok_def part_def
    by (auto simp: mem(1)[symmetric] members_iff[OF assms(1)] mem(2))
  moreover have "manager_ok (part r rm s ss w)"
    unfolding part_def manager_ok_put(2)
    by (rule manager_ok_put(1)[of _ r rm])
      (use assms world_ok_room_ok[OF assms(1,2)] in \<open>auto simp: world_ok_def room_ok_def\<close>)
  moreover have "fresh_ok (part r rm s ss w)"
    using assms by (simp add: part_def fresh_ok_put world_ok_def)
  ultimately show ?thesis by (simp add: world_ok_def)
qed

lemma join_fields [simp]:
  "w_conns (join r rm s ss w) = w_conns w" "w_manager (join r rm s ss w) = w_manager w"
  "w_now (join r rm s ss w) = w_now w" "w_next (join r rm s ss w) = w_next w"
  "w_sessions (join r rm s ss w) = (w_sessions w)(s \<mapsto> ss\<lparr> s_room := Some r \<rparr>)"
  "w_rooms (join r rm s ss w) = (w_rooms w)(r \<mapsto> rm\<lparr> r_can_delete := 0, r_sessions := oset_insert s (r_sessions rm) \<rparr>)"
  "w_conns (part r rm s ss w) = w_conns w" "w_manager (part r rm s ss w) = w_manager w"
  "w_now (part r rm s ss w) = w_now w" "w_next (part r rm s ss w) = w_next w"
  "w_sessions (part r rm s ss w) = (w_sessions w)(s \<mapsto> ss\<lparr> s_room := None \<rparr>)"
  "w_rooms (part r rm s ss w) = (w_rooms w)(r \<mapsto> rm\<lparr> r_sessions := oset_erase s (r_sessions rm) \<rparr>)"
  by (simp_all add: join_def part_def)

definition joined_room :: "ptr \<Rightarrow> room \<Rightarrow> room" where
  "joined_room s rm = rm\<lparr> r_can_delete := 0, r_sessions := oset_insert s (r_sessions rm) \<rparr>"

definition parted_room :: "ptr \<Rightarrow> room \<Rightarrow> room" where
  "parted_room s rm = rm\<lparr> r_sessions := oset_erase s (r_sessions rm) \<rparr>"

text \<open>What entering does: join, the shapes to the newcomer, the new player list to every member.\<close>

definition entered :: "env \<Rightarrow> ptr \<Rightarrow> room \<Rightarrow> ptr \<Rightarrow> session \<Rightarrow> world \<Rightarrow> world" where
  "entered E r rm s ss w = (let w1 = join r rm s ss w in
     post_all (player_list_frame E w1 (joined_room s rm)) (member_conns w1 (joined_room s rm))
       (if r_shapes rm = [] then w1 else post (shapes_frame E rm) (conn_of w1 s) w1))"

lemma EnterRoom_eq:
  assumes "heap_ok (env_heap E)" "world_ok w" "w_rooms w r = Some rm" "w_sessions w s = Some ss" "s_room ss = None"
  shows "EnterRoom E r s w = Some (entered E r rm s ss w)" "world_ok (entered E r rm s ss w)"
proof -
  let ?w1 = "join r rm s ss w" and ?rm = "joined_room s rm"
  have ok1: "world_ok ?w1" by (rule world_ok_join[OF assms(2-5)])
  have "s \<notin> set (r_sessions rm)"
    using members_iff[OF assms(2), of s r] assms(3-5) by (simp add: members_def room_of_def)
  moreover have "SetRoom s (Some r) (put_room r ?rm w) = Some ?w1"
    using assms(4) by (simp add: SetRoom_def join_def joined_room_def)
  moreover have rm1: "w_rooms ?w1 r = Some ?rm" by (simp add: joined_room_def)
  moreover have "SyncShapeObjectInfo E r s ?w1 =
      Some (if r_shapes rm = [] then ?w1 else post (shapes_frame E rm) (conn_of ?w1 s) ?w1)" (is "_ = Some ?w2")
    using send_post[OF assms(1) ok1, of s] rm1
    by (simp add: SyncShapeObjectInfo_def shapes_frame_def shape_list_def joined_room_def)
  moreover have "BroadCastPlayerList E r ?w2 =
      Some (post_all (player_list_frame E ?w1 ?rm) (member_conns ?w1 ?rm) ?w2)"
    using BroadCastPlayerList_eq[OF assms(1), of ?w2 r ?rm] ok1 rm1 by (auto simp: player_list_frame_def)
  ultimately show "EnterRoom E r s w = Some (entered E r rm s ss w)"
    using assms(3) by (simp add: EnterRoom_def entered_def Let_def joined_room_def)
  show "world_ok (entered E r rm s ss w)" using ok1 by (simp add: entered_def Let_def)
qed

text \<open>What leaving does: part, the new player list to the members that stay, and the deadline when the
  room has become empty.\<close>

definition left_room :: "env \<Rightarrow> ptr \<Rightarrow> room \<Rightarrow> ptr \<Rightarrow> session \<Rightarrow> world \<Rightarrow> world" where
  "left_room E r rm s ss w = (let w1 = part r rm s ss w; rm' = parted_room s rm;
       w2 = post_all (player_list_frame E w1 rm') (member_conns w1 rm') w1
     in if r_sessions rm' = [] then put_room r (rm'\<lparr> r_can_delete := w_now w + 3600 \<rparr>) w2 else w2)"

lemma LeaveRoom_eq:
  assumes "heap_ok (env_heap E)" "world_ok w" "w_rooms w r = Some rm" "w_sessions w s = Some ss" "s_room ss = Some r"
  shows "LeaveRoom E r s w = Some (left_room E r rm s ss w)" "world_ok (left_room E r rm s ss w)"
proof -
  let ?w1 = "part r rm s ss w" and ?rm = "parted_room s rm"
  have ok1: "world_ok ?w1" by (rule world_ok_part[OF assms(2-5)])
  have "s \<in> set (r_sessions rm)"
    using members_iff[OF assms(2), of s r] assms(3-5) by (simp add: members_def room_of_def)
  moreover have "SetRoom s None (put_room r ?rm w) = Some ?w1"
    using assms(4) by (simp add: SetRoom_def part_def parted_room_def)
  moreover have rm1: "w_rooms ?w1 r = Some ?rm" by (simp add: parted_room_def)
  moreover note BroadCastPlayerList_eq[OF assms(1) ok1 rm1]
  ultimately show "LeaveRoom E r s w = Some (left_room E r rm s ss w)"
    using assms(3) by (simp add: LeaveRoom_def left_room_def Let_def parted_room_def GetPlayerSize_def)
  have "omap_ok (r_shapes ?rm)"
    using world_ok_room_ok[OF assms(2,3)] by (simp add: parted_room_def room_ok_def)
  then show "world_ok (left_room E r rm s ss w)"
    using ok1 rm1 by (auto simp: left_room_def Let_def intro!: world_ok_put_room[of _ r ?rm])
qed

subsection \<open>Safe operations\<close>

text \<open>What every request keeps: the invariant, the live sessions and connections, whose connection a
  session has, and the clock.\<close>

definition evolves :: "world \<Rightarrow> world \<Rightarrow> bool" where
  "evolves w w' \<longleftrightarrow> world_ok w' \<and> (\<forall>s. w_sessions w' s = None \<longleftrightarrow> w_sessions w s = None)
     \<and> conn_of w' = conn_of w \<and> (\<forall>p. w_conns w' p = None \<longleftrightarrow> w_conns w p = None) \<and> w_now w' = w_now w"

lemma evolves_refl [simp]: "evolves w w \<longleftrightarrow> world_ok w"
  by (simp add: evolves_def)

lemma evolves_trans: "evolves w w' \<Longrightarrow> evolves w' w'' \<Longrightarrow> evolves w w''"
  by (simp add: evolves_def)

lemma evolves_post [simp]: "evolves w (post f p w') = evolves w w'" "evolves w (post_all f ps w') = evolves w w'"
  by (simp_all add: evolves_def)

lemma evolves_put_post [simp]:
  "evolves v (put_room r rm (post f p w)) = evolves v (put_room r rm w)"
  "evolves v (put_room r rm (post_all f ps w)) = evolves v (put_room r rm w)"
  by (simp_all only: post_put_room[symmetric] post_all_put_room[symmetric] evolves_post)

lemma evolves_entered:
  assumes "heap_ok (env_heap E)" "world_ok w" "w_rooms w r = Some rm" "w_sessions w s = Some ss" "s_room ss = None"
  shows "evolves w (entered E r rm s ss w)"
proof -
  have "conn_of (join r rm s ss w) = conn_of w" using assms(4) by (auto simp: conn_of_def fun_eq_iff)
  then show ?thesis using EnterRoom_eq(2)[OF assms] assms(4)
    by (auto simp: evolves_def entered_def Let_def)
qed

lemma evolves_left:
  assumes "heap_ok (env_heap E)" "world_ok w" "w_rooms w r = Some rm" "w_sessions w s = Some ss" "s_room ss = Some r"
  shows "evolves w (left_room E r rm s ss w)"
proof -
  have "conn_of (part r rm s ss w) = conn_of w" using assms(4) by (auto simp: conn_of_def fun_eq_iff)
  then show ?thesis using LeaveRoom_eq(2)[OF assms] assms(4)
    by (auto simp: evolves_def left_room_def Let_def)
qed

end
