(* ===== verification/Manager_Facts.thy ===== *)
theory Manager_Facts
  imports Room_Facts
begin

text \<open>
  The effect of the operations of \<open>RoomManager\<close> and of the request handlers on a well-formed heap.
\<close>

subsection \<open>The room list\<close>

lemma post_all_append: "post_all f (ps @ qs) w = post_all f qs (post_all f ps w)"
  by (simp add: post_all_def)

definition room_conns :: "world \<Rightarrow> ptr \<Rightarrow> ptr option list" where
  "room_conns w r = (case w_rooms w r of None \<Rightarrow> [] | Some rm \<Rightarrow> member_conns w rm)"

lemma room_conns_post [simp]: "room_conns (post_all f ps w) = room_conns w"
  by (simp add: room_conns_def fun_eq_iff split: option.split)

lemma each_BroadCast_eq:
  assumes "heap_ok (env_heap E)" "world_ok w" "\<forall>r\<in>set rs. w_rooms w r \<noteq> None"
  shows "each (\<lambda>r. Room_BroadCast E r op body) rs w =
    Some (post_all (frame_bytes op body) (concat (map (room_conns w) rs)) w)"
  using assms
proof (induction rs arbitrary: w)
  case (Cons r rs)
  then obtain rm where rm: "w_rooms w r = Some rm" by auto
  then have "room_conns w r = member_conns w rm" by (simp add: room_conns_def)
  with Room_BroadCast_eq[OF Cons.prems(1,2) rm, of op body] Cons show ?case
    by (simp add: post_all_append)
qed simp

definition room_list_frame :: "env \<Rightarrow> world \<Rightarrow> byte list" where
  "room_list_frame E w =
     frame_bytes ProtoBuff_Sync_Room_List (cd_ser_rooms (env_codec E) (map fst (w_manager w)))"

definition all_room_conns :: "world \<Rightarrow> ptr option list" where
  "all_room_conns w = concat (map (\<lambda>x. room_conns w (snd x)) (w_manager w))"

lemma managed_live:
  assumes "world_ok w"
  shows "\<forall>r\<in>set (map snd (w_manager w)). w_rooms w r \<noteq> None"
proof
  fix r assume "r \<in> set (map snd (w_manager w))"
  then obtain k where "(k, r) \<in> set (w_manager w)" by auto
  moreover have "omap_ok (w_manager w)" using assms by (simp add: world_ok_def manager_ok_def)
  ultimately have "omap_find (w_manager w) k = Some r" by (simp add: omap_find_iff)
  then show "w_rooms w r \<noteq> None" using managedD[OF assms] by (metis option.distinct(1))
qed

lemma BroadCastRoomList_eq:
  assumes "heap_ok (env_heap E)" "world_ok w"
  shows "BroadCastRoomList E w = Some (post_all (room_list_frame E w) (all_room_conns w) w)"
  using each_BroadCast_eq[OF assms managed_live[OF assms(2)]]
  by (simp add: BroadCastRoomList_def room_list_frame_def all_room_conns_def o_def)

subsection \<open>New rooms and deleted rooms\<close>

definition add_room :: "pbstring \<Rightarrow> room \<Rightarrow> world \<Rightarrow> world" where
  "add_room key rm w = (put_room (w_next w) rm w)
     \<lparr> w_manager := omap_insert key (w_next w) (w_manager w), w_next := w_next w + 1 \<rparr>"

definition drop_room :: "pbstring \<Rightarrow> ptr \<Rightarrow> world \<Rightarrow> world" where
  "drop_room key r w = w\<lparr> w_rooms := (w_rooms w)(r := None), w_manager := omap_erase key (w_manager w) \<rparr>"

lemma add_room_fields [simp]:
  "w_sessions (add_room key rm w) = w_sessions w" "w_conns (add_room key rm w) = w_conns w"
  "w_now (add_room key rm w) = w_now w" "w_next (add_room key rm w) = Suc (w_next w)"
  "w_rooms (add_room key rm w) = (w_rooms w)(w_next w \<mapsto> rm)"
  "w_manager (add_room key rm w) = omap_insert key (w_next w) (w_manager w)"
  "room_of (add_room key rm w) = room_of w" "conn_of (add_room key rm w) = conn_of w"
  "w_sessions (drop_room key r w) = w_sessions w" "w_conns (drop_room key r w) = w_conns w"
  "w_now (drop_room key r w) = w_now w" "w_next (drop_room key r w) = w_next w"
  "w_rooms (drop_room key r w) = (w_rooms w)(r := None)"
  "w_manager (drop_room key r w) = omap_erase key (w_manager w)"
  "room_of (drop_room key r w) = room_of w" "conn_of (drop_room key r w) = conn_of w"
  by (simp_all add: add_room_def drop_room_def room_of_def conn_of_def fun_eq_iff)

lemma world_ok_add_room:
  assumes "world_ok w" "omap_find (w_manager w) key = None" "r_key rm = key" "r_sessions rm = []"
    "omap_ok (r_shapes rm)"
  shows "world_ok (add_room key rm w)"
proof -
  have m: "manager_ok w" and fresh: "fresh_ok w" using assms(1) by (simp_all add: world_ok_def)
  have new: "w_rooms w (w_next w) = None" using fresh by (simp add: fresh_ok_def)
  have ins: "omap_find (omap_insert key (w_next w) (w_manager w)) = (omap_find (w_manager w))(key \<mapsto> w_next w)"
    using assms(2) by (simp add: omap_find_insert fun_eq_iff)
  have "conns_live (add_room key rm w)" using assms(1) by (simp add: world_ok_def conns_live_def)
  moreover have "members (add_room key rm w) = members w"
    using assms(4) new by (simp add: members_def fun_eq_iff)
  then have "members_ok (add_room key rm w)" using assms(1) by (simp add: world_ok_def members_ok_def)
  moreover have "fresh_ok (add_room key rm w)" using fresh by (simp add: fresh_ok_def)
  moreover have "manager_ok (add_room key rm w)"
    unfolding manager_ok_def add_room_fields ins
  proof (intro conjI allI impI)
    show "omap_ok (omap_insert key (w_next w) (w_manager w))" using m by (simp add: manager_ok_def)
  next
    fix r rm' assume a: "((w_rooms w)(w_next w \<mapsto> rm)) r = Some rm'"
    show "room_ok rm'" using a m assms(4,5) by (auto simp: manager_ok_def room_ok_def split: if_splits)
    show "((omap_find (w_manager w))(key \<mapsto> w_next w)) (r_key rm') = Some r"
      using a assms(2,3) room_managed[OF m, of r rm'] by (cases "r = w_next w") auto
  next
    fix k r assume "((omap_find (w_manager w))(key \<mapsto> w_next w)) k = Some r"
    then show "\<exists>rm'. ((w_rooms w)(w_next w \<mapsto> rm)) r = Some rm' \<and> r_key rm' = k"
      using managed_room[OF m, of k r] new assms(3) by (cases "k = key") auto
  qed
  ultimately show ?thesis by (simp add: world_ok_def)
qed

lemma world_ok_drop_room:
  assumes "world_ok w" "w_rooms w r = Some rm" "r_key rm = key" "r_sessions rm = []"
  shows "world_ok (drop_room key r w)"
proof -
  have m: "manager_ok w" using assms(1) by (simp add: world_ok_def)
  have "conns_live (drop_room key r w)" using assms(1) by (simp add: world_ok_def conns_live_def)
  moreover have "members (drop_room key r w) = members w"
    using assms(2,4) by (simp add: members_def fun_eq_iff)
  then have "members_ok (drop_room key r w)" using assms(1) by (simp add: world_ok_def members_ok_def)
  moreover have "fresh_ok (drop_room key r w)" using assms(1) by (simp add: world_ok_def fresh_ok_def)
  moreover have "manager_ok (drop_room key r w)"
    unfolding manager_ok_def add_room_fields
  proof (intro conjI allI impI)
    show "omap_ok (omap_erase key (w_manager w))" using m by (simp add: manager_ok_def)
  next
    fix q rm' assume a: "((w_rooms w)(r := None)) q = Some rm'"
    then have q: "q \<noteq> r" "w_rooms w q = Some rm'" by (auto split: if_splits)
    then show "room_ok rm'" using m by (simp add: manager_ok_def)
    have "omap_find (w_manager w) (r_key rm') = Some q" "omap_find (w_manager w) key = Some r"
      using room_managed[OF m q(2)] room_managed[OF m assms(2)] assms(3) by simp_all
    then have "r_key rm' \<noteq> key" using q(1) by auto
    then show "omap_find (omap_erase key (w_manager w)) (r_key rm') = Some q"
      using q m by (simp add: manager_ok_def)
  next
    fix k q assume "omap_find (omap_erase key (w_manager w)) k = Some q"
    then have k: "k \<noteq> key" "omap_find (w_manager w) k = Some q" by (auto split: if_splits)
    then obtain rm' where "w_rooms w q = Some rm'" "r_key rm' = k" using managed_room[OF m] by blast
    then show "\<exists>rm'. ((w_rooms w)(r := None)) q = Some rm' \<and> r_key rm' = k"
      using k assms(2,3) by auto
  qed
  ultimately show ?thesis by (simp add: world_ok_def)
qed

lemma CreateRoom_eq: "CreateRoom key w = (w_next w, add_room key (Room_new key) w)"
  by (simp add: CreateRoom_def add_room_def)

text \<open>A room's copy has the shapes and the next id of the original, and no members.\<close>

definition copied_room :: "pbstring \<Rightarrow> room \<Rightarrow> room" where
  "copied_room des rm = (Room_new des)\<lparr> r_shapes := r_shapes rm, r_max_id := r_max_id rm \<rparr>"

lemma CopyRoom_eq:
  assumes "omap_find (w_manager w) src = Some r" "w_rooms w r = Some rm"
  shows "\<exists>w1. CopyRoom src des w = Some (w_next w, w1) \<and>
    w1\<lparr> w_manager := omap_insert des (w_next w) (w_manager w1) \<rparr> = add_room des (copied_room des rm) w"
  using assms by (cases w) (simp add: CopyRoom_def add_room_def copied_room_def put_room_def)

subsection \<open>Requests that cannot go wrong\<close>

definition safe_for :: "ptr \<Rightarrow> (world \<Rightarrow> world option) \<Rightarrow> bool" where
  "safe_for s f \<longleftrightarrow> (\<forall>w. world_ok w \<longrightarrow> w_sessions w s \<noteq> None \<longrightarrow> (\<exists>w'. f w = Some w' \<and> evolves w w'))"

lemma safe_forI:
  "(\<And>w ss. world_ok w \<Longrightarrow> w_sessions w s = Some ss \<Longrightarrow> \<exists>w'. f w = Some w' \<and> evolves w w') \<Longrightarrow> safe_for s f"
  by (auto simp: safe_for_def)

lemma safe_forE:
  assumes "safe_for s f" "world_ok w" "w_sessions w s \<noteq> None"
  obtains w' where "f w = Some w'" "evolves w w'" "world_ok w'" "w_sessions w' s \<noteq> None"
  using assms by (auto simp: safe_for_def evolves_def)

lemma safe_for_bind:
  assumes "safe_for s f" "safe_for s g"
  shows "safe_for s (\<lambda>w. do { w' \<leftarrow> f w; g w' })"
proof (rule safe_forI)
  fix w ss assume w: "world_ok w" "w_sessions w s = Some ss"
  obtain w1 where w1: "f w = Some w1" "evolves w w1" "world_ok w1" "w_sessions w1 s \<noteq> None"
    by (rule safe_forE[OF assms(1) w(1)]) (use w in auto)
  obtain w2 where "g w1 = Some w2" "evolves w1 w2"
    by (rule safe_forE[OF assms(2) w1(3,4)])
  with w1 show "\<exists>w'. do { w' \<leftarrow> f w; g w' } = Some w' \<and> evolves w w'"
    by (auto intro: evolves_trans)
qed

lemma safe_send:
  assumes "heap_ok (env_heap E)"
  shows "safe_for s (send E op body s)" "safe_for s (SendErrorToClient E s code extra descr)"
  using send_post[OF assms] SendError_post[OF assms] by (auto simp: safe_for_def)

lemma safe_send_log:
  assumes "heap_ok (env_heap E)"
  shows "safe_for s (\<lambda>w. do { w1 \<leftarrow> SendErrorToClient E s code extra descr w; _ \<leftarrow> GetRemoteAddress w1 s; Some w1 })"
proof (rule safe_for_bind[OF safe_send(2)[OF assms]], rule safe_forI)
  fix w ss assume "world_ok w" "w_sessions w s = Some ss"
  then show "\<exists>w'. do { _ \<leftarrow> GetRemoteAddress w s; Some w } = Some w' \<and> evolves w w'"
    using GetRemoteAddress_defined[of w s] by auto
qed

lemma safe_AskRoomList: "heap_ok (env_heap E) \<Longrightarrow> safe_for s (Manager_AskRoomList E s)"
  by (rule safe_forI) (auto simp: Manager_AskRoomList_def send_post)

lemma safe_SyncPlayerList:
  assumes "heap_ok (env_heap E)"
  shows "safe_for s (Manager_SyncPlayerList E key s)"
proof (rule safe_forI)
  fix w ss assume w: "world_ok w" "w_sessions w s = Some ss"
  show "\<exists>w'. Manager_SyncPlayerList E key s w = Some w' \<and> evolves w w'"
  proof (cases "omap_find (w_manager w) key")
    case None
    then show ?thesis using SendError_post[OF assms w(1), of s] w by (simp add: Manager_SyncPlayerList_def)
  next
    case (Some r)
    then obtain rm where "w_rooms w r = Some rm" using managedD[OF w(1)] by blast
    then show ?thesis using SyncPlayerList_eq[OF assms w(1), of r rm s] Some w
      by (simp add: Manager_SyncPlayerList_def)
  qed
qed

lemma safe_BroadCastRoomList:
  "heap_ok (env_heap E) \<Longrightarrow> safe_for s (BroadCastRoomList E)"
  by (rule safe_forI) (simp add: BroadCastRoomList_eq)

lemma evolves_add_room:
  assumes "world_ok w" "omap_find (w_manager w) key = None" "r_key rm = key" "r_sessions rm = []"
    "omap_ok (r_shapes rm)"
  shows "evolves w (add_room key rm w)"
  using world_ok_add_room[OF assms] by (simp add: evolves_def)

text \<open>A new room, the room list to everybody, success to the caller.\<close>

lemma safe_announce:
  "heap_ok (env_heap E) \<Longrightarrow> safe_for s (\<lambda>w. do { w1 \<leftarrow> BroadCastRoomList E w;
     SendErrorToClient E s code extra descr w1 })"
  by (rule safe_for_bind[OF safe_BroadCastRoomList safe_send(2)])

lemma safe_announced:
  assumes "heap_ok (env_heap E)" "evolves w w1" "w_sessions w s = Some ss"
  shows "\<exists>w2. do { w2 \<leftarrow> BroadCastRoomList E w1; SendErrorToClient E s code extra descr w2 } = Some w2 \<and> evolves w1 w2"
proof -
  have "world_ok w1" "w_sessions w1 s \<noteq> None" using assms(2,3) by (simp_all add: evolves_def)
  with safe_announce[OF assms(1), of s code extra descr] show ?thesis unfolding safe_for_def by blast
qed

lemma safe_CreateRoom:
  assumes "heap_ok (env_heap E)"
  shows "safe_for s (Manager_CreateRoom E key s)"
proof (rule safe_forI)
  fix w ss assume w: "world_ok w" "w_sessions w s = Some ss"
  show "\<exists>w'. Manager_CreateRoom E key s w = Some w' \<and> evolves w w'"
  proof (cases "omap_find (w_manager w) key")
    case None
    have e: "evolves w (add_room key (Room_new key) w)"
      by (rule evolves_add_room[OF w(1) None]) (simp_all add: Room_new_def)
    obtain w2 where "do { w1 \<leftarrow> BroadCastRoomList E (add_room key (Room_new key) w);
        room_operate_error E s shape_Room_Operation_Success SUCCESS_ROOM_OPERATION w1 } = Some w2"
      "evolves (add_room key (Room_new key) w) w2"
      using safe_announced[OF assms e] w by blast
    with e None show ?thesis by (auto simp: Manager_CreateRoom_def CreateRoom_eq intro: evolves_trans)
  next
    case Some
    then show ?thesis using SendError_post[OF assms w(1), of s] w by (simp add: Manager_CreateRoom_def)
  qed
qed

lemma safe_CopyRoom:
  assumes "heap_ok (env_heap E)"
  shows "safe_for s (Manager_CopyRoom E src des s)"
proof (rule safe_forI)
  fix w ss assume w: "world_ok w" "w_sessions w s = Some ss"
  note err = SendError_post[OF assms w(1), of s]
  show "\<exists>w'. Manager_CopyRoom E src des s w = Some w' \<and> evolves w w'"
  proof (cases "omap_find (w_manager w) src")
    case None
    then show ?thesis using err w by (simp add: Manager_CopyRoom_def)
  next
    case src: (Some r)
    show ?thesis
    proof (cases "omap_find (w_manager w) des")
      case (Some x)
      then show ?thesis using err w src by (simp add: Manager_CopyRoom_def del: map_of_eq_None_iff)
    next
      case None
      obtain rm where rm: "w_rooms w r = Some rm" using managedD[OF w(1) src] by blast
      let ?w1 = "add_room des (copied_room des rm) w"
      obtain w0 where w0: "CopyRoom src des w = Some (w_next w, w0)"
        "w0\<lparr> w_manager := omap_insert des (w_next w) (w_manager w0) \<rparr> = ?w1"
        using CopyRoom_eq[OF src rm] by blast
      have e: "evolves w ?w1"
        by (rule evolves_add_room[OF w(1) None])
          (use world_ok_room_ok[OF w(1) rm] in \<open>simp_all add: copied_room_def Room_new_def room_ok_def\<close>)
      obtain w2 where "do { w1 \<leftarrow> BroadCastRoomList E ?w1;
          room_operate_error E s shape_Room_Operation_Success SUCCESS_ROOM_OPERATION w1 } = Some w2"
        "evolves ?w1 w2"
        using safe_announced[OF assms e] w by blast
      with e None src w0 show ?thesis
        by (auto simp: Manager_CopyRoom_def simp del: map_of_eq_None_iff intro: evolves_trans)
    qed
  qed
qed

end
