(* ===== verification/Demo.thy ===== *)
theory Demo
  imports World_Inv
begin

text \<open>
  A small concrete instance: a toy encoding of the protobuf messages, two connections, two sessions of
  which one is in a room with one shape.  The witnesses of the room layer's theorems are evaluated on it.
\<close>

text \<open>Strings are escaped, options and lists are prefixed, so that every message has an encoding.\<close>

definition demo_enc_str :: "pbstring \<Rightarrow> byte list" where
  "demo_enc_str b = concat (map (\<lambda>x. [1, x]) b) @ [0, 0]"

fun demo_dec_str :: "byte list \<Rightarrow> pbstring \<times> byte list" where
  "demo_dec_str (c # x # r) = (if c = 0 then ([], r) else let (b, r') = demo_dec_str r in (x # b, r'))"
| "demo_dec_str r = ([], [])"

definition demo_enc_u32 :: "u32 \<Rightarrow> byte list" where
  "demo_enc_u32 v = le_encode 4 (unat v)"

definition demo_dec_u32 :: "byte list \<Rightarrow> u32 \<times> byte list" where
  "demo_dec_u32 r = (word_of_nat (le_decode (take 4 r)), drop 4 r)"

definition demo_enc_opt :: "('a \<Rightarrow> byte list) \<Rightarrow> 'a option \<Rightarrow> byte list" where
  "demo_enc_opt e v = (case v of None \<Rightarrow> [0] | Some x \<Rightarrow> 1 # e x)"

definition demo_dec_opt :: "(byte list \<Rightarrow> 'a \<times> byte list) \<Rightarrow> byte list \<Rightarrow> 'a option \<times> byte list" where
  "demo_dec_opt d r = (if r = [] \<or> hd r = 0 then (None, tl r) else let (x, r') = d (tl r) in (Some x, r'))"

definition demo_ser_msg :: "wb_msg \<Rightarrow> byte list" where
  "demo_ser_msg m = demo_enc_opt demo_enc_u32 (wm_id m) @ demo_enc_opt demo_enc_str (wm_type m)
     @ demo_enc_opt demo_enc_str (wm_data m) @ demo_enc_opt demo_enc_str (wm_prop m)"

definition demo_dec_msg :: "byte list \<Rightarrow> wb_msg \<times> byte list" where
  "demo_dec_msg r = (let (i, r1) = demo_dec_opt demo_dec_u32 r; (t, r2) = demo_dec_opt demo_dec_str r1;
      (d, r3) = demo_dec_opt demo_dec_str r2; (p, r4) = demo_dec_opt demo_dec_str r3
    in (\<lparr> wm_id = i, wm_type = t, wm_data = d, wm_prop = p \<rparr>, r4))"

primrec demo_dec_msgs :: "nat \<Rightarrow> byte list \<Rightarrow> wb_msg list \<times> byte list" where
  "demo_dec_msgs 0 r = ([], r)"
| "demo_dec_msgs (Suc n) r = (let (m, r1) = demo_dec_msg r; (ms, r2) = demo_dec_msgs n r1 in (m # ms, r2))"

definition demo_ser_list :: "wb_list \<Rightarrow> byte list" where
  "demo_ser_list l = demo_enc_opt demo_enc_str (wl_msgid l)
     @ replicate (length (wl_shapes l)) 1 @ 0 # concat (map demo_ser_msg (wl_shapes l))"

definition demo_parse_list :: "byte list \<Rightarrow> wb_list" where
  "demo_parse_list r = (let (i, r1) = demo_dec_opt demo_dec_str r in
     \<lparr> wl_msgid = i, wl_shapes = fst (demo_dec_msgs (length (takeWhile (\<lambda>b. b = 1) r1)) (tl (dropWhile (\<lambda>b. b = 1) r1))) \<rparr>)"

lemma demo_dec_enc:
  "demo_dec_str (demo_enc_str b @ r) = (b, r)" "demo_dec_u32 (demo_enc_u32 v @ r) = (v, r)"
proof -
  show "demo_dec_str (demo_enc_str b @ r) = (b, r)"
    by (induction b) (simp_all add: demo_enc_str_def)
  have "unat v < 256 ^ 4" using unsigned_less[of v, where ?'a = nat] by simp
  then show "demo_dec_u32 (demo_enc_u32 v @ r) = (v, r)"
    by (simp add: demo_dec_u32_def demo_enc_u32_def le_decode_encode)
qed

lemma demo_dec_enc_opt:
  "(\<And>x r. d (e x @ r) = (x, r)) \<Longrightarrow> demo_dec_opt d (demo_enc_opt e v @ r) = (v, r)"
  by (simp add: demo_dec_opt_def demo_enc_opt_def split: option.split)

lemma demo_dec_ser_msg: "demo_dec_msg (demo_ser_msg m @ r) = (m, r)"
  by (simp add: demo_dec_msg_def demo_ser_msg_def demo_dec_enc_opt demo_dec_enc)

lemma demo_dec_ser_msgs: "demo_dec_msgs (length ms) (concat (map demo_ser_msg ms) @ r) = (ms, r)"
  by (induction ms) (simp_all add: demo_dec_ser_msg)

lemma demo_parse_ser_list: "demo_parse_list (demo_ser_list l) = l"
proof -
  have "takeWhile (\<lambda>b. b = 1) (replicate n (1::byte) @ 0 # r) = replicate n 1"
    "dropWhile (\<lambda>b. b = 1) (replicate n (1::byte) @ 0 # r) = 0 # r" for n r
    by (induction n) simp_all
  then show ?thesis using demo_dec_ser_msgs[of "wl_shapes l" "[]"]
    by (simp add: demo_parse_list_def demo_ser_list_def demo_dec_enc_opt demo_dec_enc)
qed

text \<open>A shape without data.\<close>

definition demo_shape :: "u32 \<Rightarrow> wb_msg" where
  "demo_shape i = \<lparr> wm_id = Some i, wm_type = None, wm_data = None, wm_prop = None \<rparr>"

definition demo_shapes :: "u32 list \<Rightarrow> wb_list" where
  "demo_shapes is = \<lparr> wl_msgid = None, wl_shapes = map demo_shape is \<rparr>"

definition demo_codec :: codec where
  "demo_codec = \<lparr>
     cd_parse_list = (\<lambda>b. (True, demo_parse_list b)), cd_ser_list = demo_ser_list,
     cd_parse_msg = (\<lambda>b. (True, fst (demo_dec_msg b))), cd_ser_msg = demo_ser_msg,
     cd_parse_remove = (\<lambda>b. (b \<noteq> [], \<lparr> rs_msgid = None, rs_id = (if b = [] then None else Some (ucast (hd b))) \<rparr>)),
     cd_ser_remove = (\<lambda>m. [ucast (field_or 0 (rs_id m))]),
     cd_parse_operate = (\<lambda>b. (b \<noteq> [], \<lparr> ro_type = (if b = [] then None else Some (uint (hd b))), ro_name = Some [65],
        ro_src = Some (tl b), ro_des = Some (tl (tl b)) \<rparr>)),
     cd_ser_players = concat, cd_ser_rooms = concat,
     cd_ser_error = (\<lambda>c x d. d) \<rparr>"

definition demo_env :: env where
  "demo_env = \<lparr> env_heap = plenty, env_codec = demo_codec \<rparr>"

definition demo_room :: room where
  "demo_room = \<lparr> r_key = [1], r_sessions = [11], r_shapes = [(1, demo_ser_msg (demo_shape 1))], r_max_id = 2, r_can_delete = 0 \<rparr>"

definition demo_guest :: session where
  "demo_guest = \<lparr> s_conn = Some 1, s_id = ''a'', s_room = None, s_name = [65] \<rparr>"

definition demo_member :: session where
  "demo_member = \<lparr> s_conn = Some 2, s_id = ''b'', s_room = Some 20, s_name = [66] \<rparr>"

definition demo_world :: world where
  "demo_world = \<lparr> w_conns = (\<lambda>p. if p = 1 \<or> p = 2 then Some (Conn_new 0 []) else None),
     w_sessions = (\<lambda>p. if p = 10 then Some demo_guest else if p = 11 then Some demo_member else None),
     w_rooms = (\<lambda>p. if p = 20 then Some demo_room else None),
     w_manager = [([1], 20)], w_next = 100, w_now = 5000 \<rparr>"

lemma demo_simps [simp]:
  "w_conns demo_world p = (if p = 1 \<or> p = 2 then Some (Conn_new 0 []) else None)"
  "w_sessions demo_world p = (if p = 10 then Some demo_guest else if p = 11 then Some demo_member else None)"
  "w_rooms demo_world p = (if p = 20 then Some demo_room else None)"
  "w_manager demo_world = [([1], 20)]" "w_next demo_world = 100" "w_now demo_world = 5000"
  "s_room demo_guest = None" "s_conn demo_guest = Some 1" "s_room demo_member = Some 20" "s_conn demo_member = Some 2"
  "r_key demo_room = [1]" "r_sessions demo_room = [11]" "r_shapes demo_room = [(1, demo_ser_msg (demo_shape 1))]" "r_max_id demo_room = 2"
  "r_can_delete demo_room = 0" "env_heap demo_env = plenty" "env_codec demo_env = demo_codec"
  by (simp_all add: demo_world_def demo_guest_def demo_member_def demo_room_def demo_env_def)

lemma demo_world_ok [simp]: "world_ok demo_world"
proof -
  have "conns_live demo_world" by (simp add: conns_live_def)
  moreover have "members_ok demo_world" by (auto simp: members_ok_def room_of_def members_def)
  moreover have "manager_ok demo_world"
    by (simp add: manager_ok_def room_ok_def omap_ok_def oset_ok_def)
  moreover have "fresh_ok demo_world" by (simp add: fresh_ok_def)
  ultimately show ?thesis by (simp add: world_ok_def)
qed

lemma demo_codec_simps [simp]:
  "cd_ser_list demo_codec = demo_ser_list" "cd_parse_list demo_codec (demo_ser_list l) = (True, l)"
  "cd_parse_operate demo_codec (x # b) = (True, \<lparr> ro_type = Some (uint x), ro_name = Some [65],
     ro_src = Some b, ro_des = Some (tl b) \<rparr>)"
  "cd_parse_msg demo_codec (demo_ser_msg m) = (True, m)" "cd_ser_msg demo_codec = demo_ser_msg"
  using demo_dec_ser_msg[of m "[]"] by (simp_all add: demo_codec_def demo_parse_ser_list)

end
