(* ===== verification/Requests.thy ===== *)
theory Requests
  imports Manager_Facts Demo
begin

text \<open>
  Memory safety of the request handlers: from a well-formed heap every request of a client is handled
  without undefined behaviour and keeps the heap well-formed, with one exception, which is exact.
\<close>

subsection \<open>Shapes\<close>

lemma add_one_shape_inv:
  assumes "add_one_shape cd req rm = (req', rm', n)"
  shows "r_key rm' = r_key rm" "r_sessions rm' = r_sessions rm" "omap_ok (r_shapes rm) \<Longrightarrow> omap_ok (r_shapes rm')"
    "r_can_delete rm' = r_can_delete rm"
  using assms by (auto simp: add_one_shape_def Let_def split: option.splits)

lemma add_shapes_inv:
  "add_shapes cd reqs n0 rm = (reqs', rm', n) \<Longrightarrow> r_key rm' = r_key rm \<and> r_sessions rm' = r_sessions rm
     \<and> (omap_ok (r_shapes rm) \<longrightarrow> omap_ok (r_shapes rm')) \<and> r_can_delete rm' = r_can_delete rm"
proof (induction reqs arbitrary: n0 rm reqs' rm' n)
  case (Cons req reqs)
  obtain req1 rm1 n1 where one: "add_one_shape cd req rm = (req1, rm1, n1)" by (metis prod_cases3)
  obtain reqs2 rm2 n2 where "add_shapes cd reqs n1 rm1 = (reqs2, rm2, n2)" by (metis prod_cases3)
  with Cons.IH[OF this] add_one_shape_inv[OF one] Cons.prems one show ?case by auto
qed simp

lemma PlayerAddShape_ok:
  assumes "heap_ok (env_heap E)" "world_ok w" "w_rooms w r = Some rm" "w_sessions w s \<noteq> None"
    "cd_parse_list (env_codec E) (pb_body request) = (True, l)"
    "add_shapes (env_codec E) (wl_shapes l) 0 rm = (reqs', rm', n)"
  shows "PlayerAddShape E r s request w = Some (n, post_all
      (frame_bytes ProtoBuff_Add_Sharp (cd_ser_list (env_codec E) (l\<lparr> wl_shapes := reqs' \<rparr>)))
      (member_conns w rm) (put_room r rm' w))"
    "world_ok (put_room r rm' w)"
proof -
  have rm': "r_key rm' = r_key rm" "r_sessions rm' = r_sessions rm" "omap_ok (r_shapes rm')"
    using add_shapes_inv[OF assms(6)] world_ok_room_ok[OF assms(2,3)] by (auto simp: room_ok_def)
  show ok: "world_ok (put_room r rm' w)" by (rule world_ok_put_room[OF assms(2,3) rm'])
  have "member_conns (put_room r rm' w) rm' = member_conns w rm" by (simp add: member_conns_def rm'(2))
  with Room_BroadCast_eq[OF assms(1) ok, of r rm'] assms show
    "PlayerAddShape E r s request w = Some (n, post_all
      (frame_bytes ProtoBuff_Add_Sharp (cd_ser_list (env_codec E) (l\<lparr> wl_shapes := reqs' \<rparr>)))
      (member_conns w rm) (put_room r rm' w))"
    by (simp add: PlayerAddShape_def)
qed

lemma evolves_put_room:
  assumes "evolves w w'" "world_ok (put_room r rm w')"
  shows "evolves w (put_room r rm w')"
  using assms by (simp add: evolves_def)

lemma safe_PlayerAddShape:
  assumes "heap_ok (env_heap E)" "world_ok w" "w_rooms w r = Some rm" "w_sessions w s \<noteq> None"
  shows "\<exists>n w'. PlayerAddShape E r s request w = Some (n, w') \<and> evolves w w'"
proof (cases "cd_parse_list (env_codec E) (pb_body request)")
  case (Pair ok l)
  show ?thesis
  proof (cases ok)
    case True
    obtain reqs' rm' n where sh: "add_shapes (env_codec E) (wl_shapes l) 0 rm = (reqs', rm', n)"
      by (metis prod_cases3)
    have "cd_parse_list (env_codec E) (pb_body request) = (True, l)" using Pair True by simp
    note add = PlayerAddShape_ok[OF assms this sh]
    have "evolves w (put_room r rm' w)" using add(2) assms(2) by (simp add: evolves_put_room)
    with add(1) show ?thesis by simp
  next
    case False
    obtain w' where "do { w1 \<leftarrow> SendErrorToClient E s Shape_Packet_Wrong (opcode_num ProtoBuff_Add_Sharp)
        ERROR_PACKET_WRONG w; _ \<leftarrow> GetRemoteAddress w1 s; Some w1 } = Some w'" "evolves w w'"
      using safe_send_log[OF assms(1), of s] assms(2,4) unfolding safe_for_def by blast
    then show ?thesis using Pair False by (auto simp: PlayerAddShape_def split: Option.bind_splits)
  qed
qed

lemma safe_PlayerRemoveShape:
  assumes "heap_ok (env_heap E)" "world_ok w" "w_rooms w r = Some rm" "w_sessions w s \<noteq> None"
  shows "\<exists>n w'. PlayerRemoveShape E r s request w = Some (n, w') \<and> evolves w w'"
proof (cases "cd_parse_remove (env_codec E) (pb_body request)")
  case (Pair ok req)
  show ?thesis
  proof (cases ok)
    case True
    let ?id = "field_or 0 (rs_id req)"
    show ?thesis
    proof (cases "omap_find (r_shapes rm) ?id")
      case None
      then show ?thesis using Pair True assms SendError_post[OF assms(1,2,4)]
        by (simp add: PlayerRemoveShape_def Let_def)
    next
      case (Some x)
      let ?rm = "rm\<lparr> r_shapes := omap_erase ?id (r_shapes rm) \<rparr>"
      have "world_ok (put_room r ?rm w)"
        by (rule world_ok_put_room[OF assms(2,3)])
          (use world_ok_room_ok[OF assms(2,3)] in \<open>simp_all add: room_ok_def\<close>)
      then show ?thesis using Pair True Some assms Room_BroadCast_eq[OF assms(1), of "put_room r ?rm w" r ?rm]
        by (simp add: PlayerRemoveShape_def evolves_put_room Let_def)
    qed
  next
    case False
    obtain w' where "do { w1 \<leftarrow> SendErrorToClient E s Shape_Packet_Wrong (opcode_num ProtoBuff_Remove_Sharp)
        ERROR_PACKET_WRONG w; _ \<leftarrow> GetRemoteAddress w1 s; Some w1 } = Some w'" "evolves w w'"
      using safe_send_log[OF assms(1), of s] assms(2,4) unfolding safe_for_def by blast
    then show ?thesis using Pair False by (auto simp: PlayerRemoveShape_def split: Option.bind_splits)
  qed
qed

subsection \<open>Entering and leaving\<close>

lemma safe_LeaveRoom:
  assumes "heap_ok (env_heap E)" "world_ok w" "w_sessions w s = Some ss" "s_room ss = Some r"
  shows "\<exists>w'. LeaveRoom E r s w = Some w' \<and> evolves w w' \<and> room_of w' s = None"
proof -
  obtain rm where rm: "w_rooms w r = Some rm" using room_ofD[OF assms(2-4)] by blast
  have "room_of (left_room E r rm s ss w) s = None"
    by (simp add: room_of_def left_room_def Let_def)
  with LeaveRoom_eq[OF assms(1,2) rm assms(3,4)] evolves_left[OF assms(1,2) rm assms(3,4)]
  show ?thesis by blast
qed

lemma safe_PlayerLeaveRoom:
  assumes "heap_ok (env_heap E)"
  shows "safe_for s (PlayerLeaveRoom E s)"
proof (rule safe_forI)
  fix w ss assume w: "world_ok w" "w_sessions w s = Some ss"
  show "\<exists>w'. PlayerLeaveRoom E s w = Some w' \<and> evolves w w'"
  proof (cases "s_room ss")
    case None
    then show ?thesis using safe_send_log[OF assms, of s] w unfolding safe_for_def PlayerLeaveRoom_def by simp
  next
    case (Some r)
    obtain w1 where w1: "LeaveRoom E r s w = Some w1" "evolves w w1"
      using safe_LeaveRoom[OF assms w Some] by blast
    then have "world_ok w1" "w_sessions w1 s \<noteq> None" using w by (auto simp: evolves_def)
    then show ?thesis using SendError_post[OF assms] w1 w Some by (simp add: PlayerLeaveRoom_def)
  qed
qed

lemma safe_Manager_EnterRoom:
  assumes "heap_ok (env_heap E)" "world_ok w" "w_sessions w s = Some ss" "s_room ss = None"
  shows "\<exists>w'. Manager_EnterRoom E key s w = Some w' \<and> evolves w w'"
proof (cases "omap_find (w_manager w) key")
  case None
  then show ?thesis using SendError_post[OF assms(1,2), of s] assms by (simp add: Manager_EnterRoom_def)
next
  case (Some r)
  then obtain rm where rm: "w_rooms w r = Some rm" using managedD[OF assms(2)] by blast
  note en = EnterRoom_eq[OF assms(1,2) rm assms(3,4)] evolves_entered[OF assms(1,2) rm assms(3,4)]
  have "w_sessions (entered E r rm s ss w) s \<noteq> None" using en(3) assms(3) by (auto simp: evolves_def)
  then show ?thesis using SendError_post[OF assms(1) en(2), of s] en Some by (simp add: Manager_EnterRoom_def)
qed

lemma safe_PlayerEnterRoom:
  assumes "heap_ok (env_heap E)"
  shows "safe_for s (PlayerEnterRoom E key s)"
proof (rule safe_forI)
  fix w ss assume w: "world_ok w" "w_sessions w s = Some ss"
  have "\<exists>w1. (case s_room ss of Some r \<Rightarrow> LeaveRoom E r s w | None \<Rightarrow> Some w) = Some w1 \<and> evolves w w1
      \<and> room_of w1 s = None"
    using safe_LeaveRoom[OF assms w] w by (cases "s_room ss") (simp_all add: room_of_def)
  then obtain w1 where w1: "(case s_room ss of Some r \<Rightarrow> LeaveRoom E r s w | None \<Rightarrow> Some w) = Some w1"
    "evolves w w1" "room_of w1 s = None" by blast
  have live: "world_ok w1" "w_sessions w1 s \<noteq> None" using w1(2) w(2) by (auto simp: evolves_def)
  then obtain ss1 where ss1: "w_sessions w1 s = Some ss1" by auto
  with w1(3) have "s_room ss1 = None" by (simp add: room_of_def)
  from safe_Manager_EnterRoom[OF assms live(1) ss1 this] w1 w(2)
  show "\<exists>w'. PlayerEnterRoom E key s w = Some w' \<and> evolves w w'"
    by (auto simp: PlayerEnterRoom_def intro: evolves_trans)
qed

subsection \<open>Deleting a room\<close>

text \<open>The first round of the loop erases the element the iterator points to and then uses it.\<close>

lemma ForceDelete_step_None:
  assumes "heap_ok (env_heap E)" "world_ok w" "w_rooms w r = Some rm" "s \<in> set (r_sessions rm)"
  shows "ForceDelete_step E r s w = None"
proof -
  obtain ss where ss: "w_sessions w s = Some ss" "s_room ss = Some r" using memberD[OF assms(2-4)] by blast
  have "iter_deref (left_room E r rm s ss w) r s = None"
    by (simp add: iter_deref_def left_room_def Let_def parted_room_def)
  moreover have "iter_deref w r s = Some s" using assms(3,4) by (simp add: iter_deref_def)
  ultimately show ?thesis using LeaveRoom_eq(1)[OF assms(1-3) ss] by (simp add: ForceDelete_step_def)
qed

lemma ForceDeleteRoom_eq:
  assumes "heap_ok (env_heap E)" "world_ok w" "w_rooms w r = Some rm"
  shows "ForceDeleteRoom E r w =
    (if r_sessions rm = [] then Some (put_room r (rm\<lparr> r_can_delete := w_now w \<rparr>) w) else None)"
proof (cases "r_sessions rm")
  case (Cons s ss)
  then have "ForceDelete_step E r s w = None" using ForceDelete_step_None[OF assms, of s] by simp
  then show ?thesis using Cons assms(3) by (simp add: ForceDeleteRoom_def)
qed (use assms(3) in \<open>simp add: ForceDeleteRoom_def\<close>)

definition occupied :: "world \<Rightarrow> pbstring \<Rightarrow> bool" where
  "occupied w key = (case omap_find (w_manager w) key of None \<Rightarrow> False
     | Some r \<Rightarrow> (case w_rooms w r of None \<Rightarrow> False | Some rm \<Rightarrow> r_sessions rm \<noteq> []))"

lemma Manager_DeleteRoom_outcome:
  assumes "heap_ok (env_heap E)" "world_ok w" "w_sessions w s \<noteq> None"
  shows "occupied w key \<Longrightarrow> Manager_DeleteRoom E key s w = None"
    "\<not> occupied w key \<Longrightarrow> \<exists>w'. Manager_DeleteRoom E key s w = Some w' \<and> evolves w w'"
proof -
  assume "occupied w key"
  then obtain r rm where "omap_find (w_manager w) key = Some r" "w_rooms w r = Some rm" "r_sessions rm \<noteq> []"
    by (auto simp: occupied_def split: option.splits)
  then show "Manager_DeleteRoom E key s w = None"
    using ForceDeleteRoom_eq[OF assms(1,2), of r rm] by (simp add: Manager_DeleteRoom_def)
next
  assume free: "\<not> occupied w key"
  show "\<exists>w'. Manager_DeleteRoom E key s w = Some w' \<and> evolves w w'"
  proof (cases "omap_find (w_manager w) key")
    case None
    then show ?thesis using SendError_post[OF assms] assms(2) by (simp add: Manager_DeleteRoom_def)
  next
    case (Some r)
    then obtain rm where rm: "w_rooms w r = Some rm" using managedD[OF assms(2)] by blast
    let ?w1 = "put_room r (rm\<lparr> r_can_delete := w_now w \<rparr>) w"
    have "world_ok ?w1"
      by (rule world_ok_put_room[OF assms(2) rm])
        (use world_ok_room_ok[OF assms(2) rm] in \<open>simp_all add: room_ok_def\<close>)
    moreover have "r_sessions rm = []" using free Some rm by (simp add: occupied_def)
    ultimately show ?thesis
      using SendError_post[OF assms(1), of ?w1 s] ForceDeleteRoom_eq[OF assms(1,2) rm] Some assms(2,3)
      by (simp add: Manager_DeleteRoom_def evolves_put_room)
  qed
qed

subsection \<open>HandleRequest\<close>

definition deletes_occupied :: "env \<Rightarrow> world \<Rightarrow> nat \<Rightarrow> protobuf \<Rightarrow> bool" where
  "deletes_occupied E w opcode request =
     (let ro = snd (cd_parse_operate (env_codec E) (pb_body request))
      in opcode = 101 \<and> field_or 0 (ro_type ro) = 5 \<and> occupied w (field_or [] (ro_src ro)))"

lemma RoomOperate_switch_outcome:
  assumes "heap_ok (env_heap E)" "world_ok w" "w_sessions w s \<noteq> None"
  shows "ty = 5 \<and> occupied w src \<Longrightarrow> RoomOperate_switch E ty src des s w = None"
    "\<not> (ty = 5 \<and> occupied w src) \<Longrightarrow> \<exists>w'. RoomOperate_switch E ty src des s w = Some w' \<and> evolves w w'"
proof -
  show "ty = 5 \<and> occupied w src \<Longrightarrow> RoomOperate_switch E ty src des s w = None"
    using Manager_DeleteRoom_outcome(1)[OF assms] by (simp add: RoomOperate_switch_def)
  assume "\<not> (ty = 5 \<and> occupied w src)"
  then show "\<exists>w'. RoomOperate_switch E ty src des s w = Some w' \<and> evolves w w'"
    using safe_AskRoomList[OF assms(1), of s] safe_CreateRoom[OF assms(1), of s src]
      safe_PlayerEnterRoom[OF assms(1), of s src] safe_PlayerLeaveRoom[OF assms(1), of s]
      Manager_DeleteRoom_outcome(2)[OF assms, of src] safe_CopyRoom[OF assms(1), of s src des]
      safe_SyncPlayerList[OF assms(1), of s src] assms(2,3)
    unfolding safe_for_def RoomOperate_switch_def by auto
qed

lemma occupied_cong: "w_manager w' = w_manager w \<Longrightarrow> w_rooms w' = w_rooms w \<Longrightarrow> occupied w' = occupied w"
  by (rule ext) (simp add: occupied_def split: option.split)

text \<open>The state in which the \<open>switch\<close> of \<open>HandleRoomOperate\<close> runs.\<close>

lemma HandleRoomOperate_before_switch:
  assumes "heap_ok (env_heap E)" "world_ok w" "w_sessions w s \<noteq> None"
  obtains w2 where "evolves w w2" "w_manager w2 = w_manager w" "w_rooms w2 = w_rooms w"
    "\<And>n w3. HandleRoomOperate E s request w = Some (n, w3) \<longleftrightarrow> n = 1 \<and>
       (let ro = snd (cd_parse_operate (env_codec E) (pb_body request)) in
        RoomOperate_switch E (field_or 0 (ro_type ro)) (field_or [] (ro_src ro)) (field_or [] (ro_des ro)) s w2 = Some w3)"
proof -
  obtain ok ro where parse: "cd_parse_operate (env_codec E) (pb_body request) = (ok, ro)" by (metis surj_pair)
  obtain w1 where w1: "(if ok then Some w
        else do { w1 \<leftarrow> room_operate_error E s Shape_Packet_Wrong ERROR_PACKET_WRONG w;
                  _ \<leftarrow> GetRemoteAddress w1 s; Some w1 }) = Some w1"
    "evolves w w1" "w_manager w1 = w_manager w" "w_rooms w1 = w_rooms w"
  proof (cases ok)
    case True
    then show ?thesis using that[of w] assms(2) by simp
  next
    case False
    let ?w1 = "post (frame_bytes ProtoBuff_Error_Info (cd_ser_error (env_codec E) (error_num Shape_Packet_Wrong)
      (opcode_num ProtoBuff_Room_Operate) ERROR_PACKET_WRONG)) (conn_of w s) w"
    have "GetRemoteAddress ?w1 s \<noteq> None" using assms(2,3) by (intro GetRemoteAddress_defined) simp_all
    then show ?thesis using that[of ?w1] False SendError_post[OF assms] assms(2) by auto
  qed
  then obtain ss where ss: "w_sessions w1 s = Some ss" using assms(3) by (fastforce simp: evolves_def)
  let ?w2 = "put_session s (ss\<lparr> s_name := field_or [] (ro_name ro) \<rparr>) w1"
  have "world_ok ?w2" using world_ok_put_name[of w1 s ss] w1(2) ss by (simp add: evolves_def)
  moreover have "conn_of ?w2 = conn_of w1" using ss by (auto simp: conn_of_def fun_eq_iff)
  ultimately have "evolves w ?w2" using w1(2) ss assms(3) by (auto simp: evolves_def)
  then show thesis
    by (rule that) (use w1 ss parse in \<open>auto simp: HandleRoomOperate_def split: Option.bind_splits\<close>)
qed

lemma HandleRoomOperate_outcome:
  assumes "heap_ok (env_heap E)" "world_ok w" "w_sessions w s \<noteq> None"
  shows "deletes_occupied E w 101 request \<Longrightarrow> HandleRoomOperate E s request w = None"
    "\<not> deletes_occupied E w 101 request \<Longrightarrow> \<exists>n w'. HandleRoomOperate E s request w = Some (n, w') \<and> evolves w w'"
proof -
  obtain w2 where w2: "evolves w w2" "w_manager w2 = w_manager w" "w_rooms w2 = w_rooms w"
    "\<And>n w3. HandleRoomOperate E s request w = Some (n, w3) \<longleftrightarrow> n = 1 \<and>
       (let ro = snd (cd_parse_operate (env_codec E) (pb_body request)) in
        RoomOperate_switch E (field_or 0 (ro_type ro)) (field_or [] (ro_src ro)) (field_or [] (ro_des ro)) s w2 = Some w3)"
    using HandleRoomOperate_before_switch[OF assms, of request] by blast
  have live: "world_ok w2" "w_sessions w2 s \<noteq> None" using w2(1) assms(3) by (auto simp: evolves_def)
  note sw = RoomOperate_switch_outcome[OF assms(1) live, unfolded occupied_cong[OF w2(2,3)]]
  show "deletes_occupied E w 101 request \<Longrightarrow> HandleRoomOperate E s request w = None"
    using w2(4) sw(1) by (cases "HandleRoomOperate E s request w") (auto simp: deletes_occupied_def Let_def)
  let ?ro = "snd (cd_parse_operate (env_codec E) (pb_body request))"
  assume "\<not> deletes_occupied E w 101 request"
  then have "\<not> (field_or 0 (ro_type ?ro) = 5 \<and> occupied w (field_or [] (ro_src ?ro)))"
    by (simp add: deletes_occupied_def Let_def)
  from sw(2)[OF this, of "field_or [] (ro_des ?ro)"] obtain w3 where
    "RoomOperate_switch E (field_or 0 (ro_type ?ro)) (field_or [] (ro_src ?ro)) (field_or [] (ro_des ?ro)) s w2 = Some w3"
    "evolves w2 w3" by blast
  then show "\<exists>n w'. HandleRoomOperate E s request w = Some (n, w') \<and> evolves w w'"
    using w2(4)[of 1 w3] evolves_trans[OF w2(1)] by auto
qed

lemma HandleRequest_outcome:
  assumes "heap_ok (env_heap E)" "world_ok w" "w_sessions w s \<noteq> None"
  shows "(HandleRequest E s opcode request w = None \<longleftrightarrow> deletes_occupied E w opcode request)
    \<and> (\<forall>n w'. HandleRequest E s opcode request w = Some (n, w') \<longrightarrow> evolves w w')"
proof -
  obtain ss where ss: "w_sessions w s = Some ss" using assms(3) by auto
  have safe: "\<exists>n w'. HandleRequest E s opcode request w = Some (n, w') \<and> evolves w w'"
    if no: "\<not> deletes_occupied E w opcode request"
  proof -
    consider (op) "opcode = 101" | (add) "opcode = 104" | (rem) "opcode = 105" | (other) "opcode \<notin> {101, 104, 105}"
      by blast
    then show ?thesis
    proof cases
      case op
      then show ?thesis using HandleRoomOperate_outcome(2)[OF assms, of request] no by (simp add: HandleRequest_def)
    next
      case add
      show ?thesis
      proof (cases "s_room ss")
        case None
        obtain w' where "do { w1 \<leftarrow> SendErrorToClient E s Shape_No_In_Room (opcode_num ProtoBuff_Add_Sharp)
            ERROR_NOT_IN_ROOM w; _ \<leftarrow> GetRemoteAddress w1 s; Some w1 } = Some w'" "evolves w w'"
          using safe_send_log[OF assms(1), of s] assms(2,3) unfolding safe_for_def by blast
        then show ?thesis using add ss None
          by (auto simp: HandleRequest_def HandleAddShape_def split: Option.bind_splits)
      next
        case (Some r)
        obtain rm where rm: "w_rooms w r = Some rm" using room_ofD[OF assms(2) ss Some] by blast
        from safe_PlayerAddShape[OF assms(1,2) rm assms(3), of request] add ss Some show ?thesis
          by (auto simp: HandleRequest_def HandleAddShape_def)
      qed
    next
      case rem
      show ?thesis
      proof (cases "s_room ss")
        case None
        obtain w' where "do { w1 \<leftarrow> SendErrorToClient E s Shape_No_In_Room (opcode_num ProtoBuff_Remove_Sharp)
            ERROR_NOT_IN_ROOM w; _ \<leftarrow> GetRemoteAddress w1 s; Some w1 } = Some w'" "evolves w w'"
          using safe_send_log[OF assms(1), of s] assms(2,3) unfolding safe_for_def by blast
        then show ?thesis using rem ss None
          by (auto simp: HandleRequest_def HandleRemoveShape_def split: Option.bind_splits)
      next
        case (Some r)
        obtain rm where rm: "w_rooms w r = Some rm" using room_ofD[OF assms(2) ss Some] by blast
        from safe_PlayerRemoveShape[OF assms(1,2) rm assms(3), of request] rem ss Some show ?thesis
          by (auto simp: HandleRequest_def HandleRemoveShape_def)
      qed
    next
      case other
      then show ?thesis using assms(2) by (simp add: HandleRequest_def)
    qed
  qed
  have "HandleRequest E s opcode request w = None" if "deletes_occupied E w opcode request"
  proof -
    have "opcode = 101" using that by (simp add: deletes_occupied_def Let_def)
    then show ?thesis using HandleRoomOperate_outcome(1)[OF assms, of request] that by (simp add: HandleRequest_def)
  qed
  with safe show ?thesis by (metis option.distinct(1) option.inject prod.inject)
qed

text \<open>C4: from a well-formed heap a client's request is undefined behaviour exactly when it asks to delete
  a room that has members; every other request, well-formed or not, is handled, and leaves the heap
  well-formed with the same live sessions and connections.\<close>

theorem HandleRequest_undefined_iff:
  assumes "heap_ok (env_heap E)" "world_ok w" "w_sessions w s \<noteq> None"
  shows "(HandleRequest E s opcode request w = None \<longleftrightarrow> deletes_occupied E w opcode request)
    \<and> (\<forall>n w'. HandleRequest E s opcode request w = Some (n, w') \<longrightarrow> evolves w w')"
  by (rule HandleRequest_outcome[OF assms])

text \<open>The guest of the demo asks to delete the member's room; then to create one.\<close>

lemma HandleRequest_undefined_iff_witness:
  "HandleRequest demo_env 10 101 (Protobuf_new 101 [5, 1]) demo_world = None
   \<and> HandleRequest demo_env 10 101 (Protobuf_new 101 [2, 9]) demo_world \<noteq> None"
  using HandleRequest_undefined_iff[of demo_env demo_world 10 101 "Protobuf_new 101 [5, 1]"]
    HandleRequest_undefined_iff[of demo_env demo_world 10 101 "Protobuf_new 101 [2, 9]"]
  by (simp add: deletes_occupied_def occupied_def Protobuf_new_def field_or_def)

end
