(* ===== verification/Boards.thy ===== *)
theory Boards
  imports Requests
begin

text \<open>
  What the members of a room see: the shapes on the board, as the room stores them and as a client gets
  them by applying the frames it receives.
\<close>

subsection \<open>Replicas\<close>

text \<open>A client's copy of the board, and what an \<open>Add\<close> list and a \<open>Remove\<close> message do to it.\<close>

type_synonym board = "u32 \<Rightarrow> pbstring option"

definition apply_shape :: "codec \<Rightarrow> wb_msg \<Rightarrow> board \<Rightarrow> board" where
  "apply_shape cd m b = b(field_or 0 (wm_id m) \<mapsto> cd_ser_msg cd m)"

definition apply_shapes :: "codec \<Rightarrow> wb_msg list \<Rightarrow> board \<Rightarrow> board" where
  "apply_shapes cd ms b = fold (apply_shape cd) ms b"

definition room_board :: "room \<Rightarrow> board" where
  "room_board rm = omap_find (r_shapes rm)"

text \<open>The ids in use are below the next one.\<close>

definition ids_ok :: "room \<Rightarrow> bool" where
  "ids_ok rm \<longleftrightarrow> (\<forall>i x. room_board rm i = Some x \<longrightarrow> unat i < unat (r_max_id rm))"

lemma next_id:
  "unat (r_max_id rm) + 1 < 2 ^ 32 \<Longrightarrow> unat (r_max_id rm + 1) = unat (r_max_id rm) + 1"
  by (subst unat_word_ariths) simp

lemma add_one_shape_board:
  assumes "add_one_shape cd req rm = (req', rm', n)" "ids_ok rm" "unat (r_max_id rm) + 1 < 2 ^ 32"
  shows "room_board rm' = apply_shape cd req' (room_board rm)" "ids_ok rm'"
    "unat (r_max_id rm') \<le> unat (r_max_id rm) + 1" "unat (r_max_id rm) \<le> unat (r_max_id rm')"
    "n = field_or 0 (wm_id req')"
proof -
  have fresh: "omap_find (r_shapes rm) (r_max_id rm) = None"
    using assms(2) unfolding ids_ok_def room_board_def by (metis less_irrefl not_None_eq)
  note nxt = next_id[OF assms(3)]
  have "room_board rm' = apply_shape cd req' (room_board rm) \<and> ids_ok rm'
      \<and> unat (r_max_id rm') \<le> unat (r_max_id rm) + 1 \<and> unat (r_max_id rm) \<le> unat (r_max_id rm')
      \<and> n = field_or 0 (wm_id req')"
  proof (cases "omap_find (r_shapes rm) (field_or 0 (wm_id req))")
    case None
    then have "req' = req\<lparr> wm_id := Some (r_max_id rm) \<rparr>" "n = r_max_id rm"
      "rm' = rm\<lparr> r_shapes := omap_insert (r_max_id rm) (cd_ser_msg cd req') (r_shapes rm), r_max_id := r_max_id rm + 1 \<rparr>"
      using assms(1) by (auto simp: add_one_shape_def Let_def)
    then show ?thesis using fresh assms(2) nxt
      by (auto simp: room_board_def apply_shape_def ids_ok_def field_or_def omap_insert_def
          split: if_splits intro: less_SucI)
  next
    case (Some x)
    then have "req' = req" "n = field_or 0 (wm_id req)"
      "rm' = rm\<lparr> r_shapes := omap_put (field_or 0 (wm_id req)) (cd_ser_msg cd req) (r_shapes rm) \<rparr>"
      using assms(1) by (auto simp: add_one_shape_def Let_def)
    then show ?thesis using Some assms(2)
      by (auto simp: room_board_def apply_shape_def ids_ok_def split: if_splits)
  qed
  then show "room_board rm' = apply_shape cd req' (room_board rm)" "ids_ok rm'"
    "unat (r_max_id rm') \<le> unat (r_max_id rm) + 1" "unat (r_max_id rm) \<le> unat (r_max_id rm')"
    "n = field_or 0 (wm_id req')" by auto
qed

lemma add_shapes_board:
  assumes "add_shapes cd reqs n0 rm = (reqs', rm', n)" "ids_ok rm" "unat (r_max_id rm) + length reqs < 2 ^ 32"
  shows "room_board rm' = apply_shapes cd reqs' (room_board rm)" "ids_ok rm'"
    "unat (r_max_id rm) \<le> unat (r_max_id rm')" "length reqs' = length reqs"
    "n = (if reqs = [] then n0 else field_or 0 (wm_id (last reqs')))"
proof -
  have "room_board rm' = apply_shapes cd reqs' (room_board rm) \<and> ids_ok rm'
      \<and> unat (r_max_id rm) \<le> unat (r_max_id rm') \<and> length reqs' = length reqs
      \<and> n = (if reqs = [] then n0 else field_or 0 (wm_id (last reqs')))"
    using assms
  proof (induction reqs arbitrary: n0 rm reqs' rm' n)
    case (Cons req reqs)
    obtain req1 rm1 n1 where one: "add_one_shape cd req rm = (req1, rm1, n1)" by (metis prod_cases3)
    obtain reqs2 rm2 n2 where rest: "add_shapes cd reqs n1 rm1 = (reqs2, rm2, n2)" by (metis prod_cases3)
    have res: "reqs' = req1 # reqs2" "rm' = rm2" "n = n2" using Cons.prems(1) one rest by auto
    have "unat (r_max_id rm) + 1 < 2 ^ 32" using Cons.prems(3) by simp
    note o = add_one_shape_board[OF one Cons.prems(2) this]
    have "unat (r_max_id rm1) + length reqs < 2 ^ 32" using o(3) Cons.prems(3) by simp
    from Cons.IH[OF rest o(2) this] o res show ?case
      by (cases reqs; cases reqs2) (auto simp: apply_shapes_def)
  qed (simp add: apply_shapes_def)
  then show "room_board rm' = apply_shapes cd reqs' (room_board rm)" "ids_ok rm'"
    "unat (r_max_id rm) \<le> unat (r_max_id rm')" "length reqs' = length reqs"
    "n = (if reqs = [] then n0 else field_or 0 (wm_id (last reqs')))" by auto
qed



end
