(* ===== verification/Room_Props.thy ===== *)
theory Room_Props
  imports Boards
begin

text \<open>
  Membership, the newcomer's view, and the lifetime of rooms.
\<close>

subsection \<open>Membership\<close>

lemma left_room_membership:
  assumes "w_sessions w s = Some ss" "s_room ss = Some r"
  shows "room_of (left_room E r rm s ss w) = (room_of w)(s := None)"
    "w_manager (left_room E r rm s ss w) = w_manager w"
    "w_sessions (left_room E r rm s ss w) = (w_sessions w)(s \<mapsto> ss\<lparr> s_room := None \<rparr>)"
  by (simp_all add: left_room_def Let_def part_def)

lemma entered_membership:
  "room_of (entered E r rm s ss w) = (room_of w)(s := Some r)"
  "w_manager (entered E r rm s ss w) = w_manager w"
  by (simp_all add: entered_def Let_def join_def)

lemma SetRoom_none_state:
  assumes "heap_ok (env_heap E)" "world_ok w" "w_sessions w s = Some ss"
  obtains w1 ss1 where "(case s_room ss of Some r \<Rightarrow> LeaveRoom E r s w | None \<Rightarrow> Some w) = Some w1"
    "evolves w w1" "w_manager w1 = w_manager w" "room_of w1 = (room_of w)(s := None)"
    "w_sessions w1 s = Some ss1" "s_room ss1 = None"
proof (cases "s_room ss")
  case None
  then show thesis using that[of w ss] assms by (simp add: room_of_def fun_upd_idem)
next
  case (Some r)
  obtain rm where rm: "w_rooms w r = Some rm" using room_ofD[OF assms(2,3) Some] by blast
  show thesis using that[of "left_room E r rm s ss w" "ss\<lparr> s_room := None \<rparr>"] Some
      LeaveRoom_eq(1)[OF assms(1,2) rm assms(3) Some] evolves_left[OF assms(1,2) rm assms(3) Some]
      left_room_membership[OF assms(3) Some] by simp
qed

text \<open>C7: entering a room moves exactly the caller: afterwards it is in the room of that key and nobody else
  has moved.  When there is no such room it is in no room at all, whatever room it was in before.\<close>

theorem PlayerEnterRoom_moves:
  assumes "heap_ok (env_heap E)" "world_ok w" "w_sessions w s \<noteq> None"
  shows "\<exists>w'. PlayerEnterRoom E key s w = Some w' \<and> evolves w w' \<and> w_manager w' = w_manager w
    \<and> room_of w' = (room_of w)(s := omap_find (w_manager w) key)
    \<and> (\<forall>r. members w' r = (members w r - {s}) \<union> (if omap_find (w_manager w) key = Some r then {s} else {}))"
proof -
  obtain ss where ss: "w_sessions w s = Some ss" using assms(3) by auto
  obtain w1 ss1 where w1: "(case s_room ss of Some r \<Rightarrow> LeaveRoom E r s w | None \<Rightarrow> Some w) = Some w1"
    "evolves w w1" "w_manager w1 = w_manager w" "room_of w1 = (room_of w)(s := None)"
    "w_sessions w1 s = Some ss1" "s_room ss1 = None"
    using SetRoom_none_state[OF assms(1,2) ss] by metis
  have ok1: "world_ok w1" using w1(2) by (simp add: evolves_def)
  have "\<exists>w'. Manager_EnterRoom E key s w1 = Some w' \<and> evolves w w' \<and> w_manager w' = w_manager w
    \<and> room_of w' = (room_of w)(s := omap_find (w_manager w) key)"
  proof (cases "omap_find (w_manager w) key")
    case None
    then show ?thesis using SendError_post[OF assms(1) ok1, of s] w1 by (simp add: Manager_EnterRoom_def)
  next
    case (Some r)
    then have r: "omap_find (w_manager w1) key = Some r" using w1(3) by simp
    obtain rm where rm: "w_rooms w1 r = Some rm" using managedD[OF ok1 r] by blast
    note en = EnterRoom_eq[OF assms(1) ok1 rm w1(5,6)]
    have ev: "evolves w (entered E r rm s ss1 w1)"
      using evolves_trans[OF w1(2) evolves_entered[OF assms(1) ok1 rm w1(5,6)]] .
    then have "w_sessions (entered E r rm s ss1 w1) s \<noteq> None" using ss by (simp add: evolves_def)
    then show ?thesis using SendError_post[OF assms(1) en(2)] en(1) r ev w1(3,4) Some
      by (simp add: Manager_EnterRoom_def entered_membership)
  qed
  then obtain w' where w': "PlayerEnterRoom E key s w = Some w'" "evolves w w'" "w_manager w' = w_manager w"
    "room_of w' = (room_of w)(s := omap_find (w_manager w) key)"
    using ss w1(1) by (auto simp: PlayerEnterRoom_def)
  have "world_ok w'" using w'(2) by (simp add: evolves_def)
  then have "members w' r = (members w r - {s}) \<union> (if omap_find (w_manager w) key = Some r then {s} else {})" for r
    using members_iff[of w' _ r] members_iff[OF assms(2), of _ r] w'(4) by (auto split: if_splits)
  with w' show ?thesis by blast
qed

lemma PlayerEnterRoom_moves_witness:
  "\<exists>w' w''. PlayerEnterRoom demo_env [1] 10 demo_world = Some w' \<and> room_of w' 10 = Some 20 \<and> room_of w' 11 = Some 20
     \<and> PlayerEnterRoom demo_env [2] 11 demo_world = Some w'' \<and> room_of w'' 11 = None"
proof -
  obtain w' where "PlayerEnterRoom demo_env [1] 10 demo_world = Some w'"
    "room_of w' = (room_of demo_world)(10 := omap_find (w_manager demo_world) [1])"
    using PlayerEnterRoom_moves[of demo_env demo_world 10 "[1]"] by auto
  moreover obtain w'' where "PlayerEnterRoom demo_env [2] 11 demo_world = Some w''"
    "room_of w'' = (room_of demo_world)(11 := omap_find (w_manager demo_world) [2])"
    using PlayerEnterRoom_moves[of demo_env demo_world 11 "[2]"] by auto
  moreover have "room_of demo_world 11 = Some 20" by (simp add: room_of_def)
  ultimately show ?thesis by simp
qed

subsection \<open>The newcomer's view\<close>

text \<open>The room stores every shape in serialised form, under its own id.\<close>

definition board_ok :: "codec \<Rightarrow> room \<Rightarrow> bool" where
  "board_ok cd rm \<longleftrightarrow> (\<forall>x\<in>set (r_shapes rm). \<exists>m. snd x = cd_ser_msg cd m \<and> field_or 0 (wm_id m) = fst x)"

text \<open>What protobuf promises of its messages: parsing what was serialised gives the message back.\<close>

definition codec_faithful :: "codec \<Rightarrow> bool" where
  "codec_faithful cd \<longleftrightarrow> (\<forall>m. cd_parse_msg cd (cd_ser_msg cd m) = (True, m))
     \<and> (\<forall>l. cd_parse_list cd (cd_ser_list cd l) = (True, l))"

lemma set_omap_put: "set (omap_put k v m) \<subseteq> insert (k, v) (set m)"
  by (induction m) auto

lemma board_ok_put:
  assumes "board_ok cd rm" "field_or 0 (wm_id m) = i" "set (r_shapes rm') \<subseteq> insert (i, cd_ser_msg cd m) (set (r_shapes rm))"
  shows "board_ok cd rm'"
  using assms unfolding board_ok_def by fastforce

lemma board_ok_add_one:
  assumes "board_ok cd rm" "add_one_shape cd req rm = (req', rm', n)"
  shows "board_ok cd rm'"
proof (rule board_ok_put[OF assms(1)])
  show "field_or 0 (wm_id req') = n"
    using assms(2) by (auto simp: add_one_shape_def Let_def field_or_def split: option.splits)
  show "set (r_shapes rm') \<subseteq> insert (n, cd_ser_msg cd req') (set (r_shapes rm))"
    using assms(2) by (auto simp: add_one_shape_def Let_def omap_insert_def split: option.splits if_splits
      dest: subsetD[OF set_omap_put])
qed

lemma board_ok_add_shapes:
  "board_ok cd rm \<Longrightarrow> add_shapes cd reqs n0 rm = (reqs', rm', n) \<Longrightarrow> board_ok cd rm'"
proof (induction reqs arbitrary: n0 rm reqs' rm' n)
  case (Cons req reqs)
  obtain req1 rm1 n1 where one: "add_one_shape cd req rm = (req1, rm1, n1)" by (metis prod_cases3)
  obtain reqs2 rm2 n2 where rest: "add_shapes cd reqs n1 rm1 = (reqs2, rm2, n2)" by (metis prod_cases3)
  from Cons.IH[OF board_ok_add_one[OF Cons.prems(1) one] rest] Cons.prems(2) one rest show ?case by auto
qed simp

lemma apply_shapes_other:
  "i \<notin> (\<lambda>m. field_or 0 (wm_id m)) ` set ms \<Longrightarrow> apply_shapes cd ms b i = b i"
  by (induction ms arbitrary: b) (auto simp: apply_shapes_def apply_shape_def)

lemma apply_stored:
  assumes "\<forall>x\<in>set xs. \<exists>m. snd x = cd_ser_msg cd m \<and> field_or 0 (wm_id m) = fst x" "codec_faithful cd"
    "distinct (map fst xs)"
  shows "apply_shapes cd (map (\<lambda>x. snd (cd_parse_msg cd (snd x))) xs) b = b ++ omap_find xs"
  using assms(1,3)
proof (induction xs arbitrary: b)
  case (Cons x xs)
  then obtain m where m: "snd x = cd_ser_msg cd m" "field_or 0 (wm_id m) = fst x" by auto
  have p: "cd_parse_msg cd (cd_ser_msg cd m) = (True, m)" using assms(2) by (simp add: codec_faithful_def)
  have "apply_shapes cd (map (\<lambda>x. snd (cd_parse_msg cd (snd x))) (x # xs)) b
      = b(fst x \<mapsto> snd x) ++ omap_find xs"
    using Cons m p by (simp add: apply_shapes_def apply_shape_def)
  also have "\<dots> = b ++ omap_find (x # xs)"
    using Cons.prems(2) by (cases x) (simp add: map_add_upd_left omap_find_dom, simp add: map_add_def fun_eq_iff)
  finally show ?case .
qed (simp add: apply_shapes_def)

lemma shape_list_board:
  assumes "board_ok cd rm" "codec_faithful cd" "omap_ok (r_shapes rm)"
  shows "apply_shapes cd (wl_shapes (shape_list cd rm)) Map.empty = room_board rm"
  using apply_stored[OF _ assms(2) omap_ok_distinct[OF assms(3)], of Map.empty] assms(1)
  by (simp add: board_ok_def shape_list_def room_board_def)

text \<open>C6: a session that enters a room is first sent one list of shapes from which a client rebuilds exactly
  the room's board (none when the board is empty); then every member, the newcomer included, is sent the
  names of all the members; nobody else is sent anything.\<close>

theorem EnterRoom_sync:
  assumes "heap_ok (env_heap E)" "world_ok w" "w_rooms w r = Some rm" "w_sessions w s = Some ss" "s_room ss = None"
    "codec_faithful (env_codec E)" "board_ok (env_codec E) rm"
  shows "\<exists>w' body l. EnterRoom E r s w = Some w' \<and> world_ok w' \<and> members w' r = insert s (members w r)
    \<and> cd_parse_list (env_codec E) body = (True, l) \<and> apply_shapes (env_codec E) (wl_shapes l) Map.empty = room_board rm
    \<and> (\<forall>p c. w_conns w p = Some c \<longrightarrow> \<not> c_closing c \<longrightarrow> w_conns w' p = Some (c\<lparr> c_inbox := c_inbox c
         @ (if s_conn ss = Some p \<and> r_shapes rm \<noteq> [] then [MsgWrite (frame_bytes ProtoBuff_Add_Sharp body)] else [])
         @ replicate (count_list (map (conn_of w) (oset_insert s (r_sessions rm))) (Some p))
             (MsgWrite (frame_bytes ProtoBuff_Sync_Player_List
                (cd_ser_players (env_codec E) (map (name_of w) (oset_insert s (r_sessions rm)))))) \<rparr>))"
proof -
  let ?body = "cd_ser_list (env_codec E) (shape_list (env_codec E) rm)"
  let ?w1 = "join r rm s ss w" and ?rm = "joined_room s rm"
  note en = EnterRoom_eq[OF assms(1-5)]
  have names: "name_of ?w1 = name_of w" "conn_of ?w1 = conn_of w"
    using assms(4) by (auto simp: name_of_def conn_of_def fun_eq_iff)
  have conn: "conn_of w s = s_conn ss" using assms(4) by (simp add: conn_of_def)
  have mem: "members (entered E r rm s ss w) r = insert s (members w r)"
    using assms(3) by (simp add: members_def entered_def Let_def)
  have inbox: "w_conns (entered E r rm s ss w) p = Some (c\<lparr> c_inbox := c_inbox c
         @ (if s_conn ss = Some p \<and> r_shapes rm \<noteq> [] then [MsgWrite (frame_bytes ProtoBuff_Add_Sharp ?body)] else [])
         @ replicate (count_list (map (conn_of w) (oset_insert s (r_sessions rm))) (Some p))
             (MsgWrite (frame_bytes ProtoBuff_Sync_Player_List
                (cd_ser_players (env_codec E) (map (name_of w) (oset_insert s (r_sessions rm)))))) \<rparr>)"
    if c: "w_conns w p = Some c" "\<not> c_closing c" for p c
  proof -
    have "w_conns (if r_shapes rm = [] then ?w1 else post (shapes_frame E rm) (conn_of ?w1 s) ?w1) p =
      Some (c\<lparr> c_inbox := c_inbox c @ (if s_conn ss = Some p \<and> r_shapes rm \<noteq> []
         then [MsgWrite (frame_bytes ProtoBuff_Add_Sharp ?body)] else []) \<rparr>)"
      using c by (auto simp: names conn post_def conn_post_def shapes_frame_def split: option.split)
    then show ?thesis
      by (simp add: entered_def Let_def post_all_conn names c member_conns_def player_list_frame_def joined_room_def)
  qed
  have "omap_ok (r_shapes rm)" using world_ok_room_ok[OF assms(2,3)] by (simp add: room_ok_def)
  note board = shape_list_board[OF assms(7,6) this]
  have "cd_parse_list (env_codec E) ?body = (True, shape_list (env_codec E) rm)"
    using assms(6) by (simp add: codec_faithful_def)
  with en mem board inbox show ?thesis by blast
qed

lemma EnterRoom_sync_witness:
  "\<exists>w' body l. EnterRoom demo_env 20 10 demo_world = Some w' \<and> members w' 20 = {10, 11}
     \<and> cd_parse_list demo_codec body = (True, l) \<and> apply_shapes demo_codec (wl_shapes l) Map.empty = room_board demo_room"
proof -
  have "codec_faithful demo_codec" "board_ok demo_codec demo_room"
    by (auto simp: codec_faithful_def board_ok_def demo_shape_def field_or_def intro!: exI[of _ "demo_shape 1"])
  moreover have "members demo_world 20 = {11}" by (simp add: members_def)
  ultimately show ?thesis using EnterRoom_sync[of demo_env demo_world 20 demo_room 10 demo_guest] by fastforce
qed

subsection \<open>The lifetime of rooms\<close>

definition collectable :: "world \<Rightarrow> ptr \<Rightarrow> bool" where
  "collectable w r = (case w_rooms w r of None \<Rightarrow> False | Some rm \<Rightarrow> CanDelete (w_now w) rm)"

lemma Manager_Update_step_eq:
  assumes "heap_ok (env_heap E)" "world_ok w" "(k, r) \<in> set (w_manager w)"
  obtains w1 where "Manager_Update_step E (k, r) w = Some w1" "evolves w w1" "w_sessions w1 = w_sessions w"
    "w_rooms w1 = (if collectable w r then (w_rooms w)(r := None) else w_rooms w)"
    "w_manager w1 = (if collectable w r then omap_erase k (w_manager w) else w_manager w)"
proof -
  have m: "omap_find (w_manager w) k = Some r"
    using assms(2,3) by (simp add: world_ok_def manager_ok_def omap_find_iff)
  obtain rm where rm: "w_rooms w r = Some rm" "r_key rm = k" using managedD[OF assms(2) m] by blast
  show thesis
  proof (cases "CanDelete (w_now w) rm")
    case True
    then have "r_sessions rm = []" by (simp add: CanDelete_def GetPlayerSize_def)
    note ok = world_ok_drop_room[OF assms(2) rm this]
    have "Manager_Update_step E (k, r) w = BroadCastRoomList E (drop_room k r w)"
      using rm True by (simp add: Manager_Update_step_def drop_room_def)
    moreover have "evolves w (drop_room k r w)" using ok by (simp add: evolves_def)
    ultimately show thesis using that BroadCastRoomList_eq[OF assms(1) ok] True rm
      by (simp add: collectable_def)
  next
    case False
    then show thesis using that[of w] rm assms(2) by (simp add: Manager_Update_step_def collectable_def)
  qed
qed

lemma Manager_Update_loop:
  assumes "heap_ok (env_heap E)" "world_ok w" "set xs \<subseteq> set (w_manager w)" "distinct (map fst xs)"
  shows "\<exists>w'. each (Manager_Update_step E) xs w = Some w' \<and> evolves w w' \<and> w_sessions w' = w_sessions w
    \<and> w_rooms w' = (\<lambda>r. if r \<in> snd ` set xs \<and> collectable w r then None else w_rooms w r)
    \<and> w_manager w' = filter (\<lambda>x. w_rooms w' (snd x) \<noteq> None) (w_manager w)"
  using assms(2-)
proof (induction xs arbitrary: w)
  case Nil
  have "filter (\<lambda>x. w_rooms w (snd x) \<noteq> None) (w_manager w) = w_manager w"
    using managed_live[OF Nil.prems(1)] by (intro filter_True) auto
  then show ?case using Nil by simp
next
  case (Cons x xs)
  obtain k r where x: "x = (k, r)" by (cases x)
  obtain w1 where w1: "Manager_Update_step E (k, r) w = Some w1" "evolves w w1" "w_sessions w1 = w_sessions w"
    "w_rooms w1 = (if collectable w r then (w_rooms w)(r := None) else w_rooms w)"
    "w_manager w1 = (if collectable w r then omap_erase k (w_manager w) else w_manager w)"
    using Manager_Update_step_eq[OF assms(1) Cons.prems(1), of k r] Cons.prems(2) x by auto
  have now: "w_now w1 = w_now w" and ok1: "world_ok w1" using w1(2) by (simp_all add: evolves_def)
  have col: "collectable w1 q = (if q = r then False else collectable w q)" if "collectable w r" for q
    using w1(4) now that by (auto simp: collectable_def split: option.split)
  have same: "collectable w1 = collectable w" if "\<not> collectable w r"
    using w1(4) now that by (auto simp: collectable_def fun_eq_iff split: option.split)
  have keep: "set xs \<subseteq> set (w_manager w1)"
    using Cons.prems(2,3) w1(5) x by (force simp: set_omap_erase)
  have "distinct (map fst xs)" using Cons.prems(3) by simp
  from Cons.IH[OF ok1 keep this] obtain w' where w': "each (Manager_Update_step E) xs w1 = Some w'"
    "evolves w1 w'" "w_sessions w' = w_sessions w1"
    "w_rooms w' = (\<lambda>r. if r \<in> snd ` set xs \<and> collectable w1 r then None else w_rooms w1 r)"
    "w_manager w' = filter (\<lambda>x. w_rooms w' (snd x) \<noteq> None) (w_manager w1)" by blast
  have rooms: "w_rooms w' = (\<lambda>q. if q \<in> snd ` set (x # xs) \<and> collectable w q then None else w_rooms w q)"
    by (cases "collectable w r") (auto simp: w'(4) w1(4) col same x fun_eq_iff)
  have "omap_ok (w_manager w)" using Cons.prems(1) by (simp add: world_ok_def manager_ok_def)
  then have uniq: "y = (k, r)" if "y \<in> set (w_manager w)" "fst y = k" for y
    using that Cons.prems(2) x by (metis omap_find_iff list.set_intros(1) option.inject prod.collapse subsetD)
  have gone: "w_rooms w' r = None" if "collectable w r" using that rooms x by simp
  have "filter (\<lambda>y. w_rooms w' (snd y) \<noteq> None) (w_manager w1) = filter (\<lambda>y. w_rooms w' (snd y) \<noteq> None) (w_manager w)"
    using uniq gone by (auto simp: w1(5) omap_erase_def intro!: filter_cong)
  with w' w1 rooms x show ?case by (auto intro: evolves_trans)
qed

text \<open>C8: \<open>RoomManager::Update\<close> deletes exactly the rooms that are empty and past their deadline, takes exactly
  those out of the map, and touches no session.\<close>

theorem Manager_Update_collects:
  assumes "heap_ok (env_heap E)" "world_ok w"
  shows "\<exists>w'. Manager_Update E w = Some w' \<and> evolves w w' \<and> w_sessions w' = w_sessions w
    \<and> w_rooms w' = (\<lambda>r. if collectable w r then None else w_rooms w r)
    \<and> w_manager w' = filter (\<lambda>x. \<not> collectable w (snd x)) (w_manager w)"
proof -
  have "omap_ok (w_manager w)" using assms(2) by (simp add: world_ok_def manager_ok_def)
  from Manager_Update_loop[OF assms order_refl omap_ok_distinct[OF this]] obtain w' where w':
    "Manager_Update E w = Some w'" "evolves w w'" "w_sessions w' = w_sessions w"
    "w_rooms w' = (\<lambda>r. if r \<in> snd ` set (w_manager w) \<and> collectable w r then None else w_rooms w r)"
    "w_manager w' = filter (\<lambda>x. w_rooms w' (snd x) \<noteq> None) (w_manager w)"
    unfolding Manager_Update_def by blast
  have man: "r \<in> snd ` set (w_manager w)" if "collectable w r" for r
  proof -
    obtain rm where "w_rooms w r = Some rm" using \<open>collectable w r\<close> by (auto simp: collectable_def split: option.splits)
    then have "omap_find (w_manager w) (r_key rm) = Some r"
      using assms(2) by (simp add: world_ok_def manager_ok_def)
    then show ?thesis by (metis map_of_SomeD image_eqI snd_conv)
  qed
  have "w_rooms w' = (\<lambda>r. if collectable w r then None else w_rooms w r)" using w'(4) man by auto
  moreover from this have "w_manager w' = filter (\<lambda>x. \<not> collectable w (snd x)) (w_manager w)"
    unfolding w'(5) using managed_live[OF assms(2)] by (intro filter_cong) auto
  ultimately show ?thesis using w' by blast
qed

text \<open>In the demo nothing can be collected; with its member gone for more than an hour the room can.\<close>

lemma Manager_Update_collects_witness:
  "\<exists>w'. Manager_Update demo_env demo_world = Some w' \<and> w_rooms w' 20 = Some demo_room \<and> w_manager w' = [([1], 20)]"
proof -
  have "\<not> collectable demo_world 20" by (simp add: collectable_def CanDelete_def GetPlayerSize_def)
  then show ?thesis using Manager_Update_collects[of demo_env demo_world] by auto
qed

lemma world_ok_now [simp]: "world_ok (w\<lparr> w_now := t \<rparr>) = world_ok w"
  by (simp add: world_defs room_of_def members_def)

text \<open>C9: a room whose last member leaves is kept for an hour and deleted by the first update after that,
  unless somebody enters it in between.\<close>

theorem room_grace_period:
  assumes "heap_ok (env_heap E)" "world_ok w" "w_rooms w r = Some rm" "r_sessions rm = [s]" "w_now w \<ge> 0"
    "w_sessions w s' \<noteq> None" "room_of w s' = None"
  shows "\<exists>w1. LeaveRoom E r s w = Some w1
    \<and> (\<forall>t. \<exists>w2. Manager_Update E (w1\<lparr> w_now := t \<rparr>) = Some w2 \<and> (w_rooms w2 r = None \<longleftrightarrow> t > w_now w + 3600))
    \<and> (\<forall>t. \<exists>w2 w3. EnterRoom E r s' w1 = Some w2 \<and> Manager_Update E (w2\<lparr> w_now := t \<rparr>) = Some w3
         \<and> w_rooms w3 r \<noteq> None)"
proof -
  have "s \<in> set (r_sessions rm)" using assms(4) by simp
  then obtain ss where ss: "w_sessions w s = Some ss" "s_room ss = Some r" using memberD[OF assms(2,3)] by blast
  define w1 where "w1 = left_room E r rm s ss w"
  note lv = LeaveRoom_eq[OF assms(1-3) ss, folded w1_def]
  have rm1: "w_rooms w1 r = Some (rm\<lparr> r_sessions := [], r_can_delete := w_now w + 3600 \<rparr>)"
    using assms(4) by (simp add: w1_def left_room_def Let_def parted_room_def oset_erase_def)
  have s'': "w_sessions w1 s' \<noteq> None" "room_of w1 s' = None"
    using left_room_membership[OF ss, of E rm] assms(6,7) by (auto simp: w1_def)
  then obtain ss' where ss': "w_sessions w1 s' = Some ss'" "s_room ss' = None" by (auto simp: room_of_def)
  have collect: "\<exists>w2. Manager_Update E (v\<lparr> w_now := t \<rparr>) = Some w2 \<and>
      (w_rooms w2 r = None \<longleftrightarrow> collectable (v\<lparr> w_now := t \<rparr>) r)" if "world_ok v" "w_rooms v r \<noteq> None" for v t
    using Manager_Update_collects[OF assms(1), of "v\<lparr> w_now := t \<rparr>"] that by auto
  have "\<exists>w2. Manager_Update E (w1\<lparr> w_now := t \<rparr>) = Some w2 \<and> (w_rooms w2 r = None \<longleftrightarrow> t > w_now w + 3600)" for t
    using collect[OF lv(2), of t] rm1 assms(5) by (simp add: collectable_def CanDelete_def GetPlayerSize_def)
  moreover have "\<exists>w2 w3. EnterRoom E r s' w1 = Some w2 \<and> Manager_Update E (w2\<lparr> w_now := t \<rparr>) = Some w3
      \<and> w_rooms w3 r \<noteq> None" for t
  proof -
    note en = EnterRoom_eq[OF assms(1) lv(2) rm1 ss']
    have "\<exists>rm2. w_rooms (entered E r (rm\<lparr> r_sessions := [], r_can_delete := w_now w + 3600 \<rparr>) s' ss' w1) r = Some rm2
        \<and> r_can_delete rm2 = 0" by (simp add: entered_def Let_def)
    with collect[OF en(2), of t] en(1) show ?thesis by (auto simp: collectable_def CanDelete_def)
  qed
  ultimately show ?thesis using lv(1) by blast
qed

lemma room_grace_period_witness:
  "\<exists>w1. LeaveRoom demo_env 20 11 demo_world = Some w1
    \<and> (\<exists>w2. Manager_Update demo_env (w1\<lparr> w_now := 8600 \<rparr>) = Some w2 \<and> w_rooms w2 20 \<noteq> None)
    \<and> (\<exists>w2. Manager_Update demo_env (w1\<lparr> w_now := 8601 \<rparr>) = Some w2 \<and> w_rooms w2 20 = None)"
proof -
  have "room_of demo_world 10 = None" by (simp add: room_of_def)
  then obtain w1 where w1: "LeaveRoom demo_env 20 11 demo_world = Some w1"
    "\<forall>t. \<exists>w2. Manager_Update demo_env (w1\<lparr> w_now := t \<rparr>) = Some w2 \<and> (w_rooms w2 20 = None \<longleftrightarrow> t > 5000 + 3600)"
    using room_grace_period[of demo_env demo_world 20 demo_room 11 10] by auto
  show ?thesis using w1(1) w1(2)[rule_format, of 8600] w1(2)[rule_format, of 8601] by auto
qed

text \<open>A room that nobody has ever entered has no deadline: no update, however late, deletes it.\<close>

theorem created_room_never_collected:
  assumes "heap_ok (env_heap E)" "world_ok w" "w_sessions w s \<noteq> None" "omap_find (w_manager w) key = None"
  shows "\<exists>w1. Manager_CreateRoom E key s w = Some w1 \<and> evolves w w1 \<and>
    (\<forall>t. \<exists>w2 r. Manager_Update E (w1\<lparr> w_now := t \<rparr>) = Some w2 \<and> omap_find (w_manager w2) key = Some r
       \<and> w_rooms w2 r = Some (Room_new key))"
proof -
  define v where "v = add_room key (Room_new key) w"
  have e: "evolves w v" unfolding v_def
    by (rule evolves_add_room[OF assms(2,4)]) (simp_all add: Room_new_def)
  then have ok: "world_ok v" "w_sessions v s \<noteq> None" using assms(3) by (simp_all add: evolves_def)
  have r: "omap_find (w_manager v) key = Some (w_next w)" "w_rooms v (w_next w) = Some (Room_new key)"
    using assms(4) by (simp_all add: v_def omap_find_insert)
  let ?v1 = "post_all (room_list_frame E v) (all_room_conns v) v"
  obtain w1 where w1: "Manager_CreateRoom E key s w = Some w1" "evolves v w1" "w_rooms w1 = w_rooms v"
    "w_manager w1 = w_manager v"
    using SendError_post[OF assms(1), of ?v1 s] BroadCastRoomList_eq[OF assms(1) ok(1)] ok assms(4)
    by (simp add: Manager_CreateRoom_def CreateRoom_eq v_def[symmetric])
  have "\<exists>w2 r. Manager_Update E (w1\<lparr> w_now := t \<rparr>) = Some w2 \<and> omap_find (w_manager w2) key = Some r
       \<and> w_rooms w2 r = Some (Room_new key)" for t
  proof -
    have w1ok: "world_ok (w1\<lparr> w_now := t \<rparr>)" using w1(2) by (simp add: evolves_def)
    have no: "\<not> collectable (w1\<lparr> w_now := t \<rparr>) (w_next w)"
      using w1(3) r(2) by (simp add: collectable_def CanDelete_def Room_new_def)
    obtain w2 where w2: "Manager_Update E (w1\<lparr> w_now := t \<rparr>) = Some w2" "evolves (w1\<lparr> w_now := t \<rparr>) w2"
      "w_rooms w2 = (\<lambda>r. if collectable (w1\<lparr> w_now := t \<rparr>) r then None else w_rooms (w1\<lparr> w_now := t \<rparr>) r)"
      using Manager_Update_collects[OF assms(1) w1ok] by blast
    have "w_rooms w2 (w_next w) = Some (Room_new key)" using w2(3) no w1(3) r(2) by simp
    moreover from this have "omap_find (w_manager w2) (r_key (Room_new key)) = Some (w_next w)"
      using w2(2) room_managed[of w2] by (simp add: evolves_def world_ok_def)
    ultimately show ?thesis using w2(1) by (auto simp: Room_new_def)
  qed
  with w1(1) evolves_trans[OF e w1(2)] show ?thesis by blast
qed

lemma created_room_never_collected_witness:
  "\<exists>w1. Manager_CreateRoom demo_env [9] 10 demo_world = Some w1 \<and>
    (\<exists>w2 r. Manager_Update demo_env (w1\<lparr> w_now := 1000000 \<rparr>) = Some w2 \<and> omap_find (w_manager w2) [9] = Some r)"
  using created_room_never_collected[of demo_env demo_world 10 "[9]"] by fastforce

subsection \<open>Copies\<close>

text \<open>A copy of a room has the board and the next id of its source and no members; the source is as it
  was, and drawing on one of the two afterwards leaves the other alone.\<close>

theorem CopyRoom_independent:
  assumes "heap_ok (env_heap E)" "world_ok w" "w_sessions w s \<noteq> None" "omap_find (w_manager w) src = Some r"
    "w_rooms w r = Some rm" "omap_find (w_manager w) des = None"
  shows "\<exists>w' q. Manager_CopyRoom E src des s w = Some w' \<and> evolves w w' \<and> omap_find (w_manager w') des = Some q \<and> q \<noteq> r
    \<and> w_rooms w' r = Some rm \<and> (\<exists>cp. w_rooms w' q = Some cp \<and> room_board cp = room_board rm
         \<and> r_max_id cp = r_max_id rm \<and> r_sessions cp = [])
    \<and> (\<forall>request n w''. PlayerAddShape E q s request w' = Some (n, w'') \<longrightarrow> w_rooms w'' r = Some rm)"
proof -
  define v where "v = add_room des (copied_room des rm) w"
  define q where "q = w_next w"
  have e: "evolves w v" unfolding v_def
    by (rule evolves_add_room[OF assms(2,6)])
      (use world_ok_room_ok[OF assms(2,5)] in \<open>simp_all add: copied_room_def Room_new_def room_ok_def\<close>)
  then have ok: "world_ok v" "w_sessions v s \<noteq> None" using assms(3) by (simp_all add: evolves_def)
  have "w_rooms w q = None" using assms(2) by (simp add: world_ok_def fresh_ok_def q_def)
  then have ne: "q \<noteq> r" using assms(5) by auto
  have v: "omap_find (w_manager v) des = Some q" "w_rooms v q = Some (copied_room des rm)" "w_rooms v r = Some rm"
    using assms(5,6) ne by (auto simp: v_def q_def omap_find_insert)
  obtain w0 where w0: "CopyRoom src des w = Some (w_next w, w0)"
    "w0\<lparr> w_manager := omap_insert des (w_next w) (w_manager w0) \<rparr> = v"
    using CopyRoom_eq[OF assms(4,5)] unfolding v_def by blast
  let ?v1 = "post_all (room_list_frame E v) (all_room_conns v) v"
  obtain w' where w': "Manager_CopyRoom E src des s w = Some w'" "evolves v w'" "w_rooms w' = w_rooms v"
    "w_manager w' = w_manager v"
    using SendError_post[OF assms(1), of ?v1 s] BroadCastRoomList_eq[OF assms(1) ok(1)] ok assms(4,6) w0
    by (simp add: Manager_CopyRoom_def del: map_of_eq_None_iff)
  have ok': "world_ok w'" "w_sessions w' s \<noteq> None" using w'(2) ok by (simp_all add: evolves_def)
  have "w_rooms w'' r = Some rm" if add: "PlayerAddShape E q s request w' = Some (n, w'')" for request n w''
  proof (cases "cd_parse_list (env_codec E) (pb_body request)")
    case (Pair b l)
    obtain ms rm' k where sh: "add_shapes (env_codec E) (wl_shapes l) 0 (copied_room des rm) = (ms, rm', k)"
      by (metis prod_cases3)
    have q: "w_rooms w' q = Some (copied_room des rm)" using w'(3) v(2) by simp
    show ?thesis
    proof (cases b)
      case True
      then have "cd_parse_list (env_codec E) (pb_body request) = (True, l)" using Pair by simp
      from PlayerAddShape_ok(1)[OF assms(1) ok'(1) q ok'(2) this sh] add ne w'(3) v(3) show ?thesis by auto
    next
      case False
      with add Pair SendError_post[OF assms(1) ok'] w'(3) v(3) show ?thesis
        by (auto simp: PlayerAddShape_def split: Option.bind_splits)
    qed
  qed
  moreover have "room_board (copied_room des rm) = room_board rm" "r_max_id (copied_room des rm) = r_max_id rm"
    "r_sessions (copied_room des rm) = []" by (simp_all add: copied_room_def room_board_def Room_new_def)
  ultimately show ?thesis using w' evolves_trans[OF e w'(2)] v ne by auto
qed

lemma CopyRoom_independent_witness:
  "\<exists>w' q cp. Manager_CopyRoom demo_env [1] [9] 10 demo_world = Some w' \<and> omap_find (w_manager w') [9] = Some q
     \<and> w_rooms w' q = Some cp \<and> room_board cp = room_board demo_room \<and> r_sessions cp = []"
  using CopyRoom_independent[of demo_env demo_world 10 "[1]" 20 demo_room "[9]"] by fastforce

end
