(* ===== verification/Account.thy ===== *)
theory Account
  imports Room_Props Queues
begin

text \<open>
  The state of the server process as the main thread sees it, \<open>Dispatcher\<close>'s tables
  (\<open>framework/server/packet_dispatcher.cpp\<close>) and the account service with its versions
  (\<open>game_base/account/source/account_service.cpp\<close>, \<open>account_service_pimpl.cpp\<close>,
  \<open>player_manager.cpp\<close>).

  A \<open>GameService*\<close> is an address; the only such object of the process is the account service.  A version's
  implementation is loaded from a shared object; \<open>dlopen\<close> and \<open>dlsym\<close> are the parameter \<open>so_loader\<close>.
\<close>

subsection \<open>State\<close>

record pimpl =               \<comment> \<open>\<open>AccountServicePimpl\<close>\<close>
  pi_conns :: "(string \<times> ptr) list"                  \<comment> \<open>\<open>tcp_connection_list_\<close>\<close>
  pi_sessions :: "(string \<times> ptr) list option"         \<comment> \<open>\<open>player_manager_->player_sessions_\<close>; \<^const>\<open>None\<close>: no manager yet\<close>
  pi_can_login :: bool
  pi_opcodes :: "u32 list"

record account =             \<comment> \<open>\<open>AccountService\<close>\<close>
  ac_pimpls :: "(string \<times> pimpl) list"
  ac_creators :: "string list"                       \<comment> \<open>the versions that have a creator\<close>
  ac_deletors :: "string list"
  ac_handles :: "(string \<times> string) list"              \<comment> \<open>\<open>so_handles_\<close>: the shared object of a version\<close>
  ac_running :: bool
  ac_dispatcher :: bool                              \<comment> \<open>\<open>dispatcher_ != nullptr\<close>\<close>

record dispatcher =          \<comment> \<open>\<open>Dispatcher\<close>\<close>
  d_rules :: "(u32 \<times> ptr) list"                       \<comment> \<open>\<open>dispatchRules_\<close>\<close>
  d_bound :: "(ptr \<times> ptr list) list"                  \<comment> \<open>\<open>connToGameService_\<close>\<close>
  d_subscribers :: "ptr list"
  d_running :: bool
  d_server :: bool                                   \<comment> \<open>\<open>server_ != nullptr\<close>\<close>

record server =              \<comment> \<open>\<open>TcpServer\<close>\<close>
  sv_new :: "ptr dbq"
  sv_closed :: "ptr dbq"
  sv_active :: "ptr list"                            \<comment> \<open>\<open>std::set<TcpConnection*>\<close>\<close>
  sv_waiting :: "ptr list"                           \<comment> \<open>\<open>wait_delete_connections_list_\<close>\<close>
  sv_keepalive_at :: "int option"                    \<comment> \<open>the static \<open>last_update_time\<close>, unset before the first call\<close>
  sv_delete_at :: "int option"                       \<comment> \<open>the static \<open>last_update_time2\<close>\<close>

record app =
  ap_world :: world
  ap_sids :: nat                                     \<comment> \<open>\<open>TcpConnection::session_index_\<close>\<close>
  ap_account :: account
  ap_account_at :: ptr                               \<comment> \<open>the address of the account service\<close>
  ap_dispatch :: dispatcher
  ap_server :: server
  ap_services :: "(string \<times> ptr) list"               \<comment> \<open>\<open>ServiceManager::services_\<close>\<close>
  ap_orders :: "string list"                         \<comment> \<open>\<open>DependencyResolver::orders_\<close>\<close>

definition Dispatcher_new :: dispatcher where
  "Dispatcher_new = \<lparr> d_rules = [], d_bound = [], d_subscribers = [], d_running = False, d_server = False \<rparr>"

definition Pimpl_new :: pimpl where
  "Pimpl_new = \<lparr> pi_conns = [], pi_sessions = None, pi_can_login = True, pi_opcodes = [] \<rparr>"

definition Account_new :: account where
  "Account_new = \<lparr> ac_pimpls = [], ac_creators = [], ac_deletors = [], ac_handles = [],
     ac_running = False, ac_dispatcher = False \<rparr>"

subsection \<open>The dispatcher's tables\<close>

text \<open>Opcodes are registered in order up to the first one that is taken.\<close>

fun register_rules :: "u32 list \<Rightarrow> ptr \<Rightarrow> (u32 \<times> ptr) list \<Rightarrow> bool \<times> (u32 \<times> ptr) list" where
  "register_rules [] service rules = (True, rules)"
| "register_rules (op # ops) service rules =
     (if omap_find rules op = None then register_rules ops service (omap_put op service rules) else (False, rules))"

definition RegisterOpcode :: "u32 list \<Rightarrow> ptr option \<Rightarrow> dispatcher \<Rightarrow> bool \<times> dispatcher" where
  "RegisterOpcode opcodes service d = (case service of
     Some g \<Rightarrow> (case register_rules opcodes g (d_rules d) of (ok, rules) \<Rightarrow> (ok, d\<lparr> d_rules := rules \<rparr>))
   | None \<Rightarrow> (False, d))"

definition DeregisterOpcode :: "u32 list \<Rightarrow> dispatcher \<Rightarrow> bool \<times> dispatcher" where
  "DeregisterOpcode opcodes d = (True, d\<lparr> d_rules := fold omap_erase opcodes (d_rules d) \<rparr>)"

definition SubscribeConnClosedMessage :: "ptr option \<Rightarrow> dispatcher \<Rightarrow> bool \<times> dispatcher" where
  "SubscribeConnClosedMessage service d = (case service of
     Some g \<Rightarrow> (True, d\<lparr> d_subscribers := oset_insert g (d_subscribers d) \<rparr>)
   | None \<Rightarrow> (False, d))"

definition UnsubscribeConnClosedMessage :: "ptr \<Rightarrow> dispatcher \<Rightarrow> bool \<times> dispatcher" where
  "UnsubscribeConnClosedMessage g d = (True, d\<lparr> d_subscribers := oset_erase g (d_subscribers d) \<rparr>)"

text \<open>\<open>connToGameService_[conn].insert(service)\<close>\<close>

definition BindConnToSerice :: "ptr \<Rightarrow> ptr \<Rightarrow> dispatcher \<Rightarrow> dispatcher" where
  "BindConnToSerice conn g d =
     d\<lparr> d_bound := omap_put conn (oset_insert g (field_or [] (omap_find (d_bound d) conn))) (d_bound d) \<rparr>"

definition Dispatcher_Start :: "dispatcher \<Rightarrow> bool \<times> dispatcher" where
  "Dispatcher_Start d = (True, d\<lparr> d_running := True \<rparr>)"

definition Dispatcher_Stop :: "dispatcher \<Rightarrow> bool \<times> dispatcher" where
  "Dispatcher_Stop d = (True, d\<lparr> d_running := False, d_rules := [], d_bound := [], d_subscribers := [] \<rparr>)"

subsection \<open>Players of one version\<close>

text \<open>The three operations of \<open>PlayerManager\<close> on the map of sessions.\<close>

definition AddPlayerSession :: "string \<Rightarrow> (string \<times> ptr) list \<Rightarrow> world \<Rightarrow> ptr \<times> (string \<times> ptr) list \<times> world" where
  "AddPlayerSession sid m w = (case omap_find m sid of
     Some s \<Rightarrow> (s, m, w)
   | None \<Rightarrow> (case CreatePlayerSession w of (s, w1) \<Rightarrow>
       (s, omap_put sid s m, put_session s (Session_new\<lparr> s_id := sid \<rparr>) w1)))"

definition RemovePlayerSession ::
  "env \<Rightarrow> string \<Rightarrow> (string \<times> ptr) list \<Rightarrow> world \<Rightarrow> (bool \<times> (string \<times> ptr) list \<times> world) option" where
  "RemovePlayerSession E sid m w = (case omap_find m sid of
     None \<Rightarrow> Some (False, m, w)
   | Some s \<Rightarrow> do { w' \<leftarrow> DestroyPlayerSession E s w; Some (True, omap_erase sid m, w') })"

definition GetPlayerSessionBySessionId :: "string \<Rightarrow> (string \<times> ptr) list \<Rightarrow> ptr option" where
  "GetPlayerSessionBySessionId sid m = omap_find m sid"

definition PlayerManager_destroy :: "env \<Rightarrow> (string \<times> ptr) list \<Rightarrow> world \<Rightarrow> world option" where
  "PlayerManager_destroy E m w = each (DestroyPlayerSession E) (map snd m) w"

subsection \<open>AccountServicePimpl\<close>

definition app_GetSessionId :: "ptr \<Rightarrow> app \<Rightarrow> (string \<times> app) option" where
  "app_GetSessionId p a = do {
     c \<leftarrow> w_conns (ap_world a) p;
     (case GetSessionId (ap_sids a) c of (sid, n, c') \<Rightarrow>
       Some (sid, a\<lparr> ap_sids := n, ap_world := (ap_world a)\<lparr> w_conns := (w_conns (ap_world a))(p \<mapsto> c') \<rparr> \<rparr>)) }"

definition pimpl_of :: "app \<Rightarrow> string \<Rightarrow> pimpl option" where
  "pimpl_of a v = omap_find (ac_pimpls (ap_account a)) v"

definition put_pimpl :: "string \<Rightarrow> pimpl \<Rightarrow> app \<Rightarrow> app" where
  "put_pimpl v pi a = a\<lparr> ap_account := (ap_account a)\<lparr> ac_pimpls := omap_put v pi (ac_pimpls (ap_account a)) \<rparr> \<rparr>"

definition Pimpl_Init :: "bool \<Rightarrow> pimpl \<Rightarrow> bool \<times> pimpl" where
  "Pimpl_Init conf_is_object pi =
     (let pi1 = pi\<lparr> pi_opcodes := fold oset_insert (map opcode_num
            [ProtoBuff_Add_Sharp, ProtoBuff_Room_Operate, ProtoBuff_Remove_Sharp]) (pi_opcodes pi) \<rparr> in
      if \<not> conf_is_object then (False, pi1) else (True, pi1\<lparr> pi_sessions := Some [] \<rparr>))"

definition Pimpl_OnRecvPacket :: "env \<Rightarrow> string \<Rightarrow> ptr \<Rightarrow> protobuf \<Rightarrow> app \<Rightarrow> (bool \<times> app) option" where
  "Pimpl_OnRecvPacket E v conn request a = do {
     pi \<leftarrow> pimpl_of a v;
     if \<not> pi_can_login pi then Some (False, a)
     else do {
       (sid, a1) \<leftarrow> app_GetSessionId conn a;
       m \<leftarrow> pi_sessions pi;
       (case GetPlayerSessionBySessionId sid m of
          None \<Rightarrow> Some (False, a1)
        | Some s \<Rightarrow> do {
            (_, w') \<leftarrow> HandleRequest E s (unat (pb_opcode request)) request (ap_world a1);
            Some (True, a1\<lparr> ap_world := w' \<rparr>) }) } }"

definition AddTcpConnection :: "string \<Rightarrow> ptr \<Rightarrow> app \<Rightarrow> app option" where
  "AddTcpConnection v conn a = do {
     (sid, a1) \<leftarrow> app_GetSessionId conn a;
     pi \<leftarrow> pimpl_of a1 v;
     m \<leftarrow> pi_sessions pi;
     (case AddPlayerSession sid m (ap_world a1) of (s, m', w1) \<Rightarrow> do {
       ss \<leftarrow> w_sessions w1 s;
       Some (put_pimpl v (pi\<lparr> pi_conns := omap_put sid conn (pi_conns pi), pi_sessions := Some m' \<rparr>)
         (a1\<lparr> ap_world := put_session s (ss\<lparr> s_conn := Some conn \<rparr>) w1 \<rparr>)) }) }"

definition RemoveTcpConnection :: "env \<Rightarrow> string \<Rightarrow> string \<Rightarrow> app \<Rightarrow> (bool \<times> app) option" where
  "RemoveTcpConnection E v sid a = do {
     pi \<leftarrow> pimpl_of a v;
     if omap_find (pi_conns pi) sid = None then Some (False, a)
     else do {
       m \<leftarrow> pi_sessions pi;
       (_, m', w') \<leftarrow> RemovePlayerSession E sid m (ap_world a);
       Some (True, put_pimpl v (pi\<lparr> pi_conns := omap_erase sid (pi_conns pi), pi_sessions := Some m' \<rparr>)
         (a\<lparr> ap_world := w' \<rparr>)) } }"

definition GetTcpConnectionBySessionId :: "string \<Rightarrow> pimpl \<Rightarrow> ptr option" where
  "GetTcpConnectionBySessionId sid pi = omap_find (pi_conns pi) sid"

definition Pimpl_OnConnClosed :: "env \<Rightarrow> string \<Rightarrow> ptr \<Rightarrow> app \<Rightarrow> (bool \<times> app) option" where
  "Pimpl_OnConnClosed E v conn a = do {
     (sid, a1) \<leftarrow> app_GetSessionId conn a;
     (_, a2) \<leftarrow> RemoveTcpConnection E v sid a1;
     Some (True, a2) }"

text \<open>\<open>~AccountServicePimpl\<close>\<close>

definition Pimpl_destroy :: "env \<Rightarrow> pimpl \<Rightarrow> world \<Rightarrow> world option" where
  "Pimpl_destroy E pi w = (case pi_sessions pi of None \<Rightarrow> Some w | Some m \<Rightarrow> PlayerManager_destroy E m w)"

subsection \<open>AccountService\<close>

text \<open>The versions in ascending order; only the newest one takes in new connections.\<close>

fun recv_versions :: "env \<Rightarrow> ptr \<Rightarrow> protobuf \<Rightarrow> string list \<Rightarrow> app \<Rightarrow> (bool \<times> app) option" where
  "recv_versions E conn request [] a = Some (False, a)"
| "recv_versions E conn request [v] a = do {
     a1 \<leftarrow> AddTcpConnection v conn a;
     (_, a2) \<leftarrow> Pimpl_OnRecvPacket E v conn request a1;
     Some (True, a2) }"
| "recv_versions E conn request (v # vs) a = do {
     (served, a1) \<leftarrow> Pimpl_OnRecvPacket E v conn request a;
     if served then Some (True, a1) else recv_versions E conn request vs a1 }"

definition Account_OnRecvPacket :: "env \<Rightarrow> ptr \<Rightarrow> protobuf \<Rightarrow> app \<Rightarrow> (bool \<times> app) option" where
  "Account_OnRecvPacket E conn request a = recv_versions E conn request (map fst (ac_pimpls (ap_account a))) a"

fun close_versions :: "env \<Rightarrow> ptr \<Rightarrow> string list \<Rightarrow> app \<Rightarrow> (bool \<times> app) option" where
  "close_versions E conn [] a = Some (False, a)"
| "close_versions E conn (v # vs) a = do {
     (closed, a1) \<leftarrow> Pimpl_OnConnClosed E v conn a;
     if closed then Some (True, a1) else close_versions E conn vs a1 }"

definition Account_OnConnClosed :: "env \<Rightarrow> ptr \<Rightarrow> app \<Rightarrow> (bool \<times> app) option" where
  "Account_OnConnClosed E conn a = close_versions E conn (map fst (ac_pimpls (ap_account a))) a"

record so_loader =
  dl_open :: "string \<Rightarrow> bool"
  dl_creator :: "string \<Rightarrow> bool"    \<comment> \<open>\<open>dlsym\<close> finds \<open>CreateAccountServicePimpl\<close>\<close>
  dl_deletor :: "string \<Rightarrow> bool"

record service_config =
  sc_object :: bool
  sc_pimpl :: bool                 \<comment> \<open>\<open>Pimpl\<close> is there and an object\<close>
  sc_url :: "string option"
  sc_version :: "string option"

definition AddPimpl :: "string \<Rightarrow> string \<Rightarrow> service_config \<Rightarrow> app \<Rightarrow> (bool \<times> app) option" where
  "AddPimpl version handle conf a =
     (if pimpl_of a version \<noteq> None then Some (False, a)
      else if \<not> ac_dispatcher (ap_account a) then None
      else
        (let pi = snd (Pimpl_Init (sc_pimpl conf) Pimpl_new);
             d = snd (RegisterOpcode (pi_opcodes pi) (Some (ap_account_at a)) (ap_dispatch a));
             ac = ap_account a
         in Some (True, a\<lparr> ap_dispatch := d, ap_account := ac\<lparr>
              ac_pimpls := omap_put version pi (ac_pimpls ac),
              ac_creators := oset_insert version (ac_creators ac),
              ac_deletors := oset_insert version (ac_deletors ac),
              ac_handles := omap_put version handle (ac_handles ac) \<rparr> \<rparr>)))"

definition Account_Reload :: "so_loader \<Rightarrow> service_config \<Rightarrow> app \<Rightarrow> (bool \<times> app) option" where
  "Account_Reload so conf a =
     (if \<not> sc_object conf \<or> \<not> sc_pimpl conf then Some (False, a)
      else case (sc_url conf, sc_version conf) of
        (Some url, Some version) \<Rightarrow>
          (if \<not> dl_open so url \<or> \<not> dl_creator so url \<or> \<not> dl_deletor so url then Some (False, a)
           else do { (_, a1) \<leftarrow> AddPimpl version url conf a; Some (True, a1) })
      | _ \<Rightarrow> Some (False, a))"

text \<open>The assertion on the three maps is the undefined case; the result is \<open>false\<close> in every case.\<close>

definition RemovePimpl :: "env \<Rightarrow> string \<Rightarrow> app \<Rightarrow> (bool \<times> app) option" where
  "RemovePimpl E version a = (case pimpl_of a version of
     None \<Rightarrow> Some (False, a)
   | Some pi \<Rightarrow>
       (let ac = ap_account a in
        if version \<notin> set (ac_creators ac) \<or> version \<notin> set (ac_deletors ac) \<or> omap_find (ac_handles ac) version = None
        then None
        else do {
          w' \<leftarrow> Pimpl_destroy E pi (ap_world a);
          Some (False, a\<lparr> ap_world := w', ap_account := ac\<lparr>
            ac_pimpls := omap_erase version (ac_pimpls ac), ac_creators := oset_erase version (ac_creators ac),
            ac_deletors := oset_erase version (ac_deletors ac), ac_handles := omap_erase version (ac_handles ac) \<rparr> \<rparr>) }))"

definition Account_Init :: "so_loader \<Rightarrow> service_config \<Rightarrow> app \<Rightarrow> (bool \<times> app) option" where
  "Account_Init so conf a = do {
     (ok, a1) \<leftarrow> Account_Reload so conf a;
     if \<not> ok then Some (False, a1)
     else if \<not> ac_dispatcher (ap_account a1) then None
     else Some (True, a1\<lparr> ap_dispatch := snd (SubscribeConnClosedMessage (Some (ap_account_at a1)) (ap_dispatch a1)) \<rparr>) }"

definition Account_Start :: "account \<Rightarrow> bool \<times> account" where
  "Account_Start ac = (if ac_running ac then (False, ac) else (True, ac\<lparr> ac_running := True \<rparr>))"

definition Account_Stop :: "account \<Rightarrow> bool \<times> account" where
  "Account_Stop ac = (if \<not> ac_running ac then (False, ac) else (True, ac\<lparr> ac_running := False \<rparr>))"

definition Account_Inject :: "string \<Rightarrow> account \<Rightarrow> account" where
  "Account_Inject name ac = (if name = ''Dispatcher'' then ac\<lparr> ac_dispatcher := True \<rparr> else ac)"

text \<open>\<open>OnShutDown\<close> takes the first version without looking whether there is one.\<close>

definition Account_OnShutDown :: "account \<Rightarrow> (bool \<times> account) option" where
  "Account_OnShutDown ac = (case ac_pimpls ac of
     [] \<Rightarrow> None
   | (v, pi) # ps \<Rightarrow> Some (True, ac\<lparr> ac_pimpls := (v, pi\<lparr> pi_can_login := False \<rparr>) # ps \<rparr>))"

definition Account_destroy :: "env \<Rightarrow> app \<Rightarrow> world option" where
  "Account_destroy E a = each (\<lambda>x. Pimpl_destroy E (snd x)) (ac_pimpls (ap_account a)) (ap_world a)"

end
