(* ===== verification/Tcp_Server.thy ===== *)
theory Tcp_Server
  imports Account
begin

text \<open>
  \<open>TcpServer\<close> (\<open>framework/server/tcp_server.cpp\<close>) and \<open>Dispatcher::Update\<close>
  (\<open>framework/server/packet_dispatcher.cpp\<close>): accepted and closed connections go through the two queues
  from the network thread to the main thread, which keeps the active connections, frees closed ones five
  minutes later and dispatches one packet of each active connection in every round.
\<close>

subsection \<open>The network thread\<close>

definition put_conn :: "ptr \<Rightarrow> conn \<Rightarrow> app \<Rightarrow> app" where
  "put_conn p c a = a\<lparr> ap_world := (ap_world a)\<lparr> w_conns := (w_conns (ap_world a))(p \<mapsto> c) \<rparr> \<rparr>"

definition put_server :: "server \<Rightarrow> app \<Rightarrow> app" where
  "put_server sv a = a\<lparr> ap_server := sv \<rparr>"

definition OnNewConnection :: "ptr \<Rightarrow> app \<Rightarrow> app option" where
  "OnNewConnection p a = do {
     (_, a1) \<leftarrow> app_GetSessionId p a;
     Some (put_server ((ap_server a1)\<lparr> sv_new := snd (dbq_push (sv_new (ap_server a1)) p) \<rparr>) a1) }"

text \<open>\<open>on_new_connection\<close>: a new connection object is initialised, starts reading and is queued.
  \<open>peer\<close> is what libuv knows of the other side, \<open>mem\<close> the array of the new read queue.  (\<open>Init\<close> always
  succeeds.)  A connection that cannot be accepted is left behind.\<close>

definition on_new_connection :: "uv_env \<Rightarrow> (string \<times> int) option \<Rightarrow> byte list list \<Rightarrow> bool \<Rightarrow> app \<Rightarrow> app option" where
  "on_new_connection uv peer mem accepted a =
     (let w = ap_world a; p = w_next w; c = Conn_new (w_now w) mem;
          a1 = a\<lparr> ap_world := w\<lparr> w_next := p + 1 \<rparr> \<rparr>
      in if accepted then OnNewConnection p (put_conn p (StartRead uv (Conn_Init peer c)) a1)
         else Some (put_conn p c a1))"

text \<open>libuv's close callback posts the \<open>CLOSE\<close> message, which \<open>OnMessage\<close> queues for the main thread.\<close>

definition Server_OnMessage_close :: "ptr \<Rightarrow> app \<Rightarrow> app" where
  "Server_OnMessage_close p a =
     put_server ((ap_server a)\<lparr> sv_closed := snd (dbq_push (sv_closed (ap_server a)) p) \<rparr>) a"

definition conn_closed :: "ptr \<Rightarrow> app \<Rightarrow> app option" where
  "conn_closed p a = do {
     c \<leftarrow> w_conns (ap_world a) p;
     Some (Server_OnMessage_close p (put_conn p (on_closed c) a)) }"

subsection \<open>Closed connections on the main thread\<close>

text \<open>\<open>LocateService<GameService>(name)\<close>: the \<open>dynamic_cast\<close> succeeds for the account service only.\<close>

definition LocateGameService :: "app \<Rightarrow> string \<Rightarrow> ptr option" where
  "LocateGameService a name = (case omap_find (ap_services a) name of
     Some g \<Rightarrow> (if g = ap_account_at a then Some g else None) | None \<Rightarrow> None)"

text \<open>The virtual calls.\<close>

definition svc_OnConnClosed :: "env \<Rightarrow> ptr \<Rightarrow> ptr \<Rightarrow> app \<Rightarrow> app option" where
  "svc_OnConnClosed E g p a = (if g = ap_account_at a then map_option snd (Account_OnConnClosed E p a) else None)"

definition svc_OnRecvPacket :: "env \<Rightarrow> ptr \<Rightarrow> ptr \<Rightarrow> protobuf \<Rightarrow> app \<Rightarrow> app option" where
  "svc_OnRecvPacket E g p request a =
     (if g = ap_account_at a then map_option snd (Account_OnRecvPacket E p request a) else None)"

definition notify_closed :: "env \<Rightarrow> ptr \<Rightarrow> ptr list \<Rightarrow> string \<Rightarrow> app \<Rightarrow> app option" where
  "notify_closed E p services name a = (case LocateGameService a name of
     Some g \<Rightarrow> (if g \<in> set services then svc_OnConnClosed E g p a else Some a)
   | None \<Rightarrow> Some a)"

definition ProcessConnClosed :: "env \<Rightarrow> ptr \<Rightarrow> app \<Rightarrow> app option" where
  "ProcessConnClosed E p a =
     (if p \<in> set (sv_active (ap_server a)) then
        (let a1 = put_server ((ap_server a)\<lparr> sv_active := oset_erase p (sv_active (ap_server a)) \<rparr>) a;
             d = ap_dispatch a1
         in case omap_find (d_bound d) p of
              None \<Rightarrow> Some a1
            | Some services \<Rightarrow>
                each (notify_closed E p services) (rev (ap_orders a1))
                  (a1\<lparr> ap_dispatch := d\<lparr> d_bound := omap_erase p (d_bound d) \<rparr> \<rparr>))
      else Some a)"

definition ProcessNew :: "app \<Rightarrow> app option" where
  "ProcessNew a = do {
     let sv = ap_server a;
     (ps, q) \<leftarrow> drain dbq_pop (dbq_swap (sv_new sv));
     Some (put_server (sv\<lparr> sv_new := q, sv_active := fold oset_insert ps (sv_active sv) \<rparr>) a) }"

definition close_one :: "env \<Rightarrow> ptr \<Rightarrow> app \<Rightarrow> app option" where
  "close_one E p a = do {
     c \<leftarrow> w_conns (ap_world a) p;
     if IsClosed c then Some a
     else do {
       a1 \<leftarrow> ProcessConnClosed E p a;
       c1 \<leftarrow> w_conns (ap_world a1) p;
       let a2 = put_conn p (Conn_OnClosed (w_now (ap_world a1)) c1) a1;
       Some (put_server ((ap_server a2)\<lparr> sv_waiting := sv_waiting (ap_server a2) @ [p] \<rparr>) a2) } }"

definition ProcessClosed :: "env \<Rightarrow> app \<Rightarrow> app option" where
  "ProcessClosed E a = do {
     let sv = ap_server a;
     (ps, q) \<leftarrow> drain dbq_pop (dbq_swap (sv_closed sv));
     each (close_one E) ps (put_server (sv\<lparr> sv_closed := q \<rparr>) a) }"

definition keepalive_one :: "ptr \<Rightarrow> app \<Rightarrow> app option" where
  "keepalive_one p a = do {
     c \<leftarrow> w_conns (ap_world a) p;
     Some (if GetKeepAliveTime c + 60 \<le> w_now (ap_world a) then put_conn p (Conn_Close c) a else a) }"

text \<open>Every ten seconds; the first call only starts the clock.\<close>

definition ProcessConnnectionsKeepAlive :: "app \<Rightarrow> app option" where
  "ProcessConnnectionsKeepAlive a =
     (let sv = ap_server a; now = w_now (ap_world a); last_time = field_or now (sv_keepalive_at sv) in
      if now \<le> last_time + 10 then Some (put_server (sv\<lparr> sv_keepalive_at := Some last_time \<rparr>) a)
      else each keepalive_one (sv_active sv) (put_server (sv\<lparr> sv_keepalive_at := Some now \<rparr>) a))"

definition delete_one :: "ptr \<Rightarrow> app \<Rightarrow> app option" where
  "delete_one p a = do {
     c \<leftarrow> w_conns (ap_world a) p;
     if c_closing_time c + 300 \<le> w_now (ap_world a) then
       (let sv = ap_server a; w = ap_world a in
        Some (a\<lparr> ap_world := w\<lparr> w_conns := (w_conns w)(p := None) \<rparr>,
                 ap_server := sv\<lparr> sv_waiting := remove1 p (sv_waiting sv) \<rparr> \<rparr>))
     else Some a }"

text \<open>Every thirty seconds.\<close>

definition ProcessWaitDeleteConnections :: "app \<Rightarrow> app option" where
  "ProcessWaitDeleteConnections a =
     (let sv = ap_server a; now = w_now (ap_world a); last_time = field_or now (sv_delete_at sv) in
      if now \<le> last_time + 30 then Some (put_server (sv\<lparr> sv_delete_at := Some last_time \<rparr>) a)
      else each delete_one (sv_waiting sv) (put_server (sv\<lparr> sv_delete_at := Some now \<rparr>) a))"

definition ProcessConnections :: "env \<Rightarrow> app \<Rightarrow> app option" where
  "ProcessConnections E a = do {
     a1 \<leftarrow> ProcessNew a;
     a2 \<leftarrow> ProcessClosed E a1;
     a3 \<leftarrow> ProcessConnnectionsKeepAlive a2;
     ProcessWaitDeleteConnections a3 }"

text \<open>\<open>OnShutDown\<close> frees every connection it knows.\<close>

definition free_conn :: "ptr \<Rightarrow> app \<Rightarrow> app option" where
  "free_conn p a = do {
     _ \<leftarrow> w_conns (ap_world a) p;
     Some (a\<lparr> ap_world := (ap_world a)\<lparr> w_conns := (w_conns (ap_world a))(p := None) \<rparr> \<rparr>) }"

definition Server_OnShutDown :: "app \<Rightarrow> (bool \<times> app) option" where
  "Server_OnShutDown a = do {
     let sv = ap_server a;
     a1 \<leftarrow> each free_conn (sv_waiting sv) (put_server (sv\<lparr> sv_closed := dbq_swap (sv_closed sv) \<rparr>) a);
     a2 \<leftarrow> each free_conn (sv_active sv) a1;
     Some (True, put_server ((ap_server a2)\<lparr> sv_waiting := [], sv_active := [] \<rparr>) a2) }"

subsection \<open>Dispatching\<close>

definition SyncProcessConnClosed :: "env \<Rightarrow> ptr \<Rightarrow> app \<Rightarrow> app option" where
  "SyncProcessConnClosed E p a = do {
     c \<leftarrow> w_conns (ap_world a) p;
     ProcessConnClosed E p (put_conn p (Conn_Close c) a) }"

text \<open>The loop over one connection's packets: a keep-alive packet is not counted, so the loop goes on after
  it; any other packet ends the loop (\<open>PROCESS_PACKET_COUNT_PER_LOOP\<close> is 1).  No \<open>GameServerService\<close> is
  registered, so a packet with an unknown opcode ends in \<open>HandleUnknowPacket\<close> of a null object, whose body
  is an assertion on its argument and touches nothing.\<close>

partial_function (option) dispatch_conn :: "env \<Rightarrow> ptr \<Rightarrow> packet \<Rightarrow> app \<Rightarrow> app option" where
  "dispatch_conn E p packet a = do {
     c \<leftarrow> w_conns (ap_world a) p;
     (n, packet1, c1) \<leftarrow> Conn_Read (env_heap E) packet c;
     let a1 = put_conn p c1 a;
     if n = 0 then Some a1
     else do {
       opcode \<leftarrow> GetOpcode packet1;
       if opcode = 3 then dispatch_conn E p packet1 (put_conn p (SetKeepAliveTime (w_now (ap_world a1)) c1) a1)
       else (case omap_find (d_rules (ap_dispatch a1)) (word_of_nat opcode) of
         None \<Rightarrow> Some a1
       | Some g \<Rightarrow> do {
           (request, _) \<leftarrow> FromPacketTranscode (Protobuf_new 0 []) packet1;
           svc_OnRecvPacket E g p request
             (a1\<lparr> ap_dispatch := BindConnToSerice p g (ap_dispatch a1) \<rparr>) }) } }"

definition Dispatcher_Update :: "env \<Rightarrow> app \<Rightarrow> app option" where
  "Dispatcher_Update E a = do {
     a1 \<leftarrow> ProcessConnections E a;
     each (\<lambda>p a. do { packet \<leftarrow> Packet_new (env_heap E); dispatch_conn E p packet a })
       (sv_active (ap_server a1)) a1 }"

text \<open>One round of the main loop, \<open>OurGameLoop::Update\<close> of \<open>runner/main.cpp\<close>; \<open>AccountService::Update\<close>
  ends in an empty function.\<close>

definition OurGameLoop_Update :: "env \<Rightarrow> app \<Rightarrow> app option" where
  "OurGameLoop_Update E a = do {
     a1 \<leftarrow> Dispatcher_Update E a;
     w \<leftarrow> Manager_Update E (ap_world a1);
     Some (a1\<lparr> ap_world := w \<rparr>) }"

end
