(* ===== verification/Quiet.thy ===== *)
theory Quiet
  imports Tcp_Server
begin

text \<open>
  What the room layer cannot do to connections: whatever a request does, it only appends to inboxes.
  This holds of every run that is defined, from any heap.
\<close>

definition conn_core :: "conn \<Rightarrow> conn" where
  "conn_core c = c\<lparr> c_inbox := [] \<rparr>"

definition cores :: "world \<Rightarrow> ptr \<Rightarrow> conn option" where
  "cores w p = map_option conn_core (w_conns w p)"

definition quiet :: "world \<Rightarrow> world \<Rightarrow> bool" where
  "quiet w w' \<longleftrightarrow> cores w' = cores w \<and> w_now w' = w_now w \<and> w_next w \<le> w_next w'"

lemma quiet_refl [simp]: "quiet w w"
  by (simp add: quiet_def)

lemma quiet_trans [trans]: "quiet w w' \<Longrightarrow> quiet w' w'' \<Longrightarrow> quiet w w''"
  by (simp add: quiet_def)

lemma cores_put [simp]: "cores (put_room r rm w) = cores w" "cores (put_session s ss w) = cores w"
  "cores (w\<lparr> w_rooms := rs \<rparr>) = cores w" "cores (w\<lparr> w_manager := m \<rparr>) = cores w"
  "cores (w\<lparr> w_sessions := ss' \<rparr>) = cores w" "cores (w\<lparr> w_next := n \<rparr>) = cores w"
  by (simp_all add: cores_def fun_eq_iff)

lemma quiet_each:
  assumes "each f xs w = Some w'" "\<And>x w w'. f x w = Some w' \<Longrightarrow> quiet w w'"
  shows "quiet w w'"
  using assms(1)
proof (induction xs arbitrary: w)
  case (Cons x xs)
  then obtain w1 where w1: "f x w = Some w1" "each f xs w1 = Some w'" by (auto split: Option.bind_splits)
  show ?case by (rule quiet_trans[OF assms(2)[OF w1(1)] Cons.IH[OF w1(2)]])
qed simp

lemma Conn_Write_core: "Conn_Write H m c = Some c' \<Longrightarrow> conn_core c' = conn_core c"
  by (auto simp: Conn_Write_def Conn_Write_data_def Conn_PostMessage_def conn_core_def split: if_splits Option.bind_splits)

lemma quiet_send: "send E op body s w = Some w' \<Longrightarrow> quiet w w'"
  by (auto simp: send_def SendTranscode_def quiet_def cores_def fun_eq_iff Conn_Write_core
      split: Option.bind_splits option.splits)

lemma quiet_SendError: "SendErrorToClient E s code x d w = Some w' \<Longrightarrow> quiet w w'"
  by (simp add: SendErrorToClient_def quiet_send)

lemma quiet_SetRoom: "SetRoom s r w = Some w' \<Longrightarrow> quiet w w'"
  by (auto simp: SetRoom_def quiet_def split: Option.bind_splits)

lemma quiet_Room_BroadCast: "Room_BroadCast E r op body w = Some w' \<Longrightarrow> quiet w w'"
  by (auto simp: Room_BroadCast_def split: Option.bind_splits intro: quiet_each quiet_send)

lemma quiet_lists:
  "BroadCastPlayerList E r w = Some w' \<Longrightarrow> quiet w w'"
  "SyncPlayerList E r s w = Some w' \<Longrightarrow> quiet w w'"
  "SyncShapeObjectInfo E r s w = Some w' \<Longrightarrow> quiet w w'"
  by (auto simp: BroadCastPlayerList_def SyncPlayerList_def SyncShapeObjectInfo_def
      split: Option.bind_splits if_splits intro: quiet_Room_BroadCast quiet_send)

lemma quiet_EnterRoom: "EnterRoom E r s w = Some w' \<Longrightarrow> quiet w w'"
  by (auto simp: quiet_def EnterRoom_def Let_def split: Option.bind_splits if_splits
      dest!: quiet_SetRoom quiet_lists(1,3))

lemma quiet_LeaveRoom: "LeaveRoom E r s w = Some w' \<Longrightarrow> quiet w w'"
  by (auto simp: quiet_def LeaveRoom_def Let_def split: Option.bind_splits if_splits
      dest!: quiet_SetRoom quiet_lists(1,3))

lemma quiet_ForceDeleteRoom: "ForceDeleteRoom E r w = Some w' \<Longrightarrow> quiet w w'"
proof -
  have "ForceDelete_step E r it w = Some w' \<Longrightarrow> quiet w w'" for it w w'
    by (auto simp: quiet_def ForceDelete_step_def split: Option.bind_splits dest!: quiet_LeaveRoom quiet_SendError)
  then show "ForceDeleteRoom E r w = Some w' \<Longrightarrow> quiet w w'"
    by (fastforce simp: ForceDeleteRoom_def quiet_def split: Option.bind_splits dest!: quiet_each)
qed

lemma quiet_PlayerAddShape: "PlayerAddShape E r s request w = Some (n, w') \<Longrightarrow> quiet w w'"
  by (auto simp: quiet_def PlayerAddShape_def split: Option.bind_splits prod.splits bool.splits
      dest!: quiet_Room_BroadCast quiet_SendError)

lemma quiet_PlayerRemoveShape: "PlayerRemoveShape E r s request w = Some (n, w') \<Longrightarrow> quiet w w'"
  by (auto simp: quiet_def PlayerRemoveShape_def Let_def split: Option.bind_splits prod.splits bool.splits option.splits
      dest!: quiet_Room_BroadCast quiet_SendError)

lemma quiet_BroadCastRoomList: "BroadCastRoomList E w = Some w' \<Longrightarrow> quiet w w'"
  by (auto simp: BroadCastRoomList_def intro: quiet_each quiet_Room_BroadCast)

lemma quiet_CopyRoom: "CopyRoom src des w = Some (r, w') \<Longrightarrow> quiet w w'"
  by (auto simp: quiet_def CopyRoom_def split: Option.bind_splits)

lemma quiet_Manager:
  "Manager_AskRoomList E s w = Some w' \<Longrightarrow> quiet w w'"
  "Manager_CreateRoom E key s w = Some w' \<Longrightarrow> quiet w w'"
  "Manager_EnterRoom E key s w = Some w' \<Longrightarrow> quiet w w'"
  "Manager_DeleteRoom E key s w = Some w' \<Longrightarrow> quiet w w'"
  "Manager_CopyRoom E src des s w = Some w' \<Longrightarrow> quiet w w'"
  "Manager_SyncPlayerList E key s w = Some w' \<Longrightarrow> quiet w w'"
proof -
  show "Manager_AskRoomList E s w = Some w' \<Longrightarrow> quiet w w'"
    by (simp add: Manager_AskRoomList_def quiet_send)
  show "Manager_CreateRoom E key s w = Some w' \<Longrightarrow> quiet w w'"
    by (auto simp: quiet_def Manager_CreateRoom_def CreateRoom_def split: Option.bind_splits option.splits
        dest!: quiet_BroadCastRoomList quiet_SendError)
  show "Manager_EnterRoom E key s w = Some w' \<Longrightarrow> quiet w w'"
    by (auto simp: quiet_def Manager_EnterRoom_def split: Option.bind_splits option.splits
        dest!: quiet_EnterRoom quiet_SendError)
  show "Manager_DeleteRoom E key s w = Some w' \<Longrightarrow> quiet w w'"
    by (auto simp: quiet_def Manager_DeleteRoom_def split: Option.bind_splits option.splits
        dest!: quiet_ForceDeleteRoom quiet_SendError)
  show "Manager_CopyRoom E src des s w = Some w' \<Longrightarrow> quiet w w'"
    by (auto simp: quiet_def Manager_CopyRoom_def split: Option.bind_splits option.splits if_splits
        dest!: quiet_CopyRoom quiet_BroadCastRoomList quiet_SendError)
  show "Manager_SyncPlayerList E key s w = Some w' \<Longrightarrow> quiet w w'"
    by (auto simp: quiet_def Manager_SyncPlayerList_def split: option.splits dest!: quiet_lists(2) quiet_SendError)
qed

lemma quiet_Player:
  "PlayerEnterRoom E key s w = Some w' \<Longrightarrow> quiet w w'"
  "PlayerLeaveRoom E s w = Some w' \<Longrightarrow> quiet w w'"
  by (auto simp: quiet_def PlayerEnterRoom_def PlayerLeaveRoom_def split: Option.bind_splits option.splits
      dest!: quiet_LeaveRoom quiet_Manager(3) quiet_SendError)

lemma quiet_switch: "RoomOperate_switch E ty src des s w = Some w' \<Longrightarrow> quiet w w'"
  by (auto simp: RoomOperate_switch_def split: if_splits dest: quiet_Manager quiet_Player)

lemma quiet_HandleRoomOperate: "HandleRoomOperate E s request w = Some (n, w') \<Longrightarrow> quiet w w'"
  by (auto simp: quiet_def HandleRoomOperate_def Let_def split: Option.bind_splits prod.splits if_splits
      dest!: quiet_switch quiet_SendError)

lemma quiet_HandleShapes:
  "HandleAddShape E s request w = Some (n, w') \<Longrightarrow> quiet w w'"
  "HandleRemoveShape E s request w = Some (n, w') \<Longrightarrow> quiet w w'"
  by (auto simp: quiet_def HandleAddShape_def HandleRemoveShape_def split: Option.bind_splits option.splits
      dest!: quiet_PlayerAddShape quiet_PlayerRemoveShape quiet_SendError)

lemma quiet_HandleRequest: "HandleRequest E s opcode request w = Some (n, w') \<Longrightarrow> quiet w w'"
  by (auto simp: HandleRequest_def split: if_splits dest: quiet_HandleRoomOperate quiet_HandleShapes)

lemma quiet_Destroy: "DestroyPlayerSession E s w = Some w' \<Longrightarrow> quiet w w'"
  by (auto simp: quiet_def DestroyPlayerSession_def split: Option.bind_splits dest!: quiet_Player(2))

lemma quiet_Manager_Update: "Manager_Update E w = Some w' \<Longrightarrow> quiet w w'"
proof -
  have "Manager_Update_step E it w = Some w' \<Longrightarrow> quiet w w'" for it w w'
    by (auto simp: quiet_def Manager_Update_step_def split: Option.bind_splits if_splits
        dest!: quiet_BroadCastRoomList)
  then show "Manager_Update E w = Some w' \<Longrightarrow> quiet w w'"
    by (auto simp: Manager_Update_def intro: quiet_each)
qed

end
