(* ===== verification/App_Inv.thy ===== *)
theory App_Inv
  imports Quiet Connection_Props
begin

text \<open>
  The invariant of the whole process with one version of the account service: connections move from the
  accept queue to the active set to the list of those waiting to be freed, and every player session
  belongs to an active connection, under that connection's session id.
\<close>

subsection \<open>The invariant\<close>

definition sid_of :: "app \<Rightarrow> ptr \<Rightarrow> string" where
  "sid_of a p = (case w_conns (ap_world a) p of None \<Rightarrow> [] | Some c \<Rightarrow> c_session_id c)"

definition active :: "app \<Rightarrow> ptr set" where
  "active a = set (sv_active (ap_server a))"

text \<open>The part of a connection its life depends on.\<close>

definition conn_view :: "conn \<Rightarrow> bool \<times> nat \<times> nat \<times> bool \<times> bool \<times> string" where
  "conn_view c = (c_closing c, c_notices c, c_uv_closes c, c_running c, c_uv_reading c, c_session_id c)"

definition view :: "app \<Rightarrow> ptr \<Rightarrow> (bool \<times> nat \<times> nat \<times> bool \<times> bool \<times> string) option" where
  "view a p = map_option conn_view (w_conns (ap_world a) p)"

definition open_conn :: "bool \<Rightarrow> conn \<Rightarrow> bool" where
  "open_conn noticed c \<longleftrightarrow> life_ok c \<and> \<not> c_closing c \<and> c_session_id c \<noteq> [] \<and> (c_notices c = 1 \<longleftrightarrow> noticed)"

definition shut_conn :: "conn \<Rightarrow> bool" where
  "shut_conn c \<longleftrightarrow> life_ok c \<and> c_closing c"

definition open_at :: "bool \<Rightarrow> app \<Rightarrow> ptr \<Rightarrow> bool" where
  "open_at noticed a p = (case w_conns (ap_world a) p of None \<Rightarrow> False | Some c \<Rightarrow> open_conn noticed c)"

definition shut_at :: "app \<Rightarrow> ptr \<Rightarrow> bool" where
  "shut_at a p = (case w_conns (ap_world a) p of None \<Rightarrow> False | Some c \<Rightarrow> shut_conn c)"

text \<open>\<open>N\<close> is what waits to become active, \<open>C\<close> the closed connections not yet processed.\<close>

definition lists_inv :: "ptr list \<Rightarrow> ptr list \<Rightarrow> app \<Rightarrow> bool" where
  "lists_inv N C a \<longleftrightarrow> distinct N \<and> distinct C \<and> distinct (sv_waiting (ap_server a)) \<and> oset_ok (sv_active (ap_server a))
     \<and> set N \<inter> active a = {} \<and> (set N \<union> active a) \<inter> set (sv_waiting (ap_server a)) = {} \<and> set C \<subseteq> set N \<union> active a
     \<and> (\<forall>p\<in>set N \<union> active a. open_at (p \<in> set C) a p)
     \<and> (\<forall>p\<in>set (sv_waiting (ap_server a)). shut_at a p)"

definition queues_ok :: "app \<Rightarrow> bool" where
  "queues_ok a \<longleftrightarrow> dbq_ok (sv_new (ap_server a)) \<and> dbq_size (sv_new (ap_server a)) = 0
     \<and> dbq_ok (sv_closed (ap_server a)) \<and> dbq_size (sv_closed (ap_server a)) = 0"

definition lists_ok :: "app \<Rightarrow> bool" where
  "lists_ok a \<longleftrightarrow> queues_ok a \<and> lists_inv (dbq_content (sv_new (ap_server a))) (dbq_content (sv_closed (ap_server a))) a"

definition sids_ok :: "app \<Rightarrow> bool" where
  "sids_ok a \<longleftrightarrow> (\<forall>p q. sid_of a p \<noteq> [] \<and> sid_of a p = sid_of a q \<longrightarrow> p = q)
     \<and> (\<forall>p. sid_of a p \<noteq> [] \<longrightarrow> (\<exists>i addr. i \<le> ap_sids a \<and> sid_of a p = addr @ CHR '':'' # dec_digits i))"

text \<open>The tables of the players, where the connections of \<open>X\<close> are being taken out of use.\<close>

definition players_but :: "ptr set \<Rightarrow> app \<Rightarrow> (string \<times> ptr) list \<Rightarrow> (string \<times> ptr) list \<Rightarrow> bool" where
  "players_but X a cs m \<longleftrightarrow> omap_ok m \<and> omap_ok cs
     \<and> (\<forall>sid s. omap_find m sid = Some s \<longrightarrow> (\<exists>p. omap_find cs sid = Some p \<and> conn_of (ap_world a) s = Some p
          \<and> sid_of a p = sid \<and> (p \<notin> X \<longrightarrow> p \<in> active a \<and> omap_find (d_bound (ap_dispatch a)) p \<noteq> None)))
     \<and> (\<forall>sid. omap_find m sid = None \<longrightarrow> omap_find cs sid = None)
     \<and> (\<forall>s. w_sessions (ap_world a) s \<noteq> None \<longleftrightarrow> (\<exists>sid. omap_find m sid = Some s))"

definition tables_ok :: "app \<Rightarrow> bool" where
  "tables_ok a \<longleftrightarrow> (\<forall>op g. omap_find (d_rules (ap_dispatch a)) op = Some g \<longrightarrow> g = ap_account_at a)
     \<and> (\<forall>p gs. omap_find (d_bound (ap_dispatch a)) p = Some gs \<longrightarrow> gs = [ap_account_at a] \<and> p \<in> active a)
     \<and> (\<exists>n\<in>set (ap_orders a). LocateGameService a n = Some (ap_account_at a))"

definition sole_version :: "app \<Rightarrow> string \<Rightarrow> pimpl \<Rightarrow> (string \<times> ptr) list \<Rightarrow> bool" where
  "sole_version a v pi m \<longleftrightarrow> ac_pimpls (ap_account a) = [(v, pi)] \<and> pi_sessions pi = Some m"

definition acct_but :: "ptr set \<Rightarrow> app \<Rightarrow> bool" where
  "acct_but X a \<longleftrightarrow> tables_ok a \<and> (\<exists>v pi m. sole_version a v pi m \<and> players_but X a (pi_conns pi) m)"

definition base_but :: "ptr set \<Rightarrow> app \<Rightarrow> bool" where
  "base_but X a \<longleftrightarrow> world_ok (ap_world a) \<and> sids_ok a \<and> acct_but X a"

abbreviation base_ok :: "app \<Rightarrow> bool" where
  "base_ok \<equiv> base_but {}"

definition app_inv :: "app \<Rightarrow> bool" where
  "app_inv a \<longleftrightarrow> base_ok a \<and> lists_ok a"

subsection \<open>What the invariant depends on\<close>

text \<open>A change of the rest keeps it: the frame of an operation.\<close>

definition same_frame :: "app \<Rightarrow> app \<Rightarrow> bool" where
  "same_frame a a' \<longleftrightarrow> view a' = view a \<and> ap_server a' = ap_server a \<and> ap_account_at a' = ap_account_at a
     \<and> ap_services a' = ap_services a \<and> ap_orders a' = ap_orders a \<and> ap_sids a' = ap_sids a"

lemma same_frame_refl [simp]: "same_frame a a"
  by (simp add: same_frame_def)

lemma same_frame_trans: "same_frame a b \<Longrightarrow> same_frame b c \<Longrightarrow> same_frame a c"
  by (simp add: same_frame_def)

lemma conn_view_props:
  "conn_view c' = conn_view c \<Longrightarrow> open_conn b c' = open_conn b c"
  "conn_view c' = conn_view c \<Longrightarrow> shut_conn c' = shut_conn c"
  "conn_view c' = conn_view c \<Longrightarrow> c_session_id c' = c_session_id c"
  by (simp_all add: conn_view_def open_conn_def shut_conn_def life_ok_def)

lemma view_sid: "view a' = view a \<Longrightarrow> sid_of a' = sid_of a"
proof
  fix p assume "view a' = view a"
  from fun_cong[OF this, of p] show "sid_of a' p = sid_of a p"
    by (auto simp: sid_of_def view_def conn_view_def split: option.splits)
qed

lemma view_cases:
  assumes "view a' = view a"
  obtains "w_conns (ap_world a') p = None" "w_conns (ap_world a) p = None"
  | c' c where "w_conns (ap_world a') p = Some c'" "w_conns (ap_world a) p = Some c" "conn_view c' = conn_view c"
  using fun_cong[OF assms, of p]
  by (cases "w_conns (ap_world a') p"; cases "w_conns (ap_world a) p") (auto simp: view_def)

lemma view_live: "view a' = view a \<Longrightarrow> w_conns (ap_world a') p = None \<longleftrightarrow> w_conns (ap_world a) p = None"
  by (erule view_cases[of a' a p]) (simp_all only: simp_thms option.distinct)

lemma view_at:
  assumes "view a' = view a"
  shows "open_at b a' p = open_at b a p" "shut_at a' p = shut_at a p"
proof -
  have "open_at b a' p = open_at b a p \<and> shut_at a' p = shut_at a p"
  proof (rule view_cases[OF assms, of p])
    fix c' c assume c: "w_conns (ap_world a') p = Some c'" "w_conns (ap_world a) p = Some c" "conn_view c' = conn_view c"
    show ?thesis by (simp add: open_at_def shut_at_def c(1,2) conn_view_props(1,2)[OF c(3)])
  qed (simp add: open_at_def shut_at_def)
  then show "open_at b a' p = open_at b a p" "shut_at a' p = shut_at a p" by auto
qed

lemma lists_inv_frame:
  assumes "same_frame a a'" "lists_inv N C a"
  shows "lists_inv N C a'"
proof -
  have sv: "ap_server a' = ap_server a" "active a' = active a" and v: "view a' = view a"
    using assms(1) by (simp_all add: same_frame_def active_def)
  show ?thesis using assms(2) unfolding lists_inv_def sv view_at[OF v] .
qed

lemma sids_frame: "same_frame a a' \<Longrightarrow> sids_ok a \<Longrightarrow> sids_ok a'"
  unfolding sids_ok_def same_frame_def by (metis view_sid)

text \<open>The player tables under a change of sessions that keeps who there is and whose connection it is.\<close>

lemma acct_frame:
  assumes "same_frame a a'" "ap_account a' = ap_account a" "ap_dispatch a' = ap_dispatch a"
    "conn_of (ap_world a') = conn_of (ap_world a)"
    "\<And>s. w_sessions (ap_world a') s = None \<longleftrightarrow> w_sessions (ap_world a) s = None" "acct_but X a"
  shows "acct_but X a'"
proof -
  have s: "sid_of a' = sid_of a" "active a' = active a" "ap_services a' = ap_services a"
    "ap_account_at a' = ap_account_at a" "ap_orders a' = ap_orders a"
    using assms(1) view_sid[of a' a] by (simp_all add: same_frame_def active_def)
  have "LocateGameService a' = LocateGameService a" unfolding LocateGameService_def s(3,4) ..
  note eqs = this s assms(2-5)
  show ?thesis using assms(6)
    unfolding acct_but_def tables_ok_def players_but_def sole_version_def eqs .
qed

lemma base_frame:
  assumes "same_frame a a'" "ap_account a' = ap_account a" "ap_dispatch a' = ap_dispatch a"
    "conn_of (ap_world a') = conn_of (ap_world a)"
    "\<And>s. w_sessions (ap_world a') s = None \<longleftrightarrow> w_sessions (ap_world a) s = None" "world_ok (ap_world a')" "base_but X a"
  shows "base_but X a'"
  using assms(6,7) sids_frame[OF assms(1)] acct_frame[OF assms(1-5)] by (simp add: base_but_def)

end
