(* ===== verification/Account_Props.thy ===== *)
theory Account_Props
  imports App_Inv
begin

text \<open>
  The account service on a well-formed process: requests, new sessions, closed connections.
\<close>

subsection \<open>Sessions come and go\<close>

definition add_session :: "session \<Rightarrow> world \<Rightarrow> world" where
  "add_session ss w = w\<lparr> w_sessions := (w_sessions w)(w_next w \<mapsto> ss), w_next := w_next w + 1 \<rparr>"

definition drop_session :: "ptr \<Rightarrow> world \<Rightarrow> world" where
  "drop_session s w = w\<lparr> w_sessions := (w_sessions w)(s := None) \<rparr>"

lemma session_fields [simp]:
  "w_conns (add_session ss w) = w_conns w" "w_rooms (add_session ss w) = w_rooms w"
  "w_manager (add_session ss w) = w_manager w" "w_now (add_session ss w) = w_now w"
  "w_sessions (add_session ss w) = (w_sessions w)(w_next w \<mapsto> ss)" "w_next (add_session ss w) = Suc (w_next w)"
  "w_conns (drop_session s w) = w_conns w" "w_rooms (drop_session s w) = w_rooms w"
  "w_manager (drop_session s w) = w_manager w" "w_now (drop_session s w) = w_now w"
  "w_sessions (drop_session s w) = (w_sessions w)(s := None)" "w_next (drop_session s w) = w_next w"
  "members (add_session ss w) = members w" "members (drop_session s w) = members w"
  "room_of (add_session ss w) = (room_of w)(w_next w := s_room ss)" "room_of (drop_session s w) = (room_of w)(s := None)"
  "conn_of (add_session ss w) = (conn_of w)(w_next w := s_conn ss)" "conn_of (drop_session s w) = (conn_of w)(s := None)"
  by (simp_all add: add_session_def drop_session_def members_def room_of_def conn_of_def fun_eq_iff)

lemma world_ok_add_session:
  assumes "world_ok w" "s_room ss = None" "s_conn ss = Some p" "w_conns w p \<noteq> None"
  shows "world_ok (add_session ss w)"
proof -
  have none: "room_of w (w_next w) = None"
    using assms(1) by (simp add: world_ok_def fresh_ok_def room_of_def)
  have "conns_live (add_session ss w)" using assms by (auto simp: world_ok_def conns_live_def)
  moreover have "members_ok (add_session ss w)"
    using assms(2) none by (auto simp: members_ok_def members_iff[OF assms(1)])
  moreover have "fresh_ok (add_session ss w)" using assms(1) by (simp add: world_ok_def fresh_ok_def)
  ultimately show ?thesis using assms(1) by (simp add: world_ok_def manager_ok_def)
qed

lemma world_ok_drop_session:
  assumes "world_ok w" "room_of w s = None"
  shows "world_ok (drop_session s w)"
proof -
  have "conns_live (drop_session s w)" using assms(1) by (auto simp: world_ok_def conns_live_def)
  moreover have "members_ok (drop_session s w)"
    using assms(2) by (auto simp: members_ok_def members_iff[OF assms(1)])
  moreover have "fresh_ok (drop_session s w)" using assms(1) by (simp add: world_ok_def fresh_ok_def)
  ultimately show ?thesis using assms(1) by (simp add: world_ok_def manager_ok_def)
qed

lemma PlayerLeaveRoom_out:
  assumes "heap_ok (env_heap E)" "world_ok w" "w_sessions w s \<noteq> None"
  shows "\<exists>w'. PlayerLeaveRoom E s w = Some w' \<and> evolves w w' \<and> room_of w' = (room_of w)(s := None)
    \<and> w_manager w' = w_manager w"
proof -
  obtain ss where ss: "w_sessions w s = Some ss" using assms(3) by auto
  show ?thesis
  proof (cases "s_room ss")
    case None
    let ?w1 = "post (frame_bytes ProtoBuff_Error_Info (cd_ser_error (env_codec E)
      (error_num Shape_Leave_When_not_In_Room) (opcode_num ProtoBuff_Room_Operate) ERROR_NOT_IN_ROOM)) (conn_of w s) w"
    have "GetRemoteAddress ?w1 s \<noteq> None" using assms(2,3) by (intro GetRemoteAddress_defined) simp_all
    then show ?thesis using None ss SendError_post[OF assms] assms(2)
      by (auto simp: PlayerLeaveRoom_def room_of_def fun_eq_iff)
  next
    case (Some r)
    obtain rm where rm: "w_rooms w r = Some rm" using room_ofD[OF assms(2) ss Some] by blast
    note lv = LeaveRoom_eq[OF assms(1,2) rm ss Some] evolves_left[OF assms(1,2) rm ss Some]
      left_room_membership[OF ss Some, of E rm]
    have "w_sessions (left_room E r rm s ss w) s \<noteq> None" using lv(6) by simp
    from SendError_post[OF assms(1) lv(2) this] show ?thesis using Some ss lv
      by (simp add: PlayerLeaveRoom_def)
  qed
qed

lemma DestroyPlayerSession_out:
  assumes "heap_ok (env_heap E)" "world_ok w" "w_sessions w s \<noteq> None"
  shows "\<exists>w'. DestroyPlayerSession E s w = Some w' \<and> world_ok w' \<and> quiet w w'
    \<and> conn_of w' = (conn_of w)(s := None) \<and> room_of w' = (room_of w)(s := None)
    \<and> (\<forall>t. w_sessions w' t = None \<longleftrightarrow> t = s \<or> w_sessions w t = None) \<and> w_manager w' = w_manager w"
proof -
  obtain w1 where w1: "PlayerLeaveRoom E s w = Some w1" "evolves w w1" "room_of w1 = (room_of w)(s := None)"
    "w_manager w1 = w_manager w"
    using PlayerLeaveRoom_out[OF assms] by blast
  have "DestroyPlayerSession E s w = Some (drop_session s w1)"
    using w1(1) by (simp add: DestroyPlayerSession_def drop_session_def)
  moreover have "world_ok (drop_session s w1)" using w1(2,3) by (intro world_ok_drop_session) (simp_all add: evolves_def)
  moreover have "conn_of w1 = conn_of w" "\<And>t. w_sessions w1 t = None \<longleftrightarrow> w_sessions w t = None"
    using w1(2) by (simp_all add: evolves_def)
  ultimately show ?thesis using w1(3,4) quiet_Destroy[of E s w "drop_session s w1"] by auto
qed

subsection \<open>Requests\<close>

lemma quiet_frame:
  assumes "quiet (ap_world a) w'"
  shows "same_frame a (a\<lparr> ap_world := w' \<rparr>)"
proof -
  have "map_option conn_view (w_conns w' p) = map_option conn_view (w_conns (ap_world a) p)" for p
  proof -
    have "map_option conn_core (w_conns w' p) = map_option conn_core (w_conns (ap_world a) p)"
      using assms by (simp add: quiet_def cores_def fun_eq_iff)
    moreover have "conn_view c = conn_view (conn_core c)" for c by (simp add: conn_view_def conn_core_def)
    ultimately show ?thesis by (metis (mono_tags, lifting) option.map_comp option.map_cong0 o_apply)
  qed
  then show ?thesis by (simp add: same_frame_def view_def fun_eq_iff)
qed

lemma base_world:
  assumes "base_but X a" "quiet (ap_world a) w'" "evolves (ap_world a) w'"
  shows "base_but X (a\<lparr> ap_world := w' \<rparr>)"
  by (rule base_frame[OF quiet_frame[OF assms(2)]]) (use assms(1,3) in \<open>simp_all add: evolves_def\<close>)

lemma app_GetSessionId_known:
  assumes "sid_of a p \<noteq> []"
  shows "app_GetSessionId p a = Some (sid_of a p, a)"
proof -
  obtain c where c: "w_conns (ap_world a) p = Some c" "c_session_id c \<noteq> []"
    using assms by (auto simp: sid_of_def split: option.splits)
  have "a\<lparr> ap_sids := ap_sids a, ap_world := (ap_world a)\<lparr> w_conns := (w_conns (ap_world a))(p \<mapsto> c) \<rparr> \<rparr> = a"
    by (simp add: fun_upd_idem[of "w_conns (ap_world a)", OF c(1)])
  with c show ?thesis by (simp add: app_GetSessionId_def GetSessionId_def sid_of_def)
qed

lemma base_okD:
  assumes "base_but X a"
  shows "world_ok (ap_world a)" "sids_ok a" "tables_ok a"
  using assms by (simp_all add: base_but_def acct_but_def)

lemma base_but_players:
  assumes "base_but X a" "sole_version a v pi m"
  shows "players_but X a (pi_conns pi) m"
proof -
  obtain v' pi' m' where p: "sole_version a v' pi' m'" "players_but X a (pi_conns pi') m'"
    using assms(1) unfolding base_but_def acct_but_def by blast
  moreover from p(1) assms(2) have "m' = m \<and> pi' = pi" by (auto simp: sole_version_def)
  ultimately show ?thesis by simp
qed

lemma playersE:
  assumes "players_but X a cs m" "omap_find m sid = Some s"
  obtains p where "omap_find cs sid = Some p" "conn_of (ap_world a) s = Some p" "sid_of a p = sid"
    "p \<notin> X \<longrightarrow> p \<in> active a \<and> omap_find (d_bound (ap_dispatch a)) p \<noteq> None"
  using assms unfolding players_but_def by blast

lemma players_live:
  "players_but X a cs m \<Longrightarrow> w_sessions (ap_world a) s \<noteq> None \<longleftrightarrow> (\<exists>sid. omap_find m sid = Some s)"
  unfolding players_but_def by blast

lemma players_none: "players_but X a cs m \<Longrightarrow> omap_find m sid = None \<Longrightarrow> omap_find cs sid = None"
  unfolding players_but_def by blast

lemma players_sid:
  assumes "players_but X a cs m" "omap_find m sid = Some s" "omap_find m sid' = Some s"
  shows "sid = sid'"
proof -
  obtain p where "conn_of (ap_world a) s = Some p" "sid_of a p = sid" using playersE[OF assms(1,2)] by blast
  moreover obtain q where "conn_of (ap_world a) s = Some q" "sid_of a q = sid'" using playersE[OF assms(1,3)] by blast
  ultimately show ?thesis by simp
qed

lemma sids_unique: "sids_ok a \<Longrightarrow> sid_of a p \<noteq> [] \<Longrightarrow> sid_of a p = sid_of a q \<Longrightarrow> p = q"
  unfolding sids_ok_def by blast

lemma Pimpl_OnRecvPacket_keeps:
  assumes "Pimpl_OnRecvPacket E v p request a = Some (b, a')" "heap_ok (env_heap E)" "base_ok a"
    "sole_version a v pi m" "sid_of a p \<noteq> []"
  shows "base_ok a' \<and> same_frame a a' \<and> ap_dispatch a' = ap_dispatch a \<and> ap_account a' = ap_account a"
proof -
  have pi: "pimpl_of a v = Some pi" "pi_sessions pi = Some m"
    using assms(4) by (simp_all add: sole_version_def pimpl_of_def)
  show ?thesis
  proof (cases "pi_can_login pi \<and> omap_find m (sid_of a p) \<noteq> None")
    case False
    then have "a' = a" using assms(1) pi app_GetSessionId_known[OF assms(5)]
      by (auto simp: Pimpl_OnRecvPacket_def GetPlayerSessionBySessionId_def split: if_splits)
    then show ?thesis using assms(3) by simp
  next
    case True
    then obtain s where s: "omap_find m (sid_of a p) = Some s" by auto
    obtain n w' where w': "HandleRequest E s (unat (pb_opcode request)) request (ap_world a) = Some (n, w')"
      "a' = a\<lparr> ap_world := w' \<rparr>"
      using assms(1) pi True s app_GetSessionId_known[OF assms(5)]
      by (auto simp: Pimpl_OnRecvPacket_def GetPlayerSessionBySessionId_def split: Option.bind_splits)
    have "w_sessions (ap_world a) s \<noteq> None"
      using players_live[OF base_but_players[OF assms(3,4)]] s by blast
    then have "evolves (ap_world a) w'"
      using HandleRequest_outcome[OF assms(2) base_okD(1)[OF assms(3)]] w'(1) by blast
    with base_world[OF assms(3) quiet_HandleRequest[OF w'(1)]] quiet_frame[OF quiet_HandleRequest[OF w'(1)]] w'(2)
    show ?thesis by simp
  qed
qed


lemma players_but_shrink:
  assumes "players_but X a cs m" "\<And>s p. p \<in> X \<Longrightarrow> conn_of (ap_world a) s \<noteq> Some p"
  shows "players_but {} a cs m"
proof -
  have "\<exists>p. omap_find cs sid = Some p \<and> conn_of (ap_world a) s = Some p \<and> sid_of a p = sid
      \<and> (p \<notin> {} \<longrightarrow> p \<in> active a \<and> omap_find (d_bound (ap_dispatch a)) p \<noteq> None)"
    if "omap_find m sid = Some s" for sid s
    using playersE[OF assms(1) that] assms(2) by (metis option.inject)
  then show ?thesis using assms(1) by (simp add: players_but_def)
qed

lemma base_but_weaken:
  assumes "base_ok a"
  shows "base_but X a"
proof -
  have "players_but X a cs m" if pl: "players_but {} a cs m" for cs m
  proof -
    have "\<exists>p. omap_find cs sid = Some p \<and> conn_of (ap_world a) s = Some p \<and> sid_of a p = sid
        \<and> (p \<notin> X \<longrightarrow> p \<in> active a \<and> omap_find (d_bound (ap_dispatch a)) p \<noteq> None)"
      if m: "omap_find m sid = Some s" for sid s
      using playersE[OF pl m] by blast
    then show ?thesis using pl by (simp add: players_but_def)
  qed
  then show ?thesis using assms unfolding base_but_def acct_but_def by blast
qed

subsection \<open>New sessions\<close>

lemma put_pimpl_fields [simp]:
  "ap_world (put_pimpl v pi a) = ap_world a" "ap_server (put_pimpl v pi a) = ap_server a"
  "ap_dispatch (put_pimpl v pi a) = ap_dispatch a" "ap_sids (put_pimpl v pi a) = ap_sids a"
  "ap_account_at (put_pimpl v pi a) = ap_account_at a" "ap_services (put_pimpl v pi a) = ap_services a"
  "ap_orders (put_pimpl v pi a) = ap_orders a" "sid_of (put_pimpl v pi a) = sid_of a"
  "active (put_pimpl v pi a) = active a"
  by (simp_all add: put_pimpl_def sid_of_def active_def fun_eq_iff)

lemma sole_put_pimpl:
  "sole_version a v pi m \<Longrightarrow> pi_sessions pi' = Some m' \<Longrightarrow> ap_account a' = ap_account a \<Longrightarrow> sole_version (put_pimpl v pi' a') v pi' m'"
  by (simp add: sole_version_def put_pimpl_def)

lemma Locate_cong:
  "ap_services b = ap_services a \<Longrightarrow> ap_account_at b = ap_account_at a \<Longrightarrow> LocateGameService b = LocateGameService a"
  by (rule ext) (simp only: LocateGameService_def)

text \<open>New tables with the rest in place.\<close>

lemma base_but_put:
  assumes "base_but X a" "sole_version a v pi m" "same_frame a b" "ap_account b = ap_account a" "ap_dispatch b = ap_dispatch a"
    "world_ok (ap_world b)" "pi_sessions pi' = Some m'" "players_but Y (put_pimpl v pi' b) (pi_conns pi') m'"
  shows "base_but Y (put_pimpl v pi' b)" "same_frame a (put_pimpl v pi' b)"
proof -
  show frame: "same_frame a (put_pimpl v pi' b)"
    using assms(3) by (simp add: same_frame_def view_def fun_eq_iff)
  have "tables_ok (put_pimpl v pi' b)"
    using base_okD(3)[OF assms(1)] assms(3,5) Locate_cong[of "put_pimpl v pi' b" a]
    by (simp add: tables_ok_def same_frame_def active_def)
  then show "base_but Y (put_pimpl v pi' b)"
    using assms sids_frame[OF frame base_okD(2)[OF assms(1)]] sole_put_pimpl[OF assms(2,7,4)]
    by (auto simp: base_but_def acct_but_def)
qed

lemma AddTcpConnection_keeps:
  assumes "AddTcpConnection v p a = Some a'" "base_ok a" "sole_version a v pi m" "sid_of a p \<noteq> []"
    "p \<in> active a" "omap_find (d_bound (ap_dispatch a)) p \<noteq> None" "w_conns (ap_world a) p \<noteq> None"
  shows "base_ok a' \<and> same_frame a a' \<and> ap_dispatch a' = ap_dispatch a \<and> (\<exists>pi m. sole_version a' v pi m)"
proof -
  let ?sid = "sid_of a p" and ?w = "ap_world a"
  have pi: "pimpl_of a v = Some pi" "pi_sessions pi = Some m"
    using assms(3) by (simp_all add: sole_version_def pimpl_of_def)
  note pl = base_but_players[OF assms(2,3)] and wok = base_okD(1)[OF assms(2)]
  show ?thesis
  proof (cases "omap_find m ?sid")
    case None
    let ?s = "w_next ?w" and ?ss = "Session_new\<lparr> s_id := ?sid, s_conn := Some p \<rparr>"
    let ?pi = "pi\<lparr> pi_conns := omap_put ?sid p (pi_conns pi), pi_sessions := Some (omap_put ?sid (w_next ?w) m) \<rparr>"
    let ?b = "a\<lparr> ap_world := add_session ?ss ?w \<rparr>"
    have a': "a' = put_pimpl v ?pi ?b"
      using assms(1) None pi app_GetSessionId_known[OF assms(4)]
      by (cases ?w) (simp add: AddTcpConnection_def AddPlayerSession_def CreatePlayerSession_def put_session_def add_session_def)
    have frame: "same_frame a ?b" by (simp add: same_frame_def view_def fun_eq_iff)
    have wok': "world_ok (add_session ?ss ?w)"
      by (rule world_ok_add_session[OF wok]) (use assms(7) in \<open>simp_all add: Session_new_def\<close>)
    have fresh: "w_sessions ?w ?s = None" using wok by (simp add: world_ok_def fresh_ok_def)
    then have new: "omap_find m sid \<noteq> Some ?s" for sid using players_live[OF pl, of ?s] by blast
    have "players_but {} (put_pimpl v ?pi ?b) (pi_conns ?pi) (omap_put ?sid ?s m)"
      unfolding players_but_def
    proof (intro conjI allI impI)
      fix sid s assume s: "omap_find (omap_put ?sid ?s m) sid = Some s"
      show "\<exists>q. omap_find (pi_conns ?pi) sid = Some q \<and> conn_of (ap_world (put_pimpl v ?pi ?b)) s = Some q
          \<and> sid_of (put_pimpl v ?pi ?b) q = sid \<and> (q \<notin> {} \<longrightarrow> q \<in> active (put_pimpl v ?pi ?b)
          \<and> omap_find (d_bound (ap_dispatch (put_pimpl v ?pi ?b))) q \<noteq> None)"
      proof (cases "sid = ?sid")
        case True
        then show ?thesis using s assms(5,6) by (auto simp: sid_of_def active_def)
      next
        case False
        then have m: "omap_find m sid = Some s" using s by simp
        from playersE[OF pl m] obtain q where q: "omap_find (pi_conns pi) sid = Some q" "conn_of ?w s = Some q"
          "sid_of a q = sid" "q \<notin> {} \<longrightarrow> q \<in> active a \<and> omap_find (d_bound (ap_dispatch a)) q \<noteq> None" .
        have "s \<noteq> ?s" using new m by blast
        with q False show ?thesis by (auto simp: sid_of_def active_def)
      qed
    next
      show "omap_ok (omap_put ?sid ?s m)" "omap_ok (pi_conns ?pi)" using pl by (simp_all add: players_but_def)
    next
      fix sid assume "omap_find (omap_put ?sid ?s m) sid = None"
      then show "omap_find (pi_conns ?pi) sid = None" using players_none[OF pl] by (auto split: if_splits)
    next
      fix s show "w_sessions (ap_world (put_pimpl v ?pi ?b)) s \<noteq> None \<longleftrightarrow> (\<exists>sid. omap_find (omap_put ?sid ?s m) sid = Some s)"
        using players_live[OF pl, of s] None unfolding omap_find_put
        by (cases "s = ?s") (simp, metis fun_upd_apply option.distinct(1) option.inject,
            simp, metis option.distinct(1))
    qed
    then show ?thesis unfolding a'
      using base_but_put[OF assms(2,3) frame, of ?pi "omap_put ?sid ?s m" "{}"] wok'
        sole_put_pimpl[OF assms(3), of ?pi "omap_put ?sid ?s m" ?b] by auto
  next
    case (Some s)
    from playersE[OF pl Some] obtain q where q: "omap_find (pi_conns pi) ?sid = Some q" "conn_of ?w s = Some q"
      "sid_of a q = ?sid" by blast
    have "q = p" using sids_unique[OF base_okD(2)[OF assms(2)], of q p] q(3) assms(4) by simp
    obtain ss where ss: "w_sessions ?w s = Some ss" "s_conn ss = Some p"
      using q(2) \<open>q = p\<close> by (auto simp: conn_of_def split: Option.bind_splits)
    let ?pi = "pi\<lparr> pi_conns := omap_put ?sid p (pi_conns pi), pi_sessions := Some m \<rparr>"
    have "put_session s (ss\<lparr> s_conn := Some p \<rparr>) ?w = ?w"
      using ss by (cases ?w; cases ss) (simp add: put_session_def fun_upd_idem)
    then have a': "a' = put_pimpl v ?pi a"
      using assms(1) Some pi ss app_GetSessionId_known[OF assms(4)]
      by (simp add: AddTcpConnection_def AddPlayerSession_def)
    have find: "omap_find (omap_put ?sid p (pi_conns pi)) = omap_find (pi_conns pi)"
      using q(1) \<open>q = p\<close> by (simp add: fun_upd_idem)
    have "players_but {} (put_pimpl v ?pi a) (pi_conns ?pi) m"
    proof -
      have "players_but {} (put_pimpl v ?pi a) (omap_put ?sid p (pi_conns pi)) m"
        using pl unfolding players_but_def find by simp
      then show ?thesis by simp
    qed
    then show ?thesis unfolding a'
      using base_but_put[OF assms(2,3) same_frame_refl, of ?pi m "{}"] wok sole_put_pimpl[OF assms(3), of ?pi m a] by auto
  qed
qed

subsection \<open>Closed connections\<close>

text \<open>The session of a closed connection is destroyed: it leaves its room and both maps.\<close>

lemma Account_OnConnClosed_keeps:
  assumes "heap_ok (env_heap E)" "base_but {p} a" "sid_of a p \<noteq> []"
  shows "\<exists>b a'. Account_OnConnClosed E p a = Some (b, a') \<and> base_ok a' \<and> same_frame a a' \<and> ap_dispatch a' = ap_dispatch a
    \<and> (\<forall>s. w_sessions (ap_world a') s = None \<longleftrightarrow> w_sessions (ap_world a) s = None \<or> conn_of (ap_world a) s = Some p)
    \<and> (\<forall>s. conn_of (ap_world a') s \<noteq> Some p)
    \<and> (\<forall>s. conn_of (ap_world a) s \<noteq> Some p \<longrightarrow> room_of (ap_world a') s = room_of (ap_world a) s
          \<and> conn_of (ap_world a') s = conn_of (ap_world a) s)"
proof -
  let ?sid = "sid_of a p" and ?w = "ap_world a"
  obtain v pi m where v: "sole_version a v pi m" using assms(2) unfolding base_but_def acct_but_def by blast
  have pi: "pimpl_of a v = Some pi" "pi_sessions pi = Some m" "map fst (ac_pimpls (ap_account a)) = [v]"
    using v by (simp_all add: sole_version_def pimpl_of_def)
  note pl = base_but_players[OF assms(2) v] and wok = base_okD(1)[OF assms(2)]
  have mine: "s' = s" if "omap_find m ?sid = Some s" "conn_of ?w s' = Some p" "w_sessions ?w s' \<noteq> None" for s s'
  proof -
    note h = that
    obtain sid' where sid': "omap_find m sid' = Some s'" using players_live[OF pl, of s'] h(3) by blast
    then obtain q where "conn_of ?w s' = Some q" "sid_of a q = sid'" using playersE[OF pl] by blast
    then have "sid' = ?sid" using h(2) by simp
    then show ?thesis using sid' h(1) by simp
  qed
  have conn_live: "w_sessions ?w s \<noteq> None" if "conn_of ?w s = Some q" for s q
    using that by (auto simp: conn_of_def split: Option.bind_splits)
  have other: "q \<noteq> p" if "omap_find m sid = Some s" "conn_of ?w s = Some q" "sid \<noteq> ?sid" for sid s q
    using playersE[OF pl that(1)] that(2,3) by (metis option.inject)
  show ?thesis
  proof (cases "omap_find m ?sid")
    case None
    have res: "Account_OnConnClosed E p a = Some (True, a)"
      using None pi players_none[OF pl None] app_GetSessionId_known[OF assms(3)]
      by (simp add: Account_OnConnClosed_def Pimpl_OnConnClosed_def RemoveTcpConnection_def)
    have no: "conn_of ?w s \<noteq> Some p" for s
    proof
      assume c: "conn_of ?w s = Some p"
      then obtain sid where sid: "omap_find m sid = Some s" using players_live[OF pl, of s] conn_live by blast
      then have "sid = ?sid" using other[OF sid c] by blast
      then show False using sid None by simp
    qed
    have "players_but {} a (pi_conns pi) m"
      by (rule players_but_shrink[OF pl]) (use no in auto)
    then have "base_ok a" using assms(2) v by (auto simp: base_but_def acct_but_def)
    then show ?thesis using res no by auto
  next
    case (Some s)
    obtain q where q: "omap_find (pi_conns pi) ?sid = Some q" "conn_of ?w s = Some q" "sid_of a q = ?sid"
      using playersE[OF pl Some] by blast
    have "q = p" using sids_unique[OF base_okD(2)[OF assms(2)], of q p] q(3) assms(3) by simp
    note q = q[unfolded \<open>q = p\<close>]
    have live: "w_sessions ?w s \<noteq> None" using conn_live[OF q(2)] .
    obtain w' where w': "DestroyPlayerSession E s ?w = Some w'" "world_ok w'" "quiet ?w w'"
      "conn_of w' = (conn_of ?w)(s := None)" "room_of w' = (room_of ?w)(s := None)"
      "\<forall>t. w_sessions w' t = None \<longleftrightarrow> t = s \<or> w_sessions ?w t = None"
      using DestroyPlayerSession_out[OF assms(1) wok live] by blast
    let ?pi = "pi\<lparr> pi_conns := omap_erase ?sid (pi_conns pi), pi_sessions := Some (omap_erase ?sid m) \<rparr>"
    let ?b = "a\<lparr> ap_world := w' \<rparr>"
    have res: "Account_OnConnClosed E p a = Some (True, put_pimpl v ?pi ?b)"
      using Some pi q(1) app_GetSessionId_known[OF assms(3)] w'(1)
      by (simp add: Account_OnConnClosed_def Pimpl_OnConnClosed_def RemoveTcpConnection_def RemovePlayerSession_def)
    have frame: "same_frame a ?b" by (rule quiet_frame[OF w'(3)])
    have sids: "sid_of ?b = sid_of a" using frame view_sid[of ?b a] by (simp add: same_frame_def)
    have "players_but {} (put_pimpl v ?pi ?b) (omap_erase ?sid (pi_conns pi)) (omap_erase ?sid m)"
      unfolding players_but_def
    proof (intro conjI allI impI)
      fix sid t assume "omap_find (omap_erase ?sid m) sid = Some t"
      then have t: "sid \<noteq> ?sid" "omap_find m sid = Some t" by (auto split: if_splits)
      then have "t \<noteq> s" using players_sid[OF pl _ Some] by blast
      obtain q' where q': "omap_find (pi_conns pi) sid = Some q'" "conn_of ?w t = Some q'" "sid_of a q' = sid"
        "q' \<notin> {p} \<longrightarrow> q' \<in> active a \<and> omap_find (d_bound (ap_dispatch a)) q' \<noteq> None"
        using playersE[OF pl t(2)] by blast
      have "q' \<noteq> p" by (rule other[OF t(2) q'(2) t(1)])
      with q' t(1) \<open>t \<noteq> s\<close> show "\<exists>q. omap_find (omap_erase ?sid (pi_conns pi)) sid = Some q
          \<and> conn_of (ap_world (put_pimpl v ?pi ?b)) t = Some q \<and> sid_of (put_pimpl v ?pi ?b) q = sid
          \<and> (q \<notin> {} \<longrightarrow> q \<in> active (put_pimpl v ?pi ?b) \<and> omap_find (d_bound (ap_dispatch (put_pimpl v ?pi ?b))) q \<noteq> None)"
        by (auto simp: sids w'(4) active_def)
    next
      show "omap_ok (omap_erase ?sid m)" "omap_ok (omap_erase ?sid (pi_conns pi))"
        using pl by (simp_all add: players_but_def)
    next
      fix sid assume "omap_find (omap_erase ?sid m) sid = None"
      then show "omap_find (omap_erase ?sid (pi_conns pi)) sid = None"
        using players_none[OF pl, of sid] by (auto split: if_splits)
    next
      fix t
      have "(\<exists>sid. omap_find (omap_erase ?sid m) sid = Some t) \<longleftrightarrow> t \<noteq> s \<and> (\<exists>sid. omap_find m sid = Some t)"
      proof -
        have "omap_find (omap_erase ?sid m) sid = Some t \<longleftrightarrow> t \<noteq> s \<and> omap_find m sid = Some t" for sid
          using Some players_sid[OF pl _ Some, of sid] by (cases "sid = ?sid") auto
        then show ?thesis by blast
      qed
      then show "w_sessions (ap_world (put_pimpl v ?pi ?b)) t \<noteq> None \<longleftrightarrow> (\<exists>sid. omap_find (omap_erase ?sid m) sid = Some t)"
        using players_live[OF pl, of t] w'(6) by auto
    qed
    then have "base_ok (put_pimpl v ?pi ?b)" "same_frame a (put_pimpl v ?pi ?b)"
      using base_but_put[OF assms(2) v frame, of ?pi "omap_erase ?sid m" "{}"] w'(2) by auto
    moreover have "w_sessions w' t = None \<longleftrightarrow> w_sessions ?w t = None \<or> conn_of ?w t = Some p" for t
    proof (cases "t = s")
      case True
      have "w_sessions w' s = None" using w'(6) by simp
      with q(2) show ?thesis unfolding True by (simp only: simp_thms)
    next
      case False
      then have "conn_of ?w t \<noteq> Some p" using mine[OF Some, of t] conn_live[of t p] by blast
      then show ?thesis using w'(6)[rule_format, of t] False by (simp only: simp_thms)
    qed
    moreover have "conn_of w' t \<noteq> Some p" for t
    proof (cases "t = s")
      case False
      then have "conn_of ?w t \<noteq> Some p" using mine[OF Some, of t] conn_live[of t p] by blast
      then show ?thesis using False by (simp add: w'(4))
    qed (simp add: w'(4))
    moreover have "room_of w' t = room_of ?w t \<and> conn_of w' t = conn_of ?w t" if "conn_of ?w t \<noteq> Some p" for t
      using that w'(4,5) q(2) by auto
    ultimately show ?thesis using res by auto
  qed
qed

end
