(* ===== verification/App_Loop.thy ===== *)
theory App_Loop
  imports Account_Props
begin

text \<open>
  The main loop keeps the invariant of the process, and its handling of accepted and closed connections is
  always defined.
\<close>

subsection \<open>Frames\<close>

lemma each_keeps:
  assumes "each f xs a = Some a'" "I a" "\<And>x a a'. x \<in> set xs \<Longrightarrow> I a \<Longrightarrow> f x a = Some a' \<Longrightarrow> I a'"
  shows "I a'"
  using assms
proof (induction xs arbitrary: a)
  case (Cons x xs)
  then obtain a1 where a1: "f x a = Some a1" "each f xs a1 = Some a'" by (auto split: Option.bind_splits)
  have "I a1" using Cons.prems(3)[of x a a1] Cons.prems(2) a1(1) by simp
  then show ?case
  proof (rule Cons.IH[OF a1(2)])
    fix y b b' assume "y \<in> set xs" "I b" "f y b = Some b'"
    then show "I b'" using Cons.prems(3)[of y b b'] by simp
  qed
qed simp

lemma world_ok_put_conn:
  assumes "world_ok w" "w_conns w p \<noteq> None"
  shows "world_ok (w\<lparr> w_conns := (w_conns w)(p \<mapsto> c) \<rparr>)"
  using assms by (auto simp: world_defs room_of_def members_def)

lemma put_conn_fields [simp]:
  "w_conns (ap_world (put_conn p c a)) = (w_conns (ap_world a))(p \<mapsto> c)" "ap_server (put_conn p c a) = ap_server a"
  "ap_account (put_conn p c a) = ap_account a" "ap_dispatch (put_conn p c a) = ap_dispatch a"
  "ap_sids (put_conn p c a) = ap_sids a" "ap_account_at (put_conn p c a) = ap_account_at a"
  "ap_services (put_conn p c a) = ap_services a" "ap_orders (put_conn p c a) = ap_orders a"
  "w_sessions (ap_world (put_conn p c a)) = w_sessions (ap_world a)" "conn_of (ap_world (put_conn p c a)) = conn_of (ap_world a)"
  "room_of (ap_world (put_conn p c a)) = room_of (ap_world a)" "w_now (ap_world (put_conn p c a)) = w_now (ap_world a)"
  "active (put_conn p c a) = active a" "w_next (ap_world (put_conn p c a)) = w_next (ap_world a)"
  by (simp_all add: put_conn_def conn_of_def room_of_def active_def fun_eq_iff)

text \<open>A connection changes, but not what its life depends on.\<close>

lemma put_conn_frame:
  assumes "w_conns (ap_world a) p = Some c" "conn_view c' = conn_view c"
  shows "same_frame a (put_conn p c' a)"
  using assms by (simp add: same_frame_def view_def fun_eq_iff)

lemma put_conn_base:
  assumes "w_conns (ap_world a) p = Some c" "conn_view c' = conn_view c" "base_but X a"
  shows "base_but X (put_conn p c' a)"
proof (rule base_frame[OF put_conn_frame[OF assms(1,2)] _ _ _ _ _ assms(3)])
  show "world_ok (ap_world (put_conn p c' a))"
    using assms(1) base_okD(1)[OF assms(3)] by (simp add: put_conn_def world_ok_put_conn)
qed simp_all

lemma lists_frame: "same_frame a a' \<Longrightarrow> lists_ok a \<Longrightarrow> lists_ok a'"
  using lists_inv_frame[of a a'] by (simp add: lists_ok_def queues_ok_def same_frame_def)

lemma lists_inv_active:
  assumes "lists_inv N C a" "p \<in> active a"
  obtains c where "w_conns (ap_world a) p = Some c" "open_conn (p \<in> set C) c" "sid_of a p \<noteq> []"
proof -
  have "open_at (p \<in> set C) a p" using assms unfolding lists_inv_def by blast
  then show thesis using that by (auto simp: open_at_def sid_of_def open_conn_def split: option.splits)
qed

lemma players_mono:
  assumes "players_but X a cs m" "ap_world b = ap_world a" "active a \<subseteq> active b"
    "\<And>p. omap_find (d_bound (ap_dispatch a)) p \<noteq> None \<Longrightarrow> omap_find (d_bound (ap_dispatch b)) p \<noteq> None"
  shows "players_but X b cs m"
proof -
  have sid: "sid_of b = sid_of a" by (simp add: sid_of_def assms(2) fun_eq_iff)
  have "\<exists>p. omap_find cs sid = Some p \<and> conn_of (ap_world b) s = Some p \<and> sid_of b p = sid
      \<and> (p \<notin> X \<longrightarrow> p \<in> active b \<and> omap_find (d_bound (ap_dispatch b)) p \<noteq> None)"
    if m: "omap_find m sid = Some s" for sid s
  proof -
    obtain p where "omap_find cs sid = Some p" "conn_of (ap_world a) s = Some p" "sid_of a p = sid"
      "p \<notin> X \<longrightarrow> p \<in> active a \<and> omap_find (d_bound (ap_dispatch a)) p \<noteq> None"
      using playersE[OF assms(1) m] by blast
    then show ?thesis using assms(3,4) unfolding assms(2) sid by blast
  qed
  then show ?thesis using assms(1,2) by (simp add: players_but_def)
qed

subsection \<open>Dispatching\<close>

lemma Conn_Read_view: "Conn_Read H packet c = Some (n, packet', c') \<Longrightarrow> conn_view c' = conn_view c"
  by (auto simp: Conn_Read_def Conn_Read_data_def BufCat_def Conn_PostMessage_def conn_view_def Let_def
      split: Option.bind_splits prod.splits option.splits if_splits)

lemma bind_keeps:
  assumes "base_ok a" "p \<in> active a" "b = a\<lparr> ap_dispatch := BindConnToSerice p (ap_account_at a) (ap_dispatch a) \<rparr>"
  shows "base_ok b" "same_frame a b" "omap_find (d_bound (ap_dispatch b)) p \<noteq> None"
proof -
  let ?g = "ap_account_at a"
  have t: "tables_ok a" by (rule base_okD(3)[OF assms(1)])
  have "oset_insert ?g (field_or [] (omap_find (d_bound (ap_dispatch a)) p)) = [?g]"
  proof (cases "omap_find (d_bound (ap_dispatch a)) p")
    case (Some gs)
    then have "gs = [?g]" using t unfolding tables_ok_def by blast
    with Some show ?thesis by (simp add: field_or_def)
  qed (simp add: field_or_def)
  then have bd: "d_bound (ap_dispatch b) = omap_put p [?g] (d_bound (ap_dispatch a))"
    "d_rules (ap_dispatch b) = d_rules (ap_dispatch a)" by (simp_all add: assms(3) BindConnToSerice_def)
  show frame: "same_frame a b" by (simp add: assms(3) same_frame_def view_def fun_eq_iff)
  have loc: "LocateGameService b = LocateGameService a" by (rule Locate_cong) (simp_all add: assms(3))
  have eqs: "active b = active a" "sid_of b = sid_of a" "LocateGameService b = LocateGameService a"
    "ap_world b = ap_world a" "ap_orders b = ap_orders a" "ap_account_at b = ap_account_at a"
    using loc by (simp_all add: assms(3) active_def sid_of_def fun_eq_iff)
  have "tables_ok b" using t assms(2) unfolding tables_ok_def eqs bd by simp
  moreover obtain v pi m where v: "sole_version a v pi m" "players_but {} a (pi_conns pi) m"
    using assms(1) unfolding base_but_def acct_but_def by blast
  moreover have "players_but {} b (pi_conns pi) m"
    by (rule players_mono[OF v(2)]) (simp_all add: eqs bd)
  moreover have "sole_version b v pi m" using v(1) by (simp add: assms(3) sole_version_def)
  ultimately show "base_ok b"
    using assms(1) sids_frame[OF frame] unfolding base_but_def acct_but_def eqs by auto
  show "omap_find (d_bound (ap_dispatch b)) p \<noteq> None" unfolding bd by simp
qed

lemma svc_OnRecvPacket_keeps:
  assumes "svc_OnRecvPacket E g p request a = Some a'" "heap_ok (env_heap E)" "base_ok a" "sid_of a p \<noteq> []"
    "p \<in> active a" "omap_find (d_bound (ap_dispatch a)) p \<noteq> None" "w_conns (ap_world a) p \<noteq> None"
  shows "base_ok a' \<and> same_frame a a'"
proof -
  obtain v pi m where v: "sole_version a v pi m" using assms(3) unfolding base_but_def acct_but_def by blast
  then have "map fst (ac_pimpls (ap_account a)) = [v]" by (simp add: sole_version_def)
  then obtain a1 b where a1: "AddTcpConnection v p a = Some a1" "Pimpl_OnRecvPacket E v p request a1 = Some (b, a')"
    using assms(1) by (auto simp: svc_OnRecvPacket_def Account_OnRecvPacket_def split: if_splits Option.bind_splits)
  from AddTcpConnection_keeps[OF a1(1) assms(3) v assms(4-7)] obtain pi' m' where
    k: "base_ok a1" "same_frame a a1" "sole_version a1 v pi' m'" by blast
  have "sid_of a1 p \<noteq> []" using assms(4) k(2) view_sid[of a1 a] by (simp add: same_frame_def)
  from Pimpl_OnRecvPacket_keeps[OF a1(2) assms(2) k(1,3) this] same_frame_trans[OF k(2)] show ?thesis by blast
qed

lemma dispatch_conn_keeps:
  "dispatch_conn E p packet a = Some a' \<Longrightarrow> heap_ok (env_heap E) \<and> base_ok a \<and> lists_ok a \<and> p \<in> active a
     \<longrightarrow> base_ok a' \<and> same_frame a a'"
proof (erule dispatch_conn.raw_induct[rotated], intro impI, elim conjE, goal_cases)
  case (1 dispatch E p packet a a')
  obtain c where c: "w_conns (ap_world a) p = Some c" "sid_of a p \<noteq> []"
    using lists_inv_active[OF _ 1(6)] 1(5) unfolding lists_ok_def by blast
  obtain n packet1 c1 where rd: "Conn_Read (env_heap E) packet c = Some (n, packet1, c1)"
    using 1(2) c(1) by (auto split: Option.bind_splits)
  note vw = Conn_Read_view[OF rd]
  let ?a1 = "put_conn p c1 a"
  have k1: "base_ok ?a1" "same_frame a ?a1" "lists_ok ?a1" "p \<in> active ?a1"
    using put_conn_base[OF c(1) vw] put_conn_frame[OF c(1) vw] lists_frame 1(3-6) by auto
  have sid1: "sid_of ?a1 p \<noteq> []" using k1(2) c(2) view_sid[of ?a1 a] by (simp add: same_frame_def)
  show ?case
  proof (cases "n = 0")
    case True
    then show ?thesis using 1(2) c(1) rd k1 by simp
  next
    case False
    then obtain opcode where op: "GetOpcode packet1 = Some opcode"
      using 1(2) c(1) rd by (auto simp: Let_def split: Option.bind_splits)
    show ?thesis
    proof (cases "opcode = 3")
      case True
      let ?c2 = "SetKeepAliveTime (w_now (ap_world ?a1)) c1"
      have v2: "w_conns (ap_world ?a1) p = Some c1" "conn_view ?c2 = conn_view c1"
        by (simp_all add: SetKeepAliveTime_def conn_view_def)
      have "dispatch E p packet1 (put_conn p ?c2 ?a1) = Some a'"
        using 1(2) c(1) rd False op True by simp
      from 1(1)[OF this] 1(3) put_conn_base[OF v2 k1(1)] lists_frame[OF put_conn_frame[OF v2] k1(3)] k1(4)
        same_frame_trans[OF same_frame_trans[OF k1(2) put_conn_frame[OF v2]]]
      show ?thesis by auto
    next
      case no3: False
      show ?thesis
      proof (cases "omap_find (d_rules (ap_dispatch ?a1)) (word_of_nat opcode)")
        case None
        then have "a' = ?a1" using 1(2) c(1) rd False op no3 by simp
        then show ?thesis using k1 by simp
      next
        case (Some g)
        then have g: "g = ap_account_at ?a1" using base_okD(3)[OF k1(1)] by (simp add: tables_ok_def)
        let ?a2 = "?a1\<lparr> ap_dispatch := BindConnToSerice p g (ap_dispatch ?a1) \<rparr>"
        obtain request pk where "svc_OnRecvPacket E g p request ?a2 = Some a'"
          using 1(2) c(1) rd False op no3 Some by (auto simp: Let_def split: Option.bind_splits)
        moreover note b = bind_keeps[OF k1(1,4) refl, folded g]
        moreover have "sid_of ?a2 p \<noteq> []" "p \<in> active ?a2" "w_conns (ap_world ?a2) p \<noteq> None"
          using sid1 k1(4) by (simp_all add: sid_of_def active_def)
        ultimately have "base_ok a' \<and> same_frame ?a2 a'" using svc_OnRecvPacket_keeps 1(3) by blast
        then show ?thesis using same_frame_trans[OF k1(2) same_frame_trans[OF b(2)]] by blast
      qed
    qed
  qed
qed

subsection \<open>Accepted and closed connections\<close>

lemma put_server_fields [simp]:
  "ap_world (put_server sv a) = ap_world a" "ap_server (put_server sv a) = sv" "ap_account (put_server sv a) = ap_account a"
  "ap_dispatch (put_server sv a) = ap_dispatch a" "ap_sids (put_server sv a) = ap_sids a"
  "ap_account_at (put_server sv a) = ap_account_at a" "ap_services (put_server sv a) = ap_services a"
  "ap_orders (put_server sv a) = ap_orders a" "active (put_server sv a) = set (sv_active sv)"
  "sid_of (put_server sv a) = sid_of a" "open_at b (put_server sv a) = open_at b a" "shut_at (put_server sv a) = shut_at a"
  by (simp_all add: put_server_def active_def sid_of_def open_at_def shut_at_def fun_eq_iff)

lemma base_server:
  assumes "base_but X a" "active a \<subseteq> set (sv_active sv)"
  shows "base_but X (put_server sv a)"
proof -
  have "LocateGameService (put_server sv a) = LocateGameService a" by (rule Locate_cong) simp_all
  then have "tables_ok (put_server sv a)"
    using base_okD(3)[OF assms(1)] assms(2) by (auto simp: tables_ok_def)
  moreover obtain v pi m where v: "sole_version a v pi m" "players_but X a (pi_conns pi) m"
    using assms(1) unfolding base_but_def acct_but_def by blast
  moreover have "players_but X (put_server sv a) (pi_conns pi) m"
    by (rule players_mono[OF v(2)]) (use assms(2) in simp_all)
  moreover have "sole_version (put_server sv a) v pi m" using v(1) by (simp add: sole_version_def)
  ultimately show ?thesis using assms(1) by (auto simp: base_but_def acct_but_def sids_ok_def)
qed

lemma set_fold_insert: "set (fold oset_insert ps A) = set ps \<union> set A" "oset_ok A \<Longrightarrow> oset_ok (fold oset_insert ps A)"
  by (induction ps arbitrary: A) auto

lemma ProcessNew_ok:
  assumes "app_inv a"
  shows "\<exists>a'. ProcessNew a = Some a' \<and> app_inv a' \<and> dbq_content (sv_new (ap_server a')) = []
    \<and> dbq_content (sv_closed (ap_server a')) = dbq_content (sv_closed (ap_server a)) \<and> ap_world a' = ap_world a"
proof -
  let ?sv = "ap_server a"
  have q: "queues_ok a" and inv: "lists_inv (dbq_content (sv_new ?sv)) (dbq_content (sv_closed ?sv)) a" and base: "base_ok a"
    using assms by (simp_all add: app_inv_def lists_ok_def)
  obtain q' where q': "drain dbq_pop (dbq_swap (sv_new ?sv)) = Some (dbq_content (sv_new ?sv), q')" "dbq_ok q'"
    "dbq_content q' = []" "dbq_size q' = 0"
    using dbq_swap_drain[of "sv_new ?sv"] q by (auto simp: queues_ok_def)
  let ?sv' = "?sv\<lparr> sv_new := q', sv_active := fold oset_insert (dbq_content (sv_new ?sv)) (sv_active ?sv) \<rparr>"
  have "ProcessNew a = Some (put_server ?sv' a)" using q'(1) by (simp add: ProcessNew_def Let_def)
  moreover have "lists_inv [] (dbq_content (sv_closed ?sv)) (put_server ?sv' a)"
    using inv by (simp add: lists_inv_def set_fold_insert active_def)
  moreover have "base_ok (put_server ?sv' a)"
    by (rule base_server[OF base]) (simp add: set_fold_insert active_def)
  moreover have "queues_ok (put_server ?sv' a)" using q q'(2,4) by (simp add: queues_ok_def)
  ultimately show ?thesis using q'(3) by (simp add: app_inv_def lists_ok_def)
qed

text \<open>Every name in the list of services is asked; the account service is among them.\<close>

lemma notify_loop:
  assumes "heap_ok (env_heap E)" "base_but {p} a" "sid_of a p \<noteq> []"
  shows "\<exists>a'. each (notify_closed E p [ap_account_at a]) ns a = Some a' \<and> base_but {p} a' \<and> same_frame a a'
    \<and> ap_dispatch a' = ap_dispatch a
    \<and> ((\<exists>n\<in>set ns. LocateGameService a n = Some (ap_account_at a)) \<or> base_ok a \<and> (\<forall>s. conn_of (ap_world a) s \<noteq> Some p)
        \<longrightarrow> base_ok a' \<and> (\<forall>s. conn_of (ap_world a') s \<noteq> Some p))
    \<and> (\<forall>s. w_sessions (ap_world a') s = None \<longleftrightarrow> w_sessions (ap_world a) s = None
          \<or> conn_of (ap_world a) s = Some p \<and> (\<exists>n\<in>set ns. LocateGameService a n = Some (ap_account_at a)))
    \<and> (\<forall>s. conn_of (ap_world a) s \<noteq> Some p \<longrightarrow> room_of (ap_world a') s = room_of (ap_world a) s
          \<and> conn_of (ap_world a') s = conn_of (ap_world a) s)"
  using assms(2,3)
proof (induction ns arbitrary: a)
  case Nil
  then show ?case by simp
next
  case (Cons n ns)
  show ?case
  proof (cases "LocateGameService a n")
    case None
    then have "notify_closed E p [ap_account_at a] n a = Some a" by (simp add: notify_closed_def)
    then show ?thesis using Cons.IH[OF Cons.prems] None by simp
  next
    case (Some g)
    then have g: "g = ap_account_at a" by (auto simp: LocateGameService_def split: option.splits if_splits)
    obtain b a1 where a1: "Account_OnConnClosed E p a = Some (b, a1)" "base_ok a1" "same_frame a a1" "ap_dispatch a1 = ap_dispatch a"
      "\<forall>s. w_sessions (ap_world a1) s = None \<longleftrightarrow> w_sessions (ap_world a) s = None \<or> conn_of (ap_world a) s = Some p"
      "\<forall>s. conn_of (ap_world a1) s \<noteq> Some p"
      "\<forall>s. conn_of (ap_world a) s \<noteq> Some p \<longrightarrow> room_of (ap_world a1) s = room_of (ap_world a) s
          \<and> conn_of (ap_world a1) s = conn_of (ap_world a) s"
      using Account_OnConnClosed_keeps[OF assms(1) Cons.prems] by blast
    have one: "notify_closed E p [ap_account_at a] n a = Some a1"
      using Some g a1(1) by (simp add: notify_closed_def svc_OnConnClosed_def)
    have at: "ap_account_at a1 = ap_account_at a" and sid: "sid_of a1 p \<noteq> []"
      using a1(3) Cons.prems(2) view_sid[of a1 a] by (simp_all add: same_frame_def)
    obtain a' where a': "each (notify_closed E p [ap_account_at a]) ns a1 = Some a'" "base_but {p} a'" "same_frame a1 a'"
      "ap_dispatch a' = ap_dispatch a1" "base_ok a' \<and> (\<forall>s. conn_of (ap_world a') s \<noteq> Some p)"
      "\<forall>s. w_sessions (ap_world a') s = None \<longleftrightarrow> w_sessions (ap_world a1) s = None"
      "\<forall>s. room_of (ap_world a') s = room_of (ap_world a1) s \<and> conn_of (ap_world a') s = conn_of (ap_world a1) s"
      using Cons.IH[OF base_but_weaken[OF a1(2)] sid] a1(2,6) unfolding at by blast
    have "each (notify_closed E p [ap_account_at a]) (n # ns) a = Some a'" using one a'(1) by simp
    moreover have "same_frame a a'" by (rule same_frame_trans[OF a1(3) a'(3)])
    moreover have "\<exists>n\<in>set (n # ns). LocateGameService a n = Some (ap_account_at a)" using Some g by simp
    ultimately show ?thesis using a' a1(4,5,7) by metis
  qed
qed

lemma sids_cong: "sid_of b = sid_of a \<Longrightarrow> ap_sids b = ap_sids a \<Longrightarrow> sids_ok b = sids_ok a"
  unfolding sids_ok_def by simp

text \<open>The connection leaves the active set, and the session that used it is gone.\<close>

lemma ProcessConnClosed_ok:
  assumes "heap_ok (env_heap E)" "base_ok a" "p \<in> active a" "sid_of a p \<noteq> []" "oset_ok (sv_active (ap_server a))"
  shows "\<exists>a'. ProcessConnClosed E p a = Some a' \<and> base_ok a' \<and> view a' = view a
    \<and> ap_server a' = (ap_server a)\<lparr> sv_active := oset_erase p (sv_active (ap_server a)) \<rparr>
    \<and> (\<forall>s. conn_of (ap_world a') s \<noteq> Some p)
    \<and> (\<forall>s. w_sessions (ap_world a') s = None \<longleftrightarrow> w_sessions (ap_world a) s = None \<or> conn_of (ap_world a) s = Some p)
    \<and> (\<forall>s. conn_of (ap_world a) s \<noteq> Some p \<longrightarrow> room_of (ap_world a') s = room_of (ap_world a) s)"
proof -
  let ?a1 = "put_server ((ap_server a)\<lparr> sv_active := oset_erase p (sv_active (ap_server a)) \<rparr>) a"
  let ?d = "ap_dispatch a"
  let ?a2 = "?a1\<lparr> ap_dispatch := ?d\<lparr> d_bound := omap_erase p (d_bound ?d) \<rparr> \<rparr>"
  obtain v pi m where v: "sole_version a v pi m" using assms(2) unfolding base_but_def acct_but_def by blast
  note pl = base_but_players[OF assms(2) v] and t = base_okD(3)[OF assms(2)]
  have eqs: "ap_world ?a2 = ap_world a" "active ?a2 = active a - {p}" "sid_of ?a2 = sid_of a" "view ?a2 = view a"
    "ap_orders ?a2 = ap_orders a" "ap_account_at ?a2 = ap_account_at a"
    by (simp_all add: active_def sid_of_def view_def put_server_def fun_eq_iff)
  have loc: "LocateGameService ?a2 = LocateGameService a" by (rule Locate_cong) simp_all
  have "tables_ok ?a2" using t unfolding tables_ok_def eqs loc by auto
  moreover have "players_but {p} ?a2 (pi_conns pi) m"
  proof -
    have "\<exists>q. omap_find (pi_conns pi) sid = Some q \<and> conn_of (ap_world ?a2) s = Some q \<and> sid_of ?a2 q = sid
        \<and> (q \<notin> {p} \<longrightarrow> q \<in> active ?a2 \<and> omap_find (d_bound (ap_dispatch ?a2)) q \<noteq> None)"
      if "omap_find m sid = Some s" for sid s
      using playersE[OF pl that] unfolding eqs by (auto simp: map_of_eq_None_iff[symmetric] simp del: map_of_eq_None_iff)
    then show ?thesis using pl by (simp add: players_but_def)
  qed
  moreover have "sole_version ?a2 v pi m" using v by (simp add: sole_version_def)
  moreover have "sids_ok ?a2" "world_ok (ap_world ?a2)"
    using base_okD[OF assms(2)] sids_cong[OF eqs(3)] eqs(1) by simp_all
  ultimately have but: "base_but {p} ?a2" unfolding base_but_def acct_but_def by blast
  show ?thesis
  proof (cases "omap_find (d_bound ?d) p")
    case None
    have no: "conn_of (ap_world a) s \<noteq> Some p" for s
    proof
      assume c: "conn_of (ap_world a) s = Some p"
      then have "w_sessions (ap_world a) s \<noteq> None" by (auto simp: conn_of_def split: Option.bind_splits)
      then obtain sid where "omap_find m sid = Some s" using players_live[OF pl] by blast
      then obtain q where "conn_of (ap_world a) s = Some q" "omap_find (d_bound ?d) q \<noteq> None"
        using playersE[OF pl] by blast
      then show False using c None by simp
    qed
    have same: "omap_erase p (d_bound ?d) = d_bound ?d"
      using None by (auto simp: omap_erase_def map_of_eq_None_iff intro!: filter_True)
    have "ProcessConnClosed E p a = Some ?a1" using None assms(3) by (simp add: ProcessConnClosed_def active_def)
    moreover have a12: "?a2 = ?a1" using same by simp
    moreover have "base_ok ?a1"
    proof -
      have "players_but {} ?a2 (pi_conns pi) m"
      proof (rule players_but_shrink[OF base_but_players[OF but]])
        show "sole_version ?a2 v pi m" using v by (simp add: sole_version_def)
        show "\<And>s q. q \<in> {p} \<Longrightarrow> conn_of (ap_world ?a2) s \<noteq> Some q" using no by simp
      qed
      moreover have "sole_version ?a2 v pi m" using v by (simp add: sole_version_def)
      ultimately have "base_ok ?a2" using but unfolding base_but_def acct_but_def by blast
      then show ?thesis using a12 by (simp only:)
    qed
    ultimately show ?thesis using no by (auto simp: view_def put_server_def)
  next
    case (Some gs)
    then have gs: "gs = [ap_account_at a]" using t unfolding tables_ok_def by blast
    have ex: "\<exists>n\<in>set (rev (ap_orders a)). LocateGameService ?a2 n = Some (ap_account_at ?a2)"
      using t unfolding tables_ok_def loc eqs by simp
    have "sid_of ?a2 p \<noteq> []" using assms(4) by (simp add: eqs)
    from notify_loop[OF assms(1) but this, of "rev (ap_orders a)"] ex obtain a' where a':
      "each (notify_closed E p [ap_account_at a]) (rev (ap_orders a)) ?a2 = Some a'" "base_ok a'" "same_frame ?a2 a'"
      "\<forall>s. conn_of (ap_world a') s \<noteq> Some p"
      "\<forall>s. w_sessions (ap_world a') s = None \<longleftrightarrow> w_sessions (ap_world a) s = None \<or> conn_of (ap_world a) s = Some p"
      "\<forall>s. conn_of (ap_world a) s \<noteq> Some p \<longrightarrow> room_of (ap_world a') s = room_of (ap_world a) s"
      unfolding eqs by blast
    have "ProcessConnClosed E p a = Some a'"
      using Some gs a'(1) assms(3) by (simp add: ProcessConnClosed_def active_def)
    moreover have "view a' = view a" "ap_server a' = (ap_server a)\<lparr> sv_active := oset_erase p (sv_active (ap_server a)) \<rparr>"
      using a'(3) eqs(4) by (simp_all add: same_frame_def)
    ultimately show ?thesis using a' by blast
  qed
qed

text \<open>The rest of a closed connection's handling: it is marked and waits to be freed.\<close>

lemma world_ok_change_conn:
  assumes "world_ok w" "\<And>p. w_conns w p = None \<longleftrightarrow> cs p = None"
  shows "world_ok (w\<lparr> w_conns := cs \<rparr>)"
  using assms by (auto simp: world_defs room_of_def members_def)

text \<open>Changing connections without touching session ids.\<close>

lemma base_conns:
  assumes "base_but X a" "ap_world b = (ap_world a)\<lparr> w_conns := cs \<rparr>" "\<And>p. w_conns (ap_world a) p = None \<longleftrightarrow> cs p = None"
    "sid_of b = sid_of a" "ap_server b = ap_server a" "ap_account b = ap_account a" "ap_dispatch b = ap_dispatch a"
    "ap_sids b = ap_sids a" "ap_account_at b = ap_account_at a" "ap_services b = ap_services a" "ap_orders b = ap_orders a"
  shows "base_but X b"
proof -
  have loc: "LocateGameService b = LocateGameService a" by (rule Locate_cong) (use assms in simp_all)
  have eqs: "active b = active a" "conn_of (ap_world b) = conn_of (ap_world a)" "w_sessions (ap_world b) = w_sessions (ap_world a)"
    using assms(2,5) by (simp_all add: active_def conn_of_def fun_eq_iff)
  have "world_ok (ap_world b)" unfolding assms(2) by (rule world_ok_change_conn[OF base_okD(1)[OF assms(1)] assms(3)])
  then show ?thesis using assms(1)
    unfolding base_but_def acct_but_def sids_ok_def tables_ok_def players_but_def sole_version_def assms(4-) loc eqs by blast
qed

lemma close_one_ok:
  assumes "heap_ok (env_heap E)" "base_ok a" "lists_inv [] (p # C) a"
  shows "\<exists>a'. close_one E p a = Some a' \<and> base_ok a' \<and> lists_inv [] C a'
    \<and> sv_new (ap_server a') = sv_new (ap_server a) \<and> sv_closed (ap_server a') = sv_closed (ap_server a)
    \<and> (\<forall>s. conn_of (ap_world a') s \<noteq> Some p)
    \<and> (\<forall>s. w_sessions (ap_world a') s = None \<longleftrightarrow> w_sessions (ap_world a) s = None \<or> conn_of (ap_world a) s = Some p)
    \<and> (\<forall>s. conn_of (ap_world a) s \<noteq> Some p \<longrightarrow> room_of (ap_world a') s = room_of (ap_world a) s)"
proof -
  have act: "p \<in> active a" using assms(3) by (auto simp: lists_inv_def)
  obtain c where c: "w_conns (ap_world a) p = Some c" "open_conn True c" "sid_of a p \<noteq> []"
    using lists_inv_active[OF assms(3) act] by auto
  have os: "oset_ok (sv_active (ap_server a))" using assms(3) by (simp add: lists_inv_def)
  obtain a1 where a1: "ProcessConnClosed E p a = Some a1" "base_ok a1" "view a1 = view a"
    "ap_server a1 = (ap_server a)\<lparr> sv_active := oset_erase p (sv_active (ap_server a)) \<rparr>"
    "\<forall>s. conn_of (ap_world a1) s \<noteq> Some p"
    "\<forall>s. w_sessions (ap_world a1) s = None \<longleftrightarrow> w_sessions (ap_world a) s = None \<or> conn_of (ap_world a) s = Some p"
    "\<forall>s. conn_of (ap_world a) s \<noteq> Some p \<longrightarrow> room_of (ap_world a1) s = room_of (ap_world a) s"
    using ProcessConnClosed_ok[OF assms(1,2) act c(3) os] by blast
  obtain c1 where c1: "w_conns (ap_world a1) p = Some c1" "conn_view c1 = conn_view c"
    using view_cases[OF a1(3), of p] c(1) by (metis option.distinct(1) option.inject)
  have op1: "open_conn True c1" using conn_view_props(1)[OF c1(2)] c(2) by simp
  let ?c2 = "Conn_OnClosed (w_now (ap_world a1)) c1" let ?a2 = "put_conn p ?c2 a1"
  let ?a3 = "put_server ((ap_server ?a2)\<lparr> sv_waiting := sv_waiting (ap_server ?a2) @ [p] \<rparr>) ?a2"
  have res: "close_one E p a = Some ?a3"
    using c(1,2) a1(1) c1(1) by (simp add: close_one_def IsClosed_def open_conn_def Let_def)
  have shut: "shut_conn ?c2" "c_session_id ?c2 = c_session_id c1"
    using op1 life_ok_ops(10)[of c1] by (auto simp: open_conn_def shut_conn_def Conn_OnClosed_def)
  have sid: "sid_of ?a2 = sid_of a1" using c1(1) shut(2) by (auto simp: sid_of_def fun_eq_iff)
  have b2: "base_ok ?a2"
    by (rule base_conns[OF a1(2), where cs = "(w_conns (ap_world a1))(p \<mapsto> ?c2)"])
      (use c1(1) sid in \<open>simp_all add: put_conn_def\<close>)
  have b3: "base_ok ?a3" by (rule base_server[OF b2]) (simp add: active_def)
  have at: "open_at b ?a2 q = open_at b a q" "shut_at ?a2 q = shut_at a q" if "q \<noteq> p" for b q
    using that view_at(1)[OF a1(3), of b q] view_at(2)[OF a1(3), of q] by (simp_all add: open_at_def shut_at_def)
  have act3: "active ?a3 = active a - {p}" using a1(4) by (simp add: active_def)
  have sv: "sv_waiting (ap_server ?a3) = sv_waiting (ap_server a) @ [p]"
    "sv_active (ap_server ?a3) = oset_erase p (sv_active (ap_server a))" by (simp_all add: a1(4))
  have "open_at (q \<in> set C) ?a2 q" if q: "q \<in> active a" "q \<noteq> p" for q
  proof -
    have "open_at (q \<in> set (p # C)) a q" using assms(3) q(1) unfolding lists_inv_def by blast
    then show ?thesis using q(2) by (simp add: at)
  qed
  moreover have "shut_at ?a2 q" if q: "q \<in> set (sv_waiting (ap_server a)) \<union> {p}" for q
  proof (cases "q = p")
    case True
    then show ?thesis using shut(1) by (simp add: shut_at_def)
  next
    case False
    then have "shut_at a q" using assms(3) q unfolding lists_inv_def by blast
    then show ?thesis using False by (simp add: at)
  qed
  ultimately have "lists_inv [] C ?a3"
    using assms(3) act unfolding lists_inv_def act3 sv by auto
  then show ?thesis using res b3 a1(4-7) by simp
qed

lemma close_loop_ok:
  assumes "heap_ok (env_heap E)" "base_ok a" "lists_inv [] C a"
  shows "\<exists>a'. each (close_one E) C a = Some a' \<and> base_ok a' \<and> lists_inv [] [] a'
    \<and> sv_new (ap_server a') = sv_new (ap_server a) \<and> sv_closed (ap_server a') = sv_closed (ap_server a)"
  using assms(2,3)
proof (induction C arbitrary: a)
  case (Cons p C)
  obtain a1 where a1: "close_one E p a = Some a1" "base_ok a1" "lists_inv [] C a1"
    "sv_new (ap_server a1) = sv_new (ap_server a)" "sv_closed (ap_server a1) = sv_closed (ap_server a)"
    using close_one_ok[OF assms(1) Cons.prems] by blast
  from Cons.IH[OF a1(2,3)] a1(1,4,5) show ?case by auto
qed simp

text \<open>Nothing is accepted or closed between the two swaps of \<open>ProcessConnections\<close>.\<close>

lemma ProcessClosed_ok:
  assumes "heap_ok (env_heap E)" "app_inv a" "dbq_content (sv_new (ap_server a)) = []"
  shows "\<exists>a'. ProcessClosed E a = Some a' \<and> app_inv a' \<and> dbq_content (sv_new (ap_server a')) = []
    \<and> dbq_content (sv_closed (ap_server a')) = []"
proof -
  let ?sv = "ap_server a"
  have q: "queues_ok a" and inv: "lists_inv [] (dbq_content (sv_closed ?sv)) a" and base: "base_ok a"
    using assms(2,3) by (simp_all add: app_inv_def lists_ok_def)
  obtain q' where q': "drain dbq_pop (dbq_swap (sv_closed ?sv)) = Some (dbq_content (sv_closed ?sv), q')" "dbq_ok q'"
    "dbq_content q' = []" "dbq_size q' = 0"
    using dbq_swap_drain[of "sv_closed ?sv"] q by (auto simp: queues_ok_def)
  let ?a1 = "put_server (?sv\<lparr> sv_closed := q' \<rparr>) a"
  have "base_ok ?a1" by (rule base_server[OF base]) (simp add: active_def)
  moreover have "lists_inv [] (dbq_content (sv_closed ?sv)) ?a1" using inv by (simp add: lists_inv_def active_def)
  ultimately obtain a' where a': "each (close_one E) (dbq_content (sv_closed ?sv)) ?a1 = Some a'" "base_ok a'" "lists_inv [] [] a'"
    "sv_new (ap_server a') = sv_new ?sv" "sv_closed (ap_server a') = q'"
    using close_loop_ok[OF assms(1)] by fastforce
  have "ProcessClosed E a = Some a'" using q'(1) a'(1) by (simp add: ProcessClosed_def Let_def)
  moreover have "app_inv a'" using a' q' q assms(3) by (simp add: app_inv_def lists_ok_def queues_ok_def)
  ultimately show ?thesis using a'(4,5) q'(3) assms(3) by simp
qed

end
