(* ===== verification/App_Life.thy ===== *)
theory App_Life
  imports App_Loop
begin

text \<open>
  The process as a transition system: the network thread's events, the clock and the rounds of the main
  loop.  The invariant holds in every reachable state, and with it the handling of connections is defined.
\<close>

subsection \<open>Keep-alive and deletion\<close>

lemma keepalive_loop_ok:
  assumes "base_ok a" "lists_inv N C a" "set ps \<subseteq> active a"
  shows "\<exists>a'. each keepalive_one ps a = Some a' \<and> base_ok a' \<and> lists_inv N C a' \<and> same_frame a a'"
  using assms
proof (induction ps arbitrary: a)
  case (Cons p ps)
  have "p \<in> active a" using Cons.prems(3) by simp
  then obtain c where c: "w_conns (ap_world a) p = Some c" using lists_inv_active[OF Cons.prems(2)] by blast
  have vw: "conn_view (Conn_Close c) = conn_view c" by (simp add: Conn_Close_def Conn_PostMessage_def conn_view_def)
  have "\<exists>a1. keepalive_one p a = Some a1 \<and> base_ok a1 \<and> same_frame a a1"
  proof (cases "GetKeepAliveTime c + 60 \<le> w_now (ap_world a)")
    case True
    then show ?thesis using c put_conn_base[OF c vw Cons.prems(1)] put_conn_frame[OF c vw]
      by (simp add: keepalive_one_def)
  qed (use c Cons.prems(1) in \<open>simp add: keepalive_one_def\<close>)
  then obtain a1 where a1: "keepalive_one p a = Some a1" "base_ok a1" "same_frame a a1" by blast
  have "active a1 = active a" using a1(3) by (simp add: same_frame_def active_def)
  with Cons.IH[OF a1(2) lists_inv_frame[OF a1(3) Cons.prems(2)]] Cons.prems(3) a1 show ?case
    by (auto intro: same_frame_trans)
qed simp

lemma lists_inv_times:
  "lists_inv N C (put_server ((ap_server a)\<lparr> sv_keepalive_at := t \<rparr>) a) = lists_inv N C a"
  "lists_inv N C (put_server ((ap_server a)\<lparr> sv_delete_at := t \<rparr>) a) = lists_inv N C a"
  by (simp_all add: lists_inv_def active_def)

lemma KeepAlive_ok:
  assumes "app_inv a"
  shows "\<exists>a'. ProcessConnnectionsKeepAlive a = Some a' \<and> app_inv a'"
proof -
  let ?sv = "ap_server a"
  have inv: "lists_inv (dbq_content (sv_new ?sv)) (dbq_content (sv_closed ?sv)) a" and q: "queues_ok a" and b: "base_ok a"
    using assms by (simp_all add: app_inv_def lists_ok_def)
  have timed: "app_inv (put_server (?sv\<lparr> sv_keepalive_at := t \<rparr>) a)" for t
    using base_server[OF b, of "?sv\<lparr> sv_keepalive_at := t \<rparr>"] inv q
    by (simp add: app_inv_def lists_ok_def lists_inv_times queues_ok_def active_def)
  let ?a1 = "put_server (?sv\<lparr> sv_keepalive_at := Some (w_now (ap_world a)) \<rparr>) a"
  have "lists_inv (dbq_content (sv_new ?sv)) (dbq_content (sv_closed ?sv)) ?a1" "base_ok ?a1"
    using timed[of "Some (w_now (ap_world a))"] by (simp_all add: app_inv_def lists_ok_def)
  then obtain a' where a': "each keepalive_one (sv_active ?sv) ?a1 = Some a'" "base_ok a'" "same_frame ?a1 a'"
    using keepalive_loop_ok[of ?a1 _ _ "sv_active ?sv"] by auto
  have "lists_ok ?a1" using timed[of "Some (w_now (ap_world a))"] by (simp add: app_inv_def)
  then have "lists_ok a'" by (rule lists_frame[OF a'(3)])
  then show ?thesis using a' timed by (simp add: ProcessConnnectionsKeepAlive_def Let_def app_inv_def)
qed

text \<open>A connection that is freed belongs to no session.\<close>

lemma players_conn_active:
  assumes "base_ok a" "conn_of (ap_world a) s = Some p"
  shows "p \<in> active a"
proof -
  obtain v pi m where v: "sole_version a v pi m" using assms(1) unfolding base_but_def acct_but_def by blast
  note pl = base_but_players[OF assms(1) v]
  have "w_sessions (ap_world a) s \<noteq> None" using assms(2) by (auto simp: conn_of_def split: Option.bind_splits)
  then obtain sid where "omap_find m sid = Some s" using players_live[OF pl] by blast
  then obtain q where "conn_of (ap_world a) s = Some q" "q \<in> active a" using playersE[OF pl] by blast
  with assms(2) show ?thesis by simp
qed

lemma base_free:
  assumes "base_ok a" "p \<notin> active a" "ap_world b = (ap_world a)\<lparr> w_conns := (w_conns (ap_world a))(p := None) \<rparr>"
    "active b = active a" "ap_account b = ap_account a" "ap_dispatch b = ap_dispatch a"
    "ap_sids b = ap_sids a" "ap_account_at b = ap_account_at a" "ap_services b = ap_services a" "ap_orders b = ap_orders a"
  shows "base_ok b"
proof -
  have sid: "sid_of b q = (if q = p then [] else sid_of a q)" for q by (simp add: sid_of_def assms(3))
  have loc: "LocateGameService b = LocateGameService a" by (rule Locate_cong) (use assms in simp_all)
  have eqs: "conn_of (ap_world b) = conn_of (ap_world a)" "w_sessions (ap_world b) = w_sessions (ap_world a)"
    by (simp_all add: assms(3) conn_of_def fun_eq_iff)
  have wok: "world_ok (ap_world a)" by (rule base_okD(1)[OF assms(1)])
  have "conns_live (ap_world b)"
    unfolding conns_live_def
  proof (intro allI impI)
    fix s ss q assume s: "w_sessions (ap_world b) s = Some ss" "s_conn ss = Some q"
    then have c: "conn_of (ap_world a) s = Some q" by (simp add: eqs conn_of_def)
    then have "q \<noteq> p" using players_conn_active[OF assms(1)] assms(2) by auto
    then show "w_conns (ap_world b) q \<noteq> None" using wok s unfolding eqs
      by (simp add: assms(3) world_ok_def conns_live_def)
  qed
  then have "world_ok (ap_world b)" using wok
    by (auto simp: assms(3) world_ok_def members_ok_def manager_ok_def fresh_ok_def room_of_def members_def)
  moreover have "sids_ok b" using base_okD(2)[OF assms(1)] by (auto simp: sids_ok_def sid assms(7))
  moreover have "tables_ok b"
    using base_okD(3)[OF assms(1)] unfolding tables_ok_def loc assms(4,6,8,10) by blast
  moreover obtain v pi m where v: "sole_version a v pi m" using assms(1) unfolding base_but_def acct_but_def by blast
  moreover have "players_but {} b (pi_conns pi) m"
  proof -
    note pl = base_but_players[OF assms(1) v]
    have "\<exists>q. omap_find (pi_conns pi) i = Some q \<and> conn_of (ap_world b) s = Some q \<and> sid_of b q = i
        \<and> (q \<notin> {} \<longrightarrow> q \<in> active b \<and> omap_find (d_bound (ap_dispatch b)) q \<noteq> None)"
      if m: "omap_find m i = Some s" for i s
    proof -
      obtain q where q: "omap_find (pi_conns pi) i = Some q" "conn_of (ap_world a) s = Some q" "sid_of a q = i"
        "q \<in> active a" "omap_find (d_bound (ap_dispatch a)) q \<noteq> None"
        using playersE[OF pl m] by blast
      then have "q \<noteq> p" using assms(2) by auto
      with q show ?thesis unfolding eqs assms(4,6) sid by auto
    qed
    then show ?thesis using pl by (simp add: players_but_def eqs)
  qed
  moreover have "sole_version b v pi m" using v by (simp add: sole_version_def assms(5))
  ultimately show ?thesis unfolding base_but_def acct_but_def by blast
qed

lemma delete_one_ok:
  assumes "base_ok a" "lists_inv N C a" "p \<in> set (sv_waiting (ap_server a))"
  shows "\<exists>a'. delete_one p a = Some a' \<and> base_ok a' \<and> lists_inv N C a' \<and> sv_new (ap_server a') = sv_new (ap_server a)
    \<and> sv_closed (ap_server a') = sv_closed (ap_server a)
    \<and> set (sv_waiting (ap_server a)) - {p} \<subseteq> set (sv_waiting (ap_server a'))"
proof -
  have "shut_at a p" using assms(2,3) by (simp add: lists_inv_def)
  then obtain c where c: "w_conns (ap_world a) p = Some c" by (auto simp: shut_at_def split: option.splits)
  have na: "p \<notin> active a" "p \<notin> set N" using assms(2,3) by (auto simp: lists_inv_def)
  show ?thesis
  proof (cases "c_closing_time c + 300 \<le> w_now (ap_world a)")
    case True
    let ?w = "ap_world a" and ?sv = "ap_server a"
    define b where "b = a\<lparr> ap_world := ?w\<lparr> w_conns := (w_conns ?w)(p := None) \<rparr>,
      ap_server := ?sv\<lparr> sv_waiting := remove1 p (sv_waiting ?sv) \<rparr> \<rparr>"
    have res: "delete_one p a = Some b" using c True by (simp add: delete_one_def Let_def b_def)
    have act: "active b = active a" by (simp add: b_def active_def)
    have base: "base_ok b" by (rule base_free[OF assms(1) na(1)]) (simp_all add: b_def active_def)
    have at: "open_at n b q = open_at n a q" "shut_at b q = shut_at a q" if "q \<noteq> p" for n q
      using that by (simp_all add: b_def open_at_def shut_at_def)
    have dw: "distinct (sv_waiting ?sv)" using assms(2) by (simp add: lists_inv_def)
    have wait: "set (sv_waiting (ap_server b)) = set (sv_waiting ?sv) - {p}" "distinct (sv_waiting (ap_server b))"
      using dw by (simp_all add: b_def)
    have op: "open_at (q \<in> set C) b q" if "q \<in> set N \<union> active a" for q
    proof -
      have "q \<noteq> p" using that na by auto
      then show ?thesis using at(1) that assms(2) unfolding lists_inv_def by blast
    qed
    have sh: "shut_at b q" if "q \<in> set (sv_waiting ?sv) - {p}" for q
      using at(2) that assms(2) unfolding lists_inv_def by blast
    have "lists_inv N C b"
      using assms(2) wait(2) op sh unfolding lists_inv_def act wait(1) by (auto simp: b_def)
    then show ?thesis using res base wait by (auto simp: b_def)
  next
    case False
    then show ?thesis using c assms by (auto simp: delete_one_def)
  qed
qed

lemma delete_loop_ok:
  assumes "base_ok a" "lists_inv N C a" "set ps \<subseteq> set (sv_waiting (ap_server a))" "distinct ps"
  shows "\<exists>a'. each delete_one ps a = Some a' \<and> base_ok a' \<and> lists_inv N C a' \<and> sv_new (ap_server a') = sv_new (ap_server a)
    \<and> sv_closed (ap_server a') = sv_closed (ap_server a)"
  using assms
proof (induction ps arbitrary: a)
  case (Cons p ps)
  obtain a1 where a1: "delete_one p a = Some a1" "base_ok a1" "lists_inv N C a1" "sv_new (ap_server a1) = sv_new (ap_server a)"
    "sv_closed (ap_server a1) = sv_closed (ap_server a)"
    "set (sv_waiting (ap_server a)) - {p} \<subseteq> set (sv_waiting (ap_server a1))"
    using delete_one_ok[OF Cons.prems(1,2), of p] Cons.prems(3) by auto
  have "set ps \<subseteq> set (sv_waiting (ap_server a1))" using a1(6) Cons.prems(3,4) by auto
  with Cons.IH[OF a1(2,3)] Cons.prems(4) a1(1,4,5) show ?case by auto
qed simp

lemma WaitDelete_ok:
  assumes "app_inv a"
  shows "\<exists>a'. ProcessWaitDeleteConnections a = Some a' \<and> app_inv a'"
proof -
  let ?sv = "ap_server a"
  have inv: "lists_inv (dbq_content (sv_new ?sv)) (dbq_content (sv_closed ?sv)) a" and q: "queues_ok a" and b: "base_ok a"
    using assms by (simp_all add: app_inv_def lists_ok_def)
  have timed: "app_inv (put_server (?sv\<lparr> sv_delete_at := t \<rparr>) a)" for t
    using base_server[OF b, of "?sv\<lparr> sv_delete_at := t \<rparr>"] inv q
    by (simp add: app_inv_def lists_ok_def lists_inv_times queues_ok_def active_def)
  let ?a1 = "put_server (?sv\<lparr> sv_delete_at := Some (w_now (ap_world a)) \<rparr>) a"
  have 1: "lists_inv (dbq_content (sv_new ?sv)) (dbq_content (sv_closed ?sv)) ?a1" "base_ok ?a1"
    using timed[of "Some (w_now (ap_world a))"] by (simp_all add: app_inv_def lists_ok_def)
  have "distinct (sv_waiting ?sv)" using inv by (simp add: lists_inv_def)
  then obtain a' where a': "each delete_one (sv_waiting ?sv) ?a1 = Some a'" "base_ok a'"
    "lists_inv (dbq_content (sv_new ?sv)) (dbq_content (sv_closed ?sv)) a'" "sv_new (ap_server a') = sv_new ?sv"
    "sv_closed (ap_server a') = sv_closed ?sv"
    using delete_loop_ok[OF 1(2,1), of "sv_waiting ?sv"] by auto
  then have "app_inv a'" using q by (simp add: app_inv_def lists_ok_def queues_ok_def)
  then show ?thesis using a'(1) timed by (simp add: ProcessWaitDeleteConnections_def Let_def)
qed

lemma ProcessConnections_ok:
  assumes "heap_ok (env_heap E)" "app_inv a"
  shows "\<exists>a'. ProcessConnections E a = Some a' \<and> app_inv a'"
proof -
  obtain a1 where a1: "ProcessNew a = Some a1" "app_inv a1" "dbq_content (sv_new (ap_server a1)) = []"
    using ProcessNew_ok[OF assms(2)] by blast
  obtain a2 where a2: "ProcessClosed E a1 = Some a2" "app_inv a2" using ProcessClosed_ok[OF assms(1) a1(2,3)] by blast
  obtain a3 where a3: "ProcessConnnectionsKeepAlive a2 = Some a3" "app_inv a3" using KeepAlive_ok[OF a2(2)] by blast
  obtain a4 where "ProcessWaitDeleteConnections a3 = Some a4" "app_inv a4" using WaitDelete_ok[OF a3(2)] by blast
  with a1(1) a2(1) a3(1) show ?thesis by (simp add: ProcessConnections_def)
qed

end
