(* ===== verification/App_Reach.thy ===== *)
theory App_Reach
  imports App_Life
begin

text \<open>
  The process as a transition system: the events of the network thread, the clock and the rounds of the
  main loop, from the state after start-up.
\<close>

subsection \<open>A round of the main loop\<close>

lemma Manager_Update_evolves:
  assumes "heap_ok (env_heap E)" "world_ok w"
  shows "\<exists>w'. Manager_Update E w = Some w' \<and> evolves w w'"
proof -
  have "omap_ok (w_manager w)" using assms(2) by (simp add: world_ok_def manager_ok_def)
  from Manager_Update_loop[OF assms order_refl omap_ok_distinct[OF this]] show ?thesis
    unfolding Manager_Update_def by blast
qed

lemma Dispatcher_Update_keeps:
  assumes "Dispatcher_Update E a = Some a'" "heap_ok (env_heap E)" "app_inv a"
  shows "app_inv a'"
proof -
  obtain a1 where a1: "ProcessConnections E a = Some a1" "app_inv a1" using ProcessConnections_ok[OF assms(2,3)] by blast
  let ?f = "\<lambda>p a. do { packet \<leftarrow> Packet_new (env_heap E); dispatch_conn E p packet a }"
  have loop: "each ?f (sv_active (ap_server a1)) a1 = Some a'" using assms(1) a1(1) by (simp add: Dispatcher_Update_def)
  have "app_inv a' \<and> active a' = active a1"
  proof (rule each_keeps[OF loop])
    fix p b b' assume p: "p \<in> set (sv_active (ap_server a1))" and b: "app_inv b \<and> active b = active a1" "?f p b = Some b'"
    obtain packet where "dispatch_conn E p packet b = Some b'" using b(2) by (auto split: Option.bind_splits)
    from dispatch_conn_keeps[OF this] assms(2) b(1) p have k: "base_ok b' \<and> same_frame b b'"
      by (simp add: app_inv_def active_def)
    then show "app_inv b' \<and> active b' = active a1"
      using b(1) lists_frame[of b b'] by (simp add: app_inv_def same_frame_def active_def)
  qed (use a1(2) in simp)
  then show ?thesis by simp
qed

lemma OurGameLoop_Update_keeps:
  assumes "OurGameLoop_Update E a = Some a'" "heap_ok (env_heap E)" "app_inv a"
  shows "app_inv a'"
proof -
  obtain a1 w where a1: "Dispatcher_Update E a = Some a1" "Manager_Update E (ap_world a1) = Some w" "a' = a1\<lparr> ap_world := w \<rparr>"
    using assms(1) by (auto simp: OurGameLoop_Update_def split: Option.bind_splits)
  have inv: "app_inv a1" by (rule Dispatcher_Update_keeps[OF a1(1) assms(2,3)])
  then have b: "base_ok a1" by (simp add: app_inv_def)
  have e: "evolves (ap_world a1) w" using Manager_Update_evolves[OF assms(2) base_okD(1)[OF b]] a1(2) by auto
  note q = quiet_Manager_Update[OF a1(2)]
  show ?thesis using base_world[OF b q e] lists_frame[OF quiet_frame[OF q]] inv unfolding a1(3) by (simp add: app_inv_def)
qed

subsection \<open>The network thread\<close>

definition known :: "app \<Rightarrow> ptr set" where
  "known a = set (dbq_content (sv_new (ap_server a))) \<union> active a \<union> set (sv_waiting (ap_server a))"

lemma known_live:
  assumes "lists_ok a" "p \<in> known a"
  obtains c where "w_conns (ap_world a) p = Some c"
    "open_conn (p \<in> set (dbq_content (sv_closed (ap_server a)))) c \<and> p \<notin> set (sv_waiting (ap_server a)) \<or>
     shut_conn c \<and> p \<in> set (sv_waiting (ap_server a)) \<and> p \<notin> set (dbq_content (sv_new (ap_server a))) \<union> active a"
proof (cases "p \<in> set (sv_waiting (ap_server a))")
  case True
  then have "shut_at a p" "p \<notin> set (dbq_content (sv_new (ap_server a))) \<union> active a"
    using assms(1) unfolding lists_ok_def lists_inv_def by blast+
  then show thesis using that True by (auto simp: shut_at_def split: option.splits)
next
  case False
  then have "open_at (p \<in> set (dbq_content (sv_closed (ap_server a)))) a p"
    using assms unfolding lists_ok_def lists_inv_def known_def by blast
  then show thesis using that False by (auto simp: open_at_def split: option.splits)
qed

text \<open>An event that neither closes the connection nor notifies the server.\<close>

definition conn_keeps :: "conn \<Rightarrow> conn \<Rightarrow> bool" where
  "conn_keeps c c' \<longleftrightarrow> (life_ok c \<longrightarrow> life_ok c') \<and> c_closing c' = c_closing c \<and> c_notices c' = c_notices c
     \<and> c_session_id c' = c_session_id c"

lemma conn_keeps_ops:
  "conn_keeps c (do_read uv b c)" "conn_keeps c (do_write req ok c)"
  "conn_keeps c (Conn_OnMessage uv req m (c\<lparr> c_inbox := ms \<rparr>))"
proof -
  show "conn_keeps c (do_read uv b c)"
    using life_ok_OnRead[of c uv b]
    by (cases b) (auto simp: conn_keeps_def do_read_def OnRead_def do_close_def Let_def)
  show "conn_keeps c (do_write req ok c)"
    by (auto simp: conn_keeps_def do_write_def do_close_def Let_def life_ok_def)
  show "conn_keeps c (Conn_OnMessage uv req m (c\<lparr> c_inbox := ms \<rparr>))"
    by (cases m) (auto simp: conn_keeps_def Conn_OnMessage_def StartRead_def Conn_Write_data_def do_close_def life_ok_def)
qed

lemma app_inv_conn:
  assumes "app_inv a" "w_conns (ap_world a) p = Some c" "conn_keeps c c'"
  shows "app_inv (put_conn p c' a)"
proof -
  have b: "base_ok a" and l: "lists_ok a" using assms(1) by (simp_all add: app_inv_def)
  have sid: "sid_of (put_conn p c' a) = sid_of a" using assms(2,3) by (auto simp: sid_of_def conn_keeps_def fun_eq_iff)
  have "base_ok (put_conn p c' a)"
    by (rule base_conns[OF b, where cs = "(w_conns (ap_world a))(p \<mapsto> c')"])
      (use assms(2) sid in \<open>simp_all add: put_conn_def\<close>)
  moreover have at: "open_at n a q \<Longrightarrow> open_at n (put_conn p c' a) q" "shut_at a q \<Longrightarrow> shut_at (put_conn p c' a) q" for n q
    using assms(2,3) by (auto simp: open_at_def shut_at_def open_conn_def shut_conn_def conn_keeps_def)
  have act: "active (put_conn p c' a) = active a" by (simp add: active_def)
  have "lists_inv N C (put_conn p c' a)" if "lists_inv N C a" for N C
    using that at unfolding lists_inv_def act put_conn_fields by simp
  then have "lists_ok (put_conn p c' a)" using l by (simp add: lists_ok_def queues_ok_def)
  ultimately show ?thesis by (simp add: app_inv_def)
qed

lemma app_inv_closed:
  assumes "app_inv a" "p \<in> known a" "w_conns (ap_world a) p = Some c" "c_notices c < c_uv_closes c" "conn_closed p a = Some a'"
  shows "app_inv a'"
proof -
  let ?sv = "ap_server a"
  have b: "base_ok a" and l: "lists_ok a" using assms(1) by (simp_all add: app_inv_def)
  have c: "open_conn (p \<in> set (dbq_content (sv_closed ?sv))) c" "p \<notin> set (sv_waiting ?sv)" "c_notices c = 0"
    "p \<notin> set (dbq_content (sv_closed ?sv))"
  proof -
    obtain c0 where c0: "w_conns (ap_world a) p = Some c0"
      "open_conn (p \<in> set (dbq_content (sv_closed ?sv))) c0 \<and> p \<notin> set (sv_waiting ?sv) \<or>
        shut_conn c0 \<and> p \<in> set (sv_waiting ?sv) \<and> p \<notin> set (dbq_content (sv_new ?sv)) \<union> active a"
      by (rule known_live[OF l assms(2)])
    have "c0 = c" using c0(1) assms(3) by simp
    then have "open_conn (p \<in> set (dbq_content (sv_closed ?sv))) c \<and> p \<notin> set (sv_waiting ?sv)"
      using c0(2) assms(4) by (auto simp: shut_conn_def life_ok_def)
    then show "open_conn (p \<in> set (dbq_content (sv_closed ?sv))) c" "p \<notin> set (sv_waiting ?sv)" "c_notices c = 0"
      "p \<notin> set (dbq_content (sv_closed ?sv))"
      using assms(4) by (auto simp: open_conn_def life_ok_def)
  qed
  let ?a1 = "put_conn p (on_closed c) a"
  let ?sv' = "?sv\<lparr> sv_closed := snd (dbq_push (sv_closed ?sv) p) \<rparr>"
  have a': "a' = put_server ?sv' ?a1" using assms(3,5) by (simp add: conn_closed_def Server_OnMessage_close_def)
  have sid: "sid_of ?a1 = sid_of a" using assms(3) by (auto simp: sid_of_def on_closed_def fun_eq_iff)
  have "base_ok ?a1"
    by (rule base_conns[OF b, where cs = "(w_conns (ap_world a))(p \<mapsto> on_closed c)"])
      (use assms(3) sid in \<open>simp_all add: put_conn_def\<close>)
  then have base: "base_ok a'" unfolding a' by (rule base_server) (simp add: active_def)
  have q: "dbq_ok (sv_closed ?sv)" "dbq_size (sv_closed ?sv) = 0" using l by (simp_all add: lists_ok_def queues_ok_def)
  have content: "dbq_content (sv_closed ?sv') = dbq_content (sv_closed ?sv) @ [p]" using dbq_push_content[OF q(1)] by simp
  have "dbq_ok (sv_closed ?sv') \<and> dbq_size (sv_closed ?sv') = 0"
    using q by (auto simp: dbq_push_def dbq_insert_def dbq_ok_def dbq_size_def nth_list_update)
  then have queues: "queues_ok a'" using l by (simp add: a' lists_ok_def queues_ok_def)
  have "open_conn True (on_closed c)" using c assms(4) life_ok_ops(9)[of c] by (auto simp: open_conn_def on_closed_def)
  then have at: "open_at (q \<in> set (dbq_content (sv_closed ?sv) @ [p])) ?a1 q" if "open_at (q \<in> set (dbq_content (sv_closed ?sv))) a q" for q
    using that by (cases "q = p") (auto simp: open_at_def)
  have sh: "shut_at ?a1 q" if "shut_at a q" "q \<noteq> p" for q using that by (simp add: shut_at_def)
  have sets: "active a' = active a" "sv_new (ap_server a') = sv_new ?sv" "sv_waiting (ap_server a') = sv_waiting ?sv"
    "sv_active (ap_server a') = sv_active ?sv" "sv_closed (ap_server a') = sv_closed ?sv'"
    "open_at n a' = open_at n ?a1" "shut_at a' = shut_at ?a1" for n by (simp_all add: a' active_def)
  have "p \<in> set (dbq_content (sv_new ?sv)) \<union> active a" using assms(2) c(2) by (auto simp: known_def)
  moreover have "lists_inv (dbq_content (sv_new ?sv)) (dbq_content (sv_closed ?sv)) a" using l by (simp add: lists_ok_def)
  moreover have "open_at (q \<in> set (dbq_content (sv_closed ?sv) @ [p])) ?a1 q"
    if "q \<in> set (dbq_content (sv_new ?sv)) \<union> active a" for q
    using l that by (intro at) (auto simp: lists_ok_def lists_inv_def)
  moreover have "shut_at ?a1 q" if "q \<in> set (sv_waiting ?sv)" for q
    using l that c(2) by (intro sh) (auto simp: lists_ok_def lists_inv_def)
  ultimately have "lists_inv (dbq_content (sv_new ?sv)) (dbq_content (sv_closed ?sv) @ [p]) a'"
    using c(2,4) unfolding lists_inv_def sets by simp
  then show ?thesis using base queues unfolding app_inv_def lists_ok_def sets content by simp
qed

text \<open>A new connection object.\<close>

lemma base_add:
  assumes "base_ok a" "ap_world b = (ap_world a)\<lparr> w_next := w_next (ap_world a) + 1,
      w_conns := (w_conns (ap_world a))(w_next (ap_world a) \<mapsto> c) \<rparr>"
    "c_session_id c = [] \<and> ap_sids b = ap_sids a \<or>
     c_session_id c = addr @ CHR '':'' # dec_digits (ap_sids b) \<and> ap_sids b = ap_sids a + 1"
    "active b = active a" "ap_account b = ap_account a" "ap_dispatch b = ap_dispatch a"
    "ap_account_at b = ap_account_at a" "ap_services b = ap_services a" "ap_orders b = ap_orders a"
  shows "base_ok b"
proof -
  let ?n = "w_next (ap_world a)"
  have wok: "world_ok (ap_world a)" by (rule base_okD(1)[OF assms(1)])
  then have fresh: "w_conns (ap_world a) q = None" if "?n \<le> q" for q using that by (simp add: world_ok_def fresh_ok_def)
  have sid: "sid_of b q = (if q = ?n then c_session_id c else sid_of a q)" for q by (simp add: sid_of_def assms(2))
  have old: "sid_of a ?n = []" by (simp add: sid_of_def fresh)
  have loc: "LocateGameService b = LocateGameService a" by (rule Locate_cong) (use assms in simp_all)
  have eqs: "conn_of (ap_world b) = conn_of (ap_world a)" "w_sessions (ap_world b) = w_sessions (ap_world a)"
    by (simp_all add: assms(2) conn_of_def fun_eq_iff)
  have world: "world_ok (ap_world b)" using wok
    by (auto simp: assms(2) world_defs room_of_def members_def)
  note so = base_okD(2)[OF assms(1)]
  have "sids_ok b"
    using assms(3)
  proof
    assume "c_session_id c = [] \<and> ap_sids b = ap_sids a"
    then show ?thesis using so by (auto simp: sids_ok_def sid)
  next
    assume new: "c_session_id c = addr @ CHR '':'' # dec_digits (ap_sids b) \<and> ap_sids b = ap_sids a + 1"
    have ne: "sid_of a q \<noteq> c_session_id c" for q
    proof
      assume eq: "sid_of a q = c_session_id c"
      then have "sid_of a q \<noteq> []" using new by simp
      then obtain i addr' where i: "i \<le> ap_sids a" "sid_of a q = addr' @ CHR '':'' # dec_digits i"
        using so unfolding sids_ok_def by blast
      then have "addr' @ CHR '':'' # dec_digits i = addr @ CHR '':'' # dec_digits (ap_sids b)" using eq new by simp
      then have "dec_digits i = dec_digits (ap_sids b)" by (rule suffix_after_colon) (rule colon_not_digit)+
      then have "dec_value (dec_digits i) = dec_value (dec_digits (ap_sids b))" by simp
      then show False using i(1) new by (simp add: dec_value_digits)
    qed
    show ?thesis unfolding sids_ok_def
    proof (intro conjI allI impI)
      fix p q assume pq: "sid_of b p \<noteq> [] \<and> sid_of b p = sid_of b q"
      show "p = q"
      proof (cases "p = ?n \<or> q = ?n")
        case True then show ?thesis using pq ne[of p] ne[of q] by (auto simp: sid split: if_splits)
      next
        case False
        then have "sid_of b p = sid_of a p" "sid_of b q = sid_of a q" by (simp_all add: sid)
        then show ?thesis using pq so unfolding sids_ok_def by metis
      qed
    next
      fix p assume p: "sid_of b p \<noteq> []"
      show "\<exists>i addr. i \<le> ap_sids b \<and> sid_of b p = addr @ CHR '':'' # dec_digits i"
      proof (cases "p = ?n")
        case True then show ?thesis using new by (auto simp: sid)
      next
        case False
        then obtain i addr' where "i \<le> ap_sids a" "sid_of a p = addr' @ CHR '':'' # dec_digits i"
          using p so unfolding sids_ok_def sid by auto
        then show ?thesis using False new by (intro exI[of _ i] exI[of _ addr']) (simp add: sid)
      qed
    qed
  qed
  moreover have "tables_ok b"
    using base_okD(3)[OF assms(1)] unfolding tables_ok_def loc assms(4,6,7,9) by blast
  moreover obtain v pi m where v: "sole_version a v pi m" using assms(1) unfolding base_but_def acct_but_def by blast
  moreover have "players_but {} b (pi_conns pi) m"
  proof -
    note pl = base_but_players[OF assms(1) v]
    have "\<exists>q. omap_find (pi_conns pi) i = Some q \<and> conn_of (ap_world b) s = Some q \<and> sid_of b q = i
        \<and> (q \<notin> {} \<longrightarrow> q \<in> active b \<and> omap_find (d_bound (ap_dispatch b)) q \<noteq> None)"
      if m: "omap_find m i = Some s" for i s
    proof -
      obtain q where q: "omap_find (pi_conns pi) i = Some q" "conn_of (ap_world a) s = Some q" "sid_of a q = i"
        "q \<in> active a" "omap_find (d_bound (ap_dispatch a)) q \<noteq> None"
        using playersE[OF pl m] by blast
      have "w_conns (ap_world a) q \<noteq> None" using wok q(2) by (auto simp: world_ok_def conns_live_def conn_of_def split: Option.bind_splits)
      then have "q \<noteq> ?n" using fresh[of ?n] by auto
      with q show ?thesis unfolding eqs assms(4,6) sid by auto
    qed
    then show ?thesis using pl by (simp add: players_but_def eqs)
  qed
  moreover have "sole_version b v pi m" using v by (simp add: sole_version_def assms(5))
  ultimately show ?thesis using world unfolding base_but_def acct_but_def by blast
qed

text \<open>\<open>session_index_\<close> is printed with at most nine digits, hence the bound.\<close>

lemma app_inv_accept:
  assumes "app_inv a" "ap_sids a + 1 < 10 ^ 9" "on_new_connection uv peer mem accepted a = Some a'"
  shows "app_inv a'"
proof -
  let ?w = "ap_world a" and ?sv = "ap_server a"
  let ?p = "w_next ?w" and ?c = "Conn_new (w_now (ap_world a)) mem"
  have b: "base_ok a" and l: "lists_ok a" using assms(1) by (simp_all add: app_inv_def)
  have inv: "lists_inv (dbq_content (sv_new ?sv)) (dbq_content (sv_closed ?sv)) a" using l by (simp add: lists_ok_def)
  have "w_conns ?w ?p = None" using base_okD(1)[OF b] by (simp add: world_ok_def fresh_ok_def)
  then have "\<not> open_at n a ?p" "\<not> shut_at a ?p" for n by (simp_all add: open_at_def shut_at_def)
  then have fresh: "?p \<notin> set (dbq_content (sv_new ?sv)) \<union> active a" "?p \<notin> set (sv_waiting ?sv)"
    using inv unfolding lists_inv_def by metis+
  then have nclosed: "?p \<notin> set (dbq_content (sv_closed ?sv))" using inv by (auto simp: lists_inv_def)
  show ?thesis
  proof (cases accepted)
    case False
    have a': "a' = put_conn ?p ?c (a\<lparr> ap_world := ?w\<lparr> w_next := ?p + 1 \<rparr> \<rparr>)"
      using assms(3) False by (simp add: on_new_connection_def Let_def)
    have "base_ok a'"
      by (rule base_add[OF b, where c = ?c]) (simp_all add: a' put_conn_def Conn_new_def active_def)
    moreover have "lists_ok a'"
    proof -
      have sv: "ap_server a' = ?sv" "active a' = active a" by (simp_all add: a' active_def)
      have at: "open_at n a' q = open_at n a q" "shut_at a' q = shut_at a q" if "q \<noteq> ?p" for n q
        using that by (simp_all add: a' open_at_def shut_at_def)
      have "lists_inv (dbq_content (sv_new ?sv)) (dbq_content (sv_closed ?sv)) a'"
        using inv fresh unfolding lists_inv_def sv by (metis at)
      then show ?thesis using l by (simp add: lists_ok_def queues_ok_def sv)
    qed
    ultimately show ?thesis by (simp add: app_inv_def)
  next
    case True
    let ?n = "ap_sids a + 1"
    define c where "c = (StartRead uv (Conn_Init peer ?c))
      \<lparr> c_session_id := c_remote_address (Conn_Init peer ?c) @ CHR '':'' # dec_digits ?n \<rparr>"
    have sid: "c_session_id (StartRead uv (Conn_Init peer ?c)) = []"
      "c_remote_address (StartRead uv (Conn_Init peer ?c)) = c_remote_address (Conn_Init peer ?c)"
      by (simp_all add: StartRead_def Conn_Init_def Conn_new_def split: option.split)
    have len: "take 9 (dec_digits ?n) = dec_digits ?n" using length_dec_digits[of 9 ?n] assms(2) by simp
    have get: "GetSessionId (ap_sids a) (StartRead uv (Conn_Init peer ?c)) = (c_session_id c, ?n, c)"
      using sid len by (simp add: GetSessionId_def Let_def c_def)
    let ?sv' = "?sv\<lparr> sv_new := snd (dbq_push (sv_new ?sv) ?p) \<rparr>"
    let ?a1 = "a\<lparr> ap_sids := ?n, ap_world := ?w\<lparr> w_next := ?p + 1, w_conns := (w_conns ?w)(?p \<mapsto> c) \<rparr> \<rparr>"
    have a': "a' = put_server ?sv' ?a1"
      using assms(3) True get
      by (simp add: on_new_connection_def OnNewConnection_def app_GetSessionId_def put_conn_def put_server_def Let_def)
    have "base_ok ?a1"
      by (rule base_add[OF b, where c = c]) (simp_all add: c_def active_def)
    then have base: "base_ok a'" unfolding a' by (rule base_server) (simp add: active_def)
    have q: "dbq_ok (sv_new ?sv)" "dbq_size (sv_new ?sv) = 0" using l by (simp_all add: lists_ok_def queues_ok_def)
    have content: "dbq_content (sv_new ?sv') = dbq_content (sv_new ?sv) @ [?p]" using dbq_push_content[OF q(1)] by simp
    have "dbq_ok (sv_new ?sv') \<and> dbq_size (sv_new ?sv') = 0"
      using q by (auto simp: dbq_push_def dbq_insert_def dbq_ok_def dbq_size_def nth_list_update)
    then have queues: "queues_ok a'" using l by (simp add: a' lists_ok_def queues_ok_def)
    have sets: "active a' = active a" "sv_new (ap_server a') = sv_new ?sv'" "sv_waiting (ap_server a') = sv_waiting ?sv"
      "sv_active (ap_server a') = sv_active ?sv" "sv_closed (ap_server a') = sv_closed ?sv" by (simp_all add: a' active_def)
    have at: "open_at n a' q = open_at n a q" "shut_at a' q = shut_at a q" if "q \<noteq> ?p" for n q
      using that by (simp_all add: a' open_at_def shut_at_def put_server_def)
    have "open_conn False c"
      by (auto simp: c_def open_conn_def life_ok_def StartRead_def Conn_Init_def Conn_new_def split: option.splits)
    then have new: "open_at False a' ?p" by (simp add: a' open_at_def put_server_def)
    have "open_at (q \<in> set (dbq_content (sv_closed ?sv))) a' q"
      if "q \<in> set (dbq_content (sv_new ?sv) @ [?p]) \<union> active a" for q
    proof (cases "q = ?p")
      case True then show ?thesis using new nclosed by simp
    next
      case False then show ?thesis using that inv at(1)[OF False] by (auto simp: lists_inv_def)
    qed
    moreover have "shut_at a' q" if "q \<in> set (sv_waiting ?sv)" for q
    proof -
      have "q \<noteq> ?p" using that fresh(2) by auto
      then show ?thesis using that inv at(2) by (auto simp: lists_inv_def)
    qed
    ultimately have "lists_inv (dbq_content (sv_new ?sv) @ [?p]) (dbq_content (sv_closed ?sv)) a'"
      using inv fresh unfolding lists_inv_def sets by auto
    then show ?thesis using base queues unfolding app_inv_def lists_ok_def sets content by simp
  qed
qed

subsection \<open>Start-up\<close>

text \<open>What \<open>OurGameLoop::Init\<close> has built when the account service is initialised: the three services are
  registered, sorted by their dependencies and injected.\<close>

definition app_boot :: "int \<Rightarrow> app" where
  "app_boot now = \<lparr> ap_world = \<lparr> w_conns = (\<lambda>_. None), w_sessions = (\<lambda>_. None), w_rooms = (\<lambda>_. None),
       w_manager = [], w_next = 4, w_now = now \<rparr>,
     ap_sids = 0, ap_account = Account_Inject ''Dispatcher'' Account_new, ap_account_at = 3,
     ap_dispatch = Dispatcher_new\<lparr> d_server := True \<rparr>,
     ap_server = \<lparr> sv_new = dbq_new, sv_closed = dbq_new, sv_active = [], sv_waiting = [],
       sv_keepalive_at = None, sv_delete_at = None \<rparr>,
     ap_services = [(''Account'', 3), (''Dispatcher'', 1), (''server'', 2)],
     ap_orders = [''server'', ''Dispatcher'', ''Account''] \<rparr>"

lemma register_rules_value:
  "(\<And>op g'. omap_find rules op = Some g' \<Longrightarrow> g' = g) \<Longrightarrow>
   omap_find (snd (register_rules ops g rules)) op = Some g'' \<Longrightarrow> g'' = g"
proof (induction ops arbitrary: rules)
  case (Cons o1 ops)
  show ?case
  proof (cases "omap_find rules o1 = None")
    case True
    have "g' = g" if "omap_find (omap_put o1 g rules) o' = Some g'" for o' g'
      using that Cons.prems(1) by (cases "o' = o1") auto
    then show ?thesis using Cons.IH[of "omap_put o1 g rules"] Cons.prems(2) True by simp
  next
    case False then show ?thesis using Cons.prems by (auto split: if_splits)
  qed
qed auto

lemma app_inv_boot:
  assumes "Account_Init so conf (app_boot now) = Some (True, a)"
  shows "app_inv a"
proof -
  obtain url v where conf: "sc_object conf" "sc_pimpl conf" "sc_url conf = Some url" "sc_version conf = Some v"
    using assms by (auto simp: Account_Init_def Account_Reload_def split: if_splits option.splits)
  let ?b = "app_boot now" and ?pi = "snd (Pimpl_Init True Pimpl_new)"
  have pim: "ac_pimpls (ap_account ?b) = []" "ac_dispatcher (ap_account ?b)"
    by (simp_all add: app_boot_def Account_Inject_def Account_new_def)
  have fields: "ap_world a = ap_world ?b" "ap_sids a = 0" "ap_account_at a = 3" "ap_server a = ap_server ?b"
    "ap_services a = ap_services ?b" "ap_orders a = ap_orders ?b" "ac_pimpls (ap_account a) = [(v, ?pi)]"
    "d_rules (ap_dispatch a) = snd (register_rules (pi_opcodes ?pi) 3 [])" "d_bound (ap_dispatch a) = []"
    using assms conf pim
    by (auto simp: Account_Init_def Account_Reload_def AddPimpl_def pimpl_of_def Let_def RegisterOpcode_def
        SubscribeConnClosedMessage_def app_boot_def Dispatcher_new_def omap_put_def split: if_splits prod.splits)
  have mem: "pi_sessions ?pi = Some []" "pi_conns ?pi = []" by (simp_all add: Pimpl_Init_def Pimpl_new_def Let_def)
  have rules: "omap_find (d_rules (ap_dispatch a)) op = Some g \<Longrightarrow> g = 3" for op g
    unfolding fields(8) using register_rules_value[of "[]" 3] by simp
  have emp: "sid_of a p = []" "active a = {}" for p by (simp_all add: sid_of_def active_def fields(1,4) app_boot_def)
  have "world_ok (ap_world a)"
    by (simp add: fields(1) app_boot_def world_defs room_of_def members_def)
  moreover have "sids_ok a" by (simp add: sids_ok_def emp)
  moreover have "tables_ok a"
    using rules by (auto simp: tables_ok_def LocateGameService_def fields(3,5,6,9) app_boot_def)
  moreover have "players_but {} a [] []" by (simp add: players_but_def fields(1) app_boot_def)
  then have "\<exists>v pi m. sole_version a v pi m \<and> players_but {} a (pi_conns pi) m"
    using mem fields(7) by (intro exI[of _ v] exI[of _ ?pi] exI[of _ "[]"]) (simp add: sole_version_def)
  moreover have "dbq_size dbq_new = 0" by (simp add: dbq_size_def dbq_new_def)
  then have "lists_ok a" by (simp add: lists_ok_def queues_ok_def lists_inv_def emp fields(4) app_boot_def)
  ultimately show ?thesis by (auto simp: app_inv_def base_but_def acct_but_def)
qed

subsection \<open>The events\<close>

text \<open>libuv only reports on connections the server still knows: the others were never accepted or have
  been freed.\<close>

inductive app_step :: "env \<Rightarrow> app \<Rightarrow> app \<Rightarrow> bool" for E where
  accept: "ap_sids a + 1 < 10 ^ 9 \<Longrightarrow> on_new_connection uv peer mem accepted a = Some a' \<Longrightarrow> app_step E a a'"
| received: "p \<in> known a \<Longrightarrow> w_conns (ap_world a) p = Some c \<Longrightarrow> c_uv_reading c
    \<Longrightarrow> app_step E a (put_conn p (do_read uv b c) a)"
| message: "p \<in> known a \<Longrightarrow> w_conns (ap_world a) p = Some c \<Longrightarrow> c_inbox c = m # ms
    \<Longrightarrow> app_step E a (put_conn p (Conn_OnMessage uv req m (c\<lparr> c_inbox := ms \<rparr>)) a)"
| written: "p \<in> known a \<Longrightarrow> w_conns (ap_world a) p = Some c \<Longrightarrow> app_step E a (put_conn p (do_write req ok c) a)"
| closed: "p \<in> known a \<Longrightarrow> w_conns (ap_world a) p = Some c \<Longrightarrow> c_notices c < c_uv_closes c
    \<Longrightarrow> conn_closed p a = Some a' \<Longrightarrow> app_step E a a'"
| time: "app_step E a (a\<lparr> ap_world := (ap_world a)\<lparr> w_now := t \<rparr> \<rparr>)"
| round: "OurGameLoop_Update E a = Some a' \<Longrightarrow> app_step E a a'"

inductive app_reach :: "env \<Rightarrow> so_loader \<Rightarrow> service_config \<Rightarrow> app \<Rightarrow> bool" for E so conf where
  boot: "Account_Init so conf (app_boot now) = Some (True, a) \<Longrightarrow> app_reach E so conf a"
| step: "app_reach E so conf a \<Longrightarrow> app_step E a a' \<Longrightarrow> app_reach E so conf a'"

lemma app_inv_time: "app_inv a \<Longrightarrow> app_inv (a\<lparr> ap_world := (ap_world a)\<lparr> w_now := t \<rparr> \<rparr>)"
proof -
  let ?a = "a\<lparr> ap_world := (ap_world a)\<lparr> w_now := t \<rparr> \<rparr>"
  assume inv: "app_inv a"
  have "view ?a = view a" by (simp add: view_def fun_eq_iff)
  then have fr: "same_frame a ?a" by (simp add: same_frame_def)
  have w: "world_ok (ap_world ?a)" using inv by (auto simp: app_inv_def base_but_def world_defs room_of_def members_def)
  have "conn_of (ap_world ?a) = conn_of (ap_world a)" by (simp add: conn_of_def fun_eq_iff)
  then have "base_ok ?a" using base_frame[OF fr _ _ _ _ w] inv by (simp add: app_inv_def)
  moreover have "lists_ok ?a" using lists_frame[OF fr] inv by (simp add: app_inv_def)
  ultimately show ?thesis by (simp add: app_inv_def)
qed

lemma app_step_inv:
  assumes "app_step E a a'" "heap_ok (env_heap E)" "app_inv a"
  shows "app_inv a'"
  using assms(1)
proof cases
  case accept then show ?thesis using app_inv_accept[OF assms(3)] by blast
next
  case received then show ?thesis using app_inv_conn[OF assms(3)] conn_keeps_ops by blast
next
  case message then show ?thesis using app_inv_conn[OF assms(3)] conn_keeps_ops by blast
next
  case written then show ?thesis using app_inv_conn[OF assms(3)] conn_keeps_ops by blast
next
  case closed then show ?thesis using app_inv_closed[OF assms(3)] by blast
next
  case time then show ?thesis using app_inv_time[OF assms(3)] by simp
next
  case round then show ?thesis using OurGameLoop_Update_keeps[OF _ assms(2,3)] by blast
qed

lemma app_reach_inv:
  assumes "app_reach E so conf a" "heap_ok (env_heap E)"
  shows "app_inv a"
  using assms(1)
proof induction
  case boot then show ?case by (rule app_inv_boot)
next
  case step then show ?case using app_step_inv assms(2) by blast
qed

end
