(* ===== verification/App_Props.thy ===== *)
theory App_Props
  imports App_Reach
begin

text \<open>
  What holds of the whole process: its reachable states, the end of a connection, the versions of the
  account service, and two ways a connection can outlive its owner's bookkeeping.
\<close>

subsection \<open>Reachable states\<close>

lemma conn_session_unique:
  assumes "base_ok a" "conn_of (ap_world a) s = Some p" "conn_of (ap_world a) s' = Some p"
  shows "s = s'"
proof -
  obtain v pi m where v: "sole_version a v pi m" using assms(1) unfolding base_but_def acct_but_def by blast
  note pl = base_but_players[OF assms(1) v]
  have k: "omap_find m (sid_of a p) = Some s" if c: "conn_of (ap_world a) s = Some p" for s
  proof -
    have "w_sessions (ap_world a) s \<noteq> None" using c by (auto simp: conn_of_def split: Option.bind_splits)
    then obtain sid where sid: "omap_find m sid = Some s" using players_live[OF pl] by blast
    then obtain q where "conn_of (ap_world a) s = Some q" "sid_of a q = sid" using playersE[OF pl] by blast
    then show ?thesis using sid c by simp
  qed
  show ?thesis using k[OF assms(2)] k[OF assms(3)] by simp
qed

lemma session_conn:
  assumes "base_ok a" "w_sessions (ap_world a) s = Some ss"
  obtains p where "s_conn ss = Some p" "p \<in> active a"
proof -
  obtain v pi m where v: "sole_version a v pi m" using assms(1) unfolding base_but_def acct_but_def by blast
  note pl = base_but_players[OF assms(1) v]
  obtain sid where "omap_find m sid = Some s" using players_live[OF pl] assms(2) by blast
  then obtain p where "conn_of (ap_world a) s = Some p" "p \<in> active a" using playersE[OF pl] by blast
  then show thesis using that assms(2) by (simp add: conn_of_def)
qed

definition demo_loader :: so_loader where
  "demo_loader = \<lparr> dl_open = (\<lambda>_. True), dl_creator = (\<lambda>_. True), dl_deletor = (\<lambda>_. True) \<rparr>"

definition demo_config :: service_config where
  "demo_config = \<lparr> sc_object = True, sc_pimpl = True, sc_url = Some ''so'', sc_version = Some ''1'' \<rparr>"


text \<open>Started, one connection accepted, its first bytes received.\<close>

definition demo_started :: app where
  "demo_started = snd (the (Account_Init demo_loader demo_config (app_boot 100)))"

definition demo_accepted :: app where
  "demo_accepted = the (on_new_connection uv_fine (Some (''h'', 1)) (replicate 129 []) True demo_started)"

lemma demo_reach: "app_reach E demo_loader demo_config demo_accepted"
proof -
  have st: "Account_Init demo_loader demo_config (app_boot 100) = Some (True, demo_started)"
    by (simp add: demo_started_def Account_Init_def Account_Reload_def AddPimpl_def pimpl_of_def demo_loader_def
        demo_config_def app_boot_def Account_Inject_def Account_new_def Let_def)
  have s: "ap_sids demo_started = 0"
    by (simp add: demo_started_def Account_Init_def Account_Reload_def AddPimpl_def pimpl_of_def demo_loader_def
        demo_config_def app_boot_def Account_Inject_def Account_new_def Let_def)
  have "on_new_connection uv_fine (Some (''h'', 1)) (replicate 129 []) True demo_started = Some demo_accepted"
    by (simp add: demo_accepted_def on_new_connection_def OnNewConnection_def app_GetSessionId_def put_conn_def Let_def
        split: prod.split)
  from app_step.accept[OF _ this] s have "app_step E demo_started demo_accepted" by simp
  then show ?thesis using app_reach.boot[OF st] app_reach.step by blast
qed


subsection \<open>The end of a connection\<close>

text \<open>C2: when the main thread takes the oldest closed connection from its queue, the session that used it is
  destroyed, all other sessions stay in their rooms, and the connection is inactive, closed and waits to be
  freed.\<close>

theorem close_one_cleans:
  assumes "app_reach E so conf a" "heap_ok (env_heap E)" "dbq_content (sv_new (ap_server a)) = []"
    "dbq_content (sv_closed (ap_server a)) = p # C"
  shows "\<exists>a'. close_one E p a = Some a'
    \<and> (\<forall>s. w_sessions (ap_world a') s = None \<longleftrightarrow> w_sessions (ap_world a) s = None \<or> conn_of (ap_world a) s = Some p)
    \<and> (\<forall>s. conn_of (ap_world a) s \<noteq> Some p \<longrightarrow> room_of (ap_world a') s = room_of (ap_world a) s)
    \<and> (\<forall>s r. conn_of (ap_world a) s = Some p \<longrightarrow> s \<notin> members (ap_world a') r)
    \<and> p \<notin> set (sv_active (ap_server a')) \<and> p \<in> set (sv_waiting (ap_server a'))
    \<and> (\<exists>c. w_conns (ap_world a') p = Some c \<and> IsClosed c)"
proof -
  have inv: "app_inv a" by (rule app_reach_inv[OF assms(1,2)])
  then have b: "base_ok a" and l: "lists_inv [] (p # C) a" using assms(3,4) by (simp_all add: app_inv_def lists_ok_def)
  obtain a' where a': "close_one E p a = Some a'" "base_ok a'" "lists_inv [] C a'"
    "\<forall>s. w_sessions (ap_world a') s = None \<longleftrightarrow> w_sessions (ap_world a) s = None \<or> conn_of (ap_world a) s = Some p"
    "\<forall>s. conn_of (ap_world a) s \<noteq> Some p \<longrightarrow> room_of (ap_world a') s = room_of (ap_world a) s"
    using close_one_ok[OF assms(2) b l] by blast
  have act: "p \<in> active a" using l by (auto simp: lists_inv_def)
  then obtain c where c: "w_conns (ap_world a) p = Some c" "\<not> IsClosed c"
    using lists_inv_active[OF l] by (auto simp: open_conn_def IsClosed_def)
  have w: "p \<in> set (sv_waiting (ap_server a'))"
    using a'(1) c by (auto simp: close_one_def Let_def split: Option.bind_splits)
  then have n: "p \<notin> active a'" "shut_at a' p" using a'(3) unfolding lists_inv_def by blast+
  have "s \<notin> members (ap_world a') r" if "conn_of (ap_world a) s = Some p" for s r
  proof -
    have "w_sessions (ap_world a') s = None" using a'(4) that by simp
    then have "room_of (ap_world a') s = None" by (simp add: room_of_def)
    moreover have "room_of (ap_world a') s = Some r \<longleftrightarrow> s \<in> members (ap_world a') r"
      using base_okD(1)[OF a'(2)] by (simp add: world_ok_def members_ok_def)
    ultimately show ?thesis by simp
  qed
  then show ?thesis using a'(1,4,5) w n
    by (auto simp: active_def shut_at_def shut_conn_def IsClosed_def split: option.splits)
qed

lemmas demo_start_defs = demo_accepted_def demo_started_def Account_Init_def Account_Reload_def AddPimpl_def pimpl_of_def
  demo_loader_def demo_config_def app_boot_def Account_Inject_def Account_new_def Let_def on_new_connection_def
  OnNewConnection_def app_GetSessionId_def put_conn_def put_server_def Pimpl_Init_def Pimpl_new_def RegisterOpcode_def
  SubscribeConnClosedMessage_def

text \<open>A round makes the connection active; then libuv reports the end of the stream and its close.\<close>

definition demo_conn :: conn where
  "demo_conn = (StartRead uv_fine (Conn_Init (Some (''h'', 1)) (Conn_new 100 (replicate 129 []))))
     \<lparr> c_session_id := ''h:1'' \<rparr>"

lemma demo_conn_fields [simp]:
  "c_queue demo_conn = cf_new (replicate 129 [])" "c_buf demo_conn = None" "c_uv_reading demo_conn"
  "c_closing demo_conn = False" "c_keep_alive demo_conn = 100" "c_notices demo_conn = 0" "c_uv_closes demo_conn = 0"
  "c_running demo_conn"
  by (simp_all add: demo_conn_def StartRead_def Conn_Init_def Conn_new_def uv_fine_def)

lemma demo_conn_same: "demo_conn\<lparr> c_queue := cf_new (replicate 129 []) \<rparr> = demo_conn"
  by (simp add: demo_conn_def StartRead_def Conn_Init_def Conn_new_def uv_fine_def)

lemma demo_digits: "dec_digits (Suc 0) = ''1''"
  by (subst dec_digits.simps) (simp add: char_of_def bit_0)

lemma demo_accepted_conn:
  "w_conns (ap_world demo_accepted) = [4 \<mapsto> demo_conn]" "ap_server demo_accepted = \<lparr> sv_new = snd (dbq_push dbq_new 4),
     sv_closed = dbq_new, sv_active = [], sv_waiting = [], sv_keepalive_at = None, sv_delete_at = None \<rparr>"
  "w_manager (ap_world demo_accepted) = []" "w_now (ap_world demo_accepted) = 100"
  by (simp_all add: demo_start_defs demo_conn_def GetSessionId_def StartRead_def Conn_Init_def Conn_new_def uv_fine_def
      demo_digits split: prod.split)

lemma demo_read_nothing:
  "Packet_new plenty = Some p \<Longrightarrow> \<exists>p1. Conn_Read plenty p demo_conn = Some (0, p1, demo_conn)"
  by (simp add: Conn_Read_def IsDataEnough_def Conn_Read_data_def cf_pop_def cf_new_def[symmetric] demo_conn_same)
     (simp add: cf_new_def demo_conn_def StartRead_def Conn_Init_def Conn_new_def uv_fine_def)

lemma demo_active:
  "\<exists>a. app_reach demo_env demo_loader demo_config a \<and> w_conns (ap_world a) = [4 \<mapsto> demo_conn]
     \<and> dbq_content (sv_new (ap_server a)) = [] \<and> dbq_content (sv_closed (ap_server a)) = [] \<and> active a = {4}"
proof -
  have n: "NextQueueIndex 0 = 1" by (simp add: NextQueueIndex_def)
  let ?q = "\<lparr> db_queues = [[], [4]], db_index = 0 \<rparr> :: ptr dbq"
  have p: "snd (dbq_push dbq_new (4::ptr)) = ?q" by (simp add: dbq_push_def dbq_insert_def dbq_new_def n)
  obtain q where q: "drain dbq_pop (dbq_swap ?q) = Some ([4], q)" "dbq_content q = []"
    using dbq_swap_drain[of ?q] by (auto simp: dbq_ok_def dbq_size_def dbq_content_def n)
  obtain q0 where q0: "drain dbq_pop (dbq_swap (dbq_new::ptr dbq)) = Some ([], q0)" "dbq_content q0 = []"
    using dbq_swap_drain[of "dbq_new::ptr dbq"] by (auto simp: dbq_size_def dbq_new_def dbq_ok_def dbq_content_def n)
  define a1 where "a1 = demo_accepted\<lparr> ap_server := \<lparr> sv_new = q, sv_closed = q0, sv_active = [4], sv_waiting = [],
     sv_keepalive_at = Some 100, sv_delete_at = Some 100 \<rparr> \<rparr>"
  have pc: "ProcessConnections demo_env demo_accepted = Some a1"
    using q(1) q0(1)
    by (simp add: ProcessConnections_def ProcessNew_def ProcessClosed_def ProcessConnnectionsKeepAlive_def
        ProcessWaitDeleteConnections_def demo_accepted_conn p Let_def put_server_def a1_def field_or_def)
  obtain pk where pk: "Packet_new plenty = Some pk" by (simp add: Packet_new_def calloc_block_def plenty_def)
  obtain pk1 where r: "Conn_Read plenty pk demo_conn = Some (0, pk1, demo_conn)" using demo_read_nothing[OF pk] by blast
  have "put_conn 4 demo_conn a1 = a1"
    by (simp add: a1_def put_conn_def demo_accepted_conn(1))
  then have d: "dispatch_conn demo_env 4 pk a1 = Some a1"
    by (subst dispatch_conn.simps) (simp add: a1_def demo_accepted_conn(1) r Let_def)
  have "Dispatcher_Update demo_env demo_accepted = Some a1"
    using pk d by (simp add: Dispatcher_Update_def pc) (simp add: a1_def)
  then have "OurGameLoop_Update demo_env demo_accepted = Some a1"
    by (simp add: OurGameLoop_Update_def Manager_Update_def) (simp add: a1_def demo_accepted_conn(3))
  then have "app_reach demo_env demo_loader demo_config a1" using demo_reach app_step.round app_reach.step by blast
  moreover have "w_conns (ap_world a1) = [4 \<mapsto> demo_conn]" by (simp add: a1_def demo_accepted_conn(1))
  ultimately show ?thesis using q(2) q0(2) by (intro exI[of _ a1]) (simp add: a1_def active_def)
qed

theorem close_one_cleans_witness:
  "\<exists>a a'. app_reach demo_env demo_loader demo_config a \<and> dbq_content (sv_closed (ap_server a)) = [4]
     \<and> close_one demo_env 4 a = Some a' \<and> 4 \<in> set (sv_waiting (ap_server a'))"
proof -
  obtain a where a: "app_reach demo_env demo_loader demo_config a" "w_conns (ap_world a) = [4 \<mapsto> demo_conn]"
    "dbq_content (sv_new (ap_server a)) = []" "dbq_content (sv_closed (ap_server a)) = []" "active a = {4}"
    using demo_active by blast
  have k: "4 \<in> known a" using a(5) by (simp add: known_def)
  let ?c = "do_read uv_fine None demo_conn" let ?a1 = "put_conn 4 ?c a"
  have r1: "app_reach demo_env demo_loader demo_config ?a1"
    by (rule app_reach.step[OF a(1)], rule app_step.received[OF k]) (simp_all add: a(2))
  have k1: "4 \<in> known ?a1" using a(5) by (simp add: known_def active_def)
  let ?a2 = "Server_OnMessage_close 4 (put_conn 4 (on_closed ?c) ?a1)"
  have c: "c_notices ?c < c_uv_closes ?c" by (simp add: do_read_def do_close_def)
  have "conn_closed 4 ?a1 = Some ?a2" by (simp add: conn_closed_def)
  from app_reach.step[OF r1 app_step.closed[OF k1 _ c this]]
  have r2: "app_reach demo_env demo_loader demo_config ?a2" by simp
  have "dbq_ok (sv_closed (ap_server a))"
    using app_reach_inv[OF a(1)] by (simp add: app_inv_def lists_ok_def queues_ok_def)
  then have "dbq_content (sv_closed (ap_server ?a2)) = [4]" "dbq_content (sv_new (ap_server ?a2)) = []"
    using a(3,4) by (simp_all add: Server_OnMessage_close_def dbq_push_content)
  with close_one_cleans[OF r2] r2 show ?thesis by fastforce
qed

subsection \<open>Between the two swaps\<close>

text \<open>\<open>ProcessConnections\<close> swaps the two queues one after the other.  A connection that is accepted and closed
  by the network thread between the swaps is handled as closed before it becomes active: it waits to be freed
  and then enters the active set for good, so that after five minutes the active set holds a freed
  connection and the keep-alive check reads it.\<close>

theorem close_overtakes_accept:
  assumes "dbq_ok (sv_new (ap_server a))" "dbq_size (sv_new (ap_server a)) = 0" "dbq_content (sv_new (ap_server a)) = [p]"
    "p \<notin> set (sv_active (ap_server a))" "w_conns (ap_world a) p = Some c" "\<not> IsClosed c"
  shows "\<exists>a1 a2 c2 a3. close_one E p a = Some a1 \<and> p \<in> set (sv_waiting (ap_server a1))
    \<and> ProcessNew a1 = Some a2 \<and> p \<in> set (sv_active (ap_server a2)) \<and> w_conns (ap_world a2) p = Some c2 \<and> IsClosed c2
    \<and> delete_one p (a2\<lparr> ap_world := (ap_world a2)\<lparr> w_now := c_closing_time c2 + 300 \<rparr> \<rparr>) = Some a3
    \<and> p \<in> set (sv_active (ap_server a3)) \<and> keepalive_one p a3 = None"
proof -
  let ?c2 = "Conn_OnClosed (w_now (ap_world a)) c"
  define a1 where "a1 = put_server ((ap_server a)\<lparr> sv_waiting := sv_waiting (ap_server a) @ [p] \<rparr>) (put_conn p ?c2 a)"
  have 1: "close_one E p a = Some a1" using assms(4-6) by (simp add: close_one_def ProcessConnClosed_def Let_def a1_def)
  obtain q' where q': "drain dbq_pop (dbq_swap (sv_new (ap_server a))) = Some ([p], q')"
    using dbq_swap_drain[OF assms(1,2)] assms(3) by auto
  define a2 where "a2 = put_server ((ap_server a1)\<lparr> sv_new := q', sv_active := oset_insert p (sv_active (ap_server a)) \<rparr>) a1"
  have 2: "ProcessNew a1 = Some a2" using q' by (simp add: ProcessNew_def a2_def a1_def Let_def)
  have act: "p \<in> set (sv_active (ap_server a2))" by (simp add: a2_def)
  have c2: "w_conns (ap_world a2) p = Some ?c2" by (simp add: a2_def a1_def)
  let ?b = "a2\<lparr> ap_world := (ap_world a2)\<lparr> w_now := c_closing_time ?c2 + 300 \<rparr> \<rparr>"
  have 3: "\<exists>a3. delete_one p ?b = Some a3 \<and> sv_active (ap_server a3) = sv_active (ap_server a2) \<and> w_conns (ap_world a3) p = None"
    using c2 by (simp add: delete_one_def Let_def)
  then obtain a3 where a3: "delete_one p ?b = Some a3" "sv_active (ap_server a3) = sv_active (ap_server a2)" "w_conns (ap_world a3) p = None"
    by blast
  have "IsClosed ?c2" by (simp add: IsClosed_def Conn_OnClosed_def)
  then show ?thesis using 1 2 act c2 a3 by (simp add: keepalive_one_def a1_def)
qed

theorem close_overtakes_accept_witness:
  "\<exists>a1 a2. close_one demo_env 4 demo_accepted = Some a1 \<and> ProcessNew a1 = Some a2
     \<and> 4 \<in> set (sv_active (ap_server a2)) \<and> 4 \<in> set (sv_waiting (ap_server a1))"
proof -
  have n: "NextQueueIndex 0 = 1" by (simp add: NextQueueIndex_def)
  have "dbq_ok (sv_new (ap_server demo_accepted))" "dbq_size (sv_new (ap_server demo_accepted)) = 0"
    "dbq_content (sv_new (ap_server demo_accepted)) = [4]" "w_conns (ap_world demo_accepted) 4 = Some demo_conn"
    "4 \<notin> set (sv_active (ap_server demo_accepted))" "\<not> IsClosed demo_conn"
    by (simp_all add: demo_accepted_conn dbq_push_def dbq_insert_def dbq_new_def dbq_ok_def dbq_size_def dbq_content_def
        n IsClosed_def)
  from close_overtakes_accept[OF this(1-3,5,4,6), of demo_env] show ?thesis by blast
qed

subsection \<open>The versions of the account service\<close>

text \<open>The version takes requests and knows the player of this session id.\<close>

definition serves :: "app \<Rightarrow> string \<Rightarrow> string \<Rightarrow> bool" where
  "serves a sid u = (case pimpl_of a u of None \<Rightarrow> False
     | Some pi \<Rightarrow> pi_can_login pi \<and> (case pi_sessions pi of None \<Rightarrow> False | Some m \<Rightarrow> omap_find m sid \<noteq> None))"

lemma Pimpl_OnRecvPacket_not:
  assumes "pimpl_of a u = Some pi" "pi_sessions pi = Some m" "sid_of a p \<noteq> []" "\<not> serves a (sid_of a p) u"
  shows "Pimpl_OnRecvPacket E u p request a = Some (False, a)"
  using assms app_GetSessionId_known[OF assms(3)]
  by (auto simp: Pimpl_OnRecvPacket_def serves_def GetPlayerSessionBySessionId_def)

lemma Pimpl_OnRecvPacket_serves:
  assumes "Pimpl_OnRecvPacket E u p request a = Some (ok, a')" "sid_of a p \<noteq> []" "serves a (sid_of a p) u"
  shows "ok"
  using assms app_GetSessionId_known[OF assms(2)]
  by (auto simp: Pimpl_OnRecvPacket_def serves_def GetPlayerSessionBySessionId_def split: option.splits Option.bind_splits)

text \<open>C10: a request goes to the oldest version, other than the newest, that already knows the player and still
  takes requests; with no such version the newest one takes the player in (or finds him) and serves the
  request.  So a reload never moves a player to another version.\<close>

theorem recv_routes_to_first_version:
  assumes "map fst (ac_pimpls (ap_account a)) = us @ [v]" "sid_of a p \<noteq> []"
    "\<forall>u\<in>set us. \<exists>pi m. pimpl_of a u = Some pi \<and> pi_sessions pi = Some m"
  shows "Account_OnRecvPacket E p request a =
    (case find (serves a (sid_of a p)) us of
       Some u \<Rightarrow> Pimpl_OnRecvPacket E u p request a
     | None \<Rightarrow> do { a1 \<leftarrow> AddTcpConnection v p a; (_, a2) \<leftarrow> Pimpl_OnRecvPacket E v p request a1; Some (True, a2) })"
proof -
  have "recv_versions E p request (us @ [v]) a =
    (case find (serves a (sid_of a p)) us of
       Some u \<Rightarrow> Pimpl_OnRecvPacket E u p request a
     | None \<Rightarrow> do { a1 \<leftarrow> AddTcpConnection v p a; (_, a2) \<leftarrow> Pimpl_OnRecvPacket E v p request a1; Some (True, a2) })"
    using assms(3)
  proof (induction us)
    case (Cons u us)
    obtain pi m where pi: "pimpl_of a u = Some pi" "pi_sessions pi = Some m" using Cons.prems by auto
    have rv: "recv_versions E p request ((u # us) @ [v]) a = do {
        (served, a1) \<leftarrow> Pimpl_OnRecvPacket E u p request a;
        if served then Some (True, a1) else recv_versions E p request (us @ [v]) a1 }"
    proof (cases us)
      case Nil show ?thesis unfolding Nil append.simps recv_versions.simps by (rule refl)
    next
      case (Cons u' us') show ?thesis unfolding Cons append.simps recv_versions.simps by (rule refl)
    qed
    show ?case
    proof (cases "serves a (sid_of a p) u")
      case True
      then show ?thesis unfolding rv
        using Pimpl_OnRecvPacket_serves[OF _ assms(2) True, of E request]
        by (cases "Pimpl_OnRecvPacket E u p request a") (auto split: prod.split)
    next
      case False
      then show ?thesis unfolding rv Pimpl_OnRecvPacket_not[OF pi assms(2) False] using Cons by simp
    qed
  qed simp
  then show ?thesis by (simp add: Account_OnRecvPacket_def assms(1))
qed

text \<open>C11: but the end of a connection is only told to the oldest version, whose \<open>OnConnClosed\<close> claims it
  whether it knows the player or not.  A player of a newer version keeps its session, and once the connection
  is freed the next message to that player reads the freed object.\<close>

theorem closed_only_reaches_oldest_version:
  assumes "map fst (ac_pimpls (ap_account a)) = u # v # vs" "sid_of a p \<noteq> []"
    "pimpl_of a u = Some pi" "omap_find (pi_conns pi) (sid_of a p) = None"
    "w_sessions (ap_world a) s = Some ss" "s_conn ss = Some p"
  shows "Account_OnConnClosed E p a = Some (True, a)
    \<and> SendTranscode E s pkt ((ap_world a)\<lparr> w_conns := (w_conns (ap_world a))(p := None) \<rparr>) = None"
  using assms app_GetSessionId_known[OF assms(2)]
  by (simp add: Account_OnConnClosed_def Pimpl_OnConnClosed_def RemoveTcpConnection_def SendTranscode_def)

text \<open>A process with two versions; the newer one has the player.\<close>

definition demo_pimpl :: "(string \<times> ptr) list \<Rightarrow> (string \<times> ptr) list \<Rightarrow> pimpl" where
  "demo_pimpl cs m = Pimpl_new\<lparr> pi_conns := cs, pi_sessions := Some m \<rparr>"

definition demo_app :: app where
  "demo_app = (app_boot 100)\<lparr>
     ap_world := demo_world\<lparr> w_conns := (\<lambda>p. if p = 1 then Some ((Conn_new 0 [])\<lparr> c_session_id := ''a'' \<rparr>) else w_conns demo_world p) \<rparr>,
     ap_account := Account_new\<lparr> ac_pimpls := [(''1'', demo_pimpl [] []), (''2'', demo_pimpl [(''a'', 1)] [(''a'', 10)])] \<rparr> \<rparr>"

lemma demo_app_simps [simp]:
  "map fst (ac_pimpls (ap_account demo_app)) = [''1'', ''2'']" "sid_of demo_app (Suc 0) = ''a''"
  "pimpl_of demo_app ''1'' = Some (demo_pimpl [] [])" "pimpl_of demo_app ''2'' = Some (demo_pimpl [(''a'', 1)] [(''a'', 10)])"
  "w_sessions (ap_world demo_app) 10 = Some demo_guest" "pi_conns (demo_pimpl cs m) = cs" "pi_sessions (demo_pimpl cs m) = Some m"
  by (simp_all add: demo_app_def Account_new_def sid_of_def pimpl_of_def demo_pimpl_def)

theorem recv_routes_to_first_version_witness:
  "Account_OnRecvPacket demo_env 1 (Protobuf_new 0 []) demo_app
     = do { a1 \<leftarrow> AddTcpConnection ''2'' 1 demo_app;
            (_, a2) \<leftarrow> Pimpl_OnRecvPacket demo_env ''2'' 1 (Protobuf_new 0 []) a1; Some (True, a2) }"
  using recv_routes_to_first_version[of demo_app "[''1'']" "''2''" 1 demo_env "Protobuf_new 0 []"]
  by (simp add: serves_def)

theorem closed_only_reaches_oldest_version_witness:
  "Account_OnConnClosed demo_env 1 demo_app = Some (True, demo_app)"
  using closed_only_reaches_oldest_version[of demo_app "''1''" "''2''" "[]" 1 "demo_pimpl [] []" 10 demo_guest demo_env]
  by simp

end
