(* ===== verification/Services.thy ===== *)
theory Services
  imports WB_Prelude
begin

text \<open>
  The service manager: \<open>DependencyResolver\<close> (\<open>framework/server/dependencyResolver.cpp\<close>) and
  \<open>ServiceManager\<close> (\<open>service_manager.cpp\<close>, \<open>service_manager.h\<close>).  A \<open>Service*\<close> is an address; what its
  virtual methods do is the record \<open>svc_ops\<close>, over the state \<open>'st\<close> of the services.  \<open>services_[name]\<close> of a
  name that is not there is a null pointer, whose method call is \<^const>\<open>None\<close>.
\<close>

type_synonym svc_map = "(string \<times> nat) list"

record 'st svc_ops =
  op_deps :: "nat \<Rightarrow> string list"                      \<comment> \<open>\<open>GetDependentServices\<close>\<close>
  op_inject :: "nat \<Rightarrow> string \<Rightarrow> nat \<Rightarrow> 'st \<Rightarrow> 'st"
  op_init :: "nat \<Rightarrow> 'st \<Rightarrow> (bool \<times> 'st) option"
  op_start :: "nat \<Rightarrow> 'st \<Rightarrow> (bool \<times> 'st) option"
  op_stop :: "nat \<Rightarrow> 'st \<Rightarrow> (bool \<times> 'st) option"
  op_running :: "nat \<Rightarrow> 'st \<Rightarrow> bool"

subsection \<open>DependencyResolver\<close>

definition GetNewServices :: "string list \<Rightarrow> svc_map \<Rightarrow> svc_map" where
  "GetNewServices orders services = filter (\<lambda>it. fst it \<notin> set orders) services"

definition GetLackServices :: "(nat \<Rightarrow> string list) \<Rightarrow> string list \<Rightarrow> svc_map \<Rightarrow> string list" where
  "GetLackServices deps orders services =
     concat (map (\<lambda>it. filter (\<lambda>d. omap_find services d = None) (deps (snd it))) (GetNewServices orders services))"

abbreviation (input) MAX_SERVICE_COUNT :: nat where "MAX_SERVICE_COUNT \<equiv> 256"

definition dep_graph :: "string list list \<Rightarrow> string list \<Rightarrow> int list list" where
  "dep_graph vecDependency names =
     map (\<lambda>i. map (\<lambda>j. if i \<noteq> j \<and> names ! j \<in> set (vecDependency ! i) then 1 else 0) [0..<length names]) [0..<length names]"

text \<open>One round takes the first service with no open dependency and closes the edges to it.\<close>

definition close_edges :: "int list list \<Rightarrow> nat \<Rightarrow> int list \<Rightarrow> int list" where
  "close_edges graph j out = map (\<lambda>k. if graph ! k ! j > 0 then out ! k - 1 else out ! k) [0..<length out]"

primrec top_rounds :: "nat \<Rightarrow> string list \<Rightarrow> int list list \<Rightarrow> int list \<Rightarrow> string list \<Rightarrow> bool \<times> string list" where
  "top_rounds 0 names graph out orders = (True, orders)"
| "top_rounds (Suc i) names graph out orders =
     (let j = length (takeWhile (\<lambda>x. x \<noteq> 0) out) in
      if length names \<le> j then (False, orders)
      else top_rounds i names graph (close_edges graph j (out[j := -1])) (orders @ [names ! j]))"

text \<open>The arrays have \<open>MAX_SERVICE_COUNT\<close> rows.\<close>

definition TopSort :: "(nat \<Rightarrow> string list) \<Rightarrow> svc_map \<Rightarrow> string list \<Rightarrow> (bool \<times> string list) option" where
  "TopSort deps services orders =
     (let names = map fst services; graph = dep_graph (map (\<lambda>it. deps (snd it)) services) names in
      if MAX_SERVICE_COUNT < length services then None
      else Some (top_rounds (length services) names graph (map sum_list graph) orders))"

text \<open>\<open>offset\<close> is an \<open>int16_t\<close>.\<close>

definition LoadInitSort :: "(nat \<Rightarrow> string list) \<Rightarrow> svc_map \<Rightarrow> string list \<Rightarrow> (string list \<times> string list) option" where
  "LoadInitSort deps services orders =
     (if 2 ^ 15 \<le> length orders then None
      else do {
        (ok, orders') \<leftarrow> TopSort deps (GetNewServices orders services) orders;
        Some (if ok then drop (length orders) orders' else [], orders') })"

fun start_sort :: "(nat \<Rightarrow> bool) \<Rightarrow> svc_map \<Rightarrow> string list \<Rightarrow> string list option" where
  "start_sort running services [] = Some []"
| "start_sort running services (n # ns) = do {
     g \<leftarrow> omap_find services n;
     if running g then start_sort running services ns else Some (n # ns) }"

subsection \<open>ServiceManager\<close>

record manager =
  sm_services :: svc_map
  sm_orders :: "string list"       \<comment> \<open>\<open>dependencyResolver_.orders_\<close>\<close>
  sm_initialized :: bool
  sm_running :: bool

definition SM_new :: manager where
  "SM_new = \<lparr> sm_services = [], sm_orders = [], sm_initialized = False, sm_running = False \<rparr>"

definition SM_Register :: "string \<Rightarrow> nat \<Rightarrow> manager \<Rightarrow> bool \<times> manager" where
  "SM_Register name g m =
     (if omap_find (sm_services m) name \<noteq> None then (False, m)
      else (True, m\<lparr> sm_services := omap_put name g (sm_services m) \<rparr>))"

definition SM_Deregister :: "string \<Rightarrow> manager \<Rightarrow> nat option \<times> manager" where
  "SM_Deregister name m = (case omap_find (sm_services m) name of
     Some g \<Rightarrow> (Some g, m\<lparr> sm_services := omap_erase name (sm_services m) \<rparr>)
   | None \<Rightarrow> (None, m))"

definition SM_LocateService :: "string \<Rightarrow> manager \<Rightarrow> nat option" where
  "SM_LocateService name m = omap_find (sm_services m) name"

text \<open>A loop over services by name that stops at the first failure.\<close>

fun run_services :: "(nat \<Rightarrow> 'st \<Rightarrow> (bool \<times> 'st) option) \<Rightarrow> svc_map \<Rightarrow> string list \<Rightarrow> 'st \<Rightarrow> (bool \<times> 'st) option" where
  "run_services f services [] st = Some (True, st)"
| "run_services f services (n # ns) st = do {
     g \<leftarrow> omap_find services n;
     (ok, st1) \<leftarrow> f g st;
     if ok then run_services f services ns st1 else Some (False, st1) }"

definition inject_deps :: "'st svc_ops \<Rightarrow> svc_map \<Rightarrow> nat \<Rightarrow> 'st \<Rightarrow> (bool \<times> 'st) option" where
  "inject_deps ops services g st = Some (True,
     fold (\<lambda>d st. case omap_find services d of Some g' \<Rightarrow> op_inject ops g d g' st | None \<Rightarrow> st) (op_deps ops g) st)"

definition SM_Init :: "'st svc_ops \<Rightarrow> manager \<Rightarrow> 'st \<Rightarrow> (bool \<times> manager \<times> 'st) option" where
  "SM_Init ops m st =
     (if GetLackServices (op_deps ops) (sm_orders m) (sm_services m) \<noteq> [] then Some (False, m, st)
      else do {
        (orders, all_orders) \<leftarrow> LoadInitSort (op_deps ops) (sm_services m) (sm_orders m);
        let m1 = m\<lparr> sm_orders := all_orders \<rparr>;
        (_, st1) \<leftarrow> run_services (inject_deps ops (sm_services m)) (sm_services m) orders st;
        (ok, st2) \<leftarrow> run_services (op_init ops) (sm_services m) orders st1;
        Some (ok, if ok then m1\<lparr> sm_initialized := True \<rparr> else m1, st2) })"

definition SM_Start :: "'st svc_ops \<Rightarrow> manager \<Rightarrow> 'st \<Rightarrow> (bool \<times> manager \<times> 'st) option" where
  "SM_Start ops m st =
     (if \<not> sm_initialized m then Some (False, m, st)
      else do {
        orders \<leftarrow> start_sort (\<lambda>g. op_running ops g st) (sm_services m) (sm_orders m);
        (ok, st1) \<leftarrow> run_services (op_start ops) (sm_services m) orders st;
        Some (ok, if ok then m\<lparr> sm_running := True \<rparr> else m, st1) })"

definition stop_one :: "'st svc_ops \<Rightarrow> nat \<Rightarrow> 'st \<Rightarrow> (bool \<times> 'st) option" where
  "stop_one ops g st = (if op_running ops g st then op_stop ops g st else Some (True, st))"

definition SM_Stop :: "'st svc_ops \<Rightarrow> manager \<Rightarrow> 'st \<Rightarrow> (bool \<times> manager \<times> 'st) option" where
  "SM_Stop ops m st = do {
     (ok, st1) \<leftarrow> run_services (stop_one ops) (sm_services m) (rev (sm_orders m)) st;
     Some (ok, if ok then m\<lparr> sm_running := False \<rparr> else m, st1) }"

text \<open>\<open>Destroy\<close> deletes the services in reverse order, then those never sorted in; the deleted ones in order.\<close>

fun destroy_sorted :: "string list \<Rightarrow> svc_map \<Rightarrow> nat list \<times> svc_map" where
  "destroy_sorted [] services = ([], services)"
| "destroy_sorted (n # ns) services = (case omap_find services n of
     Some g \<Rightarrow> (case destroy_sorted ns (omap_erase n services) of (gs, services') \<Rightarrow> (g # gs, services'))
   | None \<Rightarrow> destroy_sorted ns services)"

definition SM_Destroy :: "manager \<Rightarrow> nat list \<times> manager" where
  "SM_Destroy m = (case destroy_sorted (rev (sm_orders m)) (sm_services m) of
     (gs, services) \<Rightarrow> (gs @ map snd services, m\<lparr> sm_services := [] \<rparr>))"

end
