(* ===== verification/Services_Props.thy ===== *)
theory Services_Props
  imports Services
begin

text \<open>
  The topological sort is correct: it succeeds exactly on acyclic dependencies and puts every service after
  those it depends on; start-up follows that order.
\<close>

subsection \<open>The rounds of the sort\<close>

text \<open>\<open>E k j\<close>: service \<open>k\<close> depends on service \<open>j\<close>; \<open>vs\<close> are the services already taken.\<close>

definition ordered :: "(nat \<Rightarrow> nat \<Rightarrow> bool) \<Rightarrow> nat \<Rightarrow> nat list \<Rightarrow> bool" where
  "ordered E n vs \<longleftrightarrow> distinct vs \<and> set vs \<subseteq> {..<n}
     \<and> (\<forall>i<length vs. \<forall>j<n. E (vs ! i) j \<longrightarrow> j \<in> set (take i vs))"

definition open_deps :: "(nat \<Rightarrow> nat \<Rightarrow> bool) \<Rightarrow> nat \<Rightarrow> nat set \<Rightarrow> nat \<Rightarrow> nat set" where
  "open_deps E n V k = {j. j < n \<and> j \<notin> V \<and> E k j}"

definition counts :: "(nat \<Rightarrow> nat \<Rightarrow> bool) \<Rightarrow> nat \<Rightarrow> nat list \<Rightarrow> int list \<Rightarrow> bool" where
  "counts E n vs out \<longleftrightarrow> length out = n
     \<and> (\<forall>k<n. out ! k = (if k \<in> set vs then -1 else int (card (open_deps E n (set vs) k))))"

lemma finite_open_deps [simp]: "finite (open_deps E n V k)"
  by (rule finite_subset[of _ "{..<n}"]) (auto simp: open_deps_def)

lemma ordered_closed: "ordered E n vs \<Longrightarrow> k \<in> set vs \<Longrightarrow> j < n \<Longrightarrow> E k j \<Longrightarrow> j \<in> set vs"
  unfolding ordered_def by (metis in_set_conv_nth in_set_takeD)

lemma ordered_snoc:
  assumes "ordered E n vs" "j < n" "j \<notin> set vs" "open_deps E n (set vs) j = {}"
  shows "ordered E n (vs @ [j])"
proof -
  have "j' \<in> set vs" if "j' < n" "E j j'" for j' using assms(4) that by (auto simp: open_deps_def)
  then show ?thesis using assms(1-3) by (auto simp: ordered_def nth_append less_Suc_eq)
qed

lemma counts_step:
  assumes "ordered E n vs" "counts E n vs out" "j < n" "j \<notin> set vs" "\<not> E j j"
    "\<And>k. k < n \<Longrightarrow> graph ! k ! j > (0::int) \<longleftrightarrow> E k j"
  shows "counts E n (vs @ [j]) (close_edges graph j (out[j := -1]))"
proof -
  have len: "length out = n" using assms(2) by (simp add: counts_def)
  have "close_edges graph j (out[j := -1]) ! k =
      (if k \<in> set (vs @ [j]) then -1 else int (card (open_deps E n (set (vs @ [j])) k)))" if k: "k < n" for k
  proof -
    have val: "close_edges graph j (out[j := -1]) ! k = (if E k j then out[j := -1] ! k - 1 else out[j := -1] ! k)"
      using k len assms(6) by (simp add: close_edges_def)
    consider "k = j" | "k \<noteq> j" "k \<in> set vs" | "k \<noteq> j" "k \<notin> set vs" by blast
    then show ?thesis
    proof cases
      case 1 then show ?thesis using val assms(3,5) len by simp
    next
      case 2
      then have "\<not> E k j" using ordered_closed[OF assms(1) 2(2) assms(3)] assms(4) by blast
      then show ?thesis using val 2 assms(2) k by (simp add: counts_def)
    next
      case 3
      have old: "out ! k = int (card (open_deps E n (set vs) k))" using 3 assms(2) k by (simp add: counts_def)
      show ?thesis
      proof (cases "E k j")
        case True
        have "open_deps E n (set vs) k = insert j (open_deps E n (set (vs @ [j])) k)"
          using True assms(3,4) by (auto simp: open_deps_def)
        then have "card (open_deps E n (set vs) k) = Suc (card (open_deps E n (set (vs @ [j])) k))"
          by (simp add: card_insert_disjoint) (simp add: open_deps_def)
        then show ?thesis using val True 3 old by simp
      next
        case False
        then have "open_deps E n (set (vs @ [j])) k = open_deps E n (set vs) k" by (auto simp: open_deps_def)
        then show ?thesis using val False 3 old by simp
      qed
    qed
  qed
  then show ?thesis using len by (simp add: counts_def close_edges_def)
qed

lemma takeWhile_all: "length xs \<le> length (takeWhile P xs) \<Longrightarrow> x \<in> set xs \<Longrightarrow> P x"
  by (induction xs) (auto split: if_splits)

lemma top_rounds_result:
  assumes "ordered E n vs" "counts E n vs out" "length vs + i = n" "length names = n"
    "\<And>k. \<not> E k k" "\<And>k j. k < n \<Longrightarrow> j < n \<Longrightarrow> graph ! k ! j > (0::int) \<longleftrightarrow> E k j"
  shows "\<exists>us. top_rounds i names graph out orders = (length (vs @ us) = n, orders @ map ((!) names) us)
    \<and> ordered E n (vs @ us)
    \<and> (length (vs @ us) \<noteq> n \<longrightarrow> (\<forall>k<n. k \<notin> set (vs @ us) \<longrightarrow> (\<exists>j<n. j \<notin> set (vs @ us) \<and> E k j)))"
  using assms(1-3)
proof (induction i arbitrary: vs out orders)
  case 0
  then show ?case by (intro exI[of _ "[]"]) simp
next
  case (Suc i)
  let ?j = "length (takeWhile (\<lambda>x. x \<noteq> 0) out)"
  have len: "length out = n" using Suc.prems(2) by (simp add: counts_def)
  show ?case
  proof (cases "n \<le> ?j")
    case True
    then have nz: "\<forall>x\<in>set out. x \<noteq> 0" using takeWhile_all[of out "\<lambda>x. x \<noteq> 0"] len by auto
    have "\<exists>j<n. j \<notin> set vs \<and> E k j" if "k < n" "k \<notin> set vs" for k
    proof -
      have "out ! k \<noteq> 0" using nz that len by simp
      then have "card (open_deps E n (set vs) k) \<noteq> 0" using that Suc.prems(2) by (auto simp: counts_def)
      then have "open_deps E n (set vs) k \<noteq> {}" by (metis card.empty)
      then show ?thesis by (auto simp: open_deps_def)
    qed
    moreover have "length vs \<noteq> n" using Suc.prems(3) by simp
    ultimately show ?thesis using True assms(4) Suc.prems(1) by (intro exI[of _ "[]"]) simp
  next
    case False
    then have j: "?j < n" by simp
    then have z: "out ! ?j = 0" using nth_length_takeWhile[of "\<lambda>x. x \<noteq> 0" out] len by simp
    then have nin: "?j \<notin> set vs" and "card (open_deps E n (set vs) ?j) = 0"
      using Suc.prems(2) j by (auto simp: counts_def split: if_splits)
    then have none: "open_deps E n (set vs) ?j = {}" by simp
    note o' = ordered_snoc[OF Suc.prems(1) j nin none]
    have c': "counts E n (vs @ [?j]) (close_edges graph ?j (out[?j := -1]))"
      by (rule counts_step[OF Suc.prems(1,2) j nin assms(5)]) (use assms(6) j in blast)
    obtain us where us: "top_rounds i names graph (close_edges graph ?j (out[?j := -1])) (orders @ [names ! ?j])
        = (length ((vs @ [?j]) @ us) = n, (orders @ [names ! ?j]) @ map ((!) names) us)"
      "ordered E n ((vs @ [?j]) @ us)"
      "length ((vs @ [?j]) @ us) \<noteq> n \<longrightarrow> (\<forall>k<n. k \<notin> set ((vs @ [?j]) @ us) \<longrightarrow> (\<exists>j<n. j \<notin> set ((vs @ [?j]) @ us) \<and> E k j))"
      using Suc.IH[OF o' c', of "orders @ [names ! ?j]"] Suc.prems(3) by auto
    then show ?thesis using False assms(4) by (intro exI[of _ "?j # us"]) simp
  qed
qed

subsection \<open>The sort of a map of services\<close>

text \<open>The dependencies between different services of the map.\<close>

definition dep_rel :: "(nat \<Rightarrow> string list) \<Rightarrow> svc_map \<Rightarrow> (string \<times> string) set" where
  "dep_rel deps services = {(a, b). \<exists>g. (a, g) \<in> set services \<and> b \<in> set (deps g) \<and> b \<noteq> a \<and> b \<in> fst ` set services}"

lemma count_upt: "sum_list (map (\<lambda>j. if P j then 1 else 0) [0..<n]) = int (card {j. j < n \<and> P j})"
proof (induction n)
  case (Suc n)
  have "{j. j < Suc n \<and> P j} = (if P n then insert n {j. j < n \<and> P j} else {j. j < n \<and> P j})"
    by (auto simp: less_Suc_eq)
  then show ?case using Suc by simp
qed simp

lemma TopSort_result:
  assumes "omap_ok services" "length services \<le> 256"
  shows "\<exists>ok os. TopSort deps services orders = Some (ok, orders @ os) \<and> distinct os \<and> set os \<subseteq> fst ` set services
    \<and> (\<forall>i<length os. \<forall>b. (os ! i, b) \<in> dep_rel deps services \<longrightarrow> b \<in> set (take i os))
    \<and> (ok \<longleftrightarrow> set os = fst ` set services)
    \<and> (\<not> ok \<longrightarrow> (\<forall>a\<in>fst ` set services - set os. \<exists>b\<in>fst ` set services - set os. (a, b) \<in> dep_rel deps services))"
proof -
  let ?n = "length services" let ?names = "map fst services"
  let ?vec = "map (\<lambda>it. deps (snd it)) services" let ?graph = "dep_graph ?vec ?names"
  define E where "E i j \<longleftrightarrow> i \<noteq> j \<and> j < ?n \<and> ?names ! j \<in> set (deps (snd (services ! i)))" for i j
  have dn: "distinct ?names" using assms(1) by (rule omap_ok_distinct)
  have g: "?graph ! k ! j > 0 \<longleftrightarrow> E k j" if "k < ?n" "j < ?n" for k j using that by (simp add: dep_graph_def E_def)
  have "sum_list (?graph ! k) = int (card (open_deps E ?n (set []) k))" if "k < ?n" for k
    using that count_upt[of "\<lambda>j. k \<noteq> j \<and> ?names ! j \<in> set (?vec ! k)" ?n]
    by (simp add: dep_graph_def open_deps_def E_def conj_ac cong: conj_cong)
  then have "counts E ?n [] (map sum_list ?graph)" by (simp add: counts_def dep_graph_def)
  then obtain us where us: "top_rounds ?n ?names ?graph (map sum_list ?graph) orders = (length us = ?n, orders @ map ((!) ?names) us)"
    "ordered E ?n us" "length us \<noteq> ?n \<longrightarrow> (\<forall>k<?n. k \<notin> set us \<longrightarrow> (\<exists>j<?n. j \<notin> set us \<and> E k j))"
    using top_rounds_result[of E ?n "[]" "map sum_list ?graph" ?n ?names ?graph orders] g
    by (auto simp: ordered_def E_def)
  let ?os = "map ((!) ?names) us"
  have us_n: "set us \<subseteq> {..<?n}" "distinct us" using us(2) by (simp_all add: ordered_def)
  have inj: "inj_on ((!) ?names) {..<?n}" using inj_on_nth[OF dn, of "{..<?n}"] by simp
  have dist: "distinct ?os" using us_n inj by (simp add: distinct_map inj_on_subset)
  have names: "fst ` set services = (!) ?names ` {..<?n}"
  proof -
    have "set ?names = (!) ?names ` {..<length ?names}" unfolding set_conv_nth by blast
    then show ?thesis by simp
  qed
  have sub: "set ?os \<subseteq> fst ` set services" using us_n(1) by (auto simp: names)
  have rel: "(?names ! k, b) \<in> dep_rel deps services \<longleftrightarrow> (\<exists>j<?n. E k j \<and> b = ?names ! j)" if k: "k < ?n" for k b
  proof
    assume "(?names ! k, b) \<in> dep_rel deps services"
    then obtain g j where r: "(?names ! k, g) \<in> set services" "b \<in> set (deps g)" "b \<noteq> ?names ! k" "j < ?n" "b = ?names ! j"
      by (auto simp: dep_rel_def names)
    have "g = snd (services ! k)"
      using r(1) k dn by (metis nth_map nth_mem prod.collapse eq_key_imp_eq_value)
    then show "\<exists>j<?n. E k j \<and> b = ?names ! j" using r(2-5) by (auto simp: E_def intro!: exI[of _ j])
  next
    assume "\<exists>j<?n. E k j \<and> b = ?names ! j"
    then obtain j where j: "j < ?n" "E k j" "b = ?names ! j" by blast
    then have "b \<noteq> ?names ! k" using k dn by (simp add: E_def nth_eq_iff_index_eq del: nth_map)
    moreover have "(?names ! k, snd (services ! k)) \<in> set services" using k by simp
    ultimately show "(?names ! k, b) \<in> dep_rel deps services" using j by (auto simp: dep_rel_def E_def)
  qed
  have order: "b \<in> set (take i ?os)" if i: "i < length ?os" and b: "(?os ! i, b) \<in> dep_rel deps services" for i b
  proof -
    have k: "us ! i < ?n" using i us_n(1) nth_mem[of i us] by (metis length_map lessThan_iff subsetD)
    then obtain j where j: "j < ?n" "E (us ! i) j" "b = ?names ! j" using rel[OF k] b i by auto
    then have "j \<in> set (take i us)" using us(2) i by (simp add: ordered_def)
    then show ?thesis using j(3) by (simp add: take_map)
  qed
  have full: "length us = ?n \<longleftrightarrow> set ?os = fst ` set services"
  proof
    assume "length us = ?n"
    then have "set us = {..<?n}" using us_n by (intro card_subset_eq) (simp_all add: distinct_card)
    then show "set ?os = fst ` set services" by (simp add: names)
  next
    assume "set ?os = fst ` set services"
    then have "card (set ?os) = card (fst ` set services)" by simp
    also have "\<dots> = ?n" using dn by (metis distinct_card length_map list.set_map)
    finally show "length us = ?n" using distinct_card[OF dist] by (metis length_map)
  qed
  have stuck: "\<exists>b\<in>fst ` set services - set ?os. (a, b) \<in> dep_rel deps services"
    if "length us \<noteq> ?n" "a \<in> fst ` set services - set ?os" for a
  proof -
    note h = that
    obtain k where k: "k < ?n" "a = ?names ! k" using h(2) by (auto simp: names)
    then have "k \<notin> set us" using h(2) by (metis DiffD2 image_eqI list.set_map)
    then obtain j where j: "j < ?n" "j \<notin> set us" "E k j" using us(3) h(1) k(1) by blast
    have "?names ! j \<notin> set ?os"
    proof
      assume "?names ! j \<in> set ?os"
      then obtain i where "i \<in> set us" "?names ! j = ?names ! i" by auto
      then have "j = i" using inj j(1) us_n(1) by (auto simp: inj_on_def)
      then show False using j(2) \<open>i \<in> set us\<close> by simp
    qed
    then show ?thesis using rel[OF k(1)] k(2) j by (auto simp: names)
  qed
  have "TopSort deps services orders = Some (length us = ?n, orders @ ?os)"
    using us(1) assms(2) by (simp add: TopSort_def Let_def)
  then show ?thesis using dist sub order full stuck by blast
qed

text \<open>A list in dependency order ranks the dependencies.\<close>

lemma ordered_acyclic:
  assumes "distinct os" "fst ` set services \<subseteq> set os"
    "\<And>i b. i < length os \<Longrightarrow> (os ! i, b) \<in> dep_rel deps services \<Longrightarrow> b \<in> set (take i os)"
  shows "acyclic (dep_rel deps services)"
proof -
  define pos where "pos a = (LEAST i. i < length os \<and> os ! i = a)" for a
  have pos: "pos (os ! i) = i" if "i < length os" for i
    unfolding pos_def by (rule Least_equality) (use assms(1) that nth_eq_iff_index_eq in auto)
  have "(b, a) \<in> measure pos" if r: "(a, b) \<in> dep_rel deps services" for a b
  proof -
    have "a \<in> fst ` set services" using r by (force simp: dep_rel_def)
    then obtain i where i: "i < length os" "os ! i = a" using assms(2) by (metis in_mono in_set_conv_nth)
    have "b \<in> set (take i os)" using assms(3)[OF i(1)] r i(2) by simp
    then obtain j where "j < i" "os ! j = b" by (auto simp: in_set_conv_nth)
    then show ?thesis using pos[of i] pos[of j] i by simp
  qed
  then have "(dep_rel deps services)\<inverse> \<subseteq> measure pos" by auto
  then have "wf ((dep_rel deps services)\<inverse>)" by (rule wf_subset[OF wf_measure])
  then show ?thesis using wf_acyclic by fastforce
qed

lemma stuck_cyclic:
  assumes "a \<in> S" "\<And>a. a \<in> S \<Longrightarrow> \<exists>b\<in>S. (a, b) \<in> dep_rel deps services"
  shows "\<not> acyclic (dep_rel deps services)"
proof
  assume ac: "acyclic (dep_rel deps services)"
  have "dep_rel deps services \<subseteq> fst ` set services \<times> fst ` set services" by (force simp: dep_rel_def)
  then have "finite (dep_rel deps services)" by (rule finite_subset) simp
  then have "wf ((dep_rel deps services)\<inverse>)" using ac by (rule finite_acyclic_wf_converse)
  from wfE_min[OF this assms(1)] obtain z where z: "z \<in> S" "\<And>y. (y, z) \<in> (dep_rel deps services)\<inverse> \<Longrightarrow> y \<notin> S"
    by metis
  obtain b where "b \<in> S" "(z, b) \<in> dep_rel deps services" using assms(2)[OF z(1)] by blast
  then show False using z(2)[of b] by simp
qed

text \<open>C12: the sort appends to the order known so far services of the map, each once and each after all the
  services of the map it depends on; it succeeds, with all of them, exactly when the dependencies have no
  cycle.\<close>

theorem TopSort_correct:
  assumes "omap_ok services" "length services \<le> 256"
  shows "\<exists>ok os. TopSort deps services orders = Some (ok, orders @ os) \<and> distinct os \<and> set os \<subseteq> fst ` set services
    \<and> (\<forall>i<length os. \<forall>b. (os ! i, b) \<in> dep_rel deps services \<longrightarrow> b \<in> set (take i os))
    \<and> (ok \<longleftrightarrow> set os = fst ` set services) \<and> (ok \<longleftrightarrow> acyclic (dep_rel deps services))"
proof -
  obtain ok os where os: "TopSort deps services orders = Some (ok, orders @ os)" "distinct os" "set os \<subseteq> fst ` set services"
    "\<forall>i<length os. \<forall>b. (os ! i, b) \<in> dep_rel deps services \<longrightarrow> b \<in> set (take i os)"
    "ok \<longleftrightarrow> set os = fst ` set services"
    "\<not> ok \<longrightarrow> (\<forall>a\<in>fst ` set services - set os. \<exists>b\<in>fst ` set services - set os. (a, b) \<in> dep_rel deps services)"
    using TopSort_result[OF assms] by blast
  have "ok \<longleftrightarrow> acyclic (dep_rel deps services)"
  proof
    assume ok
    then show "acyclic (dep_rel deps services)" using os by (intro ordered_acyclic[of os]) auto
  next
    assume ac: "acyclic (dep_rel deps services)"
    show ok
    proof (rule ccontr)
      assume n: "\<not> ok"
      then obtain a where "a \<in> fst ` set services - set os" using os(3,5) by auto
      then show False using stuck_cyclic[of a "fst ` set services - set os"] os(6) n ac by blast
    qed
  qed
  then show ?thesis using os by blast
qed

text \<open>Three services as in the server, and two that depend on each other.\<close>

definition demo_deps :: "nat \<Rightarrow> string list" where
  "demo_deps g = (if g = 1 then [''server''] else if g = 3 then [''Dispatcher''] else [])"

definition demo_services :: svc_map where
  "demo_services = [(''Account'', 3), (''Dispatcher'', 1), (''server'', 2)]"

lemma demo_services_ok: "omap_ok demo_services" "length demo_services = 3"
  by code_simp+

lemma demo_sort: "TopSort demo_deps demo_services [] = Some (True, [''server'', ''Dispatcher'', ''Account''])"
  by (simp add: demo_services_def demo_deps_def TopSort_def dep_graph_def close_edges_def Let_def numeral_eq_Suc upt_rec)

theorem TopSort_correct_witness:
  "acyclic (dep_rel demo_deps demo_services)"
  using TopSort_correct[of demo_services demo_deps "[]"] demo_services_ok demo_sort by auto

subsection \<open>Start-up\<close>

text \<open>What the manager does to the services, as a trace.\<close>

datatype svc_event = Injected nat string nat | Inited nat | Started nat | Stopped nat

definition trace_ops :: "(nat \<Rightarrow> string list) \<Rightarrow> svc_event list svc_ops" where
  "trace_ops deps = \<lparr> op_deps = deps, op_inject = (\<lambda>g d g' tr. tr @ [Injected g d g']),
     op_init = (\<lambda>g tr. Some (True, tr @ [Inited g])), op_start = (\<lambda>g tr. Some (True, tr @ [Started g])),
     op_stop = (\<lambda>g tr. Some (True, tr @ [Stopped g])),
     op_running = (\<lambda>g tr. Started g \<in> set tr \<and> Stopped g \<notin> set tr) \<rparr>"

lemma trace_ops_simps [simp]:
  "op_deps (trace_ops deps) = deps" "op_init (trace_ops deps) g tr = Some (True, tr @ [Inited g])"
  "op_inject (trace_ops deps) g d g' tr = tr @ [Injected g d g']" "op_start (trace_ops deps) g tr = Some (True, tr @ [Started g])"
  "op_stop (trace_ops deps) g tr = Some (True, tr @ [Stopped g])"
  "op_running (trace_ops deps) g tr \<longleftrightarrow> Started g \<in> set tr \<and> Stopped g \<notin> set tr"
  by (simp_all add: trace_ops_def)

lemma run_services_trace:
  assumes "\<And>g tr. f g tr = Some (True, tr @ ev g)" "set ns \<subseteq> fst ` set services"
  shows "run_services f services ns tr = Some (True, tr @ concat (map (\<lambda>n. ev (the (omap_find services n))) ns))"
  using assms(2)
proof (induction ns arbitrary: tr)
  case (Cons n ns)
  then obtain g where "omap_find services n = Some g" by (metis insert_subset list.simps(15) map_of_eq_None_iff option.exhaust)
  then show ?case using Cons by (simp add: assms(1))
qed simp

lemma inject_trace:
  "fold (\<lambda>d st. case omap_find services d of Some g' \<Rightarrow> op_inject (trace_ops deps) g d g' st | None \<Rightarrow> st) ds tr
     = tr @ concat (map (\<lambda>d. case omap_find services d of Some g' \<Rightarrow> [Injected g d g'] | None \<Rightarrow> []) ds)"
  by (induction ds arbitrary: tr) (simp_all split: option.split)

definition injections :: "(nat \<Rightarrow> string list) \<Rightarrow> svc_map \<Rightarrow> nat \<Rightarrow> svc_event list" where
  "injections deps services g =
     concat (map (\<lambda>d. case omap_find services d of Some g' \<Rightarrow> [Injected g d g'] | None \<Rightarrow> []) (deps g))"

lemma inject_deps_trace: "inject_deps (trace_ops deps) services g tr = Some (True, tr @ injections deps services g)"
  by (simp add: inject_deps_def injections_def inject_trace)

lemma LackServices_none:
  assumes "GetLackServices deps orders services = []" "(n, g) \<in> set services" "n \<notin> set orders" "d \<in> set (deps g)"
  shows "d \<in> fst ` set services"
  using assms by (auto simp: GetLackServices_def GetNewServices_def filter_empty_conv map_of_eq_None_iff)

lemma SM_Init_trace:
  assumes "omap_ok (sm_services m)" "sm_orders m = []" "length (sm_services m) \<le> 256"
    "GetLackServices deps [] (sm_services m) = []"
    "TopSort deps (sm_services m) [] = Some (ok, os)" "set os \<subseteq> fst ` set (sm_services m)"
  shows "SM_Init (trace_ops deps) m tr =
    (let sv = sm_services m; ns = if ok then os else []; at = (\<lambda>n. the (omap_find sv n)) in
     Some (True, m\<lparr> sm_orders := os, sm_initialized := True \<rparr>,
       tr @ concat (map (\<lambda>n. injections deps sv (at n)) ns) @ map (\<lambda>n. Inited (at n)) ns))"
proof -
  let ?sv = "sm_services m" let ?ns = "if ok then os else []"
  have sub: "set ?ns \<subseteq> fst ` set ?sv" using assms(6) by (cases ok) simp_all
  have new: "GetNewServices [] ?sv = ?sv" by (simp add: GetNewServices_def)
  have load: "LoadInitSort deps ?sv [] = Some (?ns, os)" using assms(5) by (simp add: LoadInitSort_def new)
  have 1: "run_services (inject_deps (trace_ops deps) ?sv) ?sv ?ns tr =
      Some (True, tr @ concat (map (\<lambda>n. injections deps ?sv (the (omap_find ?sv n))) ?ns))" for tr
    by (rule run_services_trace[OF inject_deps_trace sub])
  have 2: "run_services (op_init (trace_ops deps)) ?sv ?ns tr =
      Some (True, tr @ concat (map (\<lambda>n. [Inited (the (omap_find ?sv n))]) ?ns))" for tr
    by (rule run_services_trace[OF _ sub]) simp
  show ?thesis unfolding SM_Init_def assms(2) using assms(4) load 1 2 by (simp add: Let_def concat_map_singleton)
qed

text \<open>C13: with acyclic dependencies that are all registered, \<open>Init\<close> first injects into every service all those it
  depends on and then initialises every service once, each after the services it depends on.\<close>

theorem SM_Init_in_order:
  assumes "omap_ok (sm_services m)" "sm_orders m = []" "length (sm_services m) \<le> 256"
    "GetLackServices deps [] (sm_services m) = []" "acyclic (dep_rel deps (sm_services m))"
  shows "\<exists>os injs. SM_Init (trace_ops deps) m [] = Some (True, m\<lparr> sm_orders := os, sm_initialized := True \<rparr>,
        injs @ map (\<lambda>n. Inited (the (omap_find (sm_services m) n))) os)
    \<and> distinct os \<and> set os = fst ` set (sm_services m)
    \<and> (\<forall>i<length os. \<forall>b. (os ! i, b) \<in> dep_rel deps (sm_services m) \<longrightarrow> b \<in> set (take i os))
    \<and> set injs = {Injected g d g' | n g d g'. omap_find (sm_services m) n = Some g \<and> d \<in> set (deps g)
                     \<and> omap_find (sm_services m) d = Some g'}"
proof -
  let ?sv = "sm_services m"
  obtain ok os where os: "TopSort deps ?sv [] = Some (ok, os)" "distinct os" "set os \<subseteq> fst ` set ?sv"
    "\<forall>i<length os. \<forall>b. (os ! i, b) \<in> dep_rel deps ?sv \<longrightarrow> b \<in> set (take i os)" "ok \<longleftrightarrow> set os = fst ` set ?sv"
    using TopSort_result[OF assms(1,3), of deps "[]"] by auto
  have ok: "ok"
  proof (rule ccontr)
    assume n: "\<not> ok"
    obtain os' where "TopSort deps ?sv [] = Some (False, os')" "set os' \<noteq> fst ` set ?sv" "set os' \<subseteq> fst ` set ?sv"
      "\<forall>a\<in>fst ` set ?sv - set os'. \<exists>b\<in>fst ` set ?sv - set os'. (a, b) \<in> dep_rel deps ?sv"
      using TopSort_result[OF assms(1,3), of deps "[]"] os(1) n by auto
    then obtain a where "a \<in> fst ` set ?sv - set os'" by blast
    then show False using stuck_cyclic[of a "fst ` set ?sv - set os'"] assms(5)
      \<open>\<forall>a\<in>fst ` set ?sv - set os'. \<exists>b\<in>fst ` set ?sv - set os'. (a, b) \<in> dep_rel deps ?sv\<close> by blast
  qed
  let ?injs = "concat (map (\<lambda>n. injections deps ?sv (the (omap_find ?sv n))) os)"
  have "SM_Init (trace_ops deps) m [] = Some (True, m\<lparr> sm_orders := os, sm_initialized := True \<rparr>,
      ?injs @ map (\<lambda>n. Inited (the (omap_find ?sv n))) os)"
    using SM_Init_trace[OF assms(1-4) os(1,3), of "[]"] ok by (simp add: Let_def)
  moreover have all: "set os = fst ` set ?sv" using os(5) ok by simp
  moreover have "set ?injs = {Injected g d g' | n g d g'. omap_find ?sv n = Some g \<and> d \<in> set (deps g) \<and> omap_find ?sv d = Some g'}"
  proof -
    have "set (injections deps ?sv g) = {Injected g d g' | d g'. d \<in> set (deps g) \<and> omap_find ?sv d = Some g'}" for g
      by (auto simp: injections_def split: option.splits)
    then have inj: "e \<in> set (injections deps ?sv g) \<longleftrightarrow> (\<exists>d g'. e = Injected g d g' \<and> d \<in> set (deps g) \<and> omap_find ?sv d = Some g')" for e g
      by simp
    have n: "n \<in> set os \<longleftrightarrow> (\<exists>g. omap_find ?sv n = Some g)" for n
      unfolding all by (metis map_of_eq_None_iff not_None_eq)
    show ?thesis
    proof (intro set_eqI iffI)
      fix e assume "e \<in> set ?injs"
      then obtain n where e: "n \<in> set os" "e \<in> set (injections deps ?sv (the (omap_find ?sv n)))" by auto
      then obtain g where "omap_find ?sv n = Some g" using n by blast
      with e(2) show "e \<in> {Injected g d g' | n g d g'. omap_find ?sv n = Some g \<and> d \<in> set (deps g) \<and> omap_find ?sv d = Some g'}"
        unfolding inj by auto
    next
      fix e assume "e \<in> {Injected g d g' | n g d g'. omap_find ?sv n = Some g \<and> d \<in> set (deps g) \<and> omap_find ?sv d = Some g'}"
      then obtain n g where "omap_find ?sv n = Some g" "e \<in> set (injections deps ?sv g)" unfolding inj by auto
      then show "e \<in> set ?injs" using n[of n] by (auto intro!: bexI[of _ n])
    qed
  qed
  ultimately show ?thesis using os(2,4) by blast
qed

text \<open>With cyclic dependencies \<open>Init\<close> still reports success: it initialises nothing and injects nothing, and
  the services before the cycle, which the sort left in its order, are then started uninitialised.\<close>

theorem SM_cycle_starts_uninitialized:
  assumes "omap_ok (sm_services m)" "sm_orders m = []" "length (sm_services m) \<le> 256"
    "GetLackServices deps [] (sm_services m) = []" "\<not> acyclic (dep_rel deps (sm_services m))"
  shows "\<exists>os. SM_Init (trace_ops deps) m [] = Some (True, m\<lparr> sm_orders := os, sm_initialized := True \<rparr>, [])
    \<and> set os \<subset> fst ` set (sm_services m)
    \<and> SM_Start (trace_ops deps) (m\<lparr> sm_orders := os, sm_initialized := True \<rparr>) []
        = Some (True, m\<lparr> sm_orders := os, sm_initialized := True, sm_running := True \<rparr>,
                map (\<lambda>n. Started (the (omap_find (sm_services m) n))) os)"
proof -
  let ?sv = "sm_services m"
  obtain ok os where os: "TopSort deps ?sv [] = Some (ok, os)" "distinct os" "set os \<subseteq> fst ` set ?sv"
    "\<forall>i<length os. \<forall>b. (os ! i, b) \<in> dep_rel deps ?sv \<longrightarrow> b \<in> set (take i os)" "ok \<longleftrightarrow> set os = fst ` set ?sv"
    using TopSort_result[OF assms(1,3), of deps "[]"] by auto
  have n: "\<not> ok" using ordered_acyclic[of os ?sv deps] os assms(5) by auto
  have 1: "SM_Init (trace_ops deps) m [] = Some (True, m\<lparr> sm_orders := os, sm_initialized := True \<rparr>, [])"
    using SM_Init_trace[OF assms(1-4) os(1,3), of "[]"] n by (simp add: Let_def)
  have 2: "start_sort (\<lambda>g. False) ?sv os = Some os"
  proof (cases os)
    case (Cons a as)
    then have "a \<in> fst ` set ?sv" using os(3) by auto
    then obtain g where "omap_find ?sv a = Some g" by (metis map_of_eq_None_iff not_None_eq)
    then show ?thesis using Cons by simp
  qed simp
  have 3: "run_services (op_start (trace_ops deps)) ?sv os [] =
      Some (True, [] @ concat (map (\<lambda>n. [Started (the (omap_find ?sv n))]) os))"
    by (rule run_services_trace[OF _ os(3)]) simp
  have "set os \<subset> fst ` set ?sv" using os(3,5) n by blast
  then show ?thesis using 1 2 3 by (intro exI[of _ os]) (simp add: SM_Start_def concat_map_singleton)
qed

text \<open>A service that is deregistered stays in the order: the next \<open>Stop\<close> calls a method of a null pointer.\<close>

theorem SM_Deregister_then_Stop:
  assumes "omap_find (sm_services m) n = Some g" "sm_orders m = ns @ [n]"
  shows "SM_Stop ops (snd (SM_Deregister n m)) st = None"
  using assms by (simp add: SM_Deregister_def SM_Stop_def)

subsection \<open>Instances\<close>

definition demo_manager :: "svc_map \<Rightarrow> manager" where
  "demo_manager services = SM_new\<lparr> sm_services := services \<rparr>"

text \<open>\<open>c\<close> is free of dependencies, \<open>a\<close> and \<open>b\<close> depend on each other.\<close>

definition cycle_deps :: "nat \<Rightarrow> string list" where
  "cycle_deps g = (if g = 1 then [''b''] else if g = 2 then [''a''] else [])"

definition cycle_services :: svc_map where
  "cycle_services = [(''a'', 1), (''b'', 2), (''c'', 3)]"

theorem SM_Init_in_order_witness:
  "\<exists>m tr. SM_Init (trace_ops demo_deps) (demo_manager demo_services) [] = Some (True, m, tr) \<and> sm_initialized m"
proof -
  have "acyclic (dep_rel demo_deps demo_services)"
    using TopSort_result[of demo_services demo_deps "[]"] demo_services_ok demo_sort
      ordered_acyclic[of "[''server'', ''Dispatcher'', ''Account'']" demo_services demo_deps] by auto
  moreover have "GetLackServices demo_deps [] demo_services = []" by code_simp
  moreover have "sm_services (demo_manager demo_services) = demo_services" "sm_orders (demo_manager demo_services) = []"
    by (simp_all add: demo_manager_def SM_new_def)
  ultimately obtain os injs where "SM_Init (trace_ops demo_deps) (demo_manager demo_services) [] =
      Some (True, (demo_manager demo_services)\<lparr> sm_orders := os, sm_initialized := True \<rparr>, injs)"
    using SM_Init_in_order[of "demo_manager demo_services" demo_deps] demo_services_ok by auto
  moreover have "sm_initialized ((demo_manager demo_services)\<lparr> sm_orders := os, sm_initialized := True \<rparr>)" by simp
  ultimately show ?thesis by blast
qed

theorem SM_cycle_starts_uninitialized_witness:
  "\<exists>m m' tr. SM_Init (trace_ops cycle_deps) (demo_manager cycle_services) [] = Some (True, m, [])
     \<and> SM_Start (trace_ops cycle_deps) m [] = Some (True, m', tr)"
proof -
  have "omap_ok cycle_services" "length cycle_services \<le> 256" "GetLackServices cycle_deps [] cycle_services = []"
    by code_simp+
  moreover have "\<not> acyclic (dep_rel cycle_deps cycle_services)"
  proof (rule stuck_cyclic[of "''a''" "{''a'', ''b''}"])
    have "(''a'', ''b'') \<in> dep_rel cycle_deps cycle_services" "(''b'', ''a'') \<in> dep_rel cycle_deps cycle_services"
      by (simp_all add: dep_rel_def cycle_services_def cycle_deps_def)
    then show "\<exists>y\<in>{''a'', ''b''}. (x, y) \<in> dep_rel cycle_deps cycle_services" if "x \<in> {''a'', ''b''}" for x
      using that by blast
  qed simp
  moreover have "sm_services (demo_manager cycle_services) = cycle_services" "sm_orders (demo_manager cycle_services) = []"
    by (simp_all add: demo_manager_def SM_new_def)
  ultimately obtain os where
    "SM_Init (trace_ops cycle_deps) (demo_manager cycle_services) [] =
      Some (True, (demo_manager cycle_services)\<lparr> sm_orders := os, sm_initialized := True \<rparr>, [])"
    "\<exists>m' tr. SM_Start (trace_ops cycle_deps) ((demo_manager cycle_services)\<lparr> sm_orders := os, sm_initialized := True \<rparr>) [] = Some (True, m', tr)"
    using SM_cycle_starts_uninitialized[of "demo_manager cycle_services" cycle_deps] by metis
  then show ?thesis by blast
qed

theorem SM_Deregister_then_Stop_witness:
  "SM_Stop (trace_ops demo_deps) (snd (SM_Deregister ''a''
     \<lparr> sm_services = [(''a'', 1)], sm_orders = [''a''], sm_initialized = True, sm_running = True \<rparr>)) [] = None"
  by (rule SM_Deregister_then_Stop[of _ _ 1 "[]"]) simp_all

end
