(* ===== verification/Startup.thy ===== *)
theory Startup
  imports App_Props Services_Props
begin

text \<open>
  Start-up of the whole process: \<open>OurGameLoop::Init\<close> (\<open>runner/main.cpp\<close>) registers the three services of
  the server with the service manager, which sorts, injects and initialises them; \<open>GameLoop::Start\<close> starts
  them.  libuv's loop and listening socket are the parameter \<open>listen_ok\<close>.
\<close>

text \<open>The process, and \<open>running_\<close> of the TCP server.\<close>

type_synonym proc = "app \<times> bool"

definition Dispatcher_Inject :: "string \<Rightarrow> dispatcher \<Rightarrow> dispatcher" where
  "Dispatcher_Inject name d = (if name = ''server'' then d\<lparr> d_server := True \<rparr> else d)"

definition proc_deps :: "nat \<Rightarrow> string list" where
  "proc_deps g = (if g = 1 then [''server''] else if g = 3 then [''Dispatcher''] else [])"

definition proc_inject :: "nat \<Rightarrow> string \<Rightarrow> nat \<Rightarrow> proc \<Rightarrow> proc" where
  "proc_inject g name g' st = (case st of (a, r) \<Rightarrow>
     if g = 1 then (a\<lparr> ap_dispatch := Dispatcher_Inject name (ap_dispatch a) \<rparr>, r)
     else if g = 3 then (a\<lparr> ap_account := Account_Inject name (ap_account a) \<rparr>, r)
     else st)"

definition proc_ops :: "so_loader \<Rightarrow> service_config \<Rightarrow> bool \<Rightarrow> proc svc_ops" where
  "proc_ops so conf listen_ok = \<lparr> op_deps = proc_deps, op_inject = proc_inject,
     op_init = (\<lambda>g st. case st of (a, r) \<Rightarrow>
       if g = 3 then map_option (\<lambda>(ok, a'). (ok, a', r)) (Account_Init so conf a) else Some (True, a, r)),
     op_start = (\<lambda>g st. case st of (a, r) \<Rightarrow>
       if g = 1 then (case Dispatcher_Start (ap_dispatch a) of (ok, d) \<Rightarrow> Some (ok, a\<lparr> ap_dispatch := d \<rparr>, r))
       else if g = 2 then (if listen_ok then Some (True, a, True) else Some (False, a, r))
       else (case Account_Start (ap_account a) of (ok, ac) \<Rightarrow> Some (ok, a\<lparr> ap_account := ac \<rparr>, r))),
     op_stop = (\<lambda>g st. case st of (a, r) \<Rightarrow>
       if g = 1 then (case Dispatcher_Stop (ap_dispatch a) of (ok, d) \<Rightarrow> Some (ok, a\<lparr> ap_dispatch := d \<rparr>, r))
       else if g = 2 then Some (True, a, False)
       else (case Account_Stop (ap_account a) of (ok, ac) \<Rightarrow> Some (ok, a\<lparr> ap_account := ac \<rparr>, r))),
     op_running = (\<lambda>g st. case st of (a, r) \<Rightarrow>
       if g = 1 then d_running (ap_dispatch a) else if g = 2 then r else ac_running (ap_account a)) \<rparr>"

text \<open>The objects as their constructors leave them.\<close>

definition proc_new :: "int \<Rightarrow> proc" where
  "proc_new now = ((app_boot now)\<lparr> ap_account := Account_new, ap_dispatch := Dispatcher_new, ap_services := [], ap_orders := [] \<rparr>, False)"

definition OurGameLoop_Init ::
  "so_loader \<Rightarrow> service_config \<Rightarrow> bool \<Rightarrow> bool \<Rightarrow> bool \<Rightarrow> proc \<Rightarrow> (bool \<times> manager \<times> proc) option" where
  "OurGameLoop_Init so conf listen_ok has_port has_account st =
     (let m1 = snd (SM_Register ''Dispatcher'' 1 SM_new) in
      if \<not> has_port then Some (False, m1, st)
      else let m2 = snd (SM_Register ''server'' 2 m1) in
        if \<not> has_account then Some (False, m2, st)
        else SM_Init (proc_ops so conf listen_ok) (snd (SM_Register ''Account'' 3 m2)) st)"

definition GameLoop_Start :: "so_loader \<Rightarrow> service_config \<Rightarrow> bool \<Rightarrow> manager \<Rightarrow> proc \<Rightarrow> (bool \<times> manager \<times> proc) option" where
  "GameLoop_Start so conf listen_ok m st = SM_Start (proc_ops so conf listen_ok) m st"

lemma proc_ops_simps [simp]:
  "op_deps (proc_ops so conf l) = proc_deps" "op_inject (proc_ops so conf l) = proc_inject"
  "op_init (proc_ops so conf l) g (a, r) =
     (if g = 3 then map_option (\<lambda>(ok, a'). (ok, a', r)) (Account_Init so conf a) else Some (True, a, r))"
  by (simp_all add: proc_ops_def)

lemma Account_Init_tables:
  "Account_Init so conf (a\<lparr> ap_services := s, ap_orders := ns \<rparr>) =
     map_option (\<lambda>(ok, a'). (ok, a'\<lparr> ap_services := s, ap_orders := ns \<rparr>)) (Account_Init so conf a)"
  by (auto simp: Account_Init_def Account_Reload_def AddPimpl_def pimpl_of_def Let_def split: option.splits)

definition proc_manager :: manager where
  "proc_manager = snd (SM_Register ''Account'' 3 (snd (SM_Register ''server'' 2 (snd (SM_Register ''Dispatcher'' 1 SM_new)))))"

lemma proc_manager_fields:
  "sm_services proc_manager = demo_services" "sm_orders proc_manager = []"
  by code_simp+

lemma proc_sort: "LoadInitSort proc_deps demo_services [] =
    Some ([''server'', ''Dispatcher'', ''Account''], [''server'', ''Dispatcher'', ''Account''])"
  "GetLackServices proc_deps [] demo_services = []"
proof -
  have d: "proc_deps = demo_deps" by (simp add: proc_deps_def demo_deps_def fun_eq_iff)
  show "LoadInitSort proc_deps demo_services [] =
      Some ([''server'', ''Dispatcher'', ''Account''], [''server'', ''Dispatcher'', ''Account''])"
    unfolding LoadInitSort_def d using demo_sort by (simp add: GetNewServices_def)
  show "GetLackServices proc_deps [] demo_services = []" unfolding d by code_simp
qed

lemma proc_new_injected:
  "run_services (inject_deps (proc_ops so conf l) demo_services) demo_services [''server'', ''Dispatcher'', ''Account''] (proc_new now)
     = Some (True, (app_boot now)\<lparr> ap_services := [], ap_orders := [] \<rparr>, False)"
  by (simp add: inject_deps_def demo_services_def proc_deps_def proc_inject_def proc_new_def Dispatcher_Inject_def
      app_boot_def)

lemma OurGameLoop_Init_result:
  "OurGameLoop_Init so conf l True True (proc_new now) =
     map_option (\<lambda>(ok, a'). (ok, (let m = proc_manager\<lparr> sm_orders := [''server'', ''Dispatcher'', ''Account''] \<rparr>
           in if ok then m\<lparr> sm_initialized := True \<rparr> else m),
         a'\<lparr> ap_services := [], ap_orders := [] \<rparr>, False)) (Account_Init so conf (app_boot now))"
proof -
  have i: "run_services (op_init (proc_ops so conf l)) demo_services [''server'', ''Dispatcher'', ''Account'']
      ((app_boot now)\<lparr> ap_services := [], ap_orders := [] \<rparr>, False)
    = map_option (\<lambda>(ok, a'). (ok, a'\<lparr> ap_services := [], ap_orders := [] \<rparr>, False)) (Account_Init so conf (app_boot now))"
    by (auto simp: demo_services_def Account_Init_tables split: Option.bind_splits option.splits)
  have e: "OurGameLoop_Init so conf l True True st = SM_Init (proc_ops so conf l) proc_manager st" for st
    unfolding OurGameLoop_Init_def proc_manager_def Let_def by (simp only: not_True_eq_False if_False)
  show ?thesis
    unfolding e SM_Init_def proc_manager_fields proc_ops_simps(1) proc_sort
    by (cases "Account_Init so conf (app_boot now)")
      (auto simp: i proc_new_injected Let_def simp del: run_services.simps)
qed

text \<open>C3: when \<open>OurGameLoop::Init\<close> succeeds the services are sorted as server, dispatcher, account service, and the
  process is in a start state of the transition system; when the socket can be listened on, \<open>Start\<close> then
  starts all three.\<close>

theorem startup_reaches:
  assumes "OurGameLoop_Init so conf listen_ok has_port has_account (proc_new now) = Some (True, m, a, r)"
  shows "app_reach E so conf (a\<lparr> ap_services := sm_services m, ap_orders := sm_orders m \<rparr>)
    \<and> sm_orders m = [''server'', ''Dispatcher'', ''Account'']
    \<and> (listen_ok \<longrightarrow> (\<exists>m' a'. GameLoop_Start so conf listen_ok m (a, r) = Some (True, m', a', True) \<and> sm_running m'
          \<and> d_running (ap_dispatch a') \<and> ac_running (ap_account a')))"
proof -
  have "has_port" "has_account" using assms by (auto simp: OurGameLoop_Init_def Let_def split: if_splits)
  then obtain a0 where a0: "Account_Init so conf (app_boot now) = Some (True, a0)"
    "a = a0\<lparr> ap_services := [], ap_orders := [] \<rparr>" "r = False"
    "m = proc_manager\<lparr> sm_orders := [''server'', ''Dispatcher'', ''Account''], sm_initialized := True \<rparr>"
    using assms OurGameLoop_Init_result[of so conf listen_ok now] by auto
  have boot: "ap_services (app_boot now) = demo_services" "ap_orders (app_boot now) = [''server'', ''Dispatcher'', ''Account'']"
    by (simp_all add: app_boot_def demo_services_def)
  have same: "ap_services a0 = demo_services" "ap_orders a0 = [''server'', ''Dispatcher'', ''Account'']"
    "d_running (ap_dispatch a0) = False" "ac_running (ap_account a0) = False"
    using a0(1) boot
    by (auto simp: Account_Init_def Account_Reload_def AddPimpl_def Let_def RegisterOpcode_def SubscribeConnClosedMessage_def
        app_boot_def Dispatcher_new_def Account_Inject_def Account_new_def split: if_splits option.splits prod.splits)
  have "a\<lparr> ap_services := sm_services m, ap_orders := sm_orders m \<rparr> = a0"
    using same by (simp add: a0(2,4) proc_manager_fields)
  moreover have "app_reach E so conf a0" by (rule app_reach.boot[OF a0(1)])
  moreover have "\<exists>m' a'. GameLoop_Start so conf True m (a, r) = Some (True, m', a', True) \<and> sm_running m'
      \<and> d_running (ap_dispatch a') \<and> ac_running (ap_account a')"
    using same(3,4) by (simp add: GameLoop_Start_def SM_Start_def a0(2-4) proc_manager_fields demo_services_def proc_ops_def
        Dispatcher_Start_def Account_Start_def)
  ultimately show ?thesis using a0(4) by auto
qed

theorem startup_reaches_witness:
  "\<exists>m a r. OurGameLoop_Init demo_loader demo_config True True True (proc_new 100) = Some (True, m, a, r)
     \<and> app_reach demo_env demo_loader demo_config (a\<lparr> ap_services := sm_services m, ap_orders := sm_orders m \<rparr>)"
proof -
  have "Account_Init demo_loader demo_config (app_boot 100) = Some (True, demo_started)"
    by (simp add: demo_start_defs)
  then obtain m a where "OurGameLoop_Init demo_loader demo_config True True True (proc_new 100) = Some (True, m, a, False)"
    by (simp add: OurGameLoop_Init_result)
  then show ?thesis using startup_reaches by blast
qed

end
