(* ===== verification/Poker.thy ===== *)
theory Poker
  imports Packet
begin

text \<open>
  Cards, hands and the deck of \<open>DN_application/DN_Account/dn_poker.h\<close> and \<open>dn_poker.cpp\<close>.

  An \<open>int8_t\<close> or \<open>int32_t\<close> is its value; a conversion to \<open>int8_t\<close> is \<open>to_int8\<close>.  An array of fixed size is
  a list of that length.  \<open>rand()\<close> is a stream of naturals with the number of calls so far.
  \<open>std::sort\<close> on five pairs is libstdc++'s insertion sort, which is stable.
\<close>

definition to_int8 :: "int \<Rightarrow> int" where
  "to_int8 i = sint (word_of_int i :: 8 word)"

text \<open>The remainder of C++ has the sign of the dividend.\<close>

definition crem :: "int \<Rightarrow> int \<Rightarrow> int" where
  "crem a b = (if a < 0 then - (- a mod b) else a mod b)"

subsection \<open>One card\<close>

record one_poker =
  poker_value :: int
  poker_color :: int

definition null_poker :: one_poker where
  "null_poker = \<lparr> poker_value = 0, poker_color = 0 \<rparr>"

definition isNullPoker :: "one_poker \<Rightarrow> bool" where
  "isNullPoker p \<longleftrightarrow> poker_value p = 0 \<or> poker_color p = 0"

definition poker_eq :: "one_poker \<Rightarrow> one_poker \<Rightarrow> bool" where
  "poker_eq p q \<longleftrightarrow> isNullPoker p \<and> isNullPoker q \<or> poker_color p = poker_color q \<and> poker_value p = poker_value q"

definition DNPokerValueFirstCmp :: "one_poker \<Rightarrow> one_poker \<Rightarrow> bool" where
  "DNPokerValueFirstCmp one other =
     (let diff = poker_value one - poker_value other;
          diff' = (if diff = 0 then poker_color one - poker_color other else diff)
      in diff' < 0)"

definition DNPokerColorFirstCmp :: "one_poker \<Rightarrow> one_poker \<Rightarrow> bool" where
  "DNPokerColorFirstCmp one other =
     (let diff = poker_color one - poker_color other;
          diff' = (if diff = 0 then poker_value one - poker_value other else diff)
      in diff' < 0)"

text \<open>The two tables are read at any index up to their end, so a negative one reads outside them.\<close>

definition color_names :: "byte list list" where
  "color_names = [[], [0xE6, 0x96, 0xB9, 0xE5, 0x9D, 0x97], [0xE6, 0xA8, 0xB1, 0xE8, 0x8A, 0xB1],
     [0xE7, 0xBA, 0xA2, 0xE6, 0xA1, 0x83], [0xE9, 0xBB, 0x91, 0xE6, 0xA1, 0x83]]"

definition value_names :: "string list" where
  "value_names = ['''', ''1'', ''2'', ''3'', ''4'', ''5'', ''6'', ''7'', ''8'', ''9'', ''10'', ''J'', ''Q'', ''K'']"

definition string_bytes :: "string \<Rightarrow> byte list" where
  "string_bytes s = map (\<lambda>c. word_of_nat (of_char c)) s"

definition friendlyName :: "one_poker \<Rightarrow> byte list option" where
  "friendlyName p =
     (if poker_color p = 0 \<or> poker_color p > 4 \<or> poker_value p = 0 \<or> poker_value p > 13
      then Some (string_bytes ''invalid_poker'')
      else if poker_color p < 0 \<or> poker_value p < 0 then None
      else Some (take 15 (color_names ! nat (poker_color p) @ string_bytes (value_names ! nat (poker_value p)))))"

subsection \<open>A hand\<close>

text \<open>\<open>max_poker\<close> points into the hand's own array, or, after the hand was copied, into another object's.\<close>

datatype max_ptr = NoMax | MaxAt nat | MaxElsewhere

record group =
  g_poker :: "one_poker list"
  g_type :: int                  \<comment> \<open>\<open>dn_type\<close>\<close>
  g_max :: max_ptr               \<comment> \<open>\<open>max_poker\<close>\<close>
  g_calc :: bool                 \<comment> \<open>\<open>bCalc\<close>\<close>
  g_niu :: "int list"            \<comment> \<open>\<open>niu_poker_index\<close>\<close>
  g_other :: "int list"          \<comment> \<open>\<open>other_poker_index\<close>\<close>

definition MEI_NIU :: int where "MEI_NIU = 0"
definition NIU_NIU :: int where "NIU_NIU = 10"
definition SI_ZHA :: int where "SI_ZHA = 11"
definition WU_HUA_NIU :: int where "WU_HUA_NIU = 12"
definition WU_XIAO_NIU :: int where "WU_XIAO_NIU = 13"

lemmas dn_types = MEI_NIU_def NIU_NIU_def SI_ZHA_def WU_HUA_NIU_def WU_XIAO_NIU_def

definition Group_new :: group where
  "Group_new = \<lparr> g_poker = replicate 5 null_poker, g_type = 0, g_max = NoMax, g_calc = False,
     g_niu = replicate 5 (-1), g_other = replicate 2 (-1) \<rparr>"

definition has_deal :: "group \<Rightarrow> bool" where
  "has_deal g \<longleftrightarrow> (\<exists>p\<in>set (g_poker g). poker_value p > 0 \<and> poker_color p > 0)"

definition HasSamePoker :: "group \<Rightarrow> bool" where
  "HasSamePoker g \<longleftrightarrow> (\<exists>i\<in>{0..<5}. \<exists>j\<in>{i + 1..<5}. poker_eq (g_poker g ! i) (g_poker g ! j))"

definition hasPoker :: "group \<Rightarrow> bool" where
  "hasPoker g \<longleftrightarrow> \<not> (\<exists>p\<in>set (g_poker g). isNullPoker p)"

definition calcByNoNiu :: "group \<Rightarrow> group" where
  "calcByNoNiu g = g\<lparr> g_niu := [0, 1, 2, 3, 4], g_other := [-1, -1], g_type := MEI_NIU \<rparr>"

definition setPoker :: "one_poker list \<Rightarrow> group \<Rightarrow> group" where
  "setPoker ps g = g\<lparr> g_poker := ps \<rparr>"

definition setNiuPokerIndex :: "int list \<Rightarrow> int list \<Rightarrow> group \<Rightarrow> group" where
  "setNiuPokerIndex niu other g = g\<lparr> g_niu := niu, g_other := other \<rparr>"

text \<open>Copying the structure copies the pointer.\<close>

definition copy_group :: "group \<Rightarrow> group" where
  "copy_group g = g\<lparr> g_max := (case g_max g of NoMax \<Rightarrow> NoMax | _ \<Rightarrow> MaxElsewhere) \<rparr>"

definition compareSinglePoker :: "one_poker \<Rightarrow> one_poker \<Rightarrow> bool" where
  "compareSinglePoker a b =
     (if poker_value a = poker_value b then poker_color a > poker_color b else poker_value a > poker_value b)"

text \<open>The position of the greatest card.\<close>

definition findMaxPoker :: "one_poker list \<Rightarrow> nat" where
  "findMaxPoker ps = fold (\<lambda>i m.
     if poker_value (ps ! m) < poker_value (ps ! i)
        \<or> poker_value (ps ! m) = poker_value (ps ! i) \<and> poker_color (ps ! m) < poker_color (ps ! i)
     then i else m) [1..<5] 0"

definition DNPokerCompare :: "one_poker \<Rightarrow> one_poker \<Rightarrow> int" where
  "DNPokerCompare a b =
     (if poker_value a = poker_value b then
        (if poker_color a = poker_color b then 0 else if poker_color a > poker_color b then 1 else -1)
      else if poker_value a > poker_value b then 1
      else if poker_value a < poker_value b then -1
      else 0)"

subsection \<open>The deck\<close>

record deck =
  dk_num :: nat                  \<comment> \<open>\<open>poker_num_\<close>\<close>
  dk_pos :: nat                  \<comment> \<open>\<open>deal_position_\<close>\<close>
  dk_cards :: "one_poker list"   \<comment> \<open>\<open>dn_Poker_\<close>\<close>
  dk_min :: int
  dk_max :: int

abbreviation (input) MAX_DNPOKER_COUNT :: nat where "MAX_DNPOKER_COUNT \<equiv> 52"

text \<open>The card of number \<open>i\<close>; \<open>n\<close> is \<open>poker_count_color\<close>.\<close>

definition nth_poker :: "int \<Rightarrow> int \<Rightarrow> nat \<Rightarrow> one_poker" where
  "nth_poker minPoker n i = \<lparr> poker_value = to_int8 (int i mod n + minPoker), poker_color = to_int8 (int i div n + 1) \<rparr>"

definition put_card :: "nat \<Rightarrow> one_poker \<Rightarrow> deck \<Rightarrow> deck option" where
  "put_card i p d = (if i < MAX_DNPOKER_COUNT then Some (d\<lparr> dk_cards := (dk_cards d)[i := p] \<rparr>) else None)"

text \<open>One loop for both: \<open>skip\<close> are the cards that are left out.\<close>

primrec fill_deck :: "(one_poker \<Rightarrow> bool) \<Rightarrow> one_poker list \<Rightarrow> deck \<Rightarrow> deck option" where
  "fill_deck skip [] d = Some d"
| "fill_deck skip (p # ps) d = do {
     d1 \<leftarrow> put_card (dk_num d) p d;
     fill_deck skip ps (if skip p then d1 else d1\<lparr> dk_num := dk_num d1 + 1 \<rparr>) }"

definition initPoker_with :: "(one_poker \<Rightarrow> bool) \<Rightarrow> int \<Rightarrow> int \<Rightarrow> deck \<Rightarrow> deck option" where
  "initPoker_with skip minPoker maxPoker d = do {
     let n = maxPoker - minPoker + 1;
     d1 \<leftarrow> fill_deck skip (map (nth_poker minPoker n) [0..<nat (4 * n)])
            (d\<lparr> dk_num := 0, dk_pos := 0, dk_min := 0, dk_max := 0 \<rparr>);
     Some (d1\<lparr> dk_min := minPoker, dk_max := maxPoker \<rparr>) }"

definition initPoker :: "int \<Rightarrow> int \<Rightarrow> deck \<Rightarrow> deck option" where
  "initPoker minPoker maxPoker d = initPoker_with (\<lambda>p. False) minPoker maxPoker d"

definition initPokerExceptGroup :: "int \<Rightarrow> int \<Rightarrow> group \<Rightarrow> deck \<Rightarrow> deck option" where
  "initPokerExceptGroup minPoker maxPoker g d =
     initPoker_with (\<lambda>p. \<exists>q\<in>set (g_poker g). poker_eq p q) minPoker maxPoker d"

definition Deck_new :: "deck option" where
  "Deck_new = initPoker 1 13 \<lparr> dk_num = 0, dk_pos = 0, dk_cards = replicate MAX_DNPOKER_COUNT null_poker, dk_min = 0, dk_max = 0 \<rparr>"

definition swap_cards :: "nat \<Rightarrow> nat \<Rightarrow> one_poker list \<Rightarrow> one_poker list" where
  "swap_cards i j ps = ps[i := ps ! j, j := ps ! i]"

text \<open>One pass from \<open>index\<close> on; \<open>r\<close> counts the calls of \<open>rand\<close>.  (The static counter \<open>x\<close> has no effect.)\<close>

primrec shuffle_pass :: "(nat \<Rightarrow> nat) \<Rightarrow> nat \<Rightarrow> nat list \<Rightarrow> nat \<times> one_poker list \<Rightarrow> nat \<times> one_poker list" where
  "shuffle_pass rnd num [] st = st"
| "shuffle_pass rnd num (index # is) st = (case st of (r, ps) \<Rightarrow>
     shuffle_pass rnd num is (r + 1, swap_cards index (index + rnd r mod (num - index)) ps))"

definition shuffle :: "(nat \<Rightarrow> nat) \<Rightarrow> nat \<Rightarrow> nat \<Rightarrow> deck \<Rightarrow> nat \<times> deck" where
  "shuffle rnd iTimes r d =
     (case ((shuffle_pass rnd (dk_num d) [0..<dk_num d]) ^^ iTimes) (r, dk_cards d) of
        (r', ps) \<Rightarrow> (r', d\<lparr> dk_cards := ps, dk_pos := 0 \<rparr>))"

text \<open>\<open>getPokerNum() - 5\<close> is signed.\<close>

definition dealPoker :: "one_poker list \<Rightarrow> deck \<Rightarrow> bool \<times> one_poker list \<times> deck" where
  "dealPoker hand d =
     (if int (dk_pos d) > int (dk_num d) - 5 then (False, hand, d)
      else (True, take 5 (drop (dk_pos d) (dk_cards d)), d\<lparr> dk_pos := dk_pos d + 5 \<rparr>))"

fun dealPokers :: "one_poker list list \<Rightarrow> deck \<Rightarrow> bool \<times> one_poker list list \<times> deck" where
  "dealPokers [] d = (True, [], d)"
| "dealPokers (h # hs) d =
     (case dealPoker h d of (_, h', d1) \<Rightarrow> case dealPokers hs d1 of (_, hs', d2) \<Rightarrow> (True, h' # hs', d2))"

end
