(* ===== verification/Poker_Cow.thy ===== *)
theory Poker_Cow
  imports Poker
begin

text \<open>
  The type of a hand: \<open>findCow\<close>, \<open>hasCow\<close>, \<open>calcCowData\<close>, \<open>compareGroupPoker\<close>,
  \<open>CheckCowWithPokerInfo\<close> and \<open>Confuse\<close> (\<open>DN_application/DN_Account/dn_poker.cpp\<close>), and a hand's packet
  form (\<open>dn_poker.h\<close>).  The index arrays the functions fill are passed in and returned.
\<close>

definition changeDNPokerJQK :: "int \<Rightarrow> int" where
  "changeDNPokerJQK v = (if v > 10 then 10 else v)"

definition compareNiutype :: "int \<Rightarrow> int \<Rightarrow> int" where
  "compareNiutype a b = (if a < b then -1 else if a = b then 0 else 1)"

subsection \<open>findCow\<close>

text \<open>Four of a kind: \<open>s\<close> is the sorted hand (value, index), \<open>i\<close> the loop variable.  The result is whether
  the loop has returned, and the two arrays.\<close>

fun si_zha_loop :: "(int \<times> nat) list \<Rightarrow> nat list \<Rightarrow> nat \<Rightarrow> int list \<Rightarrow> int list \<Rightarrow> bool \<times> int list \<times> int list" where
  "si_zha_loop s [] count niu other = (False, niu, other)"
| "si_zha_loop s (i # is) count niu other =
     (if fst (s ! (i - 1)) = fst (s ! i) then
        (let niu1 = niu[count := int (snd (s ! (i - 1)))]; count1 = count + 1 in
         if count1 = 3 then (True, niu1[count1 := int (snd (s ! i))], other)
         else si_zha_loop s is count1 niu1 other)
      else if i \<ge> 2 then (False, niu, other)
      else si_zha_loop s is 0 niu (other[0 := int (snd (s ! (i - 1)))]))"

definition sorted_pokers :: "one_poker list \<Rightarrow> (int \<times> nat) list" where
  "sorted_pokers ps = sort_key fst (map (\<lambda>i. (poker_value (ps ! i), i)) [0..<5])"

definition triples :: "(nat \<times> nat \<times> nat) list" where
  "triples = [(i, j, k). i \<leftarrow> [0..<5], j \<leftarrow> [i + 1..<5], k \<leftarrow> [j + 1..<5]]"

definition is_niu :: "one_poker list \<Rightarrow> nat \<times> nat \<times> nat \<Rightarrow> bool" where
  "is_niu ps t = (case t of (i, j, k) \<Rightarrow>
     crem (changeDNPokerJQK (poker_value (ps ! i)) + changeDNPokerJQK (poker_value (ps ! j))
         + changeDNPokerJQK (poker_value (ps ! k))) 10 = 0)"

text \<open>The two cards that are not in the triple.\<close>

definition rest_of :: "nat \<times> nat \<times> nat \<Rightarrow> nat list" where
  "rest_of t = (case t of (i, j, k) \<Rightarrow> take 2 (filter (\<lambda>m. m \<noteq> i \<and> m \<noteq> j \<and> m \<noteq> k) [0..<5]))"

definition findCow :: "one_poker list \<Rightarrow> int list \<Rightarrow> int list \<Rightarrow> int \<times> int list \<times> int list" where
  "findCow ps niu other =
     (let vs = map (\<lambda>i. poker_value (ps ! i)) [0..<5];
          all_poker_sum = sum_list (map changeDNPokerJQK vs);
          wuxiao = filter (\<lambda>v. v < 5) vs;
          wuhua = filter (\<lambda>v. \<not> v < 5 \<and> v > 10) vs
      in if length wuxiao = 5 \<and> sum_list wuxiao \<le> 10 then (WU_XIAO_NIU, [0, 1, 2, 3, 4], other)
         else if length wuhua = 5 then (WU_HUA_NIU, [0, 1, 2, 3, 4], other)
         else case si_zha_loop (sorted_pokers ps) [1..<5] 0 niu other of
           (True, niu1, other1) \<Rightarrow> (SI_ZHA, niu1, other1)
         | (False, niu1, other1) \<Rightarrow>
             (case find (is_niu ps) triples of
                Some (i, j, k) \<Rightarrow>
                  (let rs = rest_of (i, j, k); type = crem all_poker_sum 10
                   in (if type = 0 then NIU_NIU else type, niu1[0 := int i, 1 := int j, 2 := int k],
                       other1[0 := int (rs ! 0), 1 := int (rs ! 1)]))
              | None \<Rightarrow> (MEI_NIU, replicate 5 (-1), other1)))"

subsection \<open>hasCow\<close>

definition hasCow :: "one_poker list \<Rightarrow> int list \<Rightarrow> int" where
  "hasCow ps pokerIndex =
     (let idx = map nat (takeWhile (\<lambda>i. 0 \<le> i \<and> i < 5) (take 5 pokerIndex));
          vs = map (\<lambda>i. poker_value (ps ! i)) [0..<5];
          at = (\<lambda>i. poker_value (ps ! i))
      in if length idx = 5 then
           (let wuxiao = filter (\<lambda>v. v < 5) vs in
            if length wuxiao = 5 \<and> sum_list wuxiao \<le> 10 then WU_XIAO_NIU
            else if length (filter (\<lambda>v. v > 10) vs) = 5 then WU_HUA_NIU
            else MEI_NIU)
         else if length idx = 4 then
           (if \<exists>i\<in>set (tl idx). at i \<noteq> at (hd idx) then MEI_NIU else SI_ZHA)
         else if length idx = 3 then
           (if crem (sum_list (map (changeDNPokerJQK \<circ> at) idx)) 10 = 0
            then (let s = crem (sum_list (map changeDNPokerJQK vs)) 10 in if s = 0 then NIU_NIU else s)
            else MEI_NIU)
         else MEI_NIU)"

definition hasCow_group :: "group \<Rightarrow> int list \<Rightarrow> int list \<Rightarrow> group" where
  "hasCow_group g pokerIndex otherPokerIndex =
     (setNiuPokerIndex pokerIndex otherPokerIndex (g\<lparr> g_type := hasCow (g_poker g) pokerIndex \<rparr>))
       \<lparr> g_max := MaxAt (findMaxPoker (g_poker g)) \<rparr>"

text \<open>Null pointers stand for fresh arrays.\<close>

definition findCow_group :: "group \<Rightarrow> int list option \<Rightarrow> int list option \<Rightarrow> group" where
  "findCow_group g niuPokerIndex otherPokerIndex =
     (let n = (case niuPokerIndex of Some a \<Rightarrow> a | None \<Rightarrow> replicate 5 (-1));
          m = (case otherPokerIndex of Some a \<Rightarrow> a | None \<Rightarrow> replicate 2 (-1))
      in case findCow (g_poker g) n m of (type, niu, other) \<Rightarrow>
           (setNiuPokerIndex niu other (g\<lparr> g_type := type \<rparr>))\<lparr> g_max := MaxAt (findMaxPoker (g_poker g)) \<rparr>)"

definition calcCowData :: "group \<Rightarrow> bool \<Rightarrow> group" where
  "calcCowData g bByPokerType =
     (if g_calc g then g
      else if bByPokerType then
        (case findCow (g_poker g) (g_niu g) (g_other g) of (type, niu, other) \<Rightarrow>
           g\<lparr> g_type := type, g_niu := niu, g_other := other, g_max := MaxAt (findMaxPoker (g_poker g)), g_calc := True \<rparr>)
      else (calcByNoNiu g)\<lparr> g_max := MaxAt (findMaxPoker (g_poker g)), g_calc := True \<rparr>)"

text \<open>What \<open>max_poker\<close> points to.\<close>

definition max_card :: "group \<Rightarrow> one_poker option" where
  "max_card g = (case g_max g of MaxAt i \<Rightarrow> (if i < length (g_poker g) then Some (g_poker g ! i) else None) | _ \<Rightarrow> None)"

definition compareGroupPoker :: "group \<Rightarrow> bool \<Rightarrow> group \<Rightarrow> bool \<Rightarrow> (bool \<times> group \<times> group) option" where
  "compareGroupPoker a byNiu_a b byNiu_b =
     (let a1 = calcCowData a byNiu_a; b1 = calcCowData b byNiu_b;
          ret = compareNiutype (g_type a1) (g_type b1)
      in if ret = 0 then do {
           p \<leftarrow> max_card a1;
           q \<leftarrow> max_card b1;
           Some (\<not> compareSinglePoker p q, a1, b1) }
         else Some (ret = -1, a1, b1))"

subsection \<open>CheckCowWithPokerInfo\<close>

text \<open>\<open>poker_value\<close> has \<open>MAX_DNPOKER_VALUE\<close> entries, 0 to 12.\<close>

abbreviation (input) MAX_DNPOKER_VALUE :: nat where "MAX_DNPOKER_VALUE \<equiv> 13"

primrec count_values :: "int list \<Rightarrow> int list \<Rightarrow> int list option" where
  "count_values [] counts = Some counts"
| "count_values (v # vs) counts =
     (if 0 \<le> v \<and> nat v < length counts then count_values vs (counts[nat v := counts ! nat v + 1]) else None)"

definition CheckCowWithPokerInfo :: "int \<Rightarrow> int list \<Rightarrow> group \<Rightarrow> (bool \<times> group) option" where
  "CheckCowWithPokerInfo niu_type poker_index g =
     (if \<exists>k\<in>{0..<5}. length (filter (\<lambda>i. poker_index ! i = k) [0..<5]) \<noteq> 1 then Some (False, g)
      else do {
        let vs = map (\<lambda>i. poker_value (g_poker g ! i)) [0..<5];
        counts \<leftarrow> count_values vs (replicate MAX_DNPOKER_VALUE 0);
        let sum_of_poker = sum_list (map changeDNPokerJQK vs);
        let num_of_xiao = length (filter (\<lambda>v. \<not> v > 10 \<and> v < 5) vs);
        let num_of_hua = length (filter (\<lambda>v. v > 10) vs);
        let wrong =
          (if niu_type = WU_XIAO_NIU \<and> num_of_xiao \<noteq> 5 then True
           else if niu_type = WU_HUA_NIU \<and> num_of_hua \<noteq> 5 then True
           else if niu_type = SI_ZHA then \<not> (\<exists>v\<in>set vs. counts ! nat v = 4)
           else crem sum_of_poker 10 \<noteq> crem niu_type 10);
        Some (if wrong then (False, g)
              else (True, g\<lparr> g_max := MaxAt (findMaxPoker (g_poker g)), g_type := niu_type, g_calc := True,
                     g_other := (g_other g)[0 := poker_index ! 0, 1 := poker_index ! 1],
                     g_niu := (g_niu g)[0 := poker_index ! 2, 1 := poker_index ! 3, 2 := poker_index ! 4] \<rparr>)) })"

subsection \<open>Confuse\<close>

text \<open>New colours until no two of the cards so far agree; the loop may never end.  \<open>r\<close> counts the calls of
  \<open>rand\<close>.\<close>

partial_function (option) confuse_loop :: "(nat \<Rightarrow> nat) \<Rightarrow> nat \<Rightarrow> nat \<Rightarrow> one_poker list \<Rightarrow> (nat \<times> one_poker list) option" where
  "confuse_loop rnd i r ps =
     (if i < 5 then
        (let p = (ps ! i)\<lparr> poker_color := int (rnd r mod 4 + 1) \<rparr>; ps1 = ps[i := p];
             same = (\<exists>j\<in>{0..<i}. poker_color p = poker_color (ps1 ! j) \<and> poker_value p = poker_value (ps1 ! j))
         in confuse_loop rnd (if same then i else i + 1) (r + 1) ps1)
      else Some (r, ps))"

definition Confuse :: "(nat \<Rightarrow> nat) \<Rightarrow> nat \<Rightarrow> group \<Rightarrow> (nat \<times> group) option" where
  "Confuse rnd r g = do {
     (r', ps) \<leftarrow> confuse_loop rnd 0 r (g_poker g);
     Some (r', g\<lparr> g_poker := ps, g_max := MaxAt (findMaxPoker ps) \<rparr>) }"

subsection \<open>A hand in a packet\<close>

definition put_card_to :: "heap_env \<Rightarrow> packet \<Rightarrow> one_poker \<Rightarrow> packet option" where
  "put_card_to H p c = do {
     p1 \<leftarrow> put_word H p (word_of_int (poker_color c) :: 8 word);
     put_word H p1 (word_of_int (poker_value c) :: 8 word) }"

primrec put_cards_to :: "heap_env \<Rightarrow> packet \<Rightarrow> one_poker list \<Rightarrow> packet option" where
  "put_cards_to H p [] = Some p"
| "put_cards_to H p (c # cs) = do { p1 \<leftarrow> put_card_to H p c; put_cards_to H p1 cs }"

definition get_card_from :: "packet \<Rightarrow> (one_poker \<times> packet) option" where
  "get_card_from p = do {
     (c, p1) \<leftarrow> (get_word p :: (8 word \<times> packet) option);
     (v, p2) \<leftarrow> (get_word p1 :: (8 word \<times> packet) option);
     Some (\<lparr> poker_value = sint v, poker_color = sint c \<rparr>, p2) }"

primrec get_cards_from :: "nat \<Rightarrow> packet \<Rightarrow> (one_poker list \<times> packet) option" where
  "get_cards_from 0 p = Some ([], p)"
| "get_cards_from (Suc n) p = do {
     (c, p1) \<leftarrow> get_card_from p;
     (cs, p2) \<leftarrow> get_cards_from n p1;
     Some (c # cs, p2) }"

text \<open>The cards in the order they are sent: as they are without a cow and for the special types, else first
  those of the cow.  An index above 4 reads outside the array.\<close>

definition packet_cards :: "group \<Rightarrow> one_poker list option" where
  "packet_cards g =
     (if g_type g = MEI_NIU \<or> g_type g > NIU_NIU then Some (g_poker g)
      else (let idx = filter (\<lambda>i. i \<ge> 0) (g_niu g) @ filter (\<lambda>i. i \<ge> 0) (g_other g)
            in if \<exists>i\<in>set idx. i \<ge> 5 then None else Some (map (\<lambda>i. g_poker g ! nat i) idx)))"

definition ToPacket2 :: "heap_env \<Rightarrow> group \<Rightarrow> packet \<Rightarrow> packet option" where
  "ToPacket2 H g p = do {
     p1 \<leftarrow> put_word H p (word_of_int (g_type g) :: u32);
     cs \<leftarrow> packet_cards g;
     put_cards_to H p1 cs }"

definition ToPacket :: "heap_env \<Rightarrow> group \<Rightarrow> packet \<Rightarrow> packet option" where
  "ToPacket H g p = do {
     packet0 \<leftarrow> Packet_new H;
     packet1 \<leftarrow> ToPacket2 H g packet0;
     put_packet H p packet1 }"

definition FromPacket :: "packet \<Rightarrow> group \<Rightarrow> (group \<times> packet) option" where
  "FromPacket p g = do {
     (t, p1) \<leftarrow> (get_word p :: (u32 \<times> packet) option);
     (cs, p2) \<leftarrow> get_cards_from 5 p1;
     Some (g\<lparr> g_type := sint t, g_poker := cs \<rparr>, p2) }"

end
