(* ===== verification/Poker_Gen.thy ===== *)
theory Poker_Gen
  imports Poker_Cow
begin

text \<open>
  The generator of hands by type: \<open>DNPokerSet\<close>, \<open>PokerTypeRateConfig\<close> and \<open>DNPokerGen\<close>
  (\<open>DN_application/DN_Account/dn_poker.cpp\<close>).  A \<open>DNGroupPoker*\<close> result is the type of its set and its
  index there.  \<open>push_back\<close> may move the elements of the vector, so their pointers are taken as stale.
\<close>

record poker_set =
  st_type :: nat                      \<comment> \<open>\<open>card_type_\<close>\<close>
  st_groups :: "group list"

record rate =
  rt_type :: nat
  rt_begin :: nat
  rt_end :: nat

record gen =
  gn_maps :: "(nat \<times> poker_set) list"
  gn_configs :: "rate list"
  gn_use_rand :: nat

definition PokerSet_new :: "nat \<Rightarrow> poker_set" where
  "PokerSet_new t = \<lparr> st_type = t, st_groups = [] \<rparr>"

definition Set_AddGroupPoker :: "group \<Rightarrow> poker_set \<Rightarrow> poker_set" where
  "Set_AddGroupPoker g s = s\<lparr> st_groups := map copy_group (st_groups s @ [g]) \<rparr>"

definition Set_GetRandomGroupPoker :: "(nat \<Rightarrow> nat) \<Rightarrow> nat \<Rightarrow> poker_set \<Rightarrow> (nat option \<times> nat \<times> poker_set) option" where
  "Set_GetRandomGroupPoker rnd r s =
     (let num = length (st_groups s) in
      if num = 0 then Some (None, r, s)
      else do {
        let index = num - 1 - rnd r mod num;
        (r', g) \<leftarrow> Confuse rnd (r + 1) (st_groups s ! index);
        Some (Some index, r', s\<lparr> st_groups := (st_groups s)[index := g] \<rparr>) })"

definition IsInRate :: "nat \<Rightarrow> rate \<Rightarrow> bool" where
  "IsInRate rand_num c \<longleftrightarrow> rt_begin c \<le> rand_num \<and> rand_num < rt_end c"

definition Gen_new :: gen where
  "Gen_new = \<lparr> gn_maps = [], gn_configs = [], gn_use_rand = 0 \<rparr>"

text \<open>\<open>dn_type\<close> becomes a \<open>uint32_t\<close>.\<close>

definition Gen_AddGroupPoker :: "group \<Rightarrow> gen \<Rightarrow> gen" where
  "Gen_AddGroupPoker g gn =
     (let t = nat (g_type g mod 2 ^ 32);
          s = (case omap_find (gn_maps gn) t of Some s \<Rightarrow> s | None \<Rightarrow> PokerSet_new t)
      in gn\<lparr> gn_maps := omap_put t (Set_AddGroupPoker g s) (gn_maps gn) \<rparr>)"

definition gen_hand :: "int list \<Rightarrow> group" where
  "gen_hand vs = Group_new\<lparr> g_poker := map (\<lambda>v. \<lparr> poker_value = v, poker_color = 1 \<rparr>) vs \<rparr>"

definition all_values :: "int list list" where
  "all_values = [[i, j, m, n, k]. i \<leftarrow> [1..13], j \<leftarrow> [1..13], m \<leftarrow> [1..13], n \<leftarrow> [1..13], k \<leftarrow> [1..13]]"

definition gen_step :: "int list \<Rightarrow> gen \<Rightarrow> gen" where
  "gen_step vs gn = (if \<forall>v\<in>set (tl vs). v = hd vs then gn else Gen_AddGroupPoker (calcCowData (gen_hand vs) True) gn)"

definition Gen_Init :: "gen \<Rightarrow> bool \<times> gen" where
  "Gen_Init gn = (True, fold gen_step all_values gn)"

definition Gen_Final :: "gen \<Rightarrow> bool \<times> gen" where
  "Gen_Final gn = (True, gn\<lparr> gn_use_rand := 0 \<rparr>)"

definition AddRateConfig :: "nat \<Rightarrow> nat \<Rightarrow> nat \<Rightarrow> gen \<Rightarrow> gen" where
  "AddRateConfig t b e gn = gn\<lparr> gn_configs := gn_configs gn @ [\<lparr> rt_type = t, rt_begin = b, rt_end = e \<rparr>] \<rparr>"

definition ClearConfig :: "gen \<Rightarrow> gen" where
  "ClearConfig gn = gn\<lparr> gn_configs := [] \<rparr>"

definition UseRandPoker :: "nat \<Rightarrow> gen \<Rightarrow> gen" where
  "UseRandPoker use gn = gn\<lparr> gn_use_rand := use \<rparr>"

definition GetConfigByPokerType :: "nat \<Rightarrow> gen \<Rightarrow> rate option" where
  "GetConfigByPokerType t gn = find (\<lambda>c. rt_type c = t) (gn_configs gn)"

type_synonym pick = "((nat \<times> nat) option \<times> nat \<times> gen) option"

definition GetAssignGroupPoker :: "(nat \<Rightarrow> nat) \<Rightarrow> nat \<Rightarrow> nat \<Rightarrow> gen \<Rightarrow> pick" where
  "GetAssignGroupPoker rnd r t gn = (case omap_find (gn_maps gn) t of
     None \<Rightarrow> Some (None, r, gn)
   | Some s \<Rightarrow> do {
       (res, r', s') \<leftarrow> Set_GetRandomGroupPoker rnd r s;
       Some (map_option (Pair t) res, r', gn\<lparr> gn_maps := omap_put t s' (gn_maps gn) \<rparr>) })"

text \<open>A number outside every rate stands for type 0.\<close>

definition rate_type :: "nat \<Rightarrow> rate list \<Rightarrow> nat" where
  "rate_type rand_num configs = (case find (IsInRate rand_num) configs of Some c \<Rightarrow> rt_type c | None \<Rightarrow> 0)"

definition GetRandomGroupPokerByRate :: "(nat \<Rightarrow> nat) \<Rightarrow> nat \<Rightarrow> nat \<Rightarrow> gen \<Rightarrow> pick" where
  "GetRandomGroupPokerByRate rnd r rand_num gn = GetAssignGroupPoker rnd r (rate_type rand_num (gn_configs gn)) gn"

definition GetRandomGroupPoker :: "(nat \<Rightarrow> nat) \<Rightarrow> nat \<Rightarrow> gen \<Rightarrow> pick" where
  "GetRandomGroupPoker rnd r gn = GetRandomGroupPokerByRate rnd (r + 1) (rnd r mod 10000) gn"

definition GetRandomGroupPoker_range :: "(nat \<Rightarrow> nat) \<Rightarrow> nat \<Rightarrow> nat \<Rightarrow> nat \<Rightarrow> gen \<Rightarrow> pick" where
  "GetRandomGroupPoker_range rnd r type_begin type_end gn =
     (case (GetConfigByPokerType type_begin gn, GetConfigByPokerType type_end gn) of
        (Some b, Some e) \<Rightarrow>
          (if rt_end e \<le> rt_begin b then Some (None, r, gn)
           else GetRandomGroupPokerByRate rnd (r + 1) (rt_begin b + rnd r mod (rt_end e - rt_begin b)) gn)
      | _ \<Rightarrow> Some (None, r, gn))"

end
