(* ===== verification/Poker_Props.thy ===== *)
theory Poker_Props
  imports Poker_Gen "HOL-Library.Multiset" "HOL-Library.Product_Lexorder"
begin

text \<open>
  The type of a hand against its definition by the values alone, the cards that make it, and the order of
  hands.
\<close>

subsection \<open>Hands of five\<close>

lemma five_elems:
  assumes "length ps = 5"
  obtains a b c d e where "ps = [a, b, c, d, e]"
  using assms by (auto simp: numeral_eq_Suc length_Suc_conv)

definition hand_vals :: "one_poker list \<Rightarrow> int list" where
  "hand_vals ps = map poker_value ps"

text \<open>The type by definition: it depends on how often each value occurs.\<close>

definition cow_triple :: "int multiset \<Rightarrow> bool" where
  "cow_triple V \<longleftrightarrow> (\<exists>M. M \<subseteq># V \<and> size M = 3 \<and> 10 dvd sum_mset (image_mset changeDNPokerJQK M))"

definition hand_type :: "int multiset \<Rightarrow> int" where
  "hand_type V =
     (if (\<forall>v\<in>#V. v < 5) \<and> sum_mset V \<le> 10 then 13
      else if \<forall>v\<in>#V. v > 10 then 12
      else if \<exists>v. count V v \<ge> 4 then 11
      else if cow_triple V then
        (let s = sum_mset (image_mset changeDNPokerJQK V) mod 10 in if s = 0 then 10 else s)
      else 0)"

lemma hand_vals_nth:
  assumes "length ps = 5"
  shows "map (\<lambda>i. poker_value (ps ! i)) [0..<5] = hand_vals ps"
  by (rule nth_equalityI) (simp_all add: hand_vals_def assms)

lemma upt_5: "[0..<5] = [0, 1, 2, 3, 4 :: nat]" "[Suc 0..<5] = [1, 2, 3, 4 :: nat]"
  by (simp_all add: upt_rec)

lemma triples_eq: "triples = [(0,1,2),(0,1,3),(0,1,4),(0,2,3),(0,2,4),(0,3,4),(1,2,3),(1,2,4),(1,3,4),(2,3,4)]"
  by code_simp

lemma crem_0: "crem a 10 = 0 \<longleftrightarrow> 10 dvd a"
  by (auto simp: crem_def mod_eq_0_iff_dvd)

text \<open>The multisets of three values among five.\<close>

lemma sub_Cons_cases:
  assumes "M \<subseteq># add_mset x N"
  shows "M \<subseteq># N \<or> (\<exists>M'. M = add_mset x M' \<and> M' \<subseteq># N)"
proof (cases "x \<in># M")
  case True
  then obtain M' where "M = add_mset x M'" by (metis multi_member_split)
  then show ?thesis using assms by auto
next
  case False
  have "count M y \<le> count N y" for y
    using mset_subset_eq_count[OF assms, of y] False by (cases "y = x") (auto simp: not_in_iff)
  then show ?thesis by (auto simp: subseteq_mset_def)
qed

fun subs :: "nat \<Rightarrow> 'a list \<Rightarrow> 'a list list" where
  "subs 0 xs = [[]]"
| "subs (Suc n) [] = []"
| "subs (Suc n) (x # xs) = map ((#) x) (subs n xs) @ subs (Suc n) xs"

lemma subs_sound: "ys \<in> set (subs n xs) \<Longrightarrow> mset ys \<subseteq># mset xs \<and> length ys = n"
proof (induction n xs arbitrary: ys rule: subs.induct)
  case (3 n x xs)
  then show ?case by (auto intro: subset_mset.order_trans[of _ "mset xs"])
qed auto

lemma subs_complete: "M \<subseteq># mset xs \<Longrightarrow> size M = n \<Longrightarrow> M \<in> mset ` set (subs n xs)"
proof (induction n xs arbitrary: M rule: subs.induct)
  case (3 n x xs)
  from sub_Cons_cases[of M x "mset xs"] 3(3) consider "M \<subseteq># mset xs" | M' where "M = add_mset x M'" "M' \<subseteq># mset xs" by auto
  then show ?case
  proof cases
    case 1 then show ?thesis using "3.IH"(2)[of M] 3(4) by auto
  next
    case 2
    then obtain ys where ys: "ys \<in> set (subs n xs)" "M' = mset ys" using "3.IH"(1)[of M'] 3(4) by auto
    then have "x # ys \<in> set (subs (Suc n) (x # xs))" "M = mset (x # ys)" using 2 by simp_all
    then show ?thesis by blast
  qed
qed auto

lemma cow_triple_subs:
  "cow_triple (mset xs) \<longleftrightarrow> (\<exists>ys\<in>set (subs 3 xs). 10 dvd sum_list (map changeDNPokerJQK ys))"
proof -
  have eq: "sum_mset (image_mset changeDNPokerJQK (mset ys)) = sum_list (map changeDNPokerJQK ys)" for ys
    by (simp flip: mset_map sum_mset_sum_list)
  have "cow_triple (mset xs) \<longleftrightarrow> (\<exists>M\<in>mset ` set (subs 3 xs). 10 dvd sum_mset (image_mset changeDNPokerJQK M))"
    unfolding cow_triple_def using subs_sound[of _ 3 xs] subs_complete[of _ xs 3] by (metis image_iff size_mset)
  then show ?thesis by (simp add: eq)
qed

lemma find_triple:
  assumes "length ps = 5"
  shows "find (is_niu ps) triples \<noteq> None \<longleftrightarrow> cow_triple (mset (hand_vals ps))"
proof -
  obtain a b c d e where ps: "ps = [a, b, c, d, e]" by (rule five_elems[OF assms])
  let ?t = "\<lambda>x y z. 10 dvd changeDNPokerJQK (poker_value x) + (changeDNPokerJQK (poker_value y) + changeDNPokerJQK (poker_value z))"
  have "cow_triple (mset (hand_vals ps)) \<longleftrightarrow>
      ?t a b c \<or> ?t a b d \<or> ?t a b e \<or> ?t a c d \<or> ?t a c e \<or> ?t a d e \<or> ?t b c d \<or> ?t b c e \<or> ?t b d e \<or> ?t c d e"
    unfolding cow_triple_subs ps hand_vals_def list.map by (simp add: numeral_3_eq_3)
  moreover have "find (is_niu ps) triples \<noteq> None \<longleftrightarrow>
      ?t a b c \<or> ?t a b d \<or> ?t a b e \<or> ?t a c d \<or> ?t a c e \<or> ?t a d e \<or> ?t b c d \<or> ?t b c e \<or> ?t b d e \<or> ?t c d e"
    by (simp add: ps triples_eq is_niu_def crem_0 add_ac)
  ultimately show ?thesis by simp
qed

text \<open>Four of a kind among five sorted values.\<close>

lemma si_zha_sorted:
  assumes "v0 \<le> v1" "v1 \<le> v2" "v2 \<le> v3" "v3 \<le> (v4::int)"
  shows "fst (si_zha_loop [(v0,i0),(v1,i1),(v2,i2),(v3,i3),(v4,i4)] [1..<5] 0 niu other)
    \<longleftrightarrow> (\<exists>v. count (mset [v0, v1, v2, v3, v4]) v \<ge> 4)"
proof -
  have "fst (si_zha_loop [(v0,i0),(v1,i1),(v2,i2),(v3,i3),(v4,i4)] [1..<5] 0 niu other)
      \<longleftrightarrow> v0 = v3 \<or> v1 = v4"
    using assms by (auto simp: upt_5 Let_def)
  also have "\<dots> \<longleftrightarrow> (\<exists>v. count (mset [v0, v1, v2, v3, v4]) v \<ge> 4)"
  proof
    assume "v0 = v3 \<or> v1 = v4"
    then have "v0 = v1 \<and> v1 = v2 \<and> v2 = v3 \<or> v1 = v2 \<and> v2 = v3 \<and> v3 = v4" using assms by linarith
    then show "\<exists>v. count (mset [v0, v1, v2, v3, v4]) v \<ge> 4" by (intro exI[of _ v2]) auto
  next
    assume "\<exists>v. count (mset [v0, v1, v2, v3, v4]) v \<ge> 4"
    then obtain v where "count (mset [v0, v1, v2, v3, v4]) v \<ge> 4" by blast
    then show "v0 = v3 \<or> v1 = v4" using assms by (auto split: if_splits)
  qed
  finally show ?thesis .
qed

lemma si_zha_hand:
  assumes "length ps = 5"
  shows "fst (si_zha_loop (sorted_pokers ps) [1..<5] 0 niu other) \<longleftrightarrow> (\<exists>v. count (mset (hand_vals ps)) v \<ge> 4)"
proof -
  have len: "length (sorted_pokers ps) = 5" by (simp add: sorted_pokers_def)
  then obtain x0 x1 x2 x3 x4 where s: "sorted_pokers ps = [x0, x1, x2, x3, x4]"
    by (auto simp: numeral_eq_Suc length_Suc_conv)
  have "sorted (map fst (sorted_pokers ps))" by (simp add: sorted_pokers_def)
  then have ord: "fst x0 \<le> fst x1" "fst x1 \<le> fst x2" "fst x2 \<le> fst x3" "fst x3 \<le> fst x4" by (simp_all add: s)
  have "mset (map fst (sorted_pokers ps)) = mset (map (\<lambda>i. poker_value (ps ! i)) [0..<5])"
    unfolding sorted_pokers_def by (simp add: image_mset.compositionality comp_def)
  also have "map (\<lambda>i. poker_value (ps ! i)) [0..<5] = hand_vals ps"
    by (rule hand_vals_nth[OF assms])
  finally have m: "mset [fst x0, fst x1, fst x2, fst x3, fst x4] = mset (hand_vals ps)" by (simp add: s)
  have "sorted_pokers ps = [(fst x0, snd x0), (fst x1, snd x1), (fst x2, snd x2), (fst x3, snd x3), (fst x4, snd x4)]"
    by (simp add: s)
  then show ?thesis using si_zha_sorted[OF ord] m by metis
qed

lemma filter_full: "length xs = n \<Longrightarrow> length (filter P xs) = n \<longleftrightarrow> (\<forall>x\<in>set xs. P x)"
proof
  assume "length xs = n" "length (filter P xs) = n"
  then show "\<forall>x\<in>set xs. P x" using length_filter_less[of _ xs P] by auto
qed (simp add: filter_True)

lemma sum_hand:
  "sum_list (map changeDNPokerJQK (hand_vals ps)) = sum_mset (image_mset changeDNPokerJQK (mset (hand_vals ps)))"
  "sum_list (hand_vals ps) = sum_mset (mset (hand_vals ps))"
  by (simp_all flip: sum_mset_sum_list mset_map)

lemma crem_less: "crem a 10 < 11"
  using pos_mod_bound[of 10 a] pos_mod_sign[of 10 "- a"] unfolding crem_def by auto

lemma crem_mod: "0 \<le> a \<Longrightarrow> crem a 10 = a mod 10"
  by (simp add: crem_def)

lemma findCow_type:
  assumes "length ps = 5" "\<forall>p\<in>set ps. 0 \<le> poker_value p"
  shows "fst (findCow ps niu other) = hand_type (mset (hand_vals ps))"
proof -
  let ?vs = "hand_vals ps" and ?V = "mset (hand_vals ps)"
  have len: "length ?vs = 5" using assms(1) by (simp add: hand_vals_def)
  have xiao: "length (filter (\<lambda>v. v < 5) ?vs) = 5 \<and> sum_list (filter (\<lambda>v. v < 5) ?vs) \<le> 10
      \<longleftrightarrow> (\<forall>v\<in>#?V. v < 5) \<and> sum_mset ?V \<le> 10"
    using filter_full[OF len, of "\<lambda>v. v < 5"] by (auto simp: sum_hand filter_True)
  have hua: "length (filter (\<lambda>v. \<not> v < 5 \<and> v > 10) ?vs) = 5 \<longleftrightarrow> (\<forall>v\<in>#?V. v > 10)"
    using filter_full[OF len, of "\<lambda>v. \<not> v < 5 \<and> v > 10"] by auto
  have "0 \<le> sum_list (map changeDNPokerJQK ?vs)"
    by (rule sum_list_nonneg) (use assms(2) in \<open>auto simp: hand_vals_def changeDNPokerJQK_def\<close>)
  then have sum: "crem (sum_list (map changeDNPokerJQK ?vs)) 10 = sum_mset (image_mset changeDNPokerJQK ?V) mod 10"
    by (simp add: crem_mod sum_hand)
  obtain z niu1 other1 where z: "si_zha_loop (sorted_pokers ps) [1..<5] 0 niu other = (z, niu1, other1)"
    by (cases "si_zha_loop (sorted_pokers ps) [1..<5] 0 niu other") auto
  have zha: "z \<longleftrightarrow> (\<exists>v. count ?V v \<ge> 4)" using si_zha_hand[OF assms(1), of niu other] by (simp only: z fst_conv)
  have "fst (findCow ps niu other) =
      (if (\<forall>v\<in>#?V. v < 5) \<and> sum_mset ?V \<le> 10 then 13 else if \<forall>v\<in>#?V. v > 10 then 12 else if z then 11
       else if find (is_niu ps) triples \<noteq> None then
         (let s = sum_mset (image_mset changeDNPokerJQK ?V) mod 10 in if s = 0 then 10 else s) else 0)"
    unfolding findCow_def Let_def hand_vals_nth[OF assms(1)] xiao hua z sum
    by (auto simp: dn_types split: bool.split option.split)
  then show ?thesis unfolding hand_type_def zha find_triple[OF assms(1)] .
qed

text \<open>C18: \<open>findCow\<close> computes the type of a hand as it is defined by the values of its cards alone: it does not
  depend on the order of the cards, nor on their colours, nor on what the index arrays held.\<close>

theorem findCow_hand_type:
  assumes "length ps = 5" "\<forall>p\<in>set ps. 0 \<le> poker_value p"
  shows "fst (findCow ps niu other) = hand_type (mset (hand_vals ps))
    \<and> (\<forall>qs m n. mset (hand_vals qs) = mset (hand_vals ps) \<longrightarrow> fst (findCow qs m n) = fst (findCow ps niu other))"
proof -
  have "length qs = 5 \<and> (\<forall>q\<in>set qs. 0 \<le> poker_value q)" if e: "mset (hand_vals qs) = mset (hand_vals ps)" for qs
  proof -
    have "length qs = length ps" using mset_eq_length[OF e] by (simp add: hand_vals_def)
    moreover have "poker_value ` set qs = poker_value ` set ps" using mset_eq_setD[OF e] by (simp add: hand_vals_def)
    ultimately show ?thesis using assms by (metis imageI image_iff)
  qed
  then show ?thesis using findCow_type[OF assms] findCow_type by metis
qed

definition demo_hand :: "one_poker list" where
  "demo_hand = [\<lparr> poker_value = 13, poker_color = 1 \<rparr>, \<lparr> poker_value = 3, poker_color = 2 \<rparr>, \<lparr> poker_value = 7, poker_color = 4 \<rparr>,
     \<lparr> poker_value = 9, poker_color = 3 \<rparr>, \<lparr> poker_value = 10, poker_color = 1 \<rparr>]"

theorem findCow_hand_type_witness:
  "hand_type (mset (hand_vals demo_hand)) = 9"
proof -
  have "length demo_hand = 5" "\<forall>p\<in>set demo_hand. 0 \<le> poker_value p" by (simp_all add: demo_hand_def)
  from findCow_hand_type[OF this, of "replicate 5 (-1)" "replicate 2 (-1)"]
  have "hand_type (mset (hand_vals demo_hand)) = fst (findCow demo_hand (replicate 5 (-1)) (replicate 2 (-1)))" by simp
  also have "\<dots> = 9" by code_simp
  finally show ?thesis .
qed

subsection \<open>The cards that make the type\<close>

lemma si_zha_indices:
  assumes "si_zha_loop [(v0,i0),(v1,i1),(v2,i2),(v3,i3),(v4,i4)] [1..<5] 0 niu other = (True, niu1, other1)" "length niu = 5"
  shows "v1 = v2 \<and> v2 = v3 \<and> (v0 = v1 \<and> take 4 niu1 = map int [i0, i1, i2, i3] \<or> v3 = v4 \<and> take 4 niu1 = map int [i1, i2, i3, i4])"
proof -
  obtain n0 n1 n2 n3 n4 where "niu = [n0, n1, n2, n3, n4]" using assms(2) by (auto simp: numeral_eq_Suc length_Suc_conv)
  then show ?thesis using assms(1)
    by (auto simp: upt_5 Let_def numeral_eq_Suc split: if_splits)
qed

lemma si_zha_cards:
  assumes "length ps = 5" "si_zha_loop (sorted_pokers ps) [1..<5] 0 niu other = (True, niu1, other1)" "length niu = 5"
  shows "\<exists>is v. take 4 niu1 = map int is \<and> length is = 4 \<and> distinct is \<and> set is \<subseteq> {..<5} \<and> (\<forall>i\<in>set is. poker_value (ps ! i) = v)"
proof -
  have len: "length (sorted_pokers ps) = 5" by (simp add: sorted_pokers_def)
  then obtain x0 x1 x2 x3 x4 where s: "sorted_pokers ps = [x0, x1, x2, x3, x4]"
    by (auto simp: numeral_eq_Suc length_Suc_conv)
  have pos: "fst x = poker_value (ps ! snd x) \<and> snd x < 5" if "x \<in> set (sorted_pokers ps)" for x
    using that by (auto simp: sorted_pokers_def)
  have "mset (map snd (sorted_pokers ps)) = mset [0..<5]"
    by (simp add: sorted_pokers_def image_mset.compositionality comp_def)
  then have d: "distinct (map snd (sorted_pokers ps))" by (metis distinct_upt mset_eq_imp_distinct_iff)
  have "si_zha_loop [(fst x0, snd x0), (fst x1, snd x1), (fst x2, snd x2), (fst x3, snd x3), (fst x4, snd x4)] [1..<5] 0 niu other
      = (True, niu1, other1)" using assms(2) by (simp add: s)
  from si_zha_indices[OF this assms(3)] consider
    "fst x1 = fst x2 \<and> fst x2 = fst x3 \<and> fst x0 = fst x1" "take 4 niu1 = map int [snd x0, snd x1, snd x2, snd x3]"
    | "fst x1 = fst x2 \<and> fst x2 = fst x3 \<and> fst x3 = fst x4" "take 4 niu1 = map int [snd x1, snd x2, snd x3, snd x4]" by blast
  then show ?thesis
  proof cases
    case 1
    show ?thesis
      by (rule exI[of _ "[snd x0, snd x1, snd x2, snd x3]"], rule exI[of _ "fst x1"])
        (use 1 pos[of x0] pos[of x1] pos[of x2] pos[of x3] d in \<open>auto simp: s\<close>)
  next
    case 2
    show ?thesis
      by (rule exI[of _ "[snd x1, snd x2, snd x3, snd x4]"], rule exI[of _ "fst x1"])
        (use 2 pos[of x1] pos[of x2] pos[of x3] pos[of x4] d in \<open>auto simp: s\<close>)
  qed
qed

lemma si_zha_length:
  "si_zha_loop s is c niu other = (z, niu1, other1) \<Longrightarrow> length niu1 = length niu \<and> length other1 = length other"
  by (induction s "is" c niu other arbitrary: niu1 other1 rule: si_zha_loop.induct) (auto simp: Let_def split: if_splits)

lemma niu_cards:
  assumes "find (is_niu ps) triples = Some (i, j, k)" "length niu = 5" "length other = 2"
  shows "\<exists>m n. take 3 (niu[0 := int i, 1 := int j, 2 := int k]) = map int [i, j, k]
    \<and> other[0 := int (rest_of (i, j, k) ! 0), 1 := int (rest_of (i, j, k) ! 1)] = map int [m, n]
    \<and> distinct [i, j, k, m, n] \<and> {i, j, k, m, n} = {..<5}
    \<and> 10 dvd changeDNPokerJQK (poker_value (ps ! i)) + changeDNPokerJQK (poker_value (ps ! j)) + changeDNPokerJQK (poker_value (ps ! k))"
proof -
  have n: "is_niu ps (i, j, k)" "(i, j, k) \<in> set triples" using assms(1) by (auto simp: find_Some_iff)
  obtain n0 n1 n2 n3 n4 where niu: "niu = [n0, n1, n2, n3, n4]" using assms(2) by (auto simp: numeral_eq_Suc length_Suc_conv)
  obtain m0 m1 where other: "other = [m0, m1]" using assms(3) by (auto simp: numeral_eq_Suc length_Suc_conv)
  let ?m = "rest_of (i, j, k) ! 0" and ?n = "rest_of (i, j, k) ! 1"
  have "list_all (\<lambda>(i, j, k). let is = [i, j, k, rest_of (i, j, k) ! 0, rest_of (i, j, k) ! 1]
      in distinct is \<and> set is = set [0..<5]) triples" by code_simp
  from bspec[OF this[unfolded list_all_iff] n(2)] have "distinct [i, j, k, ?m, ?n] \<and> set [i, j, k, ?m, ?n] = {..<5}"
    by (simp only: Let_def prod.case atLeast_upt[symmetric] lessThan_atLeast0)
  then have d: "distinct [i, j, k, ?m, ?n]" "{i, j, k, ?m, ?n} = {..<5}" by (simp_all only: list.set simp_thms)
  have t: "take 3 (niu[0 := int i, 1 := int j, 2 := int k]) = map int [i, j, k]" by (simp add: niu numeral_eq_Suc)
  have o: "other[0 := int ?m, 1 := int ?n] = map int [?m, ?n]" by (simp add: other)
  show ?thesis
    by (rule exI[of _ ?m], rule exI[of _ ?n], intro conjI t o d) (use n(1) in \<open>simp add: is_niu_def crem_0\<close>)
qed

lemma findCow_cases:
  assumes "length ps = 5" "findCow ps niu other = (t, niu', other')"
  obtains (special) "t = 13 \<or> t = 12 \<or> t = 0"
  | (zha) "si_zha_loop (sorted_pokers ps) [1..<5] 0 niu other = (True, niu', other')" "t = 11"
  | (niu) niu1 other1 i j k where "si_zha_loop (sorted_pokers ps) [1..<5] 0 niu other = (False, niu1, other1)"
      "find (is_niu ps) triples = Some (i, j, k)" "t \<noteq> 11"
      "niu' = niu1[0 := int i, 1 := int j, 2 := int k]"
      "other' = other1[0 := int (rest_of (i, j, k) ! 0), 1 := int (rest_of (i, j, k) ! 1)]"
proof -
  obtain z niu1 other1 where z: "si_zha_loop (sorted_pokers ps) [1..<5] 0 niu other = (z, niu1, other1)"
    by (cases "si_zha_loop (sorted_pokers ps) [1..<5] 0 niu other") auto
  consider "t = 13 \<or> t = 12 \<or> t = 0" | "z" "t \<noteq> 13" "t \<noteq> 12" "t \<noteq> 0" | "\<not> z" "t \<noteq> 13" "t \<noteq> 12" "t \<noteq> 0" by blast
  then show thesis
  proof cases
    case 2
    then show thesis using zha assms(2) z by (auto simp: findCow_def Let_def dn_types split: if_splits)
  next
    case 3
    then obtain i j k where f: "find (is_niu ps) triples = Some (i, j, k)"
      using assms(2) z by (auto simp: findCow_def Let_def dn_types split: if_splits option.splits)
    moreover from this have "niu' = niu1[0 := int i, 1 := int j, 2 := int k]"
      "t = NIU_NIU \<or> t = crem (sum_list (map changeDNPokerJQK (hand_vals ps))) 10"
      "other' = other1[0 := int (rest_of (i, j, k) ! 0), 1 := int (rest_of (i, j, k) ! 1)]"
      using assms(2) 3 z by (auto simp: findCow_def Let_def dn_types hand_vals_nth[OF assms(1)] split: if_splits)
    moreover have "crem (sum_list (map changeDNPokerJQK (hand_vals ps))) 10 < 11" by (rule crem_less)
    ultimately show thesis using niu[of niu1 other1] z 3 by (auto simp: dn_types)
  qed (use special in blast)
qed

text \<open>The indices \<open>findCow\<close> writes prove the type it returns.  For a cow the first three are the positions of
  three cards that add up to a multiple of ten, and the other two are the positions of the rest; for four of
  a kind the first four are the positions of four cards of one value.\<close>

theorem findCow_indices:
  assumes "length ps = 5" "length niu = 5" "length other = 2" "findCow ps niu other = (t, niu', other')"
  shows "(1 \<le> t \<and> t \<le> 10 \<longrightarrow>
      (\<exists>i j k m n. take 3 niu' = map int [i, j, k] \<and> other' = map int [m, n] \<and> distinct [i, j, k, m, n] \<and> {i, j, k, m, n} = {..<5}
         \<and> 10 dvd changeDNPokerJQK (poker_value (ps ! i)) + changeDNPokerJQK (poker_value (ps ! j)) + changeDNPokerJQK (poker_value (ps ! k))))
    \<and> (t = 11 \<longrightarrow> (\<exists>is v. take 4 niu' = map int is \<and> length is = 4 \<and> distinct is \<and> set is \<subseteq> {..<5}
         \<and> (\<forall>i\<in>set is. poker_value (ps ! i) = v)))"
  using assms(1,4)
proof (cases rule: findCow_cases)
  case zha
  then show ?thesis using si_zha_cards[OF assms(1) zha(1) assms(2)] by simp
next
  case (niu niu1 other1 i j k)
  have "length niu1 = 5" "length other1 = 2" using si_zha_length[OF niu(1)] assms(2,3) by simp_all
  from niu_cards[OF niu(2) this] show ?thesis unfolding niu(4,5) using niu(3) by blast
qed auto

theorem findCow_indices_witness:
  "findCow demo_hand (replicate 5 (-1)) (replicate 2 (-1)) = (9, [0, 1, 2, -1, -1], [3, 4])
    \<and> (\<exists>i j k. take 3 [0, 1, 2, -1, -1 :: int] = map int [i, j, k]
      \<and> 10 dvd changeDNPokerJQK (poker_value (demo_hand ! i)) + changeDNPokerJQK (poker_value (demo_hand ! j)) + changeDNPokerJQK (poker_value (demo_hand ! k)))"
proof -
  have f: "findCow demo_hand (replicate 5 (-1)) (replicate 2 (-1)) = (9, [0, 1, 2, -1, -1], [3, 4])" by code_simp
  have "length demo_hand = 5" by (simp add: demo_hand_def)
  from findCow_indices[OF this _ _ f] obtain i j k where "take 3 [0, 1, 2, -1, -1 :: int] = map int [i, j, k]"
    "10 dvd changeDNPokerJQK (poker_value (demo_hand ! i)) + changeDNPokerJQK (poker_value (demo_hand ! j)) + changeDNPokerJQK (poker_value (demo_hand ! k))"
    by auto
  then show ?thesis using f by blast
qed

subsection \<open>The order of hands\<close>

definition card_rank :: "one_poker \<Rightarrow> int \<times> int" where
  "card_rank p = (poker_value p, poker_color p)"

lemma findMaxPoker_max:
  assumes "length ps = 5"
  shows "findMaxPoker ps < 5 \<and> (\<forall>p\<in>set ps. card_rank p \<le> card_rank (ps ! findMaxPoker ps))"
proof -
  let ?f = "\<lambda>i m. if poker_value (ps ! m) < poker_value (ps ! i)
        \<or> poker_value (ps ! m) = poker_value (ps ! i) \<and> poker_color (ps ! m) < poker_color (ps ! i) then i else m"
  have "fold ?f [1..<Suc n] 0 < Suc n \<and> (\<forall>i<Suc n. card_rank (ps ! i) \<le> card_rank (ps ! fold ?f [1..<Suc n] 0))" for n
  proof (induction n)
    case (Suc n)
    let ?m = "fold ?f [1..<Suc n] 0"
    have step: "fold ?f [1..<Suc (Suc n)] 0 = ?f (Suc n) ?m" by simp
    have up: "card_rank (ps ! ?m) \<le> card_rank (ps ! ?f (Suc n) ?m)" "card_rank (ps ! Suc n) \<le> card_rank (ps ! ?f (Suc n) ?m)"
      by (auto simp: card_rank_def)
    have "card_rank (ps ! i) \<le> card_rank (ps ! ?f (Suc n) ?m)" if "i < Suc (Suc n)" for i
    proof (cases "i = Suc n")
      case False
      then have "card_rank (ps ! i) \<le> card_rank (ps ! ?m)" using Suc.IH that by auto
      then show ?thesis using up(1) by (rule order_trans)
    qed (use up(2) in simp)
    then show ?case using Suc.IH unfolding step by auto
  qed simp
  from this[of 4] show ?thesis using assms by (auto simp: findMaxPoker_def in_set_conv_nth)
qed

text \<open>A hand's strength: its type, then its greatest card.\<close>

definition strength :: "group \<Rightarrow> bool \<Rightarrow> int \<times> int \<times> int" where
  "strength g by_type = (if by_type then hand_type (mset (hand_vals (g_poker g))) else 0, Max (card_rank ` set (g_poker g)))"

definition fresh_hand :: "group \<Rightarrow> bool" where
  "fresh_hand g \<longleftrightarrow> \<not> g_calc g \<and> length (g_poker g) = 5 \<and> (\<forall>p\<in>set (g_poker g). 0 \<le> poker_value p)"

lemma calcCowData_strength:
  assumes "fresh_hand g"
  shows "\<exists>p\<in>set (g_poker g). max_card (calcCowData g n) = Some p \<and> strength g n = (g_type (calcCowData g n), card_rank p)"
proof -
  have len: "length (g_poker g) = 5" using assms by (simp add: fresh_hand_def)
  let ?m = "findMaxPoker (g_poker g)"
  have m: "?m < 5" "\<forall>p\<in>set (g_poker g). card_rank p \<le> card_rank (g_poker g ! ?m)"
    using findMaxPoker_max[OF len] by simp_all
  have "Max (card_rank ` set (g_poker g)) = card_rank (g_poker g ! ?m)"
    by (rule Max_eqI) (use m len in auto)
  moreover have "g_type (calcCowData g n) = (if n then hand_type (mset (hand_vals (g_poker g))) else 0)"
    using assms findCow_type[OF len, of "g_niu g" "g_other g"]
    by (auto simp: calcCowData_def fresh_hand_def calcByNoNiu_def dn_types split: prod.split)
  moreover have "max_card (calcCowData g n) = Some (g_poker g ! ?m)"
    using assms m(1) len by (auto simp: calcCowData_def fresh_hand_def calcByNoNiu_def max_card_def split: prod.split)
  moreover have "g_poker g ! ?m \<in> set (g_poker g)" using m(1) len by simp
  ultimately show ?thesis unfolding strength_def by (intro bexI[of _ "g_poker g ! ?m"]) simp_all
qed

text \<open>C19: \<open>compareGroupPoker\<close> is the lexicographic order of type and greatest card: the first hand loses exactly when
  it is not stronger.  So of two hands that share no card exactly one loses.\<close>

theorem compareGroupPoker_order:
  assumes "fresh_hand a" "fresh_hand b"
  shows "\<exists>a' b'. compareGroupPoker a m b n = Some (strength a m \<le> strength b n, a', b')
    \<and> (set (g_poker a) \<inter> set (g_poker b) = {} \<longrightarrow> strength a m \<noteq> strength b n)"
proof -
  obtain p where p: "p \<in> set (g_poker a)" "max_card (calcCowData a m) = Some p" "strength a m = (g_type (calcCowData a m), card_rank p)"
    using calcCowData_strength[OF assms(1), of m] by blast
  obtain q where q: "q \<in> set (g_poker b)" "max_card (calcCowData b n) = Some q" "strength b n = (g_type (calcCowData b n), card_rank q)"
    using calcCowData_strength[OF assms(2), of n] by blast
  have "\<exists>a' b'. compareGroupPoker a m b n = Some (strength a m \<le> strength b n, a', b')"
    unfolding p(3) q(3) using p(2) q(2)
    by (auto simp: compareGroupPoker_def Let_def compareNiutype_def compareSinglePoker_def card_rank_def)
  moreover have "strength a m \<noteq> strength b n" if "set (g_poker a) \<inter> set (g_poker b) = {}"
  proof
    assume "strength a m = strength b n"
    then have "p = q" unfolding p(3) q(3) by (simp add: card_rank_def one_poker.equality)
    then show False using p(1) q(1) that by blast
  qed
  ultimately show ?thesis by blast
qed

theorem compareGroupPoker_order_witness:
  "\<exists>a' b'. compareGroupPoker (setPoker demo_hand Group_new) True (setPoker (rev demo_hand) Group_new) False = Some (False, a', b')"
proof -
  have f: "fresh_hand (setPoker demo_hand Group_new)" "fresh_hand (setPoker (rev demo_hand) Group_new)"
    by (simp_all add: fresh_hand_def setPoker_def Group_new_def demo_hand_def)
  obtain la a' b' where c: "compareGroupPoker (setPoker demo_hand Group_new) True (setPoker (rev demo_hand) Group_new) False = Some (la, a', b')"
    using compareGroupPoker_order[OF f, of True False] by blast
  moreover have "map_option fst (compareGroupPoker (setPoker demo_hand Group_new) True (setPoker (rev demo_hand) Group_new) False) = Some False"
    by code_simp
  ultimately show ?thesis by auto
qed

end
