(* ===== verification/Poker_Deck.thy ===== *)
theory Poker_Deck
  imports Poker_Props
begin

text \<open>
  The deck, shuffling and dealing.
\<close>

subsection \<open>Shuffling\<close>

lemma swap_cards_mset: "i < length ps \<Longrightarrow> j < length ps \<Longrightarrow> mset (swap_cards i j ps) = mset ps"
  unfolding swap_cards_def by (rule mset_swap)

lemma shuffle_pass_mset:
  assumes "set is \<subseteq> {..<num}" "num \<le> length (snd st)"
  shows "mset (snd (shuffle_pass rnd num is st)) = mset (snd st)"
  using assms
proof (induction "is" arbitrary: st)
  case (Cons i "is")
  obtain r ps where st: "st = (r, ps)" by (cases st)
  have i: "i < num" using Cons.prems(1) by simp
  then have j: "i + rnd r mod (num - i) < num" using mod_less_divisor[of "num - i" "rnd r"] by linarith
  have m: "mset (swap_cards i (i + rnd r mod (num - i)) ps) = mset ps"
    by (rule swap_cards_mset) (use i j Cons.prems(2) st in auto)
  then have "length (swap_cards i (i + rnd r mod (num - i)) ps) = length ps" by (metis size_mset)
  then show ?case using Cons.IH[of "(r + 1, swap_cards i (i + rnd r mod (num - i)) ps)"] Cons.prems m st by simp
qed simp

lemma shuffle_mset:
  assumes "shuffle rnd k r d = (r', d')" "dk_num d \<le> length (dk_cards d)"
  shows "mset (dk_cards d') = mset (dk_cards d) \<and> dk_num d' = dk_num d \<and> dk_pos d' = 0"
proof -
  have "mset (snd ((shuffle_pass rnd (dk_num d) [0..<dk_num d] ^^ k) (r, dk_cards d))) = mset (dk_cards d)"
  proof (induction k)
    case (Suc k)
    let ?st = "(shuffle_pass rnd (dk_num d) [0..<dk_num d] ^^ k) (r, dk_cards d)"
    have "dk_num d \<le> length (snd ?st)" using Suc assms(2) by (metis size_mset)
    then show ?case using shuffle_pass_mset[of "[0..<dk_num d]" "dk_num d" ?st rnd] Suc by (simp add: lessThan_atLeast0)
  qed simp
  then show ?thesis using assms(1) by (auto simp: shuffle_def split: prod.splits)
qed

subsection \<open>A full deck\<close>

definition full_deck :: "one_poker list" where
  "full_deck = map (nth_poker 1 13) [0..<52]"

lemma full_deck_values: "full_deck = [\<lparr> poker_value = v, poker_color = c \<rparr>. c \<leftarrow> [1, 2, 3, 4], v \<leftarrow> [1..13]]"
  by code_simp

lemma full_deck_facts: "distinct full_deck" "length full_deck = 52"
  "set full_deck = {p. 1 \<le> poker_value p \<and> poker_value p \<le> 13 \<and> 1 \<le> poker_color p \<and> poker_color p \<le> 4}"
proof -
  show "distinct full_deck" by code_simp
  show "length full_deck = 52" by (simp add: full_deck_def)
  show "set full_deck = {p. 1 \<le> poker_value p \<and> poker_value p \<le> 13 \<and> 1 \<le> poker_color p \<and> poker_color p \<le> 4}"
  proof (intro set_eqI iffI)
    fix p :: one_poker assume "p \<in> {p. 1 \<le> poker_value p \<and> poker_value p \<le> 13 \<and> 1 \<le> poker_color p \<and> poker_color p \<le> 4}"
    moreover obtain v c where p: "p = \<lparr> poker_value = v, poker_color = c \<rparr>" by (cases p)
    ultimately have "v \<in> {1..13}" "c = 1 \<or> c = 2 \<or> c = 3 \<or> c = 4" by auto
    then show "p \<in> set full_deck" unfolding full_deck_values p by auto
  qed (auto simp: full_deck_values)
qed

lemma fill_deck_all:
  assumes "dk_num d + length ps \<le> 52" "length (dk_cards d) = 52" "dk_num d = n"
  shows "fill_deck (\<lambda>p. False) ps d = Some (d\<lparr> dk_num := n + length ps,
    dk_cards := take n (dk_cards d) @ ps @ drop (n + length ps) (dk_cards d) \<rparr>)"
  using assms
proof (induction ps arbitrary: d n)
  case (Cons p ps)
  let ?d = "d\<lparr> dk_cards := (dk_cards d)[n := p], dk_num := n + 1 \<rparr>"
  have "fill_deck (\<lambda>p. False) ps ?d = Some (?d\<lparr> dk_num := (n + 1) + length ps,
      dk_cards := take (n + 1) (dk_cards ?d) @ ps @ drop (n + 1 + length ps) (dk_cards ?d) \<rparr>)"
    by (rule Cons.IH) (use Cons.prems in simp_all)
  moreover have "take (n + 1) ((dk_cards d)[n := p]) = take n (dk_cards d) @ [p]"
    using Cons.prems by (simp add: take_Suc_conv_app_nth)
  ultimately show ?case using Cons.prems by (simp add: put_card_def)
qed simp

lemma Deck_new_full:
  "Deck_new = Some \<lparr> dk_num = 52, dk_pos = 0, dk_cards = full_deck, dk_min = 1, dk_max = 13 \<rparr>"
proof -
  let ?d = "\<lparr> dk_num = 0, dk_pos = 0, dk_cards = replicate 52 null_poker, dk_min = 0, dk_max = 0 \<rparr>"
  have "fill_deck (\<lambda>p. False) full_deck ?d = Some (?d\<lparr> dk_num := 0 + length full_deck,
      dk_cards := take 0 (dk_cards ?d) @ full_deck @ drop (0 + length full_deck) (dk_cards ?d) \<rparr>)"
    by (rule fill_deck_all) (simp_all add: full_deck_facts)
  then show ?thesis
    unfolding Deck_new_def initPoker_def initPoker_with_def by (simp add: full_deck_facts full_deck_def Let_def)
qed

subsection \<open>Dealing\<close>

lemma dealPokers_split:
  assumes "dk_num d \<le> length (dk_cards d)" "dk_pos d \<le> dk_num d"
  shows "fst (snd (dealPokers hs d)) =
     (let k = min (length hs) ((dk_num d - dk_pos d) div 5) in
      map (\<lambda>i. take 5 (drop (dk_pos d + 5 * i) (dk_cards d))) [0..<k] @ drop k hs)"
  using assms
proof (induction hs arbitrary: d)
  case (Cons h hs)
  show ?case
  proof (cases "int (dk_pos d) > int (dk_num d) - 5")
    case True
    then have z: "(dk_num d - dk_pos d) div 5 = 0" by simp
    have "dealPoker h d = (False, h, d)" using True by (simp add: dealPoker_def)
    then show ?thesis using Cons.IH[OF Cons.prems] z by (auto split: prod.splits)
  next
    case False
    let ?d = "d\<lparr> dk_pos := dk_pos d + 5 \<rparr>"
    have deal: "dealPoker h d = (True, take 5 (drop (dk_pos d) (dk_cards d)), ?d)" using False by (simp add: dealPoker_def)
    have k: "(dk_num d - dk_pos d) div 5 = Suc ((dk_num d - (dk_pos d + 5)) div 5)" 
    proof -
      have "dk_num d - dk_pos d = 5 + (dk_num d - (dk_pos d + 5))" using False by linarith
      moreover have "(5 + x) div 5 = Suc (x div 5)" for x :: nat by simp
      ultimately show ?thesis by (simp only:)
    qed
    have "fst (snd (dealPokers hs ?d)) =
       (let k = min (length hs) ((dk_num d - (dk_pos d + 5)) div 5) in
        map (\<lambda>i. take 5 (drop (dk_pos d + 5 + 5 * i) (dk_cards d))) [0..<k] @ drop k hs)"
      using Cons.IH[of ?d] Cons.prems False by simp
    then show ?thesis using deal k
      by (auto simp: Let_def upt_conv_Cons map_Suc_upt[symmetric] comp_def add_ac simp del: upt_Suc split: prod.splits)
  qed
qed simp

lemma concat_slices: "concat (map (\<lambda>i. take 5 (drop (5 * i) xs)) [0..<k]) = take (5 * k) xs"
proof (induction k)
  case (Suc k)
  then show ?case by (simp add: take_add[of "5 * k" 5 xs, simplified add.commute] add.commute)
qed simp

text \<open>After any shuffle of a new deck up to ten hands of five are dealt, all their cards different and from the
  deck; with more players the rest keep what they held, and the result is still \<open>true\<close>.\<close>

theorem deal_from_shuffled_deck:
  assumes "Deck_new = Some d" "shuffle rnd k r d = (r', d')" "dealPokers hs d' = (ok, hs', d'')"
  shows "ok \<and> mset (dk_cards d') = mset full_deck \<and> length hs' = length hs
    \<and> distinct (concat (take 10 hs')) \<and> set (concat (take 10 hs')) \<subseteq> set full_deck
    \<and> (\<forall>h\<in>set (take 10 hs'). length h = 5) \<and> drop 10 hs' = drop 10 hs"
proof -
  have d: "d = \<lparr> dk_num = 52, dk_pos = 0, dk_cards = full_deck, dk_min = 1, dk_max = 13 \<rparr>"
    using assms(1) Deck_new_full by (metis option.inject)
  have m: "mset (dk_cards d') = mset full_deck" "dk_num d' = 52" "dk_pos d' = 0"
    using shuffle_mset[OF assms(2)] d full_deck_facts(2) by simp_all
  have len: "length (dk_cards d') = 52" using m(1) full_deck_facts(2) by (metis size_mset)
  have dist: "distinct (dk_cards d')" using m(1) full_deck_facts(1) by (metis mset_eq_imp_distinct_iff)
  have set: "set (dk_cards d') = set full_deck" using m(1) by (metis set_mset_mset)
  let ?k = "min (length hs) 10"
  have hs': "hs' = map (\<lambda>i. take 5 (drop (5 * i) (dk_cards d'))) [0..<?k] @ drop ?k hs"
    using dealPokers_split[of d' hs] assms(3) m(2,3) len by (simp add: Let_def)
  have t: "take 10 hs' = map (\<lambda>i. take 5 (drop (5 * i) (dk_cards d'))) [0..<?k]" "drop 10 hs' = drop 10 hs"
    unfolding hs' by (auto simp: min_def)
  have c: "concat (take 10 hs') = take (5 * ?k) (dk_cards d')" unfolding t(1) by (rule concat_slices)
  have "ok" using assms(3) by (cases hs) (auto split: prod.splits)
  moreover have "length hs' = length hs" unfolding hs' by simp
  moreover have "\<forall>h\<in>set (take 10 hs'). length h = 5" unfolding t(1) using len by auto
  moreover have "distinct (concat (take 10 hs'))" "set (concat (take 10 hs')) \<subseteq> set full_deck"
    unfolding c using dist set set_take_subset[of "5 * ?k" "dk_cards d'"] by simp_all
  ultimately show ?thesis using m(1) t(2) by blast
qed

theorem deal_from_shuffled_deck_witness:
  "\<exists>d r' d' hs' d''. Deck_new = Some d \<and> shuffle (\<lambda>i. i * i) 2 0 d = (r', d')
     \<and> dealPokers (replicate 12 []) d' = (True, hs', d'') \<and> distinct (concat (take 10 hs')) \<and> drop 10 hs' = [[], []]"
proof -
  obtain d where d: "Deck_new = Some d" using Deck_new_full by blast
  obtain r' d' where s: "shuffle (\<lambda>i. i * i) 2 0 d = (r', d')" by (cases "shuffle (\<lambda>i. i * i) 2 0 d")
  obtain ok hs' d'' where p: "dealPokers (replicate 12 []) d' = (ok, hs', d'')" by (cases "dealPokers (replicate 12 []) d'") auto
  from deal_from_shuffled_deck[OF d s p] have "ok" "distinct (concat (take 10 hs'))" "drop 10 hs' = [[], []]"
    by (simp_all add: numeral_eq_Suc)
  then have "Deck_new = Some d \<and> shuffle (\<lambda>i. i * i) 2 0 d = (r', d')
     \<and> dealPokers (replicate 12 []) d' = (True, hs', d'') \<and> distinct (concat (take 10 hs')) \<and> drop 10 hs' = [[], []]"
    using d s p by simp
  then show ?thesis by (intro exI)
qed

end
