(* ===== verification/Poker_Rules.thy ===== *)
theory Poker_Rules
  imports Poker_Deck
begin

text \<open>
  New colours for a hand: when \<open>Confuse\<close> returns, and what it leaves.
\<close>

subsection \<open>New colours\<close>

text \<open>The first \<open>i\<close> cards are different and have one of the four colours.\<close>

definition settled :: "nat \<Rightarrow> one_poker list \<Rightarrow> bool" where
  "settled i ps \<longleftrightarrow> length ps = 5 \<and> (\<forall>j<i. 1 \<le> poker_color (ps ! j) \<and> poker_color (ps ! j) \<le> 4)
     \<and> (\<forall>j<i. \<forall>k<j. ps ! j \<noteq> ps ! k)"

definition recolor :: "one_poker list \<Rightarrow> nat \<Rightarrow> nat \<Rightarrow> one_poker list" where
  "recolor ps i x = ps[i := (ps ! i)\<lparr> poker_color := int (x mod 4 + 1) \<rparr>]"

lemma recolor_vals [simp]: "hand_vals (recolor ps i x) = hand_vals ps" "length (recolor ps i x) = length ps"
  by (simp_all add: recolor_def hand_vals_def map_update list_update_same_conv)
    (metis list_update_id map_update)

lemma recolor_settled: "settled i ps \<Longrightarrow> settled i (recolor ps i x)"
  by (auto simp: settled_def recolor_def)

definition clash :: "one_poker list \<Rightarrow> nat \<Rightarrow> nat \<Rightarrow> bool" where
  "clash ps i x \<longleftrightarrow> (\<exists>j<i. int (x mod 4 + 1) = poker_color (ps ! j) \<and> poker_value (ps ! i) = poker_value (ps ! j))"

lemma recolor_eqD: "p\<lparr> poker_color := c \<rparr> = q \<Longrightarrow> c = poker_color q \<and> poker_value p = poker_value q"
  by auto

lemma recolor_next:
  assumes "settled i ps" "i < 5" "\<not> clash ps i x"
  shows "settled (Suc i) (recolor ps i x)"
  using assms by (auto simp: settled_def recolor_def clash_def less_Suc_eq dest!: recolor_eqD)

lemma confuse_loop_step:
  assumes "i < 5" "length ps = 5"
  shows "confuse_loop rnd i r ps = confuse_loop rnd (if clash ps i (rnd r) then i else i + 1) (r + 1) (recolor ps i (rnd r))"
  using assms by (subst confuse_loop.simps) (auto simp: Let_def recolor_def clash_def)

lemma confuse_loop_result:
  "confuse_loop rnd i r ps = Some y \<Longrightarrow> settled i ps \<longrightarrow> i \<le> 5 \<longrightarrow> settled 5 (snd y) \<and> hand_vals (snd y) = hand_vals ps"
proof (erule confuse_loop.raw_induct[rotated], intro impI, goal_cases)
  case (1 f rnd i r ps y)
  show ?case
  proof (cases "i < 5")
    case True
    have len: "length ps = 5" using 1(3) by (simp add: settled_def)
    have "f rnd (if clash ps i (rnd r) then i else i + 1) (r + 1) (recolor ps i (rnd r)) = Some y"
      using 1(2) True len by (auto simp: Let_def recolor_def clash_def split: if_splits)
    moreover have "settled (if clash ps i (rnd r) then i else i + 1) (recolor ps i (rnd r))"
      using recolor_settled[OF 1(3)] recolor_next[OF 1(3) True] by simp
    moreover have "(if clash ps i (rnd r) then i else i + 1) \<le> 5" using True by simp
    ultimately show ?thesis using 1(1)[of rnd _ _ _ y] by fastforce
  next
    case False
    then show ?thesis using 1(2-4) by auto
  qed
qed

lemma free_color:
  assumes "i < 5" "length ps = 5" "\<And>v. count (mset (hand_vals ps)) v \<le> 4"
  shows "\<exists>c<4. \<not> clash ps i c"
proof -
  let ?v = "poker_value (ps ! i)"
  let ?J = "{j. j < i \<and> poker_value (ps ! j) = ?v}"
  have fin: "finite {j. j < 5 \<and> poker_value (ps ! j) = ?v}" by (rule finite_subset[of _ "{..<5}"]) auto
  have "card (insert i ?J) \<le> card {j. j < 5 \<and> poker_value (ps ! j) = ?v}"
    by (rule card_mono[OF fin]) (use assms(1) in auto)
  also have "{j. j < 5 \<and> poker_value (ps ! j) = ?v} = {j. j < length (hand_vals ps) \<and> ?v = hand_vals ps ! j}"
    using assms(2) by (auto simp: hand_vals_def)
  also have "card \<dots> = count (mset (hand_vals ps)) ?v"
    by (simp only: count_mset count_list_eq_length_filter length_filter_conv_card)
  also have "\<dots> \<le> 4" by (rule assms(3))
  finally have "card ?J < 4" by (simp add: card_insert_if)
  moreover have "card ((\<lambda>j. poker_color (ps ! j)) ` ?J) \<le> card ?J" by (rule card_image_le) simp
  ultimately have less: "card ((\<lambda>j. poker_color (ps ! j)) ` ?J) < card {1..4::int}" by simp
  have "\<not> {1..4} \<subseteq> (\<lambda>j. poker_color (ps ! j)) ` ?J"
  proof
    assume "{1..4} \<subseteq> (\<lambda>j. poker_color (ps ! j)) ` ?J"
    then have "card {1..4::int} \<le> card ((\<lambda>j. poker_color (ps ! j)) ` ?J)" by (intro card_mono) simp_all
    then show False using less by simp
  qed
  then obtain c where c0: "c \<in> {1..4}" "c \<notin> (\<lambda>j. poker_color (ps ! j)) ` ?J" by blast
  then have c: "1 \<le> c" "c \<le> 4" "c \<notin> (\<lambda>j. poker_color (ps ! j)) ` ?J" by simp_all
  then have "\<not> clash ps i (nat (c - 1))" by (auto simp: clash_def)
  moreover have "nat (c - 1) < 4" using c by linarith
  ultimately show ?thesis by blast
qed

lemma clash_recolor: "clash (recolor ps i x) i y = clash ps i y" if "i < length ps"
  using that by (auto simp: clash_def recolor_def)

lemma confuse_advance:
  assumes "i < 5" "settled i ps" "\<And>v. count (mset (hand_vals ps)) v \<le> 4"
    "\<And>c n. c < 4 \<Longrightarrow> \<exists>t\<ge>n. rnd t mod 4 = c"
  shows "\<exists>r' ps'. confuse_loop rnd i r ps = confuse_loop rnd (i + 1) r' ps' \<and> settled (i + 1) ps' \<and> hand_vals ps' = hand_vals ps"
proof -
  have len: "length ps = 5" using assms(2) by (simp add: settled_def)
  obtain c where c: "c < 4" "\<not> clash ps i c" using free_color[OF assms(1) len assms(3)] by blast
  obtain t where t: "r \<le> t" "rnd t mod 4 = c" using assms(4)[OF c(1)] by blast
  have "\<exists>r' ps'. confuse_loop rnd i r ps = confuse_loop rnd (i + 1) r' ps' \<and> settled (i + 1) ps' \<and> hand_vals ps' = hand_vals ps"
    if "t - r = n" "r \<le> t" "settled i ps" "\<not> clash ps i c" for n
    using that
  proof (induction n arbitrary: r ps)
    case 0
    then have "\<not> clash ps i (rnd r)" using t(2) by (simp add: clash_def)
    moreover have "length ps = 5" using "0.prems"(3) by (simp add: settled_def)
    ultimately show ?case
      using confuse_loop_step[of i ps rnd r] recolor_next[OF "0.prems"(3) assms(1)] assms(1)
      by (intro exI[of _ "r + 1"] exI[of _ "recolor ps i (rnd r)"]) simp
  next
    case (Suc n)
    have len: "length ps = 5" using Suc.prems(3) by (simp add: settled_def)
    show ?case
    proof (cases "clash ps i (rnd r)")
      case True
      have "\<exists>r' ps'. confuse_loop rnd i (r + 1) (recolor ps i (rnd r)) = confuse_loop rnd (i + 1) r' ps' \<and> settled (i + 1) ps'
          \<and> hand_vals ps' = hand_vals (recolor ps i (rnd r))"
        by (rule Suc.IH) (use Suc.prems recolor_settled[OF Suc.prems(3)] assms(1) len in \<open>simp_all add: clash_recolor\<close>)
      then show ?thesis using confuse_loop_step[OF assms(1) len, of rnd r] True by simp
    next
      case False
      then show ?thesis
        using confuse_loop_step[OF assms(1) len, of rnd r] recolor_next[OF Suc.prems(3) assms(1)]
        by (intro exI[of _ "r + 1"] exI[of _ "recolor ps i (rnd r)"]) simp
    qed
  qed
  from this[OF refl t(1) assms(2) c(2)] show ?thesis .
qed

lemma confuse_runs:
  assumes "settled i ps" "\<And>v. count (mset (hand_vals ps)) v \<le> 4" "\<And>c n. c < 4 \<Longrightarrow> \<exists>t\<ge>n. rnd t mod 4 = c"
    "i + k = 5"
  shows "\<exists>r' ps'. confuse_loop rnd i r ps = Some (r', ps')"
  using assms(1,2,4)
proof (induction k arbitrary: i r ps)
  case 0
  then show ?case by (subst confuse_loop.simps) simp
next
  case (Suc k)
  obtain r' ps' where s: "confuse_loop rnd i r ps = confuse_loop rnd (i + 1) r' ps'" "settled (i + 1) ps'" "hand_vals ps' = hand_vals ps"
    using confuse_advance[OF _ Suc.prems(1,2) assms(3), of r] Suc.prems(3) by auto
  then show ?case using Suc.IH[of "i + 1" ps' r'] Suc.prems(2,3) by simp
qed

lemma five_same_unsettled:
  assumes "settled 5 ps" "\<forall>x\<in>set (hand_vals ps). x = v"
  shows False
proof -
  have len: "length ps = 5" using assms(1) by (simp add: settled_def)
  have "inj_on (\<lambda>j. poker_color (ps ! j)) {..<5}"
  proof (rule inj_onI)
    fix j k assume jk: "j \<in> {..<5}" "k \<in> {..<5}" "poker_color (ps ! j) = poker_color (ps ! k)"
    have "poker_value (ps ! i) = v" if "i < 5" for i using assms(2) that len by (simp add: hand_vals_def)
    then have "ps ! j = ps ! k" using jk by simp
    then show "j = k" using assms(1) jk(1,2) unfolding settled_def by (metis lessThan_iff nat_neq_iff)
  qed
  then have "card ((\<lambda>j. poker_color (ps ! j)) ` {..<5}) = 5" by (simp add: card_image)
  moreover have "card ((\<lambda>j. poker_color (ps ! j)) ` {..<5}) \<le> card {1..4::int}"
    by (rule card_mono) (use assms(1) in \<open>auto simp: settled_def\<close>)
  ultimately show False by simp
qed

lemma Confuse_diverges:
  assumes "length (g_poker g) = 5" "\<forall>x\<in>set (hand_vals (g_poker g)). x = v"
  shows "Confuse rnd r g = None"
proof (rule ccontr)
  have s0: "settled 0 (g_poker g)" using assms(1) by (simp add: settled_def)
  assume "Confuse rnd r g \<noteq> None"
  then obtain y where "confuse_loop rnd 0 r (g_poker g) = Some y"
    by (cases "confuse_loop rnd 0 r (g_poker g)") (auto simp: Confuse_def)
  from confuse_loop_result[OF this] s0 have "settled 5 (snd y)" "hand_vals (snd y) = hand_vals (g_poker g)" by simp_all
  then show False using five_same_unsettled[of "snd y" v] assms(2) by simp
qed

text \<open>Every residue modulo four comes up again and again.\<close>

definition fair :: "(nat \<Rightarrow> nat) \<Rightarrow> bool" where
  "fair rnd \<longleftrightarrow> (\<forall>c<4. \<forall>n. \<exists>t\<ge>n. rnd t mod 4 = c)"

lemma fair_id: "fair (\<lambda>i. i)"
  unfolding fair_def
proof (intro allI impI)
  fix c n :: nat assume "c < 4"
  then show "\<exists>t\<ge>n. t mod 4 = c" by (intro exI[of _ "4 * n + c"]) simp
qed

text \<open>Five different cards of the four colours.\<close>

definition real_hand :: "one_poker list \<Rightarrow> bool" where
  "real_hand ps \<longleftrightarrow> length ps = 5 \<and> distinct ps \<and> (\<forall>p\<in>set ps. 1 \<le> poker_color p \<and> poker_color p \<le> 4)"

lemma Confuse_returns:
  assumes "length (g_poker g) = 5" "\<not> (\<forall>x\<in>set (hand_vals (g_poker g)). x = hd (hand_vals (g_poker g)))" "fair rnd"
  shows "\<exists>r' ps. Confuse rnd r g = Some (r', g\<lparr> g_poker := ps, g_max := MaxAt (findMaxPoker ps) \<rparr>)
    \<and> hand_vals ps = hand_vals (g_poker g) \<and> real_hand ps"
proof -
  let ?ps = "g_poker g"
  have s0: "settled 0 ?ps" using assms(1) by (simp add: settled_def)
  have cnt: "count (mset (hand_vals ?ps)) v \<le> 4" for v
  proof (rule ccontr)
    assume "\<not> count (mset (hand_vals ?ps)) v \<le> 4"
    moreover have "length (hand_vals ?ps) = 5" using assms(1) by (simp add: hand_vals_def)
    ultimately have "length (filter ((=) v) (hand_vals ?ps)) = length (hand_vals ?ps)"
      using length_filter_le[of "(=) v" "hand_vals ?ps"] by (simp add: count_mset count_list_eq_length_filter)
    then have all: "\<forall>x\<in>set (hand_vals ?ps). x = v"
      using filter_full[of "hand_vals ?ps" "length (hand_vals ?ps)" "(=) v"] by auto
    moreover have "hd (hand_vals ?ps) \<in> set (hand_vals ?ps)" using \<open>length (hand_vals ?ps) = 5\<close> by (cases "hand_vals ?ps") auto
    ultimately show False using assms(2) by metis
  qed
  have fair: "\<exists>t\<ge>n. rnd t mod 4 = c" if "c < 4" for c n using assms(3) that unfolding fair_def by blast
  obtain r' ps' where run: "confuse_loop rnd 0 r ?ps = Some (r', ps')"
    using confuse_runs[OF s0 cnt fair, of 5 r] by auto
  have st: "settled 5 ps'" "hand_vals ps' = hand_vals ?ps" using confuse_loop_result[OF run] s0 by simp_all
  have len: "length ps' = 5" using st(1) by (simp add: settled_def)
  have "distinct ps'"
    unfolding distinct_conv_nth len using st(1) unfolding settled_def by (metis nat_neq_iff)
  moreover have "\<forall>p\<in>set ps'. 1 \<le> poker_color p \<and> poker_color p \<le> 4"
    using st(1) by (auto simp: settled_def in_set_conv_nth)
  ultimately show ?thesis using run st(2) len by (intro exI[of _ r'] exI[of _ ps']) (simp add: Confuse_def real_hand_def)
qed

lemma max_card_set:
  assumes "length ps = 5"
  shows "\<exists>p. max_card (g\<lparr> g_poker := ps, g_max := MaxAt (findMaxPoker ps) \<rparr>) = Some p
    \<and> p \<in> set ps \<and> (\<forall>q\<in>set ps. card_rank q \<le> card_rank p)"
  using findMaxPoker_max[OF assms] assms by (simp add: max_card_def)

text \<open>C21: \<open>Confuse\<close> never returns on five cards of one value, whatever \<open>rand\<close> yields.  On every other hand it
  returns when \<open>rand\<close> keeps yielding every residue modulo four, and then the hand has the same values, five
  different cards of the four colours, and \<open>max_poker\<close> points to its greatest card.\<close>

theorem Confuse_terminates:
  assumes "length (g_poker g) = 5"
  shows "((\<forall>x\<in>set (hand_vals (g_poker g)). x = hd (hand_vals (g_poker g))) \<longrightarrow> Confuse rnd r g = None)
    \<and> (\<not> (\<forall>x\<in>set (hand_vals (g_poker g)). x = hd (hand_vals (g_poker g))) \<and> fair rnd \<longrightarrow>
        (\<exists>r' g'. Confuse rnd r g = Some (r', g') \<and> hand_vals (g_poker g') = hand_vals (g_poker g) \<and> real_hand (g_poker g')
          \<and> (\<exists>p. max_card g' = Some p \<and> p \<in> set (g_poker g') \<and> (\<forall>q\<in>set (g_poker g'). card_rank q \<le> card_rank p))))"
proof (intro conjI impI)
  show "Confuse rnd r g = None" if "\<forall>x\<in>set (hand_vals (g_poker g)). x = hd (hand_vals (g_poker g))"
    by (rule Confuse_diverges[OF assms that])
  assume h: "\<not> (\<forall>x\<in>set (hand_vals (g_poker g)). x = hd (hand_vals (g_poker g))) \<and> fair rnd"
  obtain r' ps where c: "Confuse rnd r g = Some (r', g\<lparr> g_poker := ps, g_max := MaxAt (findMaxPoker ps) \<rparr>)"
    "hand_vals ps = hand_vals (g_poker g)" "real_hand ps"
    using Confuse_returns[OF assms, of rnd r] h by blast
  have "length ps = 5" using c(3) by (simp add: real_hand_def)
  from max_card_set[OF this, of g] c show "\<exists>r' g'. Confuse rnd r g = Some (r', g') \<and> hand_vals (g_poker g') = hand_vals (g_poker g)
      \<and> real_hand (g_poker g') \<and> (\<exists>p. max_card g' = Some p \<and> p \<in> set (g_poker g') \<and> (\<forall>q\<in>set (g_poker g'). card_rank q \<le> card_rank p))"
    by (intro exI[of _ r'] exI[of _ "g\<lparr> g_poker := ps, g_max := MaxAt (findMaxPoker ps) \<rparr>"]) simp
qed

theorem Confuse_terminates_witness:
  "\<exists>r' g'. Confuse (\<lambda>i. i) 0 (gen_hand [7, 7, 7, 7, 2]) = Some (r', g') \<and> real_hand (g_poker g')"
proof -
  have len: "length (g_poker (gen_hand [7, 7, 7, 7, 2])) = 5" by (simp add: gen_hand_def)
  have "fair (\<lambda>i. i)" by (rule fair_id)
  moreover have "\<not> (\<forall>x\<in>set (hand_vals (g_poker (gen_hand [7, 7, 7, 7, 2]))). x = hd (hand_vals (g_poker (gen_hand [7, 7, 7, 7, 2]))))"
    by (simp add: gen_hand_def hand_vals_def)
  ultimately show ?thesis using Confuse_terminates[OF len, of "\<lambda>i. i" 0] by blast
qed

end
