(* ===== verification/Poker_Check.thy ===== *)
theory Poker_Check
  imports Poker_Rules
begin

text \<open>
  What \<open>CheckCowWithPokerInfo\<close> accepts, against the type of the hand.
\<close>

lemma index_count:
  assumes "length xs = 5"
  shows "length (filter (\<lambda>i. xs ! i = k) [0..<5]) = count (mset xs) k"
proof -
  have e: "map ((!) xs) [0..<5] = xs" using map_nth[of xs] assms by simp
  have "count (mset xs) k = count (mset (map ((!) xs) [0..<5])) k" unfolding e by (rule refl)
  also have "\<dots> = length (filter (\<lambda>i. k = xs ! i) [0..<5])"
    by (simp only: count_mset count_list_eq_length_filter filter_map length_map comp_def)
  finally show ?thesis by (simp only: eq_commute[of k])
qed

text \<open>Each of the five indices occurs once exactly when the indices are a permutation.\<close>

lemma index_perm:
  fixes xs :: "int list"
  assumes "length xs = 5"
  shows "(\<exists>k\<in>{0..<5}. length (filter (\<lambda>i. xs ! i = k) [0..<5]) \<noteq> 1) \<longleftrightarrow> set xs \<noteq> {0..<5}"
proof -
  have "set xs = {0..<5}" if c: "\<forall>k\<in>{0..<5}. count (mset xs) k = 1"
  proof -
    have sub: "{0..<5} \<subseteq> set xs"
    proof
      fix k :: int assume "k \<in> {0..<5}"
      then have "count (mset xs) k = 1" using c by blast
      then show "k \<in> set xs" by (metis count_inI set_mset_mset zero_neq_one)
    qed
    moreover have "card (set xs) \<le> card {0..<5::int}" using card_length[of xs] assms by simp
    ultimately show ?thesis by (metis List.finite_set card_seteq)
  qed
  moreover have "count (mset xs) k = 1" if "set xs = {0..<5}" "k \<in> {0..<5}" for k
  proof -
    have "distinct xs" by (rule card_distinct) (simp add: that(1) assms)
    then show ?thesis using that by (simp add: distinct_count_atmost_1)
  qed
  ultimately show ?thesis unfolding index_count[OF assms] by blast
qed

lemma count_values_result:
  assumes "length counts = N"
  shows "count_values vs counts =
    (if \<forall>v\<in>set vs. 0 \<le> v \<and> v < int N then Some (map (\<lambda>i. counts ! i + int (count (mset vs) (int i))) [0..<N]) else None)"
  using assms
proof (induction vs arbitrary: counts)
  case Nil
  then show ?case by (auto intro: nth_equalityI)
next
  case (Cons v vs)
  show ?case
  proof (cases "0 \<le> v \<and> v < int N")
    case True
    then have "count_values (v # vs) counts = count_values vs (counts[nat v := counts ! nat v + 1])"
      using Cons.prems by (simp add: nat_less_iff)
    moreover have "map (\<lambda>i. counts[nat v := counts ! nat v + 1] ! i + int (count (mset vs) (int i))) [0..<N]
        = map (\<lambda>i. counts ! i + int (count (mset (v # vs)) (int i))) [0..<N]"
      using True Cons.prems by (auto simp: nth_list_update)
    ultimately show ?thesis using Cons.IH[of "counts[nat v := counts ! nat v + 1]"] Cons.prems True by simp
  qed (use Cons.prems in auto)
qed

text \<open>What it takes for a claim of type \<open>t\<close> to be accepted.\<close>

definition claim_ok :: "int \<Rightarrow> int list \<Rightarrow> bool" where
  "claim_ok t vs \<longleftrightarrow>
     (if t = 11 then \<exists>v\<in>set vs. count (mset vs) v = 4
      else crem (sum_list (map changeDNPokerJQK vs)) 10 = crem t 10
        \<and> (t = 13 \<longrightarrow> (\<forall>v\<in>set vs. v < 5)) \<and> (t = 12 \<longrightarrow> (\<forall>v\<in>set vs. v > 10)))"

lemma xiao_filter: "filter (\<lambda>v. \<not> v > 10 \<and> v < 5) vs = filter (\<lambda>v::int. v < 5) vs"
  by (rule filter_cong) auto

lemma CheckCow_result:
  assumes "length (g_poker g) = 5" "length pi = 5"
  shows "CheckCowWithPokerInfo t pi g =
    (if set pi \<noteq> {0..<5} then Some (False, g)
     else if \<not> (\<forall>v\<in>set (hand_vals (g_poker g)). 0 \<le> v \<and> v < 13) then None
     else if \<not> claim_ok t (hand_vals (g_poker g)) then Some (False, g)
     else Some (True, g\<lparr> g_max := MaxAt (findMaxPoker (g_poker g)), g_type := t, g_calc := True,
            g_other := (g_other g)[0 := pi ! 0, 1 := pi ! 1],
            g_niu := (g_niu g)[0 := pi ! 2, 1 := pi ! 3, 2 := pi ! 4] \<rparr>))"
proof -
  let ?vs = "hand_vals (g_poker g)"
  have len: "length ?vs = 5" using assms(1) by (simp add: hand_vals_def)
  let ?counts = "map (\<lambda>i. replicate 13 0 ! i + int (count (mset ?vs) (int i))) [0..<13]"
  have at: "?counts ! nat v = int (count (mset ?vs) v)" if "0 \<le> v" "v < 13" for v
  proof -
    have "nat v < 13" "int (nat v) = v" using that by linarith+
    then show ?thesis by (simp del: upt_Suc replicate.simps)
  qed
  have four: "(\<exists>v\<in>set ?vs. ?counts ! nat v = 4) \<longleftrightarrow> (\<exists>v\<in>set ?vs. count (mset ?vs) v = 4)" if "\<forall>v\<in>set ?vs. 0 \<le> v \<and> v < 13"
  proof (rule bex_cong[OF refl])
    fix v assume "v \<in> set ?vs"
    then have "?counts ! nat v = int (count (mset ?vs) v)" using that by (intro at) blast+
    then show "(?counts ! nat v = 4) \<longleftrightarrow> (count (mset ?vs) v = 4)" by linarith
  qed
  have wrong: "(if t = WU_XIAO_NIU \<and> length (filter (\<lambda>v. v < 5) ?vs) \<noteq> 5 then True
           else if t = WU_HUA_NIU \<and> length (filter (\<lambda>v. v > 10) ?vs) \<noteq> 5 then True
           else if t = SI_ZHA then \<not> (\<exists>v\<in>set ?vs. ?counts ! nat v = 4)
           else crem (sum_list (map changeDNPokerJQK ?vs)) 10 \<noteq> crem t 10) = (\<not> claim_ok t ?vs)"
    if "\<forall>v\<in>set ?vs. 0 \<le> v \<and> v < 13"
    unfolding four[OF that] claim_ok_def dn_types filter_full[OF len] by auto
  have n13: "int 13 = 13" by simp
  show ?thesis
    unfolding CheckCowWithPokerInfo_def index_perm[OF assms(2)] hand_vals_nth[OF assms(1)] Let_def xiao_filter
      count_values_result[OF length_replicate] n13
    using wrong by (simp del: upt_Suc)
qed

lemma claim_of_hand_type:
  assumes "\<forall>v\<in>set vs. 0 \<le> v" "\<forall>v. count (mset vs) v \<le> 4" "hand_type (mset vs) = t" "t \<in> {1..11}"
  shows "claim_ok t vs"
proof -
  have s: "crem (sum_list (map changeDNPokerJQK vs)) 10 = sum_mset (image_mset changeDNPokerJQK (mset vs)) mod 10"
  proof -
    have "0 \<le> sum_list (map changeDNPokerJQK vs)"
      by (rule sum_list_nonneg) (use assms(1) in \<open>auto simp: changeDNPokerJQK_def\<close>)
    then show ?thesis by (simp add: crem_mod flip: sum_mset_sum_list)
  qed
  have "sum_mset (image_mset changeDNPokerJQK (mset vs)) mod 10 < 10" by simp
  show ?thesis
  proof (cases "t = 11")
    case True
    then obtain v where "count (mset vs) v \<ge> 4"
      using assms(3) \<open>_ < 10\<close> by (auto simp: hand_type_def Let_def split: if_splits)
    then show ?thesis using True assms(2) by (auto simp: claim_ok_def intro!: bexI[of _ v] le_antisym simp flip: count_greater_zero_iff set_mset_mset)
  next
    case False
    then have "t = (let s = sum_mset (image_mset changeDNPokerJQK (mset vs)) mod 10 in if s = 0 then 10 else s)"
      using assms(3,4) by (auto simp: hand_type_def split: if_splits)
    then have "crem t 10 = sum_mset (image_mset changeDNPokerJQK (mset vs)) mod 10"
      by (auto simp: Let_def crem_def)
    then show ?thesis using False assms(4) s by (auto simp: claim_ok_def)
  qed
qed

lemma special_claim_fails:
  assumes "length vs = 5" "\<forall>v\<in>set vs. 1 \<le> v" "hand_type (mset vs) = t" "t = 12 \<or> t = 13"
  shows "\<not> claim_ok t vs"
proof -
  obtain a b c d e where vs: "vs = [a, b, c, d, e]" using assms(1) by (auto simp: numeral_eq_Suc length_Suc_conv)
  have "sum_mset (image_mset changeDNPokerJQK (mset vs)) mod 10 < 10" by simp
  then consider "t = 13" "\<forall>v\<in>set vs. v < 5" "sum_list vs \<le> 10" | "t = 12" "\<forall>v\<in>set vs. v > 10"
    using assms(3,4) by (auto simp: hand_type_def Let_def sum_mset_sum_list split: if_splits)
  then show ?thesis
  proof cases
    case 1
    have "5 \<le> a + b + c + d + e" "a + b + c + d + e \<le> 10" "\<forall>v\<in>{a, b, c, d, e}. changeDNPokerJQK v = v"
      using assms(2) 1 vs by (simp_all add: changeDNPokerJQK_def)
    then show ?thesis using 1(1) by (simp add: claim_ok_def vs crem_def) presburger
  next
    case 2
    then show ?thesis by (simp add: claim_ok_def vs changeDNPokerJQK_def crem_def)
  qed
qed

text \<open>C20: \<open>CheckCowWithPokerInfo\<close> accepts a claim when the indices are a permutation and the sum of the hand fits the
  type (for four of a kind: when one value occurs four times).  It accepts the true type of a hand for the
  ten cows and four of a kind, never accepts it for five faces and five small ones, and on a hand with a
  king it counts outside its array.\<close>

theorem CheckCow_verdict:
  assumes "length (g_poker g) = 5" "length pi = 5" "\<forall>p\<in>set (g_poker g). 1 \<le> poker_value p \<and> poker_value p \<le> 13"
  shows "(set pi \<noteq> {0..<5} \<longrightarrow> CheckCowWithPokerInfo t pi g = Some (False, g))
    \<and> (set pi = {0..<5} \<longrightarrow> (CheckCowWithPokerInfo t pi g = None \<longleftrightarrow> 13 \<in> set (hand_vals (g_poker g))))
    \<and> (set pi = {0..<5} \<and> 13 \<notin> set (hand_vals (g_poker g)) \<longrightarrow>
        (map_option fst (CheckCowWithPokerInfo t pi g) = Some True \<longleftrightarrow> claim_ok t (hand_vals (g_poker g)))
        \<and> (t = hand_type (mset (hand_vals (g_poker g))) \<and> t \<in> {1..11} \<and> (\<forall>v. count (mset (hand_vals (g_poker g))) v \<le> 4)
             \<longrightarrow> map_option fst (CheckCowWithPokerInfo t pi g) = Some True)
        \<and> (t = hand_type (mset (hand_vals (g_poker g))) \<and> t \<in> {12, 13} \<longrightarrow> CheckCowWithPokerInfo t pi g = Some (False, g)))"
proof -
  let ?vs = "hand_vals (g_poker g)"
  have v: "\<forall>v\<in>set ?vs. 1 \<le> v" "\<forall>v\<in>set ?vs. 0 \<le> v" "\<forall>v\<in>set ?vs. v \<le> 13" "length ?vs = 5"
    using assms(1,3) by (auto simp: hand_vals_def)
  have k: "(\<forall>v\<in>set ?vs. 0 \<le> v \<and> v < 13) \<longleftrightarrow> 13 \<notin> set ?vs"
  proof
    assume "13 \<notin> set ?vs"
    then have "v \<noteq> 13" if "v \<in> set ?vs" for v using that by blast
    then show "\<forall>v\<in>set ?vs. 0 \<le> v \<and> v < 13" using v(2,3) by (meson order_le_imp_less_or_eq)
  qed blast
  note r = CheckCow_result[OF assms(1,2), of t, unfolded k]
  show ?thesis
  proof (intro conjI impI)
    assume "set pi \<noteq> {0..<5}"
    then show "CheckCowWithPokerInfo t pi g = Some (False, g)" by (simp only: r if_True not_False_eq_True)
  next
    assume "set pi = {0..<5}"
    then show "CheckCowWithPokerInfo t pi g = None \<longleftrightarrow> 13 \<in> set ?vs" unfolding r by auto
  next
    assume a: "set pi = {0..<5} \<and> 13 \<notin> set ?vs"
    then show ok: "map_option fst (CheckCowWithPokerInfo t pi g) = Some True \<longleftrightarrow> claim_ok t ?vs" unfolding r by auto
    show "map_option fst (CheckCowWithPokerInfo t pi g) = Some True"
      if "t = hand_type (mset ?vs) \<and> t \<in> {1..11} \<and> (\<forall>v. count (mset ?vs) v \<le> 4)"
      unfolding ok using claim_of_hand_type[OF v(2)] that by blast
    show "CheckCowWithPokerInfo t pi g = Some (False, g)" if "t = hand_type (mset ?vs) \<and> t \<in> {12, 13}"
    proof -
      have "\<not> claim_ok t ?vs" by (rule special_claim_fails[OF v(4,1)]) (use that in auto)
      then show ?thesis using a unfolding r by simp
    qed
  qed
qed

text \<open>Without a king: ace, two, three, four and ten have no three cards that add up to a multiple of ten, yet the
  claim that they are the best cow is accepted.\<close>

theorem CheckCow_verdict_witness:
  "map_option fst (CheckCowWithPokerInfo 10 [0, 1, 2, 3, 4] (gen_hand [1, 2, 3, 4, 10])) = Some True
     \<and> fst (findCow (g_poker (gen_hand [1, 2, 3, 4, 10])) (replicate 5 (-1)) (replicate 2 (-1))) = 0
     \<and> CheckCowWithPokerInfo 10 [0, 1, 2, 3, 4] (gen_hand [13, 2, 3, 5, 10]) = None"
proof (intro conjI)
  have s: "set [0, 1, 2, 3, 4 :: int] = {0..<5}" by code_simp
  have p: "length (g_poker (gen_hand [1, 2, 3, 4, 10])) = 5" "length [0, 1, 2, 3, 4 :: int] = 5"
    "\<forall>p\<in>set (g_poker (gen_hand [1, 2, 3, 4, 10])). 1 \<le> poker_value p \<and> poker_value p \<le> 13"
    "13 \<notin> set (hand_vals (g_poker (gen_hand [1, 2, 3, 4, 10])))"
    by (simp_all add: gen_hand_def hand_vals_def)
  have "claim_ok 10 (hand_vals (g_poker (gen_hand [1, 2, 3, 4, 10])))" by code_simp
  then show "map_option fst (CheckCowWithPokerInfo 10 [0, 1, 2, 3, 4] (gen_hand [1, 2, 3, 4, 10])) = Some True"
    using CheckCow_verdict[OF p(1-3), of 10] p(4) s by blast
  show "fst (findCow (g_poker (gen_hand [1, 2, 3, 4, 10])) (replicate 5 (-1)) (replicate 2 (-1))) = 0" by code_simp
  have q: "length (g_poker (gen_hand [13, 2, 3, 5, 10])) = 5" "length [0, 1, 2, 3, 4 :: int] = 5"
    "\<forall>p\<in>set (g_poker (gen_hand [13, 2, 3, 5, 10])). 1 \<le> poker_value p \<and> poker_value p \<le> 13"
    "13 \<in> set (hand_vals (g_poker (gen_hand [13, 2, 3, 5, 10])))"
    by (simp_all add: gen_hand_def hand_vals_def)
  show "CheckCowWithPokerInfo 10 [0, 1, 2, 3, 4] (gen_hand [13, 2, 3, 5, 10]) = None"
    using CheckCow_verdict[OF q(1-3), of 10] q(4) s by blast
qed

end
