(* ===== verification/Poker_Packet.thy ===== *)
theory Poker_Packet
  imports Poker_Check Packet_Codec
begin

text \<open>
  Hands in packets: what \<open>ToPacket2\<close> writes, \<open>FromPacket\<close> reads.
\<close>

subsection \<open>The codec of a card\<close>

definition enc_card :: "one_poker \<Rightarrow> byte list" where
  "enc_card c = [word_of_int (poker_color c), word_of_int (poker_value c)]"

definition card_ok :: "one_poker \<Rightarrow> bool" where
  "card_ok c \<longleftrightarrow> to_int8 (poker_color c) = poker_color c \<and> to_int8 (poker_value c) = poker_value c"

lemma enc_byte: "enc_word (w :: 8 word) = [w]"
  by simp

interpretation bytes2: codec_pair
    "put_word :: heap_env \<Rightarrow> packet \<Rightarrow> 8 word \<Rightarrow> packet option" get_word enc_word "\<lambda>_. True"
    "put_word :: heap_env \<Rightarrow> packet \<Rightarrow> 8 word \<Rightarrow> packet option" get_word enc_word "\<lambda>_. True" ..

interpretation card: stream_codec put_card_to get_card_from enc_card card_ok
proof
  fix H p c
  assume "heap_ok H" "pk_ok p"
  then show "\<exists>p'. put_card_to H p c = Some p' \<and> pk_ok p' \<and> pk_bytes p' = pk_bytes p @ enc_card c
      \<and> pk_offset p' = pk_offset p \<and> pk_good p' = pk_good p"
    using bytes2.pair_put[of H p "(word_of_int (poker_color c), word_of_int (poker_value c))"]
    by (simp add: put_card_to_def put_pair_def enc_byte enc_card_def)
next
  fix p c rest
  assume "pk_ok p" "card_ok c" "pk_unread p = enc_card c @ rest"
  then show "\<exists>p'. get_card_from p = Some (c, p') \<and> pk_ok p' \<and> pk_unread p' = rest \<and> pk_buf p' = pk_buf p \<and> pk_good p' = pk_good p"
    using bytes2.pair_get[of p "(word_of_int (poker_color c), word_of_int (poker_value c))" rest]
    by (auto simp: get_card_from_def get_pair_def enc_byte enc_card_def card_ok_def to_int8_def
        split: Option.bind_splits)
qed

lemma put_cards_all: "put_cards_to H p cs = put_all (put_card_to H) p cs"
  by (induction cs arbitrary: p) simp_all

lemma get_cards_all: "get_cards_from n p = get_all get_card_from n p"
  by (induction n arbitrary: p) simp_all

subsection \<open>The order of the cards\<close>

lemma si_zha_tail:
  "si_zha_loop s is c niu other = (False, niu1, other1) \<Longrightarrow> c \<le> 2 \<Longrightarrow> drop 3 niu1 = drop 3 niu"
  by (induction s "is" c niu other arbitrary: niu1 other1 rule: si_zha_loop.induct)
    (auto simp: Let_def drop_update_cancel split: if_splits)

text \<open>A new hand of five, with the indices the constructor leaves.\<close>

definition new_hand :: "group \<Rightarrow> bool" where
  "new_hand g \<longleftrightarrow> fresh_hand g \<and> g_niu g = replicate 5 (-1) \<and> g_other g = replicate 2 (-1)
     \<and> (\<forall>c\<in>set (g_poker g). card_ok c)"

definition cow_sum :: "one_poker list \<Rightarrow> int" where
  "cow_sum cs = sum_list (map (\<lambda>c. changeDNPokerJQK (poker_value c)) (take 3 cs))"

lemma five_nth:
  assumes "distinct is" "set is = {..<5}" "length ps = 5"
  shows "mset (map ((!) ps) is) = mset ps"
proof -
  have "set is = set [0..<5]" using assms(2) by (simp only: atLeast_upt[symmetric] lessThan_atLeast0)
  then have "mset is = mset [0..<5]" using set_eq_iff_mset_eq_distinct[OF assms(1) distinct_upt] by blast
  then have "mset (map ((!) ps) is) = mset (map ((!) ps) [0..<5])" by simp
  also have "map ((!) ps) [0..<5] = ps" using map_nth[of ps] assms(3) by simp
  finally show ?thesis .
qed

lemma packet_cards_cow:
  assumes "fresh_hand g" "g_niu g = replicate 5 (-1)" "g_other g = replicate 2 (-1)" "findCow (g_poker g) (g_niu g) (g_other g) = (t, niu', other')"
    "g_poker g' = g_poker g" "g_type g' = t" "g_niu g' = niu'" "g_other g' = other'"
  shows "\<exists>cs. packet_cards g' = Some cs \<and> mset cs = mset (g_poker g) \<and> length cs = 5 \<and> (1 \<le> t \<and> t \<le> 10 \<longrightarrow> 10 dvd cow_sum cs)"
proof -
  have len: "length (g_poker g) = 5" using assms(1) by (simp add: fresh_hand_def)
  show ?thesis
  proof (cases "t = 0 \<or> t > 10")
    case True
    then show ?thesis using assms(5,6) len by (auto simp: packet_cards_def dn_types)
  next
    case False
    from len assms(4) show ?thesis
    proof (cases rule: findCow_cases)
      case (niu niu1 other1 i j k)
      have l: "length niu1 = 5" "length other1 = 2" using si_zha_length[OF niu(1)] assms(2,3) by simp_all
      have d: "drop 3 niu1 = [-1, -1]" using si_zha_tail[OF niu(1)] by (simp add: assms(2) numeral_eq_Suc)
      obtain m n where mn: "take 3 niu' = map int [i, j, k]" "other' = map int [m, n]" "distinct [i, j, k, m, n]"
        "{i, j, k, m, n} = {..<5}"
        "10 dvd changeDNPokerJQK (poker_value (g_poker g ! i)) + changeDNPokerJQK (poker_value (g_poker g ! j)) + changeDNPokerJQK (poker_value (g_poker g ! k))"
        using niu_cards[OF niu(2) l] unfolding niu(4,5) by blast
      have "drop 3 niu' = [-1, -1]" unfolding niu(4) using d by (simp add: drop_update_cancel)
      then have "niu' = map int [i, j, k] @ [-1, -1]" using append_take_drop_id[of 3 niu'] mn(1) by metis
      moreover have "i < 5" "j < 5" "k < 5" "m < 5" "n < 5" using mn(4) by blast+
      ultimately have "packet_cards g' = Some (map ((!) (g_poker g)) [i, j, k, m, n])"
        using False mn(2) assms(5-8) by (simp add: packet_cards_def dn_types)
      moreover have "mset (map ((!) (g_poker g)) [i, j, k, m, n]) = mset (g_poker g)"
        by (rule five_nth[OF mn(3) _ len]) (simp only: list.set mn(4))
      ultimately show ?thesis using mn(5) by (intro exI[of _ "map ((!) (g_poker g)) [i, j, k, m, n]"]) (simp add: cow_sum_def numeral_eq_Suc add.assoc)
    qed (use False in auto)
  qed
qed

lemma packet_cards_calc:
  assumes "new_hand g"
  shows "\<exists>cs. packet_cards (calcCowData g n) = Some cs \<and> mset cs = mset (g_poker g) \<and> length cs = 5
    \<and> (1 \<le> g_type (calcCowData g n) \<and> g_type (calcCowData g n) \<le> 10 \<longrightarrow> 10 dvd cow_sum cs)"
proof -
  have f: "fresh_hand g" "\<not> g_calc g" "length (g_poker g) = 5" "g_niu g = replicate 5 (-1)" "g_other g = replicate 2 (-1)"
    using assms by (simp_all add: new_hand_def fresh_hand_def)
  show ?thesis
  proof (cases n)
    case True
    obtain t niu' other' where c: "findCow (g_poker g) (g_niu g) (g_other g) = (t, niu', other')"
      by (cases "findCow (g_poker g) (g_niu g) (g_other g)") auto
    then have e: "calcCowData g n = g\<lparr> g_type := t, g_niu := niu', g_other := other', g_max := MaxAt (findMaxPoker (g_poker g)), g_calc := True \<rparr>"
      using True f(2) by (simp add: calcCowData_def)
    show ?thesis unfolding e using packet_cards_cow[OF f(1,4,5) c, of "calcCowData g n"] unfolding e by simp
  next
    case False
    then show ?thesis using f by (simp add: calcCowData_def calcByNoNiu_def packet_cards_def dn_types)
  qed
qed

lemma hand_type_range: "0 \<le> hand_type V" "hand_type V \<le> 13"
  using pos_mod_bound[of 10 "sum_mset (image_mset changeDNPokerJQK V)"] pos_mod_sign[of 10 "sum_mset (image_mset changeDNPokerJQK V)"]
  unfolding hand_type_def Let_def by auto

lemma calc_type_range:
  assumes "fresh_hand g"
  shows "0 \<le> g_type (calcCowData g n) \<and> g_type (calcCowData g n) \<le> 13"
proof -
  have "g_type (calcCowData g n) = (if n then hand_type (mset (hand_vals (g_poker g))) else 0)"
    using calcCowData_strength[OF assms, of n] by (auto simp: strength_def)
  then show ?thesis by (simp add: hand_type_range)
qed

subsection \<open>Round trip\<close>

text \<open>A new hand whose type has been computed crosses the wire: \<open>FromPacket\<close> reads from what \<open>ToPacket2\<close>
  wrote the type and the same five cards, those of a cow with the three that make it first.\<close>

theorem hand_packet_roundtrip:
  assumes "heap_ok H" "pk_ok p" "new_hand g"
  shows "\<exists>p' bs cs. ToPacket2 H (calcCowData g n) p = Some p' \<and> pk_ok p' \<and> pk_bytes p' = pk_bytes p @ bs \<and> length bs = 14
    \<and> mset cs = mset (g_poker g) \<and> (1 \<le> g_type (calcCowData g n) \<and> g_type (calcCowData g n) \<le> 10 \<longrightarrow> 10 dvd cow_sum cs)
    \<and> (\<forall>q rest g0. pk_ok q \<and> pk_unread q = bs @ rest \<longrightarrow>
        (\<exists>q'. FromPacket q g0 = Some (g0\<lparr> g_type := g_type (calcCowData g n), g_poker := cs \<rparr>, q') \<and> pk_unread q' = rest))"
proof -
  let ?g = "calcCowData g n" and ?w = "word_of_int (g_type (calcCowData g n)) :: u32"
  obtain cs where cs: "packet_cards ?g = Some cs" "mset cs = mset (g_poker g)" "length cs = 5"
    "1 \<le> g_type ?g \<and> g_type ?g \<le> 10 \<longrightarrow> 10 dvd cow_sum cs"
    using packet_cards_calc[OF assms(3), of n] by blast
  have ok: "list_all card_ok cs"
    using assms(3) mset_eq_setD[OF cs(2)] by (simp add: new_hand_def list_all_iff)
  obtain p1 where p1: "put_word H p ?w = Some p1" "pk_ok p1" "pk_bytes p1 = pk_bytes p @ enc_word ?w"
    using u32.put_appends[OF assms(1,2), of ?w] by blast
  obtain p2 where p2: "put_all (put_card_to H) p1 cs = Some p2" "pk_ok p2" "pk_bytes p2 = pk_bytes p1 @ concat (map enc_card cs)"
    using card.put_all_appends[OF assms(1) p1(2) ok] by blast
  let ?bs = "enc_word ?w @ concat (map enc_card cs)"
  have "0 \<le> g_type ?g" "g_type ?g \<le> 13" using calc_type_range[of g n] assms(3) by (simp_all add: new_hand_def)
  then have t: "sint ?w = g_type ?g" by (simp add: signed_of_int signed_take_bit_int_eq_self)
  have "\<exists>q'. FromPacket q g0 = Some (g0\<lparr> g_type := g_type ?g, g_poker := cs \<rparr>, q') \<and> pk_unread q' = rest"
    if "pk_ok q \<and> pk_unread q = ?bs @ rest" for q rest g0
  proof -
    have u: "pk_ok q" "pk_unread q = enc_word ?w @ concat (map enc_card cs) @ rest" using that by simp_all
    obtain q1 where q1: "get_word q = Some (?w, q1)" "pk_ok q1" "pk_unread q1 = concat (map enc_card cs) @ rest"
      using u32.get_reads[OF u(1) _ u(2)] by blast
    from card.get_all_reads[OF q1(2) ok q1(3)] cs(3) obtain q2 where
      "get_all get_card_from 5 q1 = Some (cs, q2)" "pk_unread q2 = rest" by auto
    then show ?thesis using q1(1) t by (simp add: FromPacket_def get_cards_all)
  qed
  moreover have "length (concat (map enc_card cs)) = 10"
    using cs(3) by (auto simp: enc_card_def length_concat sum_list_triv comp_def)
  moreover have "ToPacket2 H ?g p = Some p2" using p1(1) p2(1) cs(1) by (simp add: ToPacket2_def put_cards_all)
  ultimately show ?thesis using p2(2,3) p1(3) cs(2,4) by (intro exI[of _ p2] exI[of _ ?bs] exI[of _ cs]) simp
qed

theorem hand_packet_roundtrip_witness:
  "\<exists>p p' bs cs q'. Packet_new plenty = Some p \<and> ToPacket2 plenty (calcCowData (setPoker demo_hand Group_new) True) p = Some p'
     \<and> mset cs = mset demo_hand
     \<and> FromPacket \<lparr> pk_buf = \<lparr> bd_size = 14, bd_offset = 14, bd_data = bs \<rparr>, pk_offset = 0, pk_good = True \<rparr> Group_new
         = Some (Group_new\<lparr> g_type := 9, g_poker := cs \<rparr>, q')"
proof -
  obtain p where p: "Packet_new plenty = Some p" "pk_ok p" using Packet_newE[of plenty] by auto
  let ?g = "setPoker demo_hand Group_new"
  have n: "new_hand ?g"
    by (simp add: new_hand_def fresh_hand_def setPoker_def Group_new_def demo_hand_def card_ok_def to_int8_def)
  have t: "g_type (calcCowData ?g True) = 9" by code_simp
  from hand_packet_roundtrip[OF heap_ok_plenty p(2) n, of True] obtain p' bs cs where
    r: "ToPacket2 plenty (calcCowData ?g True) p = Some p'" "length bs = 14" "mset cs = mset (g_poker ?g)"
      "\<forall>q rest g0. pk_ok q \<and> pk_unread q = bs @ rest \<longrightarrow>
        (\<exists>q'. FromPacket q g0 = Some (g0\<lparr> g_type := g_type (calcCowData ?g True), g_poker := cs \<rparr>, q') \<and> pk_unread q' = rest)" by blast
  let ?q = "\<lparr> pk_buf = \<lparr> bd_size = 14, bd_offset = 14, bd_data = bs \<rparr>, pk_offset = 0, pk_good = True \<rparr>"
  have "pk_ok ?q \<and> pk_unread ?q = bs @ []"
    using r(2) by (simp add: pk_ok_def bd_ok_def pk_unread_def pk_bytes_def bd_bytes_def)
  then obtain q' where "FromPacket ?q Group_new = Some (Group_new\<lparr> g_type := 9, g_poker := cs \<rparr>, q')"
    using r(4) unfolding t by blast
  then show ?thesis using p(1) r(1,3) by (auto simp: setPoker_def)
qed

end
