(* ===== verification/Poker_Sets.thy ===== *)
theory Poker_Sets
  imports Poker_Packet
begin

text \<open>
  The sets of the hand generator: what \<open>Init\<close> fills them with, and that a hand of every type can be drawn.
\<close>

definition vals_same :: "int list \<Rightarrow> bool" where
  "vals_same vs \<longleftrightarrow> (\<forall>x\<in>set vs. x = hd vs)"

text \<open>A hand that belongs in the set of type \<open>t\<close>.\<close>

definition typed_hand :: "nat \<Rightarrow> group \<Rightarrow> bool" where
  "typed_hand t g \<longleftrightarrow> length (g_poker g) = 5 \<and> hand_type (mset (hand_vals (g_poker g))) = int t \<and> \<not> vals_same (hand_vals (g_poker g))"

definition gen_inv :: "gen \<Rightarrow> bool" where
  "gen_inv gn \<longleftrightarrow> omap_ok (gn_maps gn)
     \<and> (\<forall>t s. omap_find (gn_maps gn) t = Some s \<longrightarrow> st_type s = t \<and> st_groups s \<noteq> [] \<and> (\<forall>g\<in>set (st_groups s). typed_hand t g))"

text \<open>A hand with these values is there.\<close>

definition present :: "int list \<Rightarrow> gen \<Rightarrow> bool" where
  "present vs gn \<longleftrightarrow> (\<exists>s. omap_find (gn_maps gn) (nat (hand_type (mset vs))) = Some s \<and> (\<exists>g\<in>set (st_groups s). hand_vals (g_poker g) = vs))"

definition stale :: "gen \<Rightarrow> bool" where
  "stale gn \<longleftrightarrow> (\<forall>t s. omap_find (gn_maps gn) t = Some s \<longrightarrow> (\<forall>g\<in>set (st_groups s). g_max g = MaxElsewhere))"

lemma copy_group_simps [simp]:
  "g_poker (copy_group g) = g_poker g" "typed_hand t (copy_group g) = typed_hand t g"
  by (simp_all add: copy_group_def typed_hand_def)

lemma all_values_five: "vs \<in> set all_values \<Longrightarrow> length vs = 5 \<and> (\<forall>v\<in>set vs. 1 \<le> v)"
  unfolding all_values_def by auto

lemma all_values_iff: "vs \<in> set all_values \<longleftrightarrow> length vs = 5 \<and> set vs \<subseteq> {1..13}"
proof
  show "vs \<in> set all_values \<Longrightarrow> length vs = 5 \<and> set vs \<subseteq> {1..13}" unfolding all_values_def by auto
  assume "length vs = 5 \<and> set vs \<subseteq> {1..13}"
  moreover from this obtain a b c d e where "vs = [a, b, c, d, e]" by (auto simp: numeral_eq_Suc length_Suc_conv)
  ultimately show "vs \<in> set all_values" unfolding all_values_def by (simp add: image_iff)
qed

lemma gen_hand_vals [simp]: "hand_vals (g_poker (gen_hand vs)) = vs"
  by (simp add: gen_hand_def hand_vals_def comp_def)

lemma gen_hand_calc:
  assumes "vs \<in> set all_values"
  shows "g_type (calcCowData (gen_hand vs) True) = hand_type (mset vs)" "g_poker (calcCowData (gen_hand vs) True) = g_poker (gen_hand vs)"
    "g_max (calcCowData (gen_hand vs) True) \<noteq> NoMax" "length (g_poker (gen_hand vs)) = 5"
proof -
  have l: "length (g_poker (gen_hand vs)) = 5" "\<forall>p\<in>set (g_poker (gen_hand vs)). 0 \<le> poker_value p"
    using all_values_five[OF assms] by (auto simp: gen_hand_def)
  have c: "\<not> g_calc (gen_hand vs)" by (simp add: gen_hand_def Group_new_def)
  obtain t niu other where f: "findCow (g_poker (gen_hand vs)) (g_niu (gen_hand vs)) (g_other (gen_hand vs)) = (t, niu, other)"
    by (cases "findCow (g_poker (gen_hand vs)) (g_niu (gen_hand vs)) (g_other (gen_hand vs))") auto
  have "t = hand_type (mset vs)" using findCow_type[OF l, of "g_niu (gen_hand vs)" "g_other (gen_hand vs)"] by (simp add: f)
  then show "g_type (calcCowData (gen_hand vs) True) = hand_type (mset vs)" "g_poker (calcCowData (gen_hand vs) True) = g_poker (gen_hand vs)"
    "g_max (calcCowData (gen_hand vs) True) \<noteq> NoMax"
    using c f by (simp_all add: calcCowData_def)
  show "length (g_poker (gen_hand vs)) = 5" by (rule l(1))
qed

lemma gen_step_maps:
  assumes "vs \<in> set all_values" "\<not> vals_same vs"
  shows "\<exists>g. omap_find (gn_maps (gen_step vs gn)) = (omap_find (gn_maps gn))(nat (hand_type (mset vs)) \<mapsto>
        Set_AddGroupPoker g (case omap_find (gn_maps gn) (nat (hand_type (mset vs))) of Some s \<Rightarrow> s | None \<Rightarrow> PokerSet_new (nat (hand_type (mset vs)))))
    \<and> hand_vals (g_poker g) = vs \<and> typed_hand (nat (hand_type (mset vs))) g \<and> g_max g \<noteq> NoMax \<and> (omap_ok (gn_maps gn) \<longrightarrow> omap_ok (gn_maps (gen_step vs gn)))"
proof -
  let ?g = "calcCowData (gen_hand vs) True"
  have "vs \<noteq> []" using all_values_five[OF assms(1)] by auto
  then have "\<not> (\<forall>v\<in>set (tl vs). v = hd vs)" using assms(2) unfolding vals_same_def by (cases vs) auto
  then have e: "gen_step vs gn = Gen_AddGroupPoker ?g gn" by (auto simp: gen_step_def)
  have m: "hand_type (mset vs) mod 4294967296 = hand_type (mset vs)"
    using hand_type_range[of "mset vs"] by (intro mod_pos_pos_trivial) simp_all
  have "typed_hand (nat (hand_type (mset vs))) ?g"
    using gen_hand_calc[OF assms(1)] hand_type_range(1)[of "mset vs"] assms(2) by (simp add: typed_hand_def)
  then show ?thesis
    using gen_hand_calc[OF assms(1)] by (intro exI[of _ ?g]) (simp add: e Gen_AddGroupPoker_def Let_def m fun_upd_def fun_eq_iff)
qed

lemma gen_step_inv:
  assumes "vs \<in> set all_values" "gen_inv gn" "stale gn"
  shows "gen_inv (gen_step vs gn) \<and> stale (gen_step vs gn)"
proof (cases "vals_same vs")
  case True
  then have "gen_step vs gn = gn" by (cases vs) (auto simp: gen_step_def vals_same_def)
  then show ?thesis using assms by simp
next
  case False
  let ?t = "nat (hand_type (mset vs))"
  obtain g where g: "omap_find (gn_maps (gen_step vs gn)) = (omap_find (gn_maps gn))(?t \<mapsto>
        Set_AddGroupPoker g (case omap_find (gn_maps gn) ?t of Some s \<Rightarrow> s | None \<Rightarrow> PokerSet_new ?t))"
    "typed_hand ?t g" "g_max g \<noteq> NoMax" "omap_ok (gn_maps (gen_step vs gn))"
    using gen_step_maps[OF assms(1) False, of gn] assms(2) by (auto simp: gen_inv_def)
  let ?s = "case omap_find (gn_maps gn) ?t of Some s \<Rightarrow> s | None \<Rightarrow> PokerSet_new ?t"
  have s: "st_type ?s = ?t" "\<forall>h\<in>set (st_groups ?s). typed_hand ?t h \<and> g_max h = MaxElsewhere"
    using assms(2,3) by (auto simp: gen_inv_def stale_def PokerSet_new_def split: option.split)
  have "g_max (copy_group g) = MaxElsewhere" using g(3) by (simp add: copy_group_def split: max_ptr.split)
  moreover have "g_max (copy_group h) = MaxElsewhere" if "g_max h = MaxElsewhere" for h
    using that by (simp add: copy_group_def)
  ultimately show ?thesis using s g(2,4) assms(2,3) unfolding gen_inv_def stale_def g(1)
    by (auto simp: Set_AddGroupPoker_def)
qed

lemma gen_step_present:
  assumes "vs \<in> set all_values" "\<not> vals_same vs"
  shows "present vs (gen_step vs gn)"
  using gen_step_maps[OF assms, of gn] by (auto simp: present_def Set_AddGroupPoker_def)

lemma gen_step_keeps:
  assumes "ws \<in> set all_values" "present vs gn"
  shows "present vs (gen_step ws gn)"
proof (cases "vals_same ws")
  case True
  then have "gen_step ws gn = gn" by (cases ws) (auto simp: gen_step_def vals_same_def)
  then show ?thesis using assms by simp
next
  case False
  obtain s h where s: "omap_find (gn_maps gn) (nat (hand_type (mset vs))) = Some s" "h \<in> set (st_groups s)" "hand_vals (g_poker h) = vs"
    using assms(2) by (auto simp: present_def)
  obtain g where "omap_find (gn_maps (gen_step ws gn)) = (omap_find (gn_maps gn))(nat (hand_type (mset ws)) \<mapsto>
        Set_AddGroupPoker g (case omap_find (gn_maps gn) (nat (hand_type (mset ws))) of Some s \<Rightarrow> s | None \<Rightarrow> PokerSet_new (nat (hand_type (mset ws)))))"
    using gen_step_maps[OF assms(1) False, of gn] by blast
  then show ?thesis using s by (auto simp: present_def Set_AddGroupPoker_def intro!: bexI[of _ h])
qed

lemma Gen_Init_sets:
  "gen_inv (snd (Gen_Init Gen_new)) \<and> stale (snd (Gen_Init Gen_new))"
proof -
  have "gen_inv (fold gen_step all_values Gen_new) \<and> stale (fold gen_step all_values Gen_new)"
    by (rule fold_invariant[where Q = "\<lambda>vs. vs \<in> set all_values"])
      (auto simp: gen_step_inv, simp_all add: gen_inv_def stale_def Gen_new_def)
  then show ?thesis by (simp add: Gen_Init_def)
qed

lemma Gen_Init_present:
  assumes "vs \<in> set all_values" "\<not> vals_same vs"
  shows "present vs (snd (Gen_Init Gen_new))"
proof -
  obtain as bs where ab: "all_values = as @ vs # bs" using assms(1) by (meson split_list)
  have "present vs (fold gen_step bs (gen_step vs (fold gen_step as Gen_new)))"
    by (rule fold_invariant[where Q = "\<lambda>vs. vs \<in> set all_values"])
      (use assms gen_step_present gen_step_keeps in \<open>auto simp: ab\<close>)
  then show ?thesis by (simp add: Gen_Init_def ab)
qed

subsection \<open>Drawing a hand\<close>

definition gen_ready :: "gen \<Rightarrow> bool" where
  "gen_ready gn \<longleftrightarrow> gen_inv gn \<and> (\<forall>t\<le>13. omap_find (gn_maps gn) t \<noteq> None)"

text \<open>A hand of every type.\<close>

definition samples :: "int list list" where
  "samples = [[1, 1, 2, 2, 5], [2, 3, 5, 5, 6], [2, 3, 5, 6, 6], [2, 3, 5, 6, 7], [2, 3, 5, 7, 7], [2, 3, 5, 7, 8], [2, 3, 5, 8, 8],
     [2, 3, 5, 8, 9], [2, 3, 5, 9, 9], [2, 3, 5, 9, 10], [2, 3, 5, 4, 6], [7, 7, 7, 7, 2], [11, 11, 12, 12, 13], [1, 1, 2, 2, 3]]"

lemma samples_types:
  "list_all (\<lambda>t. fst (findCow (g_poker (gen_hand (samples ! t))) (replicate 5 (-1)) (replicate 2 (-1))) = int t
     \<and> length (samples ! t) = 5 \<and> list_all (\<lambda>v. 1 \<le> v \<and> v \<le> 13) (samples ! t) \<and> \<not> vals_same (samples ! t)) [0..<14]"
  by code_simp

lemma sample_type:
  assumes "t \<le> 13"
  shows "samples ! t \<in> set all_values \<and> \<not> vals_same (samples ! t) \<and> hand_type (mset (samples ! t)) = int t"
proof -
  have "t \<in> set [0..<14]" using assms by simp
  from bspec[OF samples_types[unfolded list_all_iff] this] have
    s: "fst (findCow (g_poker (gen_hand (samples ! t))) (replicate 5 (-1)) (replicate 2 (-1))) = int t"
      "length (samples ! t) = 5" "\<forall>v\<in>set (samples ! t). 1 \<le> v \<and> v \<le> 13" "\<not> vals_same (samples ! t)" by blast+
  have "length (g_poker (gen_hand (samples ! t))) = 5" "\<forall>p\<in>set (g_poker (gen_hand (samples ! t))). 0 \<le> poker_value p"
    using s(2,3) by (auto simp: gen_hand_def)
  from findCow_type[OF this, of "replicate 5 (-1)" "replicate 2 (-1)"] have "hand_type (mset (samples ! t)) = int t"
    unfolding s(1) by simp
  then show ?thesis using s by (auto simp: all_values_iff)
qed

lemma Gen_Init_ready: "gen_ready (snd (Gen_Init Gen_new))"
proof -
  have "omap_find (gn_maps (snd (Gen_Init Gen_new))) t \<noteq> None" if "t \<le> 13" for t
    using Gen_Init_present[of "samples ! t"] sample_type[OF that] by (auto simp: present_def)
  then show ?thesis using Gen_Init_sets by (simp add: gen_ready_def)
qed

lemma draw_result:
  assumes "gen_ready gn" "fair rnd" "t \<le> 13"
  shows "\<exists>i r' gn' s g. GetAssignGroupPoker rnd r t gn = Some (Some (t, i), r', gn') \<and> gen_ready gn'
    \<and> omap_find (gn_maps gn') t = Some s \<and> i < length (st_groups s) \<and> st_groups s ! i = g
    \<and> real_hand (g_poker g) \<and> hand_type (mset (hand_vals (g_poker g))) = int t
    \<and> (\<exists>p. max_card g = Some p \<and> p \<in> set (g_poker g) \<and> (\<forall>q\<in>set (g_poker g). card_rank q \<le> card_rank p))"
proof -
  obtain s where s: "omap_find (gn_maps gn) t = Some s" using assms(1,3) unfolding gen_ready_def by blast
  have inv: "gen_inv gn" "st_type s = t" "st_groups s \<noteq> []" "\<forall>g\<in>set (st_groups s). typed_hand t g"
    using assms(1) s by (auto simp: gen_ready_def gen_inv_def)
  let ?i = "length (st_groups s) - 1 - rnd r mod length (st_groups s)"
  let ?g = "st_groups s ! ?i"
  have i: "?i < length (st_groups s)" using inv(3) by (cases "st_groups s") simp_all
  have th: "typed_hand t ?g" using inv(4) i by (metis nth_mem)
  obtain r' ps where c: "Confuse rnd (r + 1) ?g = Some (r', ?g\<lparr> g_poker := ps, g_max := MaxAt (findMaxPoker ps) \<rparr>)"
    "hand_vals ps = hand_vals (g_poker ?g)" "real_hand ps"
    using Confuse_returns[of ?g rnd "r + 1"] th assms(2) by (auto simp: typed_hand_def vals_same_def)
  let ?h = "?g\<lparr> g_poker := ps, g_max := MaxAt (findMaxPoker ps) \<rparr>"
  let ?s = "s\<lparr> st_groups := (st_groups s)[?i := ?h] \<rparr>"
  let ?gn = "gn\<lparr> gn_maps := omap_put t ?s (gn_maps gn) \<rparr>"
  have len: "length ps = 5" using c(3) by (simp add: real_hand_def)
  have d: "GetAssignGroupPoker rnd r t gn = Some (Some (t, ?i), r', ?gn)"
    using s inv(3) c(1) by (simp add: GetAssignGroupPoker_def Set_GetRandomGroupPoker_def Let_def)
  have h: "typed_hand t ?h" using th c(2) len by (simp add: typed_hand_def)
  then have "\<forall>g\<in>set (st_groups ?s). typed_hand t g" using inv(4) set_update_subset_insert[of "st_groups s" ?i ?h] by auto
  then have "gen_ready ?gn" using assms(1) inv(2,3) by (auto simp: gen_ready_def gen_inv_def)
  moreover have "hand_type (mset (hand_vals (g_poker ?h))) = int t" using h by (simp add: typed_hand_def)
  moreover have "st_groups ?s ! ?i = ?h" using i by simp
  ultimately show ?thesis
    using d i c(3) max_card_set[OF len, of ?g]
    by (intro exI[of _ ?i] exI[of _ r'] exI[of _ ?gn] exI[of _ ?s] exI[of _ ?h]) simp
qed

text \<open>C22: \<open>Init\<close> sorts every hand of values one to thirteen, those of one value apart, into the set of its type.
  From then on, however many hands have been drawn, a hand of any type can be drawn: the call returns, and
  its hand has the type asked for, five different cards, and \<open>max_poker\<close> at its greatest.  (Until a hand
  is drawn, its \<open>max_poker\<close> points to an object that is gone.)\<close>

theorem gen_draws_every_type:
  assumes "fair rnd" "t \<le> 13"
  shows "(\<forall>vs. length vs = 5 \<and> set vs \<subseteq> {1..13} \<and> \<not> vals_same vs \<longrightarrow> present vs (snd (Gen_Init Gen_new)))
    \<and> stale (snd (Gen_Init Gen_new)) \<and> gen_ready (snd (Gen_Init Gen_new))
    \<and> (\<forall>gn r. gen_ready gn \<longrightarrow>
        (\<exists>i r' gn' s g. GetAssignGroupPoker rnd r t gn = Some (Some (t, i), r', gn') \<and> gen_ready gn'
          \<and> omap_find (gn_maps gn') t = Some s \<and> i < length (st_groups s) \<and> st_groups s ! i = g
          \<and> real_hand (g_poker g) \<and> hand_type (mset (hand_vals (g_poker g))) = int t
          \<and> (\<exists>p. max_card g = Some p \<and> p \<in> set (g_poker g) \<and> (\<forall>q\<in>set (g_poker g). card_rank q \<le> card_rank p))))"
  using Gen_Init_present all_values_iff Gen_Init_sets Gen_Init_ready draw_result[OF _ assms] by blast

theorem gen_draws_every_type_witness:
  "\<exists>i r' gn'. GetAssignGroupPoker (\<lambda>i. i) 0 13 (snd (Gen_Init Gen_new)) = Some (Some (13, i), r', gn')"
proof -
  have "fair (\<lambda>i. i)" by (rule fair_id)
  from gen_draws_every_type[OF this, of 13] show ?thesis by fastforce
qed

end
