(* ===== verification/C_Text.thy ===== *)
theory C_Text
  imports WB_Prelude
begin

text \<open>
  The C library's functions on text that the code uses: reading and printing decimal numbers, searching.
  A string is the list of its bytes, without the NUL.
\<close>

definition is_space :: "byte \<Rightarrow> bool" where
  "is_space b \<longleftrightarrow> b = 0x20 \<or> 0x09 \<le> b \<and> b \<le> 0x0D"

text \<open>\<open>sscanf\<close> with \<open>%\<close>\<open>w\<close>\<open>d\<close>: \<^const>\<open>None\<close> when it assigns nothing.\<close>

definition scan_dec :: "nat \<Rightarrow> byte list \<Rightarrow> int option" where
  "scan_dec w str =
     (let s1 = dropWhile is_space str;
          signed = (s1 \<noteq> [] \<and> (hd s1 = 0x2D \<or> hd s1 = 0x2B));
          ds = takeWhile (\<lambda>b. 0x30 \<le> b \<and> b \<le> 0x39) (if signed then take (w - 1) (tl s1) else take w s1);
          v = foldl (\<lambda>a b. 10 * a + (uint b - 0x30)) 0 ds
      in if ds = [] then None else Some (if signed \<and> hd s1 = 0x2D then - v else v))"

text \<open>\<open>atoi\<close>: a number that does not fit an \<open>int\<close> is undefined.\<close>

definition c_atoi :: "byte list \<Rightarrow> int option" where
  "c_atoi str = (case scan_dec (length str) str of
     None \<Rightarrow> Some 0
   | Some v \<Rightarrow> (if - (2 ^ 31) \<le> v \<and> v < 2 ^ 31 then Some v else None))"

fun decimal :: "nat \<Rightarrow> byte list" where
  "decimal n = (if n < 10 then [] else decimal (n div 10)) @ [word_of_nat (0x30 + n mod 10)]"

declare decimal.simps [simp del]

lemma digit_byte:
  assumes "d < 10"
  shows "0x30 \<le> (word_of_nat (0x30 + d) :: byte) \<and> (word_of_nat (0x30 + d) :: byte) \<le> 0x39" "uint (word_of_nat (0x30 + d) :: byte) = 0x30 + int d"
    "\<not> is_space (word_of_nat (0x30 + d))"
proof -
  have "list_all (\<lambda>d. 0x30 \<le> (word_of_nat (0x30 + d) :: byte) \<and> (word_of_nat (0x30 + d) :: byte) \<le> 0x39
      \<and> uint (word_of_nat (0x30 + d) :: byte) = 0x30 + int d \<and> \<not> is_space (word_of_nat (0x30 + d))) [0..<10]" by code_simp
  moreover have "d \<in> set [0..<10]" using assms by simp
  ultimately show "0x30 \<le> (word_of_nat (0x30 + d) :: byte) \<and> (word_of_nat (0x30 + d) :: byte) \<le> 0x39"
    "uint (word_of_nat (0x30 + d) :: byte) = 0x30 + int d" "\<not> is_space (word_of_nat (0x30 + d))"
    unfolding list_all_iff by blast+
qed

lemma decimal_digits: "b \<in> set (decimal n) \<Longrightarrow> 0x30 \<le> b \<and> b \<le> 0x39 \<and> \<not> is_space b"
proof (induction n rule: decimal.induct)
  case (1 n)
  have "n mod 10 < 10" by simp
  note digit_byte[OF this]
  then show ?case using 1 by (auto simp: decimal.simps[of n] split: if_splits)
qed

lemma decimal_value: "foldl (\<lambda>a b. 10 * a + (uint b - 0x30)) 0 (decimal n) = int n"
proof (induction n rule: decimal.induct)
  case (1 n)
  have m: "uint (word_of_nat (0x30 + n mod 10) :: byte) = 0x30 + int (n mod 10)" by (rule digit_byte) simp
  show ?case
  proof (cases "n < 10")
    case True
    then show ?thesis using m by (subst decimal.simps) simp
  next
    case False
    have "10 * int (n div 10) + int (n mod 10) = int n" by presburger
    then show ?thesis using 1 False m by (subst decimal.simps) simp
  qed
qed

lemma decimal_length: "0 < k \<Longrightarrow> n < 10 ^ k \<Longrightarrow> length (decimal n) \<le> k"
proof (induction k arbitrary: n)
  case (Suc k)
  show ?case
  proof (cases "n < 10")
    case False
    then have "k \<noteq> 0" using Suc.prems(2) by (cases k) auto
    moreover have "n div 10 < 10 ^ k" using Suc.prems(2) by (simp add: less_mult_imp_div_less mult.commute)
    ultimately have "length (decimal (n div 10)) \<le> k" using Suc.IH by simp
    then show ?thesis using False by (subst decimal.simps) simp
  qed (subst decimal.simps, simp)
qed simp

lemma scan_decimal:
  assumes "n < 10 ^ w" "0 < w"
  shows "scan_dec w (decimal n) = Some (int n)"
proof -
  have ne: "decimal n \<noteq> []" by (subst decimal.simps) simp
  have h: "hd (decimal n) \<in> set (decimal n)" using ne by simp
  have sp: "dropWhile is_space (decimal n) = decimal n"
    using ne decimal_digits[OF h] by (cases "decimal n") auto
  have "hd (decimal n) \<noteq> 0x2D \<and> hd (decimal n) \<noteq> 0x2B" using decimal_digits[OF h] by auto
  moreover have "take w (decimal n) = decimal n" using decimal_length[OF assms(2,1)] by simp
  moreover have tw: "takeWhile (\<lambda>b. 0x30 \<le> b \<and> b \<le> 0x39) (decimal n) = decimal n"
    using decimal_digits by (auto simp: takeWhile_eq_all_conv)
  ultimately show ?thesis using ne decimal_value[of n] by (simp add: scan_dec_def sp Let_def tw)
qed

definition show_int :: "int \<Rightarrow> byte list" where
  "show_int i = (if i < 0 then 0x2D # decimal (nat (- i)) else decimal (nat i))"

lemma show_int_no_nul: "0 \<notin> set (show_int i)"
  using decimal_digits[of 0 "nat i"] decimal_digits[of 0 "nat (- i)"] by (auto simp: show_int_def)

lemma takeWhile_decimal: "takeWhile (\<lambda>b. 0x30 \<le> b \<and> b \<le> 0x39) (decimal n) = decimal n"
  using decimal_digits by (auto simp: takeWhile_eq_all_conv)

lemma decimal_Nil [simp]: "decimal n \<noteq> []"
  by (subst decimal.simps) simp

lemma scan_show_int: "scan_dec (length (show_int i)) (show_int i) = Some i"
proof (cases "i < 0")
  case True
  then show ?thesis using decimal_value[of "nat (- i)"]
    by (simp add: show_int_def scan_dec_def is_space_def Let_def takeWhile_decimal)
next
  case False
  have h: "hd (decimal (nat i)) \<in> set (decimal (nat i))" by simp
  have "dropWhile is_space (decimal (nat i)) = decimal (nat i)"
    using decimal_digits[OF h] decimal_Nil[of "nat i"] by (cases "decimal (nat i)") auto
  moreover have "hd (decimal (nat i)) \<noteq> 0x2D \<and> hd (decimal (nat i)) \<noteq> 0x2B" using decimal_digits[OF h] by auto
  ultimately show ?thesis using False decimal_value[of "nat i"]
    by (simp add: show_int_def scan_dec_def Let_def takeWhile_decimal)
qed

lemma atoi_show_int: "- (2 ^ 31) \<le> i \<Longrightarrow> i < 2 ^ 31 \<Longrightarrow> c_atoi (show_int i) = Some i"
  by (simp add: c_atoi_def scan_show_int)

text \<open>\<open>std::string::find\<close> from an index on.\<close>

fun find_in :: "byte list \<Rightarrow> byte list \<Rightarrow> nat option" where
  "find_in sub [] = (if sub = [] then Some 0 else None)"
| "find_in sub (b # bs) = (if take (length sub) (b # bs) = sub then Some 0 else map_option Suc (find_in sub bs))"

definition str_find :: "byte list \<Rightarrow> byte list \<Rightarrow> nat \<Rightarrow> nat option" where
  "str_find str sub pos = (if pos \<le> length str then map_option ((+) pos) (find_in sub (drop pos str)) else None)"

lemma find_in_char: "find_in [c] xs = (if c \<in> set xs then Some (length (takeWhile (\<lambda>b. b \<noteq> c) xs)) else None)"
  by (induction xs) auto

end
