(* ===== verification/Http_Query.thy ===== *)
theory Http_Query
  imports C_Text
begin

text \<open>
  \<open>queryStringParse\<close> (\<open>framework/server/http_parse_query.h\<close>), which the HTTP layer calls on the query string
  and on the body of every request.  The copy of the query is a block of bytes that \<open>strtok_r\<close> and the parser
  cut into strings by writing NUL bytes; a C string is the bytes from its index to the next NUL.
\<close>

type_synonym form_data = "(byte list \<times> byte list) list"

definition hex_digit :: "byte \<Rightarrow> int option" where
  "hex_digit b =
     (if 0x30 \<le> b \<and> b \<le> 0x39 then Some (uint b - 0x30)
      else if 0x41 \<le> b \<and> b \<le> 0x46 then Some (uint b - 0x37)
      else if 0x61 \<le> b \<and> b \<le> 0x66 then Some (uint b - 0x57)
      else None)"

text \<open>\<open>sscanf(buf, "%2x", &c)\<close> on the characters of \<open>buf\<close>: white space is skipped, a sign counts as one of the
  two characters.  \<open>Some None\<close>: nothing is assigned.  C libraries disagree on \<open>0x\<close>, which is \<^const>\<open>None\<close>.\<close>

definition scan_2x :: "byte list \<Rightarrow> int option option" where
  "scan_2x buf = (case dropWhile is_space buf of
     [] \<Rightarrow> Some None
   | x # r \<Rightarrow>
       if x = 0x2D then Some (map_option uminus (case r of y # _ \<Rightarrow> hex_digit y | [] \<Rightarrow> None))
       else if x = 0x2B then Some (case r of y # _ \<Rightarrow> hex_digit y | [] \<Rightarrow> None)
       else if x = 0x30 \<and> (r = [0x78] \<or> r = [0x58]) then None
       else Some (case hex_digit x of
              None \<Rightarrow> None
            | Some v \<Rightarrow> (case r of y # _ \<Rightarrow> (case hex_digit y of Some w \<Rightarrow> Some (16 * v + w) | None \<Rightarrow> Some v)
                        | [] \<Rightarrow> Some v)))"

text \<open>One round of the loop over the value: \<open>b\<close> is the current byte, \<open>bs\<close> the memory after it, \<open>c\<close> the variable
  of that name (uninitialised at first).  The result is \<open>c\<close> and the memory after the byte read last.\<close>

definition next_char :: "byte \<Rightarrow> byte list \<Rightarrow> int option \<Rightarrow> (int \<times> byte list) option" where
  "next_char b bs c =
     (if b = 0x25 then (case bs of
        x # y # bs' \<Rightarrow> (case scan_2x (takeWhile (\<lambda>z. z \<noteq> 0) [x, y]) of
            None \<Rightarrow> None
          | Some None \<Rightarrow> (case c of Some v \<Rightarrow> Some (v, bs') | None \<Rightarrow> None)
          | Some (Some v) \<Rightarrow> Some (v, bs'))
      | _ \<Rightarrow> None)
      else if b = 0x2B then Some (0x20, bs)
      else Some (sint b, bs))"

definition escape :: "int \<Rightarrow> byte list" where
  "escape c =
     (if c = 0x5C then [0x5C, 0x5C] else if c = 0x27 then [0x5C, 0x27] else if c = 0x0A then [0x5C, 0x6E]
      else [word_of_int c])"

text \<open>\<open>snprintf(*value + pos, strlen(s) + 1 - pos, ...)\<close>: the size is a \<open>size_t\<close> and wraps (glibc takes
  any size; POSIX lets the call fail above \<open>INT_MAX\<close>); a size of zero writes nothing.  \<open>n\<close> is \<open>strlen(s)\<close>.\<close>

definition snprintf_to :: "nat \<Rightarrow> nat \<Rightarrow> byte list \<Rightarrow> byte list \<Rightarrow> byte list option" where
  "snprintf_to n pos str out =
     (let size = (if pos \<le> n + 1 then n + 1 - pos else 2 ^ 64 - (pos - (n + 1)))
      in if size = 0 then Some out else memcpy_at out pos (take (size - 1) str @ [0]))"

lemma next_char_length: "next_char b bs c = Some (v, bs') \<Longrightarrow> length bs' \<le> length bs"
  by (auto simp: next_char_def split: if_splits list.splits option.splits)

text \<open>\<open>pos\<close> is an \<open>int32_t\<close>.\<close>

function value_loop :: "nat \<Rightarrow> byte list \<Rightarrow> int option \<Rightarrow> nat \<Rightarrow> byte list \<Rightarrow> byte list option" where
  "value_loop n [] c pos out = None"
| "value_loop n (b # bs) c pos out =
     (if b = 0 then Some out
      else case next_char b bs c of
        None \<Rightarrow> None
      | Some (v, bs') \<Rightarrow> (case snprintf_to n pos (escape v) out of
            None \<Rightarrow> None
          | Some out' \<Rightarrow> (if 2 ^ 31 \<le> pos + length (escape v) then None else value_loop n bs' (Some v) (pos + length (escape v)) out')))"
  by pat_completeness auto
termination
  by (relation "measure (\<lambda>(n, bs, c, pos, out). length bs)") (auto dest!: next_char_length)

text \<open>The parser of one \<open>key=value\<close> string at \<open>s\<close>.  The blocks of key and value hold \<open>sizeof(char*)\<close> bytes for each
  character: \<open>calloc(strlen(s)+1, sizeof(*value))\<close> with \<open>value\<close> a \<open>char**\<close>.  A null \<open>*key\<close> or \<open>*value\<close> means that nothing is stored.\<close>

definition parse_pair :: "heap_env \<Rightarrow> byte list \<Rightarrow> nat \<Rightarrow> (byte list \<times> (byte list \<times> byte list) option) option" where
  "parse_pair H mem s =
     (let name = takeWhile (\<lambda>b. b \<noteq> 0 \<and> b \<noteq> 0x3D) (drop s mem); e = s + length name in
      if length mem \<le> e then None
      else if mem ! e = 0 then Some (mem, None)
      else let mem1 = mem[e := 0]; rest = drop (e + 1) mem1; n = length (takeWhile (\<lambda>b. b \<noteq> 0) rest) in
        if calloc_block H 0 (8 * (length name + 1)) = None then None
        else case calloc_block H 0 (8 * (n + 1)) of
          None \<Rightarrow> (if n = 0 then Some (mem1, None) else None)
        | Some block \<Rightarrow> map_option (\<lambda>out. (mem1, Some (name, takeWhile (\<lambda>b. b \<noteq> 0) out))) (value_loop n rest None 0 block))"

text \<open>\<open>strtok_r(s, "&", &inner_ptr)\<close> from \<open>p\<close>: the token's index, the memory with its end cut, and where to go on.\<close>

definition strtok :: "byte list \<Rightarrow> nat \<Rightarrow> (nat \<times> byte list \<times> nat) option option" where
  "strtok mem p =
     (let q = p + length (takeWhile (\<lambda>b. b = 0x26) (drop p mem)) in
      if length mem \<le> q then None
      else if mem ! q = 0 then Some None
      else let e = q + length (takeWhile (\<lambda>b. b \<noteq> 0 \<and> b \<noteq> 0x26) (drop q mem)) in
        if length mem \<le> e then None
        else if mem ! e = 0 then Some (Some (q, mem, e))
        else Some (Some (q, mem[e := 0], e + 1)))"

lemma parse_pair_length: "parse_pair H mem s = Some (mem', r) \<Longrightarrow> length mem' = length mem"
  by (auto simp: parse_pair_def Let_def split: if_splits option.splits)

lemma strtok_next:
  assumes "strtok mem p = Some (Some (q, mem', p'))"
  shows "length mem' = length mem \<and> p < p' \<and> p < length mem"
proof -
  let ?q = "p + length (takeWhile (\<lambda>b. b = 0x26) (drop p mem))"
  have q: "?q < length mem" "mem ! ?q \<noteq> 0" "q = ?q" using assms by (auto simp: strtok_def Let_def split: if_splits)
  then have "mem ! ?q \<noteq> 0x26"
    using nth_length_takeWhile[of "\<lambda>b. b = 0x26" "drop p mem"] by simp
  then have "takeWhile (\<lambda>b. b \<noteq> 0 \<and> b \<noteq> 0x26) (drop ?q mem) \<noteq> []"
    using q(1,2) by (simp add: Cons_nth_drop_Suc[OF q(1), symmetric])
  then show ?thesis using assms q by (auto simp: strtok_def Let_def split: if_splits)
qed

function query_loop :: "heap_env \<Rightarrow> byte list \<Rightarrow> nat \<Rightarrow> form_data \<Rightarrow> form_data option" where
  "query_loop H mem p data = (case strtok mem p of
     None \<Rightarrow> None
   | Some None \<Rightarrow> Some data
   | Some (Some (q, mem1, p')) \<Rightarrow> (case parse_pair H mem1 q of
         None \<Rightarrow> None
       | Some (mem2, None) \<Rightarrow> query_loop H mem2 p' data
       | Some (mem2, Some (k, v)) \<Rightarrow> query_loop H mem2 p' (omap_put k v data)))"
  by pat_completeness auto
termination
  by (relation "measure (\<lambda>(H, mem, p, data). length mem - p)")
    (auto dest!: strtok_next parse_pair_length)

declare query_loop.simps [simp del]

text \<open>\<open>query\<close> is the string without its NUL.\<close>

definition queryStringParse :: "heap_env \<Rightarrow> byte list \<Rightarrow> form_data \<Rightarrow> form_data option" where
  "queryStringParse H query data = do {
     block \<leftarrow> calloc_block H 0 (length query + 1);
     mem \<leftarrow> memcpy_at block 0 query;
     query_loop H mem 0 data }"

subsection \<open>HttpRequest\<close>

text \<open>Of a request (\<open>mg_connection\<close>): the query string, the body up to its first NUL, and \<open>content_len\<close>.\<close>

record http_request =
  rq_query :: "byte list option"
  rq_content :: "byte list option"
  rq_content_len :: int

definition ParseData :: "heap_env \<Rightarrow> http_request \<Rightarrow> form_data \<Rightarrow> form_data option" where
  "ParseData H rq data = do {
     data1 \<leftarrow> (case rq_query rq of Some q \<Rightarrow> queryStringParse H q data | None \<Rightarrow> Some data);
     (case rq_content rq of
        Some body \<Rightarrow> (if rq_content_len rq > 0 then queryStringParse H (take (nat (rq_content_len rq)) body) data1 else Some data1)
      | None \<Rightarrow> Some data1) }"

definition GetData :: "byte list \<Rightarrow> form_data \<Rightarrow> byte list" where
  "GetData key data = (case omap_find data key of Some v \<Rightarrow> v | None \<Rightarrow> [])"

text \<open>A number that does not fit the variable is undefined.\<close>

definition scan_to :: "nat \<Rightarrow> nat \<Rightarrow> byte list \<Rightarrow> int \<Rightarrow> int option" where
  "scan_to bits w str def = (case scan_dec w str of
     None \<Rightarrow> Some def
   | Some v \<Rightarrow> (if - (2 ^ (bits - 1)) \<le> v \<and> v < 2 ^ (bits - 1) then Some v else None))"

definition GetIntData :: "byte list \<Rightarrow> int \<Rightarrow> form_data \<Rightarrow> int option" where
  "GetIntData key def data = (case omap_find data key of None \<Rightarrow> Some def | Some v \<Rightarrow> scan_to 32 10 v def)"

definition GetInt64Data :: "byte list \<Rightarrow> int \<Rightarrow> form_data \<Rightarrow> int option" where
  "GetInt64Data key def data = (case omap_find data key of None \<Rightarrow> Some def | Some v \<Rightarrow> scan_to 64 20 v def)"

text \<open>The overload for \<open>const char*\<close> calls \<open>GetIntData\<close>.\<close>

definition GetInt64Data_cstr :: "byte list \<Rightarrow> int \<Rightarrow> form_data \<Rightarrow> int option" where
  "GetInt64Data_cstr key def data = GetIntData key (sint (word_of_int def :: 32 word)) data"

end
