(* ===== verification/Http_Query_Props.thy ===== *)
theory Http_Query_Props
  imports Http_Query
begin

text \<open>
  What the query parser stores, when it loses characters and when it leaves its memory.
\<close>

subsection \<open>Decoding\<close>

text \<open>The characters a value stands for; \<^const>\<open>None\<close> when a percent sign is not followed by two hexadecimal digits.\<close>

fun url_decode :: "byte list \<Rightarrow> int list option" where
  "url_decode [] = Some []"
| "url_decode (b # bs) =
     (if b = 0x25 then (case bs of
        x # y # r \<Rightarrow> (case hex_digit x of None \<Rightarrow> None | Some v \<Rightarrow> (case hex_digit y of None \<Rightarrow> None
          | Some w \<Rightarrow> map_option ((#) (16 * v + w)) (url_decode r)))
      | _ \<Rightarrow> None)
      else map_option ((#) (if b = 0x2B then 0x20 else sint b)) (url_decode bs))"

lemma hex_digit_range: "hex_digit x = Some v \<Longrightarrow> 0x30 \<le> x \<and> x \<le> 0x66"
  by (auto simp: hex_digit_def word_le_nat_alt split: if_splits)

lemma hex_digit_not [simp]: "hex_digit 0 = None" "hex_digit 0x2D = None" "hex_digit 0x2B = None" "hex_digit 0x78 = None" "hex_digit 0x58 = None"
  by (simp_all add: hex_digit_def)

lemma scan_two_digits:
  assumes "hex_digit x = Some v" "hex_digit y = Some w"
  shows "scan_2x (takeWhile (\<lambda>z. z \<noteq> 0) [x, y]) = Some (Some (16 * v + w))"
proof -
  have n: "x \<noteq> 0" "y \<noteq> 0" "x \<noteq> 0x2D" "x \<noteq> 0x2B" "y \<noteq> 0x78" "y \<noteq> 0x58"
    using assms by auto
  have "\<not> is_space x"
  proof
    assume "is_space x"
    then have "x \<le> 0x20" by (auto simp: is_space_def intro: order_trans)
    then have "(0x30 :: byte) \<le> 0x20" using hex_digit_range[OF assms(1)] by (blast intro: order_trans)
    then show False by simp
  qed
  then show ?thesis using n assms by (simp add: scan_2x_def)
qed

primrec emit :: "nat \<Rightarrow> int list \<Rightarrow> nat \<Rightarrow> byte list \<Rightarrow> byte list option" where
  "emit n [] pos out = Some out"
| "emit n (d # ds) pos out = (case snprintf_to n pos (escape d) out of
     None \<Rightarrow> None
   | Some out' \<Rightarrow> (if 2 ^ 31 \<le> pos + length (escape d) then None else emit n ds (pos + length (escape d)) out'))"

lemma value_loop_emit:
  "url_decode val = Some ds \<Longrightarrow> 0 \<notin> set val \<Longrightarrow> value_loop n (val @ 0 # post) c pos out = emit n ds pos out"
proof (induction val arbitrary: ds c pos out rule: url_decode.induct)
  case 1
  then show ?case by simp
next
  case (2 b bs)
  show ?case
  proof (cases "b = 0x25")
    case True
    then obtain x y r v w es where r: "bs = x # y # r" "hex_digit x = Some v" "hex_digit y = Some w" "url_decode r = Some es"
      "ds = (16 * v + w) # es"
      using 2(3) by (auto split: list.splits option.splits)
    have "next_char b (bs @ 0 # post) c = Some (16 * v + w, r @ 0 # post)"
      using True scan_two_digits[OF r(2,3)] by (simp add: next_char_def r(1) del: takeWhile.simps)
    moreover have "value_loop n (r @ 0 # post) c' pos' out' = emit n es pos' out'" for c' pos' out'
      by (rule 2(1)[OF True r(1) refl r(2,3,4)]) (use 2(4) r(1) in simp)
    ultimately show ?thesis using True 2(4) by (simp add: r(5) split: option.split Option.bind_split)
  next
    case False
    then obtain es where es: "url_decode bs = Some es" "ds = (if b = 0x2B then 0x20 else sint b) # es" using 2(3) by auto
    have "value_loop n (bs @ 0 # post) c' pos' out' = emit n es pos' out'" for c' pos' out'
      by (rule 2(2)[OF False es(1)]) (use 2(4) in simp)
    then show ?thesis using False 2(4) es(2) by (simp add: next_char_def split: option.split Option.bind_split)
  qed
qed

subsection \<open>The block of the value\<close>

definition pad :: "nat \<Rightarrow> byte list \<Rightarrow> byte list" where
  "pad n w = take n w @ replicate (n + 1 - min n (length w)) 0"

lemma length_pad [simp]: "length (pad n w) = n + 1"
  by (simp add: pad_def)

lemma length_escape: "1 \<le> length (escape c)" "length (escape c) \<le> 2"
  by (simp_all add: escape_def)

lemma memcpy_at_left:
  "pos + length str \<le> length a \<Longrightarrow> memcpy_at (a @ rest) pos str = Some (take pos a @ str @ drop (pos + length str) a @ rest)"
  by (simp add: memcpy_at_def)

lemma memcpy_at_right:
  assumes "length a \<le> pos" "pos + length str \<le> length a + length rest"
  shows "\<exists>rest'. length rest' = length rest \<and> memcpy_at (a @ rest) pos str = Some (a @ rest')"
  using assms
  by (intro exI[of _ "take (pos - length a) rest @ str @ drop (pos - length a + length str) rest"]) (auto simp: memcpy_at_def)

text \<open>What one character does to the value: it is cut at \<open>n\<close> bytes, and from there on the size wraps and the
  characters go to the bytes behind.\<close>

lemma snprintf_step:
  assumes "length w \<le> n + 1 \<or> length w + length str < n + 1 + length rest \<and> length w < 2 ^ 62 \<and> length str \<le> 2"
  shows "\<exists>rest'. length rest' = length rest \<and> snprintf_to n (length w) str (pad n w @ rest) = Some (pad n (w @ str) @ rest')"
proof (cases "length w \<le> n")
  case True
  let ?t = "take (n - length w) str"
  have t: "length ?t \<le> n - length w" by simp
  have p: "pad n w = w @ replicate (n + 1 - length w) 0" using True by (simp add: pad_def)
  have "memcpy_at (pad n w @ rest) (length w) (?t @ [0]) = Some ((w @ ?t @ 0 # replicate (n + 1 - length w - (length ?t + 1)) 0) @ rest)"
    using True t by (subst memcpy_at_left) (simp_all add: p)
  moreover have "replicate (n + 1 - min n (length (w @ str))) 0 = (0 :: byte) # replicate (n + 1 - length w - (length ?t + 1)) 0"
    using True by (auto simp: min_def Suc_diff_le simp flip: replicate_Suc)
  ultimately show ?thesis using True by (simp add: snprintf_to_def pad_def)
next
  case False
  then have p: "pad n (w @ str) = pad n w" by (simp add: pad_def)
  show ?thesis
  proof (cases "length w = n + 1")
    case True
    then show ?thesis by (simp add: snprintf_to_def p)
  next
    case behind: False
    then have l: "n + 1 < length w" "length w + length str < n + 1 + length rest" "length w < 2 ^ 62" "length str \<le> 2"
      using False assms by auto
    let ?size = "2 ^ 64 - (length w - (n + 1))"
    have "?size \<noteq> 0" "take (?size - 1) str = str" using l by simp_all
    then have "snprintf_to n (length w) str (pad n w @ rest) = memcpy_at (pad n w @ rest) (length w) (str @ [0])"
      using l(1) by (simp only: snprintf_to_def Let_def if_False not_le[symmetric] if_not_P)
    moreover have "\<exists>rest'. length rest' = length rest \<and> memcpy_at (pad n w @ rest) (length w) (str @ [0]) = Some (pad n w @ rest')"
      by (rule memcpy_at_right) (use l in simp_all)
    ultimately show ?thesis by (simp add: p)
  qed
qed

lemma emit_result:
  assumes "length w + 2 * length ds \<le> 2 * n" "n < 2 ^ 30" "length rest = 7 * (n + 1)"
  shows "\<exists>rest'. emit n ds (length w) (pad n w @ rest) = Some (pad n (w @ concat (map escape ds)) @ rest')"
  using assms(1,3)
proof (induction ds arbitrary: w rest)
  case (Cons d ds)
  have e: "length (escape d) \<le> 2" by (rule length_escape)
  obtain r where r: "length r = length rest" "snprintf_to n (length w) (escape d) (pad n w @ rest) = Some (pad n (w @ escape d) @ r)"
    using snprintf_step[of w n "escape d" rest] Cons.prems assms(2) e by fastforce
  have "length (w @ escape d) + 2 * length ds \<le> 2 * n" using Cons.prems(1) e by simp
  from Cons.IH[OF this] r(1) Cons.prems obtain r' where
    "emit n ds (length (w @ escape d)) (pad n (w @ escape d) @ r) = Some (pad n ((w @ escape d) @ concat (map escape ds)) @ r')" by fastforce
  moreover have "length w + length (escape d) < 2 ^ 31" using Cons.prems(1) assms(2) e by simp
  ultimately show ?case using r(2) by simp
qed auto

definition stored :: "nat \<Rightarrow> int list \<Rightarrow> byte list" where
  "stored n ds = takeWhile (\<lambda>b. b \<noteq> 0) (take n (concat (map escape ds)))"

lemma takeWhile_pad: "takeWhile (\<lambda>b. b \<noteq> 0) (pad n w @ rest) = takeWhile (\<lambda>b. b \<noteq> 0) (take n w)"
proof -
  have "pad n w @ rest = take n w @ 0 # replicate (n - min n (length w)) 0 @ rest"
    by (simp add: pad_def Suc_diff_le)
  then show ?thesis by (simp add: takeWhile_append takeWhile_eq_all_conv[THEN iffD2])
qed

lemma emit_stored:
  assumes "length ds \<le> n" "n < 2 ^ 30"
  shows "map_option (takeWhile (\<lambda>b. b \<noteq> 0)) (emit n ds 0 (replicate (8 * (n + 1)) 0)) = Some (stored n ds)"
proof -
  have p: "replicate (8 * (n + 1)) 0 = pad n [] @ replicate (7 * (n + 1)) 0"
    by (simp add: pad_def add.commute flip: replicate_add replicate_Suc)
  show ?thesis
    unfolding p using emit_result[of "[]" ds n "replicate (7 * (n + 1)) 0"] assms by (auto simp: stored_def takeWhile_pad)
qed

lemma url_decode_length: "url_decode v = Some ds \<Longrightarrow> length ds \<le> length v"
proof (induction v arbitrary: ds rule: url_decode.induct)
  case (2 b bs)
  then show ?case by (fastforce split: if_splits list.splits option.splits)
qed simp

subsection \<open>The pieces of a query\<close>

lemma dropWhile_shorter: "dropWhile P xs = y # ys \<Longrightarrow> length ys < length xs"
  using length_dropWhile_le[of P xs] by simp

function pieces :: "byte list \<Rightarrow> byte list list" where
  "pieces xs = (case dropWhile (\<lambda>b. b = 0x26) xs of
     [] \<Rightarrow> []
   | y # ys \<Rightarrow> (y # takeWhile (\<lambda>b. b \<noteq> 0x26) ys) # pieces (dropWhile (\<lambda>b. b \<noteq> 0x26) ys))"
  by pat_completeness auto
termination
proof (relation "measure length", simp, simp)
  fix xs ys :: "byte list" and y assume "dropWhile (\<lambda>b. b = 0x26) xs = y # ys"
  then have "length ys < length xs" by (rule dropWhile_shorter)
  then show "length (dropWhile (\<lambda>b. b \<noteq> 0x26) ys) < length xs" using length_dropWhile_le le_less_trans by blast
qed

declare pieces.simps [simp del]

lemma pieces_Nil [simp]: "pieces [] = []"
  by (simp add: pieces.simps)

lemma pieces_amp [simp]: "pieces (0x26 # xs) = pieces xs"
  by (simp add: pieces.simps[of "0x26 # xs"] pieces.simps[of xs])

lemma pieces_token:
  assumes "t \<noteq> []" "0x26 \<notin> set t"
  shows "pieces (t @ 0x26 # xs) = t # pieces xs" "pieces t = [t]"
proof -
  obtain y ys where t: "t = y # ys" using assms(1) by (cases t) auto
  have y: "y \<noteq> 0x26" "\<forall>b\<in>set ys. b \<noteq> 0x26" using assms(2) t by auto
  then show "pieces (t @ 0x26 # xs) = t # pieces xs" "pieces t = [t]"
    by (simp_all add: pieces.simps[of "y # ys @ 0x26 # xs"] pieces.simps[of "y # ys"] t takeWhile_append dropWhile_append
        dropWhile_eq_Nil_conv[THEN iffD2])
qed

text \<open>Key and value of a piece; a piece without an equals sign has none.\<close>

definition pair_of :: "byte list \<Rightarrow> (byte list \<times> byte list) option" where
  "pair_of t = (let k = takeWhile (\<lambda>b. b \<noteq> 0x3D) t in if k = t then None else Some (k, drop (length k + 1) t))"

text \<open>What a piece stores.\<close>

definition store_piece :: "byte list \<Rightarrow> form_data \<Rightarrow> form_data" where
  "store_piece t data = (case pair_of t of
     None \<Rightarrow> data
   | Some (k, v) \<Rightarrow> (case url_decode v of None \<Rightarrow> data | Some ds \<Rightarrow> omap_put k (stored (length v) ds) data))"

definition well_formed :: "byte list \<Rightarrow> bool" where
  "well_formed t \<longleftrightarrow> (case pair_of t of None \<Rightarrow> True | Some (k, v) \<Rightarrow> url_decode v \<noteq> None)"

lemma pair_of_split:
  "pair_of t = Some (k, v) \<Longrightarrow> t = k @ 0x3D # v \<and> 0x3D \<notin> set k"
proof -
  assume p: "pair_of t = Some (k, v)"
  then have k: "k = takeWhile (\<lambda>b. b \<noteq> 0x3D) t" "k \<noteq> t" "v = drop (length k + 1) t" by (auto simp: pair_of_def Let_def split: if_splits)
  then obtain y ys where d: "dropWhile (\<lambda>b. b \<noteq> 0x3D) t = y # ys"
    using takeWhile_dropWhile_id[of "\<lambda>b. b \<noteq> 0x3D" t] by (cases "dropWhile (\<lambda>b. b \<noteq> 0x3D) t") auto
  then have "y = 0x3D" using hd_dropWhile[of "\<lambda>b. b \<noteq> 0x3D" t] by simp
  then have t: "t = k @ 0x3D # ys" using d k(1) takeWhile_dropWhile_id[of "\<lambda>b. b \<noteq> 0x3D" t] by simp
  moreover have "v = ys" using k(3) by (subst (asm) t) simp
  moreover have "0x3D \<notin> set k" unfolding k(1) by (auto dest: set_takeWhileD)
  ultimately show ?thesis by simp
qed

lemma pair_of_None: "pair_of t = None \<Longrightarrow> 0x3D \<notin> set t"
  by (auto simp: pair_of_def Let_def takeWhile_eq_all_conv split: if_splits)

lemma takeWhile_until: "\<forall>x\<in>set xs. P x \<Longrightarrow> \<not> P y \<Longrightarrow> takeWhile P (xs @ y # ys) = xs"
  by (simp add: takeWhile_append)

text \<open>The parser on the piece that starts at index \<open>s\<close>.\<close>

lemma parse_piece:
  assumes "heap_ok H" "length pre = s" "0 \<notin> set t" "t \<noteq> []" "well_formed t" "length t < 2 ^ 30"
  shows "\<exists>t'. length t' = length t \<and> parse_pair H (pre @ t @ 0 # post) s =
    Some (pre @ t' @ 0 # post, map_option (\<lambda>(k, v). (k, stored (length v) (the (url_decode v)))) (pair_of t))"
proof (cases "pair_of t")
  case None
  then have n: "takeWhile (\<lambda>b. b \<noteq> 0 \<and> b \<noteq> 0x3D) (t @ 0 # post) = t"
    using pair_of_None[OF None] assms(3) by (intro takeWhile_until) auto
  show ?thesis
    by (rule exI[of _ t]) (use n assms(2) in \<open>simp add: None parse_pair_def Let_def nth_append\<close>)
next
  case (Some kv)
  then obtain k v where kv: "pair_of t = Some (k, v)" by (cases kv) auto
  note t = pair_of_split[OF kv]
  obtain ds where ds: "url_decode v = Some ds" using assms(5) by (auto simp: well_formed_def kv)
  have z: "0 \<notin> set k" "0 \<notin> set v" using assms(3) t by auto
  have n: "takeWhile (\<lambda>b. b \<noteq> 0 \<and> b \<noteq> 0x3D) (k @ 0x3D # v @ 0 # post) = k"
    using t z by (intro takeWhile_until) auto
  have v: "takeWhile (\<lambda>b. b \<noteq> 0) (v @ 0 # post) = v" using z by (intro takeWhile_until) auto
  let ?mem = "pre @ t @ 0 # post"
  have at: "drop s ?mem = k @ 0x3D # v @ 0 # post" "?mem ! (s + length k) = 0x3D" "s + length k < length ?mem"
    "?mem[s + length k := 0] = pre @ (k @ 0 # v) @ 0 # post"
    using assms(2) t by (simp_all add: nth_append list_update_append)
  have d: "drop (s + length k + 1) (pre @ (k @ 0 # v) @ 0 # post) = v @ 0 # post" using assms(2) by simp
  have "parse_pair H ?mem s = map_option (\<lambda>out. (pre @ (k @ 0 # v) @ 0 # post, Some (k, takeWhile (\<lambda>b. b \<noteq> 0) out)))
      (emit (length v) ds 0 (replicate (8 * (length v + 1)) 0))"
    unfolding parse_pair_def Let_def at(1) n at(4) d v calloc_block_ok[OF assms(1)] value_loop_emit[OF ds z(2)]
    using at(2,3) by simp
  also have "\<dots> = map_option (\<lambda>x. (pre @ (k @ 0 # v) @ 0 # post, Some (k, x)))
      (map_option (takeWhile (\<lambda>b. b \<noteq> 0)) (emit (length v) ds 0 (replicate (8 * (length v + 1)) 0)))"
    by (simp add: option.map_comp comp_def)
  also have "\<dots> = Some (pre @ (k @ 0 # v) @ 0 # post, Some (k, stored (length v) ds))"
    using assms(6) t url_decode_length[OF ds] by (subst emit_stored) simp_all
  finally have e: "parse_pair H ?mem s = \<dots>" .
  have "length (k @ 0 # v) = length t" using t by simp
  then show ?thesis by (intro exI[of _ "k @ 0 # v"] conjI) (simp_all only: e kv ds option.map prod.case option.sel)
qed

lemma strtok_token:
  assumes "\<forall>b\<in>set amps. b = 0x26" "t \<noteq> []" "0 \<notin> set t" "0x26 \<notin> set t" "x = 0 \<or> x = 0x26"
  shows "strtok (pre @ amps @ t @ x # tail) (length pre) =
    Some (Some (length (pre @ amps), pre @ amps @ t @ 0 # tail, length (pre @ amps @ t) + (if x = 0 then 0 else 1)))"
proof -
  let ?mem = "pre @ amps @ t @ x # tail"
  obtain y ys where t: "t = y # ys" using assms(2) by (cases t) auto
  have y: "y \<noteq> 0x26" "y \<noteq> 0" using assms(3,4) t by auto
  have a: "takeWhile (\<lambda>b. b = 0x26) (drop (length pre) ?mem) = amps"
    using assms(1) y by (simp add: t takeWhile_until)
  have d: "drop (length pre + length amps) ?mem = t @ x # tail" by simp
  have tk: "takeWhile (\<lambda>b. b \<noteq> 0 \<and> b \<noteq> 0x26) (t @ x # tail) = t"
    using assms(3-5) by (intro takeWhile_until) auto
  have at: "?mem ! (length pre + length amps) = y" "?mem ! (length pre + length amps + length t) = x"
    "?mem[length pre + length amps + length t := 0] = pre @ amps @ t @ 0 # tail"
    by (simp_all add: nth_append list_update_append t)
  show ?thesis
    unfolding strtok_def Let_def a d tk at using y(2) assms(5) by (auto simp: t)
qed

lemma query_loop_step:
  assumes "heap_ok H" "\<forall>b\<in>set amps. b = 0x26" "t \<noteq> []" "0 \<notin> set t" "0x26 \<notin> set t" "x = 0 \<or> x = 0x26" "well_formed t"
    "length t < 2 ^ 30"
  shows "\<exists>t'. length t' = length t \<and> query_loop H (pre @ amps @ t @ x # tail) (length pre) data =
    query_loop H (pre @ amps @ t' @ 0 # tail) (length (pre @ amps @ t') + (if x = 0 then 0 else 1)) (store_piece t data)"
proof -
  obtain t' where t': "length t' = length t" "parse_pair H ((pre @ amps) @ t @ 0 # tail) (length (pre @ amps)) =
    Some ((pre @ amps) @ t' @ 0 # tail, map_option (\<lambda>(k, v). (k, stored (length v) (the (url_decode v)))) (pair_of t))"
    using parse_piece[OF assms(1) refl assms(4,3,7,8)] by blast
  have "url_decode v \<noteq> None" if "pair_of t = Some (k, v)" for k v
    using assms(7) that by (simp add: well_formed_def)
  then show ?thesis
    using t' by (intro exI[of _ t'])
      (auto simp: query_loop.simps[of H "pre @ amps @ t @ x # tail"] strtok_token[OF assms(2-6)] store_piece_def
        split: option.splits)
qed

lemma query_loop_end: "\<forall>b\<in>set amps. b = 0x26 \<Longrightarrow> query_loop H (pre @ amps @ [0]) (length pre) data = Some data"
  by (simp add: query_loop.simps[of H "pre @ amps @ [0]"] strtok_def Let_def takeWhile_until nth_append)

lemma query_loop_result:
  assumes "heap_ok H"
  shows "0 \<notin> set rest \<Longrightarrow> \<forall>t\<in>set (pieces rest). well_formed t \<Longrightarrow> length rest < 2 ^ 30 \<Longrightarrow>
    query_loop H (pre @ rest @ [0]) (length pre) data = Some (fold store_piece (pieces rest) data)"
proof (induction "length rest" arbitrary: rest pre data rule: less_induct)
  case less
  let ?amps = "takeWhile (\<lambda>b. b = 0x26) rest"
  have amps: "\<forall>b\<in>set ?amps. b = 0x26" by (auto dest: set_takeWhileD)
  show ?case
  proof (cases "dropWhile (\<lambda>b. b = 0x26) rest")
    case Nil
    then have "\<forall>b\<in>set rest. b = 0x26" by (simp add: dropWhile_eq_Nil_conv)
    from query_loop_end[OF this] show ?thesis by (simp add: pieces.simps[of rest] Nil)
  next
    case (Cons y ys)
    let ?t = "y # takeWhile (\<lambda>b. b \<noteq> 0x26) ys" and ?after = "dropWhile (\<lambda>b. b \<noteq> 0x26) ys"
    have rest: "rest = ?amps @ ?t @ ?after" using takeWhile_dropWhile_id[of "\<lambda>b. b = 0x26" rest] Cons by simp
    have "y \<noteq> 0x26" using Cons hd_dropWhile[of "\<lambda>b. b = 0x26" rest] by simp
    then have t: "?t \<noteq> []" "0x26 \<notin> set ?t" by (auto dest: set_takeWhileD)
    have "set rest = set ?amps \<union> set ?t \<union> set ?after" by (subst rest) (simp only: set_append Un_assoc)
    then have z: "0 \<notin> set ?t" "0 \<notin> set ?after" using less.prems(1) by blast+
    have p: "pieces rest = ?t # pieces ?after" by (simp add: pieces.simps[of rest] Cons)
    have wf: "well_formed ?t" "\<forall>t\<in>set (pieces ?after). well_formed t" using less.prems(2) by (simp_all add: p)
    have "length rest = length ?amps + length ?t + length ?after" by (subst rest) (simp only: length_append add.assoc)
    then have lt: "length ?t < 2 ^ 30" using less.prems(3) by linarith
    show ?thesis
    proof (cases ?after)
      case after: Nil
      obtain t' where s: "query_loop H (pre @ ?amps @ ?t @ 0 # []) (length pre) data =
          query_loop H (pre @ ?amps @ t' @ 0 # []) (length (pre @ ?amps @ t') + (if (0 :: byte) = 0 then 0 else 1)) (store_piece ?t data)"
        using query_loop_step[OF assms amps t(1) z(1) t(2) disjI1[OF refl] wf(1) lt] by blast
      have "query_loop H (pre @ ?amps @ t' @ 0 # []) (length (pre @ ?amps @ t') + (if (0 :: byte) = 0 then 0 else 1)) d = Some d" for d
        using query_loop_end[of "[]" H "pre @ ?amps @ t'" d] by simp
      then have "query_loop H (pre @ ?amps @ ?t @ [0]) (length pre) data = Some (store_piece ?t data)"
        unfolding s .
      moreover have m: "pre @ rest @ [0] = pre @ ?amps @ ?t @ [0]" by (subst rest) (simp add: after)
      ultimately show ?thesis unfolding p after m by simp
    next
      case after: (Cons x a)
      have x: "x = 0x26" using hd_dropWhile[of "\<lambda>b. b \<noteq> 0x26" ys] after by simp
      obtain t' where s: "query_loop H (pre @ ?amps @ ?t @ x # a @ [0]) (length pre) data =
          query_loop H (pre @ ?amps @ t' @ 0 # a @ [0]) (length (pre @ ?amps @ t') + (if x = 0 then 0 else 1)) (store_piece ?t data)"
        using query_loop_step[OF assms amps t(1) z(1) t(2) disjI2[OF x] wf(1) lt] by blast
      have "length a < length rest" by (subst rest) (simp add: after)
      moreover have "0 \<notin> set a" "\<forall>t\<in>set (pieces a). well_formed t" using z(2) wf(2) by (simp_all add: after x)
      ultimately have i: "query_loop H (q @ a @ [0]) (length q) d = Some (fold store_piece (pieces a) d)" for q d
        using less.prems(3) by (intro less.hyps) simp_all
      have "query_loop H (pre @ ?amps @ t' @ 0 # a @ [0]) (Suc (length pre + (length ?amps + length t'))) d = Some (fold store_piece (pieces a) d)" for d
        using i[of "pre @ ?amps @ t' @ [0]" d] by simp
      then have "query_loop H (pre @ ?amps @ ?t @ x # a @ [0]) (length pre) data = Some (fold store_piece (?t # pieces a) data)"
        unfolding s by (simp add: x)
      moreover have m: "pre @ rest @ [0] = pre @ ?amps @ ?t @ x # a @ [0]" by (subst rest) (simp add: after)
      ultimately show ?thesis unfolding p after m by (simp add: x)
    qed
  qed
qed

lemma query_loop_all:
  assumes "heap_ok H" "0 \<notin> set query" "\<forall>t\<in>set (pieces query). well_formed t" "length query < 2 ^ 30"
  shows "queryStringParse H query data = Some (fold store_piece (pieces query) data)"
proof -
  have "drop n (0 # replicate n (0 :: byte)) = [0]" for n by (induction n) simp_all
  then have "memcpy_at (replicate (length query + 1) 0) 0 query = Some (query @ [0])"
    by (simp add: memcpy_at_def)
  then show ?thesis
    using query_loop_result[OF assms, of "[]" data]
    by (simp only: queryStringParse_def calloc_block_ok[OF assms(1)] bind.simps append_Nil list.size)
qed

text \<open>C17: on a query whose percent signs are all followed by two hexadecimal digits, \<open>queryStringParse\<close> is defined and is
  exactly this: the pieces between ampersands are taken in order; one without an equals sign is skipped; a
  value is decoded, its quotes, backslashes and newlines are escaped, and the result is cut to the length the
  value had in the query, so that escapes push characters out.\<close>

theorem queryStringParse_exact:
  assumes "heap_ok H" "0 \<notin> set query" "\<forall>t\<in>set (pieces query). well_formed t" "length query < 2 ^ 30"
  shows "queryStringParse H query data = Some (fold store_piece (pieces query) data)"
  by (rule query_loop_all[OF assms])

text \<open>\<open>n=it's\<close> loses its last letter.\<close>

theorem queryStringParse_exact_witness:
  "queryStringParse plenty [0x26, 0x6E, 0x3D, 0x69, 0x74, 0x27, 0x73, 0x26, 0x78] [] = Some [([0x6E], [0x69, 0x74, 0x5C, 0x27])]"
proof -
  have "\<forall>t\<in>set (pieces [0x26, 0x6E, 0x3D, 0x69, 0x74, 0x27, 0x73, 0x26, 0x78]). well_formed t" by code_simp
  then have "queryStringParse plenty [0x26, 0x6E, 0x3D, 0x69, 0x74, 0x27, 0x73, 0x26, 0x78] []
      = Some (fold store_piece (pieces [0x26, 0x6E, 0x3D, 0x69, 0x74, 0x27, 0x73, 0x26, 0x78]) [])"
    by (intro queryStringParse_exact) simp_all
  also have "\<dots> = Some [([0x6E], [0x69, 0x74, 0x5C, 0x27])]" by code_simp
  finally show ?thesis .
qed

subsection \<open>Encoded queries\<close>

definition hex_char :: "nat \<Rightarrow> byte" where
  "hex_char n = (if n < 10 then word_of_nat (0x30 + n) else word_of_nat (0x37 + n))"

definition pct :: "byte \<Rightarrow> byte list" where
  "pct b = [0x25, hex_char (unat b div 16), hex_char (unat b mod 16)]"

text \<open>A query with percent-encoded values.\<close>

fun encode_query :: "(byte list \<times> byte list) list \<Rightarrow> byte list" where
  "encode_query [] = []"
| "encode_query [(k, v)] = k @ 0x3D # concat (map pct v)"
| "encode_query ((k, v) # kvs) = (k @ 0x3D # concat (map pct v)) @ 0x26 # encode_query kvs"

lemma hex_char_digits: "list_all (\<lambda>n. hex_digit (hex_char n) = Some (int n) \<and> hex_char n \<noteq> 0 \<and> hex_char n \<noteq> 0x26) [0..<16]"
  by code_simp

lemma hex_char_digit:
  assumes "n < 16"
  shows "hex_digit (hex_char n) = Some (int n)" "hex_char n \<noteq> 0" "hex_char n \<noteq> 0x26"
proof -
  have "n \<in> set [0..<16]" using assms by simp
  from bspec[OF hex_char_digits[unfolded list_all_iff] this]
  show "hex_digit (hex_char n) = Some (int n)" "hex_char n \<noteq> 0" "hex_char n \<noteq> 0x26" by blast+
qed

lemma byte_halves: "unat (b :: byte) div 16 < 16" "unat (b :: byte) mod 16 < 16"
  using unsigned_less[of b, where ?'a = nat] by (simp_all add: less_mult_imp_div_less)

lemma url_decode_pct: "url_decode (concat (map pct v)) = Some (map uint v)"
proof (induction v)
  case (Cons b v)
  have "int (16 * (unat b div 16) + unat b mod 16) = int (unat b)" by (simp only: mult_div_mod_eq)
  then have u: "16 * int (unat b div 16) + int (unat b mod 16) = uint b"
    by (simp only: of_nat_add of_nat_mult of_nat_numeral uint_nat)
  have "concat (map pct (b # v)) = 0x25 # hex_char (unat b div 16) # hex_char (unat b mod 16) # concat (map pct v)"
    by (simp add: pct_def)
  then show ?case
    by (simp only: url_decode.simps if_True list.case hex_char_digit(1)[OF byte_halves(1)] hex_char_digit(1)[OF byte_halves(2)]
        option.case Cons.IH option.map u list.map refl)
qed simp

lemma pct_byte: "x \<in> set (pct b) \<Longrightarrow> x \<noteq> 0 \<and> x \<noteq> 0x26"
  using hex_char_digit(2,3)[OF byte_halves(1)[of b]] hex_char_digit(2,3)[OF byte_halves(2)[of b]] by (auto simp: pct_def)

lemma pct_bytes: "b \<in> set (concat (map pct v)) \<Longrightarrow> b \<noteq> 0 \<and> b \<noteq> 0x26"
  using pct_byte by (auto simp only: set_concat set_map)

lemma escape_uint: "0 \<notin> set (v :: byte list) \<Longrightarrow> 0 \<notin> set (concat (map escape (map uint v)))"
  by (auto simp: escape_def ucast_id split: if_splits)

lemma escape_short: "length (concat (map escape ds)) \<le> 2 * length ds"
proof (induction ds)
  case (Cons d ds)
  then show ?case using length_escape(2)[of d] by simp
qed simp

lemma store_encoded:
  assumes "0x3D \<notin> set k" "0 \<notin> set v"
  shows "store_piece (k @ 0x3D # concat (map pct v)) data = omap_put k (concat (map escape (map uint v))) data"
proof -
  let ?e = "concat (map pct v)" and ?w = "concat (map escape (map uint v))"
  have "takeWhile (\<lambda>b. b \<noteq> 0x3D) (k @ 0x3D # ?e) = k" using assms(1) by (intro takeWhile_until) auto
  then have p: "pair_of (k @ 0x3D # ?e) = Some (k, ?e)" by (simp add: pair_of_def Let_def)
  have len: "length ?e = 3 * length v" by (induction v) (simp_all add: pct_def)
  have w: "length ?w \<le> 2 * length v" using escape_short[of "map uint v"] by simp
  have "stored (length ?e) (map uint v) = ?w"
    using w escape_uint[OF assms(2)] by (auto simp: stored_def len takeWhile_eq_all_conv)
  then show ?thesis by (simp only: store_piece_def p option.case prod.case url_decode_pct)
qed

definition clean_pair :: "byte list \<times> byte list \<Rightarrow> bool" where
  "clean_pair kv \<longleftrightarrow> 0 \<notin> set (fst kv) \<and> 0x26 \<notin> set (fst kv) \<and> 0x3D \<notin> set (fst kv) \<and> 0 \<notin> set (snd kv)"

lemma encoded_piece:
  assumes "clean_pair (k, v)"
  shows "k @ 0x3D # concat (map pct v) \<noteq> []" "0x26 \<notin> set (k @ 0x3D # concat (map pct v))" "0 \<notin> set (k @ 0x3D # concat (map pct v))"
    "well_formed (k @ 0x3D # concat (map pct v))"
proof -
  show "k @ 0x3D # concat (map pct v) \<noteq> []" by simp
  show "0x26 \<notin> set (k @ 0x3D # concat (map pct v))" "0 \<notin> set (k @ 0x3D # concat (map pct v))"
    using assms pct_bytes[of _ v] by (auto simp: clean_pair_def)
  have "takeWhile (\<lambda>b. b \<noteq> 0x3D) (k @ 0x3D # concat (map pct v)) = k"
    using assms by (intro takeWhile_until) (auto simp: clean_pair_def)
  then show "well_formed (k @ 0x3D # concat (map pct v))"
    by (simp add: well_formed_def pair_of_def Let_def url_decode_pct)
qed

lemma encoded_pieces:
  "list_all clean_pair kvs \<Longrightarrow> pieces (encode_query kvs) = map (\<lambda>(k, v). k @ 0x3D # concat (map pct v)) kvs
     \<and> 0 \<notin> set (encode_query kvs)"
proof (induction kvs rule: encode_query.induct)
  case 1
  then show ?case by simp
next
  case (2 k v)
  then have c: "clean_pair (k, v)" by simp
  show ?case using pieces_token(2)[OF encoded_piece(1,2)[OF c]] encoded_piece(3)[OF c] by (simp only: encode_query.simps list.map prod.case) simp
next
  case (3 k v kv kvs)
  then have c: "clean_pair (k, v)" and i: "pieces (encode_query (kv # kvs)) = map (\<lambda>(k, v). k @ 0x3D # concat (map pct v)) (kv # kvs)"
    "0 \<notin> set (encode_query (kv # kvs))" by simp_all
  have "pieces (encode_query ((k, v) # kv # kvs)) = (k @ 0x3D # concat (map pct v)) # pieces (encode_query (kv # kvs))"
    unfolding encode_query.simps by (rule pieces_token(1)[OF encoded_piece(1,2)[OF c]])
  moreover have "0 \<notin> set (encode_query ((k, v) # kv # kvs))"
    unfolding encode_query.simps using encoded_piece(3)[OF c] i(2) by simp
  ultimately show ?case using i(1) by simp
qed

text \<open>A query whose values are percent-encoded is parsed to its keys and values, in order, a later pair
  replacing an earlier one of the same key, with every quote, backslash and newline of a value escaped.
  Nothing is lost.\<close>

theorem queryStringParse_roundtrip:
  assumes "heap_ok H" "list_all clean_pair kvs" "length (encode_query kvs) < 2 ^ 30"
  shows "queryStringParse H (encode_query kvs) data
    = Some (fold (\<lambda>(k, v). omap_put k (concat (map escape (map uint v)))) kvs data)"
proof -
  have run: "fold store_piece (map (\<lambda>(k, v). k @ 0x3D # concat (map pct v)) kvs) d
      = fold (\<lambda>(k, v). omap_put k (concat (map escape (map uint v)))) kvs d" for d
    unfolding fold_map using assms(2)
    by (intro fold_cong refl) (auto simp: fun_eq_iff store_encoded clean_pair_def list_all_iff comp_def split: prod.split)
  have p: "pieces (encode_query kvs) = map (\<lambda>(k, v). k @ 0x3D # concat (map pct v)) kvs" "0 \<notin> set (encode_query kvs)"
    using encoded_pieces[OF assms(2)] by simp_all
  have "\<forall>t\<in>set (pieces (encode_query kvs)). well_formed t"
    unfolding p(1) using assms(2) encoded_piece(4) by (auto simp: list_all_iff)
  from query_loop_all[OF assms(1) p(2) this assms(3)] show ?thesis unfolding p(1) run .
qed

theorem queryStringParse_roundtrip_witness:
  "queryStringParse plenty (encode_query [([0x61], [0x27, 0x41]), ([0x62], [0x26, 0x3D])]) []
     = Some [([0x61], [0x5C, 0x27, 0x41]), ([0x62], [0x26, 0x3D])]"
proof -
  have "list_all clean_pair [([0x61], [0x27, 0x41]), ([0x62], [0x26, 0x3D])]" by code_simp
  moreover have "length (encode_query [([0x61], [0x27, 0x41]), ([0x62], [0x26, 0x3D])]) < 2 ^ 30" by (simp add: pct_def)
  ultimately have "queryStringParse plenty (encode_query [([0x61], [0x27, 0x41]), ([0x62], [0x26, 0x3D])]) []
      = Some (fold (\<lambda>(k, v). omap_put k (concat (map escape (map uint v)))) [([0x61], [0x27, 0x41 :: byte]), ([0x62], [0x26, 0x3D])] [])"
    by (rule queryStringParse_roundtrip[OF heap_ok_plenty])
  also have "\<dots> = Some [([0x61], [0x5C, 0x27, 0x41]), ([0x62], [0x26, 0x3D])]" by code_simp
  finally show ?thesis .
qed

subsection \<open>A percent sign at the end of a value\<close>

definition plain :: "byte \<Rightarrow> bool" where
  "plain b \<longleftrightarrow> b \<notin> {0, 0x25, 0x2B, 0x5C, 0x27, 0x0A, 0x26, 0x3D}"

lemma escape_plain: "plain b \<Longrightarrow> escape (sint b) = [b]"
proof -
  assume b: "plain b"
  have ne: "sint b \<noteq> i" if "b \<noteq> word_of_int i" for i using that by auto
  have "sint b \<noteq> 10" "sint b \<noteq> 0x27" "sint b \<noteq> 0x5C" by (rule ne; use b in \<open>simp add: plain_def\<close>)+
  then show ?thesis by (simp add: escape_def)
qed

lemma url_decode_plain: "list_all plain xs \<Longrightarrow> url_decode xs = Some (map sint xs)"
  by (induction xs) (simp_all add: plain_def)

lemma pad_behind:
  assumes "n + 1 < length w" "length w < 2 ^ 62" "length str \<le> 2" "n + 1 + length rest \<le> length w + length str"
  shows "snprintf_to n (length w) str (pad n w @ rest) = None"
proof -
  let ?size = "2 ^ 64 - (length w - (n + 1))"
  have "?size \<noteq> 0" "take (?size - 1) str = str" using assms by simp_all
  then have "snprintf_to n (length w) str (pad n w @ rest) = memcpy_at (pad n w @ rest) (length w) (str @ [0])"
    using assms(1) by (simp only: snprintf_to_def Let_def if_False not_le[symmetric] if_not_P)
  then show ?thesis using assms(4) by (simp add: memcpy_at_def)
qed

text \<open>Characters that need no escape, up to the end of the block and past it.\<close>

lemma emit_plain:
  assumes "2 \<le> length rest" "n + length rest < 2 ^ 30" "\<forall>d\<in>set ds. length (escape d) = 1"
  shows "if ds = [] \<or> length w + length ds \<le> n + length rest
    then \<exists>rest'. emit n ds (length w) (pad n w @ rest) = Some (pad n (w @ concat (map escape ds)) @ rest')
    else length w < 2 ^ 30 \<longrightarrow> emit n ds (length w) (pad n w @ rest) = None"
  using assms
proof (induction ds arbitrary: w rest)
  case (Cons d ds)
  have e: "length (escape d) = 1" using Cons.prems(3) by simp
  show ?case
  proof (cases "length w < n + length rest")
    case True
    obtain r where r: "length r = length rest" "snprintf_to n (length w) (escape d) (pad n w @ rest) = Some (pad n (w @ escape d) @ r)"
      using snprintf_step[of w n "escape d" rest] True Cons.prems(1,2) e by fastforce
    have "emit n (d # ds) (length w) (pad n w @ rest) = emit n ds (length (w @ escape d)) (pad n (w @ escape d) @ r)"
      using r(2) e True Cons.prems(2) by simp
    then show ?thesis using Cons.IH[of r "w @ escape d"] Cons.prems r(1) e True by (auto split: if_splits)
  next
    case False
    then have "length w < 2 ^ 30 \<Longrightarrow> snprintf_to n (length w) (escape d) (pad n w @ rest) = None"
      using Cons.prems(1) e by (intro pad_behind) simp_all
    then show ?thesis using False by simp
  qed
qed auto

lemma scan_one_digit: "hex_digit h = Some v \<Longrightarrow> scan_2x (takeWhile (\<lambda>z. z \<noteq> 0) [h, 0]) = Some (Some v)"
proof -
  assume h: "hex_digit h = Some v"
  then have n: "h \<noteq> 0" "h \<noteq> 0x2D" "h \<noteq> 0x2B" by auto
  moreover have "\<not> is_space h"
  proof
    assume "is_space h"
    then have "h \<le> 0x20" by (auto simp: is_space_def intro: order_trans)
    then have "(0x30 :: byte) \<le> 0x20" using hex_digit_range[OF h] by (blast intro: order_trans)
    then show False by simp
  qed
  ultimately show ?thesis using h by (simp add: scan_2x_def)
qed

lemma value_loop_cut:
  assumes "hex_digit h = Some v" "v \<noteq> 10" "list_all plain xs" "xs \<noteq> []"
  shows "map_option (takeWhile (\<lambda>b. b \<noteq> 0)) (value_loop 2 (0x25 # h # 0 # xs @ [0]) None 0 (replicate 24 0))
    = (if length xs \<le> 22 then Some (takeWhile (\<lambda>b. b \<noteq> 0) [word_of_int v, hd xs]) else None)"
proof -
  have v: "0 \<le> v" "v \<le> 15" using assms(1)
    by (auto simp: hex_digit_def word_le_def split: if_splits)
  then have e: "escape v = [word_of_int v]" using assms(2) by (simp add: escape_def)
  have p: "replicate 24 0 = pad 2 [] @ replicate 21 0" by (simp add: pad_def flip: replicate_add)
  obtain r where r: "length r = 21" "snprintf_to 2 0 [word_of_int v] (replicate 24 0) = Some (pad 2 [word_of_int v] @ r)"
    using snprintf_step[of "[]" 2 "[word_of_int v]" "replicate 21 0"] p by auto
  have z: "0 \<notin> set xs" using assms(3) by (auto simp: list_all_iff plain_def)
  have "value_loop 2 (0x25 # h # 0 # xs @ [0]) None 0 (replicate 24 0) = value_loop 2 (xs @ [0]) (Some v) 1 (pad 2 [word_of_int v] @ r)"
    using r(2) e scan_one_digit[OF assms(1)] by (simp add: next_char_def del: takeWhile.simps)
  also have "\<dots> = emit 2 (map sint xs) 1 (pad 2 [word_of_int v] @ r)"
    by (rule value_loop_emit[OF url_decode_plain[OF assms(3)] z])
  finally have l: "value_loop 2 (0x25 # h # 0 # xs @ [0]) None 0 (replicate 24 0) = \<dots>" .
  have x: "\<forall>d\<in>set (map sint xs). length (escape d) = 1" "concat (map escape (map sint xs)) = xs"
    using assms(3) by (induction xs) (simp_all add: escape_plain)
  have "take 2 (word_of_int v # xs) = [word_of_int v, hd xs]" using assms(4) by (cases xs) simp_all
  then show ?thesis
    unfolding l using emit_plain[OF _ _ x(1), of r 2 "[word_of_int v]"] r(1) assms(4)
    by (auto simp: x(2)[simplified] takeWhile_pad split: if_splits)
qed

text \<open>A percent sign that is followed by one hexadecimal digit at the end of a value makes the parser read on
  behind the end of its token: the next characters of the query become part of the value, and with more than
  twenty-two of them it writes outside the block of the value.\<close>

theorem queryStringParse_overrun:
  assumes "heap_ok H" "0 \<notin> set k" "0x26 \<notin> set k" "0x3D \<notin> set k" "hex_digit h = Some v" "v \<noteq> 10" "list_all plain xs" "xs \<noteq> []"
  shows "queryStringParse H (k @ [0x3D, 0x25, h, 0x26] @ xs) data =
    (if length xs \<le> 22 then Some (omap_put k (takeWhile (\<lambda>b. b \<noteq> 0) [word_of_int v, hd xs]) data) else None)"
proof -
  let ?t = "k @ [0x3D, 0x25, h]" and ?q = "k @ [0x3D, 0x25, h, 0x26] @ xs"
  have h: "h \<noteq> 0" "h \<noteq> 0x26" using assms(5) by (auto simp: hex_digit_def)
  have x: "0 \<notin> set xs" "0x26 \<notin> set xs" "0x3D \<notin> set xs" using assms(7) by (auto simp: list_all_iff plain_def)
  have "strtok ([] @ [] @ ?t @ 0x26 # xs @ [0]) (length ([] :: byte list)) = Some (Some (length ([] @ [] :: byte list), [] @ [] @ ?t @ 0 # xs @ [0], length ([] @ [] @ ?t) + (if (0x26 :: byte) = 0 then 0 else 1)))"
    using assms(2,3) h by (intro strtok_token) auto
  then have st: "strtok (?q @ [0]) 0 = Some (Some (0, ?t @ 0 # xs @ [0], length k + 4))" by simp
  have n: "takeWhile (\<lambda>b. b \<noteq> 0 \<and> b \<noteq> 0x3D) (?t @ 0 # xs @ [0]) = k"
    unfolding append_assoc append_Cons by (rule takeWhile_until) (use assms(2,4) in auto)
  have at: "(?t @ 0 # xs @ [0]) ! (0 + length k) = 0x3D" "drop (0 + length k + 1) ((?t @ 0 # xs @ [0])[0 + length k := 0]) = 0x25 # h # 0 # xs @ [0]"
    "(?t @ 0 # xs @ [0])[0 + length k := 0] = k @ 0 # 0x25 # h # 0 # xs @ [0]"
    by (simp_all add: nth_append list_update_append)
  have len: "length (takeWhile (\<lambda>b. b \<noteq> 0) (0x25 # h # 0 # xs @ [0])) = 2" "8 * (2 + 1) = (24 :: nat)" using h(1) by simp_all
  have "parse_pair H (?t @ 0 # xs @ [0]) 0 =
      map_option (\<lambda>out. (k @ 0 # 0x25 # h # 0 # xs @ [0], Some (k, takeWhile (\<lambda>b. b \<noteq> 0) out)))
        (value_loop 2 (0x25 # h # 0 # xs @ [0]) None 0 (replicate 24 0))"
    unfolding parse_pair_def Let_def drop_0 n calloc_block_ok[OF assms(1)] at len
    using h(1) by (simp del: value_loop.simps flip: numeral_2_eq_2)
  also have "\<dots> = map_option (\<lambda>w. (k @ 0 # 0x25 # h # 0 # xs @ [0], Some (k, w)))
      (map_option (takeWhile (\<lambda>b. b \<noteq> 0)) (value_loop 2 (0x25 # h # 0 # xs @ [0]) None 0 (replicate 24 0)))"
    by (simp add: option.map_comp comp_def)
  also have "\<dots> = (if length xs \<le> 22 then Some (k @ 0 # 0x25 # h # 0 # xs @ [0], Some (k, takeWhile (\<lambda>b. b \<noteq> 0) [word_of_int v, hd xs])) else None)"
    by (subst value_loop_cut[OF assms(5-8)]) simp
  finally have pp: "parse_pair H (?t @ 0 # xs @ [0]) 0 = \<dots>" .
  have "pieces xs = [xs]" by (rule pieces_token(2)[OF assms(8) x(2)])
  moreover have "pair_of xs = None"
    using x(3) by (auto simp: pair_of_def Let_def takeWhile_eq_all_conv)
  moreover have l4: "length (k @ [0, 0x25, h, 0]) = length k + 4" by simp
  ultimately have tail: "length xs \<le> 22 \<Longrightarrow> query_loop H (k @ 0 # 0x25 # h # 0 # xs @ [0]) (length k + 4) d = Some d" for d
    using query_loop_result[OF assms(1) x(1), of "k @ [0, 0x25, h, 0]" d, unfolded l4] by (simp add: well_formed_def store_piece_def)
  have "drop n (0 # replicate n (0 :: byte)) = [0]" for n by (induction n) simp_all
  then have "memcpy_at (replicate (length ?q + 1) 0) 0 ?q = Some (?q @ [0])" by (simp only: memcpy_at_def) simp
  then have "queryStringParse H ?q data = query_loop H (?q @ [0]) 0 data"
    by (simp only: queryStringParse_def calloc_block_ok[OF assms(1)] bind.simps)
  also have "\<dots> = (if length xs \<le> 22 then Some (omap_put k (takeWhile (\<lambda>b. b \<noteq> 0) [word_of_int v, hd xs]) data) else None)"
    using tail by (simp only: query_loop.simps[of H "?q @ [0]"] st option.case prod.case pp) (simp add: add.commute)
  finally show ?thesis .
qed

text \<open>\<open>a=%2&bc\<close> sets \<open>a\<close> to a character of the next parameter, too; twenty-three letters behind it are fatal.\<close>

theorem queryStringParse_overrun_witness:
  "queryStringParse plenty ([0x61] @ [0x3D, 0x25, 0x32, 0x26] @ [0x62, 0x63]) [] = Some [([0x61], [0x02, 0x62])]
   \<and> queryStringParse plenty ([0x61] @ [0x3D, 0x25, 0x32, 0x26] @ replicate 23 0x62) [] = None"
proof (rule conjI)
  have h: "hex_digit 0x32 = Some 2" by (simp add: hex_digit_def)
  show "queryStringParse plenty ([0x61] @ [0x3D, 0x25, 0x32, 0x26] @ [0x62, 0x63]) [] = Some [([0x61], [0x02, 0x62])]"
    by (subst queryStringParse_overrun[OF heap_ok_plenty _ _ _ h]) (simp_all add: plain_def)
  show "queryStringParse plenty ([0x61] @ [0x3D, 0x25, 0x32, 0x26] @ replicate 23 0x62) [] = None"
    by (subst queryStringParse_overrun[OF heap_ok_plenty _ _ _ h]) (simp_all add: plain_def list_all_iff)
qed

subsection \<open>Numbers in requests\<close>

text \<open>A number in decimal is read back, up to the width of the result; the overload of \<open>GetInt64Data\<close> for
  \<open>const char*\<close> reads thirty-two bits.\<close>

lemma GetInt_decimal:
  assumes "omap_find data key = Some (decimal n)"
  shows "n < 2 ^ 31 \<Longrightarrow> GetIntData key def data = Some (int n)"
    "n < 2 ^ 63 \<Longrightarrow> GetInt64Data key def data = Some (int n)"
    "2 ^ 31 \<le> n \<Longrightarrow> n < 10 ^ 10 \<Longrightarrow> GetInt64Data_cstr key def data = None"
proof -
  show "n < 2 ^ 31 \<Longrightarrow> GetIntData key def data = Some (int n)"
    using scan_decimal[of n 10] by (simp add: GetIntData_def assms scan_to_def)
  show "n < 2 ^ 63 \<Longrightarrow> GetInt64Data key def data = Some (int n)"
    using scan_decimal[of n 20] by (simp add: GetInt64Data_def assms scan_to_def)
  show "2 ^ 31 \<le> n \<Longrightarrow> n < 10 ^ 10 \<Longrightarrow> GetInt64Data_cstr key def data = None"
    using scan_decimal[of n 10] by (simp add: GetInt64Data_cstr_def GetIntData_def assms scan_to_def)
qed

end
