(* ===== verification/File_Monitor.thy ===== *)
theory File_Monitor
  imports C_Text
begin

text \<open>
  \<open>FileMonitor\<close> (\<open>framework/server/file_monitor.cpp\<close>): the modification times of a set of files are compared once a
  second by a thread of its own; the changes are handed to callbacks, by that thread or by the main thread in
  \<open>Update\<close>.  The file system is a parameter: the modification time of a file that can be opened.  A callback
  is an address; its calls are the result of the operation.
\<close>

datatype invoke_type = INVOKE_AT_MONITOR_THREAD | INVOKE_IN_UPDATE

datatype change_type = CHANGE_MODIFY | CHANGE_DELETE

type_synonym file_system = "byte list \<Rightarrow> int option"
type_synonym call = "nat \<times> byte list \<times> change_type \<times> nat"

record monitor =
  fm_files :: "(byte list \<times> int) list"
  fm_callbacks :: "(byte list \<times> nat) list"
  fm_changed :: "(byte list \<times> change_type) list"
  fm_para :: "(byte list \<times> nat) list"
  fm_thread :: bool
  fm_running :: bool
  fm_type :: invoke_type
  fm_last :: int

definition FileMonitor_new :: monitor where
  "FileMonitor_new = \<lparr>fm_files = [], fm_callbacks = [], fm_changed = [], fm_para = [], fm_thread = False, fm_running = False,
     fm_type = INVOKE_IN_UPDATE, fm_last = 0\<rparr>"

definition FM_Init :: "invoke_type \<Rightarrow> monitor \<Rightarrow> bool \<times> monitor" where
  "FM_Init t m = (if fm_thread m then (False, m) else (True, m\<lparr>fm_type := t\<rparr>))"

definition GetFileModTime :: "file_system \<Rightarrow> byte list \<Rightarrow> int" where
  "GetFileModTime fs f = (case fs f of None \<Rightarrow> 0 | Some t \<Rightarrow> t)"

definition AddFile :: "file_system \<Rightarrow> byte list \<Rightarrow> nat option \<Rightarrow> nat \<Rightarrow> monitor \<Rightarrow> bool \<times> monitor" where
  "AddFile fs f callback para m =
     (if f = [] then (False, m)
      else case callback of None \<Rightarrow> (False, m)
      | Some cb \<Rightarrow>
          if GetFileModTime fs f = 0 then (False, m)
          else (True, m\<lparr>fm_callbacks := omap_put f cb (fm_callbacks m), fm_files := omap_put f (GetFileModTime fs f) (fm_files m),
                  fm_para := omap_put f para (fm_para m)\<rparr>))"

definition DeleteFile :: "byte list \<Rightarrow> monitor \<Rightarrow> monitor" where
  "DeleteFile f m = m\<lparr>fm_files := omap_erase f (fm_files m), fm_callbacks := omap_erase f (fm_callbacks m), fm_para := omap_erase f (fm_para m)\<rparr>"

fun check_files :: "file_system \<Rightarrow> (byte list \<times> int) list \<Rightarrow> (byte list \<times> change_type) list
    \<Rightarrow> (byte list \<times> int) list \<times> (byte list \<times> change_type) list" where
  "check_files fs [] changed = ([], changed)"
| "check_files fs ((f, t) # rest) changed =
     (let modTime = GetFileModTime fs f in
      if modTime = 0 then check_files fs rest (omap_put f CHANGE_DELETE changed)
      else if t \<noteq> modTime then apfst ((#) (f, modTime)) (check_files fs rest (omap_put f CHANGE_MODIFY changed))
      else apfst ((#) (f, t)) (check_files fs rest changed))"

definition CheckModification :: "file_system \<Rightarrow> monitor \<Rightarrow> monitor" where
  "CheckModification fs m =
     (let (files, changed) = check_files fs (fm_files m) (fm_changed m) in m\<lparr>fm_files := files, fm_changed := changed\<rparr>)"

text \<open>\<open>mapFileCallback_[f]\<close> is a null pointer when \<open>f\<close> has no callback: calling it is undefined.\<close>

fun call_all :: "(byte list \<times> nat) list \<Rightarrow> (byte list \<times> nat) list \<Rightarrow> (byte list \<times> change_type) list \<Rightarrow> call list option" where
  "call_all cbs para [] = Some []"
| "call_all cbs para ((f, ch) # rest) = (case omap_find cbs f of
     None \<Rightarrow> None
   | Some cb \<Rightarrow> map_option ((#) (cb, f, ch, case omap_find para f of None \<Rightarrow> 0 | Some p \<Rightarrow> p)) (call_all cbs para rest))"

definition ProcessCallback :: "monitor \<Rightarrow> (call list \<times> monitor) option" where
  "ProcessCallback m = map_option (\<lambda>calls. (calls, m\<lparr>fm_changed := []\<rparr>)) (call_all (fm_callbacks m) (fm_para m) (fm_changed m))"

text \<open>One round of the monitor's thread at time \<open>now\<close>: nothing within a second of the last check.\<close>

definition FM_round :: "file_system \<Rightarrow> int \<Rightarrow> monitor \<Rightarrow> (call list \<times> monitor) option" where
  "FM_round fs now m =
     (if now - fm_last m < 1 then Some ([], m)
      else let m1 = CheckModification fs (m\<lparr>fm_last := now\<rparr>) in
        if fm_type m1 = INVOKE_AT_MONITOR_THREAD then ProcessCallback m1 else Some ([], m1))"

definition FM_Start :: "monitor \<Rightarrow> bool \<times> monitor" where
  "FM_Start m = (if fm_thread m \<or> fm_running m then (False, m) else (True, m\<lparr>fm_running := True, fm_thread := True\<rparr>))"

definition FM_Stop :: "monitor \<Rightarrow> bool \<times> monitor" where
  "FM_Stop m = (if \<not> fm_thread m \<or> \<not> fm_running m then (False, m) else (True, m\<lparr>fm_running := False\<rparr>))"

subsection \<open>Values in a file's text\<close>

text \<open>\<open>int\<close> from a \<open>size_t\<close>; \<open>npos\<close> is the greatest \<open>size_t\<close>.\<close>

definition to_int :: "nat \<Rightarrow> int" where
  "to_int n = sint (word_of_nat n :: 32 word)"

definition find_index :: "nat option \<Rightarrow> nat" where
  "find_index r = (case r of None \<Rightarrow> 2 ^ 64 - 1 | Some i \<Rightarrow> i)"

text \<open>\<open>content.substr(b, c)\<close> with \<open>int\<close>s that are converted to \<open>size_t\<close>: \<^const>\<open>None\<close> when it throws.\<close>

definition substr :: "byte list \<Rightarrow> int \<Rightarrow> int \<Rightarrow> byte list option" where
  "substr str b c =
     (if b < 0 \<or> int (length str) < b then None
      else Some (if c < 0 then drop (nat b) str else take (nat c) (drop (nat b) str)))"

definition GetValueWithKey :: "byte list \<Rightarrow> byte list \<Rightarrow> byte list \<Rightarrow> byte list option" where
  "GetValueWithKey content key value = (case str_find content key 0 of
     None \<Rightarrow> Some value
   | Some pos \<Rightarrow>
       let beginIndex = to_int ((find_index (str_find content [0x3D] pos) + 1) mod 2 ^ 64);
           endIndex = to_int (find_index (str_find content [0x0A] pos))
       in substr content beginIndex (endIndex - beginIndex))"

definition GetIntWithKey :: "byte list \<Rightarrow> byte list \<Rightarrow> int \<Rightarrow> int option" where
  "GetIntWithKey content key num = Option.bind (GetValueWithKey content key (show_int num)) c_atoi"

end
