(* ===== verification/File_Monitor_Props.thy ===== *)
theory File_Monitor_Props
  imports File_Monitor
begin

text \<open>
  What a check finds, when the callbacks can be called, and what is read from a file's text.
\<close>

subsection \<open>The check\<close>

lemma check_files_keys: "set (map fst (fst (check_files fs files changed))) \<subseteq> set (map fst files)"
proof (induction fs files changed rule: check_files.induct)
  case (2 fs f t rest changed)
  then show ?case unfolding check_files.simps Let_def by (auto simp del: set_map)
qed simp

lemma check_files_step [simp]:
  "fm_files (CheckModification fs m) = fst (check_files fs (fm_files m) (fm_changed m))"
  "fm_changed (CheckModification fs m) = snd (check_files fs (fm_files m) (fm_changed m))"
  by (simp_all add: CheckModification_def split_beta)

lemma check_files_ok: "omap_ok files \<Longrightarrow> omap_ok (fst (check_files fs files changed))"
proof (induction fs files changed rule: check_files.induct)
  case (2 fs f t rest changed)
  have k: "set (map fst (fst (check_files fs rest c))) \<subseteq> set (map fst rest)" for c by (rule check_files_keys)
  have "\<forall>x\<in>set (map fst rest). f < x" "omap_ok rest" using 2(4) by (simp_all add: omap_ok_def oset_ok_def)
  then have "\<forall>x\<in>set (map fst (fst (check_files fs rest c))). f < x" for c using k[of c] by blast
  then show ?case using 2(1-3) \<open>omap_ok rest\<close> by (simp add: Let_def omap_ok_def oset_ok_def)
qed simp

lemma check_files_changed_ok: "omap_ok changed \<Longrightarrow> omap_ok (snd (check_files fs files changed))"
  by (induction fs files changed rule: check_files.induct) (simp_all add: Let_def)

lemma check_files_find:
  "omap_ok files \<Longrightarrow> omap_find (fst (check_files fs files changed)) f =
     (if omap_find files f = None \<or> GetFileModTime fs f = 0 then None else Some (GetFileModTime fs f))"
proof (induction fs files changed rule: check_files.induct)
  case (2 fs g t rest changed)
  then have "g \<notin> fst ` set rest" "omap_ok rest" using omap_ok_distinct[OF 2(4)] by (auto simp: omap_ok_def oset_ok_def)
  then have "map_of rest g = None" "omap_ok rest" by (simp_all add: map_of_eq_None_iff)
  then show ?case using 2(1-3) by (auto simp: Let_def)
qed simp

lemma check_files_changed:
  "omap_ok files \<Longrightarrow> omap_find (snd (check_files fs files changed)) f =
     (case omap_find files f of None \<Rightarrow> omap_find changed f
      | Some t \<Rightarrow> if GetFileModTime fs f = 0 then Some CHANGE_DELETE
                 else if GetFileModTime fs f \<noteq> t then Some CHANGE_MODIFY else omap_find changed f)"
proof (induction fs files changed rule: check_files.induct)
  case (2 fs g t rest changed)
  then have "g \<notin> fst ` set rest" "omap_ok rest" using omap_ok_distinct[OF 2(4)] by (auto simp: omap_ok_def oset_ok_def)
  then have "map_of rest g = None" "omap_ok rest" by (simp_all add: map_of_eq_None_iff)
  then show ?case using 2(1-3) by (auto simp: Let_def split: option.split)
qed simp

text \<open>One check compares every file with what it was: a file that has gone is dropped and recorded as deleted, one
  with another time gets the new time and is recorded as modified, every other record of a change is kept; and
  a file that was dropped is never recorded again by a later check, also when it has come back.\<close>

theorem CheckModification_exact:
  assumes "omap_ok (fm_files m)"
  shows "omap_find (fm_files (CheckModification fs m)) f =
      (if omap_find (fm_files m) f = None \<or> GetFileModTime fs f = 0 then None else Some (GetFileModTime fs f))
    \<and> omap_find (fm_changed (CheckModification fs m)) f =
      (case omap_find (fm_files m) f of None \<Rightarrow> omap_find (fm_changed m) f
       | Some t \<Rightarrow> if GetFileModTime fs f = 0 then Some CHANGE_DELETE
                  else if GetFileModTime fs f \<noteq> t then Some CHANGE_MODIFY else omap_find (fm_changed m) f)
    \<and> (GetFileModTime fs f = 0 \<longrightarrow>
      omap_find (fm_changed (fold CheckModification rest ((CheckModification fs m)\<lparr>fm_changed := []\<rparr>))) f = None)"
proof -
  have later: "omap_ok (fm_files m') \<Longrightarrow> omap_find (fm_files m') f = None \<Longrightarrow> omap_find (fm_changed m') f = None
      \<Longrightarrow> omap_find (fm_changed (fold CheckModification rest m')) f = None" for m'
  proof (induction rest arbitrary: m')
    case (Cons fs' rest)
    then show ?case
      by (simp add: check_files_ok[OF Cons.prems(1)] check_files_find[OF Cons.prems(1)] check_files_changed[OF Cons.prems(1)])
  qed simp
  show ?thesis
    using later[of "(CheckModification fs m)\<lparr>fm_changed := []\<rparr>"]
    by (simp add: check_files_ok[OF assms] check_files_find[OF assms] check_files_changed[OF assms])
qed

theorem CheckModification_exact_witness:
  "omap_find (fm_changed (CheckModification (\<lambda>f. if f = [2] then Some 7 else None) (FileMonitor_new\<lparr>fm_files := [([1], 5), ([2], 5)]\<rparr>))) [1]
     = Some CHANGE_DELETE
   \<and> omap_find (fm_changed (CheckModification (\<lambda>f. if f = [2] then Some 7 else None) (FileMonitor_new\<lparr>fm_files := [([1], 5), ([2], 5)]\<rparr>))) [2]
     = Some CHANGE_MODIFY"
proof -
  have "omap_ok (fm_files (FileMonitor_new\<lparr>fm_files := [([1], 5), ([2], 5)]\<rparr>))" by (simp add: omap_ok_def oset_ok_def)
  from CheckModification_exact[OF this, THEN conjunct2, THEN conjunct1] show ?thesis by (simp only:) (simp add: GetFileModTime_def)
qed

subsection \<open>The monitor in use\<close>

text \<open>The operations in any order; a file may be deleted while no change of it is recorded.\<close>

inductive fm_reach :: "monitor \<Rightarrow> bool" where
  new: "fm_reach FileMonitor_new"
| init: "fm_reach m \<Longrightarrow> fm_reach (snd (FM_Init t m))"
| add: "fm_reach m \<Longrightarrow> fm_reach (snd (AddFile fs f cb p m))"
| delete: "fm_reach m \<Longrightarrow> omap_find (fm_changed m) f = None \<Longrightarrow> fm_reach (DeleteFile f m)"
| start: "fm_reach m \<Longrightarrow> fm_reach (snd (FM_Start m))"
| stop: "fm_reach m \<Longrightarrow> fm_reach (snd (FM_Stop m))"
| round: "fm_reach m \<Longrightarrow> FM_round fs now m = Some (calls, m') \<Longrightarrow> fm_reach m'"
| update: "fm_reach m \<Longrightarrow> ProcessCallback m = Some (calls, m') \<Longrightarrow> fm_reach m'"

definition fm_inv :: "monitor \<Rightarrow> bool" where
  "fm_inv m \<longleftrightarrow> omap_ok (fm_files m)
     \<and> (\<forall>f. (omap_find (fm_files m) f \<noteq> None \<longrightarrow> omap_find (fm_callbacks m) f \<noteq> None)
          \<and> (omap_find (fm_changed m) f \<noteq> None \<longrightarrow> omap_find (fm_callbacks m) f \<noteq> None)
          \<and> (omap_find (fm_para m) f = None \<longleftrightarrow> omap_find (fm_callbacks m) f = None))
     \<and> (fm_running m \<longrightarrow> fm_thread m)"

lemma call_all_defined: "(\<exists>calls. call_all cbs para changed = Some calls) \<longleftrightarrow> fst ` set changed \<subseteq> dom (omap_find cbs)"
  by (induction cbs para changed rule: call_all.induct) (auto split: option.splits)

lemma ProcessCallback_defined: "ProcessCallback m \<noteq> None \<longleftrightarrow> (\<forall>f. omap_find (fm_changed m) f \<noteq> None \<longrightarrow> omap_find (fm_callbacks m) f \<noteq> None)"
  using call_all_defined[of "fm_callbacks m" "fm_para m" "fm_changed m"] by (auto simp: ProcessCallback_def simp flip: omap_find_dom)

lemma ProcessCallback_inv: "fm_inv m \<Longrightarrow> ProcessCallback m = Some (calls, m') \<Longrightarrow> fm_inv m'"
  by (auto simp: fm_inv_def ProcessCallback_def)

lemma CheckModification_fields [simp]:
  "fm_callbacks (CheckModification fs m) = fm_callbacks m" "fm_para (CheckModification fs m) = fm_para m"
  "fm_type (CheckModification fs m) = fm_type m" "fm_thread (CheckModification fs m) = fm_thread m"
  "fm_running (CheckModification fs m) = fm_running m"
  by (simp_all add: CheckModification_def split: prod.split)

lemma CheckModification_inv: "fm_inv m \<Longrightarrow> fm_inv (CheckModification fs m)"
  by (auto simp: fm_inv_def check_files_find check_files_changed check_files_ok split: if_splits option.splits)

lemma FM_round_inv:
  assumes "fm_inv m"
  shows "FM_round fs now m \<noteq> None" "FM_round fs now m = Some (calls, m') \<Longrightarrow> fm_inv m'"
proof -
  let ?m = "CheckModification fs (m\<lparr>fm_last := now\<rparr>)"
  have "fm_inv (m\<lparr>fm_last := now\<rparr>)" using assms by (simp add: fm_inv_def)
  then have i: "fm_inv ?m" by (rule CheckModification_inv)
  then have d: "ProcessCallback ?m \<noteq> None" using ProcessCallback_defined[of ?m] by (simp only: fm_inv_def) blast
  show "FM_round fs now m \<noteq> None" using d by (simp add: FM_round_def Let_def)
  show "FM_round fs now m = Some (calls, m') \<Longrightarrow> fm_inv m'"
    using assms i ProcessCallback_inv[OF i] by (auto simp: FM_round_def Let_def split: if_splits)
qed

lemma fm_reach_inv: "fm_reach m \<Longrightarrow> fm_inv m"
proof (induction rule: fm_reach.induct)
  case (delete m f)
  then show ?case by (auto simp: fm_inv_def DeleteFile_def)
next
  case (add m fs f cb p)
  then show ?case by (auto simp: fm_inv_def AddFile_def split: option.splits)
next
  case (round m fs now calls m')
  then show ?case using FM_round_inv(2) by blast
next
  case (update m calls m')
  then show ?case using ProcessCallback_inv by blast
qed (auto simp: fm_inv_def FileMonitor_new_def FM_Init_def FM_Start_def FM_Stop_def)


definition demo_monitor :: monitor where
  "demo_monitor = snd (the (FM_round (\<lambda>f. Some 9) 100 (snd (AddFile (\<lambda>f. Some 5) [1] (Some 77) 3 FileMonitor_new))))"


subsection \<open>Values\<close>

lemma to_int_small [simp]: "n < 2 ^ 31 \<Longrightarrow> to_int n = int n"
  by (simp add: to_int_def signed_of_nat signed_take_bit_int_eq_self)

lemma str_find_char: "str_find content [c] pos = (if pos \<le> length content \<and> c \<in> set (drop pos content)
    then Some (pos + length (takeWhile (\<lambda>b. b \<noteq> c) (drop pos content))) else None)"
  by (simp add: str_find_def find_in_char)

text \<open>A line \<open>key=value\<close> of a file's text is read back, a number in decimal as that number; a key that does not
  occur gives the default.\<close>

theorem GetValueWithKey_line:
  assumes "length content < 2 ^ 31"
  shows "str_find content key 0 = Some (length pre) \<Longrightarrow> content = pre @ key @ 0x3D # val @ 0x0A # post \<Longrightarrow>
      0x3D \<notin> set key \<Longrightarrow> 0x0A \<notin> set key \<union> set val \<Longrightarrow> GetValueWithKey content key d = Some val"
    and "str_find content key 0 = Some (length pre) \<Longrightarrow> content = pre @ key @ 0x3D # show_int i @ 0x0A # post \<Longrightarrow>
      0x3D \<notin> set key \<Longrightarrow> 0x0A \<notin> set key \<Longrightarrow> - (2 ^ 31) \<le> i \<Longrightarrow> i < 2 ^ 31 \<Longrightarrow> GetIntWithKey content key n = Some i"
    and "str_find content key 0 = None \<Longrightarrow> GetValueWithKey content key d = Some d"
    and "str_find content key 0 = None \<Longrightarrow> - (2 ^ 31) \<le> n \<Longrightarrow> n < 2 ^ 31 \<Longrightarrow> GetIntWithKey content key n = Some n"
proof -
  have v: "GetValueWithKey content key d = Some val"
    if f: "str_find content key 0 = Some (length pre)" and c: "content = pre @ key @ 0x3D # val @ 0x0A # post"
      and n: "0x3D \<notin> set key" "0x0A \<notin> set key \<union> set val" for pre val post d
  proof -
    have b: "str_find content [0x3D] (length pre) = Some (length (pre @ key))"
      using n by (simp add: str_find_char c takeWhile_append)
    have "takeWhile (\<lambda>b. b \<noteq> 0x0A) ((key @ 0x3D # val) @ 0x0A # post) = key @ 0x3D # val"
      using n by (subst takeWhile_append) auto
    then have e: "str_find content [0x0A] (length pre) = Some (length (pre @ key @ 0x3D # val))"
      by (simp add: str_find_char c)
    have l: "length (pre @ key) + 1 < 2 ^ 31" "length (pre @ key @ 0x3D # val) < 2 ^ 31" using assms by (simp_all add: c)
    have "nat (int (length (pre @ key) + 1)) = length ((pre @ key) @ [0x3D])" by simp
    moreover have "content = ((pre @ key) @ [0x3D]) @ val @ 0x0A # post" by (simp add: c)
    moreover have "drop (length xs) (xs @ ys) = ys" for xs ys :: "byte list" by simp
    ultimately have "drop (nat (int (length (pre @ key) + 1))) content = val @ 0x0A # post" by (simp only:)
    then have "substr content (int (length (pre @ key) + 1)) (int (length (pre @ key @ 0x3D # val)) - int (length (pre @ key) + 1)) = Some val"
      using l(1) assms by (simp add: substr_def) (simp add: c)
    then show ?thesis using l by (simp only: GetValueWithKey_def f b e find_index_def option.case Let_def to_int_small) simp
  qed
  show "GetValueWithKey content key d = Some val"
    if "str_find content key 0 = Some (length pre)" "content = pre @ key @ 0x3D # val @ 0x0A # post"
      "0x3D \<notin> set key" "0x0A \<notin> set key \<union> set val"
    using that by (rule v)
  have s: "0x0A \<notin> set (show_int i)" for i
    using decimal_digits[of "0x0A"] by (auto simp: show_int_def)
  show "GetIntWithKey content key n = Some i"
    if "str_find content key 0 = Some (length pre)" "content = pre @ key @ 0x3D # show_int i @ 0x0A # post"
      "0x3D \<notin> set key" "0x0A \<notin> set key" "- (2 ^ 31) \<le> i" "i < 2 ^ 31"
    using v[OF that(1,2,3)] that(4-6) s[of i] by (simp add: GetIntWithKey_def atoi_show_int)
  show "str_find content key 0 = None \<Longrightarrow> GetValueWithKey content key d = Some d" by (simp add: GetValueWithKey_def)
  show "str_find content key 0 = None \<Longrightarrow> - (2 ^ 31) \<le> n \<Longrightarrow> n < 2 ^ 31 \<Longrightarrow> GetIntWithKey content key n = Some n"
    by (simp add: GetIntWithKey_def GetValueWithKey_def atoi_show_int)
qed

theorem GetValueWithKey_line_witness:
  "GetIntWithKey ([0x61, 0x3D, 0x31, 0x0A] @ [0x62] @ 0x3D # show_int (- 12) @ 0x0A # []) [0x62] 5 = Some (- 12)"
proof -
  have s: "show_int (- 12) = [0x2D, 0x31, 0x32]" by code_simp
  show ?thesis
    by (rule GetValueWithKey_line(2)[where pre = "[0x61, 0x3D, 0x31, 0x0A]" and post = "[]"])
      (simp_all add: s str_find_def)
qed

end
