(* ===== verification/Packet_Streams.thy ===== *)
theory Packet_Streams
  imports Packet_Codec
begin

text \<open>
  Writers and readers of packets, composed: what a sequence of \<open><<\<close> appends and what a sequence of \<open>>>\<close> takes
  from such bytes.  The rules follow the shape of the definitions, one rule for each operator.
\<close>

named_theorems stream_rules \<open>what writers append and readers take\<close>

definition writes :: "(heap_env \<Rightarrow> packet \<Rightarrow> packet option) \<Rightarrow> byte list \<Rightarrow> bool" where
  "writes f bs \<longleftrightarrow> (\<forall>H p. heap_ok H \<longrightarrow> pk_ok p \<longrightarrow> (\<exists>p'. f H p = Some p' \<and> pk_ok p' \<and> pk_bytes p' = pk_bytes p @ bs
     \<and> pk_offset p' = pk_offset p \<and> pk_good p' = pk_good p))"

definition reads :: "(packet \<Rightarrow> ('a \<times> packet) option) \<Rightarrow> 'a \<Rightarrow> byte list \<Rightarrow> bool" where
  "reads f x bs \<longleftrightarrow> (\<forall>p rest. pk_ok p \<longrightarrow> pk_unread p = bs @ rest \<longrightarrow> (\<exists>p'. f p = Some (x, p') \<and> pk_ok p' \<and> pk_unread p' = rest
     \<and> pk_buf p' = pk_buf p \<and> pk_good p' = pk_good p))"

lemma writes_bind [stream_rules]:
  assumes "writes f a" "writes g b"
  shows "writes (\<lambda>H p. Option.bind (f H p) (g H)) (a @ b)"
  unfolding writes_def
proof (intro allI impI)
  fix H p assume h: "heap_ok H" "pk_ok p"
  then obtain p1 where "f H p = Some p1" "pk_ok p1" "pk_bytes p1 = pk_bytes p @ a" "pk_offset p1 = pk_offset p" "pk_good p1 = pk_good p"
    using assms(1) unfolding writes_def by blast
  moreover from assms(2) h(1) this(2) obtain p2 where "g H p1 = Some p2" "pk_ok p2" "pk_bytes p2 = pk_bytes p1 @ b"
    "pk_offset p2 = pk_offset p1" "pk_good p2 = pk_good p1" unfolding writes_def by blast
  ultimately show "\<exists>p'. Option.bind (f H p) (g H) = Some p' \<and> pk_ok p' \<and> pk_bytes p' = pk_bytes p @ a @ b
     \<and> pk_offset p' = pk_offset p \<and> pk_good p' = pk_good p" by simp
qed

lemma writes_nothing [stream_rules]: "writes (\<lambda>H. Some) []"
  by (simp add: writes_def)

lemma reads_bind:
  assumes "reads f x a" "reads (g x) y b"
  shows "reads (\<lambda>p. Option.bind (f p) (\<lambda>(x, p1). g x p1)) y (a @ b)"
  unfolding reads_def
proof (intro allI impI)
  fix p rest assume h: "pk_ok p" "pk_unread p = (a @ b) @ rest"
  then obtain p1 where "f p = Some (x, p1)" "pk_ok p1" "pk_unread p1 = b @ rest" "pk_buf p1 = pk_buf p" "pk_good p1 = pk_good p"
    using assms(1) unfolding reads_def by (metis append_assoc)
  moreover from assms(2) this(2,3) obtain p2 where "g x p1 = Some (y, p2)" "pk_ok p2" "pk_unread p2 = rest"
    "pk_buf p2 = pk_buf p1" "pk_good p2 = pk_good p1" unfolding reads_def by blast
  ultimately show "\<exists>p'. Option.bind (f p) (\<lambda>(x, p1). g x p1) = Some (y, p') \<and> pk_ok p' \<and> pk_unread p' = rest
     \<and> pk_buf p' = pk_buf p \<and> pk_good p' = pk_good p" by simp
qed

lemma reads_return: "reads (\<lambda>p. Some (x, p)) x []"
  by (simp add: reads_def)

context stream_codec
begin

lemma codec_writes: "valid x \<Longrightarrow> writes (\<lambda>H p. put H p x) (enc x)"
  using put_appends unfolding writes_def by blast

lemma codec_reads: "valid x \<Longrightarrow> reads get x (enc x)"
  using get_reads unfolding reads_def by blast

end

text \<open>A writer and a reader that fit are a codec.\<close>

lemma stream_codecI:
  assumes "\<And>x. valid x \<Longrightarrow> writes (\<lambda>H p. put H p x) (enc x)" "\<And>x. valid x \<Longrightarrow> reads get x (enc x)"
  shows "stream_codec put get enc valid"
  using assms unfolding writes_def reads_def by unfold_locales metis+

lemmas word_writes [stream_rules] = u8.codec_writes[OF TrueI] u16.codec_writes[OF TrueI] u32.codec_writes[OF TrueI] u64.codec_writes[OF TrueI]
lemmas word_reads [stream_rules] = u8.codec_reads[OF TrueI] u16.codec_reads[OF TrueI] u32.codec_reads[OF TrueI] u64.codec_reads[OF TrueI]
lemmas str_writes [stream_rules] = str.codec_writes

lemma str_reads [stream_rules]: "valid_string s \<Longrightarrow> reads (\<lambda>p. get_string p []) s (enc_string s)"
  using str.codec_reads by simp

text \<open>\<open>>>\<close> appends to the string it is given.\<close>

lemma str_reads_after: "valid_string s \<Longrightarrow> reads (\<lambda>p. get_string p acc) (acc @ s) (enc_string s)"
  using get_string_reads unfolding reads_def by blast

subsection \<open>Signed integers\<close>

definition put_i32 :: "heap_env \<Rightarrow> packet \<Rightarrow> int \<Rightarrow> packet option" where
  "put_i32 H p i = put_word H p (word_of_int i :: 32 word)"

definition get_i32 :: "packet \<Rightarrow> (int \<times> packet) option" where
  "get_i32 p = map_option (apfst (sint :: 32 word \<Rightarrow> int)) (get_word p)"

definition put_i64 :: "heap_env \<Rightarrow> packet \<Rightarrow> int \<Rightarrow> packet option" where
  "put_i64 H p i = put_word H p (word_of_int i :: 64 word)"

definition get_i64 :: "packet \<Rightarrow> (int \<times> packet) option" where
  "get_i64 p = map_option (apfst (sint :: 64 word \<Rightarrow> int)) (get_word p)"

abbreviation in_i32 :: "int \<Rightarrow> bool" where
  "in_i32 i \<equiv> - (2 ^ 31) \<le> i \<and> i < 2 ^ 31"

abbreviation in_i64 :: "int \<Rightarrow> bool" where
  "in_i64 i \<equiv> - (2 ^ 63) \<le> i \<and> i < 2 ^ 63"

lemma sint_of_i32: "in_i32 i \<Longrightarrow> sint (word_of_int i :: 32 word) = i"
  by (simp add: signed_of_int signed_take_bit_int_eq_self)

lemma sint_of_i64: "in_i64 i \<Longrightarrow> sint (word_of_int i :: 64 word) = i"
  by (simp add: signed_of_int signed_take_bit_int_eq_self)

lemma reads_map: "reads f x bs \<Longrightarrow> reads (\<lambda>p. map_option (apfst h) (f p)) (h x) bs"
  unfolding reads_def by fastforce

lemma i32_codec: "stream_codec put_i32 get_i32 (\<lambda>i. enc_word (word_of_int i :: 32 word)) in_i32"
proof (rule stream_codecI)
  fix i :: int
  show "writes (\<lambda>H p. put_i32 H p i) (enc_word (word_of_int i :: 32 word))"
    unfolding put_i32_def by (rule u32.codec_writes[OF TrueI])
  assume "in_i32 i"
  then show "reads get_i32 i (enc_word (word_of_int i :: 32 word))"
    using reads_map[OF u32.codec_reads[OF TrueI], of sint "word_of_int i"] unfolding get_i32_def by (simp only: sint_of_i32)
qed

lemma i64_codec: "stream_codec put_i64 get_i64 (\<lambda>i. enc_word (word_of_int i :: 64 word)) in_i64"
proof (rule stream_codecI)
  fix i :: int
  show "writes (\<lambda>H p. put_i64 H p i) (enc_word (word_of_int i :: 64 word))"
    unfolding put_i64_def by (rule u64.codec_writes[OF TrueI])
  assume "in_i64 i"
  then show "reads get_i64 i (enc_word (word_of_int i :: 64 word))"
    using reads_map[OF u64.codec_reads[OF TrueI], of sint "word_of_int i"] unfolding get_i64_def by (simp only: sint_of_i64)
qed

interpretation i32: stream_codec put_i32 get_i32 "\<lambda>i. enc_word (word_of_int i :: 32 word)" in_i32
  by (rule i32_codec)

interpretation i64: stream_codec put_i64 get_i64 "\<lambda>i. enc_word (word_of_int i :: 64 word)" in_i64
  by (rule i64_codec)

text \<open>A signed value is written whatever it is; what does not fit its width is cut.\<close>

lemma signed_writes [stream_rules]:
  "writes (\<lambda>H p. put_i32 H p i) (enc_word (word_of_int i :: 32 word))" "writes (\<lambda>H p. put_i64 H p i) (enc_word (word_of_int i :: 64 word))"
  using u32.codec_writes[OF TrueI] u64.codec_writes[OF TrueI] by (simp_all add: put_i32_def put_i64_def)

lemmas signed_reads [stream_rules] = i32.codec_reads i64.codec_reads

subsection \<open>Collections\<close>

lemma writes_all [stream_rules]:
  assumes "\<And>x. x \<in> set xs \<Longrightarrow> writes (\<lambda>H p. f H p x) (enc x)"
  shows "writes (\<lambda>H p. put_all (f H) p xs) (concat (map enc xs))"
  using assms
proof (induction xs)
  case Nil
  show ?case using writes_nothing by simp
next
  case (Cons x xs)
  have "writes (\<lambda>H p. Option.bind (f H p x) (\<lambda>p. put_all (f H) p xs)) (enc x @ concat (map enc xs))"
    by (rule writes_bind) (use Cons in auto)
  then show ?case by simp
qed

text \<open>A loop that reads \<open>n\<close> pairs into a \<open>std::map\<close>, and the one that writes a map.\<close>

primrec get_into :: "(packet \<Rightarrow> (('k::linorder \<times> 'v) \<times> packet) option) \<Rightarrow> nat \<Rightarrow> packet \<Rightarrow> ('k \<times> 'v) list
    \<Rightarrow> (('k \<times> 'v) list \<times> packet) option" where
  "get_into g 0 p m = Some (m, p)"
| "get_into g (Suc n) p m = Option.bind (g p) (\<lambda>(kv, p1). get_into g n p1 (omap_put (fst kv) (snd kv) m))"

lemma reads_into:
  assumes "\<And>x. x \<in> set xs \<Longrightarrow> reads g x (enc x)"
  shows "reads (\<lambda>p. get_into g (length xs) p m) (fold (\<lambda>kv. omap_put (fst kv) (snd kv)) xs m) (concat (map enc xs))"
  using assms
proof (induction xs arbitrary: m)
  case Nil
  show ?case using reads_return by simp
next
  case (Cons x xs)
  have "reads (\<lambda>p. Option.bind (g p) (\<lambda>(kv, p1). get_into g (length xs) p1 (omap_put (fst kv) (snd kv) m)))
      (fold (\<lambda>kv. omap_put (fst kv) (snd kv)) xs (omap_put (fst x) (snd x) m)) (enc x @ concat (map enc xs))"
    by (rule reads_bind[where x = x]) (use Cons in auto)
  then show ?case by simp
qed

lemma omap_put_last: "\<forall>q\<in>set m. fst q < k \<Longrightarrow> omap_put k v m = m @ [(k, v)]"
  by (induction m) auto

lemma fold_put_sorted_append: "omap_ok (m @ xs) \<Longrightarrow> fold (\<lambda>kv. omap_put (fst kv) (snd kv)) xs m = m @ xs"
proof (induction xs arbitrary: m)
  case (Cons x xs)
  then have "\<forall>q\<in>set m. fst q < fst x" by (auto simp: omap_ok_def oset_ok_def sorted_wrt_append)
  then have "omap_put (fst x) (snd x) m = m @ [x]" by (simp add: omap_put_last)
  then show ?case using Cons.IH[of "m @ [x]"] Cons.prems by simp
qed simp

lemma fold_put_sorted: "omap_ok xs \<Longrightarrow> fold (\<lambda>kv. omap_put (fst kv) (snd kv)) xs [] = xs"
  using fold_put_sorted_append[of "[]" xs] by simp

lemma reads_pair [stream_rules]:
  assumes "reads ga (fst x) a" "reads gb (snd x) b"
  shows "reads (get_pair ga gb) x (a @ b)"
proof -
  have "reads (\<lambda>p. Option.bind (gb p) (\<lambda>(y, p2). Some ((fst x, y), p2))) x (b @ [])"
    by (rule reads_bind[OF assms(2)]) (use reads_return[of x] in simp)
  then have "reads (\<lambda>p. Option.bind (ga p) (\<lambda>(z, p1). Option.bind (gb p1) (\<lambda>(y, p2). Some ((z, y), p2)))) x (a @ b @ [])"
    by (rule reads_bind[OF assms(1)])
  then show ?thesis by (simp add: get_pair_def[abs_def])
qed

lemma writes_pair [stream_rules]:
  "writes (\<lambda>H p. pa H p (fst x)) a \<Longrightarrow> writes (\<lambda>H p. pb H p (snd x)) b \<Longrightarrow> writes (\<lambda>H p. put_pair pa pb H p x) (a @ b)"
  unfolding put_pair_def by (rule writes_bind)

text \<open>The last reader of a sequence, which builds the result.\<close>

lemma reads_build: "reads f x bs \<Longrightarrow> h x = y \<Longrightarrow> reads (\<lambda>p. Option.bind (f p) (\<lambda>(x, p1). Some (h x, p1))) y bs"
  using reads_bind[of f x bs "\<lambda>x p. Some (h x, p)" y "[]"] reads_return[of y] by simp

subsection \<open>Across the wire\<close>

lemma writes_wire:
  assumes "heap_ok H" "writes f bs" "reads g x bs" "8 + length bs < 2 ^ 32" "op < 2 ^ 32" "pk_good p0"
  shows "\<exists>p p1 r p2 p3. Packet_new_opcode H op = Some p \<and> f H p = Some p1 \<and> Packet_doEndpointEncode H p1 = Some r
    \<and> Packet_doEndpointDecode H p0 r = Some p2 \<and> GetOpcode p2 = Some op \<and> g p2 = Some (x, p3) \<and> pk_unread p3 = [] \<and> pk_good p3"
proof -
  have codec: "stream_codec (\<lambda>H p y. f H p) g (\<lambda>_. bs) (\<lambda>y. y = x)"
    by (rule stream_codecI) (use assms(2,3) in auto)
  show ?thesis
    using stream_codec.wire_roundtrip[OF codec assms(1), of "[x]" op p0] assms(4-6) by (auto split: bind_splits)
qed

text \<open>What the receiver has after the transport.\<close>

lemma writes_sent:
  assumes "heap_ok H" "writes f bs" "8 + length bs < 2 ^ 32" "op < 2 ^ 32" "pk_good p0"
  shows "\<exists>p p1 r p2. Packet_new_opcode H op = Some p \<and> f H p = Some p1 \<and> Packet_doEndpointEncode H p1 = Some r
    \<and> Packet_doEndpointDecode H p0 r = Some p2 \<and> GetOpcode p2 = Some op \<and> pk_ok p2 \<and> pk_unread p2 = bs"
proof -
  let ?g = "\<lambda>p. if pk_ok p \<and> take (length bs) (pk_unread p) = bs then map_option (apfst (\<lambda>_. ())) (pk_read p (length bs)) else None"
  have "reads ?g () bs"
    unfolding reads_def
  proof (intro allI impI)
    fix p rest assume p: "pk_ok p" "pk_unread p = bs @ rest"
    show "\<exists>p'. ?g p = Some ((), p') \<and> pk_ok p' \<and> pk_unread p' = rest \<and> pk_buf p' = pk_buf p \<and> pk_good p' = pk_good p"
      by (rule pk_readE[OF p(1), of "length bs"]) (use p in auto)
  qed
  from writes_wire[OF assms(1,2) this assms(3-5)] obtain p p1 r p2 p3 where
    w: "Packet_new_opcode H op = Some p" "f H p = Some p1" "Packet_doEndpointEncode H p1 = Some r"
      "Packet_doEndpointDecode H p0 r = Some p2" "GetOpcode p2 = Some op" and g: "?g p2 = Some ((), p3)" "pk_unread p3 = []"
    by blast
  have ok: "pk_ok p2" and t: "take (length bs) (pk_unread p2) = bs" and r: "\<exists>b. pk_read p2 (length bs) = Some (b, p3)"
    using g(1) by (auto split: if_splits)
  have l: "length bs \<le> length (pk_unread p2)" using arg_cong[OF t, of length] by simp
  obtain p4 where "pk_read p2 (length bs) = Some (bs, p4)" "pk_unread p4 = drop (length bs) (pk_unread p2)"
    by (rule pk_readE[OF ok l]) (use t in simp)
  then have "drop (length bs) (pk_unread p2) = []" using r g(2) by simp
  then have "pk_unread p2 = bs" using t append_take_drop_id[of "length bs" "pk_unread p2"] by simp
  then show ?thesis using w ok by blast
qed

end
