(* ===== verification/Attributes.thy ===== *)
theory Attributes
  imports Packet_Streams C_Text
begin

text \<open>
  The attributes of a player and the packets that carry them (\<open>game_base/account/player_def.h\<close>, \<open>player_def.cpp\<close>,
  \<open>property_def.h\<close>).  Signed integers are \<^typ>\<open>int\<close>, unsigned ones words; a \<open>std::map\<close> is an ordered list.  A pointer
  member that the code asserts is the object it points to.  The members that are only kept in JSON are in the
  theory \<open>Character_Json\<close>.
\<close>

subsection \<open>Options of the client\<close>

type_synonym game_options = "(byte list \<times> byte list) list"

definition Options_ToPacket :: "heap_env \<Rightarrow> packet \<Rightarrow> game_options \<Rightarrow> packet option" where
  "Options_ToPacket H p m = do {
     p \<leftarrow> put_word H p (word_of_nat (length m) :: 32 word);
     put_all (put_pair put_string put_string H) p m }"

text \<open>The loop's index is a \<open>uint16_t\<close>; the count is at most 1000 there.\<close>

definition Options_FromPacket :: "game_options \<Rightarrow> packet \<Rightarrow> (game_options \<times> packet) option" where
  "Options_FromPacket m p = do {
     (size, p) \<leftarrow> get_word p;
     let n = (if (1000 :: 32 word) < size then 0 else unat size);
     get_into (get_pair (\<lambda>p. get_string p []) (\<lambda>p. get_string p [])) n p m }"

definition default_text :: "byte list" where
  "default_text = [0x64, 0x65, 0x66, 0x61, 0x75, 0x6C, 0x74]"

definition Options_GetValue :: "byte list \<Rightarrow> game_options \<Rightarrow> byte list" where
  "Options_GetValue key m = (case omap_find m key of None \<Rightarrow> default_text | Some v \<Rightarrow> v)"

subsection \<open>Accounts\<close>

record account_info =
  ai_id :: "32 word"
  ai_account :: "byte list"
  ai_password :: "byte list"
  ai_nick :: "byte list"
  ai_icon :: "32 word"
  ai_sex :: "32 word"
  ai_birthday :: "32 word"
  ai_thirdlogin :: "byte list"
  ai_avatar :: "byte list"

definition AccountInfo_new :: account_info where
  "AccountInfo_new = \<lparr>ai_id = 0, ai_account = [], ai_password = [], ai_nick = [], ai_icon = 1, ai_sex = 0, ai_birthday = 0,
     ai_thirdlogin = [], ai_avatar = []\<rparr>"

definition Account_ToPacket :: "heap_env \<Rightarrow> packet \<Rightarrow> account_info \<Rightarrow> packet option" where
  "Account_ToPacket H p a = do {
     p \<leftarrow> put_word H p (ai_id a);
     p \<leftarrow> put_string H p (ai_account a);
     p \<leftarrow> put_string H p (ai_password a);
     p \<leftarrow> put_string H p (ai_nick a);
     p \<leftarrow> put_word H p (ai_icon a);
     p \<leftarrow> put_word H p (ai_sex a);
     p \<leftarrow> put_word H p (ai_birthday a);
     p \<leftarrow> put_string H p (ai_thirdlogin a);
     put_string H p (ai_avatar a) }"

definition Account_FromPacket :: "account_info \<Rightarrow> packet \<Rightarrow> (account_info \<times> packet) option" where
  "Account_FromPacket a p = do {
     (i, p) \<leftarrow> get_word p;
     (account, p) \<leftarrow> get_string p (ai_account a);
     (password, p) \<leftarrow> get_string p (ai_password a);
     (nick, p) \<leftarrow> get_string p (ai_nick a);
     (icon, p) \<leftarrow> get_word p;
     (sex, p) \<leftarrow> get_word p;
     (birthday, p) \<leftarrow> get_word p;
     (third, p) \<leftarrow> get_string p (ai_thirdlogin a);
     (avatar, p) \<leftarrow> get_string p (ai_avatar a);
     Some (\<lparr>ai_id = i, ai_account = account, ai_password = password, ai_nick = nick, ai_icon = icon, ai_sex = sex,
       ai_birthday = birthday, ai_thirdlogin = third, ai_avatar = avatar\<rparr>, p) }"

definition Account_ToSimplyPacket :: "heap_env \<Rightarrow> packet \<Rightarrow> account_info \<Rightarrow> packet option" where
  "Account_ToSimplyPacket H p a = do {
     p \<leftarrow> put_word H p (ai_id a);
     p \<leftarrow> put_string H p (ai_nick a);
     put_string H p (ai_avatar a) }"

definition Account_FromSimplyPacket :: "account_info \<Rightarrow> packet \<Rightarrow> (account_info \<times> packet) option" where
  "Account_FromSimplyPacket a p = do {
     (i, p) \<leftarrow> get_word p;
     (nick, p) \<leftarrow> get_string p (ai_nick a);
     (avatar, p) \<leftarrow> get_string p (ai_avatar a);
     Some (a\<lparr>ai_id := i, ai_nick := nick, ai_avatar := avatar\<rparr>, p) }"

definition SetThirdLogin :: "byte list \<Rightarrow> account_info \<Rightarrow> account_info" where
  "SetThirdLogin third a =
     a\<lparr>ai_thirdlogin := (if ai_thirdlogin a = [] then third else ai_thirdlogin a @ 0x7C # third)\<rparr>"

subsection \<open>The table of properties\<close>

definition PROPERTY_GOLD_COINS :: int where "PROPERTY_GOLD_COINS = 1"
definition PROPERTY_GOLD_NOTES :: int where "PROPERTY_GOLD_NOTES = 2"
definition PROPERTY_DIAMONDS :: int where "PROPERTY_DIAMONDS = 3"
definition PROPERTY_HORN :: int where "PROPERTY_HORN = 4"
definition PROPERTY_TOTAL_CHARGE_FEE :: int where "PROPERTY_TOTAL_CHARGE_FEE = 5"
definition PROPERTY_TICKET :: int where "PROPERTY_TICKET = 6"
definition PROPERTY_MESSAGE_CHARGE_FEE :: int where "PROPERTY_MESSAGE_CHARGE_FEE = 7"
definition PROPERTY_VIP :: int where "PROPERTY_VIP = 1001"
definition PROPERTY_CAISHEN_PLAYED_TIMES :: int where "PROPERTY_CAISHEN_PLAYED_TIMES = 1002"

lemmas PROPERTY_defs = PROPERTY_GOLD_COINS_def PROPERTY_GOLD_NOTES_def PROPERTY_DIAMONDS_def PROPERTY_HORN_def
  PROPERTY_TOTAL_CHARGE_FEE_def PROPERTY_TICKET_def PROPERTY_MESSAGE_CHARGE_FEE_def PROPERTY_VIP_def
  PROPERTY_CAISHEN_PLAYED_TIMES_def

type_synonym prop_map = "(int \<times> int) list"

record prop_table =
  pt_id :: "32 word"
  pt_map :: prop_map

definition PropTable_new :: prop_table where
  "PropTable_new = \<lparr>pt_id = 0, pt_map = []\<rparr>"

definition GetHorns :: "prop_table \<Rightarrow> 32 word" where
  "GetHorns t = (case omap_find (pt_map t) PROPERTY_HORN of Some n \<Rightarrow> word_of_int n | None \<Rightarrow> 0)"

definition ChangeHorns :: "32 word \<Rightarrow> prop_table \<Rightarrow> prop_table" where
  "ChangeHorns change t =
     (let ret = (if change > 0 \<or> GetHorns t > - change then GetHorns t + change else 0)
      in t\<lparr>pt_map := omap_put PROPERTY_HORN (uint ret) (pt_map t)\<rparr>)"

definition client_props :: "prop_map \<Rightarrow> prop_map" where
  "client_props m = omap_erase PROPERTY_MESSAGE_CHARGE_FEE (omap_erase PROPERTY_CAISHEN_PLAYED_TIMES m)"

definition PropTable_ToPacketEx :: "heap_env \<Rightarrow> packet \<Rightarrow> prop_table \<Rightarrow> packet option" where
  "PropTable_ToPacketEx H p t = do {
     p \<leftarrow> put_word H p (pt_id t);
     p \<leftarrow> put_i32 H p (int (length (client_props (pt_map t))));
     put_all (put_pair put_i32 put_i64 H) p (client_props (pt_map t)) }"

definition PropTable_ToPacket :: "heap_env \<Rightarrow> packet \<Rightarrow> prop_table \<Rightarrow> packet option" where
  "PropTable_ToPacket H p t = do {
     p \<leftarrow> put_word H p (pt_id t);
     p \<leftarrow> put_i32 H p (int (length (client_props (pt_map t))));
     put_all (put_pair put_i32 put_i32 H) p (client_props (pt_map t)) }"

text \<open>The text of the table: \<open>"%d":%ld\<close> for each value that is not negative, with a comma before all but the first
  property of the map.\<close>

definition prop_text :: "int \<times> int \<Rightarrow> byte list" where
  "prop_text kv = 0x22 # show_int (fst kv) @ 0x22 # 0x3A # show_int (snd kv)"

definition PropTable_ToJson :: "prop_table \<Rightarrow> byte list \<Rightarrow> byte list" where
  "PropTable_ToJson t req = req @ 0x7B # (case pt_map t of
     [] \<Rightarrow> []
   | kv # rest \<Rightarrow> (if 0 \<le> snd kv then prop_text kv else [])
       @ concat (map (\<lambda>kv. if 0 \<le> snd kv then 0x2C # prop_text kv else []) rest)) @ [0x7D]"

subsection \<open>Invitations and sprees\<close>

record player_invite =
  pi_count :: "byte list"
  pi_invited :: "byte list"
  pi_type_invite :: "32 word"
  pi_type_invited :: "32 word"
  pi_reward_invite :: "32 word"
  pi_reward_invited :: "32 word"

definition Invite_new :: player_invite where
  "Invite_new = \<lparr>pi_count = [], pi_invited = [], pi_type_invite = 1, pi_type_invited = 1, pi_reward_invite = 2000, pi_reward_invited = 10000\<rparr>"

definition Invite_ToPacket :: "heap_env \<Rightarrow> packet \<Rightarrow> player_invite \<Rightarrow> packet option" where
  "Invite_ToPacket H p v = do {
     p \<leftarrow> put_string H p (pi_count v);
     p \<leftarrow> put_string H p (pi_invited v);
     p \<leftarrow> put_word H p (pi_type_invite v);
     p \<leftarrow> put_word H p (pi_type_invited v);
     p \<leftarrow> put_word H p (pi_reward_invite v);
     put_word H p (pi_reward_invited v) }"

definition Invite_FromPacket :: "player_invite \<Rightarrow> packet \<Rightarrow> (player_invite \<times> packet) option" where
  "Invite_FromPacket v p = do {
     (count, p) \<leftarrow> get_string p (pi_count v);
     (invited, p) \<leftarrow> get_string p (pi_invited v);
     (t1, p) \<leftarrow> get_word p;
     (t2, p) \<leftarrow> get_word p;
     (r1, p) \<leftarrow> get_word p;
     (r2, p) \<leftarrow> get_word p;
     Some (\<lparr>pi_count = count, pi_invited = invited, pi_type_invite = t1, pi_type_invited = t2, pi_reward_invite = r1,
       pi_reward_invited = r2\<rparr>, p) }"

record get_spree =
  sp_error :: "32 word"
  sp_time :: "32 word"
  sp_value :: "32 word"

definition Spree_ToPacket :: "heap_env \<Rightarrow> packet \<Rightarrow> get_spree \<Rightarrow> packet option" where
  "Spree_ToPacket H p s = do { p \<leftarrow> put_word H p (sp_error s); p \<leftarrow> put_word H p (sp_time s); put_word H p (sp_value s) }"

definition Spree_FromPacket :: "packet \<Rightarrow> (get_spree \<times> packet) option" where
  "Spree_FromPacket p = do {
     (e, p) \<leftarrow> get_word p; (t, p) \<leftarrow> get_word p; (v, p) \<leftarrow> get_word p;
     Some (\<lparr>sp_error = e, sp_time = t, sp_value = v\<rparr>, p) }"

record get_spree_limited = get_spree +
  sp_now :: "32 word"
  sp_limit :: "32 word"

definition SpreeLimited_ToPacket :: "heap_env \<Rightarrow> packet \<Rightarrow> get_spree_limited \<Rightarrow> packet option" where
  "SpreeLimited_ToPacket H p s = do {
     p \<leftarrow> put_word H p (sp_error s); p \<leftarrow> put_word H p (sp_time s); p \<leftarrow> put_word H p (sp_value s);
     p \<leftarrow> put_word H p (sp_now s); put_word H p (sp_limit s) }"

definition SpreeLimited_FromPacket :: "packet \<Rightarrow> (get_spree_limited \<times> packet) option" where
  "SpreeLimited_FromPacket p = do {
     (e, p) \<leftarrow> get_word p; (t, p) \<leftarrow> get_word p; (v, p) \<leftarrow> get_word p; (n, p) \<leftarrow> get_word p; (l, p) \<leftarrow> get_word p;
     Some (\<lparr>sp_error = e, sp_time = t, sp_value = v, sp_now = n, sp_limit = l\<rparr>, p) }"

subsection \<open>Changes of properties\<close>

record one_change =
  oc_id :: int
  oc_current :: "64 word"
  oc_changed :: int
  oc_other :: "int list"

definition OneChange_ToPacket :: "heap_env \<Rightarrow> packet \<Rightarrow> one_change \<Rightarrow> packet option" where
  "OneChange_ToPacket H p c = do {
     p \<leftarrow> put_i32 H p (oc_id c);
     p \<leftarrow> put_word H p (ucast (oc_current c) :: 32 word);
     p \<leftarrow> put_i32 H p (oc_changed c);
     p \<leftarrow> put_i32 H p (int (length (oc_other c)));
     put_all (put_i32 H) p (oc_other c) }"

definition OneChange_ToPacketEx :: "heap_env \<Rightarrow> packet \<Rightarrow> one_change \<Rightarrow> packet option" where
  "OneChange_ToPacketEx H p c = do {
     p \<leftarrow> put_i32 H p (oc_id c);
     p \<leftarrow> put_word H p (oc_current c);
     p \<leftarrow> put_i64 H p (oc_changed c);
     p \<leftarrow> put_i32 H p (int (length (oc_other c)));
     put_all (put_i64 H) p (oc_other c) }"

record property_change =
  pc_player :: "32 word"
  pc_title :: "byte list"
  pc_reason :: "32 word"
  pc_props :: "(int \<times> one_change) list"

definition GetPropertyIds :: "property_change \<Rightarrow> int list" where
  "GetPropertyIds c = map fst (pc_props c)"

definition SetPropertyChanges :: "one_change list \<Rightarrow> property_change \<Rightarrow> property_change" where
  "SetPropertyChanges changes c = c\<lparr>pc_props := fold (\<lambda>o1. omap_put (oc_id o1) o1) changes (pc_props c)\<rparr>"

definition GetPropertyChange :: "int \<Rightarrow> property_change \<Rightarrow> one_change option" where
  "GetPropertyChange i c = omap_find (pc_props c) i"

definition PropertyChange_ToPacket :: "heap_env \<Rightarrow> packet \<Rightarrow> property_change \<Rightarrow> packet option" where
  "PropertyChange_ToPacket H p c = do {
     p \<leftarrow> put_word H p (pc_player c);
     p \<leftarrow> put_string H p (pc_title c);
     p \<leftarrow> put_word H p (pc_reason c);
     p \<leftarrow> put_i32 H p (int (length (pc_props c)));
     put_all (\<lambda>p kv. OneChange_ToPacket H p (snd kv)) p (pc_props c) }"

definition PropertyChange_ToPacketEx :: "heap_env \<Rightarrow> packet \<Rightarrow> property_change \<Rightarrow> packet option" where
  "PropertyChange_ToPacketEx H p c = do {
     p \<leftarrow> put_word H p (pc_player c);
     p \<leftarrow> put_string H p (pc_title c);
     p \<leftarrow> put_word H p (pc_reason c);
     p \<leftarrow> put_i32 H p (int (length (pc_props c)));
     put_all (\<lambda>p kv. OneChange_ToPacketEx H p (snd kv)) p (pc_props c) }"

text \<open>\<open>stOnePropertyChange::FromPacket\<close> and \<open>FromPacketEx\<close> are empty: the loop stores its variable under a
  \<open>propertyId\<close> that was never set, which is undefined.\<close>

definition PropertyChange_FromPacket :: "property_change \<Rightarrow> packet \<Rightarrow> (property_change \<times> packet) option" where
  "PropertyChange_FromPacket c p = do {
     (player, p) \<leftarrow> get_word p;
     (title, p) \<leftarrow> get_string p (pc_title c);
     (reason, p) \<leftarrow> get_word p;
     (n, p) \<leftarrow> get_i32 p;
     if 0 < n then None else Some (c\<lparr>pc_player := player, pc_title := title, pc_reason := reason\<rparr>, p) }"

subsection \<open>Rewards\<close>

record rewards =
  rw_current :: "(int \<times> 32 word) list"
  rw_next :: "(int \<times> 32 word) list"
  rw_max :: "(int \<times> 32 word) list"

definition Rewards_new :: rewards where
  "Rewards_new = \<lparr>rw_current = [], rw_next = [], rw_max = []\<rparr>"

definition SetRewards :: "int \<Rightarrow> 32 word \<Rightarrow> 32 word \<Rightarrow> 32 word \<Rightarrow> rewards \<Rightarrow> rewards" where
  "SetRewards prop c n m r = r\<lparr>rw_current := omap_put prop c (rw_current r), rw_next := omap_put prop n (rw_next r),
     rw_max := omap_put prop m (rw_max r)\<rparr>"

definition GetPropIds :: "rewards \<Rightarrow> int list" where
  "GetPropIds r = map fst (rw_current r)"

text \<open>\<open>operator[]\<close> creates what is missing.\<close>

definition GetPropValues :: "int \<Rightarrow> rewards \<Rightarrow> (32 word \<times> 32 word \<times> 32 word) \<times> rewards" where
  "GetPropValues i r =
     (let look = (\<lambda>m. case omap_find m i of None \<Rightarrow> 0 | Some v \<Rightarrow> v) in
      ((look (rw_current r), look (rw_next r), look (rw_max r)),
       r\<lparr>rw_current := omap_insert i 0 (rw_current r), rw_next := omap_insert i 0 (rw_next r), rw_max := omap_insert i 0 (rw_max r)\<rparr>))"

definition Rewards_ToPacket :: "heap_env \<Rightarrow> packet \<Rightarrow> rewards \<Rightarrow> packet option" where
  "Rewards_ToPacket H p r = do {
     p \<leftarrow> put_i32 H p (int (length (rw_current r)));
     p \<leftarrow> put_all (put_pair put_i32 put_word H) p (rw_current r);
     p \<leftarrow> put_all (put_pair put_i32 put_word H) p (rw_next r);
     put_all (put_pair put_i32 put_word H) p (rw_max r) }"

definition Rewards_FromPacket :: "rewards \<Rightarrow> packet \<Rightarrow> (rewards \<times> packet) option" where
  "Rewards_FromPacket r p = do {
     (n, p) \<leftarrow> get_i32 p;
     (c, p) \<leftarrow> get_into (get_pair get_i32 get_word) (nat n) p (rw_current r);
     (x, p) \<leftarrow> get_into (get_pair get_i32 get_word) (nat n) p (rw_next r);
     (m, p) \<leftarrow> get_into (get_pair get_i32 get_word) (nat n) p (rw_max r);
     Some (\<lparr>rw_current = c, rw_next = x, rw_max = m\<rparr>, p) }"

subsection \<open>The answer to a login\<close>

record login_resp =
  lr_account :: account_info
  lr_props :: prop_table
  lr_client :: "byte list"
  lr_options :: game_options
  lr_stay_hall :: "32 word"
  lr_key :: "byte list"
  lr_item_version :: "byte list"
  lr_first_login :: "32 word"
  lr_cur_tm :: "32 word"
  lr_session :: "32 word"
  lr_recharge :: "32 word"
  lr_month_recharge :: "32 word"
  lr_recharge_sms :: "32 word"
  lr_trader :: "32 word"
  lr_max_trade :: "32 word"
  lr_url :: "byte list"

text \<open>The packets of \<open>PlayerCharacterInfo\<close> itself, which is a base class, are empty.\<close>

definition Login_ToPacket :: "heap_env \<Rightarrow> packet \<Rightarrow> login_resp \<Rightarrow> packet option" where
  "Login_ToPacket H p l = do {
     p \<leftarrow> Account_ToPacket H p (lr_account l);
     p \<leftarrow> PropTable_ToPacket H p (lr_props l);
     p \<leftarrow> put_string H p (lr_client l);
     Options_ToPacket H p (lr_options l) }"

definition Login_ToPacketEx :: "heap_env \<Rightarrow> packet \<Rightarrow> login_resp \<Rightarrow> packet option" where
  "Login_ToPacketEx H p l = do {
     p \<leftarrow> Account_ToPacket H p (lr_account l);
     p \<leftarrow> PropTable_ToPacket H p (lr_props l);
     p \<leftarrow> put_string H p (lr_client l);
     p \<leftarrow> Options_ToPacket H p (lr_options l);
     p \<leftarrow> put_word H p (lr_stay_hall l);
     p \<leftarrow> put_string H p (lr_key l);
     p \<leftarrow> put_string H p (lr_item_version l);
     put_word H p (lr_first_login l) }"

definition Login_ToPacketEx64 :: "heap_env \<Rightarrow> packet \<Rightarrow> login_resp \<Rightarrow> packet option" where
  "Login_ToPacketEx64 H p l = do {
     p \<leftarrow> Account_ToPacket H p (lr_account l);
     p \<leftarrow> PropTable_ToPacketEx H p (lr_props l);
     p \<leftarrow> put_string H p (lr_client l);
     p \<leftarrow> Options_ToPacket H p (lr_options l);
     p \<leftarrow> put_word H p (lr_stay_hall l);
     p \<leftarrow> put_string H p (lr_key l);
     p \<leftarrow> put_string H p (lr_item_version l);
     p \<leftarrow> put_word H p (lr_first_login l);
     p \<leftarrow> put_word H p (lr_cur_tm l);
     p \<leftarrow> put_word H p (lr_session l);
     p \<leftarrow> put_word H p (lr_recharge l);
     p \<leftarrow> put_word H p (lr_month_recharge l);
     p \<leftarrow> put_word H p (lr_recharge_sms l);
     p \<leftarrow> put_word H p (lr_trader l);
     p \<leftarrow> put_word H p (lr_max_trade l);
     put_string H p (lr_url l) }"

text \<open>Versions are compared as strings.\<close>

definition Login_ToPacketWithVersion :: "byte list \<Rightarrow> heap_env \<Rightarrow> packet \<Rightarrow> login_resp \<Rightarrow> packet option" where
  "Login_ToPacketWithVersion version H p l =
     (if [0x32, 0x2E, 0x37, 0x2E, 0x30] \<le> version then Login_ToPacketEx64 H p l
      else if [0x32, 0x2E, 0x36, 0x2E, 0x30] \<le> version then Login_ToPacketEx H p l
      else Login_ToPacket H p l)"

end
