(* ===== verification/Attributes_Props.thy ===== *)
theory Attributes_Props
  imports Attributes
begin

text \<open>
  What the packets of the attributes carry from one process to another, and what they lose.
\<close>

subsection \<open>The bytes of the packets\<close>

definition enc_account :: "account_info \<Rightarrow> byte list" where
  "enc_account a = enc_word (ai_id a) @ enc_string (ai_account a) @ enc_string (ai_password a) @ enc_string (ai_nick a)
     @ enc_word (ai_icon a) @ enc_word (ai_sex a) @ enc_word (ai_birthday a) @ enc_string (ai_thirdlogin a) @ enc_string (ai_avatar a)"

definition valid_account :: "account_info \<Rightarrow> bool" where
  "valid_account a \<longleftrightarrow> valid_string (ai_account a) \<and> valid_string (ai_password a) \<and> valid_string (ai_nick a)
     \<and> valid_string (ai_thirdlogin a) \<and> valid_string (ai_avatar a)"

text \<open>An account that is read into an object that is not new: the strings are appended.\<close>

definition read_over :: "account_info \<Rightarrow> account_info \<Rightarrow> account_info" where
  "read_over b a = \<lparr>ai_id = ai_id a, ai_account = ai_account b @ ai_account a, ai_password = ai_password b @ ai_password a,
     ai_nick = ai_nick b @ ai_nick a, ai_icon = ai_icon a, ai_sex = ai_sex a, ai_birthday = ai_birthday a,
     ai_thirdlogin = ai_thirdlogin b @ ai_thirdlogin a, ai_avatar = ai_avatar b @ ai_avatar a\<rparr>"

lemma read_over_new [simp]: "read_over AccountInfo_new a = a"
  by (simp add: read_over_def AccountInfo_new_def)

lemma account_writes: "valid_account a \<Longrightarrow> writes (\<lambda>H p. Account_ToPacket H p a) (enc_account a)"
  unfolding Account_ToPacket_def enc_account_def valid_account_def by (intro stream_rules) simp_all

lemma account_reads: "valid_account a \<Longrightarrow> reads (Account_FromPacket b) (read_over b a) (enc_account a)"
  unfolding Account_FromPacket_def[abs_def] enc_account_def valid_account_def
  by ((rule reads_build | rule reads_bind), (rule word_reads | (rule str_reads_after, simp)))+
    (simp add: read_over_def)

interpretation account: stream_codec Account_ToPacket "Account_FromPacket AccountInfo_new" enc_account valid_account
  using account_writes account_reads[of _ AccountInfo_new] by (intro stream_codecI) simp_all

text \<open>An account crosses the wire; read into an object that already held one, the new strings are appended to the
  old ones.\<close>

theorem account_packet_roundtrip:
  assumes "heap_ok H" "valid_account a" "8 + length (enc_account a) < 2 ^ 32" "op < 2 ^ 32" "pk_good p0"
  shows "\<exists>p p1 r p2 p3. Packet_new_opcode H op = Some p \<and> Account_ToPacket H p a = Some p1 \<and> Packet_doEndpointEncode H p1 = Some r
    \<and> Packet_doEndpointDecode H p0 r = Some p2 \<and> GetOpcode p2 = Some op
    \<and> Account_FromPacket b p2 = Some (read_over b a, p3) \<and> pk_unread p3 = [] \<and> pk_good p3
    \<and> (b = AccountInfo_new \<longrightarrow> read_over b a = a)"
  using writes_wire[OF assms(1) account_writes[OF assms(2)] account_reads[OF assms(2), of b] assms(3-5)] by auto

definition demo_account :: account_info where
  "demo_account = AccountInfo_new\<lparr>ai_id := 7, ai_nick := [0x61]\<rparr>"

definition old_packet :: packet where
  "old_packet = \<lparr>pk_buf = \<lparr>bd_size = 0, bd_offset = 0, bd_data = []\<rparr>, pk_offset = 0, pk_good = True\<rparr>"

lemma old_packet_good [simp]: "pk_good old_packet"
  by (simp add: old_packet_def)

theorem account_packet_roundtrip_witness:
  "\<exists>p p1 r p2 p3. Packet_new_opcode plenty 100 = Some p \<and> Account_ToPacket plenty p demo_account = Some p1
    \<and> Packet_doEndpointEncode plenty p1 = Some r \<and> Packet_doEndpointDecode plenty old_packet r = Some p2
    \<and> Account_FromPacket demo_account p2 = Some (demo_account\<lparr>ai_nick := [0x61, 0x61]\<rparr>, p3)"
proof -
  have v: "valid_account demo_account" "8 + length (enc_account demo_account) < 2 ^ 32"
    by (simp_all add: valid_account_def demo_account_def AccountInfo_new_def valid_string_def enc_account_def enc_string_def)
  have "read_over demo_account demo_account = demo_account\<lparr>ai_nick := [0x61, 0x61]\<rparr>"
    by (simp add: read_over_def demo_account_def AccountInfo_new_def)
  then show ?thesis
    using account_packet_roundtrip[OF heap_ok_plenty v _ old_packet_good, of 100 demo_account] by auto
qed

subsection \<open>Options\<close>

definition enc_pairs :: "game_options \<Rightarrow> byte list" where
  "enc_pairs m = concat (map (\<lambda>kv. enc_string (fst kv) @ enc_string (snd kv)) m)"

definition enc_options :: "game_options \<Rightarrow> byte list" where
  "enc_options m = enc_word (word_of_nat (length m) :: 32 word) @ enc_pairs m"

definition valid_options :: "game_options \<Rightarrow> bool" where
  "valid_options m \<longleftrightarrow> omap_ok m \<and> (\<forall>kv\<in>set m. valid_string (fst kv) \<and> valid_string (snd kv)) \<and> length m < 2 ^ 32"

lemma options_writes: "valid_options m \<Longrightarrow> writes (\<lambda>H p. Options_ToPacket H p m) (enc_options m)"
  unfolding Options_ToPacket_def enc_options_def enc_pairs_def
  by (intro stream_rules) (simp_all add: valid_options_def)

lemma options_count: "length m < 2 ^ 32 \<Longrightarrow> ((1000 :: 32 word) < word_of_nat (length m)) = (1000 < length m)"
  by (simp add: word_less_nat_alt unat_of_nat take_bit_nat_eq_self)

lemma options_reads:
  assumes "valid_options m"
  shows "length m \<le> 1000 \<Longrightarrow> reads (Options_FromPacket []) m (enc_options m)"
    "1000 < length m \<Longrightarrow> reads (Options_FromPacket o1) o1 (enc_word (word_of_nat (length m) :: 32 word))"
proof -
  have len: "unat (word_of_nat (length m) :: 32 word) = length m" using assms by (simp add: valid_options_def unat_of_nat take_bit_nat_eq_self)
  have c: "((1000 :: 32 word) < word_of_nat (length m)) = (1000 < length m)" using assms by (simp only: valid_options_def options_count)
  show "reads (Options_FromPacket []) m (enc_options m)" if "length m \<le> 1000"
  proof -
    have "reads (\<lambda>p. get_into (get_pair (\<lambda>p. get_string p []) (\<lambda>p. get_string p [])) (length m) p []) m (enc_pairs m)"
      using reads_into[of m "get_pair (\<lambda>p. get_string p []) (\<lambda>p. get_string p [])" "\<lambda>kv. enc_string (fst kv) @ enc_string (snd kv)" "[]"] assms
      by (simp add: fold_put_sorted valid_options_def enc_pairs_def reads_pair str_reads)
    then show ?thesis
      unfolding Options_FromPacket_def[abs_def] enc_options_def
      by (intro reads_bind[where x = "word_of_nat (length m) :: 32 word"] word_reads) (use that in \<open>simp add: c len\<close>)
  qed
  show "reads (Options_FromPacket o1) o1 (enc_word (word_of_nat (length m) :: 32 word))" if "1000 < length m"
    using reads_bind[OF u32.codec_reads[OF TrueI, of "word_of_nat (length m)"], of _ o1 "[]"] that reads_return[of o1]
    unfolding Options_FromPacket_def[abs_def] by (simp add: c)
qed

text \<open>Options cross the wire when there are at most 1000; of more, the receiver takes none, and the bytes of all of
  them are left where the next value is read.\<close>

theorem options_packet_limit:
  assumes "heap_ok H" "valid_options m" "8 + length (enc_options m) < 2 ^ 32" "op < 2 ^ 32" "pk_good p0"
  shows "\<exists>p p1 r p2 p3. Packet_new_opcode H op = Some p \<and> Options_ToPacket H p m = Some p1 \<and> Packet_doEndpointEncode H p1 = Some r
    \<and> Packet_doEndpointDecode H p0 r = Some p2
    \<and> Options_FromPacket [] p2 = Some (if length m \<le> 1000 then (m, p3) else ([], p3))
    \<and> pk_unread p3 = (if length m \<le> 1000 then [] else enc_pairs m)"
proof (cases "length m \<le> 1000")
  case True
  then show ?thesis
    using writes_wire[OF assms(1) options_writes[OF assms(2)] options_reads(1)[OF assms(2)] assms(3-5)] by auto
next
  case False
  obtain p p1 r p2 where w: "Packet_new_opcode H op = Some p" "Options_ToPacket H p m = Some p1" "Packet_doEndpointEncode H p1 = Some r"
    "Packet_doEndpointDecode H p0 r = Some p2" "pk_ok p2" "pk_unread p2 = enc_options m"
    using writes_sent[OF assms(1) options_writes[OF assms(2)] assms(3-5)] by blast
  moreover have "\<exists>p3. Options_FromPacket [] p2 = Some ([], p3) \<and> pk_unread p3 = enc_pairs m"
    using options_reads(2)[OF assms(2), of "[]"] w(5,6) False unfolding reads_def enc_options_def by fastforce
  ultimately show ?thesis using False by auto
qed

theorem options_packet_limit_witness:
  "\<exists>p p1 r p2 p3. Packet_new_opcode plenty 3 = Some p \<and> Options_ToPacket plenty p [([0x6F, 0x73], [0x41])] = Some p1
    \<and> Packet_doEndpointEncode plenty p1 = Some r \<and> Packet_doEndpointDecode plenty old_packet r = Some p2
    \<and> Options_FromPacket [] p2 = Some ([([0x6F, 0x73], [0x41])], p3)"
proof -
  have "valid_options [([0x6F, 0x73], [0x41])]" "8 + length (enc_options [([0x6F, 0x73], [0x41])]) < 2 ^ 32"
    by (simp_all add: valid_options_def omap_ok_def oset_ok_def valid_string_def enc_options_def enc_pairs_def enc_string_def)
  from options_packet_limit[OF heap_ok_plenty this _ old_packet_good, of 3] show ?thesis by auto
qed

subsection \<open>Rewards\<close>

text \<open>The rewards as the server builds them.\<close>

inductive rewards_reach :: "rewards \<Rightarrow> bool" where
  new: "rewards_reach Rewards_new"
| set_rewards: "rewards_reach r \<Longrightarrow> in_i32 i \<Longrightarrow> rewards_reach (SetRewards i c n m r)"
| get_values: "rewards_reach r \<Longrightarrow> in_i32 i \<Longrightarrow> rewards_reach (snd (GetPropValues i r))"

definition rewards_ok :: "rewards \<Rightarrow> bool" where
  "rewards_ok r \<longleftrightarrow> omap_ok (rw_current r) \<and> map fst (rw_next r) = map fst (rw_current r) \<and> map fst (rw_max r) = map fst (rw_current r)
     \<and> (\<forall>k\<in>set (map fst (rw_current r)). in_i32 k)"

lemma map_fst_insert: "map fst (omap_insert k v m) = (if k \<in> fst ` set m then map fst m else oset_insert k (map fst m))"
  by (simp add: omap_insert_def map_of_eq_None_iff map_fst_omap_put)

lemma rewards_reach_ok: "rewards_reach r \<Longrightarrow> rewards_ok r"
proof (induction rule: rewards_reach.induct)
  case (set_rewards r i c n m)
  then show ?case by (simp add: rewards_ok_def SetRewards_def map_fst_omap_put)
next
  case (get_values r i)
  have "fst ` set (rw_next r) = fst ` set (rw_current r)" "fst ` set (rw_max r) = fst ` set (rw_current r)"
    using get_values.IH by (metis list.set_map rewards_ok_def)+
  then show ?case using get_values by (auto simp: rewards_ok_def GetPropValues_def Let_def map_fst_insert)
qed (simp add: rewards_ok_def Rewards_new_def)

definition enc_reward :: "int \<times> 32 word \<Rightarrow> byte list" where
  "enc_reward kv = enc_word (word_of_int (fst kv) :: 32 word) @ enc_word (snd kv)"

definition enc_rewards :: "rewards \<Rightarrow> byte list" where
  "enc_rewards r = enc_word (word_of_int (int (length (rw_current r))) :: 32 word) @ concat (map enc_reward (rw_current r))
     @ concat (map enc_reward (rw_next r)) @ concat (map enc_reward (rw_max r))"

lemma rewards_writes: "writes (\<lambda>H p. Rewards_ToPacket H p r) (enc_rewards r)"
  unfolding Rewards_ToPacket_def enc_rewards_def enc_reward_def by (intro stream_rules)

lemma reads_reward_map:
  assumes "omap_ok m" "\<forall>k\<in>set (map fst m). in_i32 k" "nat k = length m"
  shows "reads (\<lambda>p. get_into (get_pair get_i32 get_word) (nat k) p []) m (concat (map enc_reward m))"
proof -
  have "reads (get_pair get_i32 get_word) x (enc_reward x)" if "x \<in> set m" for x
    unfolding enc_reward_def by (intro stream_rules) (use assms(2) that in auto)
  from reads_into[of m "get_pair get_i32 get_word" enc_reward "[]", OF this] show ?thesis
    by (simp only: fold_put_sorted[OF assms(1)] assms(3))
qed

lemma rewards_reads:
  assumes "rewards_ok r" "length (rw_current r) < 2 ^ 31"
  shows "reads (Rewards_FromPacket Rewards_new) r (enc_rewards r)"
proof -
  let ?n = "int (length (rw_current r))"
  have l: "nat ?n = length (rw_current r)" "nat ?n = length (rw_next r)" "nat ?n = length (rw_max r)"
    using assms(1) unfolding rewards_ok_def by (metis length_map nat_int)+
  have ok: "omap_ok (rw_current r)" "omap_ok (rw_next r)" "omap_ok (rw_max r)"
    "\<forall>k\<in>set (map fst (rw_current r)). in_i32 k" "\<forall>k\<in>set (map fst (rw_next r)). in_i32 k" "\<forall>k\<in>set (map fst (rw_max r)). in_i32 k"
    using assms(1) unfolding rewards_ok_def omap_ok_def by metis+
  have n: "in_i32 ?n" using assms(2) by simp
  have z: "rw_current Rewards_new = []" "rw_next Rewards_new = []" "rw_max Rewards_new = []" by (simp_all add: Rewards_new_def)
  show ?thesis
    unfolding Rewards_FromPacket_def[abs_def] enc_rewards_def z
    by (rule reads_bind[OF i32.codec_reads[OF n]], rule reads_bind[OF reads_reward_map[OF ok(1,4) l(1)]],
        rule reads_bind[OF reads_reward_map[OF ok(2,5) l(2)]], rule reads_build[OF reads_reward_map[OF ok(3,6) l(3)]]) simp
qed

text \<open>The three maps of rewards always have the same properties, so that the one count of the packet serves for all of
  them: rewards built by \<open>SetRewards\<close> and queried by \<open>GetPropValues\<close> cross the wire whole.\<close>

theorem rewards_packet_roundtrip:
  assumes "heap_ok H" "rewards_reach r" "8 + length (enc_rewards r) < 2 ^ 32" "length (rw_current r) < 2 ^ 31" "op < 2 ^ 32" "pk_good p0"
  shows "GetPropIds r = map fst (rw_next r) \<and> GetPropIds r = map fst (rw_max r)
    \<and> (\<exists>p p1 q p2 p3. Packet_new_opcode H op = Some p \<and> Rewards_ToPacket H p r = Some p1 \<and> Packet_doEndpointEncode H p1 = Some q
    \<and> Packet_doEndpointDecode H p0 q = Some p2 \<and> Rewards_FromPacket Rewards_new p2 = Some (r, p3) \<and> pk_unread p3 = [])"
proof -
  have ok: "rewards_ok r" by (rule rewards_reach_ok[OF assms(2)])
  from writes_wire[OF assms(1) rewards_writes rewards_reads[OF ok assms(4)] assms(3,5,6)] ok show ?thesis
    by (auto simp: GetPropIds_def rewards_ok_def)
qed

theorem rewards_packet_roundtrip_witness:
  "\<exists>p p1 q p2 p3. Packet_new_opcode plenty 3 = Some p \<and> Rewards_ToPacket plenty p (SetRewards (- 2) 1 2 3 Rewards_new) = Some p1
    \<and> Packet_doEndpointEncode plenty p1 = Some q \<and> Packet_doEndpointDecode plenty old_packet q = Some p2
    \<and> Rewards_FromPacket Rewards_new p2 = Some (SetRewards (- 2) 1 2 3 Rewards_new, p3)"
proof -
  have r: "rewards_reach (SetRewards (- 2) 1 2 3 Rewards_new)" by (intro rewards_reach.intros) simp_all
  have "8 + length (enc_rewards (SetRewards (- 2) 1 2 3 Rewards_new)) < 2 ^ 32" "length (rw_current (SetRewards (- 2) 1 2 3 Rewards_new)) < 2 ^ 31"
    by (simp_all add: enc_rewards_def enc_reward_def SetRewards_def Rewards_new_def)
  from rewards_packet_roundtrip[OF heap_ok_plenty r this _ old_packet_good, of 3] show ?thesis by auto
qed

subsection \<open>Horns, texts and versions\<close>

text \<open>A change of the horns is added modulo \<open>2 ^ 32\<close>, whatever the number of horns: the test before the addition never
  refuses one, and taking more horns than the player has leaves almost \<open>2 ^ 32\<close> of them.\<close>

theorem ChangeHorns_wraps:
  "GetHorns (ChangeHorns change t) = GetHorns t + change
   \<and> unat (GetHorns (ChangeHorns (- d) t)) = (if d \<le> GetHorns t then unat (GetHorns t) - unat d else 2 ^ 32 - (unat d - unat (GetHorns t)))"
proof -
  have g: "GetHorns (ChangeHorns c t) = GetHorns t + c" for c
  proof (cases "c = 0")
    case True
    then show ?thesis by (simp add: ChangeHorns_def GetHorns_def word_gt_0 split: option.split)
  next
    case False
    then have "c > 0" by (simp add: word_gt_0)
    then show ?thesis by (simp add: ChangeHorns_def Let_def) (simp add: GetHorns_def)
  qed
  have "unat (x - d) = (if d \<le> x then unat x - unat d else 2 ^ 32 - (unat d - unat x))" for x :: "32 word"
    using unat_sub_if'[of x d] unsigned_less[of d, where ?'a = nat] by (auto simp: word_le_nat_alt)
  then show ?thesis using g[of change] g[of "- d"] by simp
qed

text \<open>The text of a table starts with a comma when its first property is negative.\<close>

lemma PropTable_ToJson_comma:
  "PropTable_ToJson \<lparr>pt_id = 0, pt_map = [(1, - 1), (2, 5)]\<rparr> [] = [0x7B, 0x2C, 0x22, 0x32, 0x22, 0x3A, 0x35, 0x7D]"
  by code_simp

text \<open>Version 2.10.0 is taken for an old one.\<close>

lemma version_2_10: "Login_ToPacketWithVersion [0x32, 0x2E, 0x31, 0x30, 0x2E, 0x30] H p l = Login_ToPacket H p l"
  by (simp add: Login_ToPacketWithVersion_def)

subsection \<open>Changes of properties\<close>

definition enc_one_change :: "one_change \<Rightarrow> byte list" where
  "enc_one_change c = enc_word (word_of_int (oc_id c) :: 32 word) @ enc_word (ucast (oc_current c) :: 32 word)
     @ enc_word (word_of_int (oc_changed c) :: 32 word) @ enc_word (word_of_int (int (length (oc_other c))) :: 32 word)
     @ concat (map (\<lambda>v. enc_word (word_of_int v :: 32 word)) (oc_other c))"

definition enc_change :: "property_change \<Rightarrow> byte list" where
  "enc_change c = enc_word (pc_player c) @ enc_string (pc_title c) @ enc_word (pc_reason c)
     @ enc_word (word_of_int (int (length (pc_props c))) :: 32 word) @ concat (map (\<lambda>kv. enc_one_change (snd kv)) (pc_props c))"

lemma one_change_writes: "writes (\<lambda>H p. OneChange_ToPacket H p c) (enc_one_change c)"
  unfolding OneChange_ToPacket_def enc_one_change_def by (intro stream_rules)

lemma change_writes: "valid_string (pc_title c) \<Longrightarrow> writes (\<lambda>H p. PropertyChange_ToPacket H p c) (enc_change c)"
  unfolding PropertyChange_ToPacket_def enc_change_def by (intro stream_rules one_change_writes)

text \<open>What \<open>PlayerPropertyChange::ToPacket\<close> writes can be read back exactly when no property has changed; otherwise
  \<open>FromPacket\<close> stores elements under a number that was never read.\<close>

theorem change_packet_unreadable:
  assumes "heap_ok H" "valid_string (pc_title c)" "length (pc_props c) < 2 ^ 31" "8 + length (enc_change c) < 2 ^ 32" "op < 2 ^ 32" "pk_good p0"
  shows "\<exists>p p1 r p2. Packet_new_opcode H op = Some p \<and> PropertyChange_ToPacket H p c = Some p1 \<and> Packet_doEndpointEncode H p1 = Some r
    \<and> Packet_doEndpointDecode H p0 r = Some p2
    \<and> map_option fst (PropertyChange_FromPacket \<lparr>pc_player = 0, pc_title = [], pc_reason = 0, pc_props = []\<rparr> p2)
      = (if pc_props c = [] then Some c else None)"
proof -
  let ?new = "\<lparr>pc_player = 0, pc_title = [], pc_reason = 0, pc_props = []\<rparr>" and ?n = "int (length (pc_props c))"
  let ?rest = "concat (map (\<lambda>kv. enc_one_change (snd kv)) (pc_props c))"
  obtain p p1 r p2 where w: "Packet_new_opcode H op = Some p" "PropertyChange_ToPacket H p c = Some p1" "Packet_doEndpointEncode H p1 = Some r"
    "Packet_doEndpointDecode H p0 r = Some p2" "pk_ok p2" "pk_unread p2 = enc_change c"
    using writes_sent[OF assms(1) change_writes[OF assms(2)] assms(4-6)] by blast
  have n: "in_i32 ?n" using assms(3) by simp
  obtain q1 where q1: "get_word p2 = Some (pc_player c, q1)" "pk_ok q1"
    "pk_unread q1 = enc_string (pc_title c) @ enc_word (pc_reason c) @ enc_word (word_of_int ?n :: 32 word) @ ?rest"
    using u32.get_reads[OF w(5) TrueI, of "pc_player c"] w(6) unfolding enc_change_def by blast
  obtain q2 where q2: "get_string q1 [] = Some (pc_title c, q2)" "pk_ok q2"
    "pk_unread q2 = enc_word (pc_reason c) @ enc_word (word_of_int ?n :: 32 word) @ ?rest"
    using str.get_reads[OF q1(2) assms(2) q1(3)] by blast
  obtain q3 where q3: "get_word q2 = Some (pc_reason c, q3)" "pk_ok q3" "pk_unread q3 = enc_word (word_of_int ?n :: 32 word) @ ?rest"
    using u32.get_reads[OF q2(2) TrueI q2(3)] by blast
  obtain q4 where q4: "get_i32 q3 = Some (?n, q4)"
    using i32.get_reads[OF q3(2) n q3(3)] by blast
  have "map_option fst (PropertyChange_FromPacket ?new p2) = (if pc_props c = [] then Some c else None)"
    using q1(1) q2(1) q3(1) q4 by (simp add: PropertyChange_FromPacket_def)
  then show ?thesis using w by blast
qed

theorem change_packet_unreadable_witness:
  "\<exists>p p1 r p2. Packet_new_opcode plenty 3 = Some p
    \<and> PropertyChange_ToPacket plenty p \<lparr>pc_player = 1, pc_title = [], pc_reason = 0, pc_props = [(1, \<lparr>oc_id = 1, oc_current = 2, oc_changed = 1, oc_other = []\<rparr>)]\<rparr> = Some p1
    \<and> Packet_doEndpointEncode plenty p1 = Some r \<and> Packet_doEndpointDecode plenty old_packet r = Some p2
    \<and> PropertyChange_FromPacket \<lparr>pc_player = 0, pc_title = [], pc_reason = 0, pc_props = []\<rparr> p2 = None"
proof -
  let ?c = "\<lparr>pc_player = 1, pc_title = [], pc_reason = 0, pc_props = [(1, \<lparr>oc_id = 1, oc_current = 2, oc_changed = 1, oc_other = []\<rparr>)]\<rparr>"
  have "valid_string (pc_title ?c)" "length (pc_props ?c) < 2 ^ 31" "8 + length (enc_change ?c) < 2 ^ 32"
    by (simp_all add: valid_string_def enc_change_def enc_one_change_def enc_string_def)
  from change_packet_unreadable[OF heap_ok_plenty this _ old_packet_good, of 3] show ?thesis by auto
qed

end
