(* ===== verification/Json.thy ===== *)
theory Json
  imports C_Text Packet_Streams
begin

text \<open>
  rapidjson, as far as the code uses it: a parameter \<open>J\<close> that holds the constructors and the queries of its values,
  and the documented laws the results rest on (\<open>json_ok\<close>).  A number is an integer of at most 64 bits; \<open>IsInt\<close>,
  \<open>IsUint\<close>, \<open>IsInt64\<close> and \<open>IsUint64\<close> ask for the range of its value.  \<open>demo_json\<close> satisfies the laws.
\<close>

definition bytes :: "string \<Rightarrow> byte list" where
  "bytes s = map (\<lambda>c. word_of_nat (of_char c)) s"

lemma char_byte [simp]: "(word_of_nat (of_char c) :: byte) = word_of_nat (of_char d) \<longleftrightarrow> c = d"
proof
  assume "(word_of_nat (of_char c) :: byte) = word_of_nat (of_char d)"
  then have "unat (word_of_nat (of_char c) :: byte) = unat (word_of_nat (of_char d) :: byte)" by simp
  then have "(of_char c :: nat) = of_char d" by (simp add: unat_of_nat take_bit_nat_eq_self)
  then show "c = d" by simp
qed simp

lemma bytes_eq [simp]: "bytes s = bytes t \<longleftrightarrow> s = t"
  unfolding bytes_def by (rule inj_map_eq_map) (simp add: inj_def)

record 'j json_api =
  js_object :: 'j
  js_array :: 'j
  js_num :: "int \<Rightarrow> 'j"
  js_float :: "32 word \<Rightarrow> 'j"
  js_str :: "byte list \<Rightarrow> 'j"
  js_add :: "'j \<Rightarrow> byte list \<Rightarrow> 'j \<Rightarrow> 'j"
  js_push :: "'j \<Rightarrow> 'j \<Rightarrow> 'j"
  js_is_object :: "'j \<Rightarrow> bool"
  js_is_array :: "'j \<Rightarrow> bool"
  js_to_int :: "'j \<Rightarrow> int option"
  js_to_float :: "'j \<Rightarrow> 32 word option"
  js_to_str :: "'j \<Rightarrow> byte list option"
  js_member :: "'j \<Rightarrow> byte list \<Rightarrow> 'j option"
  js_members :: "'j \<Rightarrow> (byte list \<times> 'j) list"
  js_elements :: "'j \<Rightarrow> 'j list"
  js_parse :: "byte list \<Rightarrow> 'j"

text \<open>A C string ends at its first NUL.\<close>

definition cstr :: "byte list \<Rightarrow> byte list" where
  "cstr s = takeWhile (\<lambda>b. b \<noteq> 0) s"

lemma cstr_id: "0 \<notin> set s \<Longrightarrow> cstr s = s"
  by (auto simp: cstr_def takeWhile_eq_all_conv)

definition js_obj :: "('j, 'z) json_api_scheme \<Rightarrow> (byte list \<times> 'j) list \<Rightarrow> 'j" where
  "js_obj J kvs = fold (\<lambda>(k, v) j. js_add J j k v) kvs (js_object J)"

definition js_arr :: "('j, 'z) json_api_scheme \<Rightarrow> 'j list \<Rightarrow> 'j" where
  "js_arr J vs = fold (\<lambda>v j. js_push J j v) vs (js_array J)"

definition json_ok :: "('j, 'z) json_api_scheme \<Rightarrow> bool" where
  "json_ok J \<longleftrightarrow>
     (\<forall>i. - (2 ^ 63) \<le> i \<longrightarrow> i < 2 ^ 64 \<longrightarrow> js_to_int J (js_num J i) = Some i) \<and>
     (\<forall>w. js_to_float J (js_float J w) = Some w) \<and>
     (\<forall>s. js_to_str J (js_str J s) = Some s) \<and>
     js_is_object J (js_object J) \<and> js_members J (js_object J) = [] \<and>
     (\<forall>j k v. js_is_object J j \<longrightarrow> js_is_object J (js_add J j k v) \<and> js_members J (js_add J j k v) = js_members J j @ [(k, v)]) \<and>
     (\<forall>j k. js_is_object J j \<longrightarrow> distinct (map fst (js_members J j)) \<longrightarrow> js_member J j k = map_of (js_members J j) k) \<and>
     js_is_array J (js_array J) \<and> js_elements J (js_array J) = [] \<and>
     (\<forall>j v. js_is_array J j \<longrightarrow> js_is_array J (js_push J j v) \<and> js_elements J (js_push J j v) = js_elements J j @ [v])"

lemma json_okD:
  assumes "json_ok J"
  shows "- (2 ^ 63) \<le> i \<Longrightarrow> i < 2 ^ 64 \<Longrightarrow> js_to_int J (js_num J i) = Some i"
    "js_to_float J (js_float J w) = Some w" "js_to_str J (js_str J s) = Some s"
  using assms by (simp_all add: json_ok_def)

lemma js_obj_members:
  assumes "json_ok J"
  shows "js_is_object J (js_obj J kvs) \<and> js_members J (js_obj J kvs) = kvs"
proof -
  have "js_is_object J j \<Longrightarrow> js_is_object J (fold (\<lambda>(k, v) j. js_add J j k v) kvs j)
      \<and> js_members J (fold (\<lambda>(k, v) j. js_add J j k v) kvs j) = js_members J j @ kvs" for j
  proof (induction kvs arbitrary: j)
    case (Cons kv kvs)
    then show ?case using assms by (cases kv) (simp add: json_ok_def)
  qed simp
  then show ?thesis using assms by (simp add: js_obj_def json_ok_def)
qed

lemma js_obj_member:
  assumes "json_ok J" "distinct (map fst kvs)"
  shows "js_member J (js_obj J kvs) k = map_of kvs k"
  using js_obj_members[OF assms(1), of kvs] assms by (simp add: json_ok_def)

lemma js_arr_elements:
  assumes "json_ok J"
  shows "js_is_array J (js_arr J vs) \<and> js_elements J (js_arr J vs) = vs"
proof -
  have "js_is_array J j \<Longrightarrow> js_is_array J (fold (\<lambda>v j. js_push J j v) vs j)
      \<and> js_elements J (fold (\<lambda>v j. js_push J j v) vs j) = js_elements J j @ vs" for j
    by (induction vs arbitrary: j) (use assms in \<open>simp_all add: json_ok_def\<close>)
  then show ?thesis using assms by (simp add: js_arr_def json_ok_def)
qed

subsection \<open>Reading\<close>

text \<open>\<open>if (json.HasMember(key) && json[key].IsX()) field = json[key].GetX();\<close>\<close>

definition read_member :: "('j, 'z) json_api_scheme \<Rightarrow> 'j \<Rightarrow> string \<Rightarrow> ('j \<Rightarrow> 'a option) \<Rightarrow> 'a option" where
  "read_member J j key f = (case js_member J j (bytes key) of None \<Rightarrow> None | Some v \<Rightarrow> f v)"

definition get_if :: "('j, 'z) json_api_scheme \<Rightarrow> 'j \<Rightarrow> string \<Rightarrow> ('j \<Rightarrow> 'a option) \<Rightarrow> 'a \<Rightarrow> 'a" where
  "get_if J j key f old = (case read_member J j key f of None \<Rightarrow> old | Some x \<Rightarrow> x)"

definition in_range :: "int \<Rightarrow> int \<Rightarrow> ('j, 'z) json_api_scheme \<Rightarrow> 'j \<Rightarrow> int option" where
  "in_range lo hi J v = (case js_to_int J v of Some i \<Rightarrow> if lo \<le> i \<and> i < hi then Some i else None | None \<Rightarrow> None)"

definition get_Int :: "('j, 'z) json_api_scheme \<Rightarrow> 'j \<Rightarrow> int option" where
  "get_Int = in_range (- (2 ^ 31)) (2 ^ 31)"

definition get_Uint :: "('j, 'z) json_api_scheme \<Rightarrow> 'j \<Rightarrow> int option" where
  "get_Uint = in_range 0 (2 ^ 32)"

definition get_Int64 :: "('j, 'z) json_api_scheme \<Rightarrow> 'j \<Rightarrow> int option" where
  "get_Int64 = in_range (- (2 ^ 63)) (2 ^ 63)"

definition get_Uint64 :: "('j, 'z) json_api_scheme \<Rightarrow> 'j \<Rightarrow> int option" where
  "get_Uint64 = in_range 0 (2 ^ 64)"

definition get_String :: "('j, 'z) json_api_scheme \<Rightarrow> 'j \<Rightarrow> byte list option" where
  "get_String J v = map_option cstr (js_to_str J v)"

text \<open>An integer as an unsigned member of width \<open>'a\<close>.\<close>

definition get_word_of :: "('j \<Rightarrow> int option) \<Rightarrow> 'j \<Rightarrow> 'a::len word option" where
  "get_word_of f v = map_option word_of_int (f v)"

lemma get_num:
  assumes "json_ok J" "- (2 ^ 63) \<le> i" "i < 2 ^ 64"
  shows "get_Int J (js_num J i) = (if in_i32 i then Some i else None)"
    "get_Uint J (js_num J i) = (if 0 \<le> i \<and> i < 2 ^ 32 then Some i else None)"
    "get_Int64 J (js_num J i) = (if in_i64 i then Some i else None)"
    "get_Uint64 J (js_num J i) = (if 0 \<le> i \<and> i < 2 ^ 64 then Some i else None)"
  using assms by (simp_all add: get_Int_def get_Uint_def get_Int64_def get_Uint64_def in_range_def json_okD)

lemma get_String_str: "json_ok J \<Longrightarrow> get_String J (js_str J s) = Some (cstr s)"
  by (simp add: get_String_def json_okD)

subsection \<open>An instance\<close>

datatype demo_value = DNum int | DFloat "32 word" | DStr "byte list" | DObject "(byte list \<times> demo_value) list" | DArray "demo_value list" | DNull

definition demo_json :: "(byte list \<Rightarrow> demo_value) \<Rightarrow> demo_value json_api" where
  "demo_json parse = \<lparr>js_object = DObject [], js_array = DArray [], js_num = DNum, js_float = DFloat, js_str = DStr,
     js_add = (\<lambda>j k v. case j of DObject kvs \<Rightarrow> DObject (kvs @ [(k, v)]) | _ \<Rightarrow> j),
     js_push = (\<lambda>j v. case j of DArray vs \<Rightarrow> DArray (vs @ [v]) | _ \<Rightarrow> j),
     js_is_object = (\<lambda>j. case j of DObject _ \<Rightarrow> True | _ \<Rightarrow> False), js_is_array = (\<lambda>j. case j of DArray _ \<Rightarrow> True | _ \<Rightarrow> False),
     js_to_int = (\<lambda>j. case j of DNum i \<Rightarrow> Some i | _ \<Rightarrow> None), js_to_float = (\<lambda>j. case j of DFloat w \<Rightarrow> Some w | _ \<Rightarrow> None),
     js_to_str = (\<lambda>j. case j of DStr s \<Rightarrow> Some s | _ \<Rightarrow> None),
     js_member = (\<lambda>j k. case j of DObject kvs \<Rightarrow> map_of kvs k | _ \<Rightarrow> None),
     js_members = (\<lambda>j. case j of DObject kvs \<Rightarrow> kvs | _ \<Rightarrow> []),
     js_elements = (\<lambda>j. case j of DArray vs \<Rightarrow> vs | _ \<Rightarrow> []), js_parse = parse\<rparr>"

lemma demo_json_ok [simp]: "json_ok (demo_json parse)"
  by (auto simp: json_ok_def demo_json_def split: demo_value.splits)

end
