(* ===== verification/Attributes_Json.thy ===== *)
theory Attributes_Json
  imports Attributes Json
begin

text \<open>
  The JSON forms of accounts, property tables, activities and offline changes (\<open>player_def.cpp\<close>).
\<close>

subsection \<open>Accounts\<close>

text \<open>The key of \<open>thirdlogin\<close> is written with a blank at its end.\<close>

definition Account_ToJson :: "('j, 'z) json_api_scheme \<Rightarrow> account_info \<Rightarrow> 'j" where
  "Account_ToJson J a = js_obj J
     [(bytes ''nick'', js_str J (cstr (ai_nick a))),
      (bytes ''icon'', js_num J (uint (ai_icon a))),
      (bytes ''sex'', js_num J (uint (ai_sex a))),
      (bytes ''birthday'', js_num J (uint (ai_birthday a))),
      (bytes ''thirdlogin '', js_str J (cstr (ai_thirdlogin a))),
      (bytes ''avatar'', js_str J (cstr (ai_avatar a)))]"

definition Account_FromJson :: "('j, 'z) json_api_scheme \<Rightarrow> 'j \<Rightarrow> account_info \<Rightarrow> account_info" where
  "Account_FromJson J o1 a =
     (if \<not> js_is_object J o1 then a
      else a\<lparr>ai_nick := get_if J o1 ''nick'' (get_String J) (ai_nick a),
        ai_icon := get_if J o1 ''icon'' (get_word_of (get_Int J)) (ai_icon a),
        ai_sex := get_if J o1 ''sex'' (get_word_of (get_Int J)) (ai_sex a),
        ai_birthday := get_if J o1 ''birthday'' (get_word_of (get_Int J)) (ai_birthday a),
        ai_thirdlogin := get_if J o1 ''thirdlogin'' (get_String J) (ai_thirdlogin a),
        ai_avatar := get_if J o1 ''avatar'' (get_String J) (ai_avatar a)\<rparr>)"

subsection \<open>Property tables\<close>

text \<open>A value that is no integer of 64 bits is undefined, as \<open>GetInt64\<close> is called without a test; so is a name that
  is no \<open>int\<close> for \<open>atoi\<close>.\<close>

definition prop_member :: "('j, 'z) json_api_scheme \<Rightarrow> byte list \<times> 'j \<Rightarrow> prop_map \<Rightarrow> prop_map option" where
  "prop_member J kv m = do {
     i \<leftarrow> c_atoi (cstr (fst kv));
     n \<leftarrow> get_Int64 J (snd kv);
     Some (omap_put i n m) }"

definition PropTable_FromJson :: "('j, 'z) json_api_scheme \<Rightarrow> 'j \<Rightarrow> prop_table \<Rightarrow> prop_table option" where
  "PropTable_FromJson J resp t = (case get_String J resp of
     None \<Rightarrow> Some t
   | Some text \<Rightarrow>
       let json = js_parse J text in
       if \<not> js_is_object J json then Some t
       else map_option (\<lambda>m. t\<lparr>pt_map := m\<rparr>) (each (prop_member J) (js_members J json) (pt_map t)))"

subsection \<open>Activities\<close>

type_synonym activity = "(byte list \<times> int) list"
type_synonym all_activity = "(int \<times> activity) list"

definition Activity_ToJson :: "('j, 'z) json_api_scheme \<Rightarrow> activity \<Rightarrow> 'j" where
  "Activity_ToJson J a = js_obj J (map (\<lambda>(k, v). (cstr k, js_num J v)) a)"

definition Activity_FromJson :: "('j, 'z) json_api_scheme \<Rightarrow> 'j \<Rightarrow> activity \<Rightarrow> activity" where
  "Activity_FromJson J json a =
     fold (\<lambda>(k, v) a. case get_Int J v of None \<Rightarrow> a | Some n \<Rightarrow> omap_insert (cstr k) n a) (js_members J json) a"

definition AllActivity_ToJson :: "('j, 'z) json_api_scheme \<Rightarrow> all_activity \<Rightarrow> 'j" where
  "AllActivity_ToJson J all = js_obj J (map (\<lambda>(i, a). (show_int i, Activity_ToJson J a)) all)"

definition activity_member :: "('j, 'z) json_api_scheme \<Rightarrow> byte list \<times> 'j \<Rightarrow> all_activity \<Rightarrow> all_activity option" where
  "activity_member J kv all =
     (if js_is_object J (snd kv) then do {
        i \<leftarrow> c_atoi (cstr (fst kv));
        Some (omap_insert i (Activity_FromJson J (snd kv) []) all) }
      else Some all)"

text \<open>A value that is no object is reported, but its members are read all the same, which is undefined.\<close>

definition AllActivity_FromJson :: "('j, 'z) json_api_scheme \<Rightarrow> 'j \<Rightarrow> all_activity \<Rightarrow> all_activity option" where
  "AllActivity_FromJson J json all =
     (if js_is_object J json then each (activity_member J) (js_members J json) all else None)"

subsection \<open>Changes of an offline player\<close>

record offline_change =
  of_id :: int
  of_player :: "32 word"
  of_property :: int
  of_change :: int
  of_type :: int
  of_flags :: int
  of_money :: "32 word"

definition Offline_new :: offline_change where
  "Offline_new = \<lparr>of_id = 0, of_player = 0, of_property = 0, of_change = 0, of_type = 0, of_flags = 0, of_money = 0\<rparr>"

definition Offline_ToJson :: "('j, 'z) json_api_scheme \<Rightarrow> offline_change \<Rightarrow> 'j" where
  "Offline_ToJson J c = js_obj J
     [(bytes ''playerId'', js_num J (uint (of_player c))),
      (bytes ''propertyId'', js_num J (of_property c)),
      (bytes ''change'', js_num J (of_change c)),
      (bytes ''changeType'', js_num J (of_type c)),
      (bytes ''flags'', js_num J (of_flags c)),
      (bytes ''payMoney'', js_float J (of_money c)),
      (bytes ''id'', js_num J (of_id c))]"

text \<open>\<open>GetUint\<close> of a negative number and \<open>GetInt\<close> of a number that is no \<open>int\<close> are undefined.\<close>

definition get_number_Int :: "('j, 'z) json_api_scheme \<Rightarrow> 'j \<Rightarrow> int option option" where
  "get_number_Int J v = (case js_to_int J v of
     Some i \<Rightarrow> (case get_Int J v of Some n \<Rightarrow> Some (Some n) | None \<Rightarrow> None)
   | None \<Rightarrow> (case js_to_float J v of Some w \<Rightarrow> None | None \<Rightarrow> Some None))"

definition Offline_FromJson :: "('j, 'z) json_api_scheme \<Rightarrow> 'j \<Rightarrow> offline_change \<Rightarrow> offline_change option" where
  "Offline_FromJson J resp c =
     (if \<not> js_is_object J resp then Some c
      else do {
        player \<leftarrow> (case read_member J resp ''playerId'' (get_Int J) of
          None \<Rightarrow> Some (of_player c) | Some i \<Rightarrow> if i < 0 then None else Some (word_of_int i));
        num \<leftarrow> (case js_member J resp (bytes ''id'') of None \<Rightarrow> Some None | Some v \<Rightarrow> get_number_Int J v);
        Some (c\<lparr>of_player := player,
          of_property := get_if J resp ''propertyId'' (get_Int J) (of_property c),
          of_change := get_if J resp ''change'' (get_Int J) (of_change c),
          of_type := get_if J resp ''changeType'' (get_Int J) (of_type c),
          of_flags := get_if J resp ''flags'' (get_Int J) (of_flags c),
          of_money := get_if J resp ''payMoney'' (js_to_float J) (of_money c),
          of_id := (case num of None \<Rightarrow> of_id c | Some i \<Rightarrow> i)\<rparr>) })"

definition OfflineList_ToJson :: "('j, 'z) json_api_scheme \<Rightarrow> offline_change list \<Rightarrow> 'j" where
  "OfflineList_ToJson J cs = js_obj J
     [(bytes ''count'', js_num J (sint (word_of_nat (length cs) :: 32 word))),
      (bytes ''propertyChanges'', js_arr J (map (Offline_ToJson J) cs))]"

definition offline_element :: "('j, 'z) json_api_scheme \<Rightarrow> 'j \<Rightarrow> offline_change list \<Rightarrow> offline_change list option" where
  "offline_element J v cs = (if js_is_object J v then map_option (\<lambda>c. cs @ [c]) (Offline_FromJson J v Offline_new) else Some cs)"

text \<open>\<open>total_count\<close> and the list of changes.\<close>

definition OfflineList_FromJson :: "('j, 'z) json_api_scheme \<Rightarrow> 'j \<Rightarrow> int \<times> offline_change list \<Rightarrow> (int \<times> offline_change list) option" where
  "OfflineList_FromJson J resp l =
     (if \<not> js_is_object J resp then Some l
      else do {
        cs \<leftarrow> (case js_member J resp (bytes ''propertyChanges'') of
          Some v \<Rightarrow> if js_is_array J v then each (offline_element J) (js_elements J v) (snd l) else Some (snd l)
        | None \<Rightarrow> Some (snd l));
        Some (get_if J resp ''count'' (get_Int J) (fst l), cs) })"

end
