(* ===== verification/Character_Json.thy ===== *)
theory Character_Json
  imports Attributes_Json
begin

text \<open>
  \<open>PlayerCharacterInfo\<close>: its members, the packets with its amounts, and its JSON form (\<open>player_def.cpp\<close>).  The
  object owns its table of properties, its tasks (a text) and its activities.
\<close>

record character =
  ch_gold :: "64 word"
  ch_diamonds :: "64 word"
  ch_account :: "32 word"
  ch_note :: "32 word"
  ch_played :: "32 word"
  ch_wined :: "32 word"
  ch_maxwin :: int
  ch_maxlose :: int
  ch_spree :: "32 word"
  ch_spree_time :: "32 word"
  ch_spree_rest :: "32 word"
  ch_spree_sum :: "32 word"
  ch_rank_time :: "32 word"
  ch_all_maxwin :: int
  ch_day_maxwin :: int
  ch_caishen :: int
  ch_wanren :: int
  ch_payment :: int
  ch_yesterday :: int
  ch_t_maxwin :: int
  ch_t_caishen :: int
  ch_t_wanren :: int
  ch_t_payment :: int
  ch_rank :: "32 word"
  ch_guarantee :: "8 word"
  ch_max_guarantee :: "8 word"
  ch_t_guarantee :: int
  ch_raffle :: "32 word"
  ch_raffle_time :: "32 word"
  ch_fill :: "32 word"
  ch_next_spree :: "32 word"
  ch_money_tree :: "32 word"
  ch_settings :: "32 word"
  ch_last_match :: "32 word"
  ch_continuous :: "32 word"
  ch_title :: "byte list"
  ch_invite :: player_invite
  ch_props :: prop_table
  ch_tasks :: "byte list"
  ch_activities :: all_activity

text \<open>\<open>SyncProPertyToCharacterInfo\<close>\<close>

definition prop_value :: "int \<Rightarrow> prop_map \<Rightarrow> int" where
  "prop_value i m = (case omap_find m i of None \<Rightarrow> 0 | Some v \<Rightarrow> v)"

definition SyncProperty :: "character \<Rightarrow> character" where
  "SyncProperty c = c\<lparr>ch_gold := word_of_int (prop_value PROPERTY_GOLD_COINS (pt_map (ch_props c))),
     ch_note := word_of_int (prop_value PROPERTY_GOLD_NOTES (pt_map (ch_props c))),
     ch_raffle := word_of_int (prop_value PROPERTY_TICKET (pt_map (ch_props c))),
     ch_diamonds := word_of_int (prop_value PROPERTY_DIAMONDS (pt_map (ch_props c)))\<rparr>"

text \<open>The constructor; \<open>title\<close> is the text in the source.\<close>

definition default_props :: prop_map where
  "default_props = fold (\<lambda>(i, n). omap_put i n)
     [(PROPERTY_GOLD_COINS, 20000), (PROPERTY_GOLD_NOTES, 0), (PROPERTY_DIAMONDS, 0), (PROPERTY_HORN, 5), (PROPERTY_TOTAL_CHARGE_FEE, 0),
      (PROPERTY_TICKET, 0), (PROPERTY_VIP, 0), (PROPERTY_MESSAGE_CHARGE_FEE, 0), (PROPERTY_CAISHEN_PLAYED_TIMES, 0)] []"

definition Character_new :: "byte list \<Rightarrow> character" where
  "Character_new title = SyncProperty \<lparr>ch_gold = 0,
     ch_diamonds = 0,
     ch_account = 0,
     ch_note = 0,
     ch_played = 0,
     ch_wined = 0,
     ch_maxwin = 0,
     ch_maxlose = 0,
     ch_spree = 0,
     ch_spree_time = 0,
     ch_spree_rest = 0,
     ch_spree_sum = 0,
     ch_rank_time = 0,
     ch_all_maxwin = 0,
     ch_day_maxwin = 0,
     ch_caishen = 0,
     ch_wanren = 0,
     ch_payment = 0,
     ch_yesterday = 0,
     ch_t_maxwin = 0,
     ch_t_caishen = 0,
     ch_t_wanren = 0,
     ch_t_payment = 0,
     ch_rank = 0,
     ch_guarantee = 0,
     ch_max_guarantee = 2,
     ch_t_guarantee = 0,
     ch_raffle = 0,
     ch_raffle_time = 0,
     ch_fill = 0,
     ch_next_spree = 0,
     ch_money_tree = 0,
     ch_settings = 0,
     ch_last_match = 0,
     ch_continuous = 1,
     ch_title = title,
     ch_invite = Invite_new,
     ch_props = PropTable_new\<lparr>pt_map := default_props\<rparr>,
     ch_tasks = [],
     ch_activities = []\<rparr>"

definition Character_ToSimplePacket :: "heap_env \<Rightarrow> packet \<Rightarrow> character \<Rightarrow> packet option" where
  "Character_ToSimplePacket H p c = do {
     p \<leftarrow> put_word H p (word_of_int (prop_value PROPERTY_GOLD_COINS (pt_map (ch_props c))) :: 32 word);
     p \<leftarrow> put_word H p (word_of_int (prop_value PROPERTY_DIAMONDS (pt_map (ch_props c))) :: 32 word);
     put_word H p (word_of_int (prop_value PROPERTY_VIP (pt_map (ch_props c))) :: 32 word) }"

definition Character_ToSimplePacketEx :: "heap_env \<Rightarrow> packet \<Rightarrow> character \<Rightarrow> packet option" where
  "Character_ToSimplePacketEx H p c = do {
     p \<leftarrow> put_word H p (word_of_int (prop_value PROPERTY_GOLD_COINS (pt_map (ch_props c))) :: 64 word);
     p \<leftarrow> put_word H p (word_of_int (prop_value PROPERTY_DIAMONDS (pt_map (ch_props c))) :: 64 word);
     put_word H p (word_of_int (prop_value PROPERTY_VIP (pt_map (ch_props c))) :: 32 word) }"

subsection \<open>JSON\<close>

definition character_members :: "('j, 'z) json_api_scheme \<Rightarrow> character \<Rightarrow> byte list \<Rightarrow> (byte list \<times> 'j) list" where
  "character_members J c prop_json =
     [(bytes ''played'', js_num J (uint (ch_played c))),
      (bytes ''wined'', js_num J (uint (ch_wined c))),
      (bytes ''maxwin'', js_num J (ch_maxwin c)),
      (bytes ''maxlose'', js_num J (ch_maxlose c)),
      (bytes ''onlineSpree'', js_num J (uint (ch_spree c))),
      (bytes ''online_spree_time'', js_num J (uint (ch_spree_time c))),
      (bytes ''nextSpreeRemaningTime'', js_num J (uint (ch_spree_rest c))),
      (bytes ''online_spree_sum'', js_num J (uint (ch_spree_sum c))),
      (bytes ''rank_time'', js_num J (uint (ch_rank_time c))),
      (bytes ''allday_maxwin'', js_num J (ch_all_maxwin c)),
      (bytes ''day_maxwin'', js_num J (ch_day_maxwin c)),
      (bytes ''day_caishen'', js_num J (ch_caishen c)),
      (bytes ''day_wanren'', js_num J (ch_wanren c)),
      (bytes ''day_payment'', js_num J (ch_payment c)),
      (bytes ''yesterday_payment'', js_num J (ch_yesterday c)),
      (bytes ''lastTimeOfDayMaxWin'', js_num J (ch_t_maxwin c)),
      (bytes ''lastTimeOfDayCaishen'', js_num J (ch_t_caishen c)),
      (bytes ''lastTimeOfWanRen'', js_num J (ch_t_wanren c)),
      (bytes ''lastTimeOfDayPayment'', js_num J (ch_t_payment c)),
      (bytes ''rank'', js_num J (uint (ch_rank c))),
      (bytes ''current_guarantee_basic_living_times'', js_num J (uint (ch_guarantee c))),
      (bytes ''maxGuaranteeBasicLivingTimes'', js_num J (uint (ch_max_guarantee c))),
      (bytes ''last_time_of_reset_guarantee_basic_living_times'', js_num J (ch_t_guarantee c)),
      (bytes ''raffle'', js_num J (uint (ch_raffle c))),
      (bytes ''raffle_time'', js_num J (uint (ch_raffle_time c))),
      (bytes ''maxFillCoins'', js_num J (uint (ch_fill c))),
      (bytes ''nextSpreeValue'', js_num J (uint (ch_next_spree c))),
      (bytes ''lastTimeOfMoneyTreeRock'', js_num J (uint (ch_money_tree c))),
      (bytes ''settings'', js_num J (uint (ch_settings c))),
      (bytes ''last_match_type'', js_num J (uint (ch_last_match c))),
      (bytes ''continuous_login'', js_num J (uint (ch_continuous c))),
      (bytes ''state'', js_num J 0),
      (bytes ''Title'', js_str J (cstr (ch_title c))),
      (bytes ''invite'', js_str J (cstr (pi_count (ch_invite c)))),
      (bytes ''invited'', js_str J (cstr (pi_invited (ch_invite c)))),
      (bytes ''activity'', AllActivity_ToJson J (ch_activities c)),
      (bytes ''propertyInfo'', js_str J (cstr (PropTable_ToJson (ch_props c) prop_json))),
      (bytes ''playerTaskInfoMap'', js_str J (cstr (ch_tasks c)))]"

definition Character_ToJson :: "('j, 'z) json_api_scheme \<Rightarrow> character \<Rightarrow> byte list \<Rightarrow> 'j" where
  "Character_ToJson J c prop_json = js_obj J (character_members J c prop_json)"

text \<open>The numbers.\<close>

definition read_numbers :: "('j, 'z) json_api_scheme \<Rightarrow> 'j \<Rightarrow> character \<Rightarrow> character" where
  "read_numbers J resp c = c\<lparr>ch_played := get_if J resp ''played'' (get_word_of (get_Int J)) (ch_played c),
     ch_wined := get_if J resp ''wined'' (get_word_of (get_Int J)) (ch_wined c),
     ch_maxwin := get_if J resp ''maxwin'' (get_Int64 J) (ch_maxwin c),
     ch_maxlose := get_if J resp ''maxlose'' (get_Int64 J) (ch_maxlose c),
     ch_spree := get_if J resp ''onlineSpree'' (get_word_of (get_Int J)) (ch_spree c),
     ch_spree_time := get_if J resp ''online_spree_time'' (get_word_of (get_Int J)) (ch_spree_time c),
     ch_spree_rest := get_if J resp ''nextSpreeRemaningTime'' (get_word_of (get_Int J)) (ch_spree_rest c),
     ch_spree_sum := get_if J resp ''online_spree_sum'' (get_word_of (get_Int J)) (ch_spree_sum c),
     ch_rank_time := get_if J resp ''rank_time'' (get_word_of (get_Int J)) (ch_rank_time c),
     ch_all_maxwin := get_if J resp ''allday_maxwin'' (get_Int64 J) (ch_all_maxwin c),
     ch_day_maxwin := get_if J resp ''day_maxwin'' (get_Int64 J) (ch_day_maxwin c),
     ch_caishen := get_if J resp ''day_caishen'' (get_Int64 J) (ch_caishen c),
     ch_wanren := get_if J resp ''day_wanren'' (get_Int64 J) (ch_wanren c),
     ch_payment := get_if J resp ''day_payment'' (get_Int64 J) (ch_payment c),
     ch_yesterday := get_if J resp ''yesterday_payment'' (get_Int64 J) (ch_yesterday c),
     ch_t_maxwin := get_if J resp ''lastTimeOfDayMaxWin'' (get_Int J) (ch_t_maxwin c),
     ch_t_caishen := get_if J resp ''lastTimeOfDayCaishen'' (get_Int J) (ch_t_caishen c),
     ch_t_wanren := get_if J resp ''lastTimeOfWanRen'' (get_Int J) (ch_t_wanren c),
     ch_t_payment := get_if J resp ''lastTimeOfDayPayment'' (get_Int J) (ch_t_payment c),
     ch_rank := get_if J resp ''rank'' (get_word_of (get_Int J)) (ch_rank c),
     ch_guarantee := get_if J resp ''current_guarantee_basic_living_times'' (get_word_of (get_Int J)) (ch_guarantee c),
     ch_max_guarantee := get_if J resp ''maxGuaranteeBasicLivingTimes'' (get_word_of (get_Int J)) (ch_max_guarantee c),
     ch_t_guarantee := get_if J resp ''last_time_of_reset_guarantee_basic_living_times'' (get_Int64 J) (ch_t_guarantee c),
     ch_raffle := get_if J resp ''raffle'' (get_word_of (get_Int J)) (ch_raffle c),
     ch_raffle_time := get_if J resp ''raffle_time'' (get_word_of (get_Int J)) (ch_raffle_time c),
     ch_fill := get_if J resp ''maxFillCoins'' (get_word_of (get_Int J)) (ch_fill c),
     ch_next_spree := get_if J resp ''nextSpreeValue'' (get_word_of (get_Int J)) (ch_next_spree c),
     ch_money_tree := get_if J resp ''lastTimeOfMoneyTreeRock'' (get_word_of (get_Int J)) (ch_money_tree c),
     ch_settings := get_if J resp ''settings'' (get_word_of (get_Int J)) (ch_settings c),
     ch_last_match := get_if J resp ''last_match_type'' (get_word_of (get_Int J)) (ch_last_match c),
     ch_continuous := get_if J resp ''continuous_login'' (get_word_of (get_Int J)) (ch_continuous c)\<rparr>"

definition read_texts :: "('j, 'z) json_api_scheme \<Rightarrow> 'j \<Rightarrow> character \<Rightarrow> character" where
  "read_texts J resp c = c\<lparr>ch_tasks := get_if J resp ''playerTaskInfoMap'' (get_String J) (ch_tasks c),
     ch_title := get_if J resp ''Title'' (get_String J) (ch_title c),
     ch_invite := (ch_invite c)\<lparr>pi_count := get_if J resp ''invite'' (get_String J) (pi_count (ch_invite c)),
       pi_invited := get_if J resp ''invited'' (get_String J) (pi_invited (ch_invite c))\<rparr>\<rparr>"

definition Character_FromJson :: "('j, 'z) json_api_scheme \<Rightarrow> 'j \<Rightarrow> character \<Rightarrow> character option" where
  "Character_FromJson J resp c =
     (if \<not> js_is_object J resp then Some c
      else do {
        let c1 = read_numbers J resp c;
        c2 \<leftarrow> (case js_member J resp (bytes ''propertyInfo'') of
          None \<Rightarrow> Some c1
        | Some v \<Rightarrow> map_option (\<lambda>t. SyncProperty (c1\<lparr>ch_props := t\<rparr>)) (PropTable_FromJson J v (ch_props c1)));
        let c3 = read_texts J resp c2;
        (case js_member J resp (bytes ''activity'') of
          None \<Rightarrow> Some c3
        | Some v \<Rightarrow> if js_is_object J v then map_option (\<lambda>a. c3\<lparr>ch_activities := a\<rparr>) (AllActivity_FromJson J v (ch_activities c3)) else Some c3) })"

end
