(* ===== verification/Attributes_Json_Props.thy ===== *)
theory Attributes_Json_Props
  imports Attributes_Json
begin

text \<open>
  What comes back from the JSON forms of the attributes.
\<close>

lemma read_obj:
  assumes "json_ok J" "distinct (map fst kvs)"
  shows "read_member J (js_obj J kvs) key f = (case map_of kvs (bytes key) of None \<Rightarrow> None | Some v \<Rightarrow> f v)"
  by (simp add: read_member_def js_obj_member[OF assms])

lemma get_obj:
  assumes "json_ok J" "distinct (map fst kvs)"
  shows "get_if J (js_obj J kvs) key f old = (case map_of kvs (bytes key) of None \<Rightarrow> old | Some v \<Rightarrow> (case f v of None \<Rightarrow> old | Some x \<Rightarrow> x))"
  by (simp add: get_if_def read_obj[OF assms] split: option.split)

lemma get_word_num:
  "json_ok J \<Longrightarrow> get_word_of (get_Int J) (js_num J (uint (w :: 32 word))) = (if uint w < 2 ^ 31 then Some w else None)"
proof -
  assume J: "json_ok J"
  have "- (2 ^ 63) \<le> uint w" by (rule order_trans[of _ 0]) simp_all
  moreover have "uint w < 2 ^ 64" using uint_lt2p[of w] by simp
  moreover have "- (2 ^ 31) \<le> uint w" by (rule order_trans[of _ 0]) simp_all
  ultimately show ?thesis using get_num(1)[OF J, of "uint w"] by (simp add: get_word_of_def)
qed

subsection \<open>Accounts\<close>

text \<open>C27: what an account read back from its JSON holds: the nick and the avatar; icon, sex and birthday when they are below
  \<open>2 ^ 31\<close>, since \<open>IsInt\<close> refuses an unsigned number above; never the third-party login, whose key is written
  with a blank at its end; and of account, password and number nothing, which are not written.\<close>

theorem account_json_roundtrip:
  assumes "json_ok J"
  shows "Account_FromJson J (Account_ToJson J a) b = b\<lparr>ai_nick := cstr (ai_nick a), ai_avatar := cstr (ai_avatar a),
    ai_icon := (if uint (ai_icon a) < 2 ^ 31 then ai_icon a else ai_icon b),
    ai_sex := (if uint (ai_sex a) < 2 ^ 31 then ai_sex a else ai_sex b),
    ai_birthday := (if uint (ai_birthday a) < 2 ^ 31 then ai_birthday a else ai_birthday b)\<rparr>"
proof -
  let ?kvs = "[(bytes ''nick'', js_str J (cstr (ai_nick a))), (bytes ''icon'', js_num J (uint (ai_icon a))),
    (bytes ''sex'', js_num J (uint (ai_sex a))), (bytes ''birthday'', js_num J (uint (ai_birthday a))),
    (bytes ''thirdlogin '', js_str J (cstr (ai_thirdlogin a))), (bytes ''avatar'', js_str J (cstr (ai_avatar a)))]"
  have d: "distinct (map fst ?kvs)" by simp
  have c: "cstr (cstr s) = cstr s" for s by (simp add: cstr_def)
  show ?thesis
    unfolding Account_FromJson_def Account_ToJson_def get_obj[OF assms d]
    using js_obj_members[OF assms] by (simp add: get_word_num[OF assms] get_String_str[OF assms] c)
qed

theorem account_json_roundtrip_witness:
  "Account_FromJson (demo_json DStr) (Account_ToJson (demo_json DStr) (AccountInfo_new\<lparr>ai_nick := [0x61], ai_birthday := 0x80000000, ai_thirdlogin := [0x62]\<rparr>)) AccountInfo_new
     = AccountInfo_new\<lparr>ai_nick := [0x61]\<rparr>"
  unfolding account_json_roundtrip[OF demo_json_ok] by (simp add: AccountInfo_new_def cstr_def)

subsection \<open>Property tables\<close>

primrec join :: "'a list \<Rightarrow> 'a list list \<Rightarrow> 'a list" where
  "join sep [] = []"
| "join sep (x # xs) = x @ concat (map ((@) sep) xs)"

definition props_text :: "(int \<times> int) list \<Rightarrow> byte list" where
  "props_text kvs = 0x7B # join [0x2C] (map prop_text kvs) @ [0x7D]"

text \<open>What a JSON parser does with such texts: the text of an object gives its members, a comma behind the opening
  brace is an error, and the result of an error is no object.\<close>

definition parse_ok :: "('j, 'z) json_api_scheme \<Rightarrow> bool" where
  "parse_ok J \<longleftrightarrow>
     (\<forall>kvs. (\<forall>kv\<in>set kvs. in_i32 (fst kv) \<and> in_i64 (snd kv)) \<longrightarrow> js_is_object J (js_parse J (props_text kvs))
        \<and> list_all2 (\<lambda>kv m. fst m = show_int (fst kv) \<and> js_to_int J (snd m) = Some (snd kv)) kvs (js_members J (js_parse J (props_text kvs)))) \<and>
     (\<forall>rest. \<not> js_is_object J (js_parse J (0x7B # 0x2C # rest)))"

lemma show_int_byte: "b \<in> set (show_int i) \<Longrightarrow> b \<noteq> 0 \<and> b \<noteq> 0x2C \<and> b \<noteq> 0x22"
proof -
  assume b: "b \<in> set (show_int i)"
  have "b \<noteq> c" if "\<not> (0x30 \<le> c \<and> c \<le> 0x39)" "c \<noteq> 0x2D" for c
    using b that decimal_digits[of b] by (auto simp: show_int_def split: if_splits)
  from this[of 0] this[of "0x2C"] this[of "0x22"] show ?thesis by simp
qed

lemma cstr_show_int [simp]: "cstr (show_int i) = show_int i"
  using show_int_byte[of 0 i] by (intro cstr_id) auto

lemma atoi_show: "in_i32 i \<Longrightarrow> c_atoi (show_int i) = Some i"
  by (simp add: atoi_show_int)

lemma prop_text_byte: "b \<in> set (prop_text kv) \<Longrightarrow> b \<noteq> 0 \<and> b \<noteq> 0x2C"
  using show_int_byte by (auto simp: prop_text_def)

definition kept :: "prop_map \<Rightarrow> prop_map" where
  "kept m = filter (\<lambda>kv. 0 \<le> snd kv) m"

lemma ToJson_cases:
  "PropTable_ToJson t [] = (if pt_map t \<noteq> [] \<and> snd (hd (pt_map t)) < 0 \<and> kept (pt_map t) \<noteq> []
     then 0x7B # 0x2C # join [0x2C] (map prop_text (kept (pt_map t))) @ [0x7D] else props_text (kept (pt_map t)))"
proof (cases "pt_map t")
  case (Cons kv rest)
  have e: "concat (map (\<lambda>kv. if 0 \<le> snd kv then 0x2C # prop_text kv else []) rest) = concat (map (\<lambda>kv. 0x2C # prop_text kv) (kept rest))" for rest
    by (induction rest) (simp_all add: kept_def)
  have j: "concat (map (\<lambda>kv. 0x2C # prop_text kv) m) = (if m = [] then [] else 0x2C # join [0x2C] (map prop_text m))" for m
    by (cases m) (simp_all add: comp_def)
  have k: "kept (kv # rest) = (if 0 \<le> snd kv then kv # kept rest else kept rest)" by (simp add: kept_def)
  show ?thesis
  proof (cases "0 \<le> snd kv")
    case True
    then show ?thesis using e[of rest] by (simp add: PropTable_ToJson_def props_text_def Cons k comp_def)
  next
    case False
    then show ?thesis using e[of rest] j[of "kept rest"] by (simp add: PropTable_ToJson_def props_text_def Cons k)
  qed
qed (simp add: PropTable_ToJson_def props_text_def kept_def)

lemma cstr_ToJson: "cstr (PropTable_ToJson t []) = PropTable_ToJson t []"
proof (rule cstr_id)
  have "0 \<notin> set (prop_text kv)" for kv using prop_text_byte by blast
  then show "0 \<notin> set (PropTable_ToJson t [])" by (auto simp: PropTable_ToJson_def split: list.splits if_splits)
qed

lemma each_members:
  assumes "list_all2 (\<lambda>kv m. fst m = show_int (fst kv) \<and> js_to_int J (snd m) = Some (snd kv)) kvs ms"
    "\<forall>kv\<in>set kvs. in_i32 (fst kv) \<and> in_i64 (snd kv)"
  shows "each (prop_member J) ms m = Some (fold (\<lambda>kv. omap_put (fst kv) (snd kv)) kvs m)"
  using assms
proof (induction kvs ms arbitrary: m rule: list_all2_induct)
  case (Cons kv kvs x ms)
  then show ?case by (simp add: prop_member_def atoi_show get_Int64_def in_range_def)
qed simp

lemma prop_table_read:
  assumes "json_ok J" "parse_ok J" "\<forall>kv\<in>set (pt_map t). in_i32 (fst kv) \<and> in_i64 (snd kv)"
  shows "PropTable_FromJson J (js_str J (PropTable_ToJson t [])) u =
    (if pt_map t \<noteq> [] \<and> snd (hd (pt_map t)) < 0 \<and> (\<exists>kv\<in>set (pt_map t). 0 \<le> snd kv) then Some u
     else Some (u\<lparr>pt_map := fold (\<lambda>kv. omap_put (fst kv) (snd kv)) (filter (\<lambda>kv. 0 \<le> snd kv) (pt_map t)) (pt_map u)\<rparr>))"
proof -
  have k: "kept (pt_map t) \<noteq> [] \<longleftrightarrow> (\<exists>kv\<in>set (pt_map t). 0 \<le> snd kv)" by (simp add: kept_def filter_empty_conv) 
  have r: "\<forall>kv\<in>set (kept (pt_map t)). in_i32 (fst kv) \<and> in_i64 (snd kv)" using assms(3) by (simp add: kept_def)
  show ?thesis
  proof (cases "pt_map t \<noteq> [] \<and> snd (hd (pt_map t)) < 0 \<and> kept (pt_map t) \<noteq> []")
    case True
    then have "\<not> js_is_object J (js_parse J (PropTable_ToJson t []))"
      using assms(2) unfolding parse_ok_def ToJson_cases by simp
    then show ?thesis using True k by (simp add: PropTable_FromJson_def get_String_str[OF assms(1)] cstr_ToJson)
  next
    case False
    then have t: "PropTable_ToJson t [] = props_text (kept (pt_map t))" unfolding ToJson_cases by (simp only: if_False)
    have "js_is_object J (js_parse J (props_text (kept (pt_map t))))"
      "list_all2 (\<lambda>kv m. fst m = show_int (fst kv) \<and> js_to_int J (snd m) = Some (snd kv)) (kept (pt_map t)) (js_members J (js_parse J (props_text (kept (pt_map t)))))"
      using assms(2) r unfolding parse_ok_def by blast+
    moreover from this(2) have "each (prop_member J) (js_members J (js_parse J (props_text (kept (pt_map t))))) (pt_map u)
        = Some (fold (\<lambda>kv. omap_put (fst kv) (snd kv)) (kept (pt_map t)) (pt_map u))" by (rule each_members[OF _ r])
    ultimately have "PropTable_FromJson J (js_str J (PropTable_ToJson t [])) u
        = Some (u\<lparr>pt_map := fold (\<lambda>kv. omap_put (fst kv) (snd kv)) (kept (pt_map t)) (pt_map u)\<rparr>)"
      using cstr_ToJson[of t] by (simp add: PropTable_FromJson_def get_String_str[OF assms(1)] t)
    then show ?thesis using False k by (auto simp: kept_def)
  qed
qed


text \<open>A table read back from its text gains the properties that are not negative.  A negative one is dropped; when
  it is the first of the table, the text starts with a comma, cannot be parsed, and nothing is read at all.\<close>

theorem prop_table_json:
  assumes "json_ok J" "parse_ok J" "\<forall>kv\<in>set (pt_map t). in_i32 (fst kv) \<and> in_i64 (snd kv)"
  shows "PropTable_FromJson J (js_str J (PropTable_ToJson t [])) u =
    (if pt_map t \<noteq> [] \<and> snd (hd (pt_map t)) < 0 \<and> (\<exists>kv\<in>set (pt_map t). 0 \<le> snd kv) then Some u
     else Some (u\<lparr>pt_map := fold (\<lambda>kv. omap_put (fst kv) (snd kv)) (filter (\<lambda>kv. 0 \<le> snd kv) (pt_map t)) (pt_map u)\<rparr>))"
  by (rule prop_table_read[OF assms])
text \<open>A parser of such texts.\<close>

fun split_on :: "'a \<Rightarrow> 'a list \<Rightarrow> 'a list list" where
  "split_on c [] = [[]]"
| "split_on c (x # xs) = (if x = c then [] # split_on c xs else (case split_on c xs of [] \<Rightarrow> [[x]] | p # ps \<Rightarrow> (x # p) # ps))"

lemma split_on_piece: "c \<notin> set p \<Longrightarrow> split_on c p = [p]"
  by (induction p) auto

lemma split_on_append: "c \<notin> set p \<Longrightarrow> split_on c (p @ c # xs) = p # split_on c xs"
  by (induction p) auto

lemma split_on_join: "\<forall>q\<in>set (p # ps). c \<notin> set q \<Longrightarrow> split_on c (join [c] (p # ps)) = p # ps"
proof (induction ps arbitrary: p)
  case (Cons q ps)
  then show ?case using split_on_append[of c p "join [c] (q # ps)"] by simp
qed (simp add: split_on_piece)

definition parse_piece :: "byte list \<Rightarrow> (byte list \<times> demo_value) option" where
  "parse_piece p = (let k = takeWhile (\<lambda>b. b \<noteq> 0x22) (tl p); n = drop (length k + 3) p in
     case scan_dec (length k) k of None \<Rightarrow> None
     | Some i \<Rightarrow> (case scan_dec (length n) n of None \<Rightarrow> None
       | Some v \<Rightarrow> if p = prop_text (i, v) then Some (k, DNum v) else None))"

definition demo_parse :: "byte list \<Rightarrow> demo_value" where
  "demo_parse text =
     (if text = [] \<or> hd text \<noteq> 0x7B \<or> last text \<noteq> 0x7D then DNull
      else if butlast (tl text) = [] then DObject []
      else case all_some (map parse_piece (split_on 0x2C (butlast (tl text)))) of None \<Rightarrow> DNull | Some ms \<Rightarrow> DObject ms)"

lemma parse_piece_text: "parse_piece (prop_text kv) = Some (show_int (fst kv), DNum (snd kv))"
proof -
  have "takeWhile (\<lambda>b. b \<noteq> 0x22) (show_int (fst kv) @ 0x22 # 0x3A # show_int (snd kv)) = show_int (fst kv)"
    using show_int_byte by (subst takeWhile_append) auto
  moreover have "drop (length (show_int (fst kv)) + 3) (prop_text kv) = show_int (snd kv)"
    by (simp add: prop_text_def numeral_3_eq_3)
  moreover have "tl (prop_text kv) = show_int (fst kv) @ 0x22 # 0x3A # show_int (snd kv)" by (simp add: prop_text_def)
  ultimately show ?thesis by (simp add: parse_piece_def Let_def scan_show_int)
qed

lemma demo_parse_ok: "parse_ok (demo_json demo_parse)"
  unfolding parse_ok_def
proof (intro conjI allI impI)
  fix kvs :: "(int \<times> int) list"
  have p: "demo_parse (props_text kvs) = DObject (map (\<lambda>kv. (show_int (fst kv), DNum (snd kv))) kvs)"
  proof (cases kvs)
    case (Cons kv rest)
    have "0x2C \<notin> set (prop_text q)" for q using prop_text_byte by blast
    then have "\<forall>q\<in>set (map prop_text (kv # rest)). 0x2C \<notin> set q" by simp
    then have "split_on 0x2C (join [0x2C] (map prop_text (kv # rest))) = map prop_text (kv # rest)"
      using split_on_join[of "prop_text kv" "map prop_text rest" "0x2C"] by simp
    moreover have "all_some (map (parse_piece \<circ> prop_text) (kv # rest)) = Some (map (\<lambda>kv. (show_int (fst kv), DNum (snd kv))) (kv # rest))"
      by (rule all_some_map) (simp add: parse_piece_text)
    moreover have "join [0x2C] (map prop_text (kv # rest)) \<noteq> []" by (simp add: prop_text_def)
    ultimately show ?thesis
      unfolding Cons demo_parse_def props_text_def by (simp only: map_map list.sel butlast_append) simp
  qed (simp add: demo_parse_def props_text_def)
  show "js_is_object (demo_json demo_parse) (js_parse (demo_json demo_parse) (props_text kvs))"
    using p by (simp add: demo_json_def)
  show "list_all2 (\<lambda>kv m. fst m = show_int (fst kv) \<and> js_to_int (demo_json demo_parse) (snd m) = Some (snd kv)) kvs
      (js_members (demo_json demo_parse) (js_parse (demo_json demo_parse) (props_text kvs)))"
    using p by (simp add: demo_json_def list_all2_conv_all_nth)
next
  fix rest :: "byte list"
  have "parse_piece [] = None" by (simp add: parse_piece_def scan_dec_def)
  then show "\<not> js_is_object (demo_json demo_parse) (js_parse (demo_json demo_parse) (0x7B # 0x2C # rest))"
    by (simp add: demo_json_def demo_parse_def)
qed

theorem prop_table_json_witness:
  "PropTable_FromJson (demo_json demo_parse) (js_str (demo_json demo_parse) (PropTable_ToJson \<lparr>pt_id = 1, pt_map = [(1, 20), (2, - 5)]\<rparr> [])) PropTable_new
      = Some \<lparr>pt_id = 0, pt_map = [(1, 20)]\<rparr>
   \<and> PropTable_FromJson (demo_json demo_parse) (js_str (demo_json demo_parse) (PropTable_ToJson \<lparr>pt_id = 1, pt_map = [(1, - 5), (2, 20)]\<rparr> [])) PropTable_new
      = Some PropTable_new"
  by (rule conjI; subst prop_table_json[OF demo_json_ok demo_parse_ok]) (simp_all add: PropTable_new_def)

subsection \<open>Activities\<close>

lemma fold_insert_sorted_append: "omap_ok (m @ xs) \<Longrightarrow> fold (\<lambda>kv. omap_insert (fst kv) (snd kv)) xs m = m @ xs"
proof (induction xs arbitrary: m)
  case (Cons x xs)
  then have l: "\<forall>q\<in>set m. fst q < fst x" by (auto simp: omap_ok_def oset_ok_def sorted_wrt_append)
  then have "map_of m (fst x) = None" by (auto simp: map_of_eq_None_iff)
  then have "omap_insert (fst x) (snd x) m = m @ [x]" using l by (simp add: omap_insert_def omap_put_last)
  then show ?case using Cons.IH[of "m @ [x]"] Cons.prems by simp
qed simp

definition activity_ok :: "activity \<Rightarrow> bool" where
  "activity_ok a \<longleftrightarrow> omap_ok a \<and> (\<forall>kv\<in>set a. 0 \<notin> set (fst kv) \<and> in_i32 (snd kv))"

lemma activity_roundtrip:
  assumes "json_ok J" "activity_ok a"
  shows "Activity_FromJson J (Activity_ToJson J a) [] = a"
proof -
  have "fold (\<lambda>(k, v) a. case get_Int J v of None \<Rightarrow> a | Some n \<Rightarrow> omap_insert (cstr k) n a) (map (\<lambda>(k, v). (cstr k, js_num J v)) a) m
      = fold (\<lambda>kv. omap_insert (fst kv) (snd kv)) a m" for m
    unfolding fold_map using assms(2)
    by (intro fold_cong refl) (auto simp: activity_ok_def cstr_id get_num[OF assms(1)] fun_eq_iff)
  then show ?thesis
    using js_obj_members[OF assms(1)] fold_insert_sorted_append[of "[]" a] assms(2)
    by (simp add: Activity_FromJson_def Activity_ToJson_def activity_ok_def)
qed

lemma activities_read:
  assumes "json_ok J" "omap_ok all" "\<forall>ia\<in>set all. in_i32 (fst ia) \<and> activity_ok (snd ia)"
  shows "AllActivity_FromJson J (AllActivity_ToJson J all) [] = Some all"
proof -
  have "each (activity_member J) (map (\<lambda>(i, a). (show_int i, Activity_ToJson J a)) all) m = Some (fold (\<lambda>kv. omap_insert (fst kv) (snd kv)) all m)" for m
    using assms(3)
  proof (induction all arbitrary: m)
    case (Cons ia all)
    have "js_is_object J (Activity_ToJson J (snd ia))" using js_obj_members[OF assms(1)] by (simp add: Activity_ToJson_def)
    then show ?case
      using Cons by (cases ia) (simp add: activity_member_def atoi_show activity_roundtrip[OF assms(1)])
  qed simp
  then show ?thesis
    using js_obj_members[OF assms(1)] fold_insert_sorted_append[of "[]" all] assms(2)
    by (simp add: AllActivity_FromJson_def AllActivity_ToJson_def)
qed


text \<open>The activities of a player come back from their JSON.\<close>

theorem activities_json_roundtrip:
  assumes "json_ok J" "omap_ok all" "\<forall>ia\<in>set all. in_i32 (fst ia) \<and> activity_ok (snd ia)"
  shows "AllActivity_FromJson J (AllActivity_ToJson J all) [] = Some all"
  by (rule activities_read[OF assms])
theorem activities_json_roundtrip_witness:
  "AllActivity_FromJson (demo_json DStr) (AllActivity_ToJson (demo_json DStr) [(- 1, [([0x61], 5)]), (3, [])]) []
     = Some [(- 1, [([0x61], 5)]), (3, [])]"
  by (rule activities_json_roundtrip) (simp_all add: omap_ok_def oset_ok_def activity_ok_def)

end
