(* ===== verification/Character_Json_Props.thy ===== *)
theory Character_Json_Props
  imports Character_Json Attributes_Json_Props
begin

text \<open>
  A character read back from its JSON form.
\<close>

definition character_ok :: "character \<Rightarrow> bool" where
  "character_ok c \<longleftrightarrow>
     (\<forall>n\<in>{ch_played c, ch_wined c, ch_spree c, ch_spree_time c, ch_spree_rest c, ch_spree_sum c, ch_rank_time c, ch_rank c, ch_raffle c, ch_raffle_time c, ch_fill c, ch_next_spree c, ch_money_tree c, ch_settings c, ch_last_match c, ch_continuous c}. uint n < 2 ^ 31)
     \<and> (\<forall>i\<in>{ch_maxwin c, ch_maxlose c, ch_all_maxwin c, ch_day_maxwin c, ch_caishen c, ch_wanren c, ch_payment c, ch_yesterday c, ch_t_guarantee c}. in_i64 i)
     \<and> (\<forall>i\<in>{ch_t_maxwin c, ch_t_caishen c, ch_t_wanren c, ch_t_payment c}. in_i32 i)
     \<and> 0 \<notin> set (ch_title c) \<and> 0 \<notin> set (ch_tasks c) \<and> 0 \<notin> set (pi_count (ch_invite c)) \<and> 0 \<notin> set (pi_invited (ch_invite c))
     \<and> omap_ok (pt_map (ch_props c)) \<and> (\<forall>kv\<in>set (pt_map (ch_props c)). in_i32 (fst kv) \<and> 0 \<le> snd kv \<and> in_i64 (snd kv))
     \<and> omap_ok (ch_activities c) \<and> (\<forall>ia\<in>set (ch_activities c). in_i32 (fst ia) \<and> activity_ok (snd ia))
     \<and> SyncProperty c = c"

lemma character_keys: "distinct (map fst (character_members J c s))"
  by (simp add: character_members_def)

lemma get_word_uint: "json_ok J \<Longrightarrow> uint w < 2 ^ 31 \<Longrightarrow> get_word_of (get_Int J) (js_num J (uint w)) = Some w"
proof -
  assume J: "json_ok J" and w: "uint w < 2 ^ 31"
  have "- (2 ^ 63) \<le> uint w" "- (2 ^ 31) \<le> uint w" by (rule order_trans[of _ 0]; simp)+
  then show ?thesis using w get_num(1)[OF J, of "uint w"] by (simp add: get_word_of_def)
qed

lemma get_word_num8: "json_ok J \<Longrightarrow> get_word_of (get_Int J) (js_num J (uint (w :: 8 word))) = Some w"
  by (rule get_word_uint) (use uint_lt2p[of w] in simp_all)

lemma get_num_i32: "json_ok J \<Longrightarrow> in_i32 i \<Longrightarrow> get_Int J (js_num J i) = Some i"
  by (subst get_num) auto

lemma get_num_i64: "json_ok J \<Longrightarrow> in_i64 i \<Longrightarrow> get_Int64 J (js_num J i) = Some i"
  by (subst get_num) auto

lemma read_numbers_back:
  assumes "json_ok J" "character_ok c"
  shows "read_numbers J (js_obj J (character_members J c s)) b = b\<lparr>ch_played := ch_played c, ch_wined := ch_wined c, ch_maxwin := ch_maxwin c, ch_maxlose := ch_maxlose c, ch_spree := ch_spree c, ch_spree_time := ch_spree_time c, ch_spree_rest := ch_spree_rest c, ch_spree_sum := ch_spree_sum c, ch_rank_time := ch_rank_time c, ch_all_maxwin := ch_all_maxwin c, ch_day_maxwin := ch_day_maxwin c, ch_caishen := ch_caishen c, ch_wanren := ch_wanren c, ch_payment := ch_payment c, ch_yesterday := ch_yesterday c, ch_t_maxwin := ch_t_maxwin c, ch_t_caishen := ch_t_caishen c, ch_t_wanren := ch_t_wanren c, ch_t_payment := ch_t_payment c, ch_rank := ch_rank c, ch_guarantee := ch_guarantee c, ch_max_guarantee := ch_max_guarantee c, ch_t_guarantee := ch_t_guarantee c, ch_raffle := ch_raffle c, ch_raffle_time := ch_raffle_time c, ch_fill := ch_fill c, ch_next_spree := ch_next_spree c, ch_money_tree := ch_money_tree c, ch_settings := ch_settings c, ch_last_match := ch_last_match c, ch_continuous := ch_continuous c\<rparr>"
proof -
  note get = get_obj[OF assms(1) character_keys[of J c s]]
  have u: "uint n < 2 ^ 31 \<Longrightarrow> get_word_of (get_Int J) (js_num J (uint n)) = Some n" for n :: "32 word"
    by (rule get_word_uint[OF assms(1)])
  show ?thesis
    unfolding read_numbers_def get
    using assms(2) by (simp add: character_members_def character_ok_def u[simplified] get_word_num8[OF assms(1)]
      get_num_i32[OF assms(1), simplified] get_num_i64[OF assms(1), simplified])
qed

lemma read_texts_back:
  assumes "json_ok J" "character_ok c"
  shows "read_texts J (js_obj J (character_members J c s)) b = b\<lparr>ch_tasks := ch_tasks c, ch_title := ch_title c,
    ch_invite := (ch_invite b)\<lparr>pi_count := pi_count (ch_invite c), pi_invited := pi_invited (ch_invite c)\<rparr>\<rparr>"
proof -
  note get = get_obj[OF assms(1) character_keys[of J c s]]
  show ?thesis
    unfolding read_texts_def get
    using assms(2) by (simp add: character_members_def character_ok_def get_String_str[OF assms(1)] cstr_id)
qed


lemma default_props_sorted: "omap_ok default_props \<and> (\<forall>kv\<in>set default_props. in_i32 (fst kv) \<and> 0 \<le> snd kv \<and> in_i64 (snd kv))"
  by (simp add: default_props_def PROPERTY_defs omap_ok_def oset_ok_def)

lemma Sync_Sync: "SyncProperty (SyncProperty c) = SyncProperty c"
  by (simp add: SyncProperty_def)

lemma character_new_ok: "0 \<notin> set title \<Longrightarrow> character_ok (Character_new title)"
  unfolding character_ok_def Character_new_def
  using default_props_sorted
  by (simp add: Sync_Sync) (simp add: SyncProperty_def Invite_new_def PropTable_new_def prop_value_def default_props_def PROPERTY_defs omap_ok_def oset_ok_def)


end
