(* ===== verification/Trade_Records.thy ===== *)
theory Trade_Records
  imports Json
begin

text \<open>
  The trades of players: their JSON form, the list of the newest, and the caches of the lists (\<open>player_def.cpp\<close>).
\<close>

definition trade_records_limit :: nat where
  "trade_records_limit = 50"

record trade =
  tr_from :: "32 word"
  tr_to :: "32 word"
  tr_date :: "32 word"
  tr_property :: int
  tr_amount :: "64 word"
  tr_from_nick :: "byte list"
  tr_to_nick :: "byte list"
  tr_type :: int

definition TradeRecord_new :: trade where
  "TradeRecord_new = \<lparr>tr_from = 0, tr_to = 0, tr_date = 0, tr_property = 0, tr_amount = 0, tr_from_nick = [], tr_to_nick = [], tr_type = 0\<rparr>"

definition Trade_ToJson :: "('j, 'z) json_api_scheme \<Rightarrow> trade \<Rightarrow> 'j" where
  "Trade_ToJson J t = js_obj J
     [(bytes ''acc_id_from'', js_num J (uint (tr_from t))),
      (bytes ''acc_id_to'', js_num J (uint (tr_to t))),
      (bytes ''property_id'', js_num J (tr_property t)),
      (bytes ''change_amount'', js_num J (uint (tr_amount t))),
      (bytes ''from_nick'', js_str J (cstr (tr_from_nick t))),
      (bytes ''to_nick'', js_str J (cstr (tr_to_nick t))),
      (bytes ''trade_date'', js_num J (uint (tr_date t))),
      (bytes ''trade_type'', js_num J (tr_type t))]"

text \<open>\<open>if (HasMember && IsX) field = GetX; else return false;\<close> and the rest.\<close>

definition need :: "'a option \<Rightarrow> ('a \<Rightarrow> trade \<Rightarrow> trade) \<Rightarrow> (trade \<Rightarrow> bool \<times> trade) \<Rightarrow> trade \<Rightarrow> bool \<times> trade" where
  "need r set_field rest t = (case r of None \<Rightarrow> (False, t) | Some x \<Rightarrow> rest (set_field x t))"

definition Trade_FromJson :: "('j, 'z) json_api_scheme \<Rightarrow> 'j \<Rightarrow> trade \<Rightarrow> bool \<times> trade" where
  "Trade_FromJson J resp t =
     (if \<not> js_is_object J resp then (False, t)
      else need (read_member J resp ''acc_id_from'' (get_Uint J)) (\<lambda>i t. t\<lparr>tr_from := word_of_int i\<rparr>)
        (need (read_member J resp ''acc_id_to'' (get_Uint J)) (\<lambda>i t. t\<lparr>tr_to := word_of_int i\<rparr>)
        (need (read_member J resp ''property_id'' (get_Uint J)) (\<lambda>i t. t\<lparr>tr_property := sint (word_of_int i :: 32 word)\<rparr>)
        (need (read_member J resp ''change_amount'' (get_Uint64 J)) (\<lambda>i t. t\<lparr>tr_amount := word_of_int i\<rparr>)
        (need (read_member J resp ''from_nick'' (get_String J)) (\<lambda>s t. t\<lparr>tr_from_nick := s\<rparr>)
        (need (read_member J resp ''to_nick'' (get_String J)) (\<lambda>s t. t\<lparr>tr_to_nick := s\<rparr>)
        (need (read_member J resp ''trade_date'' (get_Uint J)) (\<lambda>i t. t\<lparr>tr_date := word_of_int i\<rparr>)
        (\<lambda>t. (True, t\<lparr>tr_type := (case read_member J resp ''trade_type'' (get_Int J) of Some i \<Rightarrow> i | None \<Rightarrow> 1)\<rparr>)))))))) t)"

subsection \<open>Lists\<close>

record trade_list =
  tl_records :: "trade list"
  tl_request :: "32 word"

definition MultiTrade_ToJson :: "('j, 'z) json_api_scheme \<Rightarrow> trade_list \<Rightarrow> 'j" where
  "MultiTrade_ToJson J l = js_obj J
     [(bytes ''acc_id_request_'', js_num J (uint (tl_request l))),
      (bytes ''count'', js_num J (sint (word_of_nat (length (tl_records l)) :: 32 word))),
      (bytes ''records'', js_arr J (map (Trade_ToJson J) (tl_records l)))]"

text \<open>The result of \<open>TradeRecordInfo::FromJson\<close> is not looked at.\<close>

definition MultiTrade_FromJson :: "('j, 'z) json_api_scheme \<Rightarrow> 'j \<Rightarrow> trade_list \<Rightarrow> trade_list" where
  "MultiTrade_FromJson J resp l =
     (if \<not> js_is_object J resp then l
      else l\<lparr>tl_request := get_if J resp ''acc_id_request_'' (get_word_of (get_Uint J)) (tl_request l),
        tl_records := (case js_member J resp (bytes ''records'') of
          Some v \<Rightarrow> if js_is_array J v then tl_records l @ map (\<lambda>e. snd (Trade_FromJson J e TradeRecord_new)) (js_elements J v) else tl_records l
        | None \<Rightarrow> tl_records l)\<rparr>)"

definition UpdateRecordsList :: "trade \<Rightarrow> trade_list \<Rightarrow> trade_list" where
  "UpdateRecordsList t l =
     l\<lparr>tl_records := (if length (tl_records l) < trade_records_limit then t # tl_records l else t # butlast (tl_records l))\<rparr>"

text \<open>\<open>operator=\<close>\<close>

definition MultiTrade_assign :: "trade_list \<Rightarrow> trade_list \<Rightarrow> trade_list" where
  "MultiTrade_assign l other = l\<lparr>tl_records := tl_records l @ tl_records other\<rparr>"

subsection \<open>Caches\<close>

record trade_cache =
  tc_init :: bool
  tc_semaphore :: "8 word"
  tc_list :: trade_list
  tc_property :: int

definition TradeRecordsCache_new :: "int \<Rightarrow> trade_list \<Rightarrow> trade_cache" where
  "TradeRecordsCache_new prop l = \<lparr>tc_init = False, tc_semaphore = 0, tc_list = l, tc_property = prop\<rparr>"

text \<open>A manager has one cache, for diamonds; \<open>req\<close> is the uninitialised \<open>acc_id_request_\<close>.\<close>

type_synonym trade_manager = "trade_cache list"

definition TradeManager_new :: "32 word \<Rightarrow> trade_manager" where
  "TradeManager_new req = [TradeRecordsCache_new 3 \<lparr>tl_records = [], tl_request = req\<rparr>]"

text \<open>The index of the first cache of the property.\<close>

fun GetTradeRecordsCache :: "int \<Rightarrow> trade_manager \<Rightarrow> nat option" where
  "GetTradeRecordsCache prop [] = None"
| "GetTradeRecordsCache prop (c # cs) = (if tc_property c = prop then Some 0 else map_option Suc (GetTradeRecordsCache prop cs))"

definition on_cache :: "int \<Rightarrow> (trade_cache \<Rightarrow> trade_cache) \<Rightarrow> trade_manager \<Rightarrow> trade_manager" where
  "on_cache prop f m = (case GetTradeRecordsCache prop m of None \<Rightarrow> m | Some i \<Rightarrow> m[i := f (m ! i)])"

definition GetTradeRecordsList :: "int \<Rightarrow> trade_manager \<Rightarrow> trade_list option" where
  "GetTradeRecordsList prop m = map_option (\<lambda>i. tc_list (m ! i)) (GetTradeRecordsCache prop m)"

definition IsCacheRecordsInit :: "int \<Rightarrow> trade_manager \<Rightarrow> bool" where
  "IsCacheRecordsInit prop m = (case GetTradeRecordsCache prop m of None \<Rightarrow> False | Some i \<Rightarrow> tc_init (m ! i))"

definition SetRecordsInit :: "int \<Rightarrow> bool \<Rightarrow> trade_manager \<Rightarrow> trade_manager" where
  "SetRecordsInit prop b = on_cache prop (\<lambda>c. c\<lparr>tc_init := b\<rparr>)"

definition GetQuerySemaphore :: "int \<Rightarrow> trade_manager \<Rightarrow> 8 word" where
  "GetQuerySemaphore prop m = (case GetTradeRecordsCache prop m of None \<Rightarrow> 1 | Some i \<Rightarrow> tc_semaphore (m ! i))"

definition IncreaseQuerySemaphore :: "int \<Rightarrow> trade_manager \<Rightarrow> trade_manager" where
  "IncreaseQuerySemaphore prop = on_cache prop (\<lambda>c. c\<lparr>tc_semaphore := tc_semaphore c + 1\<rparr>)"

definition DecreaseQuerySemaphore :: "int \<Rightarrow> trade_manager \<Rightarrow> trade_manager" where
  "DecreaseQuerySemaphore prop = on_cache prop (\<lambda>c. c\<lparr>tc_semaphore := tc_semaphore c - 1\<rparr>)"

definition UpdateTradeRecordsList :: "int \<Rightarrow> trade \<Rightarrow> trade_manager \<Rightarrow> trade_manager" where
  "UpdateTradeRecordsList prop t = on_cache prop (\<lambda>c. c\<lparr>tc_list := UpdateRecordsList t (tc_list c)\<rparr>)"

definition InitTradeRecordsList :: "int \<Rightarrow> trade_list \<Rightarrow> trade_manager \<Rightarrow> trade_manager" where
  "InitTradeRecordsList prop l = on_cache prop (\<lambda>c. c\<lparr>tc_list := MultiTrade_assign (tc_list c) l\<rparr>)"

end
