(* ===== verification/Trade_Props.thy ===== *)
theory Trade_Props
  imports Trade_Records Attributes_Json_Props
begin

text \<open>
  The cache holds the newest trades, and trades come back from their JSON.
\<close>

subsection \<open>The newest trades\<close>

lemma GetCache_bound: "GetTradeRecordsCache prop m = Some i \<Longrightarrow> i < length m \<and> tc_property (m ! i) = prop"
  by (induction m arbitrary: i) (auto split: if_splits)

lemma GetCache_update:
  "GetTradeRecordsCache prop m = Some i \<Longrightarrow> tc_property c = prop \<Longrightarrow> GetTradeRecordsCache prop (m[i := c]) = Some i"
proof (induction m arbitrary: i)
  case (Cons x m)
  then show ?case by (cases i) (auto split: if_splits)
qed simp

text \<open>An operation on the cache of a property, seen through the list of that property.\<close>

lemma on_cache_list:
  assumes "\<And>c. tc_property (f c) = tc_property c" "\<And>c. tc_list (f c) = g (tc_list c)"
  shows "GetTradeRecordsList prop (on_cache prop f m) = map_option g (GetTradeRecordsList prop m)"
proof (cases "GetTradeRecordsCache prop m")
  case (Some i)
  have b: "i < length m" "tc_property (m ! i) = prop" using GetCache_bound[OF Some] by simp_all
  have "GetTradeRecordsCache prop (m[i := f (m ! i)]) = Some i" by (rule GetCache_update[OF Some]) (simp add: assms(1) b(2))
  then show ?thesis using Some b(1) by (simp add: GetTradeRecordsList_def on_cache_def assms(2))
qed (simp add: GetTradeRecordsList_def on_cache_def)

lemma Update_take:
  "length (tl_records l) \<le> 50 \<Longrightarrow> tl_records (UpdateRecordsList t l) = take 50 (t # tl_records l)"
  by (cases "tl_records l = []") (auto simp: UpdateRecordsList_def trade_records_limit_def butlast_conv_take)

lemma Update_length: "50 \<le> length (tl_records l) \<Longrightarrow> length (tl_records (UpdateRecordsList t l)) = length (tl_records l)"
  by (cases "tl_records l = []") (auto simp: UpdateRecordsList_def trade_records_limit_def)

lemma updates_list:
  "GetTradeRecordsList prop (fold (UpdateTradeRecordsList prop) ts m) = map_option (fold UpdateRecordsList ts) (GetTradeRecordsList prop m)"
proof (induction ts arbitrary: m)
  case (Cons t ts)
  have "GetTradeRecordsList prop (UpdateTradeRecordsList prop t m) = map_option (UpdateRecordsList t) (GetTradeRecordsList prop m)"
    unfolding UpdateTradeRecordsList_def by (rule on_cache_list) simp_all
  then show ?case using Cons by (simp add: option.map_comp comp_def)
qed (simp add: option.map_id)

lemma fold_Update_newest:
  "length (tl_records l) \<le> 50 \<Longrightarrow> tl_records (fold UpdateRecordsList ts l) = take 50 (rev ts @ tl_records l)"
proof (induction ts arbitrary: l)
  case (Cons t ts)
  have u: "tl_records (UpdateRecordsList t l) = take 50 (t # tl_records l)" by (rule Update_take[OF Cons.prems])
  have "take n (xs @ take n ys) = take n (xs @ ys)" for n and xs ys :: "trade list" by (simp add: min_def)
  note this[of 50 "rev ts" "t # tl_records l"]
  then show ?case using Cons.IH[of "UpdateRecordsList t l"] u by (simp del: take_Suc_Cons)
qed simp

lemma fold_Update_length: "50 \<le> length (tl_records l) \<Longrightarrow> length (tl_records (fold UpdateRecordsList ts l)) = length (tl_records l)"
  by (induction ts arbitrary: l) (simp_all add: Update_length)

text \<open>C29: the abstract list of a property is the history of its trades, newest first.  A cache that was filled with at
  most fifty trades always shows the first fifty of the history; one that was filled with more (or twice: the
  assignment appends) keeps its length forever.\<close>

theorem trade_cache_newest:
  assumes "GetTradeRecordsList prop m = Some \<lparr>tl_records = [], tl_request = req\<rparr>"
  shows "\<exists>l. GetTradeRecordsList prop (fold (UpdateTradeRecordsList prop) ts (InitTradeRecordsList prop l0 m)) = Some l
    \<and> (length (tl_records l0) \<le> 50 \<longrightarrow> tl_records l = take 50 (rev ts @ tl_records l0))
    \<and> (50 < length (tl_records l0) \<longrightarrow> length (tl_records l) = length (tl_records l0))"
proof -
  have i: "GetTradeRecordsList prop (InitTradeRecordsList prop l0 m) = Some \<lparr>tl_records = tl_records l0, tl_request = req\<rparr>"
    unfolding InitTradeRecordsList_def
    by (subst on_cache_list[where g = "\<lambda>l. MultiTrade_assign l l0"]) (simp_all add: assms MultiTrade_assign_def)
  show ?thesis
    unfolding updates_list i
    using fold_Update_newest[of "\<lparr>tl_records = tl_records l0, tl_request = req\<rparr>" ts]
      fold_Update_length[of "\<lparr>tl_records = tl_records l0, tl_request = req\<rparr>" ts] by simp
qed

theorem trade_cache_newest_witness:
  "\<exists>l. GetTradeRecordsList 3 (fold (UpdateTradeRecordsList 3) [TradeRecord_new] (InitTradeRecordsList 3 \<lparr>tl_records = [], tl_request = 1\<rparr> (TradeManager_new 0))) = Some l
    \<and> tl_records l = [TradeRecord_new]"
proof -
  have "GetTradeRecordsList 3 (TradeManager_new 0) = Some \<lparr>tl_records = [], tl_request = 0\<rparr>"
    by (simp add: GetTradeRecordsList_def TradeManager_new_def TradeRecordsCache_new_def)
  from trade_cache_newest[OF this, of "[TradeRecord_new]" "\<lparr>tl_records = [], tl_request = 1\<rparr>"] show ?thesis by auto
qed

subsection \<open>JSON\<close>

definition trade_ok :: "trade \<Rightarrow> bool" where
  "trade_ok t \<longleftrightarrow> 0 \<le> tr_property t \<and> tr_property t < 2 ^ 31 \<and> in_i32 (tr_type t) \<and> 0 \<notin> set (tr_from_nick t) \<and> 0 \<notin> set (tr_to_nick t)"

lemma get_Uint_word: "json_ok J \<Longrightarrow> get_Uint J (js_num J (uint (w :: 32 word))) = Some (uint w)"
proof -
  assume J: "json_ok J"
  have "- (2 ^ 63) \<le> uint w" by (rule order_trans[of _ 0]) simp_all
  then show ?thesis using get_num(2)[OF J, of "uint w"] uint_lt2p[of w] by simp
qed

lemma get_Uint64_word: "json_ok J \<Longrightarrow> get_Uint64 J (js_num J (uint (w :: 64 word))) = Some (uint w)"
proof -
  assume J: "json_ok J"
  have "- (2 ^ 63) \<le> uint w" by (rule order_trans[of _ 0]) simp_all
  then show ?thesis using get_num(4)[OF J, of "uint w"] uint_lt2p[of w] by simp
qed

lemma trade_read:
  assumes "json_ok J" "trade_ok t"
  shows "Trade_FromJson J (Trade_ToJson J t) r = (True, t)"
proof -
  let ?kvs = "[(bytes ''acc_id_from'', js_num J (uint (tr_from t))), (bytes ''acc_id_to'', js_num J (uint (tr_to t))),
      (bytes ''property_id'', js_num J (tr_property t)), (bytes ''change_amount'', js_num J (uint (tr_amount t))),
      (bytes ''from_nick'', js_str J (cstr (tr_from_nick t))), (bytes ''to_nick'', js_str J (cstr (tr_to_nick t))),
      (bytes ''trade_date'', js_num J (uint (tr_date t))), (bytes ''trade_type'', js_num J (tr_type t))]"
  have d: "distinct (map fst ?kvs)" by simp
  have p: "get_Uint J (js_num J (tr_property t)) = Some (tr_property t)" "get_Int J (js_num J (tr_type t)) = Some (tr_type t)"
    using assms(2) get_num[OF assms(1), of "tr_property t"] get_num[OF assms(1), of "tr_type t"] by (simp_all add: trade_ok_def)
  have w: "sint (word_of_int (tr_property t) :: 32 word) = tr_property t"
    using assms(2) by (intro sint_of_i32) (simp add: trade_ok_def)
  show ?thesis
    unfolding Trade_FromJson_def Trade_ToJson_def read_obj[OF assms(1) d]
    using js_obj_members[OF assms(1)] assms(2)
    by (simp add: need_def p w get_Uint_word[OF assms(1)] get_Uint64_word[OF assms(1)] get_String_str[OF assms(1)] cstr_id trade_ok_def)
qed

text \<open>A list of trades comes back from its JSON behind what the object held; a trade whose property is negative is
  refused after its parties were read, and the list then holds a trade without amount, names and date.\<close>

theorem trades_json_roundtrip:
  assumes "json_ok J"
  shows "((\<forall>t\<in>set (tl_records l). trade_ok t) \<longrightarrow> MultiTrade_FromJson J (MultiTrade_ToJson J l) l0
      = l0\<lparr>tl_request := tl_request l, tl_records := tl_records l0 @ tl_records l\<rparr>)
    \<and> (in_i32 (tr_property t) \<and> tr_property t < 0 \<longrightarrow>
      Trade_FromJson J (Trade_ToJson J t) TradeRecord_new = (False, TradeRecord_new\<lparr>tr_from := tr_from t, tr_to := tr_to t\<rparr>))"
proof (intro conjI impI)
  let ?kvs = "[(bytes ''acc_id_request_'', js_num J (uint (tl_request l))), (bytes ''count'', js_num J (sint (word_of_nat (length (tl_records l)) :: 32 word))),
      (bytes ''records'', js_arr J (map (Trade_ToJson J) (tl_records l)))]"
  assume ok: "\<forall>t\<in>set (tl_records l). trade_ok t"
  have d: "distinct (map fst ?kvs)" by simp
  have e: "map (\<lambda>x. snd (Trade_FromJson J (Trade_ToJson J x) TradeRecord_new)) (tl_records l) = tl_records l"
    using ok by (intro map_idI) (simp add: trade_read[OF assms])
  have m: "js_member J (MultiTrade_ToJson J l) (bytes ''records'') = Some (js_arr J (map (Trade_ToJson J) (tl_records l)))"
    unfolding MultiTrade_ToJson_def js_obj_member[OF assms d] by simp
  have q: "get_if J (MultiTrade_ToJson J l) ''acc_id_request_'' (get_word_of (get_Uint J)) (tl_request l0) = tl_request l"
    unfolding MultiTrade_ToJson_def get_obj[OF assms d] by (simp add: get_word_of_def get_Uint_word[OF assms])
  have o: "js_is_object J (MultiTrade_ToJson J l)" using js_obj_members[OF assms] by (simp add: MultiTrade_ToJson_def)
  show "MultiTrade_FromJson J (MultiTrade_ToJson J l) l0 = l0\<lparr>tl_request := tl_request l, tl_records := tl_records l0 @ tl_records l\<rparr>"
    unfolding MultiTrade_FromJson_def m q using o js_arr_elements[OF assms] by (simp add: e comp_def)
next
  assume neg: "in_i32 (tr_property t) \<and> tr_property t < 0"
  have d: "distinct (map fst [(bytes ''acc_id_from'', js_num J (uint (tr_from t))), (bytes ''acc_id_to'', js_num J (uint (tr_to t))),
      (bytes ''property_id'', js_num J (tr_property t)), (bytes ''change_amount'', js_num J (uint (tr_amount t))),
      (bytes ''from_nick'', js_str J (cstr (tr_from_nick t))), (bytes ''to_nick'', js_str J (cstr (tr_to_nick t))),
      (bytes ''trade_date'', js_num J (uint (tr_date t))), (bytes ''trade_type'', js_num J (tr_type t))])" by simp
  have p: "get_Uint J (js_num J (tr_property t)) = None"
    using neg get_num(2)[OF assms, of "tr_property t"] by simp
  show "Trade_FromJson J (Trade_ToJson J t) TradeRecord_new = (False, TradeRecord_new\<lparr>tr_from := tr_from t, tr_to := tr_to t\<rparr>)"
    unfolding Trade_FromJson_def Trade_ToJson_def read_obj[OF assms d]
    using js_obj_members[OF assms] by (simp add: need_def p get_Uint_word[OF assms])
qed

theorem trades_json_roundtrip_witness:
  "MultiTrade_FromJson (demo_json DStr) (MultiTrade_ToJson (demo_json DStr) \<lparr>tl_records = [TradeRecord_new\<lparr>tr_amount := 9\<rparr>], tl_request = 7\<rparr>) \<lparr>tl_records = [], tl_request = 0\<rparr>
      = \<lparr>tl_records = [TradeRecord_new\<lparr>tr_amount := 9\<rparr>], tl_request = 7\<rparr>
   \<and> Trade_FromJson (demo_json DStr) (Trade_ToJson (demo_json DStr) (TradeRecord_new\<lparr>tr_property := - 1, tr_from := 4\<rparr>)) TradeRecord_new = (False, TradeRecord_new\<lparr>tr_from := 4\<rparr>)"
proof -
  have "trade_ok (TradeRecord_new\<lparr>tr_amount := 9\<rparr>)" by (simp add: trade_ok_def TradeRecord_new_def)
  with trades_json_roundtrip[OF demo_json_ok, of "\<lparr>tl_records = [TradeRecord_new\<lparr>tr_amount := 9\<rparr>], tl_request = 7\<rparr>" DStr "\<lparr>tl_records = [], tl_request = 0\<rparr>"
      "TradeRecord_new\<lparr>tr_property := - 1, tr_from := 4\<rparr>"] show ?thesis by (simp add: TradeRecord_new_def)
qed

end
