(* ===== verification/Crypt_Helpers.thy ===== *)
theory Crypt_Helpers
  imports Json
begin

unbundle bit_operations_syntax

text \<open>
  \<open>EncryptHelper\<close> (\<open>framework/base/encrypthelper.cpp\<close>).  The ciphers and digests of Crypto++ are a parameter
  \<open>crypto\<close>: for a block cipher its \<open>BLOCKSIZE\<close>, its \<open>DEFAULT_KEYLENGTH\<close> and the two directions on one block.
  A pointer is the bytes from its address to the end of its object; reading or writing past them is
  \<^const>\<open>None\<close>.
\<close>

record block_cipher =
  bc_block :: nat
  bc_keylen :: nat
  bc_enc :: "byte list \<Rightarrow> byte list \<Rightarrow> byte list"
  bc_dec :: "byte list \<Rightarrow> byte list \<Rightarrow> byte list"

record crypto =
  cr_des :: block_cipher
  cr_aes :: block_cipher
  cr_blowfish :: block_cipher
  cr_rc6 :: block_cipher
  cr_idea :: block_cipher
  cr_md5 :: "byte list \<Rightarrow> byte list"
  cr_sha1 :: "byte list \<Rightarrow> byte list"

text \<open>What the documentation of Crypto++ says of them.\<close>

definition cipher_ok :: "nat \<Rightarrow> nat \<Rightarrow> block_cipher \<Rightarrow> bool" where
  "cipher_ok B k C \<longleftrightarrow> bc_block C = B \<and> bc_keylen C = k
     \<and> (\<forall>key b. length key = k \<longrightarrow> length b = B \<longrightarrow>
          length (bc_enc C key b) = B \<and> length (bc_dec C key b) = B \<and> bc_dec C key (bc_enc C key b) = b)"

definition crypto_ok :: "crypto \<Rightarrow> bool" where
  "crypto_ok K \<longleftrightarrow> cipher_ok 8 8 (cr_des K) \<and> cipher_ok 16 16 (cr_aes K) \<and> cipher_ok 8 16 (cr_blowfish K)
     \<and> cipher_ok 16 16 (cr_rc6 K) \<and> cipher_ok 8 16 (cr_idea K)
     \<and> (\<forall>m. length (cr_md5 K m) = 16) \<and> (\<forall>m. length (cr_sha1 K m) = 20)"

text \<open>The exclusive or of two strings, byte by byte; the C loops below compute it with their bounds.\<close>

definition xor_bytes :: "byte list \<Rightarrow> byte list \<Rightarrow> byte list" where
  "xor_bytes a b = map2 (XOR) a b"

text \<open>An instance for the witnesses: a block is xored with the key.\<close>

definition demo_cipher :: "nat \<Rightarrow> nat \<Rightarrow> block_cipher" where
  "demo_cipher B k = \<lparr> bc_block = B, bc_keylen = k, bc_enc = (\<lambda>key b. xor_bytes b key), bc_dec = (\<lambda>key b. xor_bytes b key) \<rparr>"

definition demo_crypto :: crypto where
  "demo_crypto = \<lparr> cr_des = demo_cipher 8 8, cr_aes = demo_cipher 16 16, cr_blowfish = demo_cipher 8 16,
     cr_rc6 = demo_cipher 16 16, cr_idea = demo_cipher 8 16,
     cr_md5 = (\<lambda>m. replicate 16 (fold (XOR) m 0x55)), cr_sha1 = (\<lambda>m. replicate 20 (fold (XOR) m 0x33)) \<rparr>"

subsection \<open>The loops\<close>

definition EncryptHelper_XOR :: "byte list \<Rightarrow> byte list \<Rightarrow> nat \<Rightarrow> byte list \<Rightarrow> byte list option" where
  "EncryptHelper_XOR r l count out =
     each (\<lambda>n out. if n < length r \<and> n < length l \<and> n < length out then Some (out[n := r ! n XOR l ! n]) else None)
       [0..<count] out"

definition XORForCircle :: "byte list \<Rightarrow> nat \<Rightarrow> byte list \<Rightarrow> nat \<Rightarrow> byte list \<Rightarrow> byte list option" where
  "XORForCircle r count_r l count_l out =
     (if count_r < count_l then Some out
      else map_option snd (each (\<lambda>n (m, out).
          if n < length r \<and> m < length l \<and> n < length out
          then Some (if count_l \<le> m + 1 then 0 else m + 1, out[n := r ! n XOR l ! m]) else None)
        [0..<count_r] (0, out)))"

text \<open>The loop of \<open>BlockEncryptionHelper\<close> and \<open>BlockDecryptionHelper\<close>: \<open>f\<close> is the cipher on one block, \<open>pos\<close> the
  distance of \<open>input_temp\<close> and \<open>output_temp\<close> from the start (it is \<open>out_temp_len\<close> too).  A cipher with blocks
  of no bytes would not return: \<^const>\<open>None\<close>.\<close>

function block_loop :: "nat \<Rightarrow> (byte list \<Rightarrow> byte list) \<Rightarrow> byte list \<Rightarrow> nat \<Rightarrow> nat \<Rightarrow> nat \<Rightarrow> byte list \<Rightarrow> (byte list \<times> nat) option" where
  "block_loop B f input len_temp pos output_len out =
     (if len_temp = 0 \<or> output_len < B then Some (out, pos)
      else if B = 0 then None
      else do {
        b \<leftarrow> mem_read input pos B;
        out1 \<leftarrow> memcpy_at out pos (f b);
        block_loop B f input (len_temp - min len_temp B) (pos + B) (output_len - B) out1 })"
  by pat_completeness auto
termination
  by (relation "measure (\<lambda>(B, f, input, len_temp, pos, output_len, out). len_temp)") auto

declare block_loop.simps [simp del]

definition BlockEncryptionHelper :: "block_cipher \<Rightarrow> byte list \<Rightarrow> byte list \<Rightarrow> nat \<Rightarrow> byte list \<Rightarrow> nat \<Rightarrow> (byte list \<times> nat) option" where
  "BlockEncryptionHelper C key input input_len output output_len = do {
     k \<leftarrow> mem_read key 0 (bc_keylen C);
     block_loop (bc_block C) (bc_enc C k) input input_len 0 output_len output }"

definition BlockDecryptionHelper :: "block_cipher \<Rightarrow> byte list \<Rightarrow> byte list \<Rightarrow> nat \<Rightarrow> byte list \<Rightarrow> nat \<Rightarrow> (byte list \<times> nat) option" where
  "BlockDecryptionHelper C key input input_len output output_len = do {
     k \<leftarrow> mem_read key 0 (bc_keylen C);
     block_loop (bc_block C) (bc_dec C k) input input_len 0 output_len output }"

subsection \<open>The helpers\<close>

text \<open>The arguments are pointers: a null pointer is \<^const>\<open>None\<close>, and then the helper returns false, which is
  \<open>Some None\<close>; otherwise it returns true with the output block and \<open>output_len\<close>.\<close>

type_synonym helper = "byte list option \<Rightarrow> byte list option \<Rightarrow> nat \<Rightarrow> byte list option \<Rightarrow> nat \<Rightarrow> (byte list \<times> nat) option option"

definition checked :: "(byte list \<Rightarrow> byte list \<Rightarrow> nat \<Rightarrow> byte list \<Rightarrow> nat \<Rightarrow> (byte list \<times> nat) option) \<Rightarrow> helper" where
  "checked run key input input_len output output_len =
     (case (key, input, output) of
        (Some k, Some i, Some out) \<Rightarrow> map_option Some (run k i input_len out output_len)
      | _ \<Rightarrow> Some None)"

definition DESEncryptionHelper :: "crypto \<Rightarrow> helper" where
  "DESEncryptionHelper K = checked (BlockEncryptionHelper (cr_des K))"

definition DESDecryptionHelper :: "crypto \<Rightarrow> helper" where
  "DESDecryptionHelper K = checked (BlockDecryptionHelper (cr_des K))"

definition AESEncryptionHelper :: "crypto \<Rightarrow> helper" where
  "AESEncryptionHelper K = checked (BlockEncryptionHelper (cr_aes K))"

definition AESDecrtptionHelper :: "crypto \<Rightarrow> helper" where
  "AESDecrtptionHelper K = checked (BlockDecryptionHelper (cr_aes K))"

definition BlowFishEncryptionHelper :: "crypto \<Rightarrow> helper" where
  "BlowFishEncryptionHelper K = checked (BlockEncryptionHelper (cr_blowfish K))"

definition BlowFishDecryptionHelper :: "crypto \<Rightarrow> helper" where
  "BlowFishDecryptionHelper K = checked (BlockDecryptionHelper (cr_blowfish K))"

definition RC6EncryptionHelper :: "crypto \<Rightarrow> helper" where
  "RC6EncryptionHelper K = checked (BlockEncryptionHelper (cr_rc6 K))"

definition RC6DecryptionHelper :: "crypto \<Rightarrow> helper" where
  "RC6DecryptionHelper K = checked (BlockDecryptionHelper (cr_rc6 K))"

definition IDEAEncryptionHelper :: "crypto \<Rightarrow> helper" where
  "IDEAEncryptionHelper K = checked (BlockEncryptionHelper (cr_idea K))"

definition IDEADecryptionHelper :: "crypto \<Rightarrow> helper" where
  "IDEADecryptionHelper K = checked (BlockDecryptionHelper (cr_idea K))"

text \<open>\<open>Final\<close> writes the whole digest; \<open>output_len\<close> is only assigned.\<close>

definition digest :: "(byte list \<Rightarrow> byte list) \<Rightarrow> byte list option \<Rightarrow> nat \<Rightarrow> byte list option \<Rightarrow> (byte list \<times> nat) option option" where
  "digest H input input_len output =
     (case (input, output) of
        (Some i, Some out) \<Rightarrow> do {
          m \<leftarrow> mem_read i 0 input_len;
          out1 \<leftarrow> memcpy_at out 0 (H m);
          Some (Some (out1, length (H m))) }
      | _ \<Rightarrow> Some None)"

definition MD5GenerationHelper :: "crypto \<Rightarrow> byte list option \<Rightarrow> nat \<Rightarrow> byte list option \<Rightarrow> (byte list \<times> nat) option option" where
  "MD5GenerationHelper K = digest (cr_md5 K)"

definition SHA1GenerationHelper :: "crypto \<Rightarrow> byte list option \<Rightarrow> nat \<Rightarrow> byte list option \<Rightarrow> (byte list \<times> nat) option option" where
  "SHA1GenerationHelper K = digest (cr_sha1 K)"

section \<open>What the helpers compute\<close>

text \<open>
  What the helpers compute inside their blocks (\<open>xor_bytes\<close>, \<open>cycle_xor\<close>, \<open>ecb\<close>), and when they leave them.
\<close>

subsection \<open>The loops\<close>

lemma each_write:
  "each (\<lambda>n out. if P n \<and> n < length out then Some (out[n := g n]) else None) [0..<c] out =
   (if (\<forall>n<c. P n) \<and> c \<le> length out then Some (map g [0..<c] @ drop c out) else None)"
proof (induction c)
  case (Suc c)
  have "(map g [0..<c] @ drop c out)[c := g c] = map g [0..<c] @ g c # drop (Suc c) out" if "c < length out"
    using that by (simp add: list_update_append Cons_nth_drop_Suc[symmetric])
  then show ?case using Suc by (auto simp: each_append less_Suc_eq)
qed simp

lemma XOR_eq:
  "EncryptHelper_XOR r l count out =
   (if count \<le> length r \<and> count \<le> length l \<and> count \<le> length out then Some (take count (xor_bytes r l) @ drop count out)
    else None)"
proof -
  have m: "map (\<lambda>n. r ! n XOR l ! n) [0..<count] = take count (xor_bytes r l)" if "count \<le> length r" "count \<le> length l"
    using that by (intro nth_equalityI) (auto simp: xor_bytes_def)
  have f: "(\<lambda>n out. if n < length r \<and> n < length l \<and> n < length out then Some (out[n := r ! n XOR l ! n]) else None) =
      (\<lambda>n out. if (n < length r \<and> n < length l) \<and> n < length out then Some (out[n := r ! n XOR l ! n]) else None)"
    by (intro ext) simp
  have b: "(\<forall>n<count. n < length r \<and> n < length l) \<longleftrightarrow> count \<le> length r \<and> count \<le> length l"
    by (cases count) (auto simp: less_Suc_eq_le)
  show ?thesis unfolding EncryptHelper_XOR_def f each_write b using m by (auto simp: not_le)
qed

definition cycle_xor :: "byte list \<Rightarrow> byte list \<Rightarrow> byte list" where
  "cycle_xor a k = map (\<lambda>n. a ! n XOR k ! (n mod length k)) [0..<length a]"

lemma XORForCircle_eq:
  assumes "0 < count_l" "count_l \<le> length l" "count_r \<le> length r" "count_r \<le> length out"
  shows "XORForCircle r count_r l count_l out =
    (if count_r < count_l then Some out
     else Some (cycle_xor (take count_r r) (take count_l l) @ drop count_r out))"
proof -
  have "each (\<lambda>n (m, out). if n < length r \<and> m < length l \<and> n < length out
          then Some (if count_l \<le> m + 1 then 0 else m + 1, out[n := r ! n XOR l ! m]) else None) [0..<c] (0, out) =
      Some (c mod count_l, map (\<lambda>n. r ! n XOR l ! (n mod count_l)) [0..<c] @ drop c out)" if "c \<le> count_r" for c
    using that
  proof (induction c)
    case (Suc c)
    have u: "(map g [0..<c] @ drop c out)[c := y] = map g [0..<c] @ y # drop (Suc c) out" for g and y :: byte
      using Suc.prems assms(4) by (simp add: list_update_append Cons_nth_drop_Suc[symmetric])
    have m: "c mod count_l < count_l" using assms(1) by simp
    then have "(if count_l \<le> c mod count_l + 1 then 0 else c mod count_l + 1) = Suc c mod count_l" by (auto simp: mod_Suc)
    then show ?case using Suc assms m by (simp add: each_append u)
  qed simp
  from this[of count_r] show ?thesis
    using assms by (auto simp: XORForCircle_def cycle_xor_def min_def)
qed

text \<open>The result of a cipher over \<open>k\<close> blocks.\<close>

definition ecb :: "nat \<Rightarrow> (byte list \<Rightarrow> byte list) \<Rightarrow> nat \<Rightarrow> byte list \<Rightarrow> byte list" where
  "ecb B f k input = concat (map (\<lambda>i. f (take B (drop (i * B) input))) [0..<k])"

lemma ecb_Suc: "ecb B f (Suc k) input = f (take B input) @ ecb B f k (drop B input)"
proof -
  have "[0..<Suc k] = 0 # map Suc [0..<k]" by (simp add: upt_conv_Cons map_Suc_upt del: upt_Suc)
  then show ?thesis by (simp add: ecb_def o_def add.commute del: upt_Suc)
qed

lemma ecb_0 [simp]: "ecb B f 0 input = []"
  by (simp add: ecb_def)

lemma ecb_append: "k * B \<le> length input \<Longrightarrow> ecb B f k (input @ rest) = ecb B f k input"
  by (induction k arbitrary: input) (simp_all add: ecb_Suc)

lemma length_ecb:
  assumes "\<And>b. length b = B \<Longrightarrow> length (f b) = B" "k * B \<le> length input"
  shows "length (ecb B f k input) = k * B"
  using assms(2) by (induction k arbitrary: input) (auto simp: ecb_Suc assms(1))

lemma block_loop_step:
  "0 < n \<Longrightarrow> 0 < B \<Longrightarrow> B \<le> cap \<Longrightarrow> block_loop B f input n pos cap out = do {
     b \<leftarrow> mem_read input pos B; out1 \<leftarrow> memcpy_at out pos (f b);
     block_loop B f input (n - min n B) (pos + B) (cap - B) out1 }"
  by (subst block_loop.simps) auto

lemma block_loop_stop: "n = 0 \<or> cap < B \<Longrightarrow> block_loop B f input n pos cap out = Some (out, pos)"
  by (subst block_loop.simps) auto

text \<open>The number of blocks: all that the input needs, as far as the output has room.\<close>

definition blocks :: "nat \<Rightarrow> nat \<Rightarrow> nat \<Rightarrow> nat" where
  "blocks B n cap = min ((n + B - 1) div B) (cap div B)"

lemma blocks_stop: "0 < B \<Longrightarrow> n = 0 \<or> cap < B \<Longrightarrow> blocks B n cap = 0"
  by (auto simp: blocks_def)

lemma blocks_step: "0 < B \<Longrightarrow> 0 < n \<Longrightarrow> B \<le> cap \<Longrightarrow> blocks B n cap = Suc (blocks B (n - min n B) (cap - B))"
proof -
  assume B: "0 < B" "0 < n" "B \<le> cap"
  have "(n + B - 1) div B = Suc ((n - min n B + B - 1) div B)"
  proof (cases "n \<le> B")
    case True
    have "n + B - 1 = (n - 1) + B" using B by simp
    then have "(n + B - 1) div B = Suc ((n - 1) div B)" using B(1) by (metis Suc_eq_plus1 div_add_self2 less_not_refl)
    then show ?thesis using True B by (simp add: min_def)
  next
    case False
    then have "n + B - 1 = (n - B + B - 1) + B" by simp
    then have "(n + B - 1) div B = Suc ((n - B + B - 1) div B)" using B(1) by (metis Suc_eq_plus1 div_add_self2 less_not_refl)
    then show ?thesis using False by (simp add: min_def)
  qed
  moreover have "cap div B = Suc ((cap - B) div B)" using B by (simp add: le_div_geq)
  ultimately show ?thesis by (simp add: blocks_def)
qed

lemma block_loop_eq:
  assumes "0 < B" "\<And>b. length b = B \<Longrightarrow> length (f b) = B" "pos \<le> length out"
  shows "block_loop B f input n pos cap out =
    (let k = blocks B n cap in
     if k = 0 \<or> pos + k * B \<le> length input \<and> pos + k * B \<le> length out
     then Some (take pos out @ ecb B f k (drop pos input) @ drop (pos + k * B) out, pos + k * B) else None)"
  using assms(3)
proof (induction n arbitrary: pos cap out rule: less_induct)
  case (less n)
  show ?case
  proof (cases "n = 0 \<or> cap < B")
    case True
    then show ?thesis using blocks_stop[OF assms(1) True] by (simp add: block_loop_stop)
  next
    case False
    let ?k = "blocks B (n - min n B) (cap - B)"
    have k: "blocks B n cap = Suc ?k" using False assms(1) by (intro blocks_step) auto
    show ?thesis
    proof (cases "pos + B \<le> length input \<and> pos + B \<le> length out")
      case True
      let ?b = "f (take B (drop pos input))" let ?out = "take pos out @ ?b @ drop (pos + B) out"
      have l: "length ?b = B" by (rule assms(2)) (use True in \<open>auto simp: min_def\<close>)
      have s: "block_loop B f input n pos cap out = block_loop B f input (n - min n B) (pos + B) (cap - B) ?out"
        using False assms(1) True l by (simp add: block_loop_step mem_simps)
      have lo: "length ?out = length out" using True l by simp
      have "n - min n B < n" "pos + B \<le> length ?out" using False assms(1) True lo by auto
      note IH = less.IH[OF this]
      have t: "take (pos + B) ?out = take pos out @ ?b" "drop (pos + B + m) ?out = drop (pos + B + m) out" for m
        using True l by (simp_all add: ac_simps)
      have iff: "(?k = 0 \<or> pos + B + ?k * B \<le> length input \<and> pos + B + ?k * B \<le> length out) \<longleftrightarrow>
          pos + Suc ?k * B \<le> length input \<and> pos + Suc ?k * B \<le> length out"
        using True by (auto simp: algebra_simps)
      have e: "ecb B f (Suc ?k) (drop pos input) = ?b @ ecb B f ?k (drop (pos + B) input)"
        by (simp add: ecb_Suc add.commute)
      have a: "pos + B + ?k * B = pos + Suc ?k * B" by simp
      show ?thesis unfolding s IH k Let_def lo iff t(1) e unfolding t(2)[of "?k * B"] a
        by (simp add: l ac_simps del: append_take_drop_id)
    next
      case bad: False
      have "block_loop B f input n pos cap out = None"
      proof (cases "pos + B \<le> length input")
        case True
        then have "length (f (take B (drop pos input))) = B" by (intro assms(2)) simp
        then show ?thesis using bad True False assms(1) by (simp add: block_loop_step mem_simps)
      next
        case False: False
        then show ?thesis using bad \<open>\<not> (n = 0 \<or> cap < B)\<close> assms(1) by (simp add: block_loop_step mem_simps)
      qed
      moreover have "\<not> (pos + Suc ?k * B \<le> length input \<and> pos + Suc ?k * B \<le> length out)" using bad by auto
      ultimately show ?thesis unfolding k Let_def by simp
    qed
  qed
qed

subsection \<open>Block ciphers\<close>

lemma cipher_okD:
  assumes "cipher_ok B k C"
  shows "bc_block C = B" "bc_keylen C = k"
    "length key = k \<Longrightarrow> length b = B \<Longrightarrow> length (bc_enc C key b) = B"
    "length key = k \<Longrightarrow> length b = B \<Longrightarrow> length (bc_dec C key b) = B"
    "length key = k \<Longrightarrow> length b = B \<Longrightarrow> bc_dec C key (bc_enc C key b) = b"
  using assms unfolding cipher_ok_def by auto

lemma Block_eq:
  assumes "cipher_ok B k C" "0 < B" "k \<le> length key"
  shows "BlockEncryptionHelper C key input n out cap =
      (let m = blocks B n cap in if m = 0 \<or> m * B \<le> length input \<and> m * B \<le> length out
       then Some (ecb B (bc_enc C (take k key)) m input @ drop (m * B) out, m * B) else None)"
    and "BlockDecryptionHelper C key input n out cap =
      (let m = blocks B n cap in if m = 0 \<or> m * B \<le> length input \<and> m * B \<le> length out
       then Some (ecb B (bc_dec C (take k key)) m input @ drop (m * B) out, m * B) else None)"
proof -
  have k: "mem_read key 0 k = Some (take k key)" "length (take k key) = k" using assms(3) by (simp_all add: mem_simps)
  show "BlockEncryptionHelper C key input n out cap =
      (let m = blocks B n cap in if m = 0 \<or> m * B \<le> length input \<and> m * B \<le> length out
       then Some (ecb B (bc_enc C (take k key)) m input @ drop (m * B) out, m * B) else None)"
    using block_loop_eq[OF assms(2), of "bc_enc C (take k key)" 0 out input n cap] cipher_okD[OF assms(1)] k
    by (simp add: BlockEncryptionHelper_def Let_def)
  show "BlockDecryptionHelper C key input n out cap =
      (let m = blocks B n cap in if m = 0 \<or> m * B \<le> length input \<and> m * B \<le> length out
       then Some (ecb B (bc_dec C (take k key)) m input @ drop (m * B) out, m * B) else None)"
    using block_loop_eq[OF assms(2), of "bc_dec C (take k key)" 0 out input n cap] cipher_okD[OF assms(1)] k
    by (simp add: BlockDecryptionHelper_def Let_def)
qed

lemma blocks_whole: "0 < B \<Longrightarrow> m * B \<le> cap \<Longrightarrow> blocks B (m * B) cap = m"
proof -
  assume B: "0 < B" and c: "m * B \<le> cap"
  have "m * B + B - 1 = (B - 1) + m * B" using B by simp
  then have "(m * B + B - 1) div B = m" using B div_mult_self1[of B "B - 1" m] by simp
  moreover have "m \<le> cap div B" using div_le_mono[OF c, of B] B by simp
  ultimately show ?thesis by (simp add: blocks_def)
qed

lemma ecb_inverse:
  assumes "\<And>b. length b = B \<Longrightarrow> length (f b) = B" "\<And>b. length b = B \<Longrightarrow> g (f b) = b" "m * B \<le> length input"
  shows "ecb B g m (ecb B f m input @ rest) = take (m * B) input"
  using assms(3)
proof (induction m arbitrary: input)
  case (Suc m)
  have l: "length (take B input) = B" "length (f (take B input)) = B" using Suc.prems by (auto intro!: assms(1) simp: min_def)
  show ?case using Suc assms(2)[OF l(1)] l by (simp add: ecb_Suc take_add)
qed simp

text \<open>Decrypting what the helper encrypted gives the input back, when the input has whole blocks and the buffers
  have room for it: the pair of loops is a round trip for every cipher that is one on single blocks.\<close>

theorem block_roundtrip:
  assumes "cipher_ok B k C" "0 < B" "k \<le> length key" "B dvd n" "n \<le> length input"
    and "n \<le> cap" "n \<le> length out" "n \<le> cap'" "n \<le> length out'"
  shows "\<exists>c. BlockEncryptionHelper C key input n out cap = Some (c, n)
    \<and> BlockDecryptionHelper C key c n out' cap' = Some (take n input @ drop n out', n)"
proof -
  obtain m where n: "n = m * B" using assms(4) unfolding dvd_def by (auto simp: mult.commute)
  let ?c = "ecb B (bc_enc C (take k key)) m input @ drop n out"
  have ks: "length (take k key) = k" using assms(3) by simp
  note laws = cipher_okD(3-5)[OF assms(1) ks]
  have l: "length (ecb B (bc_enc C (take k key)) m input) = n" unfolding n by (rule length_ecb[OF laws(1)]) (use assms(5) n in auto)
  have "BlockEncryptionHelper C key input n out cap = Some (?c, n)"
    using Block_eq(1)[OF assms(1-3)] blocks_whole[OF assms(2), of m cap] assms(5-7) n by simp
  moreover have "BlockDecryptionHelper C key ?c n out' cap' = Some (take n input @ drop n out', n)"
    using Block_eq(2)[OF assms(1-3)] blocks_whole[OF assms(2), of m cap'] ecb_inverse[OF laws(1,3), of m input] assms(5-9) n l
    by simp
  ultimately show ?thesis by blast
qed

lemma demo_cipher_ok: "B \<le> k \<Longrightarrow> cipher_ok B k (demo_cipher B k)"
proof -
  assume "B \<le> k"
  have "xor_bytes (xor_bytes b key) key = b" if "length b \<le> length key" for b key
    using that by (intro nth_equalityI) (auto simp: xor_bytes_def xor.assoc)
  with \<open>B \<le> k\<close> show ?thesis by (auto simp: cipher_ok_def demo_cipher_def xor_bytes_def)
qed

lemma demo_crypto_ok: "crypto_ok demo_crypto"
  by (simp add: crypto_ok_def demo_crypto_def demo_cipher_ok)

lemma block_roundtrip_witness:
  "\<exists>c. BlockEncryptionHelper (demo_cipher 2 2) [7, 9] [1, 2, 3, 4, 5] 4 (replicate 6 0) 6 = Some (c, 4)
    \<and> BlockDecryptionHelper (demo_cipher 2 2) [7, 9] c 4 (replicate 5 0) 5 = Some (take 4 [1, 2, 3, 4, 5] @ drop 4 (replicate 5 0), 4)"
  by (rule block_roundtrip[OF demo_cipher_ok]) simp_all

end
