(* ===== verification/Encryption.thy ===== *)
theory Encryption
  imports Crypt_Helpers "HOL-Library.Signed_Division"
begin

text \<open>
  \<open>Encrypt\<close> and \<open>Encryption\<close> (\<open>framework/base/encrypt.cpp\<close>, \<open>encryption.cpp\<close>): the challenge of the login, a
  text of 42 bytes (16 random digits, the time, 16 random digits), and the answers to it, of which the
  challenge itself selects one.  \<open>c_str\<close> is the memory of a string with its NUL; \<open>std::string(char*)\<close> reads up to
  the first NUL (\<open>c_string\<close>).  An exception that \<open>substr\<close> throws is not caught: \<^const>\<open>None\<close>.
\<close>

definition c_str :: "byte list \<Rightarrow> byte list" where
  "c_str s = s @ [0]"

definition c_string :: "byte list \<Rightarrow> byte list option" where
  "c_string b = (if 0 \<in> set b then Some (cstr b) else None)"

definition substr :: "byte list \<Rightarrow> nat \<Rightarrow> nat \<Rightarrow> byte list option" where
  "substr s pos n = (if pos \<le> length s then Some (take n (drop pos s)) else None)"

record encrypt =
  en_iv :: "byte list"
  en_timestamp :: "byte list"
  en_mod_key :: "byte list"
  en_plainttext :: "byte list"
  en_ciphertext :: "byte list"

definition encrypt_empty :: encrypt where
  "encrypt_empty = \<lparr> en_iv = [], en_timestamp = [], en_mod_key = [], en_plainttext = [], en_ciphertext = [] \<rparr>"

subsection \<open>The challenge\<close>

text \<open>The loop over the target: \<open>r\<close> counts the calls of \<open>rand\<close>.\<close>

primrec draw_chars :: "(nat \<Rightarrow> nat) \<Rightarrow> nat list \<Rightarrow> byte list \<Rightarrow> nat \<times> byte list \<Rightarrow> (nat \<times> byte list) option" where
  "draw_chars rnd [] vec_chars st = Some st"
| "draw_chars rnd (i # is) vec_chars st =
     (if vec_chars = [] then Some st
      else case st of (r, target) \<Rightarrow>
        let random_index = rnd r mod length vec_chars
        in if i < length target
           then draw_chars rnd is (take random_index vec_chars @ drop (Suc random_index) vec_chars)
                  (r + 1, target[i := vec_chars ! random_index])
           else None)"

definition GenerateRandomString :: "(nat \<Rightarrow> nat) \<Rightarrow> nat \<Rightarrow> byte list \<Rightarrow> byte list \<Rightarrow> nat \<Rightarrow> (nat \<times> byte list) option" where
  "GenerateRandomString rnd r source_str target_str target_len =
     (if target_len = 0 \<or> source_str = [] then Some (r, target_str)
      else draw_chars rnd [0..<target_len] source_str (r, target_str))"

definition InitPlainttext :: "(nat \<Rightarrow> nat) \<Rightarrow> nat \<Rightarrow> int \<Rightarrow> encrypt \<Rightarrow> (nat \<times> encrypt) option" where
  "InitPlainttext rnd r time_now en = do {
     (r1, iv_temp) \<leftarrow> GenerateRandomString rnd r (bytes ''0123456789abcdef'') (replicate 17 0) 17;
     (r2, mod_key_temp) \<leftarrow> GenerateRandomString rnd r1 (bytes ''abcdef0123456789'') (replicate 17 0) 17;
     iv \<leftarrow> c_string iv_temp;
     mod_key \<leftarrow> c_string mod_key_temp;
     t \<leftarrow> memcpy_at (replicate 16 0) 0 (c_str (show_int time_now));
     t1 \<leftarrow> c_string t;
     let timestamp = (if length t1 \<noteq> 10 then bytes ''0000000000'' else t1);
     Some (r2, en\<lparr> en_iv := iv @ timestamp, en_timestamp := timestamp, en_mod_key := mod_key,
       en_plainttext := (iv @ timestamp) @ mod_key \<rparr>) }"

definition Encrypt_new :: "(nat \<Rightarrow> nat) \<Rightarrow> nat \<Rightarrow> int \<Rightarrow> (nat \<times> encrypt) option" where
  "Encrypt_new rnd r time_now = InitPlainttext rnd r time_now encrypt_empty"

definition InitPlainttext_from :: "byte list \<Rightarrow> encrypt \<Rightarrow> encrypt option" where
  "InitPlainttext_from plainttext_message en =
     (if length plainttext_message \<noteq> 42 then Some en
      else do {
        iv \<leftarrow> substr plainttext_message 0 26;
        mod_key \<leftarrow> substr plainttext_message 26 (42 - 26);
        Some (en\<lparr> en_iv := iv, en_mod_key := mod_key, en_plainttext := plainttext_message \<rparr>) })"

definition Encrypt_from :: "byte list \<Rightarrow> encrypt option" where
  "Encrypt_from plainttext_message = InitPlainttext_from plainttext_message encrypt_empty"

subsection \<open>The answers\<close>

text \<open>The loop of the first answer: each byte of \<open>iv_\<close> is xored with the byte of the result before it.\<close>

definition link_xor :: "byte list \<Rightarrow> byte list \<Rightarrow> byte list \<Rightarrow> byte list option" where
  "link_xor iv mod_key part1 =
     each (\<lambda>i p. do {
         q \<leftarrow> EncryptHelper_XOR (drop i (c_str iv)) (if i = 0 then c_str mod_key else drop (i - 1) p) 1 (drop i p);
         Some (take i p @ q) })
       [0..<length iv] part1"

definition EncryptAlgorithmOne :: "crypto \<Rightarrow> encrypt \<Rightarrow> (int \<times> encrypt) option" where
  "EncryptAlgorithmOne K en = do {
     part1 \<leftarrow> link_xor (en_iv en) (en_mod_key en) (replicate 32 0);
     md5 \<leftarrow> MD5GenerationHelper K (Some (c_str (en_mod_key en))) (length (en_mod_key en)) (Some (replicate 64 0));
     (case md5 of
        None \<Rightarrow> Some (- 1, en)
      | Some (part2, _) \<Rightarrow> do {
          a \<leftarrow> c_string part1;
          b \<leftarrow> c_string part2;
          Some (0, en\<lparr> en_ciphertext := a @ b \<rparr>) }) }"

definition EncryptAlgorithmTwo :: "crypto \<Rightarrow> encrypt \<Rightarrow> (int \<times> encrypt) option" where
  "EncryptAlgorithmTwo K en = do {
     md5 \<leftarrow> MD5GenerationHelper K (Some (c_str (en_iv en))) 1 (Some (replicate 64 0));
     (case md5 of
        None \<Rightarrow> Some (- 1, en)
      | Some (part1, md5_length) \<Rightarrow> do {
          in_put \<leftarrow> substr (en_plainttext en) 1 (length (en_plainttext en) - 1);
          part2 \<leftarrow> XORForCircle (c_str in_put) (length in_put) part1 md5_length (replicate 64 0);
          a \<leftarrow> c_string part2;
          Some (0, en\<lparr> en_ciphertext := a \<rparr>) }) }"

definition EncryptAlgorithmThree :: "crypto \<Rightarrow> encrypt \<Rightarrow> (int \<times> encrypt) option" where
  "EncryptAlgorithmThree K en = do {
     des_key \<leftarrow> substr (en_plainttext en) 0 7;
     des \<leftarrow> DESEncryptionHelper K (Some (c_str des_key)) (Some (c_str (en_mod_key en))) (length (en_mod_key en))
       (Some (replicate 32 0)) 32;
     (case des of
        None \<Rightarrow> Some (- 1, en)
      | Some (part1, _) \<Rightarrow> do {
          md5 \<leftarrow> MD5GenerationHelper K (Some (c_str (en_iv en))) 1 (Some (replicate 64 0));
          (case md5 of
             None \<Rightarrow> Some (- 1, en)
           | Some (part2, _) \<Rightarrow> do {
               iv_other \<leftarrow> substr (en_iv en) 1 (length (en_iv en) - 1);
               part3 \<leftarrow> XORForCircle (c_str (en_mod_key en)) (length (en_mod_key en)) (c_str iv_other) (length iv_other)
                 (replicate 32 0);
               a \<leftarrow> c_string part1;
               b \<leftarrow> c_string part2;
               c \<leftarrow> c_string part3;
               Some (0, en\<lparr> en_ciphertext := a @ b @ c \<rparr>) }) }) }"

text \<open>The body of \<open>EncryptAlgorithmFour\<close> is commented out.\<close>

definition EncryptAlgorithmFour :: "crypto \<Rightarrow> encrypt \<Rightarrow> (int \<times> encrypt) option" where
  "EncryptAlgorithmFour K en = Some (0, en)"

definition EncryptAlgorithmFive :: "crypto \<Rightarrow> encrypt \<Rightarrow> (int \<times> encrypt) option" where
  "EncryptAlgorithmFive K en = do {
     part1 \<leftarrow> EncryptHelper_XOR (c_str (en_iv en)) (c_str (en_mod_key en)) (length (en_mod_key en)) (replicate 32 0);
     md5 \<leftarrow> MD5GenerationHelper K (Some (c_str (en_mod_key en))) (length (en_mod_key en)) (Some (replicate 64 0));
     (case md5 of
        None \<Rightarrow> Some (- 1, en)
      | Some (part2, _) \<Rightarrow> do {
          a \<leftarrow> c_string part1;
          b \<leftarrow> c_string part2;
          Some (0, en\<lparr> en_ciphertext := a @ b \<rparr>) }) }"

definition EncryptAlgorithmSix :: "crypto \<Rightarrow> encrypt \<Rightarrow> (int \<times> encrypt) option" where
  "EncryptAlgorithmSix K en = do {
     des_key \<leftarrow> substr (en_plainttext en) 0 7;
     des \<leftarrow> DESEncryptionHelper K (Some (c_str des_key)) (Some (c_str (en_mod_key en))) (length (en_mod_key en))
       (Some (replicate 32 0)) 32;
     (case des of
        None \<Rightarrow> Some (- 1, en)
      | Some (part1, _) \<Rightarrow> do {
          part2 \<leftarrow> EncryptHelper_XOR part1 (c_str (en_iv en)) (length (en_iv en)) (replicate 32 0);
          a \<leftarrow> c_string part2;
          Some (0, en\<lparr> en_ciphertext := a \<rparr>) }) }"

definition EncryptAlgorithmSeven :: "crypto \<Rightarrow> encrypt \<Rightarrow> (int \<times> encrypt) option" where
  "EncryptAlgorithmSeven K en = do {
     fish \<leftarrow> BlowFishEncryptionHelper K (Some (c_str (en_mod_key en))) (Some (c_str (en_iv en))) (length (en_iv en))
       (Some (replicate 32 0)) 32;
     (case fish of
        None \<Rightarrow> Some (- 1, en)
      | Some _ \<Rightarrow> do {
          md5 \<leftarrow> MD5GenerationHelper K (Some (c_str (en_mod_key en))) (length (en_mod_key en)) (Some (replicate 32 0));
          (case md5 of
             None \<Rightarrow> Some (- 1, en)
           | Some (part2, _) \<Rightarrow> do {
               part3 \<leftarrow> EncryptHelper_XOR part2 (c_str (en_mod_key en)) (length (en_mod_key en)) (replicate 32 0);
               a \<leftarrow> c_string part3;
               Some (0, en\<lparr> en_ciphertext := a \<rparr>) }) }) }"

definition EncryptAlgorithmEight :: "crypto \<Rightarrow> encrypt \<Rightarrow> (int \<times> encrypt) option" where
  "EncryptAlgorithmEight K en = do {
     aes \<leftarrow> AESEncryptionHelper K (Some (c_str (en_iv en))) (Some (c_str (en_mod_key en))) (length (en_mod_key en))
       (Some (replicate 64 0)) 64;
     let (aes_result, aes_result_len) = (case aes of Some p \<Rightarrow> p | None \<Rightarrow> (replicate 64 0, 64));
     (if aes_result_len > length (en_iv en) then do {
        output \<leftarrow> XORForCircle aes_result aes_result_len (c_str (en_iv en)) (length (en_iv en)) (replicate 64 0);
        a \<leftarrow> mem_read output 0 aes_result_len;
        Some (0, en\<lparr> en_ciphertext := a \<rparr>) }
      else do {
        output \<leftarrow> XORForCircle (c_str (en_iv en)) (length (en_iv en)) aes_result aes_result_len (replicate 64 0);
        a \<leftarrow> mem_read output 0 (length (en_iv en));
        Some (0, en\<lparr> en_ciphertext := a \<rparr>) }) }"

text \<open>The calls of the last two ignore what the helper returns.\<close>

definition digest_into :: "(byte list \<times> nat) option \<Rightarrow> byte list \<times> nat" where
  "digest_into res = (case res of Some p \<Rightarrow> p | None \<Rightarrow> (replicate 64 0, 64))"

definition EncryptAlgorithmNight :: "crypto \<Rightarrow> encrypt \<Rightarrow> (int \<times> encrypt) option" where
  "EncryptAlgorithmNight K en = do {
     d1 \<leftarrow> MD5GenerationHelper K (Some (c_str (en_iv en))) (length (en_iv en)) (Some (replicate 64 0));
     let (output1, output_len) = digest_into d1;
     d2 \<leftarrow> MD5GenerationHelper K (Some (c_str (en_mod_key en))) (length (en_mod_key en)) (Some (replicate 64 0));
     let (output2, output_len2) = digest_into d2;
     s1 \<leftarrow> mem_read output1 0 output_len;
     o1 \<leftarrow> memcpy_at (replicate 128 0) 0 s1;
     s2 \<leftarrow> mem_read output2 0 output_len2;
     output \<leftarrow> memcpy_at o1 output_len s2;
     d3 \<leftarrow> MD5GenerationHelper K (Some output) (output_len + output_len2) (Some (replicate 64 0));
     let (final_output, final_output_len) = digest_into d3;
     a \<leftarrow> mem_read final_output 0 final_output_len;
     Some (0, en\<lparr> en_ciphertext := a \<rparr>) }"

definition EncryptAlgorithmTen :: "crypto \<Rightarrow> encrypt \<Rightarrow> (int \<times> encrypt) option" where
  "EncryptAlgorithmTen K en = do {
     let plain_message = en_iv en @ en_mod_key en;
     d \<leftarrow> SHA1GenerationHelper K (Some (c_str plain_message)) (length plain_message) (Some (replicate 64 0));
     let (output, output_len) = digest_into d;
     a \<leftarrow> mem_read output 0 output_len;
     Some (0, en\<lparr> en_ciphertext := a \<rparr>) }"

subsection \<open>The choice of the answer\<close>

text \<open>\<open>result\<close> sums signed characters.  The text has 42 bytes or none, so neither it nor the index overflows.\<close>

partial_function (option) index_loop :: "byte list \<Rightarrow> nat \<Rightarrow> nat \<Rightarrow> int \<Rightarrow> int option" where
  "index_loop p aimIndex lastNum result =
     (if aimIndex < length p then index_loop p (aimIndex + lastNum) aimIndex (result + sint (p ! aimIndex))
      else Some result)"

definition GetEncryptAlgorithmIndex :: "encrypt \<Rightarrow> int option" where
  "GetEncryptAlgorithmIndex en =
     (if en_plainttext en = [] then Some (- 1)
      else do { result \<leftarrow> index_loop (en_plainttext en) 1 1 0; Some (result smod 10 + 1) })"

text \<open>The table of the member functions: the entry 0 is a null pointer, and there are eleven.\<close>

definition encrypt_table :: "crypto \<Rightarrow> (encrypt \<Rightarrow> (int \<times> encrypt) option) option list" where
  "encrypt_table K =
     [None, Some (EncryptAlgorithmOne K), Some (EncryptAlgorithmTwo K), Some (EncryptAlgorithmThree K),
      Some (EncryptAlgorithmThree K), Some (EncryptAlgorithmFive K), Some (EncryptAlgorithmSix K),
      Some (EncryptAlgorithmSeven K), Some (EncryptAlgorithmEight K), Some (EncryptAlgorithmNight K),
      Some (EncryptAlgorithmTen K)]"

definition run_algorithm :: "crypto \<Rightarrow> nat \<Rightarrow> encrypt \<Rightarrow> (int \<times> encrypt) option" where
  "run_algorithm K i en =
     (if i < length (encrypt_table K) then (case encrypt_table K ! i of Some f \<Rightarrow> f en | None \<Rightarrow> None) else None)"

definition EncryptMessage_type :: "crypto \<Rightarrow> int \<Rightarrow> encrypt \<Rightarrow> (int \<times> encrypt) option" where
  "EncryptMessage_type K algorithm_type en =
     (if algorithm_type < 0 \<or> algorithm_type > 11 then Some (- 1, en) else run_algorithm K (nat algorithm_type) en)"

definition EncryptMessage :: "crypto \<Rightarrow> encrypt \<Rightarrow> (int \<times> int \<times> encrypt) option" where
  "EncryptMessage K en = do {
     num \<leftarrow> GetEncryptAlgorithmIndex en;
     (if num < 1 \<or> num > 10 then Some (- 1, num, en)
      else map_option (\<lambda>(ret, en1). (ret, num, en1)) (run_algorithm K (nat num) en)) }"

subsection \<open>The class \<open>Encryption\<close>\<close>

text \<open>The static key \<open>rc6_key\<close>: twenty bytes, all zero until \<open>GenerateRc6Key\<close> is called.\<close>

definition rc6_key_initial :: "byte list" where
  "rc6_key_initial = replicate 20 0"

definition GenerateRc6Key :: "crypto \<Rightarrow> byte list option" where
  "GenerateRc6Key K = do {
     d \<leftarrow> MD5GenerationHelper K (Some (c_str (bytes ''f12c070f45a4416b80b6f6a0a47fb6e6fe709258''))) 40
       (Some (replicate 20 0));
     Some (case d of Some (key, _) \<Rightarrow> key | None \<Rightarrow> replicate 20 0) }"

definition NeedVerify :: "byte list \<Rightarrow> bool" where
  "NeedVerify flag_from_client = True"

text \<open>\<open>string_in[i]\<close>: at \<open>size()\<close> it is the NUL.\<close>

definition str_at :: "byte list \<Rightarrow> nat \<Rightarrow> byte option" where
  "str_at s i = (if i < length s then Some (s ! i) else if i = length s then Some 0 else None)"

definition HexConverter :: "byte list" where
  "HexConverter = bytes ''0123456789ABCDEF''"

definition CharToHexadecimal :: "byte list \<Rightarrow> nat \<Rightarrow> byte list \<Rightarrow> byte list option" where
  "CharToHexadecimal string_in n out =
     each (\<lambda>i out. do {
         c \<leftarrow> str_at string_in i;
         Some (out @ [HexConverter ! unat (drop_bit 4 (c AND 0xF0)), HexConverter ! unat (c AND 0x0F)]) })
       [0..<n] out"

text \<open>The value of a digit as a \<open>char\<close>; shifting a negative one is undefined.\<close>

definition hex_value :: "byte \<Rightarrow> byte" where
  "hex_value c = (if sint c \<ge> 0x41 then c - 0x41 + 10 else c - 0x30)"

definition HexadecimalToChar :: "byte list \<Rightarrow> nat \<Rightarrow> byte list \<Rightarrow> byte list option" where
  "HexadecimalToChar string_in n out =
     each (\<lambda>i out. do {
         l \<leftarrow> str_at string_in i;
         r \<leftarrow> str_at string_in (i + 1);
         (if sint (hex_value l) < 0 then None else Some (out @ [push_bit 4 (hex_value l) OR hex_value r])) })
       (map ((*) 2) [0..<(n + 1) div 2]) out"

text \<open>The challenge and its RC6 form in hexadecimal digits.\<close>

definition GenerateMsg :: "crypto \<Rightarrow> byte list \<Rightarrow> (nat \<Rightarrow> nat) \<Rightarrow> nat \<Rightarrow> int \<Rightarrow> (nat \<times> byte list \<times> byte list) option" where
  "GenerateMsg K rc6_key rnd r time_now = do {
     (r1, en) \<leftarrow> Encrypt_new rnd r time_now;
     let plaintext = en_plainttext en;
     d \<leftarrow> RC6EncryptionHelper K (Some rc6_key) (Some (c_str plaintext)) 42 (Some (replicate 84 0)) 84;
     let (output, output_length) = (case d of Some p \<Rightarrow> p | None \<Rightarrow> (replicate 84 0, 84));
     string_rc6 \<leftarrow> mem_read output 0 output_length;
     string_out \<leftarrow> CharToHexadecimal string_rc6 (length string_rc6) [];
     Some (r1, plaintext, string_out) }"

definition EncryptMsg :: "crypto \<Rightarrow> byte list \<Rightarrow> byte list option" where
  "EncryptMsg K msg = do {
     en \<leftarrow> Encrypt_from msg;
     (_, _, en1) \<leftarrow> EncryptMessage K en;
     Some (en_ciphertext en1) }"

end
