(* ===== verification/Encryption_Props.thy ===== *)
theory Encryption_Props
  imports Encryption "HOL-Library.Multiset"
begin

text \<open>
  The challenge of the login, the answer to every challenge, and the hexadecimal form.
\<close>

subsection \<open>Hexadecimal digits\<close>

lemma hex_nibble:
  assumes "n < 16"
  shows "hex_value (HexConverter ! n) = word_of_nat n" "0 \<le> sint (hex_value (HexConverter ! n))"
proof -
  have "list_all (\<lambda>n. hex_value (HexConverter ! n) = word_of_nat n \<and> 0 \<le> sint (hex_value (HexConverter ! n))) [0..<16]" by code_simp
  moreover have "n \<in> set [0..<16]" using assms by simp
  ultimately show "hex_value (HexConverter ! n) = word_of_nat n" "0 \<le> sint (hex_value (HexConverter ! n))"
    unfolding list_all_iff by blast+
qed

lemma byte_bitI: "(\<And>n. n \<in> {0, 1, 2, 3, 4, 5, 6, 7} \<Longrightarrow> bit a n = bit b n) \<Longrightarrow> a = (b :: byte)"
proof (rule bit_word_eqI)
  fix n assume "\<And>n. n \<in> {0, 1, 2, 3, 4, 5, 6, 7} \<Longrightarrow> bit a n = bit b n" "n < LENGTH(8)"
  moreover from this(2) have "n \<in> {0, 1, 2, 3, 4, 5, 6, 7}" by auto
  ultimately show "bit a n = bit b n" by blast
qed

lemma nibbles: "push_bit 4 (drop_bit 4 (c AND 0xF0)) OR (c AND 0x0F) = (c :: byte)"
  by (rule byte_bitI) (auto simp only: insert_iff empty_iff, simp_all add: bit_simps)

lemma unat_byte: "unat (c :: byte) < 256"
  using unsigned_less[of c] by simp

lemma nibble_bound: "unat (drop_bit 4 (c AND 0xF0) :: byte) < 16" "unat (c AND 0x0F :: byte) < 16"
proof -
  show "unat (drop_bit 4 (c AND 0xF0) :: byte) < 16"
    using unat_byte[of "c AND 0xF0"] by (simp only: unat_drop_bit_eq drop_bit_eq_div) (simp add: unat_div_distrib)
  have "c AND 0x0F = c AND mask 4" by (simp add: mask_eq_exp_minus_1)
  then show "unat (c AND 0x0F :: byte) < 16"
    using and_mask_lt_2p[of c 4] by (simp add: unat_eq_nat_uint nat_less_iff del: nat_uint_eq)
qed

lemma hex_digits:
  "sint (hex_value (HexConverter ! unat (drop_bit 4 (c AND 0xF0)))) \<ge> 0"
  "push_bit 4 (hex_value (HexConverter ! unat (drop_bit 4 (c AND 0xF0)))) OR hex_value (HexConverter ! unat (c AND 0x0F)) = c"
proof -
  have w: "word_of_nat (unat x) = (x :: byte)" for x by simp
  show "sint (hex_value (HexConverter ! unat (drop_bit 4 (c AND 0xF0)))) \<ge> 0" by (rule hex_nibble(2)[OF nibble_bound(1)])
  show "push_bit 4 (hex_value (HexConverter ! unat (drop_bit 4 (c AND 0xF0)))) OR hex_value (HexConverter ! unat (c AND 0x0F)) = c"
    unfolding hex_nibble(1)[OF nibble_bound(1)] hex_nibble(1)[OF nibble_bound(2)] w by (rule nibbles)
qed

text \<open>The two digits of each byte.\<close>

definition hex_of :: "byte list \<Rightarrow> byte list" where
  "hex_of s = concat (map (\<lambda>c. [HexConverter ! unat (drop_bit 4 (c AND 0xF0)), HexConverter ! unat (c AND 0x0F)]) s)"

lemma CharToHexadecimal_eq: "n \<le> length s \<Longrightarrow> CharToHexadecimal s n out = Some (out @ hex_of (take n s))"
  unfolding CharToHexadecimal_def by (induction n) (auto simp: each_append hex_of_def str_at_def take_Suc_conv_app_nth)

lemma hex_of_nth:
  "i < length s \<Longrightarrow> hex_of s ! (2 * i) = HexConverter ! unat (drop_bit 4 (s ! i AND 0xF0))
     \<and> hex_of s ! (2 * i + 1) = HexConverter ! unat (s ! i AND 0x0F)"
  by (induction s arbitrary: i) (auto simp: hex_of_def less_Suc_eq_0_disj)

lemma length_hex_of [simp]: "length (hex_of s) = 2 * length s"
  by (induction s) (auto simp: hex_of_def)

text \<open>The hexadecimal form of any string reads back as the string.\<close>

theorem hexadecimal_roundtrip:
  "\<exists>h. CharToHexadecimal s (length s) [] = Some h \<and> length h = 2 * length s
     \<and> HexadecimalToChar h (length h) out = Some (out @ s)"
proof -
  have "each (\<lambda>i out. do {
         l \<leftarrow> str_at (hex_of s) i;
         r \<leftarrow> str_at (hex_of s) (i + 1);
         (if sint (hex_value l) < 0 then None else Some (out @ [push_bit 4 (hex_value l) OR hex_value r])) })
       (map ((*) 2) [0..<k]) out = Some (out @ take k s)" if "k \<le> length s" for k
    using that
  proof (induction k)
    case (Suc k)
    then have "str_at (hex_of s) (2 * k) = Some (HexConverter ! unat (drop_bit 4 (s ! k AND 0xF0)))"
      "str_at (hex_of s) (Suc (2 * k)) = Some (HexConverter ! unat (s ! k AND 0x0F))"
      using hex_of_nth[of k s] by (auto simp: str_at_def)
    with Suc hex_digits(1)[of "s ! k"] hex_digits(2)[of "s ! k"] show ?case
      by (simp add: each_append take_Suc_conv_app_nth not_less)
  qed simp
  from this[of "length s"] show ?thesis by (simp add: CharToHexadecimal_eq HexadecimalToChar_def)
qed

subsection \<open>The challenge\<close>

lemma draw_chars_all:
  assumes "length vec \<le> length is" "is = [m..<m + length is]" "m + length vec \<le> length target"
  shows "\<exists>drawn. draw_chars rnd is vec (r, target) = Some (r + length vec, take m target @ drawn @ drop (m + length vec) target)
    \<and> mset drawn = mset vec"
  using assms
proof (induction vec arbitrary: "is" m r target rule: length_induct)
  case (1 vec)
  show ?case
  proof (cases "vec = []")
    case True
    then have "draw_chars rnd is vec (r, target) = Some (r, target)" by (cases "is") auto
    then show ?thesis using True by (intro exI[of _ "[]"]) simp
  next
    case False
    let ?j = "rnd r mod length vec" let ?vec = "take ?j vec @ drop (Suc ?j) vec"
    have j: "?j < length vec" using False by simp
    have "length is \<noteq> 0" using False 1(2) by auto
    then obtain is' where is': "is = m # is'" "is' = [Suc m..<Suc m + length is']"
      using 1(3) by (cases "is") (auto simp: upt_rec split: if_splits)
    have lv: "length ?vec = length vec - 1" "length ?vec < length vec" using j by auto
    have mv: "mset vec = add_mset (vec ! ?j) (mset ?vec)"
      by (metis id_take_nth_drop[OF j] mset_append mset.simps(2) union_mset_add_mset_right)
    have m: "m < length target" using 1(4) False by (cases vec) auto
    have "length ?vec \<le> length is'" "Suc m + length ?vec \<le> length (target[m := vec ! ?j])" using 1(2,4) is'(1) lv j by auto
    from 1(1)[rule_format, OF lv(2) this(1) is'(2) this(2), of "r + 1"] obtain drawn where
      d: "draw_chars rnd is' ?vec (r + 1, target[m := vec ! ?j]) =
        Some (r + 1 + length ?vec, take (Suc m) (target[m := vec ! ?j]) @ drawn @ drop (Suc m + length ?vec) (target[m := vec ! ?j]))"
      and md: "mset drawn = mset ?vec" by blast
    have e: "r + 1 + length ?vec = r + length vec" "Suc m + length ?vec = m + length vec" using lv j by auto
    have t: "take (Suc m) (target[m := vec ! ?j]) = take m target @ [vec ! ?j]" using m by (simp add: take_Suc_conv_app_nth)
    have dr: "drop (m + length vec) (target[m := vec ! ?j]) = drop (m + length vec) target" using False by simp
    have "draw_chars rnd is vec (r, target) = Some (r + length vec, take m target @ (vec ! ?j # drawn) @ drop (m + length vec) target)"
      using False m d unfolding is'(1) e dr t by (simp add: Let_def)
    moreover have "mset (vec ! ?j # drawn) = mset vec" using md mv by simp
    ultimately show ?thesis by blast
  qed
qed

lemma c_string_padded: "0 < n \<Longrightarrow> c_string (xs @ replicate n 0) = Some (cstr xs)"
proof -
  assume "0 < n"
  then obtain m where "n = Suc m" by (cases n) auto
  then show ?thesis unfolding c_string_def cstr_def by (auto simp: takeWhile_append takeWhile_eq_all_conv intro!: sym[of _ xs])
qed

lemma GenerateRandomString_digits:
  assumes "length src = 16" "0 \<notin> set src"
  shows "\<exists>drawn. GenerateRandomString rnd r src (replicate 17 0) 17 = Some (r + 16, drawn @ [0])
    \<and> c_string (drawn @ [0]) = Some drawn \<and> mset drawn = mset src"
proof -
  have "length src \<le> length [0..<17]" "[0..<17] = [0..<0 + length [0..<17]]" "0 + length src \<le> length (replicate 17 (0::byte))"
    using assms(1) by simp_all
  from draw_chars_all[OF this, of rnd r] obtain drawn where
    d: "draw_chars rnd [0..<17] src (r, replicate 17 0) = Some (r + 16, drawn @ [0])" and m: "mset drawn = mset src"
    using assms(1) by auto
  have "0 \<notin> set drawn" using assms(2) m by (metis set_mset_mset)
  then have "c_string (drawn @ [0]) = Some drawn" using c_string_padded[of 1 drawn] by (simp add: cstr_id)
  with d m show ?thesis using assms(1) by (auto simp: GenerateRandomString_def)
qed

definition time_text :: "int \<Rightarrow> byte list" where
  "time_text now = (if length (show_int now) = 10 then show_int now else bytes ''0000000000'')"

lemma Encrypt_new_eq:
  assumes "length (show_int now) < 16"
  shows "\<exists>a b. Encrypt_new rnd r now = Some (r + 32, \<lparr> en_iv = a @ time_text now, en_timestamp = time_text now, en_mod_key = b,
      en_plainttext = (a @ time_text now) @ b, en_ciphertext = [] \<rparr>)
    \<and> mset a = mset (bytes ''0123456789abcdef'') \<and> mset b = mset (bytes ''0123456789abcdef'')"
proof -
  have src: "length (bytes ''0123456789abcdef'') = 16" "0 \<notin> set (bytes ''0123456789abcdef'')"
    "length (bytes ''abcdef0123456789'') = 16" "0 \<notin> set (bytes ''abcdef0123456789'')"
    "mset (bytes ''abcdef0123456789'') = mset (bytes ''0123456789abcdef'')" by (simp_all add: bytes_def)
  obtain a where a: "GenerateRandomString rnd r (bytes ''0123456789abcdef'') (replicate 17 0) 17 = Some (r + 16, a @ [0])"
    "c_string (a @ [0]) = Some a" "mset a = mset (bytes ''0123456789abcdef'')"
    using GenerateRandomString_digits[OF src(1,2)] by blast
  obtain b where b: "GenerateRandomString rnd (r + 16) (bytes ''abcdef0123456789'') (replicate 17 0) 17 = Some (r + 32, b @ [0])"
    "c_string (b @ [0]) = Some b" "mset b = mset (bytes ''0123456789abcdef'')"
    using GenerateRandomString_digits[OF src(3,4), of rnd "r + 16"] src(5) by auto
  have "memcpy_at (replicate 16 0) 0 (c_str (show_int now)) = Some (show_int now @ replicate (16 - length (show_int now)) 0)"
    using assms by (simp add: mem_simps c_str_def flip: Suc_diff_le replicate_Suc)
  moreover have "c_string (show_int now @ replicate (16 - length (show_int now)) 0) = Some (show_int now)"
    using c_string_padded[of "16 - length (show_int now)" "show_int now"] assms by (simp add: cstr_id show_int_no_nul)
  ultimately have "Encrypt_new rnd r now = Some (r + 32, \<lparr> en_iv = a @ time_text now, en_timestamp = time_text now, en_mod_key = b,
      en_plainttext = (a @ time_text now) @ b, en_ciphertext = [] \<rparr>)"
    using a(1,2) b(1,2) by (simp add: Encrypt_new_def InitPlainttext_def encrypt_empty_def time_text_def Let_def)
  with a(3) b(3) show ?thesis by blast
qed

section \<open>The answers\<close>

text \<open>
  The answer to a challenge of 42 bytes: which of the ten algorithms the bytes select, and what each computes, in
  terms of the ciphers and digests (\<open>answer\<close>).
\<close>

primrec chain :: "byte \<Rightarrow> byte list \<Rightarrow> byte list" where
  "chain x [] = []"
| "chain x (b # bs) = (b XOR x) # chain (b XOR x) bs"

lemma length_chain [simp]: "length (chain x bs) = length bs"
  by (induction bs arbitrary: x) auto

lemma chain_nth: "i < length bs \<Longrightarrow> chain x bs ! i = bs ! i XOR (if i = 0 then x else chain x bs ! (i - 1))"
proof (induction bs arbitrary: x i)
  case (Cons b bs)
  then show ?case by (cases i) (auto simp: nth_Cons')
qed simp

lemma link_xor_eq:
  assumes "key \<noteq> []" "length iv \<le> length part1"
  shows "link_xor iv key part1 = Some (chain (hd key) iv @ drop (length iv) part1)"
proof -
  let ?f = "\<lambda>i p. do {
         q \<leftarrow> EncryptHelper_XOR (drop i (c_str iv)) (if i = 0 then c_str key else drop (i - 1) p) 1 (drop i p);
         Some (take i p @ q) }"
  have "each ?f [0..<c] part1 = Some (take c (chain (hd key) iv) @ drop c part1)" if "c \<le> length iv" for c
    using that
  proof (induction c)
    case (Suc c)
    let ?p = "take c (chain (hd key) iv) @ drop c part1"
    let ?l = "if c = 0 then c_str key else drop (c - 1) ?p"
    have c: "c < length iv" "c < length part1" using Suc.prems assms(2) by auto
    have l: "?l \<noteq> []" "hd ?l = (if c = 0 then hd key else chain (hd key) iv ! (c - 1))"
      using c assms(1) by (auto simp: c_str_def hd_drop_conv_nth nth_append)
    have "take 1 (xor_bytes (drop c (c_str iv)) ?l) = [iv ! c XOR hd ?l]"
      using c l(1) by (cases ?l) (auto simp: xor_bytes_def c_str_def Cons_nth_drop_Suc[symmetric] nth_append simp del: drop_append)
    moreover have "1 \<le> length (drop c (c_str iv))" "1 \<le> length ?l" "1 \<le> length (drop c ?p)"
      using c l(1) by (auto simp: c_str_def Suc_le_eq simp del: drop_append)
    ultimately have "EncryptHelper_XOR (drop c (c_str iv)) ?l 1 (drop c ?p) = Some ([chain (hd key) iv ! c] @ drop 1 (drop c ?p))"
      using chain_nth[of c iv "hd key"] c(1) l(2) by (simp add: XOR_eq)
    then have "?f c ?p = Some (take (Suc c) (chain (hd key) iv) @ drop (Suc c) part1)"
      using c by (simp add: take_Suc_conv_app_nth)
    then show ?case using Suc by (simp add: each_append)
  qed simp
  from this[of "length iv"] show ?thesis by (simp add: link_xor_def)
qed

lemma digest_eq:
  assumes "n \<le> length i" "length (H (take n i)) \<le> length out"
  shows "digest H (Some i) n (Some out) = Some (Some (H (take n i) @ drop (length (H (take n i))) out, length (H (take n i))))"
  using assms by (simp add: digest_def mem_simps)

lemma helper_DES:
  assumes "cipher_ok 8 8 (cr_des K)" "8 \<le> length key" "length i = 16"
  shows "DESEncryptionHelper K (Some key) (Some (c_str i)) 16 (Some (replicate 32 0)) 32 =
    Some (Some (ecb 8 (bc_enc (cr_des K) (take 8 key)) 2 i @ replicate 16 0, 16))"
  using Block_eq(1)[OF assms(1) _ assms(2), of "c_str i" 16 "replicate 32 0" 32] assms(3) blocks_whole[of 8 2 32] ecb_append[of 2 8 i "bc_enc (cr_des K) (take 8 key)" "[0]"]
  by (simp add: DESEncryptionHelper_def checked_def c_str_def)

text \<open>The index that the bytes at the Fibonacci positions select.\<close>

definition challenge_index :: "byte list \<Rightarrow> int" where
  "challenge_index msg = sum_list (map (\<lambda>i. sint (msg ! i)) [1, 2, 3, 5, 8, 13, 21, 34]) smod 10 + 1"

lemma index_loop_42: "length p = 42 \<Longrightarrow> index_loop p 1 1 0 = Some (sum_list (map (\<lambda>i. sint (p ! i)) [1, 2, 3, 5, 8, 13, 21, 34]))"
  by (simp add: index_loop.simps add.assoc del: One_nat_def)

definition answer :: "crypto \<Rightarrow> byte list \<Rightarrow> int \<Rightarrow> byte list option" where
  "answer K msg num =
     (let iv = take 26 msg; key = drop 26 msg; md5 = cr_md5 K;
          des = ecb 8 (bc_enc (cr_des K) (take 7 msg @ [0])) 2 key
      in if num = 1 then Some (cstr (chain (hd key) iv) @ cstr (md5 key))
         else if num = 2 then Some (cstr (cycle_xor (tl msg) (md5 [hd msg])))
         else if num = 3 \<or> num = 4 then Some (cstr des @ cstr (md5 [hd msg]))
         else if num = 5 then Some (cstr (xor_bytes iv key) @ cstr (md5 key))
         else if num = 6 then Some (cstr (xor_bytes (des @ replicate 10 0) iv))
         else if num = 7 then None
         else if num = 8 then Some (cycle_xor iv (bc_enc (cr_aes K) (take 16 iv) key))
         else if num = 9 then Some (md5 (md5 iv @ md5 key))
         else if num = 10 then Some (cr_sha1 K msg)
         else Some [])"

definition en_of :: "byte list \<Rightarrow> encrypt" where
  "en_of msg = \<lparr> en_iv = take 26 msg, en_timestamp = [], en_mod_key = drop 26 msg, en_plainttext = msg, en_ciphertext = [] \<rparr>"

lemma en_of_sel [simp]:
  "en_iv (en_of msg) = take 26 msg" "en_mod_key (en_of msg) = drop 26 msg" "en_plainttext (en_of msg) = msg"
  "en_ciphertext (en_of msg) = []"
  by (simp_all add: en_of_def)

lemma Encrypt_from_42: "length msg = 42 \<Longrightarrow> Encrypt_from msg = Some (en_of msg)"
  by (simp add: Encrypt_from_def InitPlainttext_from_def substr_def encrypt_empty_def en_of_def)

lemma crypto_okD:
  assumes "crypto_ok K"
  shows "cipher_ok 8 8 (cr_des K)" "cipher_ok 16 16 (cr_aes K)" "cipher_ok 8 16 (cr_blowfish K)" "cipher_ok 16 16 (cr_rc6 K)"
    "length (cr_md5 K m) = 16" "length (cr_sha1 K m) = 20"
  using assms by (simp_all add: crypto_ok_def)

lemma md5_into:
  assumes "crypto_ok K" "n \<le> length m" "16 \<le> length out"
  shows "MD5GenerationHelper K (Some m) n (Some out) = Some (Some (cr_md5 K (take n m) @ drop 16 out, 16))"
  using digest_eq[of n m "cr_md5 K" out] assms crypto_okD(5)[OF assms(1)] by (simp add: MD5GenerationHelper_def)

lemma take_c_str [simp]: "n \<le> length s \<Longrightarrow> take n (c_str s) = take n s" "length (c_str s) = Suc (length s)"
  by (simp_all add: c_str_def)

lemma take_1: "xs \<noteq> [] \<Longrightarrow> take (Suc 0) xs = [hd xs]"
  by (cases xs) auto

abbreviation ciphertext_of :: "(int \<times> encrypt) option \<Rightarrow> byte list option" where
  "ciphertext_of r \<equiv> map_option (\<lambda>(ret, en). en_ciphertext en) r"

lemma length_cycle_xor [simp]: "length (cycle_xor a k) = length a"
  by (simp add: cycle_xor_def)

lemma c_string_zeros: "0 < n \<Longrightarrow> c_string (replicate n 0) = Some []"
  using c_string_padded[of n "[]"] by (simp add: cstr_def)

lemma answer_1:
  assumes "crypto_ok K" "length msg = 42"
  shows "ciphertext_of (EncryptAlgorithmOne K (en_of msg)) = answer K msg 1"
  using assms(2) md5_into[OF assms(1), of 16 "c_str (drop 26 msg)" "replicate 64 0"]
    c_string_padded[of 6 "chain (hd (drop 26 msg)) (take 26 msg)"] c_string_padded[of 48 "cr_md5 K (drop 26 msg)"]
  by (simp add: EncryptAlgorithmOne_def answer_def link_xor_eq Let_def)

lemma answer_2:
  assumes "crypto_ok K" "length msg = 42"
  shows "ciphertext_of (EncryptAlgorithmTwo K (en_of msg)) = answer K msg 2"
proof -
  have "XORForCircle (c_str (drop 1 msg)) 41 (cr_md5 K [hd msg] @ replicate 48 0) 16 (replicate 64 0) =
      Some (cycle_xor (tl msg) (cr_md5 K [hd msg]) @ replicate 23 0)"
    using assms(2) crypto_okD(5)[OF assms(1), of "[hd msg]"] by (subst XORForCircle_eq) (simp_all add: drop_Suc)
  moreover have "take (Suc 0) (take 26 msg) = [hd msg]" using assms(2) by (cases msg) auto
  ultimately show ?thesis
    using assms(2) md5_into[OF assms(1), of 1 "c_str (take 26 msg)" "replicate 64 0"]
      c_string_padded[of 23 "cycle_xor (tl msg) (cr_md5 K [hd msg])"]
    by (simp add: EncryptAlgorithmTwo_def answer_def substr_def Let_def)
qed

lemma des_parts:
  assumes "crypto_ok K" "length msg = 42"
  shows "substr msg 0 7 = Some (take 7 msg)"
    "DESEncryptionHelper K (Some (c_str (take 7 msg))) (Some (c_str (drop 26 msg))) 16 (Some (replicate 32 0)) 32 =
      Some (Some (ecb 8 (bc_enc (cr_des K) (take 7 msg @ [0])) 2 (drop 26 msg) @ replicate 16 0, 16))"
    "length (ecb 8 (bc_enc (cr_des K) (take 7 msg @ [0])) 2 (drop 26 msg)) = 16"
proof -
  have k: "length (take 7 msg @ [0]) = 8" using assms(2) by simp
  show "substr msg 0 7 = Some (take 7 msg)" by (simp add: substr_def)
  show "DESEncryptionHelper K (Some (c_str (take 7 msg))) (Some (c_str (drop 26 msg))) 16 (Some (replicate 32 0)) 32 =
      Some (Some (ecb 8 (bc_enc (cr_des K) (take 7 msg @ [0])) 2 (drop 26 msg) @ replicate 16 0, 16))"
    using helper_DES[OF crypto_okD(1)[OF assms(1)], of "c_str (take 7 msg)" "drop 26 msg"] assms(2) k
    by (simp add: c_str_def)
  show "length (ecb 8 (bc_enc (cr_des K) (take 7 msg @ [0])) 2 (drop 26 msg)) = 16"
    by (subst length_ecb) (use cipher_okD(3)[OF crypto_okD(1)[OF assms(1)] k] assms(2) in simp_all)
qed

lemma answer_3:
  assumes "crypto_ok K" "length msg = 42"
  shows "ciphertext_of (EncryptAlgorithmThree K (en_of msg)) = answer K msg 3"
proof -
  have "XORForCircle (c_str (drop 26 msg)) 16 (c_str (drop 1 (take 26 msg))) 25 (replicate 32 0) = Some (replicate 32 0)"
    by (simp add: XORForCircle_def)
  moreover have "take (Suc 0) (take 26 msg) = [hd msg]" using assms(2) by (cases msg) auto
  moreover have "substr (take 26 msg) (Suc 0) 25 = Some (drop 1 (take 26 msg))" using assms(2) by (simp add: substr_def)
  ultimately show ?thesis
    using assms(2) des_parts[OF assms] md5_into[OF assms(1), of 1 "c_str (take 26 msg)" "replicate 64 0"]
      c_string_padded[of 16 "ecb 8 (bc_enc (cr_des K) (take 7 msg @ [0])) 2 (drop 26 msg)"]
      c_string_padded[of 48 "cr_md5 K [hd msg]"] c_string_zeros[of 32]
    by (simp add: EncryptAlgorithmThree_def answer_def Let_def)
qed

lemma xor_bytes_shorter: "length b \<le> n \<Longrightarrow> xor_bytes (take n a) b = xor_bytes a b"
  by (intro nth_equalityI) (auto simp: xor_bytes_def)

lemma answer_5:
  assumes "crypto_ok K" "length msg = 42"
  shows "ciphertext_of (EncryptAlgorithmFive K (en_of msg)) = answer K msg 5"
proof -
  have "EncryptHelper_XOR (c_str (take 26 msg)) (c_str (drop 26 msg)) 16 (replicate 32 0) =
      Some (xor_bytes (take 26 msg) (drop 26 msg) @ replicate 16 0)"
    using assms(2) xor_bytes_shorter[of "drop 26 msg" 16 "take 26 msg"]
    by (simp add: XOR_eq xor_bytes_def take_map take_zip)
  then show ?thesis
    using assms(2) md5_into[OF assms(1), of 16 "c_str (drop 26 msg)" "replicate 64 0"]
      c_string_padded[of 16 "xor_bytes (take 26 msg) (drop 26 msg)"] c_string_padded[of 48 "cr_md5 K (drop 26 msg)"]
    by (simp add: EncryptAlgorithmFive_def answer_def Let_def)
qed

lemma answer_6:
  assumes "crypto_ok K" "length msg = 42"
  shows "ciphertext_of (EncryptAlgorithmSix K (en_of msg)) = answer K msg 6"
proof -
  let ?d = "ecb 8 (bc_enc (cr_des K) (take 7 msg @ [0])) 2 (drop 26 msg)"
  have r: "replicate 16 (0::byte) = replicate 10 0 @ replicate 6 0" by (simp flip: replicate_add)
  have "EncryptHelper_XOR (?d @ replicate 16 0) (c_str (take 26 msg)) 26 (replicate 32 0) =
      Some (xor_bytes (?d @ replicate 10 0) (take 26 msg) @ replicate 6 0)"
    unfolding r using assms(2) des_parts(3)[OF assms] by (simp add: XOR_eq xor_bytes_def take_map take_zip)
  then show ?thesis
    using assms(2) des_parts[OF assms] c_string_padded[of 6 "xor_bytes (?d @ replicate 10 0) (take 26 msg)"]
    by (simp add: EncryptAlgorithmSix_def answer_def Let_def)
qed

lemma answer_7:
  assumes "crypto_ok K" "length msg = 42"
  shows "EncryptAlgorithmSeven K (en_of msg) = None"
  using Block_eq(1)[OF crypto_okD(3)[OF assms(1)], of "c_str (drop 26 msg)" "c_str (take 26 msg)" 26 "replicate 32 0" 32] assms(2)
  by (simp add: EncryptAlgorithmSeven_def BlowFishEncryptionHelper_def checked_def blocks_def Let_def)

lemma answer_8:
  assumes "crypto_ok K" "length msg = 42"
  shows "ciphertext_of (EncryptAlgorithmEight K (en_of msg)) = answer K msg 8"
proof -
  let ?a = "bc_enc (cr_aes K) (take 16 msg) (drop 26 msg)"
  have l: "length ?a = 16" using cipher_okD(3)[OF crypto_okD(2)[OF assms(1)]] assms(2) by simp
  have t: "take 16 (take 26 msg) = take 16 msg" by simp
  have "BlockEncryptionHelper (cr_aes K) (c_str (take 26 msg)) (c_str (drop 26 msg)) 16 (replicate 64 0) 64 = Some (?a @ replicate 48 0, 16)"
    using Block_eq(1)[OF crypto_okD(2)[OF assms(1)], of "c_str (take 26 msg)" "c_str (drop 26 msg)" 16 "replicate 64 0" 64] assms(2)
      blocks_whole[of 16 1 64] by (simp add: ecb_def)
  moreover have "XORForCircle (c_str (take 26 msg)) 26 (?a @ replicate 48 0) 16 (replicate 64 0) =
      Some (cycle_xor (take 26 msg) ?a @ replicate 38 0)"
    using assms(2) l by (subst XORForCircle_eq) simp_all
  ultimately show ?thesis
    using assms(2) l by (simp add: EncryptAlgorithmEight_def AESEncryptionHelper_def checked_def answer_def Let_def mem_simps)
qed

lemma answer_9:
  assumes "crypto_ok K" "length msg = 42"
  shows "ciphertext_of (EncryptAlgorithmNight K (en_of msg)) = answer K msg 9"
  using assms(2) crypto_okD(5)[OF assms(1)] md5_into[OF assms(1), of 26 "c_str (take 26 msg)" "replicate 64 0"]
    md5_into[OF assms(1), of 16 "c_str (drop 26 msg)" "replicate 64 0"]
    md5_into[OF assms(1), of 32 "cr_md5 K (take 26 msg) @ cr_md5 K (drop 26 msg) @ replicate 96 0" "replicate 64 0"]
  by (simp add: EncryptAlgorithmNight_def digest_into_def answer_def Let_def mem_simps)

lemma answer_10:
  assumes "crypto_ok K" "length msg = 42"
  shows "ciphertext_of (EncryptAlgorithmTen K (en_of msg)) = answer K msg 10"
  using assms(2) crypto_okD(6)[OF assms(1)] digest_eq[of 42 "c_str msg" "cr_sha1 K" "replicate 64 0"]
  by (simp add: EncryptAlgorithmTen_def SHA1GenerationHelper_def digest_into_def answer_def Let_def mem_simps)

lemma Encrypt_from_other: "length msg \<noteq> 42 \<Longrightarrow> Encrypt_from msg = Some encrypt_empty"
  by (simp add: Encrypt_from_def InitPlainttext_from_def)

lemma run_algorithm_answer:
  assumes "crypto_ok K" "length msg = 42" "1 \<le> num" "num \<le> 10"
  shows "ciphertext_of (run_algorithm K (nat num) (en_of msg)) = answer K msg num"
proof -
  have "num = 1 \<or> num = 2 \<or> num = 3 \<or> num = 4 \<or> num = 5 \<or> num = 6 \<or> num = 7 \<or> num = 8 \<or> num = 9 \<or> num = 10"
    using assms(3,4) by presburger
  moreover have "answer K msg 4 = answer K msg 3" "answer K msg 7 = None" by (simp_all add: answer_def Let_def)
  ultimately show ?thesis
    using answer_1[OF assms(1,2)] answer_2[OF assms(1,2)] answer_3[OF assms(1,2)] answer_5[OF assms(1,2)]
      answer_6[OF assms(1,2)] answer_7[OF assms(1,2)] answer_8[OF assms(1,2)] answer_9[OF assms(1,2)] answer_10[OF assms(1,2)]
    by (auto simp: run_algorithm_def encrypt_table_def)
qed

text \<open>C30: The answer to a message: one of 42 bytes is answered with the algorithm that its bytes at the Fibonacci
  positions select, the seventh of which reads past the message; any other message, and a selection outside
  one to ten, is answered with the empty text.\<close>

theorem EncryptMsg_answers:
  assumes "crypto_ok K"
  shows "EncryptMsg K msg = (if length msg = 42 then answer K msg (challenge_index msg) else Some [])"
proof (cases "length msg = 42")
  case True
  have i: "GetEncryptAlgorithmIndex (en_of msg) = Some (challenge_index msg)"
    using True index_loop_42[OF True] by (auto simp: GetEncryptAlgorithmIndex_def challenge_index_def)
  show ?thesis
  proof (cases "1 \<le> challenge_index msg \<and> challenge_index msg \<le> 10")
    case sel: True
    then have "EncryptMsg K msg = ciphertext_of (run_algorithm K (nat (challenge_index msg)) (en_of msg))"
      by (cases "run_algorithm K (nat (challenge_index msg)) (en_of msg)")
        (auto simp: EncryptMsg_def EncryptMessage_def Encrypt_from_42[OF True] i)
    then show ?thesis using run_algorithm_answer[OF assms True] sel True by simp
  next
    case False
    then have "EncryptMsg K msg = Some []" by (auto simp: EncryptMsg_def EncryptMessage_def Encrypt_from_42[OF True] i)
    moreover have "answer K msg (challenge_index msg) = Some []" using False by (auto simp: answer_def Let_def)
    ultimately show ?thesis using True by simp
  qed
next
  case False
  then show ?thesis
    by (simp add: EncryptMsg_def EncryptMessage_def Encrypt_from_other GetEncryptAlgorithmIndex_def encrypt_empty_def)
qed

lemma EncryptMsg_answers_witness:
  "EncryptMsg demo_crypto (replicate 42 0x30) =
    (if length (replicate 42 (0x30::byte)) = 42 then answer demo_crypto (replicate 42 0x30) (challenge_index (replicate 42 0x30)) else Some [])
   \<and> challenge_index (replicate 42 0x30) = 5"
  using EncryptMsg_answers[OF demo_crypto_ok, of "replicate 42 0x30"] by (simp add: challenge_index_def)

subsection \<open>Every challenge is answered\<close>

definition plain_ascii :: "byte list \<Rightarrow> bool" where
  "plain_ascii s \<longleftrightarrow> (\<forall>b\<in>set s. 0 \<le> sint b)"

lemma plain_ascii_digits: "mset a = mset (bytes ''0123456789abcdef'') \<Longrightarrow> plain_ascii a"
proof -
  assume "mset a = mset (bytes ''0123456789abcdef'')"
  then have "set a = set (bytes ''0123456789abcdef'')" by (metis set_mset_mset)
  moreover have "\<forall>b\<in>set (bytes ''0123456789abcdef''). 0 \<le> sint b" by (simp add: bytes_def)
  ultimately show ?thesis by (simp add: plain_ascii_def)
qed

lemma decimal_ascii: "b \<in> set (decimal n) \<Longrightarrow> 0 \<le> sint b"
proof -
  assume "b \<in> set (decimal n)"
  then have "b \<le> 0x39" using decimal_digits by blast
  then have "uint b \<le> 57" by (simp add: word_le_def)
  then have "signed_take_bit 7 (uint b) = uint b" by (intro signed_take_bit_int_eq_self) (auto intro: order_trans[of _ 0])
  then show ?thesis by (simp add: sint_uint)
qed

lemma plain_ascii_time: "plain_ascii (time_text now)"
  unfolding plain_ascii_def time_text_def show_int_def by (auto dest: decimal_ascii simp: bytes_def)

lemma length_time_text [simp]: "length (time_text now) = 10"
  by (simp add: time_text_def bytes_def)

lemma challenge_index_ascii:
  assumes "plain_ascii msg" "length msg = 42"
  shows "1 \<le> challenge_index msg \<and> challenge_index msg \<le> 10"
proof -
  have "0 \<le> sint (msg ! i)" if "i < 42" for i using assms that by (auto simp: plain_ascii_def)
  then have "0 \<le> sum_list (map (\<lambda>i. sint (msg ! i)) [1, 2, 3, 5, 8, 13, 21, 34])" by simp
  moreover have "0 \<le> x smod 10 \<and> x smod 10 < 10" if "0 \<le> x" for x :: int using that by (auto simp: smod_int_alt_def sgn_if)
  ultimately show ?thesis unfolding challenge_index_def by fastforce
qed

text \<open>A challenge has 42 bytes: a permutation of the hexadecimal digits, the time in ten digits (or zeros),
  another permutation of the digits, drawn with 32 calls of \<open>rand\<close>.  Read back by \<open>EncryptMsg\<close> it has the same
  parts, and it selects one of the ten algorithms.\<close>

theorem challenge_ok:
  assumes "length (show_int now) < 16"
  shows "\<exists>a b en en'. Encrypt_new rnd r now = Some (r + 32, en) \<and> en_plainttext en = a @ time_text now @ b
    \<and> length (en_plainttext en) = 42
    \<and> mset a = mset (bytes ''0123456789abcdef'') \<and> mset b = mset (bytes ''0123456789abcdef'')
    \<and> Encrypt_from (en_plainttext en) = Some en' \<and> en_iv en' = en_iv en \<and> en_mod_key en' = en_mod_key en
    \<and> (\<exists>num. GetEncryptAlgorithmIndex en' = Some num \<and> 1 \<le> num \<and> num \<le> 10)"
proof -
  obtain a b where n: "Encrypt_new rnd r now = Some (r + 32, \<lparr> en_iv = a @ time_text now, en_timestamp = time_text now, en_mod_key = b,
      en_plainttext = (a @ time_text now) @ b, en_ciphertext = [] \<rparr>)"
    and m: "mset a = mset (bytes ''0123456789abcdef'')" "mset b = mset (bytes ''0123456789abcdef'')"
    using Encrypt_new_eq[OF assms] by blast
  have la: "length a = 16" "length b = 16" using m[THEN arg_cong[of _ _ size]] by (simp_all add: bytes_def)
  let ?p = "a @ time_text now @ b"
  have l: "length ?p = 42" using la by simp
  have "plain_ascii ?p" using plain_ascii_digits[OF m(1)] plain_ascii_digits[OF m(2)] plain_ascii_time[of now]
    by (auto simp: plain_ascii_def)
  from challenge_index_ascii[OF this l] index_loop_42[OF l]
  have "\<exists>num. GetEncryptAlgorithmIndex (en_of ?p) = Some num \<and> 1 \<le> num \<and> num \<le> 10"
    using la by (auto simp: GetEncryptAlgorithmIndex_def challenge_index_def)
  moreover have "en_iv (en_of ?p) = a @ time_text now" "en_mod_key (en_of ?p) = b" using la by simp_all
  ultimately show ?thesis
    using n m l Encrypt_from_42[OF l]
    by (intro exI[of _ a] exI[of _ b] exI[of _ "en_of ?p"] exI) auto
qed

lemma challenge_ok_witness:
  "\<exists>a b en en'. Encrypt_new (\<lambda>n. n) 0 1400000000 = Some (0 + 32, en) \<and> en_plainttext en = a @ time_text 1400000000 @ b
    \<and> length (en_plainttext en) = 42
    \<and> mset a = mset (bytes ''0123456789abcdef'') \<and> mset b = mset (bytes ''0123456789abcdef'')
    \<and> Encrypt_from (en_plainttext en) = Some en' \<and> en_iv en' = en_iv en \<and> en_mod_key en' = en_mod_key en
    \<and> (\<exists>num. GetEncryptAlgorithmIndex en' = Some num \<and> 1 \<le> num \<and> num \<le> 10)"
  by (rule challenge_ok) (simp add: show_int_def decimal.simps)

text \<open>\<open>GenerateMsg\<close> never gets as far as a message: three blocks of sixteen bytes do not fit into the 42 bytes of
  the challenge and its NUL, so RC6 reads past the text.\<close>

theorem GenerateMsg_overruns:
  assumes "crypto_ok K" "16 \<le> length rc6_key" "length (show_int now) < 16"
  shows "GenerateMsg K rc6_key rnd r now = None"
proof -
  obtain a b where n: "Encrypt_new rnd r now = Some (r + 32, \<lparr> en_iv = a @ time_text now, en_timestamp = time_text now, en_mod_key = b,
      en_plainttext = (a @ time_text now) @ b, en_ciphertext = [] \<rparr>)"
    and m: "mset a = mset (bytes ''0123456789abcdef'')" "mset b = mset (bytes ''0123456789abcdef'')"
    using Encrypt_new_eq[OF assms(3)] by blast
  have "length ((a @ time_text now) @ b) = 42" using m[THEN arg_cong[of _ _ size]] by (simp add: bytes_def)
  then have "RC6EncryptionHelper K (Some rc6_key) (Some (c_str ((a @ time_text now) @ b))) 42 (Some (replicate 84 0)) 84 = None"
    using Block_eq(1)[OF crypto_okD(4)[OF assms(1)] _ assms(2), of "c_str ((a @ time_text now) @ b)" 42 "replicate 84 0" 84]
    by (simp add: RC6EncryptionHelper_def checked_def blocks_def Let_def)
  then show ?thesis using n by (simp add: GenerateMsg_def)
qed

lemma GenerateMsg_overruns_witness:
  "GenerateMsg demo_crypto rc6_key_initial (\<lambda>n. n) 0 1400000000 = None"
  by (rule GenerateMsg_overruns[OF demo_crypto_ok]) (simp_all add: rc6_key_initial_def show_int_def decimal.simps)

text \<open>The guard of the other \<open>EncryptMessage\<close> admits one entry too many at the end of the table, and the null entry.\<close>

lemma EncryptMessage_type_table: "t = 0 \<or> t = 11 \<Longrightarrow> EncryptMessage_type K t en = None"
  by (auto simp: EncryptMessage_type_def run_algorithm_def encrypt_table_def)

end
