(* ===== verification/Cb_Format.thy ===== *)
theory Cb_Format
  imports Encryption
begin

text \<open>
  \<open>CbUtility\<close> (\<open>framework/base/CbFormat.h\<close>, \<open>CbFormat.cpp\<close>): the clock of the game loop, bytes as hexadecimal text, and
  \<open>split\<close>.  A position that is \<open>npos\<close> is \<^const>\<open>None\<close>.
\<close>

subsection \<open>The clock of the loop\<close>

record loop_time =
  lt_prev :: int
  lt_cur :: int

definition getLoopTimeSpan :: "loop_time \<Rightarrow> int" where
  "getLoopTimeSpan l = lt_cur l - lt_prev l"

definition setCurLoopTime :: "int \<Rightarrow> loop_time \<Rightarrow> loop_time" where
  "setCurLoopTime t l = l\<lparr> lt_cur := t \<rparr>"

definition setPrevLoopTime :: "int \<Rightarrow> loop_time \<Rightarrow> loop_time" where
  "setPrevLoopTime t l = l\<lparr> lt_prev := t \<rparr>"

definition updateCurLoopTime :: "int \<Rightarrow> loop_time \<Rightarrow> loop_time" where
  "updateCurLoopTime t l = l\<lparr> lt_prev := lt_cur l, lt_cur := t \<rparr>"

subsection \<open>Text\<close>

definition byteArrayToString :: "byte list \<Rightarrow> nat \<Rightarrow> byte list option" where
  "byteArrayToString pData iLen =
     each (\<lambda>i strResult. if i < length pData
         then Some (strResult @ [HexConverter ! unat (drop_bit 4 (pData ! i) AND 0x0F), HexConverter ! unat (pData ! i AND 0x0F), 0x20])
         else None)
       [0..<iLen] []"

text \<open>Both conversions return their argument; what follows the return is never reached.\<close>

definition toUTF8 :: "byte list \<Rightarrow> byte list" where
  "toUTF8 caData = cstr caData"

definition toANSIIFromUTF8 :: "byte list \<Rightarrow> byte list" where
  "toANSIIFromUTF8 caData = cstr caData"

definition find_first_of :: "byte list \<Rightarrow> byte list \<Rightarrow> nat option \<Rightarrow> nat option" where
  "find_first_of s seps start = (case start of None \<Rightarrow> None | Some p \<Rightarrow> find (\<lambda>i. s ! i \<in> set seps) [p..<length s])"

definition find_first_not_of :: "byte list \<Rightarrow> byte list \<Rightarrow> nat option \<Rightarrow> nat option" where
  "find_first_not_of s seps start = (case start of None \<Rightarrow> None | Some p \<Rightarrow> find (\<lambda>i. s ! i \<notin> set seps) [p..<length s])"

lemma find_upt_bounds: "find P [p..<n] = Some i \<Longrightarrow> p \<le> i \<and> i < n \<and> P i"
  by (auto simp: find_Some_iff)

lemma find_first_not_of_bounds: "find_first_not_of s seps (Some p) = Some i \<Longrightarrow> p \<le> i \<and> i < length s"
  unfolding find_first_not_of_def by (auto dest: find_upt_bounds)

text \<open>The loop of \<open>split\<close>: the pieces and the value of \<open>start\<close>.\<close>

function split_loop :: "byte list \<Rightarrow> byte list \<Rightarrow> nat option \<Rightarrow> nat option \<Rightarrow> u32 \<Rightarrow> byte list list \<Rightarrow> byte list list \<times> nat option" where
  "split_loop s seps start ending maxGroup rtn =
     (case (start, ending) of
        (Some a, Some e) \<Rightarrow>
          if e > a then
            let rtn1 = rtn @ [take (e - a) (drop a s)];
                start1 = find_first_not_of s seps (Some e);
                end1 = find_first_of s seps start1
            in if maxGroup - 1 = 0 then (rtn1, start1) else split_loop s seps start1 end1 (maxGroup - 1) rtn1
          else (rtn, start)
      | _ \<Rightarrow> (rtn, start))"
  by pat_completeness auto
termination
  by (relation "measure (\<lambda>(s, seps, start, ending, maxGroup, rtn). case start of None \<Rightarrow> 0 | Some a \<Rightarrow> Suc (length s - a))")
    (auto split: option.split dest!: find_first_not_of_bounds)

declare split_loop.simps [simp del]

definition CbUtility_split :: "byte list \<Rightarrow> byte list option \<Rightarrow> u32 \<Rightarrow> byte list list" where
  "CbUtility_split strData caSplit maxGroup =
     (case caSplit of
        None \<Rightarrow> [strData]
      | Some seps \<Rightarrow>
          let start = find_first_not_of strData seps (Some 0)
          in if start = None then [strData]
             else case split_loop strData seps start (find_first_of strData seps start) maxGroup [] of
                    (rtn, Some a) \<Rightarrow> rtn @ [drop a strData]
                  | (rtn, None) \<Rightarrow> rtn)"

subsection \<open>What \<open>split\<close> returns\<close>

text \<open>The maximal pieces without separators, and the text from the piece of number \<open>k\<close> on.\<close>

function tokens :: "byte list \<Rightarrow> byte list \<Rightarrow> byte list list" where
  "tokens seps s =
     (let s1 = dropWhile (\<lambda>b. b \<in> set seps) s
      in if s1 = [] then [] else takeWhile (\<lambda>b. b \<notin> set seps) s1 # tokens seps (dropWhile (\<lambda>b. b \<notin> set seps) s1))"
  by pat_completeness auto
termination
proof (relation "measure (\<lambda>(seps, s). length s)")
  show "((seps, dropWhile (\<lambda>b. b \<notin> set seps) s1), seps, s) \<in> measure (\<lambda>(seps, s). length s)"
    if s1: "s1 = dropWhile (\<lambda>b. b \<in> set seps) s" "s1 \<noteq> []" for seps s s1 :: "byte list"
  proof -
    have "hd s1 \<notin> set seps" using s1 hd_dropWhile by force
    then have "length (dropWhile (\<lambda>b. b \<notin> set seps) s1) < length s1"
      using s1(2) length_dropWhile_le[of _ "tl s1"] by (cases s1) (auto simp: less_Suc_eq_le)
    also have "\<dots> \<le> length s" unfolding s1(1) by (rule length_dropWhile_le)
    finally show ?thesis by simp
  qed
qed simp

declare tokens.simps [simp del]

primrec from_token :: "nat \<Rightarrow> byte list \<Rightarrow> byte list \<Rightarrow> byte list" where
  "from_token 0 seps s = dropWhile (\<lambda>b. b \<in> set seps) s"
| "from_token (Suc k) seps s = from_token k seps (dropWhile (\<lambda>b. b \<notin> set seps) (dropWhile (\<lambda>b. b \<in> set seps) s))"

lemma find_upt: "p \<le> length s \<Longrightarrow> find (\<lambda>i. P (s ! i)) [p..<length s] =
    (let r = takeWhile (\<lambda>b. \<not> P b) (drop p s) in if p + length r < length s then Some (p + length r) else None)"
proof (induction "length s - p" arbitrary: p)
  case (Suc n)
  then have p: "p < length s" by simp
  then have d: "drop p s = s ! p # drop (Suc p) s" and u: "[p..<length s] = p # [Suc p..<length s]"
    by (simp_all add: Cons_nth_drop_Suc upt_conv_Cons)
  show ?case unfolding u d using Suc.hyps(1)[of "Suc p"] Suc.hyps(2) p by (simp add: Let_def)
qed simp

lemma find_first_not_of_eq:
  "p \<le> length s \<Longrightarrow> find_first_not_of s seps (Some p) =
    (if dropWhile (\<lambda>b. b \<in> set seps) (drop p s) = [] then None else Some (p + length (takeWhile (\<lambda>b. b \<in> set seps) (drop p s))))"
proof -
  assume p: "p \<le> length s"
  let ?t = "takeWhile (\<lambda>b. b \<in> set seps) (drop p s)" and ?d = "dropWhile (\<lambda>b. b \<in> set seps) (drop p s)"
  have "length ?t + length ?d = length s - p" by (metis length_append length_drop takeWhile_dropWhile_id)
  then have "?d = [] \<longleftrightarrow> \<not> p + length ?t < length s" using p by (cases ?d) (simp_all del: dropWhile_eq_Nil_conv)
  then show ?thesis unfolding find_first_not_of_def option.case find_upt[OF p, of "\<lambda>b. b \<notin> set seps"] by (simp add: Let_def del: dropWhile_eq_Nil_conv)
qed

lemma find_first_of_eq:
  "p \<le> length s \<Longrightarrow> find_first_of s seps (Some p) =
    (if dropWhile (\<lambda>b. b \<notin> set seps) (drop p s) = [] then None else Some (p + length (takeWhile (\<lambda>b. b \<notin> set seps) (drop p s))))"
proof -
  assume p: "p \<le> length s"
  let ?t = "takeWhile (\<lambda>b. b \<notin> set seps) (drop p s)" and ?d = "dropWhile (\<lambda>b. b \<notin> set seps) (drop p s)"
  have "length ?t + length ?d = length s - p" by (metis length_append length_drop takeWhile_dropWhile_id)
  then have "?d = [] \<longleftrightarrow> \<not> p + length ?t < length s" using p by (cases ?d) (simp_all del: dropWhile_eq_Nil_conv)
  then show ?thesis unfolding find_first_of_def option.case find_upt[OF p, of "\<lambda>b. b \<in> set seps"] by (simp add: Let_def del: dropWhile_eq_Nil_conv)
qed

lemma dropWhile_drop: "drop (length (takeWhile P xs)) xs = dropWhile P xs"
  by (metis append_eq_conv_conj takeWhile_dropWhile_id)

lemma dropWhile_twice: "dropWhile P (dropWhile P xs) = dropWhile P xs"
  by (induction xs) auto

lemma tokens_empty: "tokens seps s = [] \<longleftrightarrow> dropWhile (\<lambda>b. b \<in> set seps) s = []"
  by (subst tokens.simps) (simp add: Let_def del: dropWhile_eq_Nil_conv)

lemma tokens_skip: "tokens seps (dropWhile (\<lambda>b. b \<in> set seps) s) = tokens seps s"
  by (simp add: tokens.simps[of seps s] tokens.simps[of seps "dropWhile (\<lambda>b. b \<in> set seps) s"] dropWhile_twice del: dropWhile_eq_Nil_conv)

lemma from_token_skip: "from_token k seps (dropWhile (\<lambda>b. b \<in> set seps) s) = from_token k seps s"
  by (cases k) (simp_all add: dropWhile_twice)

lemma tokens_Cons: "x \<notin> set seps \<Longrightarrow>
    tokens seps (x # xs) = takeWhile (\<lambda>b. b \<notin> set seps) (x # xs) # tokens seps (dropWhile (\<lambda>b. b \<notin> set seps) (x # xs))"
  by (subst tokens.simps) (simp add: Let_def)

definition limited :: "nat \<Rightarrow> byte list \<Rightarrow> byte list \<Rightarrow> byte list list" where
  "limited k seps s = (if length (tokens seps s) \<le> k then tokens seps s else take k (tokens seps s) @ [from_token k seps s])"

lemma limited_skip: "limited k seps (dropWhile (\<lambda>b. b \<in> set seps) s) = limited k seps s"
  unfolding limited_def tokens_skip from_token_skip ..

lemma limited_Cons: "x \<notin> set seps \<Longrightarrow>
    limited (Suc k) seps (x # xs) = takeWhile (\<lambda>b. b \<notin> set seps) (x # xs) # limited k seps (dropWhile (\<lambda>b. b \<notin> set seps) (x # xs))"
  unfolding limited_def tokens_Cons by simp

lemma limited_none: "dropWhile (\<lambda>b. b \<in> set seps) s = [] \<Longrightarrow> limited k seps s = []"
  unfolding limited_def by (subst (asm) tokens_empty[symmetric]) simp

lemma limited_0: "limited 0 seps s = (if dropWhile (\<lambda>b. b \<in> set seps) s = [] then [] else [dropWhile (\<lambda>b. b \<in> set seps) s])"
  unfolding limited_def by (simp add: tokens_empty del: dropWhile_eq_Nil_conv)

abbreviation finish_split :: "byte list \<Rightarrow> byte list list \<times> nat option \<Rightarrow> byte list list" where
  "finish_split s r \<equiv> (case r of (rtn, Some a) \<Rightarrow> rtn @ [drop a s] | (rtn, None) \<Rightarrow> rtn)"

lemma split_loop_limited:
  assumes "a < length s" "s ! a \<notin> set seps"
  shows "finish_split s (split_loop s seps (Some a) (find_first_of s seps (Some a)) n rtn) = rtn @ limited (Suc (unat (n - 1))) seps (drop a s)"
  using assms
proof (induction "length s - a" arbitrary: a n rtn rule: less_induct)
  case less
  let ?sep = "\<lambda>b. b \<in> set seps" and ?non = "\<lambda>b. b \<notin> set seps"
  define r where "r = drop a s"
  define u where "u = dropWhile ?non r"
  have rC: "r = s ! a # drop (Suc a) s" using less.prems by (simp add: r_def Cons_nth_drop_Suc)
  define e where "e = a + length (takeWhile ?non r)"
  have e: "a < e" "e \<le> length s" "drop e s = u"
    using less.prems rC length_takeWhile_le[of ?non r] dropWhile_drop[of ?non r]
    by (simp_all add: e_def r_def u_def add.commute)
  have lim: "limited (Suc k) seps r = takeWhile ?non r # limited k seps u" for k
    unfolding u_def rC by (rule limited_Cons[OF less.prems(2)])
  show ?case
  proof (cases "u = []")
    case True
    then have "find_first_of s seps (Some a) = None"
      using less.prems(1) by (simp add: find_first_of_eq u_def r_def del: dropWhile_eq_Nil_conv)
    moreover have "r = takeWhile ?non r" using True takeWhile_dropWhile_id[of ?non r] unfolding u_def by (metis append_Nil2)
    ultimately show ?thesis
      using lim[of "unat (n - 1)"] True by (simp add: split_loop.simps[of s seps "Some a"] limited_none r_def[symmetric] del: takeWhile_eq_all_conv)
  next
    case False
    then have fe: "find_first_of s seps (Some a) = Some e"
      using less.prems(1) by (simp add: find_first_of_eq u_def r_def e_def del: dropWhile_eq_Nil_conv)
    have t: "take (e - a) (drop a s) = takeWhile ?non r" by (simp add: e_def r_def takeWhile_eq_take[symmetric])
    show ?thesis
    proof (cases "dropWhile ?sep u = []")
      case True
      then have "find_first_not_of s seps (Some e) = None" using e by (simp add: find_first_not_of_eq del: dropWhile_eq_Nil_conv)
      then have "split_loop s seps (Some a) (Some e) n rtn = (rtn @ [takeWhile ?non r], None)"
        using e(1) t by (simp add: split_loop.simps[of s seps "Some a"] split_loop.simps[of s seps None] Let_def)
      then show ?thesis unfolding fe r_def[symmetric] by (simp add: lim limited_none[OF True])
    next
      case False
      define b where "b = e + length (takeWhile ?sep u)"
      have fb: "find_first_not_of s seps (Some e) = Some b" using False e by (simp add: find_first_not_of_eq b_def del: dropWhile_eq_Nil_conv)
      have "drop b s = drop (length (takeWhile ?sep u)) (drop e s)" unfolding b_def by (simp add: add.commute)
      then have db: "drop b s = dropWhile ?sep u" unfolding e(3) by (simp only: dropWhile_drop)
      from False db have bl: "b < length s" by (metis drop_all not_less)
      have bn: "s ! b \<notin> set seps" using False db bl hd_dropWhile[of ?sep u] by (metis hd_drop_conv_nth)
      have limb: "limited k seps (drop b s) = limited k seps u" for k unfolding db by (rule limited_skip)
      have step: "split_loop s seps (Some a) (Some e) n rtn =
          (if n - 1 = 0 then (rtn @ [takeWhile ?non r], Some b)
           else split_loop s seps (Some b) (find_first_of s seps (Some b)) (n - 1) (rtn @ [takeWhile ?non r]))"
        using e(1) t fb by (simp add: split_loop.simps[of s seps "Some a"] Let_def)
      show ?thesis
      proof (cases "n - 1 = 0")
        case True
        then show ?thesis using step fe lim[of 0] limb[of 0] False by (simp add: db limited_0 r_def[symmetric] del: dropWhile_eq_Nil_conv)
      next
        case False
        have "unat (n - 1) = Suc (unat (n - 1 - 1))"
          using False unat_gt_0[of "n - 1"] by (subst unat_minus_one[OF False]) simp
        then show ?thesis
          using step fe lim limb less.hyps[OF _ bl bn, of "n - 1" "rtn @ [takeWhile ?non r]"] False e(1) bl by (simp add: b_def r_def[symmetric])
      qed
    qed
  qed
qed

text \<open>\<open>split\<close> returns the maximal pieces without separators, in order; of more pieces than \<open>maxGroup\<close> (where 0 counts as 2 ^ 32) the
  first \<open>maxGroup\<close> and the whole text from the next one on, its separators included; a text without a piece is returned as it is.\<close>

theorem split_exact:
  "CbUtility_split s (Some seps) n =
     (if tokens seps s = [] then [s]
      else if length (tokens seps s) \<le> Suc (unat (n - 1)) then tokens seps s
      else take (Suc (unat (n - 1))) (tokens seps s) @ [from_token (Suc (unat (n - 1))) seps s])"
proof -
  let ?sep = "\<lambda>b. b \<in> set seps"
  define a where "a = length (takeWhile ?sep s)"
  have d: "drop a s = dropWhile ?sep s" unfolding a_def by (rule dropWhile_drop)
  show ?thesis
  proof (cases "dropWhile ?sep s = []")
    case True
    then have "find_first_not_of s seps (Some 0) = None" by (simp add: find_first_not_of_eq del: dropWhile_eq_Nil_conv)
    moreover have "tokens seps s = []" using True by (simp add: tokens_empty del: dropWhile_eq_Nil_conv)
    ultimately show ?thesis by (simp add: CbUtility_split_def)
  next
    case False
    then have f: "find_first_not_of s seps (Some 0) = Some a" by (simp add: find_first_not_of_eq a_def del: dropWhile_eq_Nil_conv)
    from False d have al: "a < length s" by (metis drop_all not_less)
    have an: "s ! a \<notin> set seps" using False d al hd_dropWhile[of ?sep s] by (metis hd_drop_conv_nth)
    have "CbUtility_split s (Some seps) n = limited (Suc (unat (n - 1))) seps s"
      using split_loop_limited[OF al an, of n "[]"] by (simp add: CbUtility_split_def f d limited_skip)
    moreover have "tokens seps s \<noteq> []" using False by (simp add: tokens_empty del: dropWhile_eq_Nil_conv)
    ultimately show ?thesis by (simp add: limited_def)
  qed
qed

end
