(* ===== verification/Item_Sys.thy ===== *)
theory Item_Sys
  imports Attributes_Json
begin

text \<open>
  The card game's items (\<open>DN_application/DN_Account/dn_item.cpp\<close>).  The base class \<open>ItemSys\<close>, its player, the Lua
  service and the tables are not under the sources: they are a parameter \<open>B\<close> of operations on an opaque state.
  \<open>ib_GetExchangeItem\<close> returns what its pointer points to, \<open>ib_write_exchange\<close> writes through it.  What the derived
  class sends is a list of messages.
\<close>

record item_data =
  it_id :: u32
  it_count :: u32

record exchange_data =
  ex_id :: u32
  ex_current :: u32
  ex_last :: u32

record 's item_base =
  ib_no_error :: u32
  ib_items :: "'s \<Rightarrow> (u32 \<times> item_data) list"
  ib_limits :: "'s \<Rightarrow> (u32 \<times> exchange_data) list"
  ib_set_limits :: "(u32 \<times> exchange_data) list \<Rightarrow> 's \<Rightarrow> 's"
  ib_ClearItems :: "'s \<Rightarrow> 's"
  ib_ClearExchangeItems :: "'s \<Rightarrow> 's"
  ib_CanUseItem :: "u32 \<Rightarrow> 's \<Rightarrow> u32 \<times> 's"
  ib_lua_CanUseItem :: "'s \<Rightarrow> (u32 \<Rightarrow> u32 \<Rightarrow> u32 \<times> 's) option"
  ib_lua_AfterUseItem :: "'s \<Rightarrow> (u32 \<Rightarrow> u32 \<Rightarrow> u32 \<times> 's) option"
  ib_UseItem :: "u32 \<Rightarrow> byte list \<Rightarrow> 's \<Rightarrow> u32 \<times> 's"
  ib_CanAddItem :: "u32 \<Rightarrow> u32 \<Rightarrow> 's \<Rightarrow> u32 \<times> 's"
  ib_AddItem :: "u32 \<Rightarrow> u32 \<Rightarrow> byte list \<Rightarrow> 's \<Rightarrow> u32 \<times> 's"
  ib_LoadItem :: "u32 \<Rightarrow> u32 \<Rightarrow> 's \<Rightarrow> 's"
  ib_CanDelItem :: "u32 \<Rightarrow> u32 \<Rightarrow> 's \<Rightarrow> u32 \<times> 's"
  ib_DelItem :: "u32 \<Rightarrow> u32 \<Rightarrow> byte list \<Rightarrow> 's \<Rightarrow> u32 \<times> 's"
  ib_GetItemCount :: "u32 \<Rightarrow> 's \<Rightarrow> u32"
  ib_has_table :: "'s \<Rightarrow> bool"
  ib_GetExchangeItem :: "u32 \<Rightarrow> 's \<Rightarrow> exchange_data option"
  ib_write_exchange :: "u32 \<Rightarrow> exchange_data \<Rightarrow> 's \<Rightarrow> 's"
  ib_SetExchangeItemById :: "u32 \<Rightarrow> u32 \<Rightarrow> 's \<Rightarrow> 's"

datatype item_msg =
    ItemChangeNtf u32 u32 int
  | UseItemRsp u32 u32
  | TableItemChange u32 u32 int

subsection \<open>Operations\<close>

definition dn_CanUseItem :: "'s item_base \<Rightarrow> u32 \<Rightarrow> 's \<Rightarrow> u32 \<times> 's" where
  "dn_CanUseItem B item_id s =
     (case ib_CanUseItem B item_id s of (ret, s1) \<Rightarrow>
        if ret \<noteq> ib_no_error B then (ret, s1)
        else case ib_lua_CanUseItem B s1 of Some f \<Rightarrow> f item_id 1 | None \<Rightarrow> (0, s1))"

definition dn_AfterUseItem :: "'s item_base \<Rightarrow> u32 \<Rightarrow> 's \<Rightarrow> u32 \<times> 's" where
  "dn_AfterUseItem B item_id s = (case ib_lua_AfterUseItem B s of Some f \<Rightarrow> f item_id 1 | None \<Rightarrow> (0, s))"

definition dn_OnUseItem :: "'s item_base \<Rightarrow> u32 \<Rightarrow> byte list \<Rightarrow> 's \<Rightarrow> u32 \<times> 's \<times> item_msg list" where
  "dn_OnUseItem B item_id action s =
     (case dn_CanUseItem B item_id s of (ret, s1) \<Rightarrow>
        if ret \<noteq> ib_no_error B then (ret, s1, [UseItemRsp item_id ret])
        else case ib_UseItem B item_id action s1 of (ret, s2) \<Rightarrow>
          if ret \<noteq> ib_no_error B then (ret, s2, [UseItemRsp item_id ret])
          else (ret, s2, [UseItemRsp item_id ret]))"

text \<open>\<open>int32_t change_count = item_count\<close>\<close>

definition dn_OnAddItem :: "'s item_base \<Rightarrow> u32 \<Rightarrow> u32 \<Rightarrow> byte list \<Rightarrow> 's \<Rightarrow> u32 \<times> 's \<times> item_msg list" where
  "dn_OnAddItem B item_id item_count action s =
     (case ib_CanAddItem B item_id item_count s of (ret, s1) \<Rightarrow>
        if ret \<noteq> ib_no_error B then (ret, s1, [])
        else case ib_AddItem B item_id item_count action s1 of (ret, s2) \<Rightarrow>
          if ret \<noteq> ib_no_error B then (ret, s2, [])
          else let cur_count = ib_GetItemCount B item_id s2; change_count = sint item_count
               in (ib_no_error B, s2, ItemChangeNtf item_id cur_count change_count
                     # (if ib_has_table B s2 then [TableItemChange item_id cur_count change_count] else [])))"

text \<open>\<open>(int32_t)item_count * (-1)\<close> overflows for \<open>0x80000000\<close>.\<close>

definition dn_OnDelItem :: "'s item_base \<Rightarrow> u32 \<Rightarrow> u32 \<Rightarrow> byte list \<Rightarrow> 's \<Rightarrow> (u32 \<times> 's \<times> item_msg list) option" where
  "dn_OnDelItem B item_id item_count action s =
     (case ib_CanDelItem B item_id item_count s of (ret, s1) \<Rightarrow>
        if ret \<noteq> ib_no_error B then Some (ret, s1, [])
        else case ib_DelItem B item_id item_count action s1 of (ret, s2) \<Rightarrow>
          if ret \<noteq> ib_no_error B then Some (ret, s2, [])
          else if sint item_count = - (2 ^ 31) then None
          else Some (ib_no_error B, s2, [ItemChangeNtf item_id (ib_GetItemCount B item_id s2) (- sint item_count)]))"

subsection \<open>JSON\<close>

text \<open>\<open>"%u":%u\<close>\<close>

definition item_text :: "item_data \<Rightarrow> byte list" where
  "item_text d = 0x22 # decimal (unat (it_id d)) @ [0x22, 0x3A] @ decimal (unat (it_count d))"

definition dn_ToJson :: "('j, 'z) json_api_scheme \<Rightarrow> 's item_base \<Rightarrow> 'j \<Rightarrow> 's \<Rightarrow> 'j" where
  "dn_ToJson J B resp s =
     (let json_str = 0x7B # (case map snd (ib_items B s) of
            [] \<Rightarrow> []
          | d # ds \<Rightarrow> item_text d @ concat (map (\<lambda>d. 0x2C # item_text d) ds)) @ [0x7D]
      in js_add J resp (bytes ''items'') (js_str J (cstr json_str)))"

text \<open>A name that \<open>atoi\<close> cannot convert, or a value that is no \<open>uint32_t\<close>, is undefined.\<close>

definition item_member :: "('j, 'z) json_api_scheme \<Rightarrow> 's item_base \<Rightarrow> byte list \<times> 'j \<Rightarrow> 's \<Rightarrow> 's option" where
  "item_member J B kv s = do {
     item_id \<leftarrow> c_atoi (cstr (fst kv));
     item_count \<leftarrow> get_Uint J (snd kv);
     Some (ib_LoadItem B (word_of_int item_id) (word_of_int item_count) s) }"

definition dn_FromJson :: "('j, 'z) json_api_scheme \<Rightarrow> 's item_base \<Rightarrow> 'j \<Rightarrow> 's \<Rightarrow> (bool \<times> 's) option" where
  "dn_FromJson J B resp s =
     (if \<not> js_is_object J resp then Some (False, s)
      else let s1 = ib_ClearItems B s
           in case read_member J resp ''items'' (get_String J) of
                None \<Rightarrow> Some (True, s1)
              | Some jsonStr \<Rightarrow>
                  let json = js_parse J jsonStr
                  in if \<not> js_is_object J json then Some (False, s1)
                     else map_option (Pair True) (each (item_member J B) (js_members J json) s1))"

text \<open>\<open>"%u":%u_%u\<close>, the later ones without a comma between them.\<close>

definition exchange_text :: "u32 \<times> exchange_data \<Rightarrow> byte list" where
  "exchange_text kd = 0x22 # decimal (unat (fst kd)) @ [0x22, 0x3A] @ decimal (unat (ex_current (snd kd)))
     @ 0x5F # decimal (unat (ex_last (snd kd)))"

definition dn_ExchangeDataToJson :: "('j, 'z) json_api_scheme \<Rightarrow> 's item_base \<Rightarrow> 'j \<Rightarrow> 's \<Rightarrow> 'j" where
  "dn_ExchangeDataToJson J B resp s =
     (let json_str = 0x7B # (case ib_limits B s of
            [] \<Rightarrow> []
          | d # ds \<Rightarrow> exchange_text d @ concat (map exchange_text ds)) @ [0x7D]
      in js_add J resp (bytes ''exchange_items'') (js_str J (cstr json_str)))"

text \<open>\<open>sscanf\<close> with \<open>%d\<close>: the value and the rest.  A value out of range is undefined.\<close>

definition scan_d :: "byte list \<Rightarrow> (int \<times> byte list) option option" where
  "scan_d str =
     (let s1 = dropWhile is_space str;
          s2 = (if s1 \<noteq> [] \<and> (hd s1 = 0x2D \<or> hd s1 = 0x2B) then tl s1 else s1);
          ds = takeWhile (\<lambda>b. 0x30 \<le> b \<and> b \<le> 0x39) s2;
          v = foldl (\<lambda>a b. 10 * a + (uint b - 0x30)) 0 ds;
          i = (if s1 \<noteq> [] \<and> hd s1 = 0x2D then - v else v)
      in if ds = [] then Some None
         else if - (2 ^ 31) \<le> i \<and> i < 2 ^ 31 then Some (Some (i, dropWhile (\<lambda>b. 0x30 \<le> b \<and> b \<le> 0x39) s2))
         else None)"

text \<open>\<open>sscanf(buffer, "%d_%d", &current, &last)\<close> on the current values of the two: \<open>Some (n, current, last)\<close>.\<close>

definition scan_d_d :: "byte list \<Rightarrow> u32 \<times> u32 \<Rightarrow> (nat \<times> u32 \<times> u32) option" where
  "scan_d_d str cl = do {
     a \<leftarrow> scan_d str;
     (case a of
        None \<Rightarrow> Some (0, cl)
      | Some (i, rest) \<Rightarrow>
          (case rest of
             c # rest' \<Rightarrow>
               if c = 0x5F then do {
                 b \<leftarrow> scan_d rest';
                 (case b of None \<Rightarrow> Some (1, word_of_int i, snd cl) | Some (j, _) \<Rightarrow> Some (2, word_of_int i, word_of_int j)) }
               else Some (1, word_of_int i, snd cl)
           | [] \<Rightarrow> Some (1, word_of_int i, snd cl))) }"

text \<open>The local \<open>item_exchange\<close> keeps what a failed \<open>sscanf\<close> wrote into it.\<close>

definition exchange_member :: "('j, 'z) json_api_scheme \<Rightarrow> 's item_base \<Rightarrow> byte list \<times> 'j \<Rightarrow> exchange_data \<times> 's \<Rightarrow> (exchange_data \<times> 's) option" where
  "exchange_member J B kv st = (case st of (item_exchange, s) \<Rightarrow> do {
     i \<leftarrow> c_atoi (cstr (fst kv));
     buffer \<leftarrow> get_String J (snd kv);
     (n, current, last) \<leftarrow> scan_d_d buffer (ex_current item_exchange, ex_last item_exchange);
     let e = item_exchange\<lparr> ex_current := current, ex_last := last \<rparr>;
     (if n = 2
      then Some (e\<lparr> ex_id := word_of_int i \<rparr>,
                 ib_set_limits B (omap_put (word_of_int i) (e\<lparr> ex_id := word_of_int i \<rparr>) (ib_limits B s)) s)
      else Some (e, s)) })"

definition dn_ExchangeDataFromJson :: "('j, 'z) json_api_scheme \<Rightarrow> 's item_base \<Rightarrow> exchange_data \<Rightarrow> 'j \<Rightarrow> 's \<Rightarrow> (bool \<times> 's) option" where
  "dn_ExchangeDataFromJson J B fresh resp s =
     (if \<not> js_is_object J resp then Some (False, s)
      else let s1 = ib_ClearExchangeItems B s
           in case read_member J resp ''exchange_items'' (get_String J) of
                None \<Rightarrow> Some (True, s1)
              | Some jsonStr \<Rightarrow>
                  let json = js_parse J jsonStr
                  in if \<not> js_is_object J json then Some (False, s1)
                     else map_option (\<lambda>(e, s2). (True, s2)) (each (exchange_member J B) (js_members J json) (fresh, s1)))"

end
