(* ===== verification/Cb_Time.thy ===== *)
theory Cb_Time
  imports Json "HOL-Library.Signed_Division"
begin

text \<open>
  \<open>CbTime\<close> and \<open>CbSpanTime\<close> (\<open>framework/base/cb_time.h\<close>, \<open>cb_time.cpp\<close>, \<open>cb_span_time.h\<close>).  A \<open>time_t\<close> is an integer.
  The functions of the C library on it are defined for the local zone \<open>zone\<close>, a parameter: the seconds that
  local time is ahead of UTC, the same all year.
\<close>

subsection \<open>The calendar of the C library\<close>

definition leap :: "int \<Rightarrow> bool" where
  "leap y \<longleftrightarrow> 4 dvd y \<and> (\<not> 100 dvd y \<or> 400 dvd y)"

definition month_days :: "int \<Rightarrow> int list" where
  "month_days y = [31, if leap y then 29 else 28, 31, 30, 31, 30, 31, 31, 30, 31, 30, 31]"

definition year_days :: "int \<Rightarrow> int" where
  "year_days y = (if leap y then 366 else 365)"

text \<open>The year that the day \<open>d\<close> after the first of January of \<open>y\<close> lies in, and its day in that year; \<open>n\<close> years
  are enough.  The same for months.\<close>

primrec find_year :: "nat \<Rightarrow> int \<Rightarrow> int \<Rightarrow> int \<times> int" where
  "find_year 0 y d = (y, d)"
| "find_year (Suc n) y d = (if d < year_days y then (y, d) else find_year n (y + 1) (d - year_days y))"

primrec find_month :: "int list \<Rightarrow> int \<Rightarrow> int \<Rightarrow> int \<times> int" where
  "find_month [] m d = (m, d)"
| "find_month (k # ks) m d = (if d < k then (m, d) else find_month ks (m + 1) (d - k))"

record tm =
  tm_sec :: int
  tm_min :: int
  tm_hour :: int
  tm_mday :: int
  tm_mon :: int
  tm_year :: int

text \<open>The calendar repeats after 400 years, which are 146097 days.\<close>

definition gmtime :: "int \<Rightarrow> tm" where
  "gmtime t =
     (let days = t div 86400; secs = t mod 86400;
          (y, yday) = find_year 400 1970 (days mod 146097);
          (mon, d) = find_month (month_days y) 0 yday
      in \<lparr> tm_sec = secs mod 60, tm_min = secs div 60 mod 60, tm_hour = secs div 3600, tm_mday = d + 1, tm_mon = mon,
           tm_year = y + 400 * (days div 146097) - 1900 \<rparr>)"

definition localtime :: "int \<Rightarrow> int \<Rightarrow> tm" where
  "localtime zone t = gmtime (t + zone)"

text \<open>The days from 1970 to the first of January of \<open>y\<close>, in the 400 years before 2370.\<close>

definition days_to_year :: "int \<Rightarrow> int" where
  "days_to_year y = (\<Sum>k\<leftarrow>[1970..y - 1]. year_days k)"

text \<open>\<open>mktime\<close> accepts months out of range and any day, hour, minute and second.\<close>

definition mktime :: "int \<Rightarrow> tm \<Rightarrow> int" where
  "mktime zone a =
     (let y = tm_year a + 1900 + tm_mon a div 12; mon = nat (tm_mon a mod 12);
          y0 = 1970 + (y - 1970) mod 400; cycles = (y - 1970) div 400;
          days = cycles * 146097 + days_to_year y0 + sum_list (take mon (month_days y0)) + tm_mday a - 1
      in days * 86400 + tm_hour a * 3600 + tm_min a * 60 + tm_sec a - zone)"

subsection \<open>\<open>CbSpanTime\<close>\<close>

text \<open>An \<open>int\<close> that overflows is undefined; a \<open>time_t\<close> that becomes an \<open>int32_t\<close> wraps.\<close>

definition c_int :: "int \<Rightarrow> int option" where
  "c_int i = (if - (2 ^ 31) \<le> i \<and> i < 2 ^ 31 then Some i else None)"

definition to_int32 :: "int \<Rightarrow> int" where
  "to_int32 i = sint (word_of_int i :: 32 word)"

definition CbSpanTime_new :: "int \<Rightarrow> int \<Rightarrow> int \<Rightarrow> int \<Rightarrow> int option" where
  "CbSpanTime_new days hours mins secs = do {
     a \<leftarrow> c_int (24 * days); b \<leftarrow> c_int (hours + a);
     c \<leftarrow> c_int (60 * b); d \<leftarrow> c_int (mins + c);
     e \<leftarrow> c_int (60 * d); c_int (secs + e) }"

definition Span_GetDays :: "int \<Rightarrow> int" where
  "Span_GetDays span = to_int32 (span sdiv (24 * 3600))"

definition Span_GetTotalHours :: "int \<Rightarrow> int" where
  "Span_GetTotalHours span = to_int32 (span sdiv 3600)"

definition Span_GetHours :: "int \<Rightarrow> int option" where
  "Span_GetHours span = do { d \<leftarrow> c_int (Span_GetDays span * 24); c_int (Span_GetTotalHours span - d) }"

definition Span_GetTotalMinutes :: "int \<Rightarrow> int" where
  "Span_GetTotalMinutes span = to_int32 (span sdiv 60)"

definition Span_GetMinutes :: "int \<Rightarrow> int option" where
  "Span_GetMinutes span = do { h \<leftarrow> c_int (Span_GetTotalHours span * 60); c_int (Span_GetTotalMinutes span - h) }"

definition Span_GetTotalSeconds :: "int \<Rightarrow> int" where
  "Span_GetTotalSeconds span = to_int32 span"

definition Span_GetSeconds :: "int \<Rightarrow> int option" where
  "Span_GetSeconds span = do { m \<leftarrow> c_int (Span_GetTotalMinutes span * 60); c_int (Span_GetTotalSeconds span - m) }"

subsection \<open>\<open>CbTime\<close>\<close>

text \<open>The asserts of the constructor are compiled away.  \<open>tm_isdst\<close> has no effect in a zone that is the same all
  year.\<close>

definition CbTime_new :: "int \<Rightarrow> int \<Rightarrow> int \<Rightarrow> int \<Rightarrow> int \<Rightarrow> int \<Rightarrow> int \<Rightarrow> int" where
  "CbTime_new zone year month day hour mins sec =
     mktime zone \<lparr> tm_sec = sec, tm_min = mins, tm_hour = hour, tm_mday = day, tm_mon = month - 1, tm_year = year - 1900 \<rparr>"

definition GetYear :: "int \<Rightarrow> int \<Rightarrow> int" where
  "GetYear zone t = tm_year (localtime zone t) + 1900"

definition GetMonth :: "int \<Rightarrow> int \<Rightarrow> int" where
  "GetMonth zone t = tm_mon (localtime zone t) + 1"

definition GetDay :: "int \<Rightarrow> int \<Rightarrow> int" where
  "GetDay zone t = tm_mday (localtime zone t)"

definition GetHour :: "int \<Rightarrow> int \<Rightarrow> int" where
  "GetHour zone t = tm_hour (localtime zone t)"

definition GetMinute :: "int \<Rightarrow> int \<Rightarrow> int" where
  "GetMinute zone t = tm_min (localtime zone t)"

definition GetSecond :: "int \<Rightarrow> int \<Rightarrow> int" where
  "GetSecond zone t = tm_sec (localtime zone t)"

definition CbTime_IsSameYear :: "int \<Rightarrow> int \<Rightarrow> int \<Rightarrow> bool" where
  "CbTime_IsSameYear zone t1 t2 \<longleftrightarrow> GetYear zone t1 = GetYear zone t2"

definition CbTime_IsSameMonth :: "int \<Rightarrow> int \<Rightarrow> int \<Rightarrow> bool" where
  "CbTime_IsSameMonth zone t1 t2 \<longleftrightarrow> (if GetYear zone t1 = GetYear zone t2 then GetMonth zone t1 = GetMonth zone t2 else False)"

definition CbTime_IsSameDay :: "int \<Rightarrow> int \<Rightarrow> int \<Rightarrow> bool" where
  "CbTime_IsSameDay zone t1 t2 \<longleftrightarrow>
     (if GetYear zone t1 = GetYear zone t2
      then if GetMonth zone t1 = GetMonth zone t2 then GetDay zone t1 = GetDay zone t2 else False else False)"

text \<open>\<open>%04d\<close> and \<open>%02d\<close>.\<close>

definition show_pad :: "nat \<Rightarrow> int \<Rightarrow> byte list" where
  "show_pad w i =
     (let ds = decimal (nat \<bar>i\<bar>)
      in if i < 0 then 0x2D # replicate (w - 1 - length ds) 0x30 @ ds else replicate (w - length ds) 0x30 @ ds)"

definition TimeToDefaultString :: "int \<Rightarrow> int \<Rightarrow> byte list option" where
  "TimeToDefaultString zone t =
     (let pt = localtime zone t;
          s = show_pad 4 (tm_year pt + 1900) @ bytes ''-'' @ show_pad 2 (tm_mon pt + 1) @ bytes ''-'' @ show_pad 2 (tm_mday pt)
            @ bytes '' '' @ show_pad 2 (tm_hour pt) @ bytes '':'' @ show_pad 2 (tm_min pt) @ bytes '':'' @ show_pad 2 (tm_sec pt)
      in if length s < 30 then Some s else None)"

text \<open>The text \<open>s\<close> is cut by writing NULs at its separators, which are written back whatever was there.  The result
  is the time and the text afterwards.\<close>

definition piece :: "byte list \<Rightarrow> nat \<Rightarrow> nat \<Rightarrow> int option" where
  "piece s from n = c_atoi (take n (drop from s))"

definition TimeFromDefaultString :: "int \<Rightarrow> byte list \<Rightarrow> (int \<times> byte list) option" where
  "TimeFromDefaultString zone s =
     (if length s = 19 then do {
        year \<leftarrow> piece s 0 4; month \<leftarrow> piece s 5 2; day \<leftarrow> piece s 8 2;
        hour \<leftarrow> piece s 11 2; mins \<leftarrow> piece s 14 2; sec \<leftarrow> piece s 17 2;
        Some (CbTime_new zone year month day hour mins sec,
              s[4 := 0x2D, 7 := 0x2D, 10 := 0x20, 13 := 0x3A, 16 := 0x3A]) }
      else Some (0, s))"

definition FromDefaultString :: "int \<Rightarrow> byte list \<Rightarrow> (bool \<times> int \<times> byte list) option" where
  "FromDefaultString zone s = do { (t, s1) \<leftarrow> TimeFromDefaultString zone s; Some (t > 0, t, s1) }"

subsection \<open>Same day, week, month and year\<close>

text \<open>The zone in hours, from the hours of the clock \<open>now\<close>.\<close>

definition GetTimeZone :: "int \<Rightarrow> int \<Rightarrow> int" where
  "GetTimeZone zone now =
     (let time_zone = tm_hour (localtime zone now) - tm_hour (gmtime now)
      in if time_zone < - 12 then time_zone + 24 else if time_zone > 12 then time_zone - 24 else time_zone)"

definition IsSameDay :: "int \<Rightarrow> int \<Rightarrow> int \<Rightarrow> int \<Rightarrow> bool" where
  "IsSameDay zone now tm1 tm2 \<longleftrightarrow>
     (tm1 + 3600 * GetTimeZone zone now) sdiv 86400 = (tm2 + 3600 * GetTimeZone zone now) sdiv 86400"

definition IsSameWeek :: "int \<Rightarrow> int \<Rightarrow> int \<Rightarrow> int \<Rightarrow> bool" where
  "IsSameWeek zone now tm1 tm2 \<longleftrightarrow>
     (tm1 + 3600 * GetTimeZone zone now) sdiv 604800 = (tm2 + 3600 * GetTimeZone zone now) sdiv 604800"

definition IsSameMonth :: "int \<Rightarrow> int \<Rightarrow> int \<Rightarrow> bool" where
  "IsSameMonth zone tm1 tm2 \<longleftrightarrow>
     tm_year (localtime zone tm1) = tm_year (localtime zone tm2) \<and> tm_mon (localtime zone tm1) = tm_mon (localtime zone tm2)"

definition IsSameYear :: "int \<Rightarrow> int \<Rightarrow> int \<Rightarrow> bool" where
  "IsSameYear zone tm1 tm2 \<longleftrightarrow> tm_year (localtime zone tm1) = tm_year (localtime zone tm2)"

definition IsYesterDay :: "int \<Rightarrow> int \<Rightarrow> int \<Rightarrow> int \<Rightarrow> bool" where
  "IsYesterDay zone now tm_yesterday tm_today \<longleftrightarrow>
     (tm_today + 3600 * GetTimeZone zone now) sdiv 86400 - (tm_yesterday + 3600 * GetTimeZone zone now) sdiv 86400 = 1"

end
