(* ===== verification/Card_Player.thy ===== *)
theory Card_Player
  imports Character_Json Item_Sys Cb_Time
begin

text \<open>
  The card game's player (\<open>DN_application/DN_Account/dn_player.cpp\<close>), as far as it has logic of its own: invite
  codes, gifts for time online, statistics of wins, treasure boxes, the exchange of items and the rewards of
  consecutive logins.  Its base class, the services and the configuration are not under the sources; what the code
  asks them is a parameter, and what it tells them an event.  \<open>zone\<close> and \<open>now\<close> are those of \<open>Cb_Time\<close>.
\<close>

subsection \<open>Invite codes\<close>

text \<open>\<open>substr\<close> throws on the empty text, which nobody catches.\<close>

definition DecodingInviteCode :: "byte list \<Rightarrow> u32 option" where
  "DecodingInviteCode invite_code =
     (if \<exists>v\<in>set invite_code. sint v > 57 \<or> sint v < 48 then Some 0
      else if invite_code = [] then None
      else do {
        a \<leftarrow> c_atoi (butlast invite_code);
        b \<leftarrow> c_atoi [last invite_code];
        (if (word_of_int b :: u32) \<noteq> (word_of_int a :: u32) mod 7 then Some 0 else Some (word_of_int a - 32606170)) })"

datatype invite_result = INVITED_ERROR_COMPLETED | INVITED_ERROR_INVALID | CommonSuccess

text \<open>What the player manager and the player are told: the gold each of the two gets.\<close>

datatype invite_event =
    OwnGold int
  | SyncPlayerInfo
  | PlayerGold u32 int

definition OnFillInviteCode :: "int \<Rightarrow> int \<Rightarrow> u32 \<Rightarrow> byte list \<Rightarrow> character \<Rightarrow> (invite_result \<times> character \<times> invite_event list) option" where
  "OnFillInviteCode reward_of_invited reward_of_invite account_id invite_code c =
     (if pi_invited (ch_invite c) \<noteq> [] then Some (INVITED_ERROR_COMPLETED, c, [])
      else do {
        invite_player_id \<leftarrow> DecodingInviteCode invite_code;
        (if invite_player_id = 0 \<or> invite_player_id = account_id then Some (INVITED_ERROR_INVALID, c, [])
         else Some (CommonSuccess, c\<lparr> ch_invite := (ch_invite c)\<lparr> pi_invited := invite_code \<rparr> \<rparr>,
                    [OwnGold reward_of_invited, SyncPlayerInfo, PlayerGold invite_player_id reward_of_invite])) })"

text \<open>The counter is kept as text; a counter at \<open>INT_MAX\<close> overflows.\<close>

definition AddInvitedBonus :: "int \<Rightarrow> int \<Rightarrow> character \<Rightarrow> (character \<times> invite_event list) option" where
  "AddInvitedBonus max_invite_count reward_of_invite c = do {
     n \<leftarrow> c_atoi (cstr (pi_count (ch_invite c)));
     invite_count \<leftarrow> c_int (n + 1);
     Some (c\<lparr> ch_invite := (ch_invite c)\<lparr> pi_count := show_int invite_count \<rparr> \<rparr>,
           if invite_count \<le> max_invite_count then [OwnGold reward_of_invite] else []) }"

subsection \<open>Gifts for time online\<close>

definition CalculateNextSpreeRemainTime :: "bool \<Rightarrow> int \<Rightarrow> character \<Rightarrow> u32" where
  "CalculateNextSpreeRemainTime can_get_spree current_time c =
     (if can_get_spree then (if ch_spree c > 5 then 5 * 5 * 60 else ch_spree c * ch_spree c * 60)
      else let remain_time = word_of_int (uint (ch_spree_time c + ch_spree_rest c) - current_time)
           in if remain_time > 0 then remain_time else 0)"

text \<open>\<open>times_rate\<close> multiplies with the manager's \<open>spree_rate_\<close>.\<close>

definition CalculateNextSpreeValue :: "(u32 \<Rightarrow> u32) \<Rightarrow> character \<Rightarrow> u32" where
  "CalculateNextSpreeValue times_rate c =
     (if ch_spree c > 5 then times_rate (200 + (5 - 1) * 800) else times_rate (200 + (ch_spree c - 1) * 800))"

definition InitSpreeRelateData :: "int \<Rightarrow> int \<Rightarrow> (u32 \<Rightarrow> u32) \<Rightarrow> int \<Rightarrow> character \<Rightarrow> character" where
  "InitSpreeRelateData zone now times_rate lastLogoutTime c =
     (let c1 = (if ch_spree_time c = 0 \<or> \<not> IsSameDay zone now (uint (ch_spree_time c)) now then c\<lparr> ch_spree_sum := 0 \<rparr> else c);
          c2 = c1\<lparr> ch_spree_time := word_of_int now \<rparr>
      in if ch_spree c2 = 0 \<or> (now - lastLogoutTime) sdiv 60 > 10
         then let c3 = c2\<lparr> ch_spree := 1 \<rparr>; c4 = c3\<lparr> ch_spree_rest := CalculateNextSpreeRemainTime True 0 c3 \<rparr>
              in c4\<lparr> ch_next_spree := CalculateNextSpreeValue times_rate c4 \<rparr>
         else c2)"

subsection \<open>Statistics\<close>

datatype stat_event =
    GameTimes | DailyGameTimes | DailyWin | GameWin
  | ChartWined int | ChartDayMaxWin int
  | Changed

definition OnPlayed :: "bool \<Rightarrow> character \<Rightarrow> character \<times> stat_event list" where
  "OnPlayed has_task_service c =
     (c\<lparr> ch_played := ch_played c + 1 \<rparr>, (if has_task_service then [GameTimes, DailyGameTimes] else []) @ [Changed])"

definition c_int64 :: "int \<Rightarrow> int option" where
  "c_int64 i = (if - (2 ^ 63) \<le> i \<and> i < 2 ^ 63 then Some i else None)"

definition OnWined :: "int \<Rightarrow> int \<Rightarrow> bool \<Rightarrow> bool \<Rightarrow> int \<Rightarrow> character \<Rightarrow> (character \<times> stat_event list) option" where
  "OnWined zone now has_task_service has_chart_service result c = do {
     let max_win_before_change = uint (ch_wined c);
     let day_max_win_before_change = ch_day_maxwin c;
     let c1 = c\<lparr> ch_wined := ch_wined c + 1, ch_maxwin := if result > ch_maxwin c then result else ch_maxwin c \<rparr>;
     c2 \<leftarrow> (if \<not> IsSameDay zone now (ch_t_maxwin c1) now
            then Some (c1\<lparr> ch_t_maxwin := now, ch_day_maxwin := result \<rparr>)
            else map_option (\<lambda>d. c1\<lparr> ch_day_maxwin := d \<rparr>) (c_int64 (ch_day_maxwin c1 + result)));
     let c3 = c2\<lparr> ch_all_maxwin := if ch_day_maxwin c2 > ch_all_maxwin c2 then ch_day_maxwin c2 else ch_all_maxwin c2 \<rparr>;
     Some (c3, (if has_task_service then [DailyWin, GameWin] else [])
       @ (if has_chart_service then [ChartWined max_win_before_change, ChartDayMaxWin day_max_win_before_change] else [])
       @ [Changed]) }"

definition OnLosed :: "int \<Rightarrow> character \<Rightarrow> character option" where
  "OnLosed result c = do {
     lost \<leftarrow> c_int64 (- 1 * result);
     Some (c\<lparr> ch_maxlose := if lost > ch_maxlose c then lost else ch_maxlose c \<rparr>) }"

subsection \<open>Treasure boxes\<close>

datatype treasure_error = ERR_NO_ERROR | ERR_SYSTERM_ERROR | ERR_DIAMOND_DEALER | ERR_DIAMOND_DEALER_LIST | ERR_DIAMOND_BET
  | ERR_DIAMOND_GRAB_DEALER | ERR_DIAMOND_RANDOM_DEALER | ERR_DIAMOND_NOT_ENOUGH

datatype game_state = ePlayerNotInGame | ePlayerZhuang | ePlayerInZhuangList | ePlayerAnteNotJieSuan | OtherState

datatype match_type = eMatchDiamondType | eMatchNormlDiamondType | eMatchRandomDiamondType | OtherMatch

text \<open>\<open>need\<close> is the price of the box, if there is one; each of the last two match types stands for three numbered ones.\<close>

definition CheckCanOpenTreasure :: "64 word option \<Rightarrow> match_type \<Rightarrow> game_state \<Rightarrow> int \<Rightarrow> treasure_error \<times> 64 word" where
  "CheckCanOpenTreasure box match state diamonds =
     (case box of
        None \<Rightarrow> (ERR_SYSTERM_ERROR, 0)
      | Some need \<Rightarrow>
          let flag = (case match of
                eMatchDiamondType \<Rightarrow> (case state of
                    ePlayerZhuang \<Rightarrow> ERR_DIAMOND_DEALER
                  | ePlayerInZhuangList \<Rightarrow> ERR_DIAMOND_DEALER_LIST
                  | ePlayerAnteNotJieSuan \<Rightarrow> ERR_DIAMOND_BET
                  | _ \<Rightarrow> ERR_NO_ERROR)
              | eMatchNormlDiamondType \<Rightarrow> ERR_DIAMOND_GRAB_DEALER
              | eMatchRandomDiamondType \<Rightarrow> ERR_DIAMOND_RANDOM_DEALER
              | OtherMatch \<Rightarrow> ERR_NO_ERROR)
          in (if flag = ERR_NO_ERROR \<and> (word_of_int diamonds :: 64 word) < need then ERR_DIAMOND_NOT_ENOUGH else flag, need))"

subsection \<open>The exchange of items\<close>

record exchange_config =
  ec_need_id :: u32
  ec_need_count :: u32
  ec_get_id :: u32
  ec_get_count :: u32
  ec_daily_max :: u32

datatype exchange_status = kExchangeSuccess | kExchangeIDNotExist | kReachedLimit | kTicketNotEnough | kMaxCarrayOut

definition CanExchangeItem :: "'s item_base \<Rightarrow> exchange_config \<Rightarrow> 's \<Rightarrow> exchange_status \<times> 's" where
  "CanExchangeItem B cfg s =
     (case ib_CanDelItem B (ec_need_id cfg) (ec_need_count cfg) s of (ret, s1) \<Rightarrow>
        if ret \<noteq> ib_no_error B then (kTicketNotEnough, s1)
        else case ib_CanAddItem B (ec_get_id cfg) (ec_get_count cfg) s1 of (ret, s2) \<Rightarrow>
          if ret \<noteq> ib_no_error B then (kMaxCarrayOut, s2) else (kExchangeSuccess, s2))"

text \<open>The exchange itself, which both branches of \<open>OnExchangeItem\<close> repeat; what the operations return is ignored.\<close>

definition do_exchange :: "'s item_base \<Rightarrow> u32 \<Rightarrow> exchange_config \<Rightarrow> 's \<Rightarrow> (exchange_status \<times> 's \<times> item_msg list) option" where
  "do_exchange B exchange_id cfg s =
     (case CanExchangeItem B cfg s of (error_status, s1) \<Rightarrow>
        if error_status = kExchangeSuccess then do {
          (_, s2, m1) \<leftarrow> dn_OnDelItem B (ec_need_id cfg) (ec_need_count cfg) (bytes ''exchange_item'') s1;
          let (_, s3, m2) = dn_OnAddItem B (ec_get_id cfg) (ec_get_count cfg) (bytes ''exchange_item'') s2;
          Some (error_status, ib_SetExchangeItemById B exchange_id 1 s3, m1 @ m2) }
        else Some (error_status, s1, []))"

text \<open>\<open>t0\<close>, \<open>t1\<close>, \<open>t2\<close> are what the clock shows at the three calls of \<open>time\<close>: before and at the comparison, and at
  the reset.  A player who has no record of the exchange is taken to have exchanged at \<open>t0\<close>; if the day changes
  until \<open>t1\<close>, the reset writes through a null pointer.  The status is sent back by \<open>SendItemsExchangeResp\<close>.\<close>

definition OnExchangeItem :: "int \<Rightarrow> (u32 \<Rightarrow> exchange_config option) \<Rightarrow> int \<Rightarrow> int \<Rightarrow> int \<Rightarrow> 's item_base \<Rightarrow> u32 \<Rightarrow> 's
    \<Rightarrow> (exchange_status \<times> 's \<times> item_msg list) option" where
  "OnExchangeItem zone config t0 t1 t2 B exchange_id s =
     (case config exchange_id of
        None \<Rightarrow> Some (kExchangeIDNotExist, s, [])
      | Some cfg \<Rightarrow>
          let player_data = ib_GetExchangeItem B exchange_id s;
              item_has_exchanged = (case player_data of Some d \<Rightarrow> ex_current d | None \<Rightarrow> 0);
              time_last_exchanged = (case player_data of Some d \<Rightarrow> uint (ex_last d) | None \<Rightarrow> t0)
          in if IsSameDay zone t1 time_last_exchanged t1
             then if item_has_exchanged \<ge> ec_daily_max cfg then Some (kReachedLimit, s, [])
                  else do_exchange B exchange_id cfg s
             else case player_data of
                    None \<Rightarrow> None
                  | Some d \<Rightarrow> do_exchange B exchange_id cfg
                      (ib_write_exchange B exchange_id (d\<lparr> ex_current := 0, ex_last := word_of_int t2 \<rparr>) s))"

text \<open>\<open>ResetAllPlayerExchangeInfo\<close> clears a copy of the list.\<close>

definition ResetAllPlayerExchangeInfo :: "'s \<Rightarrow> 's" where
  "ResetAllPlayerExchangeInfo s = s"

subsection \<open>Rewards of consecutive logins\<close>

record reward_config =
  rc_day :: u32
  rc_count :: u32
  rc_show_item :: u32

record login_info =
  li_last_reward :: u32
  li_times :: u32
  li_time :: int

datatype reward_error = GET_REWARD_ERROR_NO_ERROR | GET_REWARD_ERROR_INVALID_REWARD_ID | GET_REWARD_ERROR_GET_FINISH | GET_REWARD_ERROR_CAN_NOT_GET

definition CanGetLoginReward :: "(u32 \<Rightarrow> reward_config option) \<Rightarrow> login_info \<Rightarrow> u32 \<Rightarrow> reward_error" where
  "CanGetLoginReward config p reward_index =
     (case config reward_index of
        None \<Rightarrow> GET_REWARD_ERROR_INVALID_REWARD_ID
      | Some _ \<Rightarrow>
          let next = li_last_reward p + 1
          in case config next of
               None \<Rightarrow> GET_REWARD_ERROR_GET_FINISH
             | Some next_data \<Rightarrow>
                 if rc_day next_data > li_times p then GET_REWARD_ERROR_CAN_NOT_GET
                 else if reward_index \<noteq> next then GET_REWARD_ERROR_CAN_NOT_GET
                 else GET_REWARD_ERROR_NO_ERROR)"

text \<open>\<open>lua\<close> is the script's \<open>GetLoginReward\<close>: the number of the reward and its count; zero means that it was
  given.  The result tells what the player is sent or given.\<close>

datatype reward_event = RewardRsp reward_error u32 | ScriptReward u32 u32 u32

definition OnGetLoginReward :: "(u32 \<Rightarrow> reward_config option) \<Rightarrow> (u32 \<Rightarrow> u32 \<Rightarrow> u32) \<Rightarrow> u32 \<Rightarrow> login_info \<Rightarrow> login_info \<times> reward_event" where
  "OnGetLoginReward config lua reward_index p =
     (let err_code = CanGetLoginReward config p reward_index
      in if err_code \<noteq> GET_REWARD_ERROR_NO_ERROR then (p, RewardRsp err_code reward_index)
         else let count = (case config reward_index of Some d \<Rightarrow> rc_count d | None \<Rightarrow> 0);
                  err = lua reward_index count
              in (if err = 0 then p\<lparr> li_last_reward := reward_index \<rparr> else p, ScriptReward reward_index count err))"

definition GetCurLoginRewardID :: "login_info \<Rightarrow> u32" where
  "GetCurLoginRewardID p = li_last_reward p"

definition IsNeedShowLoginReward :: "(u32 \<Rightarrow> reward_config option) \<Rightarrow> login_info \<Rightarrow> bool" where
  "IsNeedShowLoginReward config p \<longleftrightarrow> CanGetLoginReward config p (GetCurLoginRewardID p + 1) = GET_REWARD_ERROR_NO_ERROR"

text \<open>What \<open>DNPlayer::OnLogin\<close> does after the base class; the second component tells whether the list of rewards is
  sent.\<close>

definition DNPlayer_OnLogin :: "int \<Rightarrow> int \<Rightarrow> (u32 \<Rightarrow> reward_config option) \<Rightarrow> login_info \<Rightarrow> login_info \<times> bool" where
  "DNPlayer_OnLogin zone now config p =
     (let p1 = (if \<not> IsSameDay zone now (li_time p) now then p\<lparr> li_times := li_times p + 1, li_time := now \<rparr> else p)
      in (p1, IsNeedShowLoginReward config p1))"

text \<open>\<open>WriteInfo\<close>: the rewards in the order of the configuration's map.\<close>

definition reward_list :: "(u32 \<times> reward_config) list \<Rightarrow> (u32 \<times> u32) list" where
  "reward_list data_map = map (\<lambda>(_, d). (rc_show_item d, rc_count d)) data_map"

end
