(* ===== verification/Cb_Time_Props.thy ===== *)
theory Cb_Time_Props
  imports Cb_Time
begin

text \<open>
  The calendar and its inverse, the text form of a time, and the comparisons of days, which are right in zones of
  whole hours up to eleven hours from UTC.
\<close>

subsection \<open>The calendar\<close>

lemma year_days_pos: "0 < year_days y"
  by (simp add: year_days_def)

lemma sum_years_Cons: "y \<le> z \<Longrightarrow> (\<Sum>k\<leftarrow>[y..z]. year_days k) = year_days y + (\<Sum>k\<leftarrow>[y + 1..z]. year_days k)"
  by (simp add: upto_rec1)

lemma find_year_spec:
  assumes "0 \<le> d" "d < (\<Sum>k\<leftarrow>[y..y + int n - 1]. year_days k)"
  shows "case find_year n y d of (y', d') \<Rightarrow>
    y \<le> y' \<and> y' < y + int n \<and> d = (\<Sum>k\<leftarrow>[y..y' - 1]. year_days k) + d' \<and> 0 \<le> d' \<and> d' < year_days y'"
  using assms
proof (induction n arbitrary: y d)
  case (Suc n)
  show ?case
  proof (cases "d < year_days y")
    case False
    then have "0 \<le> d - year_days y" "d - year_days y < (\<Sum>k\<leftarrow>[y + 1..(y + 1) + int n - 1]. year_days k)"
      using Suc.prems by (simp_all add: sum_years_Cons)
    from Suc.IH[OF this] False show ?thesis by (auto simp: sum_years_Cons[of y] split: prod.splits)
  qed (use Suc.prems in simp)
qed simp

lemma cycle_days: "(\<Sum>k\<leftarrow>[1970..1970 + int 400 - 1]. year_days k) = 146097"
  by code_simp

lemma find_month_spec:
  assumes "0 \<le> d" "d < sum_list ks"
  shows "case find_month ks m d of (m', d') \<Rightarrow>
    m \<le> m' \<and> m' < m + int (length ks) \<and> d = sum_list (take (nat (m' - m)) ks) + d' \<and> 0 \<le> d' \<and> d' < ks ! nat (m' - m)"
  using assms
proof (induction ks arbitrary: m d)
  case (Cons k ks)
  show ?case
  proof (cases "d < k")
    case False
    then have "0 \<le> d - k" "d - k < sum_list ks" using Cons.prems by simp_all
    obtain m' d' where r: "find_month ks (m + 1) (d - k) = (m', d')" by (cases "find_month ks (m + 1) (d - k)")
    note IH = Cons.IH[OF \<open>0 \<le> d - k\<close> \<open>d - k < sum_list ks\<close>, of "m + 1", unfolded r prod.case]
    then have "nat (m' - m) = Suc (nat (m' - (m + 1)))" by linarith
    with IH False r show ?thesis by simp
  qed (use Cons.prems in simp)
qed simp

lemma length_month_days: "length (month_days y) = 12"
  by (simp add: month_days_def)

lemma sum_month_days: "sum_list (month_days y) = year_days y"
  by (simp add: month_days_def year_days_def)

lemma clock_sum: "s div 3600 * 3600 + s div 60 mod 60 * 60 + s mod 60 = (s :: int)"
proof -
  have "s div 3600 = s div 60 div 60" by (simp flip: zdiv_zmult2_eq)
  moreover have "s div 60 div 60 * 60 + s div 60 mod 60 = s div 60" "s div 60 * 60 + s mod 60 = s" by (rule div_mult_mod_eq)+
  moreover have "d3 = d2 \<Longrightarrow> d2 * 60 + m1 = d1 \<Longrightarrow> d1 * 60 + m2 = s \<Longrightarrow> d3 * 3600 + m1 * 60 + m2 = s" for d1 d2 d3 m1 m2 :: int
    by simp
  ultimately show ?thesis by blast
qed

text \<open>What \<open>gmtime\<close> returns: the fields are in range and determine the time.\<close>

lemma gmtime_spec:
  shows "mktime 0 (gmtime t) = t"
    and "0 \<le> tm_mon (gmtime t) \<and> tm_mon (gmtime t) < 12 \<and> 1 \<le> tm_mday (gmtime t) \<and> tm_mday (gmtime t) \<le> 31"
    and "tm_hour (gmtime t) = t mod 86400 div 3600" "tm_min (gmtime t) = t mod 86400 div 60 mod 60" "tm_sec (gmtime t) = t mod 86400 mod 60"
proof -
  obtain y yday where y: "find_year 400 1970 (t div 86400 mod 146097) = (y, yday)" by (cases "find_year 400 1970 (t div 86400 mod 146097)")
  obtain m d where m: "find_month (month_days y) 0 yday = (m, d)" by (cases "find_month (month_days y) 0 yday")
  have Y: "1970 \<le> y" "y < 2370" "t div 86400 mod 146097 = days_to_year y + yday" "0 \<le> yday" "yday < year_days y"
    using find_year_spec[of "t div 86400 mod 146097" 1970 400] y by (simp_all add: cycle_days[simplified] days_to_year_def)
  have M: "0 \<le> m" "m < 12" "yday = sum_list (take (nat m) (month_days y)) + d" "0 \<le> d" "d < month_days y ! nat m"
    using find_month_spec[of yday "month_days y" 0] Y m by (simp_all add: sum_month_days length_month_days)
  have g: "gmtime t = \<lparr> tm_sec = t mod 86400 mod 60, tm_min = t mod 86400 div 60 mod 60, tm_hour = t mod 86400 div 3600,
      tm_mday = d + 1, tm_mon = m, tm_year = y + 400 * (t div 86400 div 146097) - 1900 \<rparr>"
    by (simp add: gmtime_def Let_def y m)
  have "\<forall>k\<in>set (month_days y). k \<le> 31" by (simp add: month_days_def)
  then have "month_days y ! nat m \<le> 31" using M(1,2) by (simp add: length_month_days)
  then show "0 \<le> tm_mon (gmtime t) \<and> tm_mon (gmtime t) < 12 \<and> 1 \<le> tm_mday (gmtime t) \<and> tm_mday (gmtime t) \<le> 31"
    using M by (simp add: g)
  show "tm_hour (gmtime t) = t mod 86400 div 3600" "tm_min (gmtime t) = t mod 86400 div 60 mod 60" "tm_sec (gmtime t) = t mod 86400 mod 60"
    by (simp_all add: g)
  have c: "(y + 400 * q - 1970) mod 400 = y - 1970" "(y + 400 * q - 1970) div 400 = q" for q
  proof -
    have e: "y + 400 * q - 1970 = (y - 1970) + q * 400" by simp
    show "(y + 400 * q - 1970) mod 400 = y - 1970" unfolding e mod_mult_self1 using Y(1,2) by simp
    show "(y + 400 * q - 1970) div 400 = q" unfolding e using Y(1,2) by (subst div_mult_self1) simp_all
  qed
  have "mktime 0 (gmtime t) = ((t div 86400 div 146097) * 146097 + t div 86400 mod 146097) * 86400
      + t mod 86400 div 3600 * 3600 + t mod 86400 div 60 mod 60 * 60 + t mod 86400 mod 60"
    using M(1-3) Y(3) by (simp add: mktime_def g Let_def c algebra_simps)
  also have "\<dots> = t div 86400 * 86400 + (t mod 86400 div 3600 * 3600 + t mod 86400 div 60 mod 60 * 60 + t mod 86400 mod 60)"
    by simp
  also have "t mod 86400 div 3600 * 3600 + t mod 86400 div 60 mod 60 * 60 + t mod 86400 mod 60 = t mod 86400" by (rule clock_sum)
  finally show "mktime 0 (gmtime t) = t" by simp
qed

lemma mktime_zone: "mktime zone a = mktime 0 a - zone"
  by (simp add: mktime_def Let_def)

lemma mktime_localtime: "mktime zone (localtime zone t) = t"
  unfolding mktime_zone[of zone] localtime_def gmtime_spec(1) by simp

subsection \<open>The text form\<close>

lemma foldl_zeros: "foldl (\<lambda>a b. 10 * a + (uint b - 0x30)) 0 (replicate n (0x30 :: byte)) = 0"
  by (induction n) auto

lemma scan_all_digits:
  assumes "s \<noteq> []" "\<And>b. b \<in> set s \<Longrightarrow> 0x30 \<le> b \<and> b \<le> 0x39 \<and> \<not> is_space b"
  shows "scan_dec (length s) s = Some (foldl (\<lambda>a b. 10 * a + (uint b - 0x30)) 0 s)"
proof -
  have "dropWhile is_space s = s" using assms by (cases s) auto
  moreover have "hd s \<noteq> 0x2D \<and> hd s \<noteq> 0x2B" using assms(2)[OF hd_in_set[OF assms(1)]] by auto
  ultimately show ?thesis using assms by (simp add: scan_dec_def Let_def takeWhile_eq_all_conv[THEN iffD2])
qed

lemma show_pad_atoi:
  assumes "0 \<le> i" "i < 10 ^ w" "0 < w" "i < 2 ^ 31"
  shows "length (show_pad w i) = w \<and> c_atoi (show_pad w i) = Some i"
proof -
  let ?ds = "decimal (nat i)" let ?s = "replicate (w - length ?ds) (0x30 :: byte) @ ?ds"
  have s: "show_pad w i = ?s" using assms(1) by (simp add: show_pad_def Let_def)
  have "nat i < 10 ^ w" using assms(1,2) by (simp add: nat_less_iff)
  then have l: "length ?s = w" using decimal_length[OF assms(3)] by simp
  have dig: "0x30 \<le> b \<and> b \<le> 0x39 \<and> \<not> is_space b" if "b \<in> set ?s" for b
    using that decimal_digits by (auto simp: is_space_def)
  have ne: "?s \<noteq> []" by simp
  have "scan_dec (length ?s) ?s = Some i"
    using scan_all_digits[of ?s, OF ne dig] decimal_value[of "nat i"] assms(1) by (simp add: foldl_zeros)
  then show ?thesis using s l assms(1,4) by (simp add: c_atoi_def)
qed

lemma localtime_range:
  "0 \<le> tm_mon (localtime zone t)" "tm_mon (localtime zone t) < 12" "1 \<le> tm_mday (localtime zone t)" "tm_mday (localtime zone t) \<le> 31"
  "0 \<le> tm_hour (localtime zone t)" "tm_hour (localtime zone t) < 24" "0 \<le> tm_min (localtime zone t)" "tm_min (localtime zone t) < 60"
  "0 \<le> tm_sec (localtime zone t)" "tm_sec (localtime zone t) < 60"
  using gmtime_spec(2)[of "t + zone"] pos_mod_bound[of 86400 "t + zone"] zdiv_mono1[of "(t + zone) mod 86400" 86399 3600]
  by (auto simp: localtime_def gmtime_spec(3-5) pos_imp_zdiv_nonneg_iff)

text \<open>A time in the years 0 to 9999 comes back from its text, whatever the zone, and the text is left as it was.\<close>

theorem time_text_roundtrip:
  assumes "0 \<le> GetYear zone t" "GetYear zone t \<le> 9999"
  shows "\<exists>s. TimeToDefaultString zone t = Some s \<and> length s = 19 \<and> TimeFromDefaultString zone s = Some (t, s)"
proof -
  let ?l = "localtime zone t"
  note rg = localtime_range[of zone t]
  have y: "length (show_pad 4 (tm_year ?l + 1900)) = 4 \<and> c_atoi (show_pad 4 (tm_year ?l + 1900)) = Some (tm_year ?l + 1900)"
    using assms by (intro show_pad_atoi) (auto simp: GetYear_def)
  have p: "length (show_pad 2 i) = 2 \<and> c_atoi (show_pad 2 i) = Some i" if "0 \<le> i" "i < 100" for i
    using that by (intro show_pad_atoi) auto
  have q: "length (show_pad 2 (tm_mon ?l + 1)) = 2" "c_atoi (show_pad 2 (tm_mon ?l + 1)) = Some (tm_mon ?l + 1)"
    "length (show_pad 2 (tm_mday ?l)) = 2" "c_atoi (show_pad 2 (tm_mday ?l)) = Some (tm_mday ?l)"
    "length (show_pad 2 (tm_hour ?l)) = 2" "c_atoi (show_pad 2 (tm_hour ?l)) = Some (tm_hour ?l)"
    "length (show_pad 2 (tm_min ?l)) = 2" "c_atoi (show_pad 2 (tm_min ?l)) = Some (tm_min ?l)"
    "length (show_pad 2 (tm_sec ?l)) = 2" "c_atoi (show_pad 2 (tm_sec ?l)) = Some (tm_sec ?l)"
    using p rg by auto
  let ?s = "show_pad 4 (tm_year ?l + 1900) @ bytes ''-'' @ show_pad 2 (tm_mon ?l + 1) @ bytes ''-'' @ show_pad 2 (tm_mday ?l)
            @ bytes '' '' @ show_pad 2 (tm_hour ?l) @ bytes '':'' @ show_pad 2 (tm_min ?l) @ bytes '':'' @ show_pad 2 (tm_sec ?l)"
  have l: "length ?s = 19" using y q by (simp add: bytes_def)
  have "TimeToDefaultString zone t = Some ?s" using l by (simp add: TimeToDefaultString_def Let_def)
  moreover have "piece ?s 0 4 = Some (tm_year ?l + 1900)" "piece ?s 5 2 = Some (tm_mon ?l + 1)" "piece ?s 8 2 = Some (tm_mday ?l)"
    "piece ?s 11 2 = Some (tm_hour ?l)" "piece ?s 14 2 = Some (tm_min ?l)" "piece ?s 17 2 = Some (tm_sec ?l)"
    using y q by (simp_all add: piece_def bytes_def)
  moreover have "?s[4 := 0x2D, 7 := 0x2D, 10 := 0x20, 13 := 0x3A, 16 := 0x3A] = ?s"
    using y q by (simp add: list_update_append bytes_def)
  moreover have "CbTime_new zone (tm_year ?l + 1900) (tm_mon ?l + 1) (tm_mday ?l) (tm_hour ?l) (tm_min ?l) (tm_sec ?l) = t"
    using mktime_localtime[of zone t] by (cases ?l) (simp add: CbTime_new_def)
  ultimately show ?thesis using l by (intro exI[of _ ?s]) (simp add: TimeFromDefaultString_def)
qed

lemma time_text_roundtrip_witness:
  "\<exists>s. TimeToDefaultString 28800 1191892325 = Some s \<and> length s = 19 \<and> TimeFromDefaultString 28800 s = Some (1191892325, s)"
  by (rule time_text_roundtrip) code_simp+

subsection \<open>The same day\<close>

definition day_of :: "tm \<Rightarrow> int" where
  "day_of a = mktime 0 (a\<lparr> tm_hour := 0, tm_min := 0, tm_sec := 0 \<rparr>) div 86400"

lemma day_of_gmtime: "day_of (gmtime t) = t div 86400"
proof -
  let ?a = "gmtime t"
  have "mktime 0 ?a = mktime 0 (?a\<lparr> tm_hour := 0, tm_min := 0, tm_sec := 0 \<rparr>) + (tm_hour ?a * 3600 + tm_min ?a * 60 + tm_sec ?a)"
    by (simp add: mktime_def Let_def)
  also have "tm_hour ?a * 3600 + tm_min ?a * 60 + tm_sec ?a = t mod 86400" unfolding gmtime_spec(3-5) using clock_sum[of "t mod 86400"] by simp
  finally have "mktime 0 (?a\<lparr> tm_hour := 0, tm_min := 0, tm_sec := 0 \<rparr>) = t div 86400 * 86400"
    unfolding gmtime_spec(1) by (simp add: minus_mod_eq_div_mult[symmetric])
  then show ?thesis by (simp add: day_of_def)
qed

lemma day_of_cong: "tm_year a = tm_year b \<Longrightarrow> tm_mon a = tm_mon b \<Longrightarrow> tm_mday a = tm_mday b \<Longrightarrow> day_of a = day_of b"
  by (simp add: day_of_def mktime_def Let_def)

lemma date_cong: "t div 86400 = t' div 86400 \<Longrightarrow>
    tm_year (gmtime t) = tm_year (gmtime t') \<and> tm_mon (gmtime t) = tm_mon (gmtime t') \<and> tm_mday (gmtime t) = tm_mday (gmtime t')"
  by (simp add: gmtime_def Let_def split: prod.splits)

lemma CbTime_IsSameDay_eq: "CbTime_IsSameDay zone t1 t2 \<longleftrightarrow> (t1 + zone) div 86400 = (t2 + zone) div 86400"
  unfolding CbTime_IsSameDay_def GetYear_def GetMonth_def GetDay_def localtime_def
  using date_cong[of "t1 + zone" "t2 + zone"] day_of_cong[of "gmtime (t1 + zone)" "gmtime (t2 + zone)"]
  by (auto simp: day_of_gmtime)

lemma hour_mod: "t mod 86400 div 3600 = t div 3600 mod (24 :: int)"
  using zmod_zmult2_eq[of 24 t 3600] by simp

lemma GetTimeZone_whole:
  assumes "zone = 3600 * off"
  shows "\<exists>k. GetTimeZone zone now = off + 24 * k" "- 12 \<le> GetTimeZone zone now" "GetTimeZone zone now \<le> 12"
proof -
  let ?h = "now div 3600"
  have "(now + zone) div 3600 = ?h + off" unfolding assms by simp
  then have d: "tm_hour (localtime zone now) - tm_hour (gmtime now) = (?h + off) mod 24 - ?h mod 24"
    by (simp add: localtime_def gmtime_spec(3) hour_mod)
  define x where "x = (?h + off) mod 24 - ?h mod 24"
  have "x = off + 24 * (?h div 24 - (?h + off) div 24)"
    unfolding x_def using mult_div_mod_eq[of 24 ?h] mult_div_mod_eq[of 24 "?h + off"] by (simp add: algebra_simps)
  then obtain k where k: "x = off + 24 * k" by blast
  have b: "- 24 < x" "x < 24" unfolding x_def using pos_mod_bound[of 24 ?h] pos_mod_bound[of 24 "?h + off"]
    pos_mod_sign[of 24 ?h] pos_mod_sign[of 24 "?h + off"] by auto
  have z: "GetTimeZone zone now = (if x < - 12 then x + 24 else if x > 12 then x - 24 else x)"
    by (simp add: GetTimeZone_def d flip: x_def)
  show "\<exists>k. GetTimeZone zone now = off + 24 * k"
    unfolding z by (rule exI[of _ "if x < - 12 then k + 1 else if x > 12 then k - 1 else k"]) (use k in auto)
  show "- 12 \<le> GetTimeZone zone now" "GetTimeZone zone now \<le> 12" unfolding z using b by auto
qed

lemma sdiv_shift:
  assumes "(86400 :: int) \<le> t" "z = off + 24 * k" "- 12 \<le> z"
  shows "(t + 3600 * z) sdiv 86400 = (t + 3600 * off) div 86400 + k"
proof -
  have "(t + 3600 * z) sdiv 86400 = (t + 3600 * z) div 86400"
    using assms(1,3) by (simp add: signed_divide_int_def sgn_if)
  also have "(t + 3600 * z) div 86400 = ((t + 3600 * off) + k * 86400) div 86400" using assms(2) by simp
  also have "\<dots> = (t + 3600 * off) div 86400 + k" by (subst div_mult_self1) simp_all
  finally show ?thesis .
qed

text \<open>In a zone of whole hours, for times after the first day of 1970, the arithmetic \<open>IsSameDay\<close> agrees with
  the comparison of the calendar's dates, and \<open>IsYesterDay\<close> with the day before, whatever the clock says
  and though \<open>GetTimeZone\<close> may be a day off.\<close>

theorem same_day_correct:
  assumes "zone = 3600 * off" "86400 \<le> t1" "86400 \<le> t2"
  shows "(IsSameDay zone now t1 t2 \<longleftrightarrow> CbTime_IsSameDay zone t1 t2)
    \<and> (IsYesterDay zone now t1 t2 \<longleftrightarrow> day_of (localtime zone t2) = day_of (localtime zone t1) + 1)"
proof -
  obtain k where k: "GetTimeZone zone now = off + 24 * k" using GetTimeZone_whole(1)[OF assms(1)] by blast
  note lo = GetTimeZone_whole(2)[OF assms(1), of now]
  show ?thesis
    using sdiv_shift[OF assms(2) k lo] sdiv_shift[OF assms(3) k lo]
    by (auto simp: IsSameDay_def IsYesterDay_def CbTime_IsSameDay_eq localtime_def day_of_gmtime assms(1))
qed

lemma same_day_correct_witness:
  "(IsSameDay 28800 1404900000 1404921599 1404921600 \<longleftrightarrow> CbTime_IsSameDay 28800 1404921599 1404921600)
    \<and> (IsYesterDay 28800 1404900000 1404921599 1404921600 \<longleftrightarrow> day_of (localtime 28800 1404921600) = day_of (localtime 28800 1404921599) + 1)"
  by (rule same_day_correct[of _ 8]) simp_all

text \<open>Where it fails: in a zone of five and a half hours, and, at UTC, weeks that begin on Thursdays
  (10 July 2014).\<close>

lemma same_day_half_hour:
  "IsSameDay 19800 1404930600 1404844199 1404845999 \<and> \<not> CbTime_IsSameDay 19800 1404844199 1404845999"
  by code_simp

lemma week_begins_thursday:
  "\<not> IsSameWeek 0 now 1404950399 1404950400 \<and> gmtime 1404950400 = \<lparr> tm_sec = 0, tm_min = 0, tm_hour = 0, tm_mday = 10, tm_mon = 6, tm_year = 114 \<rparr>"
proof -
  have "GetTimeZone 0 now = 0" by (simp add: GetTimeZone_def localtime_def)
  then show ?thesis by (simp add: IsSameWeek_def) code_simp
qed

subsection \<open>Spans\<close>

lemma to_int32_id: "- (2 ^ 31) \<le> i \<Longrightarrow> i < 2 ^ 31 \<Longrightarrow> to_int32 i = i"
  unfolding to_int32_def by (simp add: signed_of_int signed_take_bit_int_eq_self)

text \<open>A span of at most 2147483647 seconds is split into days, hours, minutes and seconds that make it up
  again.\<close>

theorem span_roundtrip:
  assumes "0 \<le> span" "span < 2 ^ 31"
  shows "\<exists>h m s. Span_GetHours span = Some h \<and> Span_GetMinutes span = Some m \<and> Span_GetSeconds span = Some s
    \<and> 0 \<le> h \<and> h < 24 \<and> 0 \<le> m \<and> m < 60 \<and> 0 \<le> s \<and> s < 60 \<and> CbSpanTime_new (Span_GetDays span) h m s = Some span"
proof -
  have sd: "span sdiv k = span div k" if "0 < k" for k using that assms(1) by (simp add: signed_divide_int_def sgn_if)
  define q1 q2 q3 m0 m1 m2 where q: "q1 = span div 60" "q2 = q1 div 60" "q3 = q2 div 24"
    and m: "m0 = span mod 60" "m1 = q1 mod 60" "m2 = q2 mod 24"
  have d: "span div 60 = q1" "span div 3600 = q2" "span div 86400 = q3"
    unfolding q by (simp_all flip: zdiv_zmult2_eq)
  have e: "60 * q1 + m0 = span" "60 * q2 + m1 = q1" "24 * q3 + m2 = q2" unfolding q m by simp_all
  have n: "0 \<le> q1" "0 \<le> q2" "0 \<le> q3" using assms(1) by (simp_all add: q pos_imp_zdiv_nonneg_iff)
  have r: "0 \<le> m0" "m0 < 60" "0 \<le> m1" "m1 < 60" "0 \<le> m2" "m2 < 24" unfolding m by simp_all
  have lim: "(2::int) ^ 31 = 2147483648" by simp
  have D: "Span_GetDays span = q3" "Span_GetTotalHours span = q2" "Span_GetTotalMinutes span = q1" "Span_GetTotalSeconds span = span"
    unfolding Span_GetDays_def Span_GetTotalHours_def Span_GetTotalMinutes_def Span_GetTotalSeconds_def
    using e n r assms lim by (simp_all add: sd d to_int32_id)
  have c: "c_int i = Some i" if "- 2147483648 \<le> i" "i < 2147483648" for i using that by (simp add: c_int_def)
  have "Span_GetHours span = Some m2" "Span_GetMinutes span = Some m1" "Span_GetSeconds span = Some m0"
    unfolding Span_GetHours_def Span_GetMinutes_def Span_GetSeconds_def D using e n r assms lim by (simp_all add: c)
  moreover have "CbSpanTime_new q3 m2 m1 m0 = Some span"
    unfolding CbSpanTime_new_def using e n r assms lim by (simp add: c)
  ultimately show ?thesis using r unfolding D by blast
qed

lemma span_roundtrip_witness:
  "\<exists>h m s. Span_GetHours 93784 = Some h \<and> Span_GetMinutes 93784 = Some m \<and> Span_GetSeconds 93784 = Some s
    \<and> 0 \<le> h \<and> h < 24 \<and> 0 \<le> m \<and> m < 60 \<and> 0 \<le> s \<and> s < 60 \<and> CbSpanTime_new (Span_GetDays 93784) h m s = Some 93784"
  by (rule span_roundtrip) simp_all

end
