(* ===== verification/Card_Player_Props.thy ===== *)
theory Card_Player_Props
  imports Card_Player Attributes_Json_Props Cb_Time_Props
begin

text \<open>
  What an exchange of items moves, the order of the login rewards, invite codes, and the JSON form of the items.  What
  is assumed of the base class of the items is \<open>item_laws\<close>; \<open>demo_items\<close> satisfies it.
\<close>

subsection \<open>The base class of the items\<close>

definition item_laws :: "'s item_base \<Rightarrow> bool" where
  "item_laws B \<longleftrightarrow>
     (\<forall>i n s. snd (ib_CanDelItem B i n s) = s \<and> snd (ib_CanAddItem B i n s) = s) \<and>
     (\<forall>i n s. fst (ib_CanDelItem B i n s) = ib_no_error B \<longleftrightarrow> n \<le> ib_GetItemCount B i s) \<and>
     (\<forall>i n a s. n \<le> ib_GetItemCount B i s \<longrightarrow> fst (ib_DelItem B i n a s) = ib_no_error B
        \<and> (\<forall>k. ib_GetItemCount B k (snd (ib_DelItem B i n a s)) = (if k = i then ib_GetItemCount B i s - n else ib_GetItemCount B k s))) \<and>
     (\<forall>i n a s. fst (ib_CanAddItem B i n s) = ib_no_error B \<longrightarrow> fst (ib_AddItem B i n a s) = ib_no_error B
        \<and> (\<forall>k. ib_GetItemCount B k (snd (ib_AddItem B i n a s)) = (if k = i then ib_GetItemCount B i s + n else ib_GetItemCount B k s))) \<and>
     (\<forall>i n a s j m. m \<le> ib_GetItemCount B j s \<longrightarrow> fst (ib_CanAddItem B i n s) = ib_no_error B
        \<longrightarrow> fst (ib_CanAddItem B i n (snd (ib_DelItem B j m a s))) = ib_no_error B) \<and>
     (\<forall>e d s k. ib_GetItemCount B k (ib_write_exchange B e d s) = ib_GetItemCount B k s) \<and>
     (\<forall>e d s i n. fst (ib_CanAddItem B i n (ib_write_exchange B e d s)) = fst (ib_CanAddItem B i n s)) \<and>
     (\<forall>e n s k. ib_GetItemCount B k (ib_SetExchangeItemById B e n s) = ib_GetItemCount B k s)"

lemma item_lawsD:
  assumes "item_laws B"
  shows "ib_CanDelItem B i n s = (fst (ib_CanDelItem B i n s), s)" "ib_CanAddItem B i n s = (fst (ib_CanAddItem B i n s), s)"
    "fst (ib_CanDelItem B i n s) = ib_no_error B \<longleftrightarrow> n \<le> ib_GetItemCount B i s"
    "n \<le> ib_GetItemCount B i s \<Longrightarrow> ib_DelItem B i n a s = (ib_no_error B, snd (ib_DelItem B i n a s))"
    "n \<le> ib_GetItemCount B i s \<Longrightarrow> ib_GetItemCount B k (snd (ib_DelItem B i n a s)) = (if k = i then ib_GetItemCount B i s - n else ib_GetItemCount B k s)"
    "fst (ib_CanAddItem B i n s) = ib_no_error B \<Longrightarrow> ib_AddItem B i n a s = (ib_no_error B, snd (ib_AddItem B i n a s))"
    "fst (ib_CanAddItem B i n s) = ib_no_error B \<Longrightarrow> ib_GetItemCount B k (snd (ib_AddItem B i n a s)) = (if k = i then ib_GetItemCount B i s + n else ib_GetItemCount B k s)"
    "m \<le> ib_GetItemCount B j s \<Longrightarrow> fst (ib_CanAddItem B i n s) = ib_no_error B \<Longrightarrow> fst (ib_CanAddItem B i n (snd (ib_DelItem B j m a s))) = ib_no_error B"
    "ib_GetItemCount B k (ib_write_exchange B e d s) = ib_GetItemCount B k s"
    "fst (ib_CanAddItem B i n (ib_write_exchange B e d s)) = fst (ib_CanAddItem B i n s)"
    "ib_GetItemCount B k (ib_SetExchangeItemById B e n s) = ib_GetItemCount B k s"
  using assms unfolding item_laws_def by (metis prod.collapse)+

lemma item_answers:
  assumes "item_laws B"
  shows "n \<le> ib_GetItemCount B i s \<Longrightarrow> ib_CanDelItem B i n s = (ib_no_error B, s)"
    "\<not> n \<le> ib_GetItemCount B i s \<Longrightarrow> \<exists>r. r \<noteq> ib_no_error B \<and> ib_CanDelItem B i n s = (r, s)"
    "fst (ib_CanAddItem B i n s) = ib_no_error B \<Longrightarrow> ib_CanAddItem B i n s = (ib_no_error B, s)"
    "fst (ib_CanAddItem B i n s) \<noteq> ib_no_error B \<Longrightarrow> \<exists>r. r \<noteq> ib_no_error B \<and> ib_CanAddItem B i n s = (r, s)"
  using item_lawsD(1-3)[OF assms] by metis+

subsection \<open>The exchange\<close>

text \<open>The counts after an exchange.\<close>

definition exchanged :: "'s item_base \<Rightarrow> exchange_config \<Rightarrow> 's \<Rightarrow> u32 \<Rightarrow> u32" where
  "exchanged B cfg s k = ib_GetItemCount B k s - (if k = ec_need_id cfg then ec_need_count cfg else 0)
     + (if k = ec_get_id cfg then ec_get_count cfg else 0)"

definition exchange_possible :: "'s item_base \<Rightarrow> exchange_config \<Rightarrow> 's \<Rightarrow> bool" where
  "exchange_possible B cfg s \<longleftrightarrow> ec_need_count cfg \<le> ib_GetItemCount B (ec_need_id cfg) s
     \<and> fst (ib_CanAddItem B (ec_get_id cfg) (ec_get_count cfg) s) = ib_no_error B"

lemma do_exchange_spec:
  assumes laws: "item_laws B" and small: "sint (ec_need_count cfg) \<noteq> - (2 ^ 31)"
  shows "\<exists>st s' ms. do_exchange B e cfg s = Some (st, s', ms) \<and> (st = kExchangeSuccess \<longleftrightarrow> exchange_possible B cfg s)
    \<and> (\<forall>k. ib_GetItemCount B k s' = (if exchange_possible B cfg s then exchanged B cfg s k else ib_GetItemCount B k s))
    \<and> (st \<noteq> kExchangeSuccess \<longrightarrow> ms = [] \<and> s' = s)"
proof -
  note L = item_lawsD[OF laws] and A = item_answers[OF laws]
  let ?n = "ec_need_count cfg" and ?i = "ec_need_id cfg" and ?m = "ec_get_count cfg" and ?j = "ec_get_id cfg"
  show ?thesis
  proof (cases "exchange_possible B cfg s")
    case True
    then have n: "?n \<le> ib_GetItemCount B ?i s" and a: "fst (ib_CanAddItem B ?j ?m s) = ib_no_error B"
      unfolding exchange_possible_def by auto
    have c: "CanExchangeItem B cfg s = (kExchangeSuccess, s)"
      by (simp add: CanExchangeItem_def A(1)[OF n] A(3)[OF a])
    let ?a = "bytes ''exchange_item''" let ?s1 = "snd (ib_DelItem B ?i ?n ?a s)" let ?s2 = "snd (ib_AddItem B ?j ?m ?a ?s1)"
    have d: "dn_OnDelItem B ?i ?n ?a s = Some (ib_no_error B, ?s1, [ItemChangeNtf ?i (ib_GetItemCount B ?i ?s1) (- sint ?n)])"
      using small L(4)[OF n, of ?a] by (cases "ib_DelItem B ?i ?n ?a s") (simp add: dn_OnDelItem_def A(1)[OF n])
    have a1: "fst (ib_CanAddItem B ?j ?m ?s1) = ib_no_error B" by (rule L(8)[OF n a])
    have "\<exists>ms. dn_OnAddItem B ?j ?m ?a ?s1 = (ib_no_error B, ?s2, ms)"
      using L(6)[OF a1, of ?a] by (cases "ib_AddItem B ?j ?m ?a ?s1") (simp add: dn_OnAddItem_def A(3)[OF a1] Let_def)
    then obtain ms where ad: "dn_OnAddItem B ?j ?m ?a ?s1 = (ib_no_error B, ?s2, ms)" by blast
    have "ib_GetItemCount B k (ib_SetExchangeItemById B e 1 ?s2) = exchanged B cfg s k" for k
      unfolding L(11) L(7)[OF a1] L(5)[OF n] exchanged_def by simp
    then show ?thesis using True c d ad by (simp add: do_exchange_def)
  next
    case False
    have "\<exists>st. CanExchangeItem B cfg s = (st, s) \<and> st \<noteq> kExchangeSuccess"
    proof (cases "?n \<le> ib_GetItemCount B ?i s")
      case True
      then have "fst (ib_CanAddItem B ?j ?m s) \<noteq> ib_no_error B" using False by (simp add: exchange_possible_def)
      then show ?thesis using A(4) by (fastforce simp: CanExchangeItem_def A(1)[OF True])
    next
      case no: False
      then show ?thesis using A(2) by (fastforce simp: CanExchangeItem_def)
    qed
    then show ?thesis using False by (auto simp: do_exchange_def)
  qed
qed


subsection \<open>A store of items\<close>

type_synonym store = "(u32 \<times> item_data) list \<times> (u32 \<times> exchange_data) list"

definition store_count :: "u32 \<Rightarrow> store \<Rightarrow> u32" where
  "store_count i s = (case omap_find (fst s) i of Some d \<Rightarrow> it_count d | None \<Rightarrow> 0)"

definition store_set :: "u32 \<Rightarrow> u32 \<Rightarrow> store \<Rightarrow> store" where
  "store_set i n s = (omap_put i \<lparr> it_id = i, it_count = n \<rparr> (fst s), snd s)"

definition demo_items :: "store item_base" where
  "demo_items = \<lparr> ib_no_error = 0, ib_items = fst, ib_limits = snd, ib_set_limits = (\<lambda>l s. (fst s, l)),
     ib_ClearItems = (\<lambda>s. ([], snd s)), ib_ClearExchangeItems = (\<lambda>s. (fst s, [])),
     ib_CanUseItem = (\<lambda>i s. (0, s)), ib_lua_CanUseItem = (\<lambda>s. None), ib_lua_AfterUseItem = (\<lambda>s. None), ib_UseItem = (\<lambda>i a s. (0, s)),
     ib_CanAddItem = (\<lambda>i n s. (if store_count i s \<le> 1000 then 0 else 1, s)),
     ib_AddItem = (\<lambda>i n a s. (0, store_set i (store_count i s + n) s)),
     ib_LoadItem = (\<lambda>i n s. store_set i (store_count i s + n) s),
     ib_CanDelItem = (\<lambda>i n s. (if n \<le> store_count i s then 0 else 2, s)),
     ib_DelItem = (\<lambda>i n a s. (0, store_set i (store_count i s - n) s)),
     ib_GetItemCount = store_count, ib_has_table = (\<lambda>s. True),
     ib_GetExchangeItem = (\<lambda>e s. omap_find (snd s) e), ib_write_exchange = (\<lambda>e d s. (fst s, omap_put e d (snd s))),
     ib_SetExchangeItemById = (\<lambda>e n s. case omap_find (snd s) e of
         Some d \<Rightarrow> (fst s, omap_put e (d\<lparr> ex_current := ex_current d + n \<rparr>) (snd s))
       | None \<Rightarrow> (fst s, omap_put e \<lparr> ex_id = e, ex_current = n, ex_last = 0 \<rparr> (snd s))) \<rparr>"

lemma store_count_set: "store_count k (store_set i n s) = (if k = i then n else store_count k s)"
  by (simp add: store_count_def store_set_def)

lemma store_count_fst [simp]: "store_count k (fst s, l) = store_count k s"
  by (simp add: store_count_def)

lemma store_count_pair: "store_count k (a, l) = (case omap_find a k of Some d \<Rightarrow> it_count d | None \<Rightarrow> 0)"
  by (simp add: store_count_def)

lemma word_sub_small: "m \<le> a \<Longrightarrow> a \<le> c \<Longrightarrow> a - m \<le> (c :: u32)"
  using word_le_sub1 order_trans by (metis word_sub_le)

lemma demo_items_ok: "item_laws demo_items"
  unfolding item_laws_def by (auto simp: demo_items_def store_count_set word_sub_small store_count_pair split: option.splits)


subsection \<open>The order of the login rewards\<close>

primrec request_rewards :: "(u32 \<Rightarrow> reward_config option) \<Rightarrow> (u32 \<Rightarrow> u32 \<Rightarrow> u32) \<Rightarrow> u32 list \<Rightarrow> login_info \<Rightarrow> login_info \<times> u32 list" where
  "request_rewards config lua [] p = (p, [])"
| "request_rewards config lua (i # is) p =
     (case OnGetLoginReward config lua i p of (p1, ev) \<Rightarrow>
        case request_rewards config lua is p1 of (p2, given) \<Rightarrow>
          (p2, (case ev of ScriptReward j _ err \<Rightarrow> if err = 0 then [j] else [] | _ \<Rightarrow> []) @ given))"

lemma CanGetLoginReward_iff:
  "CanGetLoginReward config p i = GET_REWARD_ERROR_NO_ERROR \<longleftrightarrow>
     i = li_last_reward p + 1 \<and> (\<exists>d. config i = Some d \<and> rc_day d \<le> li_times p)"
  by (auto simp: CanGetLoginReward_def Let_def not_less split: option.splits)

text \<open>Whatever a player asks for, in any order and any number of times, the rewards given are the next ones in
  turn, each once, and none before its day.\<close>

theorem login_rewards_in_order:
  "case request_rewards config lua is p of (p', given) \<Rightarrow>
     given = map (\<lambda>k. li_last_reward p + of_nat k) [1..<Suc (length given)]
     \<and> li_last_reward p' = li_last_reward p + of_nat (length given)
     \<and> (\<forall>i\<in>set given. \<exists>d. config i = Some d \<and> rc_day d \<le> li_times p)"
proof (induction "is" arbitrary: p)
  case (Cons i "is")
  obtain p1 ev where o: "OnGetLoginReward config lua i p = (p1, ev)" by (cases "OnGetLoginReward config lua i p")
  obtain p2 given where r: "request_rewards config lua is p1 = (p2, given)" by (cases "request_rewards config lua is p1")
  note IH = Cons.IH[of p1, unfolded r prod.case]
  show ?case
  proof (cases "\<exists>n. ev = ScriptReward i n 0")
    case True
    then have i: "i = li_last_reward p + 1" "\<exists>d. config i = Some d \<and> rc_day d \<le> li_times p" and p1: "p1 = p\<lparr> li_last_reward := i \<rparr>"
      using o CanGetLoginReward_iff[of config p i] by (auto simp: OnGetLoginReward_def Let_def split: if_splits)
    have "[1..<Suc (Suc n)] = 1 # map Suc [1..<Suc n]" for n by (simp add: upt_conv_Cons map_Suc_upt del: upt_Suc)
    then show ?thesis using True o r IH i p1 by (auto simp: comp_def add.assoc simp del: upt_Suc)
  next
    case False
    then have "p1 = p" "(case ev of ScriptReward j _ err \<Rightarrow> if err = 0 then [j] else [] | _ \<Rightarrow> []) = []"
      using o by (auto simp: OnGetLoginReward_def Let_def split: if_splits)
    then show ?thesis using o r IH by simp
  qed
qed simp

lemma login_rewards_in_order_witness:
  "case request_rewards [1 \<mapsto> \<lparr> rc_day = 1, rc_count = 100, rc_show_item = 5 \<rparr>, 2 \<mapsto> \<lparr> rc_day = 2, rc_count = 200, rc_show_item = 5 \<rparr>,
       3 \<mapsto> \<lparr> rc_day = 3, rc_count = 300, rc_show_item = 6 \<rparr>] (\<lambda>_ _. 0) [2, 1, 1, 2, 3] \<lparr> li_last_reward = 0, li_times = 2, li_time = 0 \<rparr> of
     (p', given) \<Rightarrow> given = [1, 2] \<and> li_last_reward p' = of_nat (length given)"
  using login_rewards_in_order[of "\<lparr> li_last_reward = 0, li_times = 2, li_time = 0 \<rparr>"
      "[1 \<mapsto> \<lparr> rc_day = 1, rc_count = 100, rc_show_item = 5 \<rparr>, 2 \<mapsto> \<lparr> rc_day = 2, rc_count = 200, rc_show_item = 5 \<rparr>,
        3 \<mapsto> \<lparr> rc_day = 3, rc_count = 300, rc_show_item = 6 \<rparr>]" "\<lambda>_ _. 0" "[2, 1, 1, 2, 3]"]
  by (simp add: OnGetLoginReward_def CanGetLoginReward_def)

subsection \<open>Invite codes\<close>

text \<open>The code of a player: the number shifted, with its remainder by seven behind it.\<close>

definition invite_code_of :: "u32 \<Rightarrow> byte list" where
  "invite_code_of account_id = (let a = unat account_id + 32606170 in decimal a @ decimal (a mod 7))"

text \<open>The code of a player decodes to the player, as long as the shifted number fits an \<open>int\<close>.\<close>

theorem invite_code_roundtrip:
  assumes "unat account_id + 32606170 < 2 ^ 31"
  shows "DecodingInviteCode (invite_code_of account_id) = Some account_id"
proof -
  let ?a = "unat account_id + 32606170"
  have m: "?a mod 7 < 10" by (rule less_trans[of _ 7]) simp_all
  then have d: "decimal (?a mod 7) = [word_of_nat (0x30 + ?a mod 7)]" by (subst decimal.simps) simp
  have c: "invite_code_of account_id = decimal ?a @ [word_of_nat (0x30 + ?a mod 7)]" by (simp add: invite_code_of_def Let_def d)
  have dig: "\<not> (sint v > 57 \<or> sint v < 48)" if "0x30 \<le> v \<and> v \<le> 0x39" for v :: byte
  proof -
    have "48 \<le> uint v" "uint v \<le> 57" using that by (simp_all add: word_le_def)
    then have "sint v = uint v" by (simp add: sint_uint) (intro signed_take_bit_int_eq_self, auto)
    then show ?thesis using \<open>48 \<le> uint v\<close> \<open>uint v \<le> 57\<close> by simp
  qed
  have nodigit: "\<not> (\<exists>v\<in>set (invite_code_of account_id). sint v > 57 \<or> sint v < 48)"
    using dig decimal_digits[of _ ?a] digit_byte(1)[OF m] unfolding c by fastforce
  have s: "decimal n = show_int (int n)" for n by (simp add: show_int_def)
  have "int ?a < 2 ^ 31" using assms by (metis of_nat_less_iff of_nat_numeral of_nat_power)
  then have "c_atoi (decimal ?a) = Some (int ?a)" unfolding s by (intro atoi_show_int) (rule order_trans[of _ 0], simp, rule of_nat_0_le_iff, assumption)
  moreover have "c_atoi [word_of_nat (0x30 + ?a mod 7)] = Some (int (?a mod 7))"
    unfolding d[symmetric] s by (intro atoi_show_int) (rule order_trans[of _ 0], simp, rule of_nat_0_le_iff, use m in simp)
  moreover have "(word_of_int (int (?a mod 7)) :: u32) = word_of_int (int ?a) mod 7"
  proof -
    have "unat (word_of_nat ?a :: u32) = ?a" unfolding unsigned_of_nat using assms by (simp add: take_bit_nat_eq_self)
    then have "unat ((word_of_nat ?a :: u32) mod 7) = ?a mod 7" by (simp only: unat_mod_distrib) simp
    moreover have "?a mod 7 < 2 ^ 32" by (rule less_trans[of _ 7]) simp_all
    then have "unat (word_of_nat (?a mod 7) :: u32) = ?a mod 7"
      unfolding unsigned_of_nat by (simp add: take_bit_nat_eq_self)
    ultimately have "(word_of_nat ?a :: u32) mod 7 = word_of_nat (?a mod 7)" by (simp only: word_unat_eq_iff)
    then show ?thesis by (simp only: of_int_of_nat_eq)
  qed
  ultimately show ?thesis
    using nodigit unfolding DecodingInviteCode_def c by simp
qed

lemma invite_code_roundtrip_witness: "DecodingInviteCode (invite_code_of 10001) = Some 10001"
  by (rule invite_code_roundtrip) simp

text \<open>The empty code throws, and the code \<open>0\<close> is a valid one.\<close>

lemma short_invite_codes: "DecodingInviteCode [] = None" "DecodingInviteCode [0x30] = Some (- 32606170)"
  by (simp_all add: DecodingInviteCode_def c_atoi_def scan_dec_def is_space_def Let_def)

subsection \<open>Gifts and wins\<close>

text \<open>Once the gift is due the time that remains is not zero: it wraps to almost 2 to the 32.\<close>

lemma remaining_time_wraps:
  assumes "current_time = uint (ch_spree_time c + ch_spree_rest c) + late" "0 < late" "late < 2 ^ 32"
  shows "uint (CalculateNextSpreeRemainTime False current_time c) = 2 ^ 32 - late"
proof -
  have m: "(- late) mod 2 ^ 32 = 2 ^ 32 - late" using assms(2,3) by (simp add: zmod_zminus1_eq_if)
  have "uint (word_of_int (- late) :: u32) = 2 ^ 32 - late" unfolding unsigned_of_int take_bit_eq_mod using m by simp
  moreover from this have "(word_of_int late :: u32) \<noteq> 0" using assms(3) by auto
  moreover have "uint (ch_spree_time c + ch_spree_rest c) - current_time = - late" using assms(1) by simp
  ultimately show ?thesis using assms(3)
    by (simp add: CalculateNextSpreeRemainTime_def word_gt_0 Let_def)
qed

text \<open>The day's result is the sum of the results since the first of the day.\<close>

lemma OnWined_records:
  assumes "OnWined zone now task chart result c = Some (c', evs)"
  shows "ch_wined c' = ch_wined c + 1" "result \<le> ch_maxwin c'" "ch_maxwin c \<le> ch_maxwin c'" "ch_day_maxwin c' \<le> ch_all_maxwin c'"
    "ch_all_maxwin c \<le> ch_all_maxwin c'"
    "ch_day_maxwin c' = (if IsSameDay zone now (ch_t_maxwin c) now then ch_day_maxwin c + result else result)"
  using assms by (auto simp: OnWined_def c_int64_def Let_def split: if_splits)

subsection \<open>JSON\<close>

definition items_ok :: "(u32 \<times> item_data) list \<Rightarrow> bool" where
  "items_ok m \<longleftrightarrow> omap_ok m \<and> (\<forall>kd\<in>set m. it_id (snd kd) = fst kd \<and> uint (fst kd) < 2 ^ 31)"

definition load_laws :: "'s item_base \<Rightarrow> bool" where
  "load_laws B \<longleftrightarrow> (\<forall>s. ib_items B (ib_ClearItems B s) = []) \<and>
     (\<forall>i n s. omap_find (ib_items B s) i = None \<longrightarrow> ib_items B (ib_LoadItem B i n s) = omap_put i \<lparr> it_id = i, it_count = n \<rparr> (ib_items B s))"

lemma item_text_prop: "item_text d = prop_text (uint (it_id d), uint (it_count d))"
  by (simp add: item_text_def prop_text_def show_int_def)

lemma items_text: "0x7B # (case ds of [] \<Rightarrow> [] | d # ds \<Rightarrow> item_text d @ concat (map (\<lambda>d. 0x2C # item_text d) ds)) @ [0x7D]
    = props_text (map (\<lambda>d. (uint (it_id d), uint (it_count d))) ds)"
  by (cases ds) (simp_all add: props_text_def item_text_prop comp_def)

lemma uint_u32: "uint (w :: u32) < 4294967296"
  using unsigned_less[of w] by simp

lemma cstr_props_text: "cstr (props_text kvs) = props_text kvs"
proof (rule cstr_id)
  have "0 \<notin> set (prop_text kv)" for kv using prop_text_byte by blast
  then show "0 \<notin> set (props_text kvs)" by (cases kvs) (auto simp: props_text_def)
qed

lemma each_items:
  assumes "load_laws B" "list_all2 (\<lambda>kv m. fst m = show_int (fst kv) \<and> js_to_int J (snd m) = Some (snd kv))
      (map (\<lambda>kd. (uint (it_id (snd kd)), uint (it_count (snd kd)))) xs) ms"
    "omap_ok (ib_items B s @ xs)" "\<forall>kd\<in>set xs. it_id (snd kd) = fst kd \<and> uint (fst kd) < 2 ^ 31"
  shows "\<exists>s'. each (item_member J B) ms s = Some s' \<and> ib_items B s' = ib_items B s @ xs"
  using assms(2-4)
proof (induction xs arbitrary: ms s)
  case (Cons x xs)
  obtain k d where x: "x = (k, d)" by (cases x)
  then obtain m ms' where ms: "ms = m # ms'" and m: "fst m = show_int (uint k)" "js_to_int J (snd m) = Some (uint (it_count d))"
    and rest: "list_all2 (\<lambda>kv m. fst m = show_int (fst kv) \<and> js_to_int J (snd m) = Some (snd kv))
      (map (\<lambda>kd. (uint (it_id (snd kd)), uint (it_count (snd kd)))) xs) ms'"
    using Cons.prems(1,3) by (cases ms) auto
  have "\<forall>q\<in>set (ib_items B s). fst q < k" using Cons.prems(2) x by (auto simp: omap_ok_def oset_ok_def sorted_wrt_append)
  then have n: "omap_find (ib_items B s) k = None" and put: "omap_put k d (ib_items B s) = ib_items B s @ [(k, d)]"
    by (auto simp: map_of_eq_None_iff omap_put_last)
  have d: "\<lparr> it_id = k, it_count = it_count d \<rparr> = d" using Cons.prems(3) x by simp
  have "uint k < 2 ^ 31" using Cons.prems(3) x by simp
  then have "c_atoi (show_int (uint k)) = Some (uint k)" by (intro atoi_show_int) (rule order_trans[of _ 0], simp_all)
  then have "item_member J B m s = Some (ib_LoadItem B k (it_count d) s)"
    using m uint_u32[of "it_count d"] by (simp add: item_member_def get_Uint_def in_range_def)
  moreover have "ib_items B (ib_LoadItem B k (it_count d) s) = ib_items B s @ [x]"
    using assms(1) n put d x unfolding load_laws_def by metis
  moreover from this have "\<exists>s'. each (item_member J B) ms' (ib_LoadItem B k (it_count d) s) = Some s'
      \<and> ib_items B s' = ib_items B (ib_LoadItem B k (it_count d) s) @ xs"
    using Cons.IH[OF rest, of "ib_LoadItem B k (it_count d) s"] Cons.prems(2,3) by simp
  ultimately show ?case unfolding ms by auto
qed simp

text \<open>The items come back from their JSON text, when their numbers fit an \<open>int\<close>.\<close>

theorem items_json_roundtrip:
  assumes "json_ok J" "parse_ok J" "load_laws B" "items_ok (ib_items B s)"
  shows "\<exists>s1. dn_FromJson J B (dn_ToJson J B (js_object J) s) s0 = Some (True, s1) \<and> ib_items B s1 = ib_items B s"
proof -
  let ?kvs = "map (\<lambda>d. (uint (it_id d), uint (it_count d))) (map snd (ib_items B s))"
  have j: "dn_ToJson J B (js_object J) s = js_obj J [(bytes ''items'', js_str J (props_text ?kvs))]"
    unfolding dn_ToJson_def Let_def items_text cstr_props_text by (simp add: js_obj_def)
  have rng: "\<forall>kv\<in>set ?kvs. in_i32 (fst kv) \<and> in_i64 (snd kv)"
  proof
    fix kv assume "kv \<in> set ?kvs"
    then obtain kd where kd: "kd \<in> set (ib_items B s)" "kv = (uint (it_id (snd kd)), uint (it_count (snd kd)))" by auto
    have "uint (it_id (snd kd)) < 2 ^ 31" using assms(4) kd(1) by (auto simp: items_ok_def)
    moreover have "uint (it_count (snd kd)) < 2 ^ 32" using uint_u32 by simp
    moreover have "- (2 ^ 31) \<le> uint w" "- (2 ^ 63) \<le> uint w" for w :: u32 by (rule order_trans[of _ 0]; simp)+
    ultimately show "in_i32 (fst kv) \<and> in_i64 (snd kv)" unfolding kd(2) by auto
  qed
  have p: "js_is_object J (js_parse J (props_text ?kvs))"
    "list_all2 (\<lambda>kv m. fst m = show_int (fst kv) \<and> js_to_int J (snd m) = Some (snd kv)) ?kvs (js_members J (js_parse J (props_text ?kvs)))"
    using assms(2) rng unfolding parse_ok_def by blast+
  have c: "ib_items B (ib_ClearItems B s0) = []" using assms(3) by (simp add: load_laws_def)
  obtain s1 where "each (item_member J B) (js_members J (js_parse J (props_text ?kvs))) (ib_ClearItems B s0) = Some s1"
    "ib_items B s1 = ib_items B s"
    using each_items[OF assms(3), of J "ib_items B s" "js_members J (js_parse J (props_text ?kvs))" "ib_ClearItems B s0"] p(2) assms(4) c
    by (auto simp: items_ok_def comp_def)
  then show ?thesis
    using js_obj_members[OF assms(1), of "[(bytes ''items'', js_str J (props_text ?kvs))]"]
      js_obj_member[OF assms(1), of "[(bytes ''items'', js_str J (props_text ?kvs))]"] p(1)
    by (simp add: dn_FromJson_def j read_member_def get_String_str[OF assms(1)] cstr_props_text Let_def)
qed

text \<open>The exchanges do not: the values of their text are no JSON.  A parser of JSON that meets an underscore behind a
  number gives up.\<close>

definition rejects_underscore :: "('j, 'z) json_api_scheme \<Rightarrow> bool" where
  "rejects_underscore J \<longleftrightarrow> (\<forall>k n rest. \<not> js_is_object J (js_parse J (0x7B # 0x22 # decimal k @ [0x22, 0x3A] @ decimal n @ 0x5F # rest)))"

text \<open>A player who has exchanged anything loses the record of all exchanges when it is read back.\<close>

theorem exchange_json_lost:
  assumes "json_ok J" "rejects_underscore J" "ib_limits B s \<noteq> []"
  shows "dn_ExchangeDataFromJson J B fresh (dn_ExchangeDataToJson J B (js_object J) s) s0 = Some (False, ib_ClearExchangeItems B s0)"
proof -
  obtain d ds where ds: "ib_limits B s = d # ds" using assms(3) by (cases "ib_limits B s") auto
  let ?t = "0x7B # (exchange_text d @ concat (map exchange_text ds)) @ [0x7D]"
  have "0 \<notin> set (decimal n)" for n using decimal_digits[of 0 n] by auto
  then have "cstr ?t = ?t" by (intro cstr_id) (auto simp: exchange_text_def)
  then have j: "dn_ExchangeDataToJson J B (js_object J) s = js_obj J [(bytes ''exchange_items'', js_str J ?t)]"
    by (simp add: dn_ExchangeDataToJson_def Let_def ds js_obj_def)
  have t: "?t = 0x7B # 0x22 # decimal (unat (fst d)) @ [0x22, 0x3A] @ decimal (unat (ex_current (snd d)))
      @ 0x5F # (decimal (unat (ex_last (snd d))) @ concat (map exchange_text ds) @ [0x7D])"
    by (simp add: exchange_text_def)
  have "\<not> js_is_object J (js_parse J ?t)" unfolding t using assms(2) unfolding rejects_underscore_def by blast
  then show ?thesis
    using js_obj_members[OF assms(1), of "[(bytes ''exchange_items'', js_str J ?t)]"]
      js_obj_member[OF assms(1), of "[(bytes ''exchange_items'', js_str J ?t)]"] \<open>cstr ?t = ?t\<close>
    by (simp add: dn_ExchangeDataFromJson_def j read_member_def get_String_str[OF assms(1)] Let_def del: append_assoc)
qed

lemma demo_load_laws: "load_laws demo_items"
  by (auto simp: load_laws_def demo_items_def store_set_def store_count_def)

lemma split_on_hd: "c \<notin> set p \<Longrightarrow> \<exists>h t. split_on c (p @ q) = (p @ h) # t"
proof (induction p)
  case Nil
  then show ?case by (cases q) (auto split: list.splits)
qed auto

lemma demo_rejects: "rejects_underscore (demo_json demo_parse)"
  unfolding rejects_underscore_def
proof (intro allI)
  fix k n and rest :: "byte list"
  let ?p = "0x22 # decimal k @ [0x22, 0x3A] @ decimal n @ [0x5F]"
  have dig: "b \<noteq> 0x2C \<and> b \<noteq> 0x5F" if "b \<in> set (decimal m)" for b m using decimal_digits[OF that] by auto
  have "parse_piece (?p @ h) = None" for h
  proof -
    have "0x5F \<notin> set (prop_text kv)" for kv
      using decimal_digits[of "0x5F"] by (auto simp: prop_text_def show_int_def split: if_splits)
    moreover have "0x5F \<in> set (?p @ h)" by simp
    ultimately have "?p @ h \<noteq> prop_text kv" for kv by (intro notI) (simp only:)
    then show ?thesis by (auto simp: parse_piece_def Let_def split: option.splits)
  qed
  moreover have "0x2C \<notin> set ?p" using dig by auto
  ultimately have s: "all_some (map parse_piece (split_on 0x2C (?p @ q))) = None" for q
    using split_on_hd[of "0x2C" ?p q] by auto
  show "\<not> js_is_object (demo_json demo_parse) (js_parse (demo_json demo_parse) (0x7B # 0x22 # decimal k @ [0x22, 0x3A] @ decimal n @ 0x5F # rest))"
  proof (cases "rest = []")
    case True
    then show ?thesis by (simp add: demo_json_def demo_parse_def)
  next
    case False
    then have "butlast (tl (0x7B # 0x22 # decimal k @ [0x22, 0x3A] @ decimal n @ 0x5F # rest)) = ?p @ butlast rest"
      by (simp add: butlast_append)
    then show ?thesis using s[of "butlast rest"] unfolding demo_json_def demo_parse_def by simp
  qed
qed

lemma items_json_roundtrip_witness:
  "\<exists>s1. dn_FromJson (demo_json demo_parse) demo_items (dn_ToJson (demo_json demo_parse) demo_items (js_object (demo_json demo_parse))
      ([(1, \<lparr> it_id = 1, it_count = 9 \<rparr>), (5, \<lparr> it_id = 5, it_count = 4000000000 \<rparr>)], [])) ([], []) = Some (True, s1)
    \<and> ib_items demo_items s1 = ib_items demo_items ([(1, \<lparr> it_id = 1, it_count = 9 \<rparr>), (5, \<lparr> it_id = 5, it_count = 4000000000 \<rparr>)], [])"
  by (rule items_json_roundtrip[OF demo_json_ok demo_parse_ok demo_load_laws])
    (simp add: items_ok_def demo_items_def omap_ok_def oset_ok_def)

lemma exchange_json_lost_witness:
  "dn_ExchangeDataFromJson (demo_json demo_parse) demo_items \<lparr> ex_id = 0, ex_current = 0, ex_last = 0 \<rparr>
     (dn_ExchangeDataToJson (demo_json demo_parse) demo_items (js_object (demo_json demo_parse))
       ([], [(7, \<lparr> ex_id = 7, ex_current = 1, ex_last = 1404900000 \<rparr>)])) ([], []) = Some (False, ib_ClearExchangeItems demo_items ([], []))"
  by (rule exchange_json_lost[OF demo_json_ok demo_rejects]) (simp add: demo_items_def)

end
