(* ===== verification/Game_Manager.thy ===== *)
theory Game_Manager
  imports WB_Prelude
begin

text \<open>
  \<open>GameManagerService\<close> and its implementation (\<open>game_base/game_manager_service/\<close>), which the start-up code does not
  create but whose life is that of every service with a shared object.  \<open>dlopen\<close>, \<open>dlsym\<close> and the object's
  \<open>CreateGameManagerServicePimpl\<close> are the parameter \<open>gm_loader\<close>; the shared objects that are open are a list of their
  names.  A \<open>GameService*\<close> is an address.  Null pointers that only an \<open>assert\<close> guards are undefined.
\<close>

type_synonym service_ptr = nat

record gm_loader =
  gl_open :: "string \<Rightarrow> bool"
  gl_creator :: "string \<Rightarrow> bool"
  gl_deletor :: "string \<Rightarrow> bool"
  gl_creates :: "string \<Rightarrow> bool"       \<comment> \<open>the creator returns an object\<close>

record gm_conf =
  gc_object :: bool
  gc_url :: "string option"            \<comment> \<open>\<open>PimplUrl\<close>, when it is a string\<close>

subsection \<open>The implementation\<close>

record gm_pimpl =
  gp_services :: "(u32 \<times> service_ptr) list"

definition GMPimpl_new :: gm_pimpl where
  "GMPimpl_new = \<lparr> gp_services = [] \<rparr>"

definition GMPimpl_Reload :: "gm_pimpl \<Rightarrow> bool \<times> gm_pimpl" where
  "GMPimpl_Reload p = (True, p)"

definition GMPimpl_Init :: "gm_pimpl \<Rightarrow> bool \<times> gm_pimpl" where
  "GMPimpl_Init p = (True, snd (GMPimpl_Reload p))"

definition RegisterRespHandler :: "u32 \<Rightarrow> service_ptr \<Rightarrow> gm_pimpl \<Rightarrow> bool \<times> gm_pimpl" where
  "RegisterRespHandler resp_code game_service p =
     (case omap_find (gp_services p) resp_code of
        None \<Rightarrow> (True, p\<lparr> gp_services := omap_put resp_code game_service (gp_services p) \<rparr>)
      | Some _ \<Rightarrow> (False, p))"

definition SendHeartBeat :: "gm_pimpl \<Rightarrow> bool" where
  "SendHeartBeat p = False"

subsection \<open>The service\<close>

text \<open>\<open>handle_\<close> is not initialised by the constructor: \<^const>\<open>None\<close>.\<close>

record game_manager =
  gm_config :: gm_conf
  gm_handle :: "string option"
  gm_impl :: "gm_pimpl option"
  gm_running :: bool

definition GameManagerService_new :: "gm_conf \<Rightarrow> game_manager" where
  "GameManagerService_new config = \<lparr> gm_config = config, gm_handle = None, gm_impl = None, gm_running = False \<rparr>"

definition GetDependentServices :: "string list" where
  "GetDependentServices = [''ZkService'']"

definition GM_Start :: "game_manager \<Rightarrow> bool \<times> game_manager" where
  "GM_Start g = (if gm_running g then (True, g) else (True, g\<lparr> gm_running := True \<rparr>))"

definition GM_Stop :: "game_manager \<Rightarrow> bool \<times> game_manager" where
  "GM_Stop g = (if \<not> gm_running g then (False, g) else (True, g\<lparr> gm_running := False \<rparr>))"

text \<open>The checks are those of the stored \<open>config_\<close>; \<open>config\<close> is the argument.  Reading a member of something that is
  no object, or the text of something that is none, is undefined.\<close>

definition GM_Reload :: "gm_loader \<Rightarrow> gm_conf \<Rightarrow> game_manager \<times> string list \<Rightarrow> (bool \<times> game_manager \<times> string list) option" where
  "GM_Reload so config st = (case st of (g, opened) \<Rightarrow>
     if \<not> gc_object (gm_config g) then Some (False, g, opened)
     else if gc_url (gm_config g) = None then Some (False, g, opened)
     else if \<not> gc_object config then None
     else (case gm_impl g of
         None \<Rightarrow> (case gc_url config of
             None \<Rightarrow> None
           | Some url \<Rightarrow>
               if \<not> gl_open so url then Some (False, g, opened)
               else
                 let opened1 = url # opened
                 in if \<not> gl_creator so url \<or> \<not> gl_deletor so url then Some (False, g, remove1 url opened1)
                    else if \<not> gl_creates so url then Some (False, g, remove1 url opened1)
                    else
                      let (ok, p) = GMPimpl_Init GMPimpl_new
                      in if \<not> ok then Some (False, g, remove1 url opened1)
                         else Some (True, snd (GM_Start (g\<lparr> gm_impl := Some p, gm_handle := Some url \<rparr>)), opened1))
       | Some p \<Rightarrow>
           let (ok, p1) = GMPimpl_Reload p
           in Some (ok, g\<lparr> gm_impl := Some p1 \<rparr>, opened)))"

definition GM_Init :: "gm_loader \<Rightarrow> game_manager \<times> string list \<Rightarrow> (bool \<times> game_manager \<times> string list) option" where
  "GM_Init so st = do {
     (ok, st1) \<leftarrow> GM_Reload so (gm_config (fst st)) st;
     (if \<not> ok then Some (False, st1) else Some (True, st1)) }"

definition GM_Update :: "game_manager \<Rightarrow> game_manager option" where
  "GM_Update g = (case gm_impl g of None \<Rightarrow> None | Some _ \<Rightarrow> Some g)"

definition RegisterRespHandService :: "u32 \<Rightarrow> service_ptr \<Rightarrow> game_manager \<Rightarrow> (bool \<times> game_manager) option" where
  "RegisterRespHandService resp_code game_service g = (case gm_impl g of
     None \<Rightarrow> None
   | Some p \<Rightarrow> (case RegisterRespHandler resp_code game_service p of (ok, p1) \<Rightarrow> Some (ok, g\<lparr> gm_impl := Some p1 \<rparr>)))"

text \<open>The destructor: the shared objects that stay open.  Without an implementation \<open>handle_\<close> is not initialised.\<close>

definition GameManagerService_destroy :: "game_manager \<times> string list \<Rightarrow> string list option" where
  "GameManagerService_destroy st = (case gm_handle (fst st) of
     None \<Rightarrow> None
   | Some url \<Rightarrow> Some (remove1 url (snd st)))"

subsection \<open>Any use of it\<close>

datatype gm_op = OpInit | OpReload gm_conf | OpStart | OpStop | OpUpdate | OpRegister u32 service_ptr

fun gm_step :: "gm_loader \<Rightarrow> gm_op \<Rightarrow> game_manager \<times> string list \<Rightarrow> (game_manager \<times> string list) option" where
  "gm_step so OpInit st = map_option snd (GM_Init so st)"
| "gm_step so (OpReload c) st = map_option snd (GM_Reload so c st)"
| "gm_step so OpStart (g, opened) = Some (snd (GM_Start g), opened)"
| "gm_step so OpStop (g, opened) = Some (snd (GM_Stop g), opened)"
| "gm_step so OpUpdate (g, opened) = map_option (\<lambda>g. (g, opened)) (GM_Update g)"
| "gm_step so (OpRegister c s) (g, opened) = map_option (\<lambda>(_, g). (g, opened)) (RegisterRespHandService c s g)"

text \<open>In every state that can be reached: an implementation, its handle and its shared object come together.\<close>

definition gm_inv :: "game_manager \<times> string list \<Rightarrow> bool" where
  "gm_inv st \<longleftrightarrow> (case gm_impl (fst st) of
     None \<Rightarrow> gm_handle (fst st) = None \<and> snd st = []
   | Some p \<Rightarrow> (\<exists>url. gm_handle (fst st) = Some url \<and> snd st = [url]) \<and> omap_ok (gp_services p))"

lemma GM_Reload_inv: "gm_inv st \<Longrightarrow> GM_Reload so c st = Some (ok, st') \<Longrightarrow> gm_inv st'"
  unfolding gm_inv_def GM_Reload_def
  by (auto simp: GMPimpl_Init_def GMPimpl_Reload_def GMPimpl_new_def GM_Start_def Let_def split: option.splits if_splits prod.splits)

lemma gm_inv_running [simp]: "gm_inv (g\<lparr> gm_running := b \<rparr>, opened) = gm_inv (g, opened)"
  by (cases "gm_impl g") (simp_all add: gm_inv_def)

lemma gm_step_inv:
  assumes "gm_inv st" "gm_step so op st = Some st'"
  shows "gm_inv st'"
proof (cases op)
  case OpInit
  then show ?thesis using assms GM_Reload_inv[OF assms(1)] by (auto simp: GM_Init_def split: Option.bind_splits if_splits)
next
  case (OpReload c)
  then show ?thesis using assms GM_Reload_inv[OF assms(1)] by auto
next
  case (OpRegister c s)
  then show ?thesis using assms
    by (cases st) (auto simp: gm_inv_def RegisterRespHandService_def RegisterRespHandler_def split: option.splits)
next
  case OpUpdate
  then show ?thesis using assms by (cases st) (auto simp: GM_Update_def split: option.split_asm)
qed (use assms in \<open>cases st; auto simp: GM_Start_def GM_Stop_def split: if_splits\<close>)+

text \<open>However the service is used, it holds the shared object of its implementation and no other, and destroying
  it closes it; a service whose implementation was never loaded must not be destroyed.\<close>

theorem gm_lifecycle:
  assumes "each (gm_step so) ops (GameManagerService_new conf, []) = Some (g, opened)"
  shows "(gm_impl g = None \<longrightarrow> opened = [] \<and> GameManagerService_destroy (g, opened) = None)
    \<and> (gm_impl g \<noteq> None \<longrightarrow> (\<exists>url. gm_handle g = Some url \<and> opened = [url]) \<and> GameManagerService_destroy (g, opened) = Some [])"
proof -
  have "gm_inv st \<Longrightarrow> each (gm_step so) ops st = Some st' \<Longrightarrow> gm_inv st'" for st st'
    by (induction ops arbitrary: st) (auto split: Option.bind_splits dest: gm_step_inv)
  moreover have "gm_inv (GameManagerService_new conf, [])" by (simp add: gm_inv_def GameManagerService_new_def)
  ultimately have "gm_inv (g, opened)" using assms by blast
  then show ?thesis by (cases "gm_impl g") (auto simp: gm_inv_def GameManagerService_destroy_def)
qed

lemma gm_lifecycle_witness:
  "\<exists>g. each (gm_step \<lparr> gl_open = (\<lambda>_. True), gl_creator = (\<lambda>_. True), gl_deletor = (\<lambda>_. True), gl_creates = (\<lambda>_. True) \<rparr>)
       [OpInit, OpRegister 7 100, OpRegister 7 200, OpStop]
       (GameManagerService_new \<lparr> gc_object = True, gc_url = Some ''a.so'' \<rparr>, []) = Some (g, [''a.so''])
     \<and> gm_impl g = Some \<lparr> gp_services = [(7, 100)] \<rparr> \<and> GameManagerService_destroy (g, [''a.so'']) = Some []"
proof -
  let ?so = "\<lparr> gl_open = (\<lambda>_. True), gl_creator = (\<lambda>_. True), gl_deletor = (\<lambda>_. True), gl_creates = (\<lambda>_. True) \<rparr>"
  let ?c = "\<lparr> gc_object = True, gc_url = Some ''a.so'' \<rparr>"
  have r: "each (gm_step ?so) [OpInit, OpRegister 7 100, OpRegister 7 200, OpStop] (GameManagerService_new ?c, []) =
      Some (\<lparr> gm_config = ?c, gm_handle = Some ''a.so'', gm_impl = Some \<lparr> gp_services = [(7, 100)] \<rparr>, gm_running = False \<rparr>, [''a.so''])"
    by (simp add: GM_Init_def GM_Reload_def GameManagerService_new_def GMPimpl_Init_def GMPimpl_Reload_def GMPimpl_new_def GM_Start_def
        GM_Stop_def RegisterRespHandService_def RegisterRespHandler_def)
  show ?thesis using r gm_lifecycle[OF r] by simp
qed

text \<open>A handler once registered is never replaced.\<close>

lemma first_handler_stays:
  assumes "RegisterRespHandler c s p = (ok, p')" "omap_find (gp_services p) c' = Some s'"
  shows "omap_find (gp_services p') c' = Some s'"
  using assms by (auto simp: RegisterRespHandler_def split: option.splits)

end
