(* ===== verification/State_Machine.thy ===== *)
theory State_Machine
  imports WB_Prelude
begin

text \<open>
  \<open>CbStateMachine\<close>, \<open>CbAIState\<close> and \<open>CbAIObj\<close> (\<open>framework/base/\<close>).  A state object is a number; \<open>calls\<close>, a parameter, gives
  its type and its virtual functions.  These get the owner and may use its state machine, so they act on the
  whole object; \<^const>\<open>None\<close> is a null pointer used.
\<close>

record fsm =
  f_current :: "nat option"
  f_previous :: "nat option"
  f_global :: "nat option"

record 'o ai_obj =
  ai_fsm :: "fsm option"                \<comment> \<open>\<open>m_pStateMachine\<close>\<close>
  ai_states :: "(int \<times> nat) list"       \<comment> \<open>\<open>m_stateMap\<close>\<close>
  ai_data :: 'o

record 'o state_calls =
  sc_type :: int
  sc_enter :: "'o ai_obj \<Rightarrow> 'o ai_obj option"
  sc_execute :: "'o ai_obj \<Rightarrow> 'o ai_obj option"
  sc_exit :: "'o ai_obj \<Rightarrow> 'o ai_obj option"
  sc_message :: "nat \<Rightarrow> 'o ai_obj \<Rightarrow> (bool \<times> 'o ai_obj) option"

subsection \<open>The state machine\<close>

definition fsm_new :: fsm where
  "fsm_new = \<lparr> f_current = None, f_previous = None, f_global = None \<rparr>"

definition setCurrentState :: "nat option \<Rightarrow> fsm \<Rightarrow> fsm" where
  "setCurrentState s f = f\<lparr> f_current := s \<rparr>"

definition setGlobalState :: "nat option \<Rightarrow> fsm \<Rightarrow> fsm" where
  "setGlobalState s f = f\<lparr> f_global := s \<rparr>"

definition setPreviousState :: "nat option \<Rightarrow> fsm \<Rightarrow> fsm" where
  "setPreviousState s f = f\<lparr> f_previous := s \<rparr>"

definition with_fsm :: "(fsm \<Rightarrow> fsm) \<Rightarrow> 'o ai_obj \<Rightarrow> 'o ai_obj" where
  "with_fsm g x = x\<lparr> ai_fsm := map_option g (ai_fsm x) \<rparr>"

definition fsm_update :: "(nat \<Rightarrow> 'o state_calls) \<Rightarrow> 'o ai_obj \<Rightarrow> 'o ai_obj option" where
  "fsm_update calls x = do {
     f \<leftarrow> ai_fsm x;
     x1 \<leftarrow> (case f_global f of Some g \<Rightarrow> sc_execute (calls g) x | None \<Rightarrow> Some x);
     f1 \<leftarrow> ai_fsm x1;
     (case f_current f1 of Some s \<Rightarrow> sc_execute (calls s) x1 | None \<Rightarrow> Some x1) }"

definition fsm_handleMessage :: "(nat \<Rightarrow> 'o state_calls) \<Rightarrow> nat \<Rightarrow> 'o ai_obj \<Rightarrow> (bool \<times> 'o ai_obj) option" where
  "fsm_handleMessage calls packet x = do {
     f \<leftarrow> ai_fsm x;
     (handled, x1) \<leftarrow> (case f_current f of Some s \<Rightarrow> sc_message (calls s) packet x | None \<Rightarrow> Some (False, x));
     (if handled then Some (True, x1)
      else do {
        f1 \<leftarrow> ai_fsm x1;
        (case f_global f1 of Some g \<Rightarrow> sc_message (calls g) packet x1 | None \<Rightarrow> Some (False, x1)) }) }"

definition changeState :: "(nat \<Rightarrow> 'o state_calls) \<Rightarrow> nat option \<Rightarrow> 'o ai_obj \<Rightarrow> 'o ai_obj option" where
  "changeState calls new_state x = do {
     f \<leftarrow> ai_fsm x;
     old \<leftarrow> f_current f;
     x1 \<leftarrow> sc_exit (calls old) (with_fsm (\<lambda>f. f\<lparr> f_previous := f_current f \<rparr>) x);
     s \<leftarrow> new_state;
     sc_enter (calls s) (with_fsm (\<lambda>f. f\<lparr> f_current := Some s \<rparr>) x1) }"

definition revertToPreviousState :: "(nat \<Rightarrow> 'o state_calls) \<Rightarrow> 'o ai_obj \<Rightarrow> 'o ai_obj option" where
  "revertToPreviousState calls x = do { f \<leftarrow> ai_fsm x; changeState calls (f_previous f) x }"

text \<open>\<open>typeid\<close>: \<open>cls\<close> is the class of a state object.\<close>

definition isInState :: "(nat \<Rightarrow> nat) \<Rightarrow> nat \<Rightarrow> fsm \<Rightarrow> bool option" where
  "isInState cls st f = map_option (\<lambda>s. cls s = cls st) (f_current f)"

subsection \<open>The owner\<close>

definition CbAIObj_new :: "'o \<Rightarrow> 'o ai_obj" where
  "CbAIObj_new d = \<lparr> ai_fsm = None, ai_states = [], ai_data = d \<rparr>"

definition findAIState :: "int \<Rightarrow> 'o ai_obj \<Rightarrow> nat option" where
  "findAIState nType x = omap_find (ai_states x) nType"

definition updateAIState :: "(nat \<Rightarrow> 'o state_calls) \<Rightarrow> 'o ai_obj \<Rightarrow> 'o ai_obj option" where
  "updateAIState calls x = fsm_update calls x"

definition AIObj_handleMessage :: "(nat \<Rightarrow> 'o state_calls) \<Rightarrow> nat \<Rightarrow> 'o ai_obj \<Rightarrow> 'o ai_obj option" where
  "AIObj_handleMessage calls packet x = map_option snd (fsm_handleMessage calls packet x)"

definition changeAIState :: "(nat \<Rightarrow> 'o state_calls) \<Rightarrow> int \<Rightarrow> 'o ai_obj \<Rightarrow> (int \<times> 'o ai_obj) option" where
  "changeAIState calls nStateType x =
     (case findAIState nStateType x of
        Some s \<Rightarrow> map_option (Pair 0) (changeState calls (Some s) x)
      | None \<Rightarrow> Some (- 1, x))"

definition getCurrentAIStateType :: "(nat \<Rightarrow> 'o state_calls) \<Rightarrow> 'o ai_obj \<Rightarrow> int option" where
  "getCurrentAIStateType calls x = do { f \<leftarrow> ai_fsm x; s \<leftarrow> f_current f; Some (sc_type (calls s)) }"

subsection \<open>What a change of state does\<close>

text \<open>States that leave the machine alone and do not fail.\<close>

definition well_behaved :: "(nat \<Rightarrow> 'o state_calls) \<Rightarrow> bool" where
  "well_behaved calls \<longleftrightarrow> (\<forall>s x. (\<exists>d. sc_exit (calls s) x = Some (x\<lparr> ai_data := d \<rparr>)) \<and> (\<exists>d. sc_enter (calls s) x = Some (x\<lparr> ai_data := d \<rparr>)))"

lemma changeState_fsm:
  assumes "well_behaved calls" "ai_fsm x = Some f" "f_current f = Some old"
  shows "\<exists>x'. changeState calls (Some s) x = Some x' \<and> ai_fsm x' = Some (f\<lparr> f_current := Some s, f_previous := Some old \<rparr>) \<and> ai_states x' = ai_states x"
proof -
  let ?x = "with_fsm (\<lambda>f. f\<lparr> f_previous := f_current f \<rparr>) x"
  obtain d where d: "sc_exit (calls old) ?x = Some (?x\<lparr> ai_data := d \<rparr>)" using assms(1) unfolding well_behaved_def by blast
  let ?y = "with_fsm (\<lambda>f. f\<lparr> f_current := Some s \<rparr>) (?x\<lparr> ai_data := d \<rparr>)"
  obtain e where e: "sc_enter (calls s) ?y = Some (?y\<lparr> ai_data := e \<rparr>)" using assms(1) unfolding well_behaved_def by blast
  show ?thesis using assms(2,3) d e by (simp add: changeState_def with_fsm_def)
qed

text \<open>A change to a known type leaves the object in that state, with the state before it as the previous one, and
  reverting leads back; a type that is not known changes nothing.\<close>

theorem changeAIState_reverts:
  assumes "well_behaved calls" "ai_fsm x = Some f" "f_current f = Some old"
  shows "case findAIState t x of
      None \<Rightarrow> changeAIState calls t x = Some (- 1, x)
    | Some s \<Rightarrow> \<exists>x1 x2. changeAIState calls t x = Some (0, x1)
        \<and> ai_fsm x1 = Some (f\<lparr> f_current := Some s, f_previous := Some old \<rparr>)
        \<and> revertToPreviousState calls x1 = Some x2 \<and> ai_fsm x2 = Some (f\<lparr> f_current := Some old, f_previous := Some s \<rparr>)"
proof (cases "findAIState t x")
  case (Some s)
  obtain x1 where x1: "changeState calls (Some s) x = Some x1" "ai_fsm x1 = Some (f\<lparr> f_current := Some s, f_previous := Some old \<rparr>)"
    using changeState_fsm[OF assms] by blast
  obtain x2 where x2: "changeState calls (Some old) x1 = Some x2" "ai_fsm x2 = Some (f\<lparr> f_current := Some old, f_previous := Some s \<rparr>)"
    using changeState_fsm[OF assms(1) x1(2), of s old] by auto
  show ?thesis using Some x1 x2 by (simp add: changeAIState_def revertToPreviousState_def)
qed (simp add: changeAIState_def)

definition demo_calls :: "nat \<Rightarrow> nat list state_calls" where
  "demo_calls s = \<lparr> sc_type = int s, sc_enter = (\<lambda>x. Some (x\<lparr> ai_data := (10 + s) # ai_data x \<rparr>)),
     sc_execute = Some, sc_exit = (\<lambda>x. Some (x\<lparr> ai_data := (20 + s) # ai_data x \<rparr>)), sc_message = (\<lambda>p x. Some (False, x)) \<rparr>"

lemma changeAIState_reverts_witness:
  "let x = \<lparr> ai_fsm = Some \<lparr> f_current = Some 1, f_previous = None, f_global = None \<rparr>, ai_states = [(5, 2)], ai_data = [] \<rparr>
   in \<exists>x1 x2. changeAIState demo_calls 5 x = Some (0, x1)
        \<and> ai_fsm x1 = Some \<lparr> f_current = Some 2, f_previous = Some 1, f_global = None \<rparr>
        \<and> revertToPreviousState demo_calls x1 = Some x2 \<and> ai_fsm x2 = Some \<lparr> f_current = Some 1, f_previous = Some 2, f_global = None \<rparr>"
proof -
  let ?f = "\<lparr> f_current = Some 1, f_previous = None, f_global = None \<rparr>"
  let ?x = "\<lparr> ai_fsm = Some ?f, ai_states = [(5, 2)], ai_data = [] \<rparr>"
  have "well_behaved demo_calls" by (auto simp: well_behaved_def demo_calls_def)
  from changeAIState_reverts[OF this, of ?x ?f 1 5] show ?thesis by (simp add: findAIState_def)
qed

text \<open>No constructor of the sources makes a state machine, nor a first state: an object as it is constructed cannot be
  updated, and a machine without a current state cannot change.\<close>

lemma fresh_object: "updateAIState calls (CbAIObj_new d) = None" "changeAIState calls t (CbAIObj_new d) = Some (- 1, CbAIObj_new d)"
  by (simp_all add: updateAIState_def fsm_update_def CbAIObj_new_def changeAIState_def findAIState_def)

lemma no_current_state: "ai_fsm x = Some fsm_new \<Longrightarrow> changeState calls s x = None"
  by (simp add: changeState_def fsm_new_def)

end
