(* ===== verification/Conn_Pool.thy ===== *)
theory Conn_Pool
  imports WB_Prelude "HOL-Library.Signed_Division"
begin

text \<open>
  The pool of connections that \<open>RedisManager\<close> and \<open>MySqlDatabase\<close> keep, with the same members and the same search: two
  arrays of \<open>max\<close> slots, the connections and their flags, of which the first \<open>count\<close> are in use, and a counter that
  goes round.  A connection is named by its slot, which it holds as \<open>pool_index_\<close>.  The interface \<open>slot_pool\<close> states
  what one round of the search and a return promise; its clients never hold one connection twice.
\<close>

record 'c pool =
  cp_count :: nat
  cp_index :: "64 word"
  cp_conns :: "'c option list"
  cp_free :: "bool list"

subsection \<open>Operations\<close>

text \<open>The loop of \<open>Get\<close>: \<open>n\<close> tries from the counter on.  An index outside the arrays is undefined.\<close>

primrec pool_scan :: "nat \<Rightarrow> 'c pool \<Rightarrow> (nat option \<times> 'c pool) option" where
  "pool_scan 0 p = Some (None, p)"
| "pool_scan (Suc n) p =
     (let p1 = p\<lparr> cp_index := cp_index p + 1 \<rparr>;
          iConn = sint (cp_index p1) smod int (cp_count p1)
      in if iConn < 0 \<or> length (cp_free p1) \<le> nat iConn \<or> length (cp_conns p1) \<le> nat iConn then None
         else if cp_free p1 ! nat iConn then Some (Some (nat iConn), p1\<lparr> cp_free := (cp_free p1)[nat iConn := False] \<rparr>)
         else pool_scan n p1)"

text \<open>The end of \<open>_NewConnection\<close>.\<close>

definition pool_add :: "'c \<Rightarrow> 'c pool \<Rightarrow> 'c pool option" where
  "pool_add c p =
     (if cp_count p < length (cp_conns p) \<and> cp_count p < length (cp_free p)
      then Some (p\<lparr> cp_conns := (cp_conns p)[cp_count p := Some c], cp_free := (cp_free p)[cp_count p := True], cp_count := cp_count p + 1 \<rparr>)
      else None)"

definition set_free :: "nat \<Rightarrow> bool \<Rightarrow> 'c pool \<Rightarrow> 'c pool option" where
  "set_free i b p = (if i < length (cp_free p) then Some (p\<lparr> cp_free := (cp_free p)[i := b] \<rparr>) else None)"

text \<open>One round of \<open>Get\<close>: the search, then a new connection; \<open>fresh\<close> is \<open>_NewConnection\<close> with the slot it fills.\<close>

definition pool_round :: "('c pool \<Rightarrow> 'w \<Rightarrow> (nat option \<times> 'c pool \<times> 'w) option) \<Rightarrow> 'c pool \<Rightarrow> 'w \<Rightarrow> (nat option \<times> 'c pool \<times> 'w) option" where
  "pool_round fresh p w = do {
     (found, p1) \<leftarrow> pool_scan (cp_count p) p;
     (case found of
        Some i \<Rightarrow> if cp_conns p1 ! i \<noteq> None then Some (Some i, p1, w)
                  else do { (a, p2, w2) \<leftarrow> fresh p1 w; (case a of Some j \<Rightarrow> map_option (\<lambda>p3. (Some j, p3, w2)) (set_free j False p2) | None \<Rightarrow> Some (None, p2, w2)) }
      | None \<Rightarrow> do { (a, p2, w2) \<leftarrow> fresh p1 w; (case a of Some j \<Rightarrow> map_option (\<lambda>p3. (Some j, p3, w2)) (set_free j False p2) | None \<Rightarrow> Some (None, p2, w2)) }) }"

text \<open>\<open>Get\<close> calls itself until a round succeeds: \<^const>\<open>None\<close> is undefined or never returns.\<close>

partial_function (option) retry :: "('m \<Rightarrow> 'w \<Rightarrow> (nat option \<times> 'm \<times> 'w) option) \<Rightarrow> 'm \<Rightarrow> 'w \<Rightarrow> (nat \<times> 'm \<times> 'w) option" where
  "retry once m w = (case once m w of
      None \<Rightarrow> None
    | Some (a, m1, w1) \<Rightarrow> (case a of Some i \<Rightarrow> Some (i, m1, w1) | None \<Rightarrow> retry once m1 w1))"

lemma retry_hit: "once m w = Some (Some i, m', w') \<Longrightarrow> retry once m w = Some (i, m', w')"
  by (subst retry.simps) simp

lemma retry_never:
  assumes "\<And>m w. S m w \<Longrightarrow> once m w = None \<or> (\<exists>m' w'. once m w = Some (None, m', w') \<and> S m' w')" and "S m w"
  shows "retry once m w = None"
proof (rule ccontr)
  assume "retry once m w \<noteq> None"
  then obtain r where "retry once m w = Some r" by auto
  then have "(\<forall>m w. S m w \<longrightarrow> once m w = None \<or> (\<exists>m' w'. once m w = Some (None, m', w') \<and> S m' w')) \<longrightarrow> \<not> S m w"
  proof (induct rule: retry.raw_induct[rotated, consumes 1])
    case (1 f once m w y)
    show ?case
    proof (intro impI notI)
      assume never: "\<forall>m w. S m w \<longrightarrow> once m w = None \<or> (\<exists>m' w'. once m w = Some (None, m', w') \<and> S m' w')" and "S m w"
      then obtain m' w' where "once m w = Some (None, m', w')" "S m' w'" using 1(2) by fastforce
      then show False using 1(1)[of once m' w' y] 1(2) never by simp
    qed
  qed
  then show False using assms by blast
qed

subsection \<open>The slots in use\<close>

definition busy :: "'c pool \<Rightarrow> nat set" where
  "busy p = {i. i < cp_count p \<and> \<not> cp_free p ! i}"

definition pool_inv :: "nat \<Rightarrow> 'c pool \<Rightarrow> bool" where
  "pool_inv N p \<longleftrightarrow> length (cp_conns p) = N \<and> length (cp_free p) = N \<and> cp_count p \<le> N
     \<and> (\<forall>i<cp_count p. cp_conns p ! i \<noteq> None)"

lemma pool_scan_Suc_cases:
  assumes "pool_scan (Suc n) p = Some (a, p')"
  obtains (hit) i where "a = Some i" "int i = sint (cp_index p + 1) smod int (cp_count p)" "i < length (cp_free p)" "cp_free p ! i"
      "p' = p\<lparr> cp_index := cp_index p + 1, cp_free := (cp_free p)[i := False] \<rparr>"
    | (again) "pool_scan n (p\<lparr> cp_index := cp_index p + 1 \<rparr>) = Some (a, p')"
  using assms by (auto simp: Let_def split: if_splits)

lemma pool_scan_frame:
  "pool_scan n p = Some (a, p') \<Longrightarrow> cp_count p' = cp_count p \<and> cp_conns p' = cp_conns p"
proof (induction n arbitrary: p)
  case (Suc n)
  from Suc.prems show ?case by (cases rule: pool_scan_Suc_cases) (use Suc.IH in fastforce)+
qed simp

lemma pool_scan_miss: "pool_scan n p = Some (None, p') \<Longrightarrow> cp_free p' = cp_free p"
proof (induction n arbitrary: p)
  case (Suc n)
  from Suc.prems show ?case by (cases rule: pool_scan_Suc_cases) (use Suc.IH in fastforce)+
qed simp

lemma pool_scan_hit:
  "pool_scan n p = Some (Some i, p') \<Longrightarrow> n \<le> cp_count p \<Longrightarrow>
     i < cp_count p \<and> i < length (cp_free p) \<and> cp_free p ! i \<and> cp_free p' = (cp_free p)[i := False]"
proof (induction n arbitrary: p)
  case (Suc n)
  from Suc.prems(1) show ?case
  proof (cases rule: pool_scan_Suc_cases)
    case (hit k)
    then show ?thesis using Suc.prems(2) smod_int_range[of "int (cp_count p)" "sint (cp_index p + 1)"] by simp
  next
    case again
    from Suc.IH[OF this] Suc.prems(2) show ?thesis by simp
  qed
qed simp

lemma pool_scan_inv: "pool_scan n p = Some (a, p') \<Longrightarrow> n \<le> cp_count p \<Longrightarrow> pool_inv N p \<Longrightarrow> pool_inv N p'"
  using pool_scan_frame[of n p a p'] pool_scan_miss[of n p p'] pool_scan_hit[of n p _ p']
  by (cases a) (auto simp: pool_inv_def)

lemma pool_scan_busy:
  assumes "pool_scan n p = Some (a, p')" "n \<le> cp_count p"
  shows "case a of Some i \<Rightarrow> i \<notin> busy p \<and> busy p' = insert i (busy p) \<and> i < cp_count p | None \<Rightarrow> busy p' = busy p"
  using pool_scan_frame[OF assms(1)] pool_scan_miss[of n p p'] pool_scan_hit[of n p _ p'] assms
  by (cases a) (auto simp: busy_def nth_list_update)

lemma pool_add_spec:
  assumes "pool_add c p = Some p'" "pool_inv N p"
  shows "pool_inv N p' \<and> busy p' = busy p \<and> cp_count p' = cp_count p + 1 \<and> cp_free p' ! cp_count p \<and> length (cp_free p') = length (cp_free p)"
  using assms by (auto simp: pool_add_def pool_inv_def busy_def nth_list_update less_Suc_eq split: if_splits)

lemma set_free_inv: "set_free i b p = Some p' \<Longrightarrow> pool_inv N p \<Longrightarrow> pool_inv N p' \<and> cp_count p' = cp_count p"
  by (auto simp: set_free_def pool_inv_def split: if_splits)

lemma set_free_busy:
  "set_free i b p = Some p' \<Longrightarrow> i < cp_count p \<Longrightarrow> busy p' = (if b then busy p - {i} else insert i (busy p))"
  by (auto simp: set_free_def busy_def nth_list_update split: if_splits)

text \<open>What \<open>_NewConnection\<close> does to the pool: nothing, or one more connection in the next slot.\<close>

definition fresh_ok :: "('c pool \<Rightarrow> 'w \<Rightarrow> (nat option \<times> 'c pool \<times> 'w) option) \<Rightarrow> bool" where
  "fresh_ok fresh \<longleftrightarrow> (\<forall>p w a p' w'. fresh p w = Some (a, p', w') \<longrightarrow>
     (case a of None \<Rightarrow> p' = p | Some j \<Rightarrow> j = cp_count p \<and> (\<exists>c. pool_add c p = Some p')))"

lemma fresh_then_take:
  assumes "fresh_ok fresh" "pool_inv N p" "fresh p w = Some (a, p2, w2)"
    and "(case a of Some j \<Rightarrow> map_option (\<lambda>p3. (Some j, p3, w2)) (set_free j False p2) | None \<Rightarrow> Some (None, p2, w2)) = Some (b, p', w')"
  shows "pool_inv N p' \<and> (case b of Some i \<Rightarrow> i \<notin> busy p \<and> busy p' = insert i (busy p) | None \<Rightarrow> p' = p)"
proof (cases a)
  case None
  then show ?thesis using assms unfolding fresh_ok_def by fastforce
next
  case (Some j)
  then obtain c where j: "j = cp_count p" and c: "pool_add c p = Some p2" using assms(1,3) unfolding fresh_ok_def by fastforce
  from Some assms(4) obtain p3 where p3: "set_free j False p2 = Some p3" "b = Some j" "p' = p3" by auto
  note A = pool_add_spec[OF c assms(2)]
  have "busy p3 = insert j (busy p)" using set_free_busy[OF p3(1)] A j by simp
  moreover have "j \<notin> busy p" by (simp add: busy_def j)
  moreover have "pool_inv N p3" using set_free_inv[OF p3(1)] A by blast
  ultimately show ?thesis using p3 by simp
qed

lemma pool_round_spec:
  assumes "fresh_ok fresh" "pool_inv N p" "pool_round fresh p w = Some (b, p', w')"
  shows "pool_inv N p' \<and> (case b of Some i \<Rightarrow> i \<notin> busy p \<and> busy p' = insert i (busy p) | None \<Rightarrow> busy p' = busy p)"
proof -
  obtain a p1 where s: "pool_scan (cp_count p) p = Some (a, p1)" using assms(3) by (auto simp: pool_round_def split: Option.bind_splits)
  note I = pool_scan_inv[OF s le_refl assms(2)] and B = pool_scan_busy[OF s le_refl]
  show ?thesis
  proof (cases a)
    case None
    then show ?thesis using assms(3) s B fresh_then_take[OF assms(1) I, of w _ _ _ b p' w']
      by (auto simp: pool_round_def split: Option.bind_splits option.splits)
  next
    case (Some i)
    then have "cp_conns p1 ! i \<noteq> None" using B I pool_scan_frame[OF s] by (simp add: pool_inv_def)
    then show ?thesis using Some assms(3) s B I by (auto simp: pool_round_def)
  qed
qed

text \<open>The search finds a free connection when there is one, as long as the counter does not become negative.\<close>

lemma sint_plus_one:
  assumes "- 1 \<le> sint (x :: 64 word)" "sint x < 2 ^ 63 - 1"
  shows "sint (x + 1) = sint x + 1"
proof -
  have "x + 1 = word_of_int (sint x + 1)" by simp
  also have "sint \<dots> = sint x + 1" using assms by (simp only: signed_of_int) (simp add: signed_take_bit_int_eq_self)
  finally show ?thesis .
qed

lemma pool_scan_finds:
  assumes "pool_inv N p" "- 1 \<le> sint (cp_index p)" "sint (cp_index p) + int n < 2 ^ 63"
    and "1 \<le> k" "k \<le> n" "cp_free p ! nat ((sint (cp_index p) + int k) mod int (cp_count p))" "0 < cp_count p"
  shows "\<exists>i p'. pool_scan n p = Some (Some i, p')"
  using assms
proof (induction n arbitrary: p k)
  case (Suc n)
  let ?p1 = "p\<lparr> cp_index := cp_index p + 1 \<rparr>"
  have x: "sint (cp_index p + 1) = sint (cp_index p) + 1" using Suc.prems(2,3) by (intro sint_plus_one) simp_all
  let ?m = "(sint (cp_index p) + 1) mod int (cp_count p)"
  have sm: "sint (cp_index p + 1) smod int (cp_count p) = ?m" using Suc.prems(2,7) unfolding x by (intro smod_mod_positive) simp_all
  have r: "\<not> ?m < 0" "nat ?m < cp_count p" using Suc.prems(7) by (simp_all add: nat_less_iff not_less)
  show ?case
  proof (cases "cp_free p ! nat ?m")
    case True
    then show ?thesis using r Suc.prems(1) by (simp add: sm Let_def pool_inv_def)
  next
    case False
    then have k: "k \<noteq> 1" using Suc.prems(6) by auto
    have "\<exists>i p'. pool_scan n ?p1 = Some (Some i, p')"
      using Suc.prems k by (intro Suc.IH[of ?p1 "k - 1"]) (simp_all add: x pool_inv_def of_nat_diff)
    then show ?thesis using False r Suc.prems(1) by (simp add: sm Let_def pool_inv_def)
  qed
qed simp

lemma pool_scan_free:
  assumes "pool_inv N p" "- 1 \<le> sint (cp_index p)" "sint (cp_index p) + int (cp_count p) < 2 ^ 63" "i < cp_count p" "cp_free p ! i"
  shows "\<exists>i p'. pool_scan (cp_count p) p = Some (Some i, p')"
proof -
  let ?c = "int (cp_count p)" and ?x = "sint (cp_index p)"
  define k where "k = nat ((int i - ?x - 1) mod ?c) + 1"
  have "0 \<le> (int i - ?x - 1) mod ?c" "(int i - ?x - 1) mod ?c < ?c" using assms(4) by simp_all
  then have k: "1 \<le> k" "k \<le> cp_count p" "int k = (int i - ?x - 1) mod ?c + 1" by (simp_all add: k_def nat_le_iff Suc_le_eq nat_less_iff)
  have "?x + int k = ?x + 1 + (int i - ?x - 1) mod ?c" using k(3) by simp
  then have "(?x + int k) mod ?c = (?x + 1 + (int i - ?x - 1)) mod ?c" by (simp only: mod_add_right_eq)
  also have "\<dots> = int i" using assms(4) by simp
  finally show ?thesis using pool_scan_finds[OF assms(1-3) k(1,2)] assms(4,5) by simp
qed

subsection \<open>The contract and its clients\<close>

locale slot_pool =
  fixes slots :: "'m \<Rightarrow> 'c pool" and once :: "'m \<Rightarrow> 'w \<Rightarrow> (nat option \<times> 'm \<times> 'w) option" and put :: "nat \<Rightarrow> 'm \<Rightarrow> 'm option"
  assumes once_spec: "pool_inv N (slots m) \<Longrightarrow> once m w = Some (b, m', w') \<Longrightarrow> pool_inv N (slots m')
      \<and> (case b of Some i \<Rightarrow> i \<notin> busy (slots m) \<and> busy (slots m') = insert i (busy (slots m)) | None \<Rightarrow> busy (slots m') = busy (slots m))"
    and put_spec: "pool_inv N (slots m) \<Longrightarrow> i \<in> busy (slots m) \<Longrightarrow>
      \<exists>m'. put i m = Some m' \<and> pool_inv N (slots m') \<and> busy (slots m') = busy (slots m) - {i}"

text \<open>A client takes connections and returns those it holds.\<close>

datatype pool_op = TakeOne | Return nat

fun pool_run :: "('m \<Rightarrow> 'w \<Rightarrow> (nat option \<times> 'm \<times> 'w) option) \<Rightarrow> (nat \<Rightarrow> 'm \<Rightarrow> 'm option) \<Rightarrow> pool_op list \<Rightarrow> 'm \<times> 'w \<times> nat list \<Rightarrow> ('m \<times> 'w \<times> nat list) option" where
  "pool_run once put [] s = Some s"
| "pool_run once put (TakeOne # ops) (m, w, held) = do { (i, m1, w1) \<leftarrow> retry once m w; pool_run once put ops (m1, w1, i # held) }"
| "pool_run once put (Return i # ops) (m, w, held) =
     (if i \<in> set held then do { m1 \<leftarrow> put i m; pool_run once put ops (m1, w, remove1 i held) } else pool_run once put ops (m, w, held))"

context slot_pool
begin

lemma retry_spec:
  "retry once m w = Some (i, m', w') \<Longrightarrow> pool_inv N (slots m) \<Longrightarrow> pool_inv N (slots m') \<and> i \<notin> busy (slots m) \<and> busy (slots m') = insert i (busy (slots m))"
proof -
  assume "retry once m w = Some (i, m', w')" "pool_inv N (slots m)"
  moreover have "retry g m w = Some y \<Longrightarrow> g = once \<longrightarrow> pool_inv N (slots m) \<longrightarrow>
      pool_inv N (slots (fst (snd y))) \<and> fst y \<notin> busy (slots m) \<and> busy (slots (fst (snd y))) = insert (fst y) (busy (slots m))" for g m w y
  proof (induct rule: retry.raw_induct[rotated, consumes 1])
    case (1 f g m w y)
    show ?case
    proof (intro impI)
      assume g: "g = once" and inv: "pool_inv N (slots m)"
      from 1(2) g obtain a m1 w1 where o: "once m w = Some (a, m1, w1)" by (auto split: option.splits)
      show "pool_inv N (slots (fst (snd y))) \<and> fst y \<notin> busy (slots m) \<and> busy (slots (fst (snd y))) = insert (fst y) (busy (slots m))"
      proof (cases a)
        case None
        then have "f once m1 w1 = Some y" using 1(2) g o by simp
        from 1(1)[OF this] once_spec[OF inv o] None show ?thesis by simp
      next
        case (Some j)
        then show ?thesis using 1(2) g o once_spec[OF inv o] by auto
      qed
    qed
  qed
  ultimately show ?thesis by fastforce
qed

lemma run_exclusive:
  "pool_run once put ops (m, w, held) = Some (m', w', held') \<Longrightarrow> pool_inv N (slots m) \<Longrightarrow> distinct held \<Longrightarrow> set held = busy (slots m) \<Longrightarrow>
     pool_inv N (slots m') \<and> distinct held' \<and> set held' = busy (slots m')"
proof (induction ops arbitrary: m w held)
  case (Cons op ops)
  show ?case
  proof (cases op)
    case TakeOne
    then obtain i m1 w1 where t: "retry once m w = Some (i, m1, w1)" and r: "pool_run once put ops (m1, w1, i # held) = Some (m', w', held')"
      using Cons.prems(1) by (auto split: Option.bind_splits)
    from retry_spec[OF t Cons.prems(2)] Cons.IH[OF r] Cons.prems(3,4) show ?thesis by simp
  next
    case (Return i)
    show ?thesis
    proof (cases "i \<in> set held")
      case True
      then obtain m1 where p: "put i m = Some m1" and r: "pool_run once put ops (m1, w, remove1 i held) = Some (m', w', held')"
        using Cons.prems(1) Return by (auto split: Option.bind_splits)
      from put_spec[OF Cons.prems(2), of i] True Cons.prems(4) p
      have "pool_inv N (slots m1)" "busy (slots m1) = busy (slots m) - {i}" by auto
      then show ?thesis using Cons.IH[OF r] Cons.prems(3,4) by simp
    next
      case False
      then show ?thesis using Cons Return by simp
    qed
  qed
qed simp

end

end
