(* ===== verification/Redis.thy ===== *)
theory Redis
  imports Json Conn_Pool
begin

text \<open>
  The client of Redis (\<open>framework/server/redis_manager.h\<close>, \<open>redis_manager.cpp\<close>): replies, one connection with its
  reconnection and its pipeline, and the pool of connections.  hiredis is the parameter \<open>H\<close>, on contexts \<open>'c\<close> and the
  state \<open>'w\<close> of what is behind them; a command is its formatted text, and a reply that the library cannot give is
  \<^const>\<open>None\<close>.
\<close>

subsection \<open>Replies\<close>

datatype reply_type = REDIS_REPLY_STRING | REDIS_REPLY_ARRAY | REDIS_REPLY_INTEGER | REDIS_REPLY_NIL | REDIS_REPLY_STATUS | REDIS_REPLY_ERROR

record redis_reply =
  rr_type :: reply_type
  rr_len :: nat
  rr_elements :: nat

definition Reply_Status :: "redis_reply option \<Rightarrow> bool" where
  "Reply_Status reply = (case reply of Some r \<Rightarrow> rr_type r = REDIS_REPLY_STATUS | None \<Rightarrow> False)"

definition Reply_Error :: "redis_reply option \<Rightarrow> bool" where
  "Reply_Error reply = (case reply of Some r \<Rightarrow> rr_type r = REDIS_REPLY_ERROR | None \<Rightarrow> True)"

definition Reply_Integer :: "redis_reply option \<Rightarrow> bool" where
  "Reply_Integer reply = (case reply of Some r \<Rightarrow> rr_type r = REDIS_REPLY_INTEGER | None \<Rightarrow> False)"

definition Reply_Nil :: "redis_reply option \<Rightarrow> bool" where
  "Reply_Nil reply = (case reply of Some r \<Rightarrow> rr_type r = REDIS_REPLY_NIL | None \<Rightarrow> False)"

definition Reply_String :: "redis_reply option \<Rightarrow> bool" where
  "Reply_String reply = (case reply of Some r \<Rightarrow> rr_type r = REDIS_REPLY_STRING \<and> rr_len r > 0 | None \<Rightarrow> False)"

definition Reply_Array :: "redis_reply option \<Rightarrow> bool" where
  "Reply_Array reply = (case reply of Some r \<Rightarrow> rr_type r = REDIS_REPLY_ARRAY \<and> rr_elements r > 0 | None \<Rightarrow> False)"

subsection \<open>A connection\<close>

record ('c, 'w) hiredis =
  hi_connect :: "byte list \<Rightarrow> u32 \<Rightarrow> 'w \<Rightarrow> 'c option \<times> 'w"
  hi_err :: "'c \<Rightarrow> bool"
  hi_command :: "byte list \<Rightarrow> 'c \<Rightarrow> 'w \<Rightarrow> redis_reply option \<times> 'c \<times> 'w"
  hi_append :: "byte list \<Rightarrow> 'c \<Rightarrow> 'w \<Rightarrow> bool \<times> 'c \<times> 'w"
  hi_get_reply :: "'c \<Rightarrow> 'w \<Rightarrow> redis_reply option \<times> 'c \<times> 'w"

record 'c redis =
  rd_c :: "'c option"
  rd_pool_index :: int
  rd_host :: "byte list option"
  rd_port :: u32
  rd_pending :: int

definition Redis_new :: "'c redis" where
  "Redis_new = \<lparr> rd_c = None, rd_pool_index = - 1, rd_host = None, rd_port = 0, rd_pending = 0 \<rparr>"

definition SetPoolIndex :: "int \<Rightarrow> 'c redis \<Rightarrow> 'c redis" where
  "SetPoolIndex index r = r\<lparr> rd_pool_index := index \<rparr>"

text \<open>A null \<open>host\<close>, which \<open>ReConnect\<close> passes on before the first \<open>Connect\<close>, and a context that cannot be allocated are
  dereferenced.\<close>

definition Redis_Connect :: "('c, 'w) hiredis \<Rightarrow> byte list option \<Rightarrow> u32 \<Rightarrow> 'c redis \<Rightarrow> 'w \<Rightarrow> (bool \<times> 'c redis \<times> 'w) option" where
  "Redis_Connect H host port r w = do {
     h \<leftarrow> host;
     let r1 = r\<lparr> rd_pending := 0, rd_host := Some (cstr h), rd_port := port \<rparr>;
     (case hi_connect H (cstr h) port w of
        (None, _) \<Rightarrow> None
      | (Some c, w1) \<Rightarrow> Some (\<not> hi_err H c, r1\<lparr> rd_c := Some c \<rparr>, w1)) }"

definition Redis_Close :: "'c redis \<Rightarrow> 'c redis" where
  "Redis_Close r = r\<lparr> rd_c := None \<rparr>"

definition Redis_ReConnect :: "('c, 'w) hiredis \<Rightarrow> 'c redis \<Rightarrow> 'w \<Rightarrow> (bool \<times> 'c redis \<times> 'w) option" where
  "Redis_ReConnect H r w = Redis_Connect H (rd_host r) (rd_port r) (Redis_Close r) w"

text \<open>The result and what \<open>*reconnected\<close> becomes.\<close>

definition Ensure :: "('c, 'w) hiredis \<Rightarrow> 'c redis \<Rightarrow> 'w \<Rightarrow> (bool \<times> bool \<times> 'c redis \<times> 'w) option" where
  "Ensure H r w =
     (if (case rd_c r of None \<Rightarrow> True | Some c \<Rightarrow> hi_err H c)
      then map_option (\<lambda>(ok, r1, w1). (ok, True, r1, w1)) (Redis_ReConnect H r w)
      else Some (True, False, r, w))"

text \<open>Both \<open>ExecuteCommandV\<close> and \<open>ExecuteCommandArgv\<close>: send, and once more after a reconnection.  The reply is what
  \<open>SetReply\<close> gets.\<close>

definition send :: "('c \<Rightarrow> 'w \<Rightarrow> 'a \<times> 'c \<times> 'w) \<Rightarrow> 'c redis \<Rightarrow> 'w \<Rightarrow> ('a \<times> 'c redis \<times> 'w) option" where
  "send f r w = do { c \<leftarrow> rd_c r; (case f c w of (x, c1, w1) \<Rightarrow> Some (x, r\<lparr> rd_c := Some c1 \<rparr>, w1)) }"

definition execute :: "('c, 'w) hiredis \<Rightarrow> ('c \<Rightarrow> 'w \<Rightarrow> redis_reply option \<times> 'c \<times> 'w) \<Rightarrow> 'c redis \<Rightarrow> 'w \<Rightarrow> (bool \<times> redis_reply option \<times> 'c redis \<times> 'w) option" where
  "execute H f r w = do {
     (ok, _, r1, w1) \<leftarrow> Ensure H r w;
     (if \<not> ok then Some (False, None, r1, w1)
      else do {
        (x, r2, w2) \<leftarrow> send f r1 w1;
        (x, r3, w3) \<leftarrow> (if x = None then do {
            (ok, r3, w3) \<leftarrow> Redis_ReConnect H r2 w2;
            (if ok then send f r3 w3 else Some (None, r3, w3)) }
          else Some (x, r2, w2));
        Some (x \<noteq> None, x, r3, w3) }) }"

definition ExecuteCommandV :: "('c, 'w) hiredis \<Rightarrow> byte list \<Rightarrow> 'c redis \<Rightarrow> 'w \<Rightarrow> (bool \<times> redis_reply option \<times> 'c redis \<times> 'w) option" where
  "ExecuteCommandV H cmd = execute H (hi_command H cmd)"

definition ExecuteCommandArgv :: "('c, 'w) hiredis \<Rightarrow> (byte list list \<Rightarrow> byte list) \<Rightarrow> byte list list \<Rightarrow> 'c redis \<Rightarrow> 'w \<Rightarrow> (bool \<times> redis_reply option \<times> 'c redis \<times> 'w) option" where
  "ExecuteCommandArgv H argv_format args = execute H (hi_command H (argv_format args))"

definition Ping :: "('c, 'w) hiredis \<Rightarrow> 'c redis \<Rightarrow> 'w \<Rightarrow> (bool \<times> 'c redis \<times> 'w) option" where
  "Ping H r w = map_option (\<lambda>(ok, _, r1, w1). (ok, r1, w1)) (ExecuteCommandV H (bytes ''PING'') r w)"

definition GetReplyInPipeline :: "('c, 'w) hiredis \<Rightarrow> 'c redis \<Rightarrow> 'w \<Rightarrow> (redis_reply option \<times> 'c redis \<times> 'w) option" where
  "GetReplyInPipeline H r w = do {
     (ok, reconnected, r1, w1) \<leftarrow> Ensure H r w;
     (if \<not> ok \<or> reconnected \<or> rd_pending r1 \<le> 0 then Some (None, r1, w1)
      else send (hi_get_reply H) (r1\<lparr> rd_pending := rd_pending r1 - 1 \<rparr>) w1) }"

definition GetReply :: "('c, 'w) hiredis \<Rightarrow> 'c redis \<Rightarrow> 'w \<Rightarrow> (redis_reply option \<times> 'c redis \<times> 'w) option" where
  "GetReply H r w = do {
     (ok, reconnected, r1, w1) \<leftarrow> Ensure H r w;
     (if \<not> ok \<or> reconnected then Some (None, r1, w1) else send (hi_get_reply H) r1 w1) }"

text \<open>The counter of the pipeline is an \<open>int\<close>.  \<open>again\<close> is the second attempt.\<close>

definition append_command :: "('c, 'w) hiredis \<Rightarrow> ('c \<Rightarrow> 'w \<Rightarrow> bool \<times> 'c \<times> 'w) \<Rightarrow> ('c redis \<Rightarrow> 'w \<Rightarrow> (bool \<times> 'c redis \<times> 'w) option) \<Rightarrow> 'c redis \<Rightarrow> 'w \<Rightarrow> (bool \<times> 'c redis \<times> 'w) option" where
  "append_command H f again r w = do {
     (ok, _, r1, w1) \<leftarrow> Ensure H r w;
     (if \<not> ok then Some (False, r1, w1)
      else do {
        (x, r2, w2) \<leftarrow> send f r1 w1;
        (x, r3, w3) \<leftarrow> (if \<not> x then do {
            (ok, r3, w3) \<leftarrow> Redis_ReConnect H r2 w2;
            (if ok then again r3 w3 else Some (False, r3, w3)) }
          else Some (x, r2, w2));
        (if rd_pending r3 + 1 \<ge> 2 ^ 31 then None
         else let r4 = r3\<lparr> rd_pending := rd_pending r3 + 1 \<rparr>
              in if \<not> x then map_option (\<lambda>(_, r5, w5). (False, r5, w5)) (GetReplyInPipeline H r4 w3)
                 else Some (True, r4, w3)) }) }"

text \<open>\<open>ExecuteCommandInPipelineV\<close> passes its \<open>va_list\<close> to \<open>redisAppendCommand\<close> as if it were the arguments, which is
  undefined when the format converts any (\<open>conv\<close>).\<close>

definition ExecuteCommandInPipelineV :: "('c, 'w) hiredis \<Rightarrow> bool \<Rightarrow> byte list \<Rightarrow> 'c redis \<Rightarrow> 'w \<Rightarrow> (bool \<times> 'c redis \<times> 'w) option" where
  "ExecuteCommandInPipelineV H conv cmd =
     append_command H (hi_append H cmd) (\<lambda>r w. if conv then None else send (hi_append H cmd) r w)"

definition ExecuteCommandInPipelineArgv :: "('c, 'w) hiredis \<Rightarrow> (byte list list \<Rightarrow> byte list) \<Rightarrow> byte list list \<Rightarrow> 'c redis \<Rightarrow> 'w \<Rightarrow> (bool \<times> 'c redis \<times> 'w) option" where
  "ExecuteCommandInPipelineArgv H argv_format args =
     append_command H (hi_append H (argv_format args)) (send (hi_append H (argv_format args)))"

subsection \<open>The pool\<close>

record 'c redis_manager =
  rm_host :: "byte list option"
  rm_port :: u32
  rm_max :: int
  rm_pool :: "'c redis pool"

definition RedisManager_new :: "'c redis_manager" where
  "RedisManager_new = \<lparr> rm_host = None, rm_port = 0, rm_max = 0, rm_pool = \<lparr> cp_count = 0, cp_index = 0, cp_conns = [], cp_free = [] \<rparr> \<rparr>"

definition Redis_NewConnection :: "('c, 'w) hiredis \<Rightarrow> byte list option \<Rightarrow> u32 \<Rightarrow> int \<Rightarrow> 'c redis pool \<Rightarrow> 'w \<Rightarrow> (nat option \<times> 'c redis pool \<times> 'w) option" where
  "Redis_NewConnection H host port maxc p w =
     (if int (cp_count p) \<ge> maxc then Some (None, p, w)
      else do {
        (ok, r, w1) \<leftarrow> Redis_Connect H host port Redis_new w;
        (if \<not> ok then Some (None, p, w1)
         else map_option (\<lambda>p1. (Some (cp_count p), p1, w1)) (pool_add (SetPoolIndex (int (cp_count p)) r) p)) })"

definition RM_once :: "('c, 'w) hiredis \<Rightarrow> 'c redis_manager \<Rightarrow> 'w \<Rightarrow> (nat option \<times> 'c redis_manager \<times> 'w) option" where
  "RM_once H m w =
     map_option (\<lambda>(a, p, w1). (a, m\<lparr> rm_pool := p \<rparr>, w1)) (pool_round (Redis_NewConnection H (rm_host m) (rm_port m) (rm_max m)) (rm_pool m) w)"

definition RM_Get :: "('c, 'w) hiredis \<Rightarrow> 'c redis_manager \<Rightarrow> 'w \<Rightarrow> (nat \<times> 'c redis_manager \<times> 'w) option" where
  "RM_Get H = retry (RM_once H)"

definition RM_Put :: "nat \<Rightarrow> 'c redis_manager \<Rightarrow> 'c redis_manager option" where
  "RM_Put i m = map_option (\<lambda>p. m\<lparr> rm_pool := p \<rparr>) (set_free i True (rm_pool m))"

text \<open>\<open>while (initConnections-- > 0)\<close>\<close>

primrec RM_connect_n :: "('c, 'w) hiredis \<Rightarrow> nat \<Rightarrow> 'c redis_manager \<Rightarrow> 'w \<Rightarrow> (bool \<times> 'c redis_manager \<times> 'w) option" where
  "RM_connect_n H 0 m w = Some (True, m, w)"
| "RM_connect_n H (Suc n) m w = do {
     (a, p, w1) \<leftarrow> Redis_NewConnection H (rm_host m) (rm_port m) (rm_max m) (rm_pool m) w;
     (if a = None then Some (False, m\<lparr> rm_pool := p \<rparr>, w1) else RM_connect_n H n (m\<lparr> rm_pool := p \<rparr>) w1) }"

text \<open>\<open>new[]\<close> with a negative size throws.\<close>

definition RM_Init_with :: "('c, 'w) hiredis \<Rightarrow> byte list \<Rightarrow> u32 \<Rightarrow> int \<Rightarrow> int \<Rightarrow> 'c redis_manager \<Rightarrow> 'w \<Rightarrow> (bool \<times> 'c redis_manager \<times> 'w) option" where
  "RM_Init_with H host port maxc initc m w =
     (if rm_host m \<noteq> None then Some (False, m, w)
      else if maxc < 0 then None
      else RM_connect_n H (nat initc) (m\<lparr> rm_host := Some (cstr host), rm_port := port, rm_max := maxc,
             rm_pool := (rm_pool m)\<lparr> cp_conns := replicate (nat maxc) None, cp_free := replicate (nat maxc) False \<rparr> \<rparr>) w)"

text \<open>\<open>Init\<close> ignores the result.\<close>

definition RM_Init :: "('c, 'w) hiredis \<Rightarrow> ('j, 'z) json_api_scheme \<Rightarrow> 'j \<Rightarrow> 'c redis_manager \<Rightarrow> 'w \<Rightarrow> (bool \<times> 'c redis_manager \<times> 'w) option" where
  "RM_Init H J conf m w =
     (case (read_member J conf ''host'' (get_String J), read_member J conf ''port'' (get_Int J),
            read_member J conf ''maxConnections'' (get_Int J), read_member J conf ''initConnections'' (get_Int J)) of
        (Some host, Some port, Some maxc, Some initc) \<Rightarrow>
          map_option (\<lambda>(_, m1, w1). (True, m1, w1)) (RM_Init_with H host (word_of_int port) maxc initc m w)
      | _ \<Rightarrow> Some (False, m, w))"

definition RM_Start :: "'c redis_manager \<Rightarrow> bool \<times> 'c redis_manager" where
  "RM_Start m = (False, m)"

definition RM_Stop :: "'c redis_manager \<Rightarrow> bool \<times> 'c redis_manager" where
  "RM_Stop m = (False, m)"

text \<open>The destructor closes what the slots hold.\<close>

definition RedisManager_destroy :: "'c redis_manager \<Rightarrow> 'c list" where
  "RedisManager_destroy m = List.map_filter (\<lambda>s. case s of Some r \<Rightarrow> rd_c r | None \<Rightarrow> None) (cp_conns (rm_pool m))"

end
