(* ===== verification/Redis_Props.thy ===== *)
theory Redis_Props
  imports Redis
begin

text \<open>
  The pipeline of a Redis connection counts the outstanding replies (\<open>pipeline_replies\<close>); the pool hands out every
  connection once (\<open>redis_pool_exclusive\<close>) and waits forever when there is none to hand out (\<open>RM_Get_returns\<close>).
\<close>

subsection \<open>The library\<close>

text \<open>\<open>out c\<close> are the commands whose replies have not been read yet, \<open>ans k x\<close> says that \<open>x\<close> is a reply to \<open>k\<close>.  A failure
  leaves an error in the context; replies come in the order of the commands.\<close>

definition hiredis_ok :: "('c, 'w) hiredis \<Rightarrow> ('c \<Rightarrow> byte list list) \<Rightarrow> (byte list \<Rightarrow> redis_reply \<Rightarrow> bool) \<Rightarrow> bool" where
  "hiredis_ok H out ans \<longleftrightarrow>
     (\<forall>h p w c w'. hi_connect H h p w = (Some c, w') \<longrightarrow> \<not> hi_err H c \<longrightarrow> out c = []) \<and>
     (\<forall>k c w b c' w'. \<not> hi_err H c \<longrightarrow> hi_append H k c w = (b, c', w') \<longrightarrow>
        (if b then \<not> hi_err H c' \<and> out c' = out c @ [k] else hi_err H c')) \<and>
     (\<forall>c w x c' w'. \<not> hi_err H c \<longrightarrow> out c \<noteq> [] \<longrightarrow> hi_get_reply H c w = (x, c', w') \<longrightarrow>
        (case x of Some y \<Rightarrow> \<not> hi_err H c' \<and> out c' = tl (out c) \<and> ans (hd (out c)) y | None \<Rightarrow> hi_err H c'))"

lemma hiredis_okD:
  assumes "hiredis_ok H out ans"
  shows hi_connect_ok: "hi_connect H h p w = (Some c, w') \<Longrightarrow> \<not> hi_err H c \<Longrightarrow> out c = []"
    and hi_append_ok: "hi_append H k c w = (b, c', w') \<Longrightarrow> \<not> hi_err H c \<Longrightarrow> (if b then \<not> hi_err H c' \<and> out c' = out c @ [k] else hi_err H c')"
    and hi_get_reply_ok: "hi_get_reply H c w = (x, c', w') \<Longrightarrow> \<not> hi_err H c \<Longrightarrow> out c \<noteq> [] \<Longrightarrow>
      (case x of Some y \<Rightarrow> \<not> hi_err H c' \<and> out c' = tl (out c) \<and> ans (hd (out c)) y | None \<Rightarrow> hi_err H c')"
  using assms unfolding hiredis_ok_def by blast+

definition healthy :: "('c, 'w) hiredis \<Rightarrow> 'c redis \<Rightarrow> 'c \<Rightarrow> bool" where
  "healthy H r c \<longleftrightarrow> rd_c r = Some c \<and> \<not> hi_err H c"

definition synced :: "('c, 'w) hiredis \<Rightarrow> ('c \<Rightarrow> byte list list) \<Rightarrow> 'c redis \<Rightarrow> bool" where
  "synced H out r \<longleftrightarrow> (\<forall>c. healthy H r c \<longrightarrow> rd_pending r = int (length (out c)))"

subsection \<open>The pipeline\<close>

lemma Redis_Connect_spec:
  assumes "hiredis_ok H out ans" "Redis_Connect H host port r w = Some (ok, r', w')"
  shows "rd_pending r' = 0 \<and> (\<exists>c. rd_c r' = Some c \<and> (ok \<longleftrightarrow> \<not> hi_err H c) \<and> (ok \<longrightarrow> out c = []))"
proof -
  obtain h where h: "host = Some h" using assms(2) by (auto simp: Redis_Connect_def split: Option.bind_splits)
  obtain c0 w0 where k: "hi_connect H (cstr h) port w = (c0, w0)" by (cases "hi_connect H (cstr h) port w")
  then obtain c where c: "c0 = Some c" using assms(2) h by (cases c0) (auto simp: Redis_Connect_def)
  have "ok \<longleftrightarrow> \<not> hi_err H c" "rd_pending r' = 0" "rd_c r' = Some c" using assms(2) h k c by (auto simp: Redis_Connect_def)
  then show ?thesis using hi_connect_ok[OF assms(1) k[unfolded c]] by simp
qed

lemma Ensure_spec:
  assumes "hiredis_ok H out ans" "Ensure H r w = Some (ok, re, r', w')"
  shows "(re \<longrightarrow> rd_pending r' = 0 \<and> (\<exists>c. rd_c r' = Some c \<and> (ok \<longleftrightarrow> \<not> hi_err H c) \<and> (ok \<longrightarrow> out c = [])))
    \<and> (\<not> re \<longrightarrow> ok \<and> r' = r \<and> (\<exists>c. healthy H r c))"
proof (cases "case rd_c r of None \<Rightarrow> True | Some c \<Rightarrow> hi_err H c")
  case True
  then obtain "Redis_ReConnect H r w = Some (ok, r', w')" "re" using assms(2) by (auto simp: Ensure_def)
  then show ?thesis using Redis_Connect_spec[OF assms(1)] by (auto simp: Redis_ReConnect_def)
next
  case False
  then show ?thesis using assms(2) by (auto simp: Ensure_def healthy_def split: option.splits)
qed

lemma GetReplyInPipeline_spec:
  assumes "hiredis_ok H out ans" "synced H out r" "GetReplyInPipeline H r w = Some (x, r', w')"
  shows "synced H out r' \<and> (case x of None \<Rightarrow> True | Some y \<Rightarrow> \<exists>c c'. healthy H r c \<and> out c \<noteq> [] \<and> ans (hd (out c)) y \<and> healthy H r' c' \<and> out c' = tl (out c))"
proof -
  obtain ok re r1 w1 where e: "Ensure H r w = Some (ok, re, r1, w1)"
    using assms(3) by (auto simp: GetReplyInPipeline_def split: Option.bind_splits)
  note E = Ensure_spec[OF assms(1) e]
  show ?thesis
  proof (cases "\<not> ok \<or> re \<or> rd_pending r1 \<le> 0")
    case True
    then have "x = None" "r' = r1" using assms(3) e by (auto simp: GetReplyInPipeline_def)
    then show ?thesis using E assms(2) by (cases re) (auto simp: synced_def healthy_def)
  next
    case False
    then obtain c where c: "healthy H r c" "r1 = r" using E by auto
    let ?r2 = "r\<lparr> rd_pending := rd_pending r - 1 \<rparr>"
    from c(1) obtain c' where g: "hi_get_reply H c w1 = (x, c', w')" and r': "r' = ?r2\<lparr> rd_c := Some c' \<rparr>"
      using assms(3) e False c(2) by (auto simp: GetReplyInPipeline_def send_def healthy_def split: prod.splits)
    have o: "out c \<noteq> []" using False c assms(2) by (auto simp: synced_def)
    have l: "case x of Some y \<Rightarrow> \<not> hi_err H c' \<and> out c' = tl (out c) \<and> ans (hd (out c)) y | None \<Rightarrow> hi_err H c'"
      using hi_get_reply_ok[OF assms(1) g] c(1) o by (simp add: healthy_def)
    have p: "rd_pending r = int (length (out c))" using c(1) assms(2) by (simp add: synced_def)
    show ?thesis
    proof (cases x)
      case None
      then show ?thesis using l r' by (simp add: synced_def healthy_def)
    next
      case (Some y)
      then show ?thesis using l r' c(1) o p by (cases "out c") (auto simp: synced_def healthy_def)
    qed
  qed
qed

text \<open>What an append that reports success has queued: the command behind what was outstanding before, or alone on a new
  connection.\<close>

definition queued :: "('c, 'w) hiredis \<Rightarrow> ('c \<Rightarrow> byte list list) \<Rightarrow> 'c redis \<Rightarrow> byte list list" where
  "queued H out r = (case rd_c r of Some c \<Rightarrow> if hi_err H c then [] else out c | None \<Rightarrow> [])"

lemma queued_healthy: "healthy H r c \<Longrightarrow> queued H out r = out c"
  by (simp add: queued_def healthy_def)

lemma append_spec:
  assumes H: "hiredis_ok H out ans" and "synced H out r" "ExecuteCommandInPipelineV H conv k r w = Some (ok, r', w')"
  shows "synced H out r' \<and> (ok \<longrightarrow> (\<exists>c. healthy H r' c \<and> (out c = queued H out r @ [k] \<or> out c = [k])))"
proof -
  obtain ok1 re r1 w1 where e: "Ensure H r w = Some (ok1, re, r1, w1)"
    using assms(3) by (auto simp: ExecuteCommandInPipelineV_def append_command_def split: Option.bind_splits)
  note E = Ensure_spec[OF H e]
  show ?thesis
  proof (cases ok1)
    case False
    then show ?thesis using assms(2,3) e E by (auto simp: ExecuteCommandInPipelineV_def append_command_def synced_def healthy_def)
  next
    case True
    obtain c where c: "healthy H r1 c" "rd_pending r1 = int (length (out c))" "out c = queued H out r \<or> out c = []"
      using E True assms(2) by (cases re) (auto simp: synced_def healthy_def queued_def)
    obtain b c2 w2 where f: "hi_append H k c w1 = (b, c2, w2)" by (cases "hi_append H k c w1")
    have s: "send (hi_append H k) r1 w1 = Some (b, r1\<lparr> rd_c := Some c2 \<rparr>, w2)" using c(1) f by (simp add: send_def healthy_def)
    note A = hi_append_ok[OF H f]
    show ?thesis
    proof (cases b)
      case True
      have "ok \<and> r' = r1\<lparr> rd_c := Some c2, rd_pending := rd_pending r1 + 1 \<rparr>"
        using assms(3) e \<open>ok1\<close> s True by (auto simp: ExecuteCommandInPipelineV_def append_command_def Let_def split: if_splits)
      then show ?thesis using A True c by (auto simp: synced_def healthy_def)
    next
      case False
      let ?r2 = "r1\<lparr> rd_c := Some c2 \<rparr>"
      obtain ok3 r3 w3 where rc: "Redis_ReConnect H ?r2 w2 = Some (ok3, r3, w3)"
        using assms(3) e \<open>ok1\<close> s False by (auto simp: ExecuteCommandInPipelineV_def append_command_def split: Option.bind_splits)
      obtain c3 where R: "rd_pending r3 = 0" "rd_c r3 = Some c3" "ok3 \<longleftrightarrow> \<not> hi_err H c3" "ok3 \<longrightarrow> out c3 = []"
        using Redis_Connect_spec[OF H rc[unfolded Redis_ReConnect_def]] by auto
      define a where "a = (if ok3 then if conv then None else send (hi_append H k) r3 w3 else Some (False, r3, w3))"
      have "\<exists>x r4 w4. a = Some (x, r4, w4)"
        using assms(3) e \<open>ok1\<close> s False rc by (auto simp: ExecuteCommandInPipelineV_def append_command_def a_def split: Option.bind_splits if_splits)
      then obtain x r4 w4 where a: "a = Some (x, r4, w4)" by blast
      have r4: "rd_pending r4 = 0 \<and> (\<exists>c4. rd_c r4 = Some c4 \<and> (x \<longleftrightarrow> \<not> hi_err H c4) \<and> (x \<longrightarrow> out c4 = [k]))"
      proof (cases ok3)
        case True
        then obtain c4 w4' where g: "hi_append H k c3 w3 = (x, c4, w4')" "r4 = r3\<lparr> rd_c := Some c4 \<rparr>"
          using a R(2) by (auto simp: a_def send_def split: if_splits prod.splits)
        then show ?thesis using hi_append_ok[OF H g(1)] R True by (auto split: if_splits)
      qed (use a R in \<open>auto simp: a_def\<close>)
      let ?r5 = "r4\<lparr> rd_pending := 1 \<rparr>"
      have fin: "(if x then Some (True, ?r5, w4) else map_option (\<lambda>(_, r5, w5). (False, r5, w5)) (GetReplyInPipeline H ?r5 w4)) = Some (ok, r', w')"
        using assms(3) e \<open>ok1\<close> s False rc a r4
        by (auto simp: ExecuteCommandInPipelineV_def append_command_def a_def[symmetric] Let_def split: if_splits)
      have sy: "synced H out ?r5" using r4 by (auto simp: synced_def healthy_def)
      show ?thesis
      proof (cases x)
        case True
        then show ?thesis using fin r4 sy by (auto simp: healthy_def)
      next
        case False
        then obtain y where "GetReplyInPipeline H ?r5 w4 = Some (y, r', w')" "\<not> ok" using fin by auto
        then show ?thesis using GetReplyInPipeline_spec[OF H sy] by blast
      qed
    qed
  qed
qed

primrec append_all :: "('c, 'w) hiredis \<Rightarrow> byte list list \<Rightarrow> 'c redis \<Rightarrow> 'w \<Rightarrow> (bool \<times> 'c redis \<times> 'w) option" where
  "append_all H [] r w = Some (True, r, w)"
| "append_all H (k # ks) r w = do {
     (ok, r1, w1) \<leftarrow> ExecuteCommandInPipelineV H False k r w;
     (oks, r2, w2) \<leftarrow> append_all H ks r1 w1;
     Some (ok \<and> oks, r2, w2) }"

primrec read_n :: "('c, 'w) hiredis \<Rightarrow> nat \<Rightarrow> 'c redis \<Rightarrow> 'w \<Rightarrow> (redis_reply option list \<times> 'c redis \<times> 'w) option" where
  "read_n H 0 r w = Some ([], r, w)"
| "read_n H (Suc n) r w = do {
     (x, r1, w1) \<leftarrow> GetReplyInPipeline H r w;
     (xs, r2, w2) \<leftarrow> read_n H n r1 w1;
     Some (x # xs, r2, w2) }"

lemma append_all_spec:
  assumes "hiredis_ok H out ans"
  shows "synced H out r \<Longrightarrow> append_all H ks r w = Some (True, r', w') \<Longrightarrow>
    synced H out r' \<and> (\<exists>lost. lost @ queued H out r' = queued H out r @ ks)"
proof (induction ks arbitrary: r w)
  case (Cons k ks)
  obtain r1 w1 where a: "ExecuteCommandInPipelineV H False k r w = Some (True, r1, w1)" and b: "append_all H ks r1 w1 = Some (True, r', w')"
    using Cons.prems(2) by (auto split: Option.bind_splits)
  obtain c where c: "synced H out r1" "healthy H r1 c" "out c = queued H out r @ [k] \<or> out c = [k]"
    using append_spec[OF assms Cons.prems(1) a] by auto
  obtain lost where l: "synced H out r'" "lost @ queued H out r' = queued H out r1 @ ks" using Cons.IH[OF c(1) b] by blast
  have "lost @ queued H out r' = queued H out r @ k # ks \<or> (queued H out r @ lost) @ queued H out r' = queued H out r @ k # ks"
    using c(2,3) l(2) by (auto simp: queued_healthy)
  then show ?case using l(1) by blast
qed simp

lemma read_n_spec:
  assumes "hiredis_ok H out ans"
  shows "synced H out r \<Longrightarrow> read_n H n r w = Some (xs, r', w') \<Longrightarrow> None \<notin> set xs \<Longrightarrow>
    n \<le> length (queued H out r) \<and> list_all2 ans (take n (queued H out r)) (map the xs)"
proof (induction n arbitrary: r w xs)
  case (Suc n)
  obtain x r1 w1 ys where g: "GetReplyInPipeline H r w = Some (x, r1, w1)" and b: "read_n H n r1 w1 = Some (ys, r', w')" and xs: "xs = x # ys"
    using Suc.prems(2) by (auto split: Option.bind_splits)
  obtain y where x: "x = Some y" using Suc.prems(3) xs by (cases x) auto
  obtain c c' where c: "synced H out r1" "healthy H r c" "out c \<noteq> []" "ans (hd (out c)) y" "healthy H r1 c'" "out c' = tl (out c)"
    using GetReplyInPipeline_spec[OF assms Suc.prems(1) g] x by auto
  have "n \<le> length (tl (out c)) \<and> list_all2 ans (take n (tl (out c))) (map the ys)"
    using Suc.IH[OF c(1) b] Suc.prems(3) xs c(5,6) by (simp add: queued_healthy)
  then show ?case using c x xs by (cases "out c") (simp_all add: queued_healthy)
qed simp


subsection \<open>An instance\<close>

text \<open>A library whose appends fail as the list says; a status reply has the length of its command.\<close>

definition demo_append :: "byte list \<Rightarrow> bool \<times> byte list list \<Rightarrow> bool list \<Rightarrow> bool \<times> (bool \<times> byte list list) \<times> bool list" where
  "demo_append k c w = (case w of True # w' \<Rightarrow> (False, (True, []), w') | _ \<Rightarrow> (True, (False, snd c @ [k]), tl w))"

definition demo_get_reply :: "bool \<times> byte list list \<Rightarrow> bool list \<Rightarrow> redis_reply option \<times> (bool \<times> byte list list) \<times> bool list" where
  "demo_get_reply c w = (case snd c of
      [] \<Rightarrow> (None, (True, []), w)
    | k # q \<Rightarrow> (Some \<lparr> rr_type = REDIS_REPLY_STATUS, rr_len = length k, rr_elements = 0 \<rparr>, (False, q), w))"

definition demo_hiredis :: "(bool \<times> byte list list, bool list) hiredis" where
  "demo_hiredis = \<lparr> hi_connect = (\<lambda>h p w. (Some (False, []), w)), hi_err = fst,
     hi_command = (\<lambda>k c w. demo_get_reply (False, [k]) w), hi_append = demo_append, hi_get_reply = demo_get_reply \<rparr>"

lemma demo_hiredis_ok: "hiredis_ok demo_hiredis snd (\<lambda>k x. rr_len x = length k)"
proof -
  have ap: "demo_append k c w = (b, c', w') \<Longrightarrow> (if b then \<not> fst c' \<and> snd c' = snd c @ [k] else fst c')" for k c w b c' w'
    by (cases w) (auto simp: demo_append_def split: bool.splits)
  have gr: "demo_get_reply c w = (x, c', w') \<Longrightarrow> snd c \<noteq> [] \<Longrightarrow>
      (case x of Some y \<Rightarrow> \<not> fst c' \<and> snd c' = tl (snd c) \<and> rr_len y = length (hd (snd c)) | None \<Rightarrow> fst c')" for c w x c' w'
    by (cases "snd c") (auto simp: demo_get_reply_def)
  show ?thesis unfolding hiredis_ok_def
  proof (intro conjI allI impI)
    show "snd c = []" if "hi_connect demo_hiredis h p w = (Some c, w')" for h p w c w' using that by (auto simp: demo_hiredis_def)
    show "if b then \<not> hi_err demo_hiredis c' \<and> snd c' = snd c @ [k] else hi_err demo_hiredis c'"
      if "hi_append demo_hiredis k c w = (b, c', w')" for k c w b c' w' using ap[of k c w b c' w'] that by (simp add: demo_hiredis_def)
    show "case x of Some y \<Rightarrow> \<not> hi_err demo_hiredis c' \<and> snd c' = tl (snd c) \<and> rr_len y = length (hd (snd c)) | None \<Rightarrow> hi_err demo_hiredis c'"
      if "hi_get_reply demo_hiredis c w = (x, c', w')" "snd c \<noteq> []" for c w x c' w' using gr[of c w x c' w'] that by (cases x) (simp_all add: demo_hiredis_def)
  qed
qed

definition demo_connection :: "(bool \<times> byte list list) redis" where
  "demo_connection = \<lparr> rd_c = Some (False, []), rd_pool_index = 0, rd_host = Some [0x6C], rd_port = 6379, rd_pending = 0 \<rparr>"

lemmas demo_redis_defs = demo_connection_def demo_hiredis_def demo_append_def demo_get_reply_def ExecuteCommandInPipelineV_def append_command_def
  GetReplyInPipeline_def Ensure_def send_def Redis_ReConnect_def Redis_Connect_def Redis_Close_def


text \<open>The connection is lost at the second command: both appends report success, but the first reply is that of the second
  command, and there is no other.\<close>

lemma pipeline_silent_reconnect:
  "append_all demo_hiredis [[1, 2], [3]] demo_connection [False, True] = Some (True, r1, w1) \<Longrightarrow>
   read_n demo_hiredis 2 r1 w1 = Some (xs, r2, w2) \<Longrightarrow> map (map_option rr_len) xs = [Some 1, None]"
  by (simp add: demo_redis_defs eval_nat_numeral cstr_def) (auto simp: eval_nat_numeral demo_redis_defs)

subsection \<open>The pool\<close>

lemma Redis_NewConnection_fresh: "fresh_ok (Redis_NewConnection H host port maxc)"
  unfolding fresh_ok_def by (auto simp: Redis_NewConnection_def split: if_splits Option.bind_splits)

interpretation redis_pool: slot_pool rm_pool "RM_once H" RM_Put for H
proof
  show "pool_inv N (rm_pool m) \<Longrightarrow> RM_once H m w = Some (b, m', w') \<Longrightarrow> pool_inv N (rm_pool m')
      \<and> (case b of Some i \<Rightarrow> i \<notin> busy (rm_pool m) \<and> busy (rm_pool m') = insert i (busy (rm_pool m)) | None \<Rightarrow> busy (rm_pool m') = busy (rm_pool m))"
    for N m w b m' w'
    using pool_round_spec[OF Redis_NewConnection_fresh, of N "rm_pool m" H "rm_host m" "rm_port m" "rm_max m" w b "rm_pool m'" w']
    by (auto simp: RM_once_def)
  show "pool_inv N (rm_pool m) \<Longrightarrow> i \<in> busy (rm_pool m) \<Longrightarrow>
      \<exists>m'. RM_Put i m = Some m' \<and> pool_inv N (rm_pool m') \<and> busy (rm_pool m') = busy (rm_pool m) - {i}" for N m i
    by (auto simp: RM_Put_def set_free_def pool_inv_def busy_def nth_list_update)
qed

lemma RM_connect_n_pool:
  "RM_connect_n H n m w = Some (ok, m', w') \<Longrightarrow> pool_inv N (rm_pool m) \<Longrightarrow> busy (rm_pool m) = {} \<Longrightarrow>
     pool_inv N (rm_pool m') \<and> busy (rm_pool m') = {} \<and> rm_max m' = rm_max m"
proof (induction n arbitrary: m w)
  case (Suc n)
  obtain a p w1 where c: "Redis_NewConnection H (rm_host m) (rm_port m) (rm_max m) (rm_pool m) w = Some (a, p, w1)"
    using Suc.prems(1) by (auto split: Option.bind_splits)
  show ?case
  proof (cases a)
    case None
    then have "p = rm_pool m" using c Redis_NewConnection_fresh unfolding fresh_ok_def by fastforce
    then show ?thesis using Suc.prems c None by auto
  next
    case (Some j)
    then obtain r where "pool_add r (rm_pool m) = Some p" using c Redis_NewConnection_fresh unfolding fresh_ok_def by fastforce
    from pool_add_spec[OF this Suc.prems(2)] have "pool_inv N p" "busy p = {}" using Suc.prems(3) by auto
    then show ?thesis using Suc.IH[of "m\<lparr> rm_pool := p \<rparr>" w1] Suc.prems(1) c Some by auto
  qed
qed simp

lemma RM_Init_with_pool:
  assumes "RM_Init_with H host port maxc initc RedisManager_new w = Some (ok, m, w')"
  shows "pool_inv (nat maxc) (rm_pool m) \<and> busy (rm_pool m) = {} \<and> rm_max m = maxc \<and> 0 \<le> maxc"
  using assms RM_connect_n_pool[of H "nat initc" _ w ok m w' "nat maxc"]
  by (auto simp: RM_Init_with_def RedisManager_new_def pool_inv_def busy_def split: if_splits)


definition demo_manager :: "(bool \<times> byte list list) redis_manager" where
  "demo_manager = \<lparr> rm_host = Some [0x6C], rm_port = 6379, rm_max = 2, rm_pool =
     \<lparr> cp_count = 1, cp_index = 0, cp_conns = [Some (demo_connection\<lparr> rd_pool_index := 0 \<rparr>), None], cp_free = [True, False] \<rparr> \<rparr>"

lemma demo_manager_init: "RM_Init_with demo_hiredis [0x6C] 6379 2 1 RedisManager_new [] = Some (True, demo_manager, [])"
  by code_simp


text \<open>C1: \<open>Get\<close> returns a free connection when there is one; when all \<open>maxConnections\<close> are taken it calls itself for ever.\<close>

theorem RM_Get_returns:
  assumes "pool_inv N (rm_pool m)" "rm_max m = int N"
  shows "(i < cp_count (rm_pool m) \<longrightarrow> cp_free (rm_pool m) ! i \<longrightarrow> - 1 \<le> sint (cp_index (rm_pool m)) \<longrightarrow>
        sint (cp_index (rm_pool m)) + int (cp_count (rm_pool m)) < 2 ^ 63 \<longrightarrow>
        (\<exists>j m'. RM_Get H m w = Some (j, m', w) \<and> cp_free (rm_pool m) ! j))
    \<and> (cp_count (rm_pool m) = N \<longrightarrow> busy (rm_pool m) = {..<N} \<longrightarrow> RM_Get H m w = None)"
proof (intro conjI impI)
  assume f: "i < cp_count (rm_pool m)" "cp_free (rm_pool m) ! i" "- 1 \<le> sint (cp_index (rm_pool m))"
    "sint (cp_index (rm_pool m)) + int (cp_count (rm_pool m)) < 2 ^ 63"
  obtain j p where j: "pool_scan (cp_count (rm_pool m)) (rm_pool m) = Some (Some j, p)" using pool_scan_free[OF assms(1) f(3,4,1,2)] by blast
  have h: "j < cp_count (rm_pool m)" "cp_free (rm_pool m) ! j" using pool_scan_hit[OF j] by auto
  have "cp_conns p ! j \<noteq> None" using pool_scan_frame[OF j] h(1) assms(1) by (simp add: pool_inv_def)
  then have "RM_once H m w = Some (Some j, m\<lparr> rm_pool := p \<rparr>, w)" using j by (simp add: RM_once_def pool_round_def)
  then show "\<exists>j m'. RM_Get H m w = Some (j, m', w) \<and> cp_free (rm_pool m) ! j" using h(2) by (auto simp: RM_Get_def dest: retry_hit)
next
  assume "cp_count (rm_pool m) = N" "busy (rm_pool m) = {..<N}"
  then have S: "pool_inv N (rm_pool m) \<and> rm_max m = int N \<and> cp_count (rm_pool m) = N \<and> busy (rm_pool m) = {..<N}" using assms by simp
  show "RM_Get H m w = None" unfolding RM_Get_def
  proof (rule retry_never[where S = "\<lambda>m w. pool_inv N (rm_pool m) \<and> rm_max m = int N \<and> cp_count (rm_pool m) = N \<and> busy (rm_pool m) = {..<N}", OF _ S])
    fix m :: "'a redis_manager" and w :: 'b
    assume m: "pool_inv N (rm_pool m) \<and> rm_max m = int N \<and> cp_count (rm_pool m) = N \<and> busy (rm_pool m) = {..<N}"
    show "RM_once H m w = None \<or> (\<exists>m' w'. RM_once H m w = Some (None, m', w') \<and>
        pool_inv N (rm_pool m') \<and> rm_max m' = int N \<and> cp_count (rm_pool m') = N \<and> busy (rm_pool m') = {..<N})"
    proof (cases "pool_scan N (rm_pool m)")
      case None
      then show ?thesis using m by (simp add: RM_once_def pool_round_def)
    next
      case (Some ap)
      obtain a p where ap: "ap = (a, p)" by (cases ap)
      note s = Some[unfolded ap]
      have "a = None" using pool_scan_busy[OF s] m by (cases a) auto
      then show ?thesis using s m pool_scan_frame[OF s] pool_scan_inv[OF s _ conjunct1[OF m]] pool_scan_busy[OF s]
        by (simp add: RM_once_def pool_round_def Redis_NewConnection_def)
    qed
  qed
qed

lemma RM_Get_returns_witness:
  "(\<exists>j m'. RM_Get demo_hiredis demo_manager [] = Some (j, m', []) \<and> cp_free (rm_pool demo_manager) ! j)"
  using RM_Get_returns[of 2 demo_manager 0 demo_hiredis "[]"] by (simp add: pool_inv_def demo_manager_def)

subsection \<open>Two threads in Get\<close>

text \<open>The steps of \<open>Get\<close> between which another thread can run: the flag is read in one and written in the next.\<close>

datatype get_pc = Looking nat | Claiming nat | Holding nat | Nothing

definition get_step :: "'c pool \<Rightarrow> get_pc \<Rightarrow> ('c pool \<times> get_pc) option" where
  "get_step p pc =
     (case pc of
        Looking 0 \<Rightarrow> Some (p, Nothing)
      | Looking (Suc n) \<Rightarrow>
          (let index = cp_index p + 1; i = sint index smod int (cp_count p)
           in if i < 0 \<or> nat i \<ge> length (cp_free p) then None
              else Some (p\<lparr> cp_index := index \<rparr>, if cp_free p ! nat i then Claiming (nat i) else Looking n))
      | Claiming i \<Rightarrow> Some (p\<lparr> cp_free := (cp_free p)[i := False] \<rparr>, Holding i)
      | Holding i \<Rightarrow> Some (p, pc)
      | Nothing \<Rightarrow> Some (p, pc))"

fun get_schedule :: "bool list \<Rightarrow> 'c pool \<times> get_pc \<times> get_pc \<Rightarrow> ('c pool \<times> get_pc \<times> get_pc) option" where
  "get_schedule [] s = Some s"
| "get_schedule (False # ts) (p, a, b) = do { (p1, a1) \<leftarrow> get_step p a; get_schedule ts (p1, a1, b) }"
| "get_schedule (True # ts) (p, a, b) = do { (p1, b1) \<leftarrow> get_step p b; get_schedule ts (p1, a, b1) }"

text \<open>A thread that runs alone does what the search of \<open>Get\<close> does.\<close>

lemma get_alone:
  "pool_scan n p = Some (r, p') \<Longrightarrow> \<exists>k. get_schedule (replicate k False) (p, Looking n, b) =
     Some (p', (case r of Some i \<Rightarrow> Holding i | None \<Rightarrow> Nothing), b)"
proof (induction n arbitrary: p)
  case 0
  then show ?case by (intro exI[of _ 1]) (simp add: get_step_def)
next
  case (Suc n)
  from Suc.prems show ?case
  proof (cases rule: pool_scan_Suc_cases)
    case (hit i)
    then have "get_schedule (replicate 2 False) (p, Looking (Suc n), b) = Some (p', Holding i, b)"
      by (simp add: numeral_2_eq_2 get_step_def Let_def flip: hit(2))
    then show ?thesis using hit(1) by (metis option.simps(5))
  next
    case again
    obtain k where k: "get_schedule (replicate k False) (p\<lparr> cp_index := cp_index p + 1 \<rparr>, Looking n, b) =
        Some (p', (case r of Some i \<Rightarrow> Holding i | None \<Rightarrow> Nothing), b)" using Suc.IH[OF again] by blast
    show ?thesis
    proof (cases "get_step p (Looking (Suc n)) = Some (p\<lparr> cp_index := cp_index p + 1 \<rparr>, Looking n)")
      case True
      then show ?thesis using k by (intro exI[of _ "Suc k"]) simp
    next
      case False
      then show ?thesis using Suc.prems by (auto simp: get_step_def Let_def split: if_splits intro!: exI[of _ 2] simp: numeral_2_eq_2)
    qed
  qed
qed

text \<open>Two threads that read the flag before either writes it get the same connection.\<close>

lemma get_race:
  assumes "cp_count p = 1" "cp_free p = [True]"
  shows "\<exists>p'. get_schedule [False, True, False, True] (p, Looking 1, Looking 1) = Some (p', Holding 0, Holding 0)"
  using assms by (simp add: get_step_def Let_def signed_modulo_int_def)

end
