(* ===== verification/Mysql.thy ===== *)
theory Mysql
  imports Json Conn_Pool
begin

text \<open>
  The client of MySQL: fields and results (\<open>mysql_rst.h\<close>, \<open>mysql_rst.cpp\<close>), a connection (\<open>mysql_connection.cpp\<close>), the pool
  of a database (\<open>mysql_database.cpp\<close>) and the three databases of the configuration (\<open>database_manager.cpp\<close>).  libmysql
  is the parameter \<open>M\<close>, on connections \<open>'c\<close> and the state \<open>'w\<close> of what is behind them.
\<close>

subsection \<open>Fields\<close>

text \<open>The value of a field is null or a C string; \<open>atoll\<close> of a number out of range is undefined.\<close>

definition c_atoll :: "byte list \<Rightarrow> int option" where
  "c_atoll str = (case scan_dec (length str) str of
     None \<Rightarrow> Some 0
   | Some v \<Rightarrow> (if - (2 ^ 63) \<le> v \<and> v < 2 ^ 63 then Some v else None))"

definition Field_GetString :: "byte list option \<Rightarrow> byte list" where
  "Field_GetString v = (case v of None \<Rightarrow> [] | Some s \<Rightarrow> if cstr s = bytes ''(null)'' then [] else cstr s)"

definition Field_GetBool :: "byte list option \<Rightarrow> bool option" where
  "Field_GetBool v = (case v of None \<Rightarrow> Some False | Some s \<Rightarrow> map_option (\<lambda>i. i > 0) (c_atoi (cstr s)))"

text \<open>\<open>GetUInt8\<close> to \<open>GetInt64\<close>: one conversion for each width.\<close>

definition Field_GetInt :: "byte list option \<Rightarrow> 'a::len word option" where
  "Field_GetInt v = (case v of None \<Rightarrow> Some 0 | Some s \<Rightarrow> map_option word_of_int (c_atoll (cstr s)))"

text \<open>A text without a number leaves the variable uninitialised.\<close>

definition Field_GetUInt64 :: "byte list option \<Rightarrow> 64 word option" where
  "Field_GetUInt64 v = (case v of None \<Rightarrow> Some 0 | Some s \<Rightarrow>
     (case scan_dec 20 (cstr s) of None \<Rightarrow> None | Some i \<Rightarrow> if \<bar>i\<bar> < 2 ^ 64 then Some (word_of_int i) else None))"

subsection \<open>Results\<close>

type_synonym my_row = "byte list option list"

record my_rst =
  rs_field_count :: u32
  rs_row_count :: u32
  rs_current :: "my_row option"
  rs_names :: "byte list list option"
  rs_result :: "my_row list option"   \<comment> \<open>the rows that have not been fetched\<close>

definition MysqlRst_new :: "my_row list option \<Rightarrow> byte list list \<Rightarrow> u32 \<Rightarrow> u32 \<Rightarrow> my_rst" where
  "MysqlRst_new res names fc rc =
     (if res = None \<or> fc = 0
      then \<lparr> rs_field_count = fc, rs_row_count = 0, rs_current = None, rs_names = None, rs_result = res \<rparr>
      else \<lparr> rs_field_count = fc, rs_row_count = rc, rs_current = Some (replicate (unat fc) None), rs_names = Some names, rs_result = res \<rparr>)"

definition NextRow :: "my_rst \<Rightarrow> (bool \<times> my_rst) option" where
  "NextRow rs =
     (if rs_row_count rs \<le> 0 then Some (False, rs)
      else case rs_result rs of
        None \<Rightarrow> None
      | Some [] \<Rightarrow> Some (False, rs)
      | Some (row # rows) \<Rightarrow>
          (if rs_current rs = None \<or> length row < unat (rs_field_count rs) then None
           else Some (True, rs\<lparr> rs_result := Some rows, rs_current := Some (take (unat (rs_field_count rs)) row) \<rparr>)))"

definition GetFieldName :: "u32 \<Rightarrow> my_rst \<Rightarrow> byte list option" where
  "GetFieldName iCol rs =
     (if iCol > 2 ^ 31 \<or> iCol \<ge> rs_field_count rs then Some (bytes ''Index Error!'')
      else do { names \<leftarrow> rs_names rs; (if unat iCol < length names then Some (cstr (names ! unat iCol)) else None) })"

text \<open>The assert is compiled away.\<close>

definition Rst_at :: "u32 \<Rightarrow> my_rst \<Rightarrow> byte list option option" where
  "Rst_at iCol rs = do { row \<leftarrow> rs_current rs; (if unat iCol < length row then Some (row ! unat iCol) else None) }"

subsection \<open>The owning pointer\<close>

text \<open>\<open>MysqlRstPtr\<close>: copies and assignments take the result from the other pointer.  The state has the pointers that
  exist and the results that have not been deleted; deleting one again is undefined.\<close>

record 'v ptr_state =
  pt_vars :: "'v \<Rightarrow> nat option option"
  pt_live :: "nat set"

definition Ptr_new :: "'v \<Rightarrow> nat option \<Rightarrow> 'v ptr_state \<Rightarrow> 'v ptr_state" where
  "Ptr_new v r s = s\<lparr> pt_vars := (pt_vars s)(v \<mapsto> r), pt_live := pt_live s \<union> set_option r \<rparr>"

definition Ptr_Delete :: "'v \<Rightarrow> 'v ptr_state \<Rightarrow> 'v ptr_state option" where
  "Ptr_Delete v s = do {
     r \<leftarrow> pt_vars s v;
     (case r of
        None \<Rightarrow> Some s
      | Some i \<Rightarrow> if i \<in> pt_live s then Some (s\<lparr> pt_vars := (pt_vars s)(v \<mapsto> None), pt_live := pt_live s - {i} \<rparr>) else None) }"

definition Ptr_assign :: "'v \<Rightarrow> 'v \<Rightarrow> 'v ptr_state \<Rightarrow> 'v ptr_state option" where
  "Ptr_assign v u s = do {
     s1 \<leftarrow> Ptr_Delete v s;
     r \<leftarrow> pt_vars s1 u;
     Some (s1\<lparr> pt_vars := (pt_vars s1)(v \<mapsto> r, u \<mapsto> None) \<rparr>) }"

definition Ptr_copy :: "'v \<Rightarrow> 'v \<Rightarrow> 'v ptr_state \<Rightarrow> 'v ptr_state option" where
  "Ptr_copy v u s = Ptr_assign v u (Ptr_new v None s)"

definition Ptr_destroy :: "'v \<Rightarrow> 'v ptr_state \<Rightarrow> 'v ptr_state option" where
  "Ptr_destroy v s = map_option (\<lambda>s1. s1\<lparr> pt_vars := (pt_vars s1)(v := None) \<rparr>) (Ptr_Delete v s)"

subsection \<open>A connection\<close>

record my_login =
  ml_host :: "byte list"
  ml_port :: u32
  ml_user :: "byte list"
  ml_password :: "byte list"
  ml_database :: "byte list"

record ('c, 'w) mysql_api =
  my_init :: "'w \<Rightarrow> bool"
  my_real_connect :: "my_login \<Rightarrow> 'w \<Rightarrow> 'c option \<times> 'w"
  my_ping :: "'c \<Rightarrow> 'w \<Rightarrow> bool \<times> 'c \<times> 'w"
  my_query :: "byte list \<Rightarrow> 'c \<Rightarrow> 'w \<Rightarrow> int \<times> 'c \<times> 'w"
  my_store_result :: "'c \<Rightarrow> 'w \<Rightarrow> my_row list option \<times> 'c \<times> 'w"
  my_affected_rows :: "'c \<Rightarrow> 64 word"
  my_field_count :: "'c \<Rightarrow> u32"
  my_field_names :: "'c \<Rightarrow> byte list list"
  my_next_result :: "'c \<Rightarrow> 'w \<Rightarrow> int \<times> 'c \<times> 'w"
  my_insert_id :: "'c \<Rightarrow> 64 word"
  my_select_db :: "byte list \<Rightarrow> 'c \<Rightarrow> 'w \<Rightarrow> int \<times> 'c \<times> 'w"

record 'c my_conn =
  mc_conn :: "'c option"
  mc_pool_index :: int
  mc_login :: "my_login option"

definition MySqlConnection_new :: "'c my_conn" where
  "MySqlConnection_new = \<lparr> mc_conn = None, mc_pool_index = - 1, mc_login = None \<rparr>"

definition MC_SetPoolIndex :: "int \<Rightarrow> 'c my_conn \<Rightarrow> 'c my_conn" where
  "MC_SetPoolIndex index mc = mc\<lparr> mc_pool_index := index \<rparr>"

text \<open>The options only change how the library works.\<close>

definition MC_Connect :: "('c, 'w) mysql_api \<Rightarrow> my_login \<Rightarrow> 'c my_conn \<Rightarrow> 'w \<Rightarrow> bool \<times> 'c my_conn \<times> 'w" where
  "MC_Connect M login mc w =
     (let mc1 = mc\<lparr> mc_login := Some login \<rparr>
      in if \<not> my_init M w then (False, mc1, w)
         else case my_real_connect M login w of (c, w1) \<Rightarrow> (c \<noteq> None, mc1\<lparr> mc_conn := c \<rparr>, w1))"

definition MC_ReConnect :: "('c, 'w) mysql_api \<Rightarrow> 'c my_conn \<Rightarrow> 'w \<Rightarrow> (bool \<times> 'c my_conn \<times> 'w) option" where
  "MC_ReConnect M mc w = do { login \<leftarrow> mc_login mc; Some (MC_Connect M login mc w) }"

definition MC_Close :: "'c my_conn \<Rightarrow> 'c my_conn" where
  "MC_Close mc = mc\<lparr> mc_conn := None \<rparr>"

definition CheckValid :: "('c, 'w) mysql_api \<Rightarrow> 'c my_conn \<Rightarrow> 'w \<Rightarrow> bool \<times> 'c my_conn \<times> 'w" where
  "CheckValid M mc w =
     (case mc_conn mc of None \<Rightarrow> (False, mc, w)
      | Some c \<Rightarrow> (case my_ping M c w of (ok, c1, w1) \<Rightarrow> (ok, mc\<lparr> mc_conn := Some c1 \<rparr>, w1)))"

definition SelectDatabase :: "('c, 'w) mysql_api \<Rightarrow> byte list \<Rightarrow> 'c my_conn \<Rightarrow> 'w \<Rightarrow> bool \<times> 'c my_conn \<times> 'w" where
  "SelectDatabase M name mc w =
     (case mc_conn mc of None \<Rightarrow> (False, mc, w)
      | Some c \<Rightarrow> (case my_select_db M name c w of (r, c1, w1) \<Rightarrow> (r = 0, mc\<lparr> mc_conn := Some c1 \<rparr>, w1)))"

text \<open>\<open>_Query\<close>: a query that fails is sent once more, on a new connection if the old one does not answer.\<close>

definition run_query :: "('c, 'w) mysql_api \<Rightarrow> byte list \<Rightarrow> 'c my_conn \<Rightarrow> 'w \<Rightarrow> (int \<times> 'c my_conn \<times> 'w) option" where
  "run_query M sql mc w = do { c \<leftarrow> mc_conn mc; (case my_query M sql c w of (r, c1, w1) \<Rightarrow> Some (r, mc\<lparr> mc_conn := Some c1 \<rparr>, w1)) }"

definition MC_Query :: "('c, 'w) mysql_api \<Rightarrow> byte list \<Rightarrow> 'c my_conn \<Rightarrow> 'w \<Rightarrow> (bool \<times> 'c my_conn \<times> 'w) option" where
  "MC_Query M sql mc w =
     (if mc_conn mc = None then Some (False, mc, w)
      else do {
        (result, mc1, w1) \<leftarrow> run_query M sql mc w;
        (if result > 0 then (case CheckValid M mc1 w1 of (alive, mc2, w2) \<Rightarrow> do {
            (ok, mc3, w3) \<leftarrow> (if alive then Some (True, mc2, w2) else MC_ReConnect M (MC_Close mc2) w2);
            (if \<not> ok then Some (False, mc3, w3)
             else do { (result, mc4, w4) \<leftarrow> run_query M sql mc3 w3; Some (result = 0, mc4, w4) }) })
         else Some (result = 0, mc1, w1)) })"

definition MC_Execute :: "('c, 'w) mysql_api \<Rightarrow> byte list \<Rightarrow> 'c my_conn \<Rightarrow> 'w \<Rightarrow> (int \<times> 'c my_conn \<times> 'w) option" where
  "MC_Execute M sql mc w = do {
     (ok, mc1, w1) \<leftarrow> MC_Query M sql mc w;
     (if \<not> ok then Some (- 1, mc1, w1)
      else do { c \<leftarrow> mc_conn mc1; Some (sint (ucast (my_affected_rows M c) :: 32 word), mc1, w1) }) }"

text \<open>The result of a query, its first row fetched.\<close>

definition store_first :: "('c, 'w) mysql_api \<Rightarrow> 'c my_conn \<Rightarrow> 'w \<Rightarrow> (my_rst \<times> 'c my_conn \<times> 'w) option" where
  "store_first M mc w = do {
     c \<leftarrow> mc_conn mc;
     (case my_store_result M c w of (res, c1, w1) \<Rightarrow> do {
        (_, rs) \<leftarrow> NextRow (MysqlRst_new res (my_field_names M c1) (my_field_count M c1) (ucast (my_affected_rows M c1)));
        Some (rs, mc\<lparr> mc_conn := Some c1 \<rparr>, w1) }) }"

definition MC_QueryRst :: "('c, 'w) mysql_api \<Rightarrow> byte list \<Rightarrow> 'c my_conn \<Rightarrow> 'w \<Rightarrow> (my_rst option \<times> 'c my_conn \<times> 'w) option" where
  "MC_QueryRst M sql mc w = do {
     (ok, mc1, w1) \<leftarrow> MC_Query M sql mc w;
     (if \<not> ok then Some (None, mc1, w1)
      else map_option (\<lambda>(rs, mc2, w2). (Some rs, mc2, w2)) (store_first M mc1 w1)) }"

text \<open>The statements made by a format go through an array of 524288 characters; so do escaped texts, unchecked.\<close>

definition QueryFormat :: "('c, 'w) mysql_api \<Rightarrow> byte list \<Rightarrow> 'c my_conn \<Rightarrow> 'w \<Rightarrow> (my_rst option \<times> 'c my_conn \<times> 'w) option" where
  "QueryFormat M text = MC_QueryRst M (take 524287 (cstr text))"

definition ExecuteFormat :: "('c, 'w) mysql_api \<Rightarrow> byte list \<Rightarrow> 'c my_conn \<Rightarrow> 'w \<Rightarrow> (int \<times> 'c my_conn \<times> 'w) option" where
  "ExecuteFormat M text = MC_Execute M (take 524287 (cstr text))"

definition EscapeString :: "('c \<Rightarrow> byte list \<Rightarrow> byte list) \<Rightarrow> byte list \<Rightarrow> 'c my_conn \<Rightarrow> byte list option" where
  "EscapeString escape str mc =
     (case mc_conn mc of None \<Rightarrow> Some []
      | Some c \<Rightarrow> (let e = escape c str in if length e \<ge> 524288 then None else if e = [] then Some (cstr str) else Some (cstr e)))"

text \<open>The other results of a procedure are read and dropped, until the library says that there are no more.\<close>

partial_function (option) drop_results :: "('c, 'w) mysql_api \<Rightarrow> 'c \<Rightarrow> 'w \<Rightarrow> ('c \<times> 'w) option" where
  "drop_results M c w =
     (case my_next_result M c w of (r, c1, w1) \<Rightarrow>
        if r = 0 then (case my_store_result M c1 w1 of (_, c2, w2) \<Rightarrow> drop_results M c2 w2) else Some (c1, w1))"

definition CallProc :: "('c, 'w) mysql_api \<Rightarrow> byte list \<Rightarrow> 'c my_conn \<Rightarrow> 'w \<Rightarrow> (my_rst option \<times> 'c my_conn \<times> 'w) option" where
  "CallProc M sql mc w = do {
     (ok, mc1, w1) \<leftarrow> MC_Query M sql mc w;
     (if \<not> ok then Some (None, mc1, w1)
      else do {
        (rs, mc2, w2) \<leftarrow> store_first M mc1 w1;
        c \<leftarrow> mc_conn mc2;
        (c1, w3) \<leftarrow> drop_results M c w2;
        Some (Some rs, mc2\<lparr> mc_conn := Some c1 \<rparr>, w3) }) }"

definition GetInsertID :: "('c, 'w) mysql_api \<Rightarrow> 'c my_conn \<Rightarrow> u32 option" where
  "GetInsertID M mc = do { c \<leftarrow> mc_conn mc; Some (ucast (my_insert_id M c)) }"

definition run_text :: "('c, 'w) mysql_api \<Rightarrow> string \<Rightarrow> 'c my_conn \<Rightarrow> 'w \<Rightarrow> ('c my_conn \<times> 'w) option" where
  "run_text M t mc w = map_option (\<lambda>(_, mc1, w1). (mc1, w1)) (MC_Query M (bytes t) mc w)"

definition TransactionBegin :: "('c, 'w) mysql_api \<Rightarrow> 'c my_conn \<Rightarrow> 'w \<Rightarrow> ('c my_conn \<times> 'w) option" where
  "TransactionBegin M = run_text M ''START TRANSACTION''"

definition Commit :: "('c, 'w) mysql_api \<Rightarrow> 'c my_conn \<Rightarrow> 'w \<Rightarrow> ('c my_conn \<times> 'w) option" where
  "Commit M = run_text M ''COMMIT''"

definition Rollback :: "('c, 'w) mysql_api \<Rightarrow> 'c my_conn \<Rightarrow> 'w \<Rightarrow> ('c my_conn \<times> 'w) option" where
  "Rollback M = run_text M ''ROLLBACK''"

text \<open>\<open>snprintf\<close> into 1024 bytes.  Both report success whatever the server says.\<close>

definition Lock_tables :: "('c, 'w) mysql_api \<Rightarrow> byte list \<Rightarrow> 'c my_conn \<Rightarrow> 'w \<Rightarrow> (bool \<times> 'c my_conn \<times> 'w) option" where
  "Lock_tables M name mc w = do {
     (_, mc1, w1) \<leftarrow> MC_Query M (take 1023 (bytes ''LOCK TABLES '' @ cstr name @ bytes '' WRITE'')) mc w;
     Some (True, mc1, w1) }"

definition Unlock_tables :: "('c, 'w) mysql_api \<Rightarrow> 'c my_conn \<Rightarrow> 'w \<Rightarrow> (bool \<times> 'c my_conn \<times> 'w) option" where
  "Unlock_tables M mc w = do { (_, mc1, w1) \<leftarrow> MC_Query M (bytes ''UNLOCK TABLES '') mc w; Some (True, mc1, w1) }"

subsection \<open>The pool of a database\<close>

text \<open>\<open>port_\<close> is an \<open>int16_t\<close>.\<close>

record 'c my_database =
  md_host :: "byte list"
  md_port :: "16 word"
  md_user :: "byte list"
  md_password :: "byte list"
  md_database :: "byte list"
  md_max :: int
  md_pool :: "'c my_conn pool"

definition MySqlDatabase_new :: "'c my_database" where
  "MySqlDatabase_new = \<lparr> md_host = [], md_port = 0, md_user = [], md_password = [], md_database = [], md_max = 0,
     md_pool = \<lparr> cp_count = 0, cp_index = - 1, cp_conns = [], cp_free = [] \<rparr> \<rparr>"

definition md_login :: "('c, 'z) my_database_scheme \<Rightarrow> my_login" where
  "md_login d = \<lparr> ml_host = md_host d, ml_port = scast (md_port d), ml_user = md_user d, ml_password = md_password d, ml_database = md_database d \<rparr>"

definition MD_NewConnection :: "('c, 'w) mysql_api \<Rightarrow> my_login \<Rightarrow> int \<Rightarrow> 'c my_conn pool \<Rightarrow> 'w \<Rightarrow> (nat option \<times> 'c my_conn pool \<times> 'w) option" where
  "MD_NewConnection M login maxc p w =
     (if int (cp_count p) \<ge> maxc then Some (None, p, w)
      else case MC_Connect M login MySqlConnection_new w of (ok, mc, w1) \<Rightarrow>
        if \<not> ok then Some (None, p, w1)
        else map_option (\<lambda>p1. (Some (cp_count p), p1, w1)) (pool_add (MC_SetPoolIndex (int (cp_count p)) mc) p))"

primrec MD_connect_n :: "('c, 'w) mysql_api \<Rightarrow> nat \<Rightarrow> 'c my_database \<Rightarrow> 'w \<Rightarrow> (bool \<times> 'c my_database \<times> 'w) option" where
  "MD_connect_n M 0 d w = Some (True, d, w)"
| "MD_connect_n M (Suc n) d w = do {
     (a, p, w1) \<leftarrow> MD_NewConnection M (md_login d) (md_max d) (md_pool d) w;
     (if a = None then Some (False, d\<lparr> md_pool := p \<rparr>, w1) else MD_connect_n M n (d\<lparr> md_pool := p \<rparr>) w1) }"

text \<open>The counts become \<open>int32_t\<close>; \<open>new[]\<close> with a negative size throws.\<close>

definition MD_Connect :: "('c, 'w) mysql_api \<Rightarrow> my_login \<Rightarrow> u32 \<Rightarrow> u32 \<Rightarrow> 'c my_database \<Rightarrow> 'w \<Rightarrow> (bool \<times> 'c my_database \<times> 'w) option" where
  "MD_Connect M login connCount connCountMax d w =
     (if sint connCountMax < 0 then None
      else MD_connect_n M (nat (sint connCount))
        (d\<lparr> md_host := ml_host login, md_port := ucast (ml_port login), md_user := ml_user login, md_password := ml_password login,
           md_database := ml_database login, md_max := sint connCountMax,
           md_pool := (md_pool d)\<lparr> cp_conns := replicate (nat (sint connCountMax)) None, cp_free := replicate (nat (sint connCountMax)) False \<rparr> \<rparr>) w)"

definition MD_once :: "('c, 'w) mysql_api \<Rightarrow> 'c my_database \<Rightarrow> 'w \<Rightarrow> (nat option \<times> 'c my_database \<times> 'w) option" where
  "MD_once M d w =
     map_option (\<lambda>(a, p, w1). (a, d\<lparr> md_pool := p \<rparr>, w1)) (pool_round (MD_NewConnection M (md_login d) (md_max d)) (md_pool d) w)"

definition GetConnection :: "('c, 'w) mysql_api \<Rightarrow> 'c my_database \<Rightarrow> 'w \<Rightarrow> (nat \<times> 'c my_database \<times> 'w) option" where
  "GetConnection M = retry (MD_once M)"

definition PutConnection :: "nat \<Rightarrow> 'c my_database \<Rightarrow> 'c my_database option" where
  "PutConnection i d = map_option (\<lambda>p. d\<lparr> md_pool := p \<rparr>) (set_free i True (md_pool d))"

subsection \<open>The databases of the configuration\<close>

record 'c db_manager =
  dm_world :: "'c my_database option"
  dm_account :: "'c my_database option"
  dm_log :: "'c my_database option"

definition DatabaseManager_new :: "'c db_manager" where
  "DatabaseManager_new = \<lparr> dm_world = None, dm_account = None, dm_log = None \<rparr>"

text \<open>The connections closed by the destructors.\<close>

definition MySqlDatabase_destroy :: "'c my_database \<Rightarrow> 'c list" where
  "MySqlDatabase_destroy d = List.map_filter mc_conn (List.map_filter id (cp_conns (md_pool d)))"

definition DatabaseManager_destroy :: "'c db_manager \<Rightarrow> 'c list" where
  "DatabaseManager_destroy m =
     concat (map MySqlDatabase_destroy (List.map_filter id [dm_world m, dm_account m, dm_log m]))"

definition db_login :: "('j, 'z) json_api_scheme \<Rightarrow> 'j \<Rightarrow> string \<Rightarrow> string \<Rightarrow> string \<Rightarrow> string \<Rightarrow> string \<Rightarrow> my_login option" where
  "db_login J conf host port user pw db = do {
     h \<leftarrow> read_member J conf host (get_String J);
     p \<leftarrow> read_member J conf port (get_Int J);
     u \<leftarrow> read_member J conf user (get_String J);
     s \<leftarrow> read_member J conf pw (get_String J);
     d \<leftarrow> read_member J conf db (get_String J);
     Some \<lparr> ml_host = h, ml_port = word_of_int p, ml_user = u, ml_password = s, ml_database = d \<rparr> }"

definition connect_db :: "('c, 'w) mysql_api \<Rightarrow> my_login \<Rightarrow> 'w \<Rightarrow> (bool \<times> 'c my_database \<times> 'w) option" where
  "connect_db M login w = MD_Connect M login 5 50 MySqlDatabase_new w"

definition InitWorldDB :: "('c, 'w) mysql_api \<Rightarrow> ('j, 'z) json_api_scheme \<Rightarrow> 'j \<Rightarrow> 'c db_manager \<Rightarrow> 'w \<Rightarrow> (bool \<times> 'c db_manager \<times> 'w) option" where
  "InitWorldDB M J conf m w =
     (case db_login J conf ''worldDBHost'' ''worldDBPort'' ''worldDBUser'' ''worldDBPassword'' ''worldDB'' of
        None \<Rightarrow> Some (False, m, w)
      | Some login \<Rightarrow> map_option (\<lambda>(ok, d, w1). (ok, m\<lparr> dm_world := Some d \<rparr>, w1)) (connect_db M login w))"

definition InitAccountDB :: "('c, 'w) mysql_api \<Rightarrow> ('j, 'z) json_api_scheme \<Rightarrow> 'j \<Rightarrow> 'c db_manager \<Rightarrow> 'w \<Rightarrow> (bool \<times> 'c db_manager \<times> 'w) option" where
  "InitAccountDB M J conf m w =
     (case db_login J conf ''accountDBHost'' ''accountDBPort'' ''accountDBUser'' ''accountDBPassword'' ''accountDB'' of
        None \<Rightarrow> Some (False, m, w)
      | Some login \<Rightarrow> map_option (\<lambda>(ok, d, w1). (ok, m\<lparr> dm_account := Some d \<rparr>, w1)) (connect_db M login w))"

text \<open>The check of the password is the wrong way round; \<open>GetString\<close> of what is no string is undefined.\<close>

definition InitLogDB :: "('c, 'w) mysql_api \<Rightarrow> ('j, 'z) json_api_scheme \<Rightarrow> 'j \<Rightarrow> 'c db_manager \<Rightarrow> 'w \<Rightarrow> (bool \<times> 'c db_manager \<times> 'w) option" where
  "InitLogDB M J conf m w =
     (if read_member J conf ''logDBHost'' (get_String J) = None \<or> read_member J conf ''logDBPort'' (get_Int J) = None
        \<or> read_member J conf ''logDBUser'' (get_String J) = None
        \<or> js_member J conf (bytes ''logDBPassword'') = None \<or> read_member J conf ''logDBPassword'' (get_String J) \<noteq> None
        \<or> read_member J conf ''logDB'' (get_String J) = None
      then Some (False, m, w)
      else case db_login J conf ''logDBHost'' ''logDBPort'' ''logDBUser'' ''logDBPassword'' ''logDB'' of
        None \<Rightarrow> None
      | Some login \<Rightarrow> map_option (\<lambda>(ok, d, w1). (ok, m\<lparr> dm_log := Some d \<rparr>, w1)) (connect_db M login w))"

end
