(* ===== verification/Mysql_Props.thy ===== *)
theory Mysql_Props
  imports Mysql
begin

text \<open>
  Results are owned by one pointer at a time (\<open>ptr_ownership\<close>) and give their rows in order (\<open>rows_in_order\<close>); the pool
  hands out every connection once (\<open>mysql_pool_exclusive\<close>); what the code does with failing queries, ports and the
  database of the log.
\<close>

subsection \<open>Fields\<close>

lemma field_int: "- (2 ^ 63) \<le> i \<Longrightarrow> i < 2 ^ 63 \<Longrightarrow> Field_GetInt (Some (show_int i)) = Some (word_of_int i)"
  by (simp add: Field_GetInt_def c_atoll_def scan_show_int cstr_id[OF show_int_no_nul])

lemma field_uint64:
  assumes "n < 2 ^ 64"
  shows "Field_GetUInt64 (Some (decimal n)) = Some (of_nat n)"
proof -
  have "0 \<notin> set (decimal n)" using decimal_digits[of 0 n] by auto
  moreover have "n < 10 ^ 20" using assms by simp
  ultimately show ?thesis using assms by (simp add: Field_GetUInt64_def cstr_id scan_decimal)
qed

subsection \<open>Rows\<close>

primrec fetch_rows :: "nat \<Rightarrow> my_rst \<Rightarrow> (my_row list \<times> my_rst) option" where
  "fetch_rows 0 rs = Some ([], rs)"
| "fetch_rows (Suc n) rs = do {
     row \<leftarrow> rs_current rs;
     (more, rs1) \<leftarrow> NextRow rs;
     (if more then map_option (\<lambda>(rows, rs2). (row # rows, rs2)) (fetch_rows n rs1) else Some ([row], rs1)) }"

lemma fetch_rows_all:
  assumes "rs_row_count rs > 0" "\<forall>r\<in>set rows. length r = unat (rs_field_count rs)"
  shows "rs_current rs = Some row \<Longrightarrow> rs_result rs = Some rows \<Longrightarrow> length rows < n \<Longrightarrow> \<exists>rs'. fetch_rows n rs = Some (row # rows, rs')"
  using assms
proof (induction rows arbitrary: n rs row)
  case Nil
  then obtain m where "n = Suc m" by (cases n) auto
  then show ?case using Nil by (simp add: NextRow_def word_gt_0)
next
  case (Cons r rows)
  then obtain m where n: "n = Suc m" by (cases n) auto
  let ?rs1 = "rs\<lparr> rs_result := Some rows, rs_current := Some r \<rparr>"
  have x: "NextRow rs = Some (True, ?rs1)" using Cons.prems by (simp add: NextRow_def word_gt_0)
  have "\<exists>rs'. fetch_rows m ?rs1 = Some (r # rows, rs')" using Cons.prems n by (intro Cons.IH) simp_all
  then show ?case using x n Cons.prems(1) by auto
qed

text \<open>C1: The loop \<open>do ... while (NextRow())\<close> over the result of a query sees every row once and in order.\<close>

theorem rows_in_order:
  assumes "MC_Query M sql mc w = Some (True, mc1, w1)" "mc_conn mc1 = Some c" "my_store_result M c w1 = (Some (row # rows), c1, w2)"
    and "my_affected_rows M c1 = of_nat (Suc (length rows))" "Suc (length rows) < 2 ^ 32"
    and "\<forall>r\<in>set (row # rows). length r = unat (my_field_count M c1)" "my_field_count M c1 \<noteq> 0"
  shows "\<exists>rs mc2 rs'. MC_QueryRst M sql mc w = Some (Some rs, mc2, w2) \<and> fetch_rows (Suc (length rows)) rs = Some (row # rows, rs')"
proof -
  let ?n = "ucast (my_affected_rows M c1) :: u32"
  let ?fresh = "MysqlRst_new (Some (row # rows)) (my_field_names M c1) (my_field_count M c1) ?n"
  let ?rs = "?fresh\<lparr> rs_result := Some rows, rs_current := Some row \<rparr>"
  have "unat ?n = Suc (length rows)" unfolding assms(4) using assms(5)
    by (simp del: of_nat_Suc add: unsigned_ucast_eq unsigned_of_nat take_bit_nat_eq_self)
  then have n: "?n > 0" by (simp add: word_gt_0) (metis Zero_not_Suc unsigned_0)
  have rs0: "rs_row_count ?fresh = ?n" "rs_result ?fresh = Some (row # rows)" "rs_field_count ?fresh = my_field_count M c1"
    "rs_current ?fresh = Some (replicate (unat (my_field_count M c1)) None)"
    using assms(7) by (simp_all add: MysqlRst_new_def)
  have "length row = unat (my_field_count M c1)" using assms(6) by simp
  then have "NextRow ?fresh = Some (True, ?rs)"
    unfolding NextRow_def rs0 using n by (auto simp: word_gt_0)
  then have q: "MC_QueryRst M sql mc w = Some (Some ?rs, mc1\<lparr> mc_conn := Some c1 \<rparr>, w2)"
    using assms(1-3) by (simp add: MC_QueryRst_def store_first_def)
  have "\<exists>rs'. fetch_rows (Suc (length rows)) ?rs = Some (row # rows, rs')"
    using n assms(6,7) by (intro fetch_rows_all) (simp_all add: MysqlRst_new_def)
  then show ?thesis using q by blast
qed

definition demo_mysql :: "(unit, nat) mysql_api" where
  "demo_mysql = \<lparr> my_init = (\<lambda>w. True), my_real_connect = (\<lambda>l w. (Some (), w)), my_ping = (\<lambda>c w. (True, c, w)),
     my_query = (\<lambda>sql c w. (0, c, w + 1)), my_store_result = (\<lambda>c w. (Some [[Some [0x37]], [None]], c, w)), my_affected_rows = (\<lambda>c. 2),
     my_field_count = (\<lambda>c. 1), my_field_names = (\<lambda>c. [[0x61]]), my_next_result = (\<lambda>c w. (- 1, c, w)), my_insert_id = (\<lambda>c. 7),
     my_select_db = (\<lambda>n c w. (0, c, w)) \<rparr>"

definition demo_my_conn :: "unit my_conn" where
  "demo_my_conn = \<lparr> mc_conn = Some (), mc_pool_index = 0, mc_login = None \<rparr>"

lemma rows_in_order_witness:
  "\<exists>rs mc2 rs'. MC_QueryRst demo_mysql (bytes ''SELECT'') demo_my_conn 0 = Some (Some rs, mc2, 1)
     \<and> fetch_rows 2 rs = Some ([[Some [0x37]], [None]], rs')"
proof -
  have q: "MC_Query demo_mysql (bytes ''SELECT'') demo_my_conn 0 = Some (True, demo_my_conn, 1)" by code_simp
  have s: "my_store_result demo_mysql () 1 = (Some ([Some [0x37]] # [[None]]), (), 1)" by (simp add: demo_mysql_def)
  have c: "mc_conn demo_my_conn = Some ()" by (simp add: demo_my_conn_def)
  have n: "my_affected_rows demo_mysql () = of_nat (Suc (length [[None :: byte list option]]))" "Suc (length [[None :: byte list option]]) < 2 ^ 32"
    "\<forall>r\<in>set ([Some [0x37]] # [[None]]). length r = unat (my_field_count demo_mysql ())" "my_field_count demo_mysql () \<noteq> 0"
    by (simp_all add: demo_mysql_def)
  show ?thesis using rows_in_order[OF q c s n] by (simp only: list.size numeral_2_eq_2) simp
qed

subsection \<open>Ownership\<close>

datatype 'v ptr_op = NewPtr 'v "nat option" | CopyPtr 'v 'v | AssignPtr 'v 'v | DestroyPtr 'v

text \<open>A variable is constructed once before it is used, and a new result is not one that exists.\<close>

fun ptr_valid :: "'v ptr_op \<Rightarrow> 'v ptr_state \<Rightarrow> bool" where
  "ptr_valid (NewPtr v r) s \<longleftrightarrow> pt_vars s v = None \<and> set_option r \<inter> pt_live s = {}"
| "ptr_valid (CopyPtr v u) s \<longleftrightarrow> pt_vars s v = None \<and> pt_vars s u \<noteq> None"
| "ptr_valid (AssignPtr v u) s \<longleftrightarrow> pt_vars s v \<noteq> None \<and> pt_vars s u \<noteq> None"
| "ptr_valid (DestroyPtr v) s \<longleftrightarrow> pt_vars s v \<noteq> None"

fun ptr_step :: "'v ptr_op \<Rightarrow> 'v ptr_state \<Rightarrow> 'v ptr_state option" where
  "ptr_step (NewPtr v r) s = Some (Ptr_new v r s)"
| "ptr_step (CopyPtr v u) s = Ptr_copy v u s"
| "ptr_step (AssignPtr v u) s = Ptr_assign v u s"
| "ptr_step (DestroyPtr v) s = Ptr_destroy v s"

primrec ptr_run :: "'v ptr_op list \<Rightarrow> 'v ptr_state \<Rightarrow> 'v ptr_state option" where
  "ptr_run [] s = Some s"
| "ptr_run (op # ops) s = (if ptr_valid op s then do { s1 \<leftarrow> ptr_step op s; ptr_run ops s1 } else ptr_run ops s)"

definition owners :: "'v ptr_state \<Rightarrow> nat \<Rightarrow> 'v set" where
  "owners s i = {v. pt_vars s v = Some (Some i)}"

definition ptr_inv :: "'v ptr_state \<Rightarrow> bool" where
  "ptr_inv s \<longleftrightarrow> (\<forall>i. (i \<in> pt_live s \<longrightarrow> (\<exists>v. owners s i = {v})) \<and> (i \<notin> pt_live s \<longrightarrow> owners s i = {}))"

lemma ptr_invI:
  assumes "\<And>v i. pt_vars s v = Some (Some i) \<Longrightarrow> i \<in> pt_live s" "\<And>i. i \<in> pt_live s \<Longrightarrow> \<exists>v. pt_vars s v = Some (Some i)"
    "\<And>u v i. pt_vars s u = Some (Some i) \<Longrightarrow> pt_vars s v = Some (Some i) \<Longrightarrow> u = v"
  shows "ptr_inv s"
  unfolding ptr_inv_def owners_def using assms by blast

lemma ptr_invD:
  assumes "ptr_inv s"
  shows "pt_vars s v = Some (Some i) \<Longrightarrow> i \<in> pt_live s" "i \<in> pt_live s \<Longrightarrow> \<exists>v. pt_vars s v = Some (Some i)"
    "pt_vars s u = Some (Some i) \<Longrightarrow> pt_vars s v = Some (Some i) \<Longrightarrow> u = v"
  using assms unfolding ptr_inv_def owners_def by (blast, blast, metis (mono_tags, lifting) mem_Collect_eq singletonD empty_iff)

lemma Ptr_new_inv:
  assumes "ptr_inv s" "pt_vars s v = None" "set_option r \<inter> pt_live s = {}"
  shows "ptr_inv (Ptr_new v r s)"
proof (rule ptr_invI)
  note D = ptr_invD[OF assms(1)]
  show "j \<in> pt_live (Ptr_new v r s)" if "pt_vars (Ptr_new v r s) x = Some (Some j)" for x j
    using that D(1)[of x j] by (auto simp: Ptr_new_def split: if_splits)
  show "\<exists>x. pt_vars (Ptr_new v r s) x = Some (Some j)" if "j \<in> pt_live (Ptr_new v r s)" for j
  proof (cases "j \<in> pt_live s")
    case True
    then obtain x where "pt_vars s x = Some (Some j)" using D(2)[OF True] by blast
    then show ?thesis using assms(2) by (intro exI[of _ x]) (auto simp: Ptr_new_def)
  next
    case False
    then show ?thesis using that by (intro exI[of _ v]) (auto simp: Ptr_new_def)
  qed
  show "x = y" if "pt_vars (Ptr_new v r s) x = Some (Some j)" "pt_vars (Ptr_new v r s) y = Some (Some j)" for x y j
    using that D(1)[of x j] D(1)[of y j] D(3)[of x j y] assms(3) by (auto simp: Ptr_new_def split: if_splits)
qed

lemma Ptr_Delete_inv:
  assumes "ptr_inv s" "pt_vars s v \<noteq> None"
  shows "\<exists>s'. Ptr_Delete v s = Some s' \<and> ptr_inv s' \<and> pt_vars s' = (pt_vars s)(v \<mapsto> None)"
proof -
  obtain r where r: "pt_vars s v = Some r" using assms(2) by auto
  show ?thesis
  proof (cases r)
    case None
    then show ?thesis using r assms(1) by (auto simp: Ptr_Delete_def fun_upd_idem)
  next
    case (Some i)
    let ?s = "s\<lparr> pt_vars := (pt_vars s)(v \<mapsto> None), pt_live := pt_live s - {i} \<rparr>"
    have "ptr_inv ?s"
    proof (rule ptr_invI)
      show "j \<in> pt_live ?s" if "pt_vars ?s u = Some (Some j)" for u j
        using that ptr_invD(1)[OF assms(1), of u j] ptr_invD(3)[OF assms(1), of u j v] r Some by (auto split: if_splits)
      show "\<exists>u. pt_vars ?s u = Some (Some j)" if "j \<in> pt_live ?s" for j
      proof -
        have "j \<in> pt_live s" using that by simp
        from ptr_invD(2)[OF assms(1) this] obtain x where "pt_vars s x = Some (Some j)" by blast
        then show ?thesis using that r Some by (intro exI[of _ x]) auto
      qed
      show "u = u'" if "pt_vars ?s u = Some (Some j)" "pt_vars ?s u' = Some (Some j)" for u u' j
        using that ptr_invD(3)[OF assms(1), of u j u'] by (auto split: if_splits)
    qed
    then show ?thesis using r Some ptr_invD(1)[OF assms(1), of v i] by (auto simp: Ptr_Delete_def)
  qed
qed

lemma Ptr_assign_inv:
  assumes "ptr_inv s" "pt_vars s v \<noteq> None" "pt_vars s u \<noteq> None"
  shows "\<exists>s'. Ptr_assign v u s = Some s' \<and> ptr_inv s'"
proof -
  obtain s1 where s1: "Ptr_Delete v s = Some s1" "ptr_inv s1" "pt_vars s1 = (pt_vars s)(v \<mapsto> None)"
    using Ptr_Delete_inv[OF assms(1,2)] by blast
  have "pt_vars s1 u \<noteq> None" using s1(3) assms(3) by simp
  then obtain r where r: "pt_vars s1 u = Some r" by blast
  let ?s = "s1\<lparr> pt_vars := (pt_vars s1)(v \<mapsto> r, u \<mapsto> None) \<rparr>"
  have v: "pt_vars s1 v = Some None" using s1(3) by simp
  have "ptr_inv ?s"
  proof (rule ptr_invI)
    show "j \<in> pt_live ?s" if "pt_vars ?s x = Some (Some j)" for x j
      using that ptr_invD(1)[OF s1(2), of x j] ptr_invD(1)[OF s1(2), of u j] r by (auto split: if_splits)
    show "\<exists>x. pt_vars ?s x = Some (Some j)" if "j \<in> pt_live ?s" for j
    proof -
      have "j \<in> pt_live s1" using that by simp
      from ptr_invD(2)[OF s1(2) this] obtain x where x: "pt_vars s1 x = Some (Some j)" by blast
      show ?thesis
      proof (cases "x = u")
        case True
        then have "u \<noteq> v" "r = Some j" using x v r by auto
        then show ?thesis by (intro exI[of _ v]) simp
      next
        case False
        then show ?thesis using x v by (intro exI[of _ x]) auto
      qed
    qed
    have owner: "x \<noteq> u \<and> (if x = v then r = Some j else pt_vars s1 x = Some (Some j))" if "pt_vars ?s x = Some (Some j)" for x j
      using that by (simp split: if_splits)
    have unique: "x = u" if "pt_vars s1 x = Some (Some j)" "r = Some j" for x j using ptr_invD(3)[OF s1(2) that(1), of u] that(2) r by simp
    show "x = y" if "pt_vars ?s x = Some (Some j)" "pt_vars ?s y = Some (Some j)" for x y j
      using owner[OF that(1)] owner[OF that(2)] unique[of x j] unique[of y j] ptr_invD(3)[OF s1(2), of x j y] by (simp split: if_splits)
  qed
  then show ?thesis using s1 r by (simp add: Ptr_assign_def)
qed

lemma ptr_inv_forget:
  assumes "ptr_inv s" "pt_vars s v = Some None"
  shows "ptr_inv (s\<lparr> pt_vars := (pt_vars s)(v := None) \<rparr>)"
proof (rule ptr_invI)
  let ?s = "s\<lparr> pt_vars := (pt_vars s)(v := None) \<rparr>"
  note D = ptr_invD[OF assms(1)]
  show "j \<in> pt_live ?s" if "pt_vars ?s x = Some (Some j)" for x j using that D(1)[of x j] by (simp split: if_splits)
  show "\<exists>x. pt_vars ?s x = Some (Some j)" if "j \<in> pt_live ?s" for j
  proof -
    have "j \<in> pt_live s" using that by simp
    from D(2)[OF this] obtain x where "pt_vars s x = Some (Some j)" by blast
    then show ?thesis using assms(2) by (intro exI[of _ x]) auto
  qed
  show "x = y" if "pt_vars ?s x = Some (Some j)" "pt_vars ?s y = Some (Some j)" for x y j
    using that D(3)[of x j y] by (simp split: if_splits)
qed

lemma ptr_step_inv: "ptr_inv s \<Longrightarrow> ptr_valid op s \<Longrightarrow> \<exists>s'. ptr_step op s = Some s' \<and> ptr_inv s'"
proof (cases op)
  case (CopyPtr v u)
  assume s: "ptr_inv s" "ptr_valid op s"
  have "ptr_inv (Ptr_new v None s)" using s CopyPtr by (intro Ptr_new_inv) auto
  moreover have "pt_vars (Ptr_new v None s) v \<noteq> None" "pt_vars (Ptr_new v None s) u \<noteq> None" using s CopyPtr by (auto simp: Ptr_new_def)
  ultimately have "\<exists>s'. Ptr_assign v u (Ptr_new v None s) = Some s' \<and> ptr_inv s'" by (rule Ptr_assign_inv)
  then show ?thesis using CopyPtr by (simp add: Ptr_copy_def)
next
  case (DestroyPtr v)
  assume s: "ptr_inv s" "ptr_valid op s"
  then obtain s1 where s1: "Ptr_Delete v s = Some s1" "ptr_inv s1" "pt_vars s1 = (pt_vars s)(v \<mapsto> None)"
    using Ptr_Delete_inv[of s v] DestroyPtr by auto
  have "ptr_inv (s1\<lparr> pt_vars := (pt_vars s1)(v := None) \<rparr>)" by (rule ptr_inv_forget[OF s1(2)]) (simp add: s1(3))
  then show ?thesis using s1 DestroyPtr by (simp add: Ptr_destroy_def)
next
  case (AssignPtr v u)
  then show "ptr_inv s \<Longrightarrow> ptr_valid op s \<Longrightarrow> \<exists>s'. ptr_step op s = Some s' \<and> ptr_inv s'" using Ptr_assign_inv[of s v u] by simp
qed (use Ptr_new_inv in auto)

text \<open>C34: However the owning pointers are made, copied, assigned (to themselves too) and destroyed, no result is deleted
  twice, every result that has not been deleted has exactly one owner, and without pointers none is left.\<close>

theorem ptr_ownership:
  "case ptr_run ops \<lparr> pt_vars = (\<lambda>_. None), pt_live = {} \<rparr> of
     None \<Rightarrow> False
   | Some s \<Rightarrow> pt_live s = {i. \<exists>!v. pt_vars s v = Some (Some i)} \<and> pt_live s = {i. \<exists>v. pt_vars s v = Some (Some i)}"
proof -
  have "ptr_inv s \<Longrightarrow> \<exists>s'. ptr_run ops s = Some s' \<and> ptr_inv s'" for s :: "'a ptr_state"
  proof (induction ops arbitrary: s)
    case (Cons op ops)
    then show ?case using ptr_step_inv[OF Cons.prems, of op] by (cases "ptr_valid op s") auto
  qed simp
  moreover have "ptr_inv \<lparr> pt_vars = (\<lambda>_ :: 'a. None), pt_live = {} \<rparr>" by (simp add: ptr_inv_def owners_def)
  ultimately obtain s where s: "ptr_run ops \<lparr> pt_vars = (\<lambda>_. None), pt_live = {} \<rparr> = Some s" "ptr_inv s" by blast
  have "pt_live s = {i. \<exists>v. pt_vars s v = Some (Some i)}" using ptr_invD(1,2)[OF s(2)] by blast
  moreover have "(\<exists>!v. pt_vars s v = Some (Some i)) \<longleftrightarrow> (\<exists>v. pt_vars s v = Some (Some i))" for i using ptr_invD(3)[OF s(2)] by blast
  ultimately show ?thesis using s(1) by simp
qed

subsection \<open>The pool\<close>

lemma MD_NewConnection_fresh: "fresh_ok (MD_NewConnection M login maxc)"
  unfolding fresh_ok_def by (auto simp: MD_NewConnection_def split: if_splits prod.splits option.splits)

interpretation mysql_pool: slot_pool md_pool "MD_once M" PutConnection for M
proof
  show "pool_inv N (md_pool d) \<Longrightarrow> MD_once M d w = Some (b, d', w') \<Longrightarrow> pool_inv N (md_pool d')
      \<and> (case b of Some i \<Rightarrow> i \<notin> busy (md_pool d) \<and> busy (md_pool d') = insert i (busy (md_pool d)) | None \<Rightarrow> busy (md_pool d') = busy (md_pool d))"
    for N d w b d' w'
    using pool_round_spec[OF MD_NewConnection_fresh, of N "md_pool d" M "md_login d" "md_max d" w b "md_pool d'" w']
    by (auto simp: MD_once_def)
  show "pool_inv N (md_pool d) \<Longrightarrow> i \<in> busy (md_pool d) \<Longrightarrow>
      \<exists>d'. PutConnection i d = Some d' \<and> pool_inv N (md_pool d') \<and> busy (md_pool d') = busy (md_pool d) - {i}" for N d i
    by (auto simp: PutConnection_def set_free_def pool_inv_def busy_def nth_list_update)
qed

lemma MD_connect_n_pool:
  "MD_connect_n M n d w = Some (ok, d', w') \<Longrightarrow> pool_inv N (md_pool d) \<Longrightarrow> busy (md_pool d) = {} \<Longrightarrow>
     pool_inv N (md_pool d') \<and> busy (md_pool d') = {} \<and> md_login d' = md_login d \<and> md_max d' = md_max d"
proof (induction n arbitrary: d w)
  case (Suc n)
  obtain a p w1 where c: "MD_NewConnection M (md_login d) (md_max d) (md_pool d) w = Some (a, p, w1)"
    using Suc.prems(1) by (auto split: Option.bind_splits)
  show ?case
  proof (cases a)
    case None
    then have "p = md_pool d" using c MD_NewConnection_fresh[of M "md_login d" "md_max d"] unfolding fresh_ok_def by fastforce
    then show ?thesis using Suc.prems c None by (auto simp: md_login_def)
  next
    case (Some j)
    then obtain mc where a: "pool_add mc (md_pool d) = Some p"
      using c MD_NewConnection_fresh[of M "md_login d" "md_max d"] unfolding fresh_ok_def by fastforce
    have r: "MD_connect_n M n (d\<lparr> md_pool := p \<rparr>) w1 = Some (ok, d', w')" using Suc.prems(1) c Some by simp
    show ?thesis using Suc.IH[OF r] pool_add_spec[OF a Suc.prems(2)] Suc.prems(3) by (simp add: md_login_def)
  qed
qed simp

lemma MD_Connect_pool:
  assumes "MD_Connect M login n maxc MySqlDatabase_new w = Some (ok, d, w1)"
  shows "pool_inv (nat (sint maxc)) (md_pool d) \<and> busy (md_pool d) = {} \<and> md_max d = sint maxc \<and> sint maxc \<ge> 0
     \<and> md_login d = login\<lparr> ml_port := scast (ucast (ml_port login) :: 16 word) \<rparr>"
proof -
  have m: "0 \<le> sint maxc" using assms by (auto simp: MD_Connect_def split: if_splits)
  show ?thesis
    using MD_connect_n_pool[of M _ _ w ok d w1 "nat (sint maxc)"] assms m
    by (simp add: MD_Connect_def MySqlDatabase_new_def pool_inv_def busy_def md_login_def)
qed

text \<open>C1: Whatever connections the clients of a database take and return, each is handed out at most once at a time and at
  most \<open>connCountMax\<close> of them are.\<close>

theorem mysql_pool_exclusive:
  assumes "MD_Connect M login n maxc MySqlDatabase_new w = Some (ok, d, w1)"
    and "pool_run (MD_once M) PutConnection ops (d, w1, []) = Some (d', w', held)"
  shows "distinct held \<and> set held = busy (md_pool d') \<and> int (length held) \<le> sint maxc"
proof -
  note I = MD_Connect_pool[OF assms(1)]
  have r: "pool_inv (nat (sint maxc)) (md_pool d') \<and> distinct held \<and> set held = busy (md_pool d')"
    using mysql_pool.run_exclusive[OF assms(2), of "nat (sint maxc)"] I by simp
  have "busy (md_pool d') \<subseteq> {..<nat (sint maxc)}" using r by (auto simp: busy_def pool_inv_def)
  then have "length held \<le> nat (sint maxc)" using r by (metis card_lessThan card_mono distinct_card finite_lessThan)
  then show ?thesis using r I by linarith
qed

definition demo_database :: "unit my_database" where
  "demo_database = \<lparr> md_host = [0x68], md_port = 3306, md_user = [0x75], md_password = [], md_database = [0x64], md_max = 2,
     md_pool = \<lparr> cp_count = 1, cp_index = - 1, cp_conns = [Some (demo_my_conn\<lparr> mc_login :=
       Some \<lparr> ml_host = [0x68], ml_port = 3306, ml_user = [0x75], ml_password = [], ml_database = [0x64] \<rparr> \<rparr>), None],
     cp_free = [True, False] \<rparr> \<rparr>"

lemma mysql_pool_exclusive_witness:
  "case pool_run (MD_once demo_mysql) PutConnection [TakeOne, Return 0, TakeOne] (demo_database, 0, []) of
     Some (d', w', held) \<Rightarrow> held = [0] \<and> distinct held \<and> set held = busy (md_pool d') \<and> int (length held) \<le> 2
   | None \<Rightarrow> False"
proof -
  let ?taken = "\<lambda>i f. demo_database\<lparr> md_pool := (md_pool demo_database)\<lparr> cp_index := i, cp_free := [f, False] \<rparr> \<rparr>"
  have init: "MD_Connect demo_mysql \<lparr> ml_host = [0x68], ml_port = 3306, ml_user = [0x75], ml_password = [], ml_database = [0x64] \<rparr> 1 2
      MySqlDatabase_new 0 = Some (True, demo_database, 0)" by code_simp
  have a: "MD_once demo_mysql demo_database 0 = Some (Some 0, ?taken 0 False, 0)" by code_simp
  have b: "PutConnection 0 (?taken 0 False) = Some (?taken 0 True)" by code_simp
  have c: "MD_once demo_mysql (?taken 0 True) 0 = Some (Some 0, ?taken 1 False, 0)" by code_simp
  have r: "pool_run (MD_once demo_mysql) PutConnection [TakeOne, Return 0, TakeOne] (demo_database, 0, []) = Some (?taken 1 False, 0, [0])"
    using retry_hit[of "MD_once demo_mysql", OF a] retry_hit[of "MD_once demo_mysql", OF c] b by simp
  show ?thesis using mysql_pool_exclusive[OF init r] r by simp
qed

text \<open>A port from 32768 on is not the port the pool connects to.\<close>

lemma small_port:
  assumes "(p :: 32 word) < 2 ^ 15"
  shows "scast (ucast p :: 16 word) = p"
proof -
  have b: "uint p < 2 ^ 15" using assms by (simp add: word_less_def)
  have "sint (ucast p :: 16 word) = signed_take_bit 15 (uint p)"
    by (simp add: sint_uint unsigned_ucast_eq signed_take_bit_take_bit)
  also have "\<dots> = uint p" by (rule signed_take_bit_int_eq_self) (use b uint_nonnegative[of p] in linarith)+
  finally have s: "sint (ucast p :: 16 word) = uint p" .
  have "scast (ucast p :: 16 word) = (word_of_int (sint (ucast p :: 16 word)) :: 32 word)" by simp
  then show ?thesis by (simp only: s) simp
qed

lemma port_kept:
  "MD_Connect M login n maxc MySqlDatabase_new w = Some (ok, d, w1) \<Longrightarrow> ml_port login < 2 ^ 15 \<Longrightarrow> md_login d = login"
  using MD_Connect_pool[of M login n maxc w ok d w1] small_port[of "ml_port login"] by simp

subsection \<open>Failing queries\<close>

lemma failed_query_twice:
  assumes "mc_conn mc = Some c" "my_query M sql c w = (r, c1, w1)" "r > 0" "my_ping M c1 w1 = (True, c2, w2)" "my_query M sql c2 w2 = (r2, c3, w3)"
  shows "MC_Query M sql mc w = Some (r2 = 0, mc\<lparr> mc_conn := Some c3 \<rparr>, w3)"
  using assms by (simp add: MC_Query_def run_query_def CheckValid_def)

lemma MC_Query_conn: "MC_Query M sql mc w = Some (True, mc1, w1) \<Longrightarrow> mc_conn mc1 \<noteq> None"
  by (auto simp: MC_Query_def run_query_def split: if_splits Option.bind_splits prod.splits)

lemma lock_never_fails: "Lock_tables M name mc w = Some (ok, mc1, w1) \<Longrightarrow> ok"
  by (auto simp: Lock_tables_def split: Option.bind_splits)

lemma long_statement_cut:
  assumes "0 \<notin> set sql" "length sql \<le> 524287" "0 \<notin> set rest"
  shows "ExecuteFormat M sql = MC_Execute M sql" "length sql = 524287 \<Longrightarrow> ExecuteFormat M (sql @ rest) = MC_Execute M sql"
  using assms by (simp_all add: ExecuteFormat_def cstr_id)

subsection \<open>The database of the log\<close>

lemma InitLogDB_never: "InitLogDB M J conf m w \<noteq> Some (True, m', w')"
proof
  assume a: "InitLogDB M J conf m w = Some (True, m', w')"
  then have "read_member J conf ''logDBPassword'' (get_String J) = None" by (auto simp: InitLogDB_def split: if_splits)
  then have "db_login J conf ''logDBHost'' ''logDBPort'' ''logDBUser'' ''logDBPassword'' ''logDB'' = None"
    by (simp add: db_login_def Option.bind_eq_None_conv)
  then show False using a by (auto simp: InitLogDB_def split: if_splits)
qed

end
