(* ===== verification/Rabbit.thy ===== *)
theory Rabbit
  imports Json Queues
begin

text \<open>
  The client of RabbitMQ (\<open>rabbitmq_client.h\<close>, \<open>rabbitmq_client.cpp\<close>): the queued messages as the blocks of memory
  they are, the rounds of its reading and its writing thread, and what the owner calls.  The AMQP library is the
  parameter \<open>A\<close>, on connections \<open>'c\<close> and the state \<open>'w\<close> of what is behind them.  \<^const>\<open>None\<close> is undefined behaviour.
\<close>

subsection \<open>Queued messages\<close>

text \<open>A \<open>RMQCQueueMember\<close>: two names of 100 bytes, the length and the tag, 216 bytes in all, and then the message.\<close>

type_synonym rmq_member = "byte list"

definition member_len :: "rmq_member \<Rightarrow> nat" where
  "member_len b = le_decode (take 8 (drop 200 b))"

definition member_tag :: "rmq_member \<Rightarrow> nat" where
  "member_tag b = le_decode (take 8 (drop 208 b))"

definition member_data :: "rmq_member \<Rightarrow> byte list option" where
  "member_data b = mem_read b 216 (member_len b)"

text \<open>A C string in a block: reading past the end is undefined.\<close>

definition cstr_at :: "byte list \<Rightarrow> nat \<Rightarrow> byte list option" where
  "cstr_at b off = (if 0 \<in> set (drop off b) then Some (cstr (drop off b)) else None)"

definition member_reset :: "rmq_member \<Rightarrow> rmq_member option" where
  "member_reset b = memset_at b 0 0 216"

text \<open>What \<open>malloc\<close> returns.\<close>

definition malloc_block :: "heap_env \<Rightarrow> nat \<Rightarrow> byte list option" where
  "malloc_block H n = (if he_ok H n then Some (map (he_fill H) [0..<n]) else None)"

definition Write_block :: "byte list \<Rightarrow> byte list \<Rightarrow> byte list \<Rightarrow> byte list \<Rightarrow> rmq_member option" where
  "Write_block b0 msg ex key = do {
     b1 \<leftarrow> member_reset b0;
     b2 \<leftarrow> memcpy_at b1 200 (le_encode 8 (length msg));
     b3 \<leftarrow> memcpy_at b2 216 msg;
     b4 \<leftarrow> memcpy_at b3 0 ex;
     memcpy_at b4 100 key }"

definition name_or :: "rmq_member \<Rightarrow> nat \<Rightarrow> byte list \<Rightarrow> byte list option" where
  "name_or b off dflt = (if b ! off \<noteq> 0 then cstr_at b off else Some (cstr dflt))"

subsection \<open>The library\<close>

datatype consume_reply = Received "byte list" nat | Server_exception | No_reply | Library_exception int

datatype amqp_frame = MethodFrame u32 nat | HeaderFrame nat | BodyFrame "byte list" | OtherFrame

record ('c, 'w) amqp =
  am_new :: "'w \<Rightarrow> 'c \<times> 'w"
  am_socket :: "'c \<Rightarrow> 'w \<Rightarrow> bool \<times> 'c \<times> 'w"
  am_open :: "byte list \<Rightarrow> 16 word \<Rightarrow> 'c \<Rightarrow> 'w \<Rightarrow> int \<times> 'c \<times> 'w"
  am_login :: "byte list \<Rightarrow> byte list \<Rightarrow> 'c \<Rightarrow> 'w \<Rightarrow> bool \<times> 'c \<times> 'w"
  am_channel :: "16 word \<Rightarrow> 'c \<Rightarrow> 'w \<Rightarrow> bool \<times> 'c \<times> 'w"
  am_exchange :: "16 word \<Rightarrow> byte list \<Rightarrow> 'c \<Rightarrow> 'w \<Rightarrow> bool \<times> 'c \<times> 'w"
  am_queue :: "16 word \<Rightarrow> byte list \<Rightarrow> 'c \<Rightarrow> 'w \<Rightarrow> byte list option \<times> 'c \<times> 'w"
  am_dup :: "byte list \<Rightarrow> 'w \<Rightarrow> bool"
  am_bind :: "16 word \<Rightarrow> byte list \<Rightarrow> byte list \<Rightarrow> byte list \<Rightarrow> 'c \<Rightarrow> 'w \<Rightarrow> bool \<times> 'c \<times> 'w"
  am_consume :: "16 word \<Rightarrow> byte list \<Rightarrow> 'c \<Rightarrow> 'w \<Rightarrow> bool \<times> 'c \<times> 'w"
  am_close :: "16 word \<Rightarrow> 'c \<Rightarrow> 'w \<Rightarrow> 'w"
  am_publish :: "16 word \<Rightarrow> byte list \<Rightarrow> byte list \<Rightarrow> byte list \<Rightarrow> 'c \<Rightarrow> 'w \<Rightarrow> int \<times> 'c \<times> 'w"
  am_consume_message :: "'c \<Rightarrow> 'w \<Rightarrow> consume_reply \<times> 'c \<times> 'w"
  am_wait_frame :: "'c \<Rightarrow> 'w \<Rightarrow> (int \<times> amqp_frame) \<times> 'c \<times> 'w"
  am_answer :: "16 word \<Rightarrow> nat \<Rightarrow> bool \<Rightarrow> 'c \<Rightarrow> 'w \<Rightarrow> int \<times> 'c \<times> 'w"

definition AMQP_STATUS_TIMEOUT :: int where "AMQP_STATUS_TIMEOUT = - 13"

definition AMQP_BASIC_DELIVER_METHOD :: u32 where "AMQP_BASIC_DELIVER_METHOD = 0x003C003C"

subsection \<open>The client\<close>

record rmq_conf =
  rc_host :: "byte list"
  rc_port :: "16 word"
  rc_channel :: "16 word"
  rc_write_exchange :: "byte list"
  rc_write_key :: "byte list"
  rc_write_queue :: "byte list"
  rc_read_exchange :: "byte list"
  rc_read_key :: "byte list"
  rc_read_queue :: "byte list"
  rc_user :: "byte list"
  rc_password :: "byte list"

text \<open>\<open>readQueueRep_\<close>: not initialised, null, a copy of the name, or freed.\<close>

datatype rep_state = Garbage | NullRep | Owned "byte list" | Freed

datatype thread_state = NoThread | Running | Joined

record 'c rmq =
  rq_start_time :: int
  rq_need_reconnect :: bool
  rq_conn :: "'c option"
  rq_producer :: "'c option"
  rq_producer_reconnect :: bool
  rq_conf :: rmq_conf
  rq_listen :: thread_state
  rq_send :: thread_state
  rq_running :: bool
  rq_read :: "rmq_member dbq"
  rq_write :: "rmq_member dbq"
  rq_rep :: rep_state

definition rmq_conf_new :: rmq_conf where
  "rmq_conf_new = \<lparr> rc_host = [], rc_port = 0, rc_channel = 1, rc_write_exchange = [], rc_write_key = [], rc_write_queue = [],
     rc_read_exchange = [], rc_read_key = [], rc_read_queue = [], rc_user = [], rc_password = [] \<rparr>"

definition RabbitMQClient_new :: "'c rmq" where
  "RabbitMQClient_new = \<lparr> rq_start_time = 0, rq_need_reconnect = True, rq_conn = None, rq_producer = None, rq_producer_reconnect = True,
     rq_conf = rmq_conf_new, rq_listen = NoThread, rq_send = NoThread, rq_running = False, rq_read = dbq_swap dbq_new,
     rq_write = dbq_swap dbq_new, rq_rep = Garbage \<rparr>"

text \<open>A configuration that is refused can still change \<open>readBindingkey_\<close>, which alone is optional.\<close>

definition InitConfig :: "('j, 'z) json_api_scheme \<Rightarrow> 'j \<Rightarrow> rmq_conf \<Rightarrow> bool \<times> rmq_conf" where
  "InitConfig J conf c =
     (let text = (\<lambda>k. read_member J conf k (get_String J)); num = (\<lambda>k. read_member J conf k (get_Int J))
      in if \<not> js_is_object J conf then (False, c)
         else if text ''ip'' = None \<or> num ''port'' = None \<or> num ''channel'' = None \<or> text ''writeExchange'' = None
              \<or> text ''writeBindingkey'' = None \<or> text ''writeQueuename'' = None \<or> text ''readExchange'' = None then (False, c)
         else let c1 = (case text ''readBindingkey'' of None \<Rightarrow> c | Some k \<Rightarrow> c\<lparr> rc_read_key := cstr k \<rparr>)
           in if text ''readQueuename'' = None \<or> text ''username'' = None \<or> text ''password'' = None then (False, c1)
              else let get = (\<lambda>k. cstr (the (text k)))
                in (True, c1\<lparr> rc_host := get ''ip'', rc_port := word_of_int (the (num ''port'')), rc_channel := word_of_int (the (num ''channel'')),
                     rc_write_exchange := get ''writeExchange'', rc_write_key := get ''writeBindingkey'', rc_write_queue := get ''writeQueuename'',
                     rc_read_exchange := get ''readExchange'', rc_read_queue := get ''readQueuename'', rc_user := get ''username'',
                     rc_password := get ''password'' \<rparr>))"

definition Rabbit_Init :: "('j, 'z) json_api_scheme \<Rightarrow> 'j \<Rightarrow> int \<Rightarrow> 'c rmq \<Rightarrow> bool \<times> 'c rmq" where
  "Rabbit_Init J conf now cl =
     (case InitConfig J conf (rq_conf cl) of (ok, c) \<Rightarrow> (ok, cl\<lparr> rq_start_time := now + 1000 * 2, rq_conf := c \<rparr>))"

definition SetReadBindKey :: "byte list \<Rightarrow> 'c rmq \<Rightarrow> 'c rmq" where
  "SetReadBindKey key cl = cl\<lparr> rq_conf := (rq_conf cl)\<lparr> rc_read_key := key \<rparr> \<rparr>"

subsection \<open>Connecting\<close>

text \<open>The steps go on while they succeed.\<close>

definition and_then :: "bool \<times> 'c \<times> 'w \<Rightarrow> ('c \<Rightarrow> 'w \<Rightarrow> bool \<times> 'c \<times> 'w) \<Rightarrow> bool \<times> 'c \<times> 'w" where
  "and_then r k = (case r of (ok, c, w) \<Rightarrow> if ok then k c w else (False, c, w))"

definition open_login :: "('c, 'w) amqp \<Rightarrow> rmq_conf \<Rightarrow> 'w \<Rightarrow> bool \<times> 'c \<times> 'w" where
  "open_login A f w =
     (case am_new A w of (c, w) \<Rightarrow>
        and_then (am_socket A c w) (\<lambda>c w.
        and_then (case am_open A (cstr (rc_host f)) (rc_port f) c w of (state, c, w) \<Rightarrow> (state = 0, c, w)) (\<lambda>c w.
        and_then (am_login A (cstr (rc_user f)) (cstr (rc_password f)) c w) (am_channel A (rc_channel f)))))"

definition InitProducerRabbitMQClient :: "('c, 'w) amqp \<Rightarrow> 'c rmq \<Rightarrow> 'w \<Rightarrow> bool \<times> 'c rmq \<times> 'w" where
  "InitProducerRabbitMQClient A cl w =
     (case open_login A (rq_conf cl) w of (ok, c, w) \<Rightarrow> (ok, cl\<lparr> rq_producer := Some c \<rparr>, w))"

definition InitRabbitMQClient :: "('c, 'w) amqp \<Rightarrow> 'c rmq \<Rightarrow> 'w \<Rightarrow> bool \<times> 'c rmq \<times> 'w" where
  "InitRabbitMQClient A cl w =
     (let f = rq_conf cl; ex = cstr (rc_read_exchange f)
      in case and_then (open_login A f w) (am_exchange A (rc_channel f) ex) of (ok, c, w) \<Rightarrow>
        if \<not> ok then (False, cl\<lparr> rq_conn := Some c \<rparr>, w)
        else case am_queue A (rc_channel f) (cstr (rc_read_queue f)) c w of
          (None, c, w) \<Rightarrow> (False, cl\<lparr> rq_conn := Some c \<rparr>, w)
        | (Some name, c, w) \<Rightarrow>
            (if \<not> am_dup A name w then (False, cl\<lparr> rq_conn := Some c, rq_rep := NullRep \<rparr>, w)
             else case and_then (am_bind A (rc_channel f) name ex (cstr (rc_read_key f)) c w) (am_consume A (rc_channel f) name) of
               (ok, c, w) \<Rightarrow> (ok, cl\<lparr> rq_conn := Some c, rq_rep := Owned name \<rparr>, w)))"

text \<open>The check and the release of the name.\<close>

definition free_rep :: "'c rmq \<Rightarrow> 'c rmq option" where
  "free_rep cl = (case rq_rep cl of Garbage \<Rightarrow> None | NullRep \<Rightarrow> Some cl | Owned _ \<Rightarrow> Some (cl\<lparr> rq_rep := Freed \<rparr>) | Freed \<Rightarrow> None)"

subsection \<open>The reading thread\<close>

definition reader_connect :: "('c, 'w) amqp \<Rightarrow> 'c rmq \<Rightarrow> 'w \<Rightarrow> ('c rmq \<times> 'w) option" where
  "reader_connect A cl w =
     (if \<not> rq_need_reconnect cl then Some (cl, w)
      else do {
        (cl1, w1) \<leftarrow> (case rq_conn cl of
            None \<Rightarrow> Some (cl, w)
          | Some c \<Rightarrow> map_option (\<lambda>cl1. (cl1, am_close A (rc_channel (rq_conf cl)) c w)) (free_rep cl));
        (case InitRabbitMQClient A cl1 w1 of (ok, cl2, w2) \<Rightarrow> Some (if ok then cl2\<lparr> rq_need_reconnect := False \<rparr> else cl2, w2)) })"

definition received_block :: "heap_env \<Rightarrow> byte list \<Rightarrow> nat \<Rightarrow> rmq_member option" where
  "received_block H body tag = do {
     b0 \<leftarrow> malloc_block H (216 + length body);
     b1 \<leftarrow> memcpy_at b0 200 (le_encode 8 (length body));
     b2 \<leftarrow> memcpy_at b1 208 (le_encode 8 tag);
     memcpy_at b2 216 body }"

text \<open>What the loop does with the answer of the library; the first component says whether the thread goes on.\<close>

definition take_message :: "('c, 'w) amqp \<Rightarrow> heap_env \<Rightarrow> 'c \<Rightarrow> 'c rmq \<Rightarrow> 'w \<Rightarrow> bool \<times> 'c rmq \<times> 'w" where
  "take_message A H c cl w =
     (case am_consume_message A c w of (reply, c1, w1) \<Rightarrow>
       (let cl1 = cl\<lparr> rq_conn := Some c1 \<rparr>
        in case reply of
             Server_exception \<Rightarrow> (True, cl1\<lparr> rq_need_reconnect := True \<rparr>, w1)
           | No_reply \<Rightarrow> (True, cl1\<lparr> rq_need_reconnect := True \<rparr>, w1)
           | Library_exception e \<Rightarrow> (True, if e \<noteq> AMQP_STATUS_TIMEOUT then cl1\<lparr> rq_need_reconnect := True \<rparr> else cl1, w1)
           | Received body tag \<Rightarrow>
               (case received_block H body tag of
                  None \<Rightarrow> (False, cl1, w1)
                | Some b \<Rightarrow> (True, cl1\<lparr> rq_read := snd (dbq_push (rq_read cl1) b) \<rparr>, w1))))"

definition reader_round :: "('c, 'w) amqp \<Rightarrow> heap_env \<Rightarrow> 'c rmq \<Rightarrow> 'w \<Rightarrow> (bool \<times> 'c rmq \<times> 'w) option" where
  "reader_round A H cl w =
     (if dbq_size (rq_read cl) \<ge> 100 then Some (True, cl, w)
      else do {
        (cl1, w1) \<leftarrow> reader_connect A cl w;
        c \<leftarrow> rq_conn cl1;
        Some (take_message A H c cl1 w1) })"

subsection \<open>The reading thread that waits for frames\<close>

text \<open>The body: more bytes than announced are written past the block.\<close>

partial_function (option) block_body :: "('c, 'w) amqp \<Rightarrow> nat \<Rightarrow> byte list \<Rightarrow> 'c \<Rightarrow> 'w \<Rightarrow> (byte list \<times> 'c \<times> 'w) option" where
  "block_body A target got c w =
     (if length got \<ge> target then Some (got, c, w)
      else case am_wait_frame A c w of ((result, frame), c1, w1) \<Rightarrow>
        if result < 0 then Some (got, c1, w1)
        else case frame of
          BodyFrame piece \<Rightarrow> (if length got + length piece > target then None else block_body A target (got @ piece) c1 w1)
        | _ \<Rightarrow> Some (got, c1, w1))"

definition block_round :: "('c, 'w) amqp \<Rightarrow> heap_env \<Rightarrow> 'c rmq \<Rightarrow> 'w \<Rightarrow> (bool \<times> 'c rmq \<times> 'w) option" where
  "block_round A H cl w = do {
     c \<leftarrow> rq_conn cl;
     (case am_wait_frame A c w of ((result, frame), c, w) \<Rightarrow>
        (let stop = (\<lambda>go c w. Some (go, cl\<lparr> rq_conn := Some c \<rparr>, w))
         in if result < 0 then stop False c w
            else case frame of
              MethodFrame method tag \<Rightarrow>
                (if method \<noteq> AMQP_BASIC_DELIVER_METHOD then stop True c w
                 else case am_wait_frame A c w of ((result, frame), c, w) \<Rightarrow>
                   if result < 0 then stop False c w
                   else case frame of
                     HeaderFrame target \<Rightarrow>
                       (if \<not> he_ok H (216 + target) then stop False c w
                        else do {
                          (body, c, w) \<leftarrow> block_body A target [] c w;
                          (if length body \<noteq> target then stop False c w
                           else Some (True, cl\<lparr> rq_conn := Some c,
                             rq_read := snd (dbq_push (rq_read cl) (replicate 200 0 @ le_encode 8 (length body) @ le_encode 8 tag @ body)) \<rparr>, w)) })
                   | _ \<Rightarrow> stop False c w)
            | _ \<Rightarrow> stop True c w)) }"

subsection \<open>The writing thread\<close>

definition dbq_take :: "'a dbq \<Rightarrow> 'a option \<times> 'a dbq" where
  "dbq_take q = (case dbq_pop q of (Some x, q1) \<Rightarrow> (Some x, q1) | (None, q1) \<Rightarrow> dbq_pop (dbq_swap q1))"

definition writer_connect :: "('c, 'w) amqp \<Rightarrow> 'c rmq \<Rightarrow> 'w \<Rightarrow> 'c rmq \<times> 'w" where
  "writer_connect A cl w =
     (if \<not> rq_producer_reconnect cl then (cl, w)
      else let w1 = (case rq_producer cl of None \<Rightarrow> w | Some c \<Rightarrow> am_close A (rc_channel (rq_conf cl)) c w)
        in case InitProducerRabbitMQClient A cl w1 of (ok, cl1, w2) \<Rightarrow> (if ok then cl1\<lparr> rq_producer_reconnect := False \<rparr> else cl1, w2))"

type_synonym rmq_message = "byte list \<times> byte list \<times> byte list"

text \<open>One round of the loop, and the message it has published.\<close>

definition writer_round :: "('c, 'w) amqp \<Rightarrow> 'c rmq \<Rightarrow> 'w \<Rightarrow> (rmq_message option \<times> 'c rmq \<times> 'w) option" where
  "writer_round A cl w =
     (case writer_connect A cl w of (cl1, w1) \<Rightarrow>
      (case dbq_take (rq_write cl1) of
         (None, q) \<Rightarrow> Some (None, cl1\<lparr> rq_write := q \<rparr>, w1)
       | (Some b, q) \<Rightarrow> do {
           ex \<leftarrow> name_or b 0 (rc_write_exchange (rq_conf cl1));
           key \<leftarrow> name_or b 100 (rc_write_key (rq_conf cl1));
           data \<leftarrow> member_data b;
           c \<leftarrow> rq_producer cl1;
           (case am_publish A (rc_channel (rq_conf cl1)) ex key data c w1 of (status, c1, w2) \<Rightarrow>
             (let cl2 = cl1\<lparr> rq_producer := Some c1, rq_write := q \<rparr>
              in if status \<noteq> 0 then Some (None, cl2\<lparr> rq_producer_reconnect := True, rq_write := snd (dbq_push q b) \<rparr>, w2)
                 else Some (Some (ex, key, data), cl2, w2))) }))"

subsection \<open>The owner\<close>

definition StartRabbitMQClient :: "'c rmq \<Rightarrow> bool \<times> 'c rmq" where
  "StartRabbitMQClient cl = (True, cl\<lparr> rq_running := True, rq_listen := Running, rq_send := Running \<rparr>)"

definition Rabbit_Start :: "'c rmq \<Rightarrow> bool \<times> 'c rmq" where
  "Rabbit_Start cl = (True, cl)"

text \<open>Joining a thread that was never made, or twice, is undefined; so are calls on no connection.\<close>

definition Rabbit_Stop :: "('c, 'w) amqp \<Rightarrow> 'c rmq \<Rightarrow> 'w \<Rightarrow> (bool \<times> 'c rmq \<times> 'w) option" where
  "Rabbit_Stop A cl w =
     (if rq_listen cl \<noteq> Running \<or> rq_send cl \<noteq> Running then None
      else do {
        c \<leftarrow> rq_conn cl;
        cl1 \<leftarrow> free_rep cl;
        p \<leftarrow> rq_producer cl;
        Some (True, cl1\<lparr> rq_running := False, rq_listen := Joined, rq_send := Joined \<rparr>,
          am_close A (rc_channel (rq_conf cl)) p (am_close A (rc_channel (rq_conf cl)) c w)) })"

text \<open>The message, and the tag if one was read.  The first call after two seconds starts the threads instead.\<close>

definition Rabbit_Read :: "int \<Rightarrow> 'c rmq \<Rightarrow> (byte list \<times> nat option \<times> 'c rmq) option" where
  "Rabbit_Read now cl =
     (if rq_start_time cl > 0 \<and> rq_start_time cl < now
      then Some ([], None, snd (StartRabbitMQClient (cl\<lparr> rq_start_time := 0 \<rparr>)))
      else case dbq_take (rq_read cl) of
        (None, q) \<Rightarrow> Some ([], None, cl\<lparr> rq_read := q \<rparr>)
      | (Some b, q) \<Rightarrow> map_option (\<lambda>msg. (msg, Some (member_tag b), cl\<lparr> rq_read := q \<rparr>)) (member_data b))"

definition Rabbit_Write :: "heap_env \<Rightarrow> byte list \<Rightarrow> byte list \<Rightarrow> byte list \<Rightarrow> 'c rmq \<Rightarrow> (bool \<times> 'c rmq) option" where
  "Rabbit_Write H msg ex key cl =
     (case malloc_block H (216 + length msg) of
        None \<Rightarrow> Some (False, cl)
      | Some b0 \<Rightarrow> map_option (\<lambda>b. (True, cl\<lparr> rq_write := snd (dbq_push (rq_write cl) b) \<rparr>)) (Write_block b0 msg ex key))"

definition Rabbit_Ack :: "('c, 'w) amqp \<Rightarrow> nat \<Rightarrow> 'c rmq \<Rightarrow> 'w \<Rightarrow> (int \<times> 'c rmq \<times> 'w) option" where
  "Rabbit_Ack A tag cl w = do {
     c \<leftarrow> rq_conn cl;
     (case am_answer A (rc_channel (rq_conf cl)) tag True c w of (r, c1, w1) \<Rightarrow> Some (r, cl\<lparr> rq_conn := Some c1 \<rparr>, w1)) }"

definition Rabbit_Reject :: "('c, 'w) amqp \<Rightarrow> nat \<Rightarrow> 'c rmq \<Rightarrow> 'w \<Rightarrow> (int \<times> 'c rmq \<times> 'w) option" where
  "Rabbit_Reject A tag cl w = do {
     c \<leftarrow> rq_conn cl;
     (case am_answer A (rc_channel (rq_conf cl)) tag False c w of (r, c1, w1) \<Rightarrow> Some (r, cl\<lparr> rq_conn := Some c1 \<rparr>, w1)) }"

text \<open>The blocks the destructor frees of one of its queues.\<close>

definition queue_free :: "'a dbq \<Rightarrow> 'a list option" where
  "queue_free q = do {
     (xs, q1) \<leftarrow> drain dbq_pop (dbq_swap q);
     (ys, _) \<leftarrow> drain dbq_pop (dbq_swap q1);
     Some (xs @ ys) }"

definition RabbitMQClient_destroy :: "'c rmq \<Rightarrow> rmq_member list option" where
  "RabbitMQClient_destroy cl = do {
     xs \<leftarrow> queue_free (rq_read cl);
     ys \<leftarrow> queue_free (rq_write cl);
     Some (xs @ ys) }"

end
