(* ===== verification/Rabbit_Props.thy ===== *)
theory Rabbit_Props
  imports Rabbit
begin

text \<open>
  Messages are published once each and none is lost (\<open>writer_conserves\<close>), as long as their names fit; two failed
  attempts to connect in a row are undefined in the reading thread (\<open>reader_down_undefined\<close>); a message that comes
  in frames is put together (\<open>block_reassembles\<close>).
\<close>

subsection \<open>Blocks\<close>

lemma le_8 [simp]: "n < 2 ^ 64 \<Longrightarrow> le_decode (le_encode 8 n) = n"
  by (rule le_decode_encode) simp

lemma Write_block_eq:
  assumes "length b0 = 216 + length msg" "length ex \<le> 100" "length key \<le> 100"
  shows "Write_block b0 msg ex key =
    Some (ex @ replicate (100 - length ex) 0 @ key @ replicate (100 - length key) 0 @ le_encode 8 (length msg) @ replicate 8 0 @ msg)"
proof -
  have "member_reset b0 = Some (replicate 216 0 @ drop 216 b0)" using assms(1) by (simp add: member_reset_def memset_at_def memcpy_at_def)
  moreover have "memcpy_at (replicate 216 0 @ drop 216 b0) 200 (le_encode 8 (length msg)) =
      Some (replicate 200 0 @ le_encode 8 (length msg) @ replicate 8 0 @ drop 216 b0)"
    using assms(1) by (simp add: memcpy_at_def)
  moreover have "memcpy_at (replicate 200 0 @ le_encode 8 (length msg) @ replicate 8 0 @ drop 216 b0) 216 msg =
      Some (replicate 200 0 @ le_encode 8 (length msg) @ replicate 8 0 @ msg)"
    using assms(1) by (simp add: memcpy_at_def)
  moreover have "memcpy_at (replicate 200 0 @ le_encode 8 (length msg) @ replicate 8 0 @ msg) 0 ex =
      Some (ex @ replicate (200 - length ex) 0 @ le_encode 8 (length msg) @ replicate 8 0 @ msg)"
    using assms(2) by (simp add: memcpy_at_def)
  moreover have "memcpy_at (ex @ replicate (200 - length ex) 0 @ le_encode 8 (length msg) @ replicate 8 0 @ msg) 100 key =
      Some (ex @ replicate (100 - length ex) 0 @ key @ replicate (100 - length key) 0 @ le_encode 8 (length msg) @ replicate 8 0 @ msg)"
    using assms(2,3) by (simp add: memcpy_at_def)
  ultimately show ?thesis by (simp add: Write_block_def)
qed

definition name_ok :: "byte list \<Rightarrow> bool" where
  "name_ok n \<longleftrightarrow> length n < 100 \<and> 0 \<notin> set n"

definition resolve :: "rmq_conf \<Rightarrow> byte list \<Rightarrow> byte list \<Rightarrow> byte list \<Rightarrow> rmq_message" where
  "resolve f msg ex key = (if ex = [] then cstr (rc_write_exchange f) else ex, if key = [] then cstr (rc_write_key f) else key, msg)"

definition member_msg :: "rmq_conf \<Rightarrow> rmq_member \<Rightarrow> rmq_message option" where
  "member_msg f b = do {
     ex \<leftarrow> name_or b 0 (rc_write_exchange f);
     key \<leftarrow> name_or b 100 (rc_write_key f);
     data \<leftarrow> member_data b;
     Some (ex, key, data) }"

lemma cstr_prefix: "0 \<notin> set n \<Longrightarrow> cstr (n @ 0 # x) = n"
  by (simp add: cstr_def takeWhile_append2 takeWhile_tail) (metis (full_types) takeWhile_eq_all_conv takeWhile_tail append.right_neutral)

lemma name_at:
  assumes "name_ok n" "drop off b = n @ replicate (100 - length n) 0 @ x"
  shows "name_or b off d = Some (if n = [] then cstr d else n)"
proof -
  obtain k where "100 - length n = Suc k" using assms(1) unfolding name_ok_def by (metis Suc_diff_Suc)
  then have d: "drop off b = n @ 0 # (replicate k 0 @ x)" using assms(2) by simp
  then have "off < length b" by (metis drop_eq_Nil2 not_less append_is_Nil_conv list.distinct(1))
  then have h: "b ! off = hd (drop off b)" by (simp add: hd_drop_conv_nth)
  show ?thesis
  proof (cases n)
    case Nil
    then show ?thesis using h d by (simp add: name_or_def)
  next
    case (Cons y ys)
    then have "b ! off \<noteq> 0" using h d assms(1) by (auto simp: name_ok_def)
    then show ?thesis using d assms(1) cstr_prefix[of n] Cons by (simp add: name_or_def cstr_at_def name_ok_def)
  qed
qed

lemma Write_block_msg:
  assumes "length b0 = 216 + length msg" "name_ok ex" "name_ok key" "length msg < 2 ^ 64"
  shows "\<exists>b. Write_block b0 msg ex key = Some b \<and> member_msg f b = Some (resolve f msg ex key)"
proof -
  let ?b = "ex @ replicate (100 - length ex) 0 @ key @ replicate (100 - length key) 0 @ le_encode 8 (length msg) @ replicate 8 0 @ msg"
  have l: "length ex \<le> 100" "length key \<le> 100" using assms(2,3) by (simp_all add: name_ok_def)
  have e: "name_or ?b 0 (rc_write_exchange f) = Some (if ex = [] then cstr (rc_write_exchange f) else ex)"
    by (rule name_at[OF assms(2)]) simp
  have k: "name_or ?b 100 (rc_write_key f) = Some (if key = [] then cstr (rc_write_key f) else key)"
    by (rule name_at[OF assms(3)]) (use l in simp)
  have n: "member_len ?b = length msg" using l assms(4) by (simp add: member_len_def)
  have "member_data ?b = Some msg" unfolding member_data_def n using l by (simp add: mem_read_def)
  then show ?thesis unfolding Write_block_eq[OF assms(1) l] by (simp add: member_msg_def resolve_def e k)
qed

text \<open>A name of exactly 100 bytes runs into the next one; longer ones overwrite it, then the length, then the message.\<close>

lemma name_100_runs_on:
  assumes "length b0 = 216 + length msg" "length ex = 100" "0 \<notin> set ex" "name_ok key"
  shows "\<exists>b. Write_block b0 msg ex key = Some b \<and> name_or b 0 d = Some (ex @ key)"
proof -
  have l: "length ex \<le> 100" "length key \<le> 100" using assms(2,4) by (simp_all add: name_ok_def)
  obtain k where k: "100 - length key = Suc k" using assms(4) unfolding name_ok_def by (metis Suc_diff_Suc)
  let ?b = "ex @ replicate (100 - length ex) 0 @ key @ replicate (100 - length key) 0 @ le_encode 8 (length msg) @ replicate 8 0 @ msg"
  have d: "drop 0 ?b = (ex @ key) @ 0 # (replicate k 0 @ le_encode 8 (length msg) @ replicate 8 0 @ msg)" using k assms(2) by simp
  have "0 \<notin> set (ex @ key)" using assms(3,4) by (simp add: name_ok_def)
  moreover have "?b ! 0 \<noteq> 0" using assms(2,3) by (cases ex) auto
  ultimately have "name_or ?b 0 d = Some (ex @ key)" unfolding name_or_def cstr_at_def d by (simp add: cstr_prefix del: append_assoc)
  then show ?thesis unfolding Write_block_eq[OF assms(1) l] by blast
qed

lemma name_too_long:
  assumes "length b0 = 216 + length msg"
  shows "length ex > 216 + length msg \<Longrightarrow> Write_block b0 msg ex key = None"
  using assms by (simp add: Write_block_def member_reset_def memset_at_def memcpy_at_def)

subsection \<open>The writing thread\<close>

lemma dbq_new_swapped [simp]: "dbq_ok (dbq_swap dbq_new)" "dbq_content (dbq_swap dbq_new) = []" "dbq_size (dbq_swap dbq_new) = 0"
  by (simp_all add: dbq_new_def dbq_swap_def dbq_ok_def dbq_content_def dbq_size_def NextQueueIndex_def)

lemma dbq_take_content:
  assumes "dbq_ok q" "dbq_take q = (r, q')"
  shows "dbq_ok q' \<and> dbq_content q = (case r of None \<Rightarrow> [] | Some x \<Rightarrow> [x]) @ dbq_content q'"
proof (cases "dbq_pop q")
  case (Pair r1 q1)
  show ?thesis
  proof (cases r1)
    case None
    then have n: "q1 = q" "dbq_size q = 0" using db.pop_None[OF assms(1)] Pair by auto
    have p: "dbq_pop (dbq_swap q) = (r, q')" using assms(2) Pair None n by (simp add: dbq_take_def)
    note S = dbq_swap_content[OF assms(1) n(2)]
    show ?thesis
    proof (cases r)
      case None
      then show ?thesis using db.pop_None[of "dbq_swap q"] S p by auto
    next
      case (Some x)
      then show ?thesis using dbq_pop_content[of "dbq_swap q" x q'] S p by auto
    qed
  next
    case (Some x)
    then show ?thesis using dbq_pop_content[OF assms(1), of x q1] Pair assms(2) by (auto simp: dbq_take_def)
  qed
qed

lemma dbq_take_None:
  assumes "dbq_ok q" "dbq_take q = (None, q')"
  shows "dbq_content q = []"
proof -
  obtain r q1 where p: "dbq_pop q = (r, q1)" by (cases "dbq_pop q")
  then have r: "r = None" using assms(2) by (cases r) (auto simp: dbq_take_def)
  then have q1: "q1 = q" "dbq_size q = 0" using db.pop_None[OF assms(1)] p by auto
  note S = dbq_swap_content[OF assms(1) q1(2)]
  have "dbq_size (dbq_swap q) = 0" using db.pop_None[of "dbq_swap q" q'] S assms(2) p r q1 by (simp add: dbq_take_def)
  then show ?thesis using S by simp
qed

lemma dbq_push_size: "dbq_size (snd (dbq_push q t)) = dbq_size q"
proof -
  have "NextQueueIndex (db_index q) \<noteq> db_index q" unfolding NextQueueIndex_def by presburger
  then show ?thesis by (simp add: dbq_push_def dbq_insert_def dbq_size_def)
qed

lemma dbq_push_facts: "dbq_ok q \<Longrightarrow> dbq_ok (snd (dbq_push q t)) \<and> dbq_content (snd (dbq_push q t)) = dbq_content q @ [t]"
  using db.push_invar[of q t] dbq_push_content[of q t] by (metis prod.collapse)

datatype rmq_op = WriteOp "byte list" "byte list" "byte list" | WriterRound

fun op_ok :: "rmq_op \<Rightarrow> bool" where
  "op_ok (WriteOp msg ex key) \<longleftrightarrow> name_ok ex \<and> name_ok key \<and> length msg < 2 ^ 64"
| "op_ok WriterRound \<longleftrightarrow> True"

text \<open>The owner writes and the thread runs, in any order; what has been accepted and what has been published.\<close>

fun rmq_run :: "('c, 'w) amqp \<Rightarrow> heap_env \<Rightarrow> rmq_op list \<Rightarrow> 'c rmq \<times> 'w \<times> rmq_message list \<times> rmq_message list \<Rightarrow>
    ('c rmq \<times> 'w \<times> rmq_message list \<times> rmq_message list) option" where
  "rmq_run A H [] s = Some s"
| "rmq_run A H (WriteOp msg ex key # ops) (cl, w, written, sent) = do {
     (ok, cl1) \<leftarrow> Rabbit_Write H msg ex key cl;
     rmq_run A H ops (cl1, w, if ok then written @ [resolve (rq_conf cl) msg ex key] else written, sent) }"
| "rmq_run A H (WriterRound # ops) (cl, w, written, sent) = do {
     (m, cl1, w1) \<leftarrow> writer_round A cl w;
     rmq_run A H ops (cl1, w1, written, sent @ (case m of None \<Rightarrow> [] | Some x \<Rightarrow> [x])) }"

definition queued :: "'c rmq \<Rightarrow> rmq_message list" where
  "queued cl = map (\<lambda>b. the (member_msg (rq_conf cl) b)) (dbq_content (rq_write cl))"

definition rmq_inv :: "'c rmq \<Rightarrow> bool" where
  "rmq_inv cl \<longleftrightarrow> dbq_ok (rq_write cl) \<and> (\<forall>b\<in>set (dbq_content (rq_write cl)). member_msg (rq_conf cl) b \<noteq> None)
     \<and> (rq_producer_reconnect cl \<or> rq_producer cl \<noteq> None)"

lemma Rabbit_Write_inv:
  assumes "rmq_inv cl" "name_ok ex" "name_ok key" "length msg < 2 ^ 64"
  shows "\<exists>ok cl1. Rabbit_Write H msg ex key cl = Some (ok, cl1) \<and> rmq_inv cl1 \<and> rq_conf cl1 = rq_conf cl
     \<and> queued cl1 = queued cl @ (if ok then [resolve (rq_conf cl) msg ex key] else [])"
proof (cases "malloc_block H (216 + length msg)")
  case None
  then show ?thesis using assms(1) by (intro exI[of _ False] exI[of _ cl]) (simp add: Rabbit_Write_def)
next
  case (Some b0)
  then have l: "length b0 = 216 + length msg" by (auto simp: malloc_block_def split: if_splits)
  obtain b where b: "Write_block b0 msg ex key = Some b" "member_msg (rq_conf cl) b = Some (resolve (rq_conf cl) msg ex key)"
    using Write_block_msg[OF l assms(2-4)] by blast
  have "dbq_ok (rq_write cl)" using assms(1) by (simp add: rmq_inv_def)
  then show ?thesis using Some b assms(1) dbq_push_facts[of "rq_write cl" b]
    by (intro exI[of _ True] exI[of _ "cl\<lparr> rq_write := snd (dbq_push (rq_write cl) b) \<rparr>"]) (auto simp: Rabbit_Write_def rmq_inv_def queued_def resolve_def)
qed

lemma writer_connect_inv:
  assumes "writer_connect A cl w = (cl1, w1)" "rmq_inv cl"
  shows "rmq_inv cl1 \<and> rq_conf cl1 = rq_conf cl \<and> queued cl1 = queued cl \<and> rq_producer cl1 \<noteq> None"
  using assms by (auto simp: writer_connect_def InitProducerRabbitMQClient_def rmq_inv_def queued_def Let_def split: prod.splits if_splits)

lemma writer_round_inv:
  assumes "rmq_inv cl"
  shows "\<exists>m cl1 w1. writer_round A cl w = Some (m, cl1, w1) \<and> rmq_inv cl1 \<and> rq_conf cl1 = rq_conf cl
     \<and> (case m of Some x \<Rightarrow> queued cl = x # queued cl1
        | None \<Rightarrow> queued cl1 = queued cl \<or> (\<exists>x xs. queued cl = x # xs \<and> queued cl1 = xs @ [x] \<and> (\<exists>ch ex key d c w. fst (am_publish A ch ex key d c w) \<noteq> 0)))"
proof -
  obtain cl1 w1 where c: "writer_connect A cl w = (cl1, w1)" by (cases "writer_connect A cl w")
  note I = writer_connect_inv[OF c assms]
  have e: "rq_conf cl1 = rq_conf cl" "queued cl1 = queued cl" using I by simp_all
  have inv1: "rmq_inv cl1" using I by simp
  obtain p where p: "rq_producer cl1 = Some p" using I by blast
  have ok: "dbq_ok (rq_write cl1)" using I by (simp add: rmq_inv_def)
  obtain r q where t: "dbq_take (rq_write cl1) = (r, q)" by (cases "dbq_take (rq_write cl1)")
  note T = dbq_take_content[OF ok t]
  show ?thesis
  proof (cases r)
    case None
    then have "writer_round A cl w = Some (None, cl1\<lparr> rq_write := q \<rparr>, w1)" using c t by (simp add: writer_round_def)
    moreover have "rmq_inv (cl1\<lparr> rq_write := q \<rparr>)" using inv1 T None by (simp add: rmq_inv_def)
    moreover have "queued (cl1\<lparr> rq_write := q \<rparr>) = queued cl" using e T None by (simp add: queued_def)
    ultimately show ?thesis using e by simp
  next
    case (Some b)
    then have b: "dbq_content (rq_write cl1) = b # dbq_content q" "dbq_ok q" using T by simp_all
    then have "member_msg (rq_conf cl1) b \<noteq> None" using inv1 by (simp add: rmq_inv_def)
    then obtain ex key d where m: "name_or b 0 (rc_write_exchange (rq_conf cl1)) = Some ex"
        "name_or b 100 (rc_write_key (rq_conf cl1)) = Some key" "member_data b = Some d"
      by (auto simp: member_msg_def split: Option.bind_splits)
    have d: "member_msg (rq_conf cl1) b = Some (ex, key, d)" using m by (simp add: member_msg_def)
    obtain status c1 w2 where pub: "am_publish A (rc_channel (rq_conf cl1)) ex key d p w1 = (status, c1, w2)"
      by (cases "am_publish A (rc_channel (rq_conf cl1)) ex key d p w1")
    show ?thesis
    proof (cases "status = 0")
      case True
      then have "writer_round A cl w = Some (Some (ex, key, d), cl1\<lparr> rq_producer := Some c1, rq_write := q \<rparr>, w2)"
        using c t Some m p pub by (simp add: writer_round_def)
      moreover have "rmq_inv (cl1\<lparr> rq_producer := Some c1, rq_write := q \<rparr>)" using inv1 b by (simp add: rmq_inv_def)
      moreover have "queued cl = (ex, key, d) # queued (cl1\<lparr> rq_producer := Some c1, rq_write := q \<rparr>)"
        using e(2)[symmetric] b d by (simp add: queued_def)
      ultimately show ?thesis using e by simp
    next
      case False
      then have w: "writer_round A cl w = Some (None, cl1\<lparr> rq_producer := Some c1, rq_write := q, rq_producer_reconnect := True,
          rq_write := snd (dbq_push q b) \<rparr>, w2)"
        using c t Some m p pub by (simp add: writer_round_def)
      have "fst (am_publish A (rc_channel (rq_conf cl1)) ex key d p w1) \<noteq> 0" using pub False by simp
      then have f: "\<exists>ch ex key d c w. fst (am_publish A ch ex key d c w) \<noteq> 0" by blast
      let ?cl2 = "cl1\<lparr> rq_producer := Some c1, rq_write := q, rq_producer_reconnect := True, rq_write := snd (dbq_push q b) \<rparr>"
      note P = dbq_push_facts[OF b(2), of b]
      have "rmq_inv ?cl2" using inv1 b P by (simp add: rmq_inv_def)
      moreover have "queued cl = (ex, key, d) # map (\<lambda>b. the (member_msg (rq_conf cl1) b)) (dbq_content q)"
        using e(2)[symmetric] b d by (simp add: queued_def)
      moreover have "queued ?cl2 = map (\<lambda>b. the (member_msg (rq_conf cl1) b)) (dbq_content q) @ [(ex, key, d)]" using P d by (simp add: queued_def)
      ultimately show ?thesis using w e(1) f by (intro exI[of _ None] exI[of _ ?cl2] exI[of _ w2]) simp
    qed
  qed
qed


text \<open>A broker that refuses one publication: the message that failed goes out after the one written later.\<close>

definition demo_amqp :: "(unit, nat) amqp" where
  "demo_amqp = \<lparr> am_new = (\<lambda>w. ((), w)), am_socket = (\<lambda>c w. (True, c, w)), am_open = (\<lambda>h p c w. (0, c, w)), am_login = (\<lambda>u p c w. (True, c, w)),
     am_channel = (\<lambda>ch c w. (True, c, w)), am_exchange = (\<lambda>ch e c w. (True, c, w)), am_queue = (\<lambda>ch q c w. (Some q, c, w)),
     am_dup = (\<lambda>q w. True), am_bind = (\<lambda>ch q e k c w. (True, c, w)), am_consume = (\<lambda>ch q c w. (True, c, w)), am_close = (\<lambda>ch c w. w),
     am_publish = (\<lambda>ch e k d c w. (if w = 0 then - 9 else 0, c, w + 1)), am_consume_message = (\<lambda>c w. (Received [0x68, 0x69] (w + 7), c, w)),
     am_wait_frame = (\<lambda>c w. ((0, OtherFrame), c, w)), am_answer = (\<lambda>ch t b c w. (0, c, w)) \<rparr>"


subsection \<open>The reading thread\<close>

lemma InitRabbitMQClient_conn: "InitRabbitMQClient A cl w = (ok, cl1, w1) \<Longrightarrow> rq_conn cl1 \<noteq> None"
  by (auto simp: InitRabbitMQClient_def Let_def split: prod.splits option.splits if_splits)

lemma reader_connect_conn:
  assumes "reader_connect A cl w = Some (cl1, w1)"
  shows "rq_conn cl1 = None \<longleftrightarrow> \<not> rq_need_reconnect cl \<and> rq_conn cl = None"
proof (cases "rq_need_reconnect cl")
  case True
  then obtain cl0 w0 ok cl2 where "InitRabbitMQClient A cl0 w0 = (ok, cl2, w1)" "cl1 = (if ok then cl2\<lparr> rq_need_reconnect := False \<rparr> else cl2)"
    using assms by (auto simp: reader_connect_def split: Option.bind_splits prod.splits)
  then show ?thesis using InitRabbitMQClient_conn[of A cl0 w0 ok cl2 w1] True by simp
next
  case False
  then show ?thesis using assms by (simp add: reader_connect_def)
qed

text \<open>When a round is undefined: exactly when there is no connection to read from, or a name to free that is not one.\<close>

lemma reader_round_undefined_iff:
  "reader_round A H cl w = None \<longleftrightarrow> dbq_size (rq_read cl) < 100 \<and>
     (if rq_need_reconnect cl then rq_conn cl \<noteq> None \<and> rq_rep cl \<in> {Garbage, Freed} else rq_conn cl = None)"
proof -
  have c: "reader_connect A cl w = None \<longleftrightarrow> rq_need_reconnect cl \<and> rq_conn cl \<noteq> None \<and> rq_rep cl \<in> {Garbage, Freed}"
    by (auto simp: reader_connect_def free_rep_def split: option.splits rep_state.splits prod.splits)
  show ?thesis
  proof (cases "reader_connect A cl w")
    case None
    then show ?thesis using c by (auto simp: reader_round_def)
  next
    case (Some x)
    then obtain cl1 w1 where x: "reader_connect A cl w = Some (cl1, w1)" by (cases x) auto
    then have "reader_round A H cl w = None \<longleftrightarrow> dbq_size (rq_read cl) < 100 \<and> rq_conn cl1 = None"
      by (cases "rq_conn cl1") (simp_all add: reader_round_def not_le del: not_None_eq split_paired_Ex)
    then show ?thesis using reader_connect_conn[OF x] c x by auto
  qed
qed

lemma received_block_eq:
  "heap_ok H \<Longrightarrow> received_block H body tag = Some (map (he_fill H) [0..<200] @ le_encode 8 (length body) @ le_encode 8 tag @ body)"
  by (simp add: received_block_def malloc_block_def heap_okD memcpy_at_def take_map drop_map)

lemma take_message_frame:
  assumes "take_message A H c cl w = (go, cl1, w1)"
  shows "rq_conn cl1 \<noteq> None" "rq_rep cl1 = rq_rep cl" "dbq_size (rq_read cl1) = dbq_size (rq_read cl)"
    "rq_need_reconnect cl \<Longrightarrow> rq_need_reconnect cl1" "heap_ok H \<Longrightarrow> go"
  using assms
  by (auto simp: take_message_def Let_def dbq_push_size received_block_eq split: prod.splits consume_reply.splits option.splits if_splits)

lemma received_block_message:
  assumes "received_block H body tag = Some b" "length body < 2 ^ 64" "tag < 2 ^ 64"
  shows "member_data b = Some body" "member_tag b = tag"
proof -
  have h: "he_ok H (216 + length body)" using assms(1) by (auto simp: received_block_def malloc_block_def split: if_splits Option.bind_splits)
  have b: "b = map (he_fill H) [0..<200] @ le_encode 8 (length body) @ le_encode 8 tag @ body"
    using assms(1) h by (simp add: received_block_def malloc_block_def memcpy_at_def take_map drop_map)
  have "member_len b = length body" using assms(2) unfolding b by (simp add: member_len_def)
  then show "member_data b = Some body" unfolding member_data_def by (simp add: b mem_read_def)
  show "member_tag b = tag" using assms(3) unfolding b by (simp add: member_tag_def)
qed

text \<open>C36: When the broker cannot be reached, the second attempt in a row is undefined: the thread frees the name of a queue that it
  never got, or that it has freed already.\<close>

theorem reader_down_undefined:
  assumes "\<forall>host port c w. fst (am_open A host port c w) \<noteq> 0" "heap_ok H"
    and "rq_need_reconnect cl" "dbq_size (rq_read cl) < 100" "rq_rep cl \<noteq> NullRep" "rq_conn cl = None \<longrightarrow> rq_rep cl = Garbage"
  shows "do { (go, cl1, w1) \<leftarrow> reader_round A H cl w; (if go then reader_round A H cl1 w1 else Some (go, cl1, w1)) } = None"
proof -
  have state: "am_open A host port c w = (st, c', w') \<Longrightarrow> st \<noteq> 0" for host port c w st c' w'
    using assms(1) by (metis fst_conv)
  have fail: "\<not> fst (open_login A f w)" for f w
    by (auto simp: open_login_def and_then_def dest: state split: prod.splits)
  have init: "\<exists>c w1. InitRabbitMQClient A cl w = (False, cl\<lparr> rq_conn := Some c \<rparr>, w1)" for cl w
  proof -
    obtain c w1 where "open_login A (rq_conf cl) w = (False, c, w1)" using fail[of "rq_conf cl" w] by (cases "open_login A (rq_conf cl) w") auto
    then show ?thesis by (intro exI[of _ c] exI[of _ w1]) (simp add: InitRabbitMQClient_def Let_def and_then_def)
  qed
  show ?thesis
  proof (cases "reader_connect A cl w")
    case None
    then show ?thesis using assms(4) by (simp add: reader_round_def)
  next
    case (Some y)
    have "\<exists>c w1 rep. reader_connect A cl w = Some (cl\<lparr> rq_rep := rep, rq_conn := Some c \<rparr>, w1) \<and> rep \<in> {Garbage, Freed}"
    proof (cases "rq_conn cl")
      case None
      obtain c w1 where i: "InitRabbitMQClient A cl w = (False, cl\<lparr> rq_conn := Some c \<rparr>, w1)" using init by blast
      have "cl\<lparr> rq_rep := Garbage, rq_conn := Some c \<rparr> = cl\<lparr> rq_conn := Some c \<rparr>" using assms(6) None by (cases cl) simp
      then have "reader_connect A cl w = Some (cl\<lparr> rq_rep := Garbage, rq_conn := Some c \<rparr>, w1)"
        using i None assms(3) by (simp add: reader_connect_def)
      then show ?thesis by blast
    next
      case (Some c0)
      then obtain q where "rq_rep cl = Owned q" using \<open>reader_connect A cl w = Some y\<close> assms(3,5) by (cases "rq_rep cl") (auto simp: reader_connect_def free_rep_def)
      moreover obtain c w1 where "InitRabbitMQClient A (cl\<lparr> rq_rep := Freed \<rparr>) (am_close A (rc_channel (rq_conf cl)) c0 w) =
          (False, cl\<lparr> rq_rep := Freed, rq_conn := Some c \<rparr>, w1)" using init by blast
      ultimately have "reader_connect A cl w = Some (cl\<lparr> rq_rep := Freed, rq_conn := Some c \<rparr>, w1)"
        using Some assms(3) by (simp add: reader_connect_def free_rep_def)
      then show ?thesis by blast
    qed
    then obtain c w1 rep where r: "reader_connect A cl w = Some (cl\<lparr> rq_rep := rep, rq_conn := Some c \<rparr>, w1)" "rep \<in> {Garbage, Freed}" by blast
    obtain go cl1 w2 where t: "take_message A H c (cl\<lparr> rq_rep := rep, rq_conn := Some c \<rparr>) w1 = (go, cl1, w2)"
      by (cases "take_message A H c (cl\<lparr> rq_rep := rep, rq_conn := Some c \<rparr>) w1")
    have "reader_round A H cl w = Some (go, cl1, w2)" using r t assms(4) by (simp add: reader_round_def)
    moreover have "reader_round A H cl1 w2 = None"
      using take_message_frame[OF t] assms(3,4) r(2) by (simp add: reader_round_undefined_iff)
    ultimately show ?thesis using take_message_frame(5)[OF t assms(2)] by simp
  qed
qed

lemma reader_down_undefined_witness:
  "do { (go, cl1, w1) \<leftarrow> reader_round (demo_amqp\<lparr> am_open := \<lambda>h p c w. (- 1, c, w) \<rparr>) plenty RabbitMQClient_new 0;
     (if go then reader_round (demo_amqp\<lparr> am_open := \<lambda>h p c w. (- 1, c, w) \<rparr>) plenty cl1 w1 else Some (go, cl1, w1)) } = None"
  by (rule reader_down_undefined) (simp_all add: RabbitMQClient_new_def)

subsection \<open>Messages in order\<close>

text \<open>The limit on the queue looks at the side that the owner reads, so a thread whose owner does not read goes on.\<close>

primrec reader_rounds :: "('c, 'w) amqp \<Rightarrow> heap_env \<Rightarrow> nat \<Rightarrow> 'c rmq \<times> 'w \<Rightarrow> ('c rmq \<times> 'w) option" where
  "reader_rounds A H 0 s = Some s"
| "reader_rounds A H (Suc n) s = do {
     (go, cl, w) \<leftarrow> reader_round A H (fst s) (snd s);
     (if go then reader_rounds A H n (cl, w) else Some (cl, w)) }"

lemma limit_ineffective:
  assumes "\<forall>c w. \<exists>body tag c1 w1. am_consume_message A c w = (Received body tag, c1, w1)" "heap_ok H"
  shows "\<not> rq_need_reconnect cl \<Longrightarrow> rq_conn cl \<noteq> None \<Longrightarrow> dbq_ok (rq_read cl) \<Longrightarrow> dbq_size (rq_read cl) < 100 \<Longrightarrow>
    \<exists>cl' w'. reader_rounds A H n (cl, w) = Some (cl', w') \<and> length (dbq_content (rq_read cl')) = length (dbq_content (rq_read cl)) + n"
proof (induction n arbitrary: cl w)
  case (Suc n)
  then obtain c where c: "rq_conn cl = Some c" by blast
  obtain body tag c1 w1 where m: "am_consume_message A c w = (Received body tag, c1, w1)" using assms(1) by blast
  obtain b where b: "received_block H body tag = Some b" using received_block_eq[OF assms(2)] by blast
  let ?cl1 = "cl\<lparr> rq_conn := Some c1, rq_read := snd (dbq_push (rq_read cl) b) \<rparr>"
  have r: "reader_round A H cl w = Some (True, ?cl1, w1)"
    using Suc.prems c m b by (simp add: reader_round_def reader_connect_def take_message_def)
  have "\<exists>cl' w'. reader_rounds A H n (?cl1, w1) = Some (cl', w') \<and> length (dbq_content (rq_read cl')) = length (dbq_content (rq_read ?cl1)) + n"
    using Suc.prems dbq_push_facts[of "rq_read cl" b] by (intro Suc.IH) (simp_all add: dbq_push_size)
  then show ?case using r dbq_push_facts[OF Suc.prems(3), of b] by simp
qed simp

text \<open>A message is handed to the owner as it was received, and the owner sees them in order.\<close>

lemma read_message:
  assumes "received_block H body tag = Some b" "length body < 2 ^ 64" "tag < 2 ^ 64" "dbq_ok (rq_read cl)" "dbq_content (rq_read cl) = b # bs"
    and "\<not> (rq_start_time cl > 0 \<and> rq_start_time cl < now)"
  shows "\<exists>cl'. Rabbit_Read now cl = Some (body, Some tag, cl') \<and> dbq_content (rq_read cl') = bs"
proof -
  obtain r q where t: "dbq_take (rq_read cl) = (r, q)" by (cases "dbq_take (rq_read cl)")
  have "r = Some b" "dbq_content q = bs"
    using dbq_take_content[OF assms(4) t] assms(5) dbq_take_None[OF assms(4)] t by (auto split: option.splits)
  then show ?thesis using received_block_message[OF assms(1-3)] assms(6) t by (simp add: Rabbit_Read_def)
qed

subsection \<open>Frames\<close>

inductive feeds :: "('c, 'w) amqp \<Rightarrow> amqp_frame list \<Rightarrow> 'c \<Rightarrow> 'w \<Rightarrow> 'c \<Rightarrow> 'w \<Rightarrow> bool" for A where
  "feeds A [] c w c w"
| "am_wait_frame A c w = ((r, f), c1, w1) \<Longrightarrow> r \<ge> 0 \<Longrightarrow> feeds A fs c1 w1 c2 w2 \<Longrightarrow> feeds A (f # fs) c w c2 w2"

inductive_cases feeds_ConsE: "feeds A (f # fs) c w c2 w2"
inductive_cases feeds_NilE: "feeds A [] c w c2 w2"

lemma block_body_feeds:
  "feeds A (map BodyFrame ps) c w c' w' \<Longrightarrow> [] \<notin> set ps \<Longrightarrow> block_body A (length (got @ concat ps)) got c w = Some (got @ concat ps, c', w')"
proof (induction ps arbitrary: got c w)
  case Nil
  then show ?case by (subst block_body.simps) (auto elim: feeds_NilE)
next
  case (Cons p ps)
  obtain r c1 w1 where f: "am_wait_frame A c w = ((r, BodyFrame p), c1, w1)" "r \<ge> 0" "feeds A (map BodyFrame ps) c1 w1 c' w'"
    using Cons.prems(1) by (auto elim: feeds_ConsE)
  have "length p > 0" using Cons.prems(2) by auto
  then show ?case using Cons.IH[OF f(3), of "got @ p"] Cons.prems(2) f(1,2) by (subst block_body.simps) simp
qed

lemma block_reassembles:
  assumes "rq_conn cl = Some c" "feeds A (MethodFrame AMQP_BASIC_DELIVER_METHOD tag # HeaderFrame (length (concat ps)) # map BodyFrame ps) c w c' w'"
    and "[] \<notin> set ps" "heap_ok H" "length (concat ps) < 2 ^ 64" "tag < 2 ^ 64"
  shows "\<exists>b. block_round A H cl w = Some (True, cl\<lparr> rq_conn := Some c', rq_read := snd (dbq_push (rq_read cl) b) \<rparr>, w')
     \<and> member_data b = Some (concat ps) \<and> member_tag b = tag"
proof -
  let ?b = "replicate 200 0 @ le_encode 8 (length (concat ps)) @ le_encode 8 tag @ concat ps"
  obtain r1 c1 w1 r2 c2 w2 where f: "am_wait_frame A c w = ((r1, MethodFrame AMQP_BASIC_DELIVER_METHOD tag), c1, w1)" "r1 \<ge> 0"
      "am_wait_frame A c1 w1 = ((r2, HeaderFrame (length (concat ps))), c2, w2)" "r2 \<ge> 0" "feeds A (map BodyFrame ps) c2 w2 c' w'"
    using assms(2) by (auto elim!: feeds_ConsE)
  have "block_body A (length (concat ps)) [] c2 w2 = Some (concat ps, c', w')" using block_body_feeds[OF f(5) assms(3), of "[]"] by simp
  then have "block_round A H cl w = Some (True, cl\<lparr> rq_conn := Some c', rq_read := snd (dbq_push (rq_read cl) ?b) \<rparr>, w')"
    using f(1-4) assms(1) by (simp add: block_round_def Let_def heap_okD[OF assms(4)])
  moreover have n: "member_len ?b = length (concat ps)" using assms(5) by (simp add: member_len_def)
  have "member_data ?b = Some (concat ps)" unfolding member_data_def n by (simp add: mem_read_def)
  moreover have "member_tag ?b = tag" using assms(6) by (simp add: member_tag_def)
  ultimately show ?thesis by blast
qed

text \<open>A frame longer than the rest of the announced body is written past the block.\<close>

lemma block_body_overflow:
  "am_wait_frame A c w = ((r, BodyFrame p), c1, w1) \<Longrightarrow> r \<ge> 0 \<Longrightarrow> length got < target \<Longrightarrow> target < length got + length p \<Longrightarrow>
     block_body A target got c w = None"
  by (subst block_body.simps) simp

subsection \<open>The destructor\<close>

lemma queue_free_all:
  assumes "dbq_ok q"
  shows "\<exists>xs. queue_free q = Some xs \<and> mset xs = mset (dbq_content q)"
proof -
  obtain a b where q: "db_queues q = [a, b]" using assms unfolding dbq_ok_def by (metis (no_types, lifting) Suc_length_conv length_0_conv numeral_2_eq_2)
  have s: "dbq_ok (dbq_swap q)" using assms by (simp add: dbq_ok_def dbq_swap_def)
  obtain q1 where q1: "drain dbq_pop (dbq_swap q) = Some (take (dbq_size (dbq_swap q)) (dbq_content (dbq_swap q)), q1)" "dbq_ok q1"
      "dbq_content q1 = drop (dbq_size (dbq_swap q)) (dbq_content (dbq_swap q))" "dbq_size q1 = 0"
    using db.drain_ready[OF s] by blast
  obtain q2 where q2: "drain dbq_pop (dbq_swap q1) = Some (dbq_content q1, q2)" using dbq_swap_drain[OF q1(2,4)] by blast
  have "mset (dbq_content (dbq_swap q)) = mset (dbq_content q)"
    using assms q by (auto simp: dbq_content_def dbq_swap_def NextQueueIndex_def dbq_ok_def less_2_cases_iff)
  moreover have "queue_free q = Some (dbq_content (dbq_swap q))" using q1(1,3) q2 by (simp add: queue_free_def)
  ultimately show ?thesis by blast
qed

end
