(* ===== verification/Zookeeper.thy ===== *)
theory Zookeeper
  imports Json
begin

text \<open>
  The configuration of a service from ZooKeeper (\<open>zookeeper_role.cpp\<close>, \<open>zookeeper_node.cpp\<close>, \<open>zookeeper_client.cpp\<close>,
  \<open>zookeeper_service.cpp\<close>): a node of the service names its roles, every role has a document, and the documents are
  merged.  The client of ZooKeeper is the parameter \<open>Z\<close> over the state \<open>'w\<close> of what is behind it; roles are objects of
  a heap, because watches keep pointers to them.  \<^const>\<open>None\<close> is undefined behaviour, an exception that nobody
  catches, or a call that does not return.
\<close>

subsection \<open>Documents\<close>

text \<open>What the merge uses of rapidjson beside reading: moving a member's value leaves null behind.\<close>

record 'j json_edit = "'j json_api" +
  js_null :: 'j
  js_remove :: "'j \<Rightarrow> byte list \<Rightarrow> 'j"
  js_set :: "'j \<Rightarrow> byte list \<Rightarrow> 'j \<Rightarrow> 'j"
  js_pretty :: "'j \<Rightarrow> byte list"

primrec merge_keys :: "'j json_edit \<Rightarrow> byte list list \<Rightarrow> 'j \<Rightarrow> 'j \<Rightarrow> ('j \<times> 'j) option" where
  "merge_keys J [] res addition = Some (res, addition)"
| "merge_keys J (n # ns) res addition =
     (let k = cstr n; res1 = (if js_member J res k \<noteq> None then js_remove J res k else res)
      in case js_member J addition k of
           None \<Rightarrow> None
         | Some v \<Rightarrow> merge_keys J ns (js_add J res1 k v) (js_set J addition k (js_null J)))"

definition MergeJsonValue :: "'j json_edit \<Rightarrow> 'j \<Rightarrow> 'j \<Rightarrow> ('j \<times> 'j) option" where
  "MergeJsonValue J res addition =
     (if js_is_object J addition then merge_keys J (map fst (js_members J addition)) res addition else Some (res, addition))"

text \<open>\<open>ZkRole::merge\<close> on the documents of the roles.\<close>

primrec merge_infos :: "'j json_edit \<Rightarrow> 'j list \<Rightarrow> 'j \<Rightarrow> ('j \<times> 'j list) option" where
  "merge_infos J [] config = Some (config, [])"
| "merge_infos J (i # infos) config = do {
     (config1, i1) \<leftarrow> MergeJsonValue J config i;
     (config2, infos1) \<leftarrow> merge_infos J infos config1;
     Some (config2, i1 # infos1) }"

subsection \<open>Roles, the node and the client\<close>

record 'j zk_role =
  zr_name :: "byte list"
  zr_version :: "byte list"
  zr_stat :: int   \<comment> \<open>the version in \<open>Stat\<close>\<close>
  zr_info :: 'j

definition ZkRole_new :: "'j json_edit \<Rightarrow> byte list \<Rightarrow> byte list \<Rightarrow> 'j zk_role" where
  "ZkRole_new J name version = \<lparr> zr_name = name, zr_version = version, zr_stat = 0, zr_info = js_object J \<rparr>"

text \<open>What \<open>zoo_wget\<close> has read: the data, none if the node has none (then the length is \<open>-1\<close>), and the version.
  A \<open>std::string\<close> of that length throws.\<close>

type_synonym zk_data = "byte list option \<times> int"

definition ZkRole_Update :: "'j json_edit \<Rightarrow> zk_data \<Rightarrow> 'j zk_role \<Rightarrow> 'j zk_role option" where
  "ZkRole_Update J d r = do {
     msg \<leftarrow> fst d;
     Some (r\<lparr> zr_stat := snd d, zr_info := js_parse J (cstr msg) \<rparr>) }"

record 'j zk =
  zk_namespace :: "byte list"
  zk_service :: "byte list"
  zk_name :: "byte list"
  zk_ips :: "byte list"
  zk_stat :: int
  zk_info :: 'j
  zk_merged :: 'j
  zk_roles :: "nat list"
  zk_heap :: "nat \<Rightarrow> 'j zk_role option"
  zk_next :: nat
  zk_ctxs :: "nat \<Rightarrow> nat option"   \<comment> \<open>\<open>rwcs_\<close>: the contexts of watches and the roles they point to\<close>
  zk_next_ctx :: nat
  zk_changed :: bool
  zk_running :: bool

definition ZkService_new :: "'j json_edit \<Rightarrow> byte list \<Rightarrow> byte list \<Rightarrow> byte list \<Rightarrow> byte list \<Rightarrow> 'j zk" where
  "ZkService_new J ns service node ips =
     \<lparr> zk_namespace = ns, zk_service = service, zk_name = node, zk_ips = ips, zk_stat = 0, zk_info = js_obj J [(bytes ''ips'', js_str J (cstr ips))],
       zk_merged = js_object J, zk_roles = [], zk_heap = Map.empty, zk_next = 0, zk_ctxs = Map.empty, zk_next_ctx = 0, zk_changed = False,
       zk_running = False \<rparr>"

definition ResetRoles :: "'j zk \<Rightarrow> 'j zk" where
  "ResetRoles z = z\<lparr> zk_heap := zk_heap z |` (- set (zk_roles z)), zk_roles := [] \<rparr>"

definition add_role :: "'j zk_role \<Rightarrow> 'j zk \<Rightarrow> 'j zk" where
  "add_role r z = z\<lparr> zk_heap := (zk_heap z)(zk_next z \<mapsto> r), zk_roles := zk_roles z @ [zk_next z], zk_next := zk_next z + 1 \<rparr>"

text \<open>A pair of anything but two strings is undefined, other elements are left out.\<close>

primrec role_pairs :: "'j json_edit \<Rightarrow> 'j list \<Rightarrow> 'j zk \<Rightarrow> 'j zk option" where
  "role_pairs J [] z = Some z"
| "role_pairs J (v # vs) z =
     (if js_is_array J v \<and> length (js_elements J v) = 2
      then do {
        name \<leftarrow> get_String J (js_elements J v ! 0);
        version \<leftarrow> get_String J (js_elements J v ! 1);
        role_pairs J vs (add_role (ZkRole_new J name version) z) }
      else role_pairs J vs z)"

text \<open>The size is an \<open>int16_t\<close>.\<close>

definition UpdateRoles :: "'j json_edit \<Rightarrow> 'j zk \<Rightarrow> 'j zk option" where
  "UpdateRoles J z =
     (let z1 = ResetRoles z
      in case js_member J (zk_info z1) (bytes ''roles'') of
           None \<Rightarrow> Some z1
         | Some v \<Rightarrow>
             (if js_is_array J v
              then role_pairs J (take (nat (sint (word_of_nat (length (js_elements J v)) :: 16 word))) (js_elements J v)) z1
              else Some z1))"

definition ZkNode_Update :: "'j json_edit \<Rightarrow> zk_data \<Rightarrow> 'j zk \<Rightarrow> 'j zk option" where
  "ZkNode_Update J d z = do {
     msg \<leftarrow> fst d;
     (let z1 = z\<lparr> zk_stat := snd d \<rparr>; tmp = js_parse J (cstr msg)
      in if \<not> js_is_object J tmp then None
         else case js_member J tmp (bytes ''roles'') of
           None \<Rightarrow> Some z1
         | Some v \<Rightarrow> UpdateRoles J (z1\<lparr> zk_info := (if js_member J (zk_info z1) (bytes ''roles'') \<noteq> None
             then js_set J (zk_info z1) (bytes ''roles'') v else js_add J (zk_info z1) (bytes ''roles'') v) \<rparr>)) }"

definition MergeConfigure :: "'j json_edit \<Rightarrow> 'j zk \<Rightarrow> ('j \<times> 'j zk) option" where
  "MergeConfigure J z =
     (if \<exists>a\<in>set (zk_roles z). zk_heap z a = None then None
      else do {
        (config, infos) \<leftarrow> merge_infos J (map (\<lambda>a. zr_info (the (zk_heap z a))) (zk_roles z)) (zk_merged z);
        Some (config, z\<lparr> zk_merged := config,
          zk_heap := fold (\<lambda>(a, i) h. h(a \<mapsto> (the (h a))\<lparr> zr_info := i \<rparr>)) (zip (zk_roles z) infos) (zk_heap z) \<rparr>) })"

subsection \<open>The client\<close>

record 'w zoo =
  zo_init :: "byte list \<Rightarrow> 'w \<Rightarrow> 'w"
  zo_close :: "'w \<Rightarrow> 'w"
  zo_create :: "byte list \<Rightarrow> 'w \<Rightarrow> int \<times> 'w"
  zo_acreate :: "byte list \<Rightarrow> 'w \<Rightarrow> int \<times> 'w"
  zo_aset :: "byte list \<Rightarrow> byte list \<Rightarrow> 'w \<Rightarrow> int \<times> 'w"
  zo_wget :: "byte list \<Rightarrow> 'w \<Rightarrow> (int \<times> zk_data) \<times> 'w"
  zo_awexists :: "byte list \<Rightarrow> 'w \<Rightarrow> int \<times> 'w"

definition ZOK :: int where "ZOK = 0"

definition ZNODEEXISTS :: int where "ZNODEEXISTS = - 110"

definition slash :: "byte list list \<Rightarrow> byte list" where
  "slash parts = concat (map (\<lambda>p. 0x2F # p) parts)"

definition services_path :: "'j zk \<Rightarrow> byte list" where
  "services_path z = slash [zk_namespace z, bytes ''services'', zk_service z]"

definition node_path :: "'j zk \<Rightarrow> byte list" where
  "node_path z = slash [zk_namespace z, bytes ''conf'', zk_service z, bytes ''nodes'', zk_name z]"

definition role_path :: "'j zk \<Rightarrow> 'j zk_role \<Rightarrow> byte list" where
  "role_path z r = slash [zk_namespace z, bytes ''conf'', zk_service z, bytes ''roles'', zr_name r, zr_version r]"

text \<open>\<open>CreateNode\<close> and \<open>MonitorNode\<close> try until they succeed.\<close>

partial_function (option) CreateNode :: "'w zoo \<Rightarrow> byte list \<Rightarrow> byte list \<Rightarrow> 'w \<Rightarrow> (bool \<times> 'w) option" where
  "CreateNode Z name path w =
     (case zo_create Z path w of (rc, w1) \<Rightarrow>
        if rc = ZOK \<or> rc = ZNODEEXISTS
        then (case zo_acreate Z (path @ slash [name]) w1 of (rc, w2) \<Rightarrow> Some (rc = ZOK \<or> rc = ZNODEEXISTS, w2))
        else CreateNode Z name path w1)"

partial_function (option) MonitorNode :: "'w zoo \<Rightarrow> byte list \<Rightarrow> 'w \<Rightarrow> (bool \<times> 'w) option" where
  "MonitorNode Z path w = (case zo_awexists Z path w of (rc, w1) \<Rightarrow> if rc = ZOK then Some (True, w1) else MonitorNode Z path w1)"

definition UpdateNode :: "'j json_edit \<Rightarrow> 'w zoo \<Rightarrow> 'j zk \<Rightarrow> 'w \<Rightarrow> bool \<times> 'w" where
  "UpdateNode J Z z w = (case zo_aset Z (services_path z @ slash [zk_name z]) (cstr (js_pretty J (zk_info z))) w of (rc, w1) \<Rightarrow> (rc = ZOK, w1))"

definition ReadNode :: "'j json_edit \<Rightarrow> 'w zoo \<Rightarrow> byte list \<Rightarrow> 'j zk \<Rightarrow> 'w \<Rightarrow> (bool \<times> 'j zk \<times> 'w) option" where
  "ReadNode J Z path z w =
     (case zo_wget Z path w of ((rc, d), w1) \<Rightarrow>
        if rc = ZOK then do { z1 \<leftarrow> ZkNode_Update J d z; Some (True, z1, snd (UpdateNode J Z z1 w1)) } else Some (False, z, w1))"

text \<open>Updating a role that has been deleted is undefined.\<close>

definition ReadRole :: "'j json_edit \<Rightarrow> 'w zoo \<Rightarrow> byte list \<Rightarrow> nat \<Rightarrow> 'j zk \<Rightarrow> 'w \<Rightarrow> (bool \<times> 'j zk \<times> 'w) option" where
  "ReadRole J Z path a z w =
     (let z1 = z\<lparr> zk_ctxs := (zk_ctxs z)(zk_next_ctx z \<mapsto> a), zk_next_ctx := zk_next_ctx z + 1 \<rparr>
      in case zo_wget Z path w of ((rc, d), w1) \<Rightarrow>
        if rc = ZOK then do {
          r \<leftarrow> zk_heap z1 a;
          r1 \<leftarrow> ZkRole_Update J d r;
          Some (True, z1\<lparr> zk_heap := (zk_heap z1)(a \<mapsto> r1) \<rparr>, w1) }
        else Some (False, z1, w1))"

subsection \<open>Events\<close>

primrec read_roles :: "'j json_edit \<Rightarrow> 'w zoo \<Rightarrow> nat list \<Rightarrow> 'j zk \<Rightarrow> 'w \<Rightarrow> ('j zk \<times> 'w) option" where
  "read_roles J Z [] z w = Some (z, w)"
| "read_roles J Z (a # as) z w = do {
     r \<leftarrow> zk_heap z a;
     (_, z1, w1) \<leftarrow> ReadRole J Z (role_path z r) a z w;
     read_roles J Z as z1 w1 }"

definition node_changed :: "'j json_edit \<Rightarrow> 'w zoo \<Rightarrow> byte list \<Rightarrow> 'j zk \<Rightarrow> 'w \<Rightarrow> ('j zk \<times> 'w) option" where
  "node_changed J Z path z w = do {
     (ok, z1, w1) \<leftarrow> ReadNode J Z path z w;
     (if ok then do { (z2, w2) \<leftarrow> read_roles J Z (zk_roles z1) z1 w1; Some (z2\<lparr> zk_changed := True \<rparr>, w2) }
      else Some (z1, w1)) }"

definition node_deleted :: "'w zoo \<Rightarrow> byte list \<Rightarrow> 'j zk \<Rightarrow> 'w \<Rightarrow> ('j zk \<times> 'w) option" where
  "node_deleted Z path z w = do { (_, w1) \<leftarrow> MonitorNode Z path w; Some (z, w1) }"

text \<open>A context is freed when its watch has fired for a change.\<close>

definition role_changed :: "'j json_edit \<Rightarrow> 'w zoo \<Rightarrow> byte list \<Rightarrow> nat \<Rightarrow> 'j zk \<Rightarrow> 'w \<Rightarrow> ('j zk \<times> 'w) option" where
  "role_changed J Z path ctx z w = do {
     a \<leftarrow> zk_ctxs z ctx;
     (ok, z1, w1) \<leftarrow> ReadRole J Z path a z w;
     Some (z1\<lparr> zk_changed := zk_changed z1 \<or> ok, zk_ctxs := (zk_ctxs z1)(ctx := None) \<rparr>, w1) }"

definition InitSession :: "'w zoo \<Rightarrow> 'j zk \<Rightarrow> 'w \<Rightarrow> bool \<times> 'w" where
  "InitSession Z z w = (True, zo_init Z (cstr (zk_ips z)) w)"

definition CloseSession :: "'w zoo \<Rightarrow> 'w \<Rightarrow> bool \<times> 'w" where
  "CloseSession Z w = (True, zo_close Z w)"

text \<open>\<open>InitSession\<close> never fails, so the loop around it ends at once.\<close>

definition session_expired :: "'w zoo \<Rightarrow> 'j zk \<Rightarrow> 'w \<Rightarrow> 'w option" where
  "session_expired Z z w =
     (case InitSession Z z (snd (CloseSession Z w)) of (_, w1) \<Rightarrow> do {
        (_, w2) \<leftarrow> CreateNode Z (zk_name z) (cstr (services_path z)) w1;
        (_, w3) \<leftarrow> MonitorNode Z (cstr (node_path z)) w2;
        Some w3 })"

definition on_node_created :: "'w zoo \<Rightarrow> int \<Rightarrow> byte list option \<Rightarrow> 'j zk \<Rightarrow> 'w \<Rightarrow> 'w option" where
  "on_node_created Z rc path z w =
     (case path of None \<Rightarrow> Some w
      | Some p \<Rightarrow>
          (if rc = ZOK \<or> rc = ZNODEEXISTS then Some w
           else map_option snd (CreateNode Z (zk_name z)
             (if 0x2F \<in> set p then take (length p - 1 - length (takeWhile (\<lambda>b. b \<noteq> 0x2F) (rev p))) p else p) w)))"

subsection \<open>The service\<close>

definition ZkService_Init :: "'w zoo \<Rightarrow> 'j zk \<Rightarrow> 'w \<Rightarrow> bool \<times> 'w" where
  "ZkService_Init Z z w = (True, snd (InitSession Z z w))"

definition RegisterMonitor :: "'w zoo \<Rightarrow> 'j zk \<Rightarrow> 'w \<Rightarrow> (bool \<times> 'w) option" where
  "RegisterMonitor Z z w = MonitorNode Z (node_path z) w"

definition RegisterlocalNode :: "'w zoo \<Rightarrow> 'j zk \<Rightarrow> 'w \<Rightarrow> (bool \<times> 'w) option" where
  "RegisterlocalNode Z z w = CreateNode Z (zk_name z) (services_path z) w"

definition ZkService_Start :: "'w zoo \<Rightarrow> 'j zk \<Rightarrow> 'w \<Rightarrow> (bool \<times> 'j zk \<times> 'w) option" where
  "ZkService_Start Z z w = do {
     (ok, w1) \<leftarrow> RegisterMonitor Z z w;
     (if \<not> ok then Some (False, z, w1)
      else do {
        (ok, w2) \<leftarrow> RegisterlocalNode Z z w1;
        Some (ok, if ok then z\<lparr> zk_running := True \<rparr> else z, w2) }) }"

definition ZkService_Stop :: "'w zoo \<Rightarrow> 'j zk \<Rightarrow> 'w \<Rightarrow> bool \<times> 'j zk \<times> 'w" where
  "ZkService_Stop Z z w = (True, z\<lparr> zk_running := False \<rparr>, snd (CloseSession Z w))"

definition GetConfigure :: "'j json_edit \<Rightarrow> 'j zk \<Rightarrow> ('j \<times> 'j zk) option" where
  "GetConfigure J z =
     (if zk_changed z then MergeConfigure J (z\<lparr> zk_changed := False \<rparr>) else Some (zk_merged z, z\<lparr> zk_changed := False \<rparr>))"

end
