(* ===== verification/Zookeeper_Props.thy ===== *)
theory Zookeeper_Props
  imports Zookeeper
begin

text \<open>
  The merged configuration has for each key the value of the last role that has it (\<open>merge_last_wins\<close>), but a merge
  takes the values out of the roles: after one role changes, the keys of all others become null
  (\<open>merge_after_role_change\<close>).  After the node changes, the watches of its old roles point to freed memory
  (\<open>watch_dangles\<close>).
\<close>

subsection \<open>Merging\<close>

definition jm :: "'j json_edit \<Rightarrow> 'j \<Rightarrow> byte list \<rightharpoonup> 'j" where
  "jm J j = (if js_is_object J j then map_of (js_members J j) else Map.empty)"

definition obj_ok :: "'j json_edit \<Rightarrow> 'j \<Rightarrow> bool" where
  "obj_ok J j \<longleftrightarrow> js_is_object J j \<and> distinct (map fst (js_members J j))"

text \<open>The laws of the editing operations, on objects without repeated names.\<close>

definition edit_ok :: "'j json_edit \<Rightarrow> bool" where
  "edit_ok J \<longleftrightarrow> json_ok J
     \<and> (\<forall>j k. obj_ok J j \<longrightarrow> obj_ok J (js_remove J j k) \<and> map_of (js_members J (js_remove J j k)) = (map_of (js_members J j))(k := None))
     \<and> (\<forall>j k v. obj_ok J j \<longrightarrow> js_is_object J (js_set J j k v) \<and>
          js_members J (js_set J j k v) = map (\<lambda>(a, b). (a, if a = k then v else b)) (js_members J j))"

lemma edit_okD:
  assumes "edit_ok J" "obj_ok J j"
  shows "js_member J j k = jm J j k"
    and "obj_ok J (js_remove J j k)" "jm J (js_remove J j k) = (jm J j)(k := None)"
    and "jm J j k = None \<Longrightarrow> obj_ok J (js_add J j k v) \<and> jm J (js_add J j k v) = (jm J j)(k \<mapsto> v)"
proof -
  have o: "js_is_object J j" "distinct (map fst (js_members J j))" using assms(2) by (simp_all add: obj_ok_def)
  show "js_member J j k = jm J j k" using assms(1) o by (simp add: edit_ok_def json_ok_def jm_def)
  show r: "obj_ok J (js_remove J j k)" using assms by (simp add: edit_ok_def)
  show "jm J (js_remove J j k) = (jm J j)(k := None)" using assms r o by (simp add: edit_ok_def jm_def obj_ok_def)
  assume k: "jm J j k = None"
  have m: "js_is_object J (js_add J j k v) \<and> js_members J (js_add J j k v) = js_members J j @ [(k, v)]"
    using assms(1) o(1) by (simp add: edit_ok_def json_ok_def)
  have "k \<notin> fst ` set (js_members J j)" using k o by (simp add: jm_def map_of_eq_None_iff)
  moreover have "map_of (js_members J j) k = None" using k o by (simp add: jm_def)
  then have "map_of (js_members J j @ [(k, v)]) = (map_of (js_members J j))(k \<mapsto> v)" by (auto simp: map_add_def split: option.splits)
  ultimately show "obj_ok J (js_add J j k v) \<and> jm J (js_add J j k v) = (jm J j)(k \<mapsto> v)" using m o by (simp add: obj_ok_def jm_def)
qed

lemma map_of_set: "map_of (map (\<lambda>(a, b). (a, if a = k then v else b)) xs) = (\<lambda>x. if x = k then map_option (\<lambda>_. v) (map_of xs x) else map_of xs x)"
  by (induction xs) (auto simp: fun_eq_iff)

lemma js_set_facts:
  assumes "edit_ok J" "obj_ok J j"
  shows "obj_ok J (js_set J j k v)" "map fst (js_members J (js_set J j k v)) = map fst (js_members J j)"
    "jm J (js_set J j k v) = (\<lambda>x. if x = k then map_option (\<lambda>_. v) (jm J j x) else jm J j x)"
proof -
  have m: "js_is_object J (js_set J j k v)" "js_members J (js_set J j k v) = map (\<lambda>(a, b). (a, if a = k then v else b)) (js_members J j)"
    using assms unfolding edit_ok_def by blast+
  have f: "map fst (map (\<lambda>(a, b). (a, if a = k then v else b)) (js_members J j)) = map fst (js_members J j)" by (simp add: comp_def case_prod_unfold)
  show f': "map fst (js_members J (js_set J j k v)) = map fst (js_members J j)" unfolding m(2) by (rule f)
  show "obj_ok J (js_set J j k v)" unfolding obj_ok_def f' using m(1) assms(2) by (simp add: obj_ok_def)
  show "jm J (js_set J j k v) = (\<lambda>x. if x = k then map_option (\<lambda>_. v) (jm J j x) else jm J j x)"
    using m assms(2) unfolding jm_def by (simp add: map_of_set obj_ok_def)
qed

lemma merge_keys_spec:
  "edit_ok J \<Longrightarrow> obj_ok J res \<Longrightarrow> obj_ok J addition \<Longrightarrow> distinct ns \<Longrightarrow> \<forall>n\<in>set ns. 0 \<notin> set n \<and> jm J addition n \<noteq> None \<Longrightarrow>
   \<exists>res' add'. merge_keys J ns res addition = Some (res', add') \<and> obj_ok J res' \<and> obj_ok J add'
     \<and> jm J res' = jm J res ++ (jm J addition |` set ns)
     \<and> jm J add' = (\<lambda>k. if k \<in> set ns then map_option (\<lambda>_. js_null J) (jm J addition k) else jm J addition k)
     \<and> map fst (js_members J add') = map fst (js_members J addition)"
proof (induction ns arbitrary: res addition)
  case Nil
  then show ?case by (auto simp: fun_eq_iff)
next
  case (Cons n ns)
  have k: "cstr n = n" using Cons.prems(5) by (simp add: cstr_id)
  obtain v where v: "jm J addition n = Some v" using Cons.prems(5) by auto
  define res1 where "res1 = (if js_member J res n \<noteq> None then js_remove J res n else res)"
  have r1: "obj_ok J res1 \<and> jm J res1 = (jm J res)(n := None)"
    using edit_okD(1-3)[OF Cons.prems(1,2), of n] Cons.prems(2) by (auto simp: res1_def)
  define res2 where "res2 = js_add J res1 n v"
  have r2: "obj_ok J res2 \<and> jm J res2 = (jm J res)(n \<mapsto> v)"
    using edit_okD(4)[OF Cons.prems(1), of res1 n v] r1 by (simp add: res2_def)
  define add1 where "add1 = js_set J addition n (js_null J)"
  note a1 = js_set_facts[OF Cons.prems(1,3), of n "js_null J", folded add1_def]
  have "\<forall>x\<in>set ns. 0 \<notin> set x \<and> jm J add1 x \<noteq> None" using Cons.prems(4,5) a1(3) by auto
  from Cons.IH[OF Cons.prems(1) conjunct1[OF r2] a1(1) _ this] Cons.prems(4)
  obtain res' add' where ih: "merge_keys J ns res2 add1 = Some (res', add')" "obj_ok J res'" "obj_ok J add'"
      "jm J res' = jm J res2 ++ (jm J add1 |` set ns)"
      "jm J add' = (\<lambda>k. if k \<in> set ns then map_option (\<lambda>_. js_null J) (jm J add1 k) else jm J add1 k)"
      "map fst (js_members J add') = map fst (js_members J add1)" by auto
  have m: "js_member J addition n = Some v" using edit_okD(1)[OF Cons.prems(1,3), of n] v by simp
  have "merge_keys J (n # ns) res addition = Some (res', add')" using ih(1) m by (simp add: k Let_def res1_def res2_def add1_def)
  moreover have "jm J res' = jm J res ++ (jm J addition |` set (n # ns))"
    using ih(4) r2 a1(3) v Cons.prems(4) by (auto simp: fun_eq_iff map_add_def restrict_map_def split: option.splits)
  moreover have "jm J add' = (\<lambda>k. if k \<in> set (n # ns) then map_option (\<lambda>_. js_null J) (jm J addition k) else jm J addition k)"
    using ih(5) a1(3) Cons.prems(4) by (auto simp: fun_eq_iff)
  ultimately show ?case using ih(2,3,6) a1(2) by auto
qed

text \<open>A document of a role: no object, or one whose names differ and have no NUL.\<close>

definition info_ok :: "'j json_edit \<Rightarrow> 'j \<Rightarrow> bool" where
  "info_ok J i \<longleftrightarrow> js_is_object J i \<longrightarrow> obj_ok J i \<and> (\<forall>n\<in>set (map fst (js_members J i)). 0 \<notin> set n)"

lemma MergeJsonValue_spec:
  assumes "edit_ok J" "obj_ok J res" "info_ok J i"
  shows "\<exists>res' i'. MergeJsonValue J res i = Some (res', i') \<and> obj_ok J res' \<and> info_ok J i'
     \<and> jm J res' = jm J res ++ jm J i \<and> jm J i' = (\<lambda>k. map_option (\<lambda>_. js_null J) (jm J i k))"
proof (cases "js_is_object J i")
  case False
  then show ?thesis using assms(2,3) by (simp add: MergeJsonValue_def jm_def)
next
  case True
  then have o: "obj_ok J i" "\<forall>n\<in>set (map fst (js_members J i)). 0 \<notin> set n" using assms(3) by (simp_all add: info_ok_def)
  have d: "jm J i n \<noteq> None \<longleftrightarrow> n \<in> set (map fst (js_members J i))" for n
    using True map_of_eq_None_iff[of "js_members J i" n] by (simp add: jm_def del: not_None_eq)
  have "\<forall>n\<in>set (map fst (js_members J i)). 0 \<notin> set n \<and> jm J i n \<noteq> None" using o(2) d by blast
  from merge_keys_spec[OF assms(1,2) o(1) _ this] o(1)
  obtain res' i' where m: "merge_keys J (map fst (js_members J i)) res i = Some (res', i')" "obj_ok J res'" "obj_ok J i'"
      "jm J res' = jm J res ++ (jm J i |` set (map fst (js_members J i)))"
      "jm J i' = (\<lambda>k. if k \<in> set (map fst (js_members J i)) then map_option (\<lambda>_. js_null J) (jm J i k) else jm J i k)"
      "map fst (js_members J i') = map fst (js_members J i)"
    by (auto simp: obj_ok_def)
  have z: "jm J i n = None" if "n \<notin> set (map fst (js_members J i))" for n using d[of n] that by blast
  have "jm J i |` set (map fst (js_members J i)) = jm J i" using z by (auto simp: fun_eq_iff restrict_map_def)
  moreover have "jm J i' = (\<lambda>k. map_option (\<lambda>_. js_null J) (jm J i k))" unfolding m(5) using z by (auto simp: fun_eq_iff)
  moreover have "info_ok J i'" using m(3,6) o(2) by (simp add: info_ok_def)
  ultimately show ?thesis using m True by (simp add: MergeJsonValue_def)
qed

lemma merge_infos_spec:
  "edit_ok J \<Longrightarrow> obj_ok J config \<Longrightarrow> \<forall>i\<in>set infos. info_ok J i \<Longrightarrow>
   \<exists>config' infos'. merge_infos J infos config = Some (config', infos') \<and> obj_ok J config' \<and> (\<forall>i\<in>set infos'. info_ok J i)
     \<and> jm J config' = foldl (\<lambda>m i. m ++ jm J i) (jm J config) infos
     \<and> map (jm J) infos' = map (\<lambda>i k. map_option (\<lambda>_. js_null J) (jm J i k)) infos"
proof (induction infos arbitrary: config)
  case (Cons i infos)
  obtain c1 i1 where m: "MergeJsonValue J config i = Some (c1, i1)" "obj_ok J c1" "info_ok J i1" "jm J c1 = jm J config ++ jm J i"
      "jm J i1 = (\<lambda>k. map_option (\<lambda>_. js_null J) (jm J i k))"
    using MergeJsonValue_spec[OF Cons.prems(1,2), of i] Cons.prems(3) by auto
  obtain c2 infos1 where r: "merge_infos J infos c1 = Some (c2, infos1)" "obj_ok J c2" "\<forall>i\<in>set infos1. info_ok J i"
      "jm J c2 = foldl (\<lambda>m i. m ++ jm J i) (jm J c1) infos" "map (jm J) infos1 = map (\<lambda>i k. map_option (\<lambda>_. js_null J) (jm J i k)) infos"
    using Cons.IH[OF Cons.prems(1) m(2)] Cons.prems(3) by auto
  have "merge_infos J (i # infos) config = Some (c2, i1 # infos1)" using m(1) r(1) by simp
  then show ?case using m r by auto
qed simp

lemma find_SomeD: "find P xs = Some x \<Longrightarrow> x \<in> set xs \<and> P x"
  by (induction xs) (auto split: if_splits)

lemma foldl_last: "foldl (\<lambda>m i. m ++ f i) m0 is k = (case find (\<lambda>i. f i k \<noteq> None) (rev is) of Some i \<Rightarrow> f i k | None \<Rightarrow> m0 k)"
  by (induction "is" rule: rev_induct) (auto simp: map_add_def split: option.splits)

text \<open>A key of the merged configuration has the value of the last role that has the key, or the old value if none has it.\<close>

theorem merge_last_wins:
  assumes "edit_ok J" "obj_ok J config" "\<forall>i\<in>set infos. info_ok J i"
  shows "\<exists>config' infos'. merge_infos J infos config = Some (config', infos')
     \<and> (\<forall>k. js_member J config' k = (case find (\<lambda>i. jm J i k \<noteq> None) (rev infos) of Some i \<Rightarrow> jm J i k | None \<Rightarrow> js_member J config k))"
proof -
  obtain c infos' where m: "merge_infos J infos config = Some (c, infos')" "obj_ok J c" "jm J c = foldl (\<lambda>m i. m ++ jm J i) (jm J config) infos"
    using merge_infos_spec[OF assms] by blast
  have "js_member J c k = (case find (\<lambda>i. jm J i k \<noteq> None) (rev infos) of Some i \<Rightarrow> jm J i k | None \<Rightarrow> js_member J config k)" for k
    using edit_okD(1)[OF assms(1) m(2), of k] edit_okD(1)[OF assms(1,2), of k] m(3) foldl_last[of "jm J"] by metis
  then show ?thesis using m(1) by blast
qed

text \<open>When one role has changed and the roles are merged again, every key that only other roles have becomes null.\<close>

theorem merge_after_role_change:
  assumes "edit_ok J" "obj_ok J config" "\<forall>i\<in>set infos. info_ok J i" "info_ok J fresh"
    and "merge_infos J infos config = Some (config1, infos1)" "merge_infos J (infos1[r := fresh]) config1 = Some (config2, infos2)"
    and "s < length infos" "s \<noteq> r" "jm J (infos ! s) k \<noteq> None" "jm J fresh k = None"
  shows "js_member J config2 k = Some (js_null J)"
proof -
  have m: "obj_ok J config1" "\<forall>i\<in>set infos1. info_ok J i" "map (jm J) infos1 = map (\<lambda>i k. map_option (\<lambda>_. js_null J) (jm J i k)) infos"
    using merge_infos_spec[OF assms(1-3)] assms(5) by auto
  have "\<forall>i\<in>set (infos1[r := fresh]). info_ok J i" using m(2) assms(4) set_update_subset_insert[of infos1 r fresh] by blast
  then have c: "obj_ok J config2" "jm J config2 = foldl (\<lambda>m i. m ++ jm J i) (jm J config1) (infos1[r := fresh])"
    using merge_infos_spec[OF assms(1) m(1), of "infos1[r := fresh]"] assms(6) by auto
  have l: "length infos1 = length infos" using m(3) by (metis length_map)
  have one: "jm J (infos1 ! t) k = map_option (\<lambda>_. js_null J) (jm J (infos ! t) k)" if "t < length infos" for t
    using arg_cong[OF m(3), of "\<lambda>xs. (xs ! t) k"] that l by simp
  have null: "jm J i k = Some (js_null J)" if "i \<in> set (infos1[r := fresh])" "jm J i k \<noteq> None" for i
  proof -
    note mem = that(1)[unfolded in_set_conv_nth]
    obtain t where t': "t < length (infos1[r := fresh])" "infos1[r := fresh] ! t = i" using mem by blast
    have t: "t < length infos" "i = infos1[r := fresh] ! t" using t' l by simp_all
    show ?thesis
    proof (cases "t = r")
      case True
      then show ?thesis using t that(2) assms(10) l by simp
    next
      case False
      then have "i = infos1 ! t" using t by simp
      then show ?thesis using one[OF t(1)] that(2) by auto
    qed
  qed
  have "infos1[r := fresh] ! s \<in> set (infos1[r := fresh])" using assms(7) l by simp
  moreover have "jm J (infos1[r := fresh] ! s) k \<noteq> None" using one[OF assms(7)] assms(8,9) l by simp
  ultimately have "find (\<lambda>i. jm J i k \<noteq> None) (rev (infos1[r := fresh])) \<noteq> None" by (auto simp: find_None_iff)
  then obtain i where f: "find (\<lambda>i. jm J i k \<noteq> None) (rev (infos1[r := fresh])) = Some i" by blast
  from find_SomeD[OF f] have "i \<in> set (infos1[r := fresh])" "jm J i k \<noteq> None" by simp_all
  then have "jm J config2 k = Some (js_null J)" unfolding c(2) foldl_last f using null by simp
  then show ?thesis using edit_okD(1)[OF assms(1) c(1)] by simp
qed

subsection \<open>An instance\<close>

definition demo_edit :: "demo_value json_edit" where
  "demo_edit = json_api.extend
     (demo_json (\<lambda>t. if t = [0x6E] then DObject [(bytes ''roles'', DArray [DArray [DStr [0x72], DStr [0x31]]])]
       else DObject [(t, DNum 1)]))
     \<lparr> js_null = DNull,
       js_remove = (\<lambda>j k. case j of DObject kvs \<Rightarrow> DObject (filter (\<lambda>(a, b). a \<noteq> k) kvs) | _ \<Rightarrow> j),
       js_set = (\<lambda>j k v. case j of DObject kvs \<Rightarrow> DObject (map (\<lambda>(a, b). (a, if a = k then v else b)) kvs) | _ \<Rightarrow> j),
       js_pretty = (\<lambda>j. [0x7B, 0x7D]) \<rparr>"

lemma demo_edit_sel:
  "js_is_object demo_edit j = (case j of DObject _ \<Rightarrow> True | _ \<Rightarrow> False)" "js_members demo_edit j = (case j of DObject kvs \<Rightarrow> kvs | _ \<Rightarrow> [])"
  "js_remove demo_edit j k = (case j of DObject kvs \<Rightarrow> DObject (filter (\<lambda>(a, b). a \<noteq> k) kvs) | _ \<Rightarrow> j)"
  "js_set demo_edit j k v = (case j of DObject kvs \<Rightarrow> DObject (map (\<lambda>(a, b). (a, if a = k then v else b)) kvs) | _ \<Rightarrow> j)"
  "js_null demo_edit = DNull"
  by (simp_all add: demo_edit_def demo_json_def json_api.defs)

lemma map_of_filter_key: "map_of (filter (\<lambda>(a, b). a \<noteq> k) xs) = (map_of xs)(k := None)"
  by (induction xs) (auto simp: fun_eq_iff)

lemma distinct_filter_key: "distinct (map fst xs) \<Longrightarrow> distinct (map fst (filter P xs))"
  by (induction xs) auto

lemma demo_edit_ok: "edit_ok demo_edit"
proof -
  have "json_ok demo_edit" by (auto simp: json_ok_def demo_edit_def demo_json_def json_api.defs split: demo_value.splits)
  then show ?thesis
    by (auto simp: edit_ok_def obj_ok_def demo_edit_sel map_of_filter_key distinct_filter_key split: demo_value.splits)
qed

lemma merge_last_wins_witness:
  "\<exists>config' infos'. merge_infos demo_edit [DObject [([1], DNum 1)], DObject [([1], DNum 2), ([2], DNum 3)]] (DObject []) = Some (config', infos')
     \<and> (\<forall>k. js_member demo_edit config' k = (case find (\<lambda>i. jm demo_edit i k \<noteq> None) (rev [DObject [([1], DNum 1)], DObject [([1], DNum 2), ([2], DNum 3)]])
          of Some i \<Rightarrow> jm demo_edit i k | None \<Rightarrow> js_member demo_edit (DObject []) k))"
  by (rule merge_last_wins[OF demo_edit_ok]) (auto simp: obj_ok_def info_ok_def demo_edit_sel)

lemma merge_after_role_change_witness:
  "js_member demo_edit (DObject [([1], DNum 5), ([2], DNull)]) [2] = Some (js_null demo_edit)"
proof (rule merge_after_role_change[OF demo_edit_ok])
  show "merge_infos demo_edit [DObject [([1], DNum 1)], DObject [([2], DNum 2)]] (DObject []) =
      Some (DObject [([1], DNum 1), ([2], DNum 2)], [DObject [([1], DNull)], DObject [([2], DNull)]])" by code_simp
  show "merge_infos demo_edit ([DObject [([1], DNull)], DObject [([2], DNull)]][0 := DObject [([1], DNum 5)]]) (DObject [([1], DNum 1), ([2], DNum 2)]) =
      Some (DObject [([1], DNum 5), ([2], DNull)], [DObject [([1], DNull)], DObject [([2], DNull)]])" by code_simp
  show "1 < length [DObject [([1], DNum 1)], DObject [([2 :: byte], DNum 2)]]" by simp
qed (auto simp: obj_ok_def info_ok_def demo_edit_sel jm_def)

subsection \<open>Watches\<close>

text \<open>Roles and contexts that exist have addresses that were handed out.\<close>

definition zk_ok :: "'j zk \<Rightarrow> bool" where
  "zk_ok z \<longleftrightarrow> (\<forall>a. zk_heap z a \<noteq> None \<longrightarrow> a < zk_next z) \<and> (\<forall>a\<in>set (zk_roles z). a < zk_next z)
     \<and> (\<forall>c a. zk_ctxs z c = Some a \<longrightarrow> c < zk_next_ctx z \<and> a < zk_next z)"

lemma zk_ok_new: "zk_ok (ZkService_new J ns service node ips)"
  by (simp add: zk_ok_def ZkService_new_def)

text \<open>What the operations do to the heap: addresses below the next one do not come back.\<close>

definition zk_le :: "'j zk \<Rightarrow> 'j zk \<Rightarrow> bool" where
  "zk_le z z' \<longleftrightarrow> zk_next z \<le> zk_next z' \<and> zk_next_ctx z \<le> zk_next_ctx z'
     \<and> (\<forall>a<zk_next z. zk_heap z a = None \<longrightarrow> zk_heap z' a = None) \<and> (\<forall>c<zk_next_ctx z. zk_ctxs z c \<noteq> None \<longrightarrow> zk_ctxs z' c = zk_ctxs z c)"

lemma zk_le_refl [simp]: "zk_le z z"
  by (simp add: zk_le_def)

lemma zk_le_trans:
  assumes "zk_le x y" "zk_le y z"
  shows "zk_le x z"
proof -
  have "zk_heap z a = None" if "a < zk_next x" "zk_heap x a = None" for a using assms that by (simp add: zk_le_def)
  moreover have "zk_ctxs z c = zk_ctxs x c" if "c < zk_next_ctx x" "zk_ctxs x c \<noteq> None" for c using assms that by (simp add: zk_le_def)
  ultimately show ?thesis using assms by (simp add: zk_le_def)
qed

lemma role_pairs_le: "role_pairs J vs z = Some z' \<Longrightarrow> zk_ok z \<Longrightarrow> zk_le z z' \<and> zk_ok z'"
proof (induction vs arbitrary: z)
  case (Cons v vs)
  show ?case
  proof (cases "js_is_array J v \<and> length (js_elements J v) = 2")
    case True
    then obtain r where r: "role_pairs J vs (add_role r z) = Some z'" using Cons.prems(1) by (auto split: Option.bind_splits)
    have "zk_le z (add_role r z)" "zk_ok (add_role r z)" using Cons.prems(2) by (auto simp: zk_le_def add_role_def zk_ok_def less_Suc_eq)
    then show ?thesis using Cons.IH[OF r] zk_le_trans by blast
  next
    case False
    then show ?thesis using Cons by auto
  qed
qed auto

lemma UpdateRoles_le:
  assumes "UpdateRoles J z = Some z'" "zk_ok z"
  shows "zk_le z z' \<and> zk_ok z' \<and> (\<forall>a\<in>set (zk_roles z). zk_heap z' a = None)"
proof -
  have r: "zk_le z (ResetRoles z)" "zk_ok (ResetRoles z)" "\<forall>a\<in>set (zk_roles z). zk_heap (ResetRoles z) a = None"
    using assms(2) by (auto simp: zk_le_def zk_ok_def ResetRoles_def restrict_map_def split: if_splits)
  have l: "zk_le (ResetRoles z) z' \<and> zk_ok z'"
    using assms(1) role_pairs_le[OF _ r(2)] r(2) by (auto simp: UpdateRoles_def Let_def split: option.splits if_splits)
  have n: "zk_next (ResetRoles z) = zk_next z" by (simp add: ResetRoles_def)
  have "zk_heap z' a = None" if "a \<in> set (zk_roles z)" for a
    using l r(3) that assms(2) n unfolding zk_le_def zk_ok_def by simp
  then show ?thesis using zk_le_trans[OF r(1)] l by blast
qed

lemma ReadRole_le:
  assumes "ReadRole J Z path a z w = Some (ok, z', w')" "zk_ok z" "a < zk_next z"
  shows "zk_le z z' \<and> zk_ok z' \<and> zk_roles z' = zk_roles z"
  using assms by (auto simp: ReadRole_def zk_le_def zk_ok_def Let_def less_Suc_eq split: if_splits prod.splits Option.bind_splits)

lemma read_roles_le: "read_roles J Z as z w = Some (z', w') \<Longrightarrow> zk_ok z \<Longrightarrow> zk_le z z' \<and> zk_ok z' \<and> zk_roles z' = zk_roles z"
proof (induction as arbitrary: z w)
  case (Cons a as)
  obtain r where r: "zk_heap z a = Some r" using Cons.prems(1) by (auto split: Option.bind_splits)
  then obtain ok z1 w1 where z1: "ReadRole J Z (role_path z r) a z w = Some (ok, z1, w1)" "read_roles J Z as z1 w1 = Some (z', w')"
    using Cons.prems(1) by (auto split: Option.bind_splits)
  have "a < zk_next z" using r Cons.prems(2) by (simp add: zk_ok_def)
  from ReadRole_le[OF z1(1) Cons.prems(2) this] Cons.IH[OF z1(2)] zk_le_trans show ?case by (metis (no_types, lifting))
qed simp

text \<open>C37: After a change of the node that renews its roles, the watch of every old role points to freed memory: when that role
  changes and can be read, the client writes to it.\<close>

theorem watch_dangles:
  assumes "zk_ok z" "zk_ctxs z c = Some a" "a \<in> set (zk_roles z)"
    and "zo_wget Z path w = ((ZOK, Some msg, v), w0)" "js_member J (js_parse J (cstr msg)) (bytes ''roles'') \<noteq> None"
    and "node_changed J Z path z w = Some (z1, w1)"
    and "zo_wget Z p w1 = ((ZOK, d), w2)"
  shows "role_changed J Z p c z1 w1 = None"
proof -
  obtain u where u: "ZkNode_Update J (Some msg, v) z = Some u"
    using assms(4,6) by (auto simp: node_changed_def ReadNode_def split: Option.bind_splits)
  obtain z2 where r: "read_roles J Z (zk_roles u) u (snd (UpdateNode J Z u w0)) = Some (z2, w1)" "z1 = z2\<lparr> zk_changed := True \<rparr>"
    using assms(4,6) u by (auto simp: node_changed_def ReadNode_def split: Option.bind_splits)
  obtain zz where zz: "UpdateRoles J zz = Some u" "zk_ok zz" "zk_roles zz = zk_roles z" "zk_ctxs zz = zk_ctxs z" "zk_next zz = zk_next z" "zk_next_ctx zz = zk_next_ctx z"
    using u assms(1,5) by (auto simp: ZkNode_Update_def Let_def zk_ok_def split: if_splits option.splits)
  note U = UpdateRoles_le[OF zz(1,2)]
  have "zk_ok u" using U by blast
  note R = read_roles_le[OF r(1) this]
  have b: "a < zk_next z" "c < zk_next_ctx z" using assms(1,2) by (simp_all add: zk_ok_def)
  have "zk_heap u a = None" "a < zk_next u" using U assms(3) zz b by (auto simp: zk_le_def)
  then have h: "zk_heap z1 a = None" using R r(2) by (simp add: zk_le_def)
  have "zk_ctxs u c = Some a" "c < zk_next_ctx u" using U zz b assms(2) by (simp_all add: zk_le_def)
  then have "zk_ctxs z1 c = Some a" using R r(2) by (simp add: zk_le_def)
  then show ?thesis using h assms(7) by (simp add: role_changed_def ReadRole_def)
qed

definition demo_zoo :: "unit zoo" where
  "demo_zoo = \<lparr> zo_init = (\<lambda>i w. w), zo_close = (\<lambda>w. w), zo_create = (\<lambda>p w. (ZOK, w)), zo_acreate = (\<lambda>p w. (ZOK, w)), zo_aset = (\<lambda>p d w. (ZOK, w)),
     zo_wget = (\<lambda>p w. ((ZOK, Some [0x6E], 1), w)), zo_awexists = (\<lambda>p w. (ZOK, w)) \<rparr>"

definition demo_zk :: "demo_value zk" where
  "demo_zk = (ZkService_new demo_edit [0x6E] [0x73] [0x31] [0x69])\<lparr> zk_roles := [0], zk_heap := [0 \<mapsto> ZkRole_new demo_edit [0x72] [0x31]], zk_next := 1,
     zk_ctxs := [0 \<mapsto> 0], zk_next_ctx := 1 \<rparr>"

lemma watch_dangles_witness:
  "case node_changed demo_edit demo_zoo [0x2F] demo_zk () of None \<Rightarrow> False | Some (z1, w1) \<Rightarrow> role_changed demo_edit demo_zoo [0x2F] 0 z1 w1 = None"
proof -
  have "node_changed demo_edit demo_zoo [0x2F] demo_zk () \<noteq> None" by code_simp
  then obtain z1 w1 where z1: "node_changed demo_edit demo_zoo [0x2F] demo_zk () = Some (z1, w1)" by auto
  have "role_changed demo_edit demo_zoo [0x2F] 0 z1 w1 = None"
  proof (rule watch_dangles[OF _ _ _ _ _ z1])
    show "zk_ok demo_zk" by (simp add: zk_ok_def demo_zk_def ZkService_new_def)
    show "zk_ctxs demo_zk 0 = Some 0" "0 \<in> set (zk_roles demo_zk)" by (simp_all add: demo_zk_def)
    show "zo_wget demo_zoo [0x2F] () = ((ZOK, Some [0x6E], 1), ())" "zo_wget demo_zoo [0x2F] w1 = ((ZOK, (Some [0x6E], 1)), w1)"
      by (simp_all add: demo_zoo_def)
    show "js_member demo_edit (js_parse demo_edit (cstr [0x6E])) (bytes ''roles'') \<noteq> None" by code_simp
  qed
  then show ?thesis using z1 by simp
qed

text \<open>A node without data is an exception, and a first change of a role after the configuration is merged loses the others.\<close>

lemma empty_node_throws: "zo_wget Z path w = ((ZOK, None, v), w0) \<Longrightarrow> node_changed J Z path z w = None"
  by (simp add: node_changed_def ReadNode_def ZkNode_Update_def)

text \<open>\<open>MonitorNode\<close> and \<open>CreateNode\<close> do not return while the server refuses.\<close>

lemma MonitorNode_never:
  assumes "\<forall>w. fst (zo_awexists Z path w) \<noteq> ZOK"
  shows "MonitorNode Z path w = None"
proof (rule ccontr)
  have "MonitorNode Z path w = Some y \<Longrightarrow> (\<forall>w. fst (zo_awexists Z path w) \<noteq> ZOK) \<longrightarrow> False" for Z path w y
  proof (induct rule: MonitorNode.raw_induct[rotated, consumes 1])
    case (1 f Z path w y)
    then show ?case by (auto split: prod.splits if_splits) (metis fst_conv)+
  qed
  moreover assume "MonitorNode Z path w \<noteq> None"
  ultimately show False using assms by (meson not_Some_eq)
qed

end
