(* ===== verification/Thread_Pool.thy ===== *)
theory Thread_Pool
  imports WB_Prelude "HOL-Library.Multiset"
begin

text \<open>
  The pool of threads (\<open>thread_pool.cpp\<close>, \<open>worker.cpp\<close>, \<open>async_work_manager.cpp\<close>): a worker's thread as the points
  between which another thread can run, the main thread's calls as events.  Every task is run at most once
  (\<open>tasks_run_once\<close>); a notification that comes between a worker's look at its task and its wait is lost, and then
  the task is never run (\<open>lost_wakeup\<close>) or the pool never stops (\<open>lost_stop\<close>).
\<close>

subsection \<open>A worker\<close>

datatype 'r worker_pc = Entry | Check | About_to_wait | Waiting | Has_task 'r | Ran | Finished

record 'r worker =
  wk_task :: "'r option"
  wk_thread :: bool
  wk_running :: bool
  wk_pc :: "'r worker_pc"

definition Worker_new :: "'r option \<Rightarrow> 'r worker" where
  "Worker_new r = \<lparr> wk_task = r, wk_thread = False, wk_running = False, wk_pc = Finished \<rparr>"

definition SetRunnable :: "'r option \<Rightarrow> 'r worker \<Rightarrow> 'r worker" where
  "SetRunnable r wk = wk\<lparr> wk_task := r \<rparr>"

definition notify :: "'r worker \<Rightarrow> 'r worker" where
  "notify wk = (if wk_pc wk = Waiting then wk\<lparr> wk_pc := Check \<rparr> else wk)"

definition start_thread :: "'r worker \<Rightarrow> 'r worker" where
  "start_thread wk = wk\<lparr> wk_thread := True, wk_pc := Entry \<rparr>"

text \<open>A step of \<open>Worker::Run\<close>, and the task it runs.  A waiting or finished thread has no step.\<close>

definition worker_step :: "'r worker \<Rightarrow> ('r worker \<times> 'r option) option" where
  "worker_step wk =
     (if \<not> wk_thread wk then None
      else case wk_pc wk of
        Entry \<Rightarrow> Some (if wk_running wk then wk\<lparr> wk_pc := Finished \<rparr> else wk\<lparr> wk_running := True, wk_pc := Check \<rparr>, None)
      | Check \<Rightarrow> Some (if \<not> wk_running wk then wk\<lparr> wk_pc := Finished \<rparr>
                   else case wk_task wk of None \<Rightarrow> wk\<lparr> wk_pc := About_to_wait \<rparr> | Some r \<Rightarrow> wk\<lparr> wk_pc := Has_task r \<rparr>, None)
      | About_to_wait \<Rightarrow> Some (wk\<lparr> wk_pc := Waiting \<rparr>, None)
      | Waiting \<Rightarrow> None
      | Has_task r \<Rightarrow> Some (wk\<lparr> wk_pc := Ran \<rparr>, Some r)
      | Ran \<Rightarrow> Some ((SetRunnable None wk)\<lparr> wk_pc := Check \<rparr>, None)
      | Finished \<Rightarrow> None)"

text \<open>\<open>Worker::Stop\<close> up to \<open>join\<close>, and what follows when the thread has finished.\<close>

definition stop_signal :: "'r worker \<Rightarrow> 'r worker" where
  "stop_signal wk = (if \<not> wk_running wk \<or> \<not> wk_thread wk then wk else notify (wk\<lparr> wk_running := False \<rparr>))"

definition join_thread :: "'r worker \<Rightarrow> 'r worker option" where
  "join_thread wk = (if wk_thread wk \<and> wk_pc wk = Finished then Some (wk\<lparr> wk_thread := False \<rparr>) else None)"

subsection \<open>The pool\<close>

record 'r thread_pool =
  tp_running :: bool
  tp_max :: nat
  tp_queue :: "'r list"
  tp_workers :: "'r worker list"

definition ThreadPool_new :: "nat \<Rightarrow> 'r thread_pool" where
  "ThreadPool_new n = \<lparr> tp_running = False, tp_max = n, tp_queue = [], tp_workers = [] \<rparr>"

definition DEFAULTMAXPOOLSIZE :: nat where "DEFAULTMAXPOOLSIZE = 10"

definition ThreadPool_Init :: "'r thread_pool \<Rightarrow> bool \<times> 'r thread_pool" where
  "ThreadPool_Init p = (True, p\<lparr> tp_workers := tp_workers p @ replicate (tp_max p) (Worker_new None) \<rparr>)"

text \<open>\<open>Start\<close> of a pool whose workers have threads already would lose them; it is left out.\<close>

definition ThreadPool_Start :: "'r thread_pool \<Rightarrow> (bool \<times> 'r thread_pool) option" where
  "ThreadPool_Start p =
     (if \<exists>wk\<in>set (tp_workers p). wk_thread wk then None
      else Some (True, p\<lparr> tp_running := True, tp_workers := map start_thread (tp_workers p) \<rparr>))"

definition AddWork :: "'r \<Rightarrow> 'r thread_pool \<Rightarrow> 'r thread_pool" where
  "AddWork r p = p\<lparr> tp_queue := tp_queue p @ [r] \<rparr>"

fun update_workers :: "'r worker list \<Rightarrow> 'r list \<Rightarrow> 'r worker list \<times> 'r list" where
  "update_workers [] q = ([], q)"
| "update_workers (wk # ws) q =
     (if wk_task wk \<noteq> None then (case update_workers ws q of (ws', q') \<Rightarrow> (wk # ws', q'))
      else case q of
        [] \<Rightarrow> (wk # ws, [])
      | r # q1 \<Rightarrow>
          (let wk1 = notify (SetRunnable (Some r) wk); wk2 = (if wk_thread wk1 then wk1 else start_thread wk1)
           in case update_workers ws q1 of (ws', q') \<Rightarrow> (wk2 # ws', q')))"

definition ThreadPool_Update :: "'r thread_pool \<Rightarrow> 'r thread_pool" where
  "ThreadPool_Update p = (case update_workers (tp_workers p) (tp_queue p) of (ws, q) \<Rightarrow> p\<lparr> tp_workers := ws, tp_queue := q \<rparr>)"

subsection \<open>Interleavings\<close>

text \<open>\<open>Spurious\<close> is a wait that returns without a notification.\<close>

datatype 'r pool_event = Add 'r | Update | Step nat | Spurious nat | Stop_signal nat | Join nat

fun pool_exec :: "'r thread_pool \<Rightarrow> 'r pool_event \<Rightarrow> ('r thread_pool \<times> 'r option) option" where
  "pool_exec p (Add r) = Some (AddWork r p, None)"
| "pool_exec p Update = Some (ThreadPool_Update p, None)"
| "pool_exec p (Step i) =
     (if i < length (tp_workers p) then map_option (\<lambda>(wk, r). (p\<lparr> tp_workers := (tp_workers p)[i := wk] \<rparr>, r)) (worker_step (tp_workers p ! i)) else None)"
| "pool_exec p (Spurious i) =
     (if i < length (tp_workers p) then Some (p\<lparr> tp_workers := (tp_workers p)[i := notify (tp_workers p ! i)] \<rparr>, None) else None)"
| "pool_exec p (Stop_signal i) =
     (if i < length (tp_workers p) then Some (p\<lparr> tp_running := False, tp_workers := (tp_workers p)[i := stop_signal (tp_workers p ! i)] \<rparr>, None) else None)"
| "pool_exec p (Join i) =
     (if i < length (tp_workers p) then map_option (\<lambda>wk. (p\<lparr> tp_workers := (tp_workers p)[i := wk] \<rparr>, None)) (join_thread (tp_workers p ! i)) else None)"

text \<open>Events that cannot happen are skipped; the tasks run, in order.\<close>

primrec pool_execs :: "'r pool_event list \<Rightarrow> 'r thread_pool \<Rightarrow> 'r thread_pool \<times> 'r list" where
  "pool_execs [] p = (p, [])"
| "pool_execs (e # es) p =
     (case pool_exec p e of None \<Rightarrow> pool_execs es p
      | Some (p1, r) \<Rightarrow> (case pool_execs es p1 of (p2, rs) \<Rightarrow> (p2, (case r of None \<Rightarrow> rs | Some x \<Rightarrow> x # rs))))"

definition started :: "nat \<Rightarrow> 'r thread_pool" where
  "started n = (case ThreadPool_Start (snd (ThreadPool_Init (ThreadPool_new n))) of Some (_, p) \<Rightarrow> p | None \<Rightarrow> ThreadPool_new n)"

lemma started_workers: "tp_workers (started n) = replicate n (start_thread (Worker_new None))" "tp_queue (started n) = []"
  by (simp_all add: started_def ThreadPool_Start_def ThreadPool_Init_def ThreadPool_new_def Worker_new_def)

subsection \<open>Every task once\<close>

definition worker_ok :: "'r worker \<Rightarrow> bool" where
  "worker_ok wk \<longleftrightarrow> (\<forall>r. wk_pc wk = Has_task r \<longrightarrow> wk_task wk = Some r) \<and> (wk_pc wk = Ran \<longrightarrow> wk_task wk \<noteq> None)
     \<and> (\<not> wk_thread wk \<longrightarrow> wk_pc wk = Finished)"

definition unrun :: "'r worker \<Rightarrow> 'r multiset" where
  "unrun wk = (if wk_pc wk = Ran then {#} else (case wk_task wk of None \<Rightarrow> {#} | Some r \<Rightarrow> {# r #}))"

definition waiting_tasks :: "'r thread_pool \<Rightarrow> 'r multiset" where
  "waiting_tasks p = mset (tp_queue p) + sum_list (map unrun (tp_workers p))"

definition pool_ok :: "'r thread_pool \<Rightarrow> bool" where
  "pool_ok p \<longleftrightarrow> (\<forall>wk\<in>set (tp_workers p). worker_ok wk)"

lemma notify_ok: "worker_ok wk \<Longrightarrow> worker_ok (notify wk) \<and> unrun (notify wk) = unrun wk \<and> wk_thread (notify wk) = wk_thread wk"
  by (auto simp: notify_def worker_ok_def unrun_def)

lemma worker_step_ok:
  "worker_step wk = Some (wk', r) \<Longrightarrow> worker_ok wk \<Longrightarrow> worker_ok wk' \<and> unrun wk = unrun wk' + (case r of None \<Rightarrow> {#} | Some x \<Rightarrow> {# x #})"
  by (auto simp: worker_step_def worker_ok_def unrun_def SetRunnable_def split: if_splits worker_pc.splits option.splits)

lemma stop_signal_ok: "worker_ok wk \<Longrightarrow> worker_ok (stop_signal wk) \<and> unrun (stop_signal wk) = unrun wk"
  by (auto simp: stop_signal_def notify_def worker_ok_def unrun_def)

lemma join_thread_ok: "join_thread wk = Some wk' \<Longrightarrow> worker_ok wk \<Longrightarrow> worker_ok wk' \<and> unrun wk' = unrun wk"
  by (auto simp: join_thread_def worker_ok_def unrun_def split: if_splits)

lemma update_workers_ok:
  "update_workers ws q = (ws', q') \<Longrightarrow> \<forall>wk\<in>set ws. worker_ok wk \<Longrightarrow>
     (\<forall>wk\<in>set ws'. worker_ok wk) \<and> mset q' + sum_list (map unrun ws') = mset q + sum_list (map unrun ws)"
proof (induction ws arbitrary: q ws' q')
  case (Cons wk ws)
  show ?case
  proof (cases "wk_task wk")
    case (Some r)
    then show ?thesis using Cons.prems Cons.IH[of q] by (auto split: prod.splits simp: ac_simps)
  next
    case None
    show ?thesis
    proof (cases q)
      case Nil
      then show ?thesis using Cons.prems None by auto
    next
      case (Cons r q1)
      define wk1 where "wk1 = notify (SetRunnable (Some r) wk)"
      define wk2 where "wk2 = (if wk_thread wk1 then wk1 else start_thread wk1)"
      obtain ws1 where u: "update_workers ws q1 = (ws1, q')" "ws' = wk2 # ws1"
        using Cons.prems(1) None Cons by (auto simp: Let_def wk1_def wk2_def split: prod.splits)
      have "worker_ok wk" using Cons.prems(2) by simp
      then have "worker_ok wk2 \<and> unrun wk2 = {# r #} \<and> unrun wk = {#}"
        using None by (auto simp: wk2_def wk1_def notify_def SetRunnable_def start_thread_def worker_ok_def unrun_def)
      then show ?thesis using Cons.IH[OF u(1)] Cons.prems(2) u(2) Cons by (simp add: ac_simps)
    qed
  qed
qed simp

lemma sum_update:
  "i < length ws \<Longrightarrow> sum_list (map f (ws[i := x])) + (f (ws ! i) :: 'm multiset) = sum_list (map f ws) + f x"
proof (induction ws arbitrary: i)
  case (Cons w ws)
  then show ?case by (cases i) (auto simp: ac_simps)
qed simp

lemma pool_exec_ok:
  assumes "pool_exec p e = Some (p', r)" "pool_ok p"
  shows "pool_ok p' \<and> waiting_tasks p' + (case r of None \<Rightarrow> {#} | Some x \<Rightarrow> {# x #}) = waiting_tasks p + (case e of Add x \<Rightarrow> {# x #} | _ \<Rightarrow> {#})"
proof -
  have one: "pool_ok (p\<lparr> tp_workers := (tp_workers p)[i := wk] \<rparr>)
      \<and> waiting_tasks (p\<lparr> tp_workers := (tp_workers p)[i := wk] \<rparr>) + unrun (tp_workers p ! i) = waiting_tasks p + unrun wk"
    if "i < length (tp_workers p)" "worker_ok wk" for i wk
    using that assms(2) sum_update[OF that(1), of unrun wk]
    by (auto simp: pool_ok_def waiting_tasks_def ac_simps dest: set_update_subset_insert[THEN subsetD])
  have ok: "worker_ok (tp_workers p ! i)" if "i < length (tp_workers p)" for i using assms(2) that by (simp add: pool_ok_def)
  show ?thesis
  proof (cases e)
    case (Add x)
    then show ?thesis using assms by (auto simp: AddWork_def pool_ok_def waiting_tasks_def)
  next
    case Update
    then show ?thesis using assms update_workers_ok[of "tp_workers p" "tp_queue p"]
      by (auto simp: ThreadPool_Update_def pool_ok_def waiting_tasks_def split: prod.splits)
  next
    case (Step i)
    then obtain wk where i: "i < length (tp_workers p)" "worker_step (tp_workers p ! i) = Some (wk, r)" "p' = p\<lparr> tp_workers := (tp_workers p)[i := wk] \<rparr>"
      using assms(1) by (auto split: if_splits)
    from worker_step_ok[OF i(2) ok[OF i(1)]] one[OF i(1), of wk] show ?thesis using i(3) Step by (auto simp: ac_simps)
  next
    case (Spurious i)
    then have i: "i < length (tp_workers p)" "r = None" "p' = p\<lparr> tp_workers := (tp_workers p)[i := notify (tp_workers p ! i)] \<rparr>"
      using assms(1) by (auto split: if_splits)
    from notify_ok[OF ok[OF i(1)]] one[OF i(1)] show ?thesis using i(2,3) Spurious by fastforce
  next
    case (Stop_signal i)
    then have i: "i < length (tp_workers p)" "r = None"
        "p' = (p\<lparr> tp_workers := (tp_workers p)[i := stop_signal (tp_workers p ! i)] \<rparr>)\<lparr> tp_running := False \<rparr>"
      using assms(1) by (auto split: if_splits)
    have x: "pool_ok (q\<lparr> tp_running := b \<rparr>) = pool_ok q" "waiting_tasks (q\<lparr> tp_running := b \<rparr>) = waiting_tasks q" for q :: "'a thread_pool" and b
      by (simp_all add: pool_ok_def waiting_tasks_def)
    from stop_signal_ok[OF ok[OF i(1)]] one[OF i(1)] show ?thesis unfolding i(3) x using i(2) Stop_signal by fastforce
  next
    case (Join i)
    then obtain wk where i: "i < length (tp_workers p)" "join_thread (tp_workers p ! i) = Some wk" "r = None" "p' = p\<lparr> tp_workers := (tp_workers p)[i := wk] \<rparr>"
      using assms(1) by (auto split: if_splits)
    from join_thread_ok[OF i(2) ok[OF i(1)]] one[OF i(1)] show ?thesis using i(3,4) Join by fastforce
  qed
qed

definition added :: "'r pool_event list \<Rightarrow> 'r list" where
  "added es = concat (map (\<lambda>e. case e of Add r \<Rightarrow> [r] | _ \<Rightarrow> []) es)"

text \<open>C38: However the threads of a pool interleave, and however often its waits are woken, every task that was added is run
  once, or has not been run yet: none is lost and none runs twice.\<close>

theorem tasks_run_once:
  "mset (added es) = mset (snd (pool_execs es (started n))) + waiting_tasks (fst (pool_execs es (started n)))"
proof -
  have "waiting_tasks p + mset (added es) = mset (snd (pool_execs es p)) + waiting_tasks (fst (pool_execs es p))" if "pool_ok p" for p :: "'a thread_pool"
    using that
  proof (induction es arbitrary: p)
    case (Cons e es)
    show ?case
    proof (cases "pool_exec p e")
      case None
      then have "added (e # es) = added es" by (cases e) (auto simp: added_def)
      then show ?thesis using None Cons by simp
    next
      case (Some x)
      then obtain p1 r where x: "pool_exec p e = Some (p1, r)" by (cases x) auto
      note O = pool_exec_ok[OF x Cons.prems]
      have a: "mset (added (e # es)) = (case e of Add x \<Rightarrow> {# x #} | _ \<Rightarrow> {#}) + mset (added es)" by (cases e) (simp_all add: added_def)
      have 1: "waiting_tasks p + (case e of Add x \<Rightarrow> {# x #} | _ \<Rightarrow> {#}) = waiting_tasks p1 + (case r of None \<Rightarrow> {#} | Some x \<Rightarrow> {# x #})"
        using O by simp
      have 2: "waiting_tasks p1 + mset (added es) = mset (snd (pool_execs es p1)) + waiting_tasks (fst (pool_execs es p1))"
        using Cons.IH[of p1] O by simp
      have "waiting_tasks p + mset (added (e # es)) = waiting_tasks p1 + (case r of None \<Rightarrow> {#} | Some x \<Rightarrow> {# x #}) + mset (added es)"
        unfolding a by (simp only: 1[symmetric] add.assoc)
      also have "\<dots> = mset (snd (pool_execs es p1)) + waiting_tasks (fst (pool_execs es p1)) + (case r of None \<Rightarrow> {#} | Some x \<Rightarrow> {# x #})"
        by (simp only: 2[symmetric] ac_simps)
      finally show ?thesis using x by (cases r) (auto simp: split: prod.splits)
    qed
  qed (simp add: added_def)
  moreover have "pool_ok (started n :: 'a thread_pool)" by (simp add: pool_ok_def started_workers worker_ok_def start_thread_def Worker_new_def)
  moreover have "sum_list (replicate n {#}) = ({#} :: 'a multiset)" by (induction n) simp_all
  then have "waiting_tasks (started n :: 'a thread_pool) = {#}"
    by (simp add: started_workers waiting_tasks_def start_thread_def Worker_new_def unrun_def)
  ultimately show ?thesis by fastforce
qed

subsection \<open>Lost notifications\<close>

text \<open>A worker that waits although it has a task is not woken again: \<open>Update\<close> notifies only workers without one.\<close>

definition stuck :: "nat \<Rightarrow> 'r \<Rightarrow> 'r thread_pool \<Rightarrow> bool" where
  "stuck i r p \<longleftrightarrow> i < length (tp_workers p) \<and> wk_pc (tp_workers p ! i) = Waiting \<and> wk_task (tp_workers p ! i) = Some r"

lemma update_workers_keeps:
  "update_workers ws q = (ws', q') \<Longrightarrow> length ws' = length ws \<and> (i < length ws \<longrightarrow> wk_task (ws ! i) \<noteq> None \<longrightarrow> ws' ! i = ws ! i)"
proof (induction ws arbitrary: q ws' q' i)
  case (Cons wk ws)
  show ?case
  proof (cases "wk_task wk = None \<and> q = []")
    case True
    then show ?thesis using Cons.prems by auto
  next
    case False
    then obtain q1 ws1 wk2 where u: "update_workers ws q1 = (ws1, q')" "ws' = wk2 # ws1" "wk_task wk \<noteq> None \<Longrightarrow> wk2 = wk"
      using Cons.prems by (auto simp: Let_def split: prod.splits if_splits list.splits)
    show ?thesis using Cons.IH[OF u(1), of "i - 1"] u by (cases i) auto
  qed
qed simp

lemma stuck_exec:
  assumes "stuck i r p" "pool_exec p e = Some (p', x)" "e \<noteq> Spurious i" "e \<noteq> Stop_signal i"
  shows "stuck i r p' \<and> e \<noteq> Step i"
  using assms update_workers_keeps[of "tp_workers p" "tp_queue p" _ _ i]
  by (cases e) (auto simp: stuck_def AddWork_def ThreadPool_Update_def worker_step_def join_thread_def nth_list_update split: if_splits prod.splits)

lemma stuck_execs:
  "stuck i r p \<Longrightarrow> Spurious i \<notin> set es \<Longrightarrow> Stop_signal i \<notin> set es \<Longrightarrow> stuck i r (fst (pool_execs es p))"
proof (induction es arbitrary: p)
  case (Cons e es)
  then show ?case using stuck_exec[of i r p e] by (cases "pool_exec p e") (auto split: prod.splits, fastforce)
qed simp

text \<open>A task given to a worker between its look and its wait is never run, unless the wait ends by itself: the
  notification is lost and no later \<open>Update\<close> repeats it.\<close>

theorem lost_wakeup:
  assumes "Spurious 0 \<notin> set es" "Stop_signal 0 \<notin> set es"
  shows "stuck 0 r (fst (pool_execs es (fst (pool_execs [Step 0, Step 0, Add r, Update, Step 0] (started 1)))))"
proof (rule stuck_execs[OF _ assms])
  show "stuck 0 r (fst (pool_execs [Step 0, Step 0, Add r, Update, Step 0] (started 1)))"
    by (simp add: stuck_def started_def ThreadPool_Start_def ThreadPool_Init_def ThreadPool_new_def Worker_new_def start_thread_def
        worker_step_def AddWork_def ThreadPool_Update_def SetRunnable_def notify_def)
qed

lemma lost_wakeup_witness:
  "stuck 0 (7 :: nat) (fst (pool_execs [Update, Step 0, Add 8, Update] (fst (pool_execs [Step 0, Step 0, Add 7, Update, Step 0] (started 1)))))"
  by (rule lost_wakeup) simp_all

text \<open>The same happens to \<open>Stop\<close>: the thread waits, and \<open>join\<close> never returns.\<close>

lemma lost_stop:
  "wk_pc (tp_workers (fst (pool_execs [Step 0, Step 0, Stop_signal 0, Step 0] (started 1))) ! 0) = Waiting"
  "join_thread (tp_workers (fst (pool_execs [Step 0, Step 0, Stop_signal 0, Step 0] (started 1))) ! 0) = None"
  by (simp_all add: started_def ThreadPool_Start_def ThreadPool_Init_def ThreadPool_new_def Worker_new_def start_thread_def
      worker_step_def stop_signal_def notify_def join_thread_def)

end
