(* ===== verification/Server_Async.thy ===== *)
theory Server_Async
  imports Queues
begin

text \<open>
  The thread of a server and the messages other threads send to it (\<open>async.cpp\<close>, \<open>server.cpp\<close>): a queue of two sides, a
  signal that libuv merges, and a callback that takes what is queued; posting is one step here, its parts are in \<open>Queues\<close>.  Messages are handled once and in order, and none
  stays behind without a signal (\<open>messages_in_order\<close>); \<open>Stop\<close> from another thread ends the loop (\<open>stop_from_outside\<close>).
\<close>

subsection \<open>Messages\<close>

text \<open>\<open>as_owner\<close> is the state of the derived class, \<open>h\<close> its \<open>OnMessage\<close>.\<close>

record ('m, 's) async =
  as_loop :: bool
  as_queue :: "'m dbq"
  as_signal :: bool
  as_owner :: 's

definition Async_new :: "'s \<Rightarrow> ('m, 's) async" where
  "Async_new s = \<lparr> as_loop = False, as_queue = dbq_new, as_signal = False, as_owner = s \<rparr>"

text \<open>Without a loop the log entry is fatal.\<close>

definition PostMessage :: "('m \<Rightarrow> 's \<Rightarrow> 's) \<Rightarrow> bool \<Rightarrow> 'm \<Rightarrow> ('m, 's) async \<Rightarrow> ('m, 's) async option" where
  "PostMessage h in_thread m a =
     (if \<not> as_loop a then None
      else if \<not> in_thread then Some (a\<lparr> as_queue := snd (dbq_push (as_queue a) m), as_signal := True \<rparr>)
      else Some (a\<lparr> as_owner := h m (as_owner a) \<rparr>))"

definition async_callback :: "('m \<Rightarrow> 's \<Rightarrow> 's) \<Rightarrow> ('m, 's) async \<Rightarrow> ('m list \<times> ('m, 's) async) option" where
  "async_callback h a = do {
     (ms, q) \<leftarrow> drain dbq_pop (dbq_swap (as_queue a));
     Some (ms, a\<lparr> as_queue := q, as_signal := False, as_owner := fold h ms (as_owner a) \<rparr>) }"

text \<open>The loop calls back when there is a signal.\<close>

datatype 'm async_event = Post_outside 'm | Post_inside 'm | Turn

primrec async_run :: "('m \<Rightarrow> 's \<Rightarrow> 's) \<Rightarrow> 'm async_event list \<Rightarrow> ('m, 's) async \<Rightarrow> ('m list \<times> ('m, 's) async) option" where
  "async_run h [] a = Some ([], a)"
| "async_run h (e # es) a =
     (case e of
        Post_outside m \<Rightarrow> do { a1 \<leftarrow> PostMessage h False m a; async_run h es a1 }
      | Post_inside m \<Rightarrow> do { a1 \<leftarrow> PostMessage h True m a; async_run h es a1 }
      | Turn \<Rightarrow> (if \<not> as_signal a then async_run h es a
                else do { (ms, a1) \<leftarrow> async_callback h a; (ms', a2) \<leftarrow> async_run h es a1; Some (ms @ ms', a2) }))"

definition sent_outside :: "'m async_event list \<Rightarrow> 'm list" where
  "sent_outside es = concat (map (\<lambda>e. case e of Post_outside m \<Rightarrow> [m] | _ \<Rightarrow> []) es)"

definition async_ok :: "('m, 's) async \<Rightarrow> bool" where
  "async_ok a \<longleftrightarrow> as_loop a \<and> dbq_ok (as_queue a) \<and> dbq_size (as_queue a) = 0 \<and> (\<not> as_signal a \<longrightarrow> dbq_content (as_queue a) = [])"

lemma async_callback_spec:
  assumes "async_ok a"
  shows "\<exists>a'. async_callback h a = Some (dbq_content (as_queue a), a') \<and> async_ok a' \<and> \<not> as_signal a' \<and> dbq_content (as_queue a') = []
     \<and> as_owner a' = fold h (dbq_content (as_queue a)) (as_owner a)"
proof -
  have "dbq_ok (as_queue a)" "dbq_size (as_queue a) = 0" using assms by (simp_all add: async_ok_def)
  from dbq_swap_drain[OF this] show ?thesis using assms by (auto simp: async_callback_def async_ok_def)
qed

lemma push_size: "dbq_size (snd (dbq_push q t)) = dbq_size q"
proof -
  have "NextQueueIndex (db_index q) \<noteq> db_index q" unfolding NextQueueIndex_def by presburger
  then show ?thesis by (simp add: dbq_push_def dbq_insert_def dbq_size_def)
qed

lemma Post_outside_spec:
  assumes "async_ok a"
  shows "\<exists>a'. PostMessage h False m a = Some a' \<and> async_ok a' \<and> dbq_content (as_queue a') = dbq_content (as_queue a) @ [m]"
proof -
  have q: "dbq_ok (as_queue a)" using assms by (simp add: async_ok_def)
  have "dbq_ok (snd (dbq_push (as_queue a) m))" using db.push_invar[OF q] by (metis prod.collapse)
  then show ?thesis using assms dbq_push_content[OF q, of m] by (auto simp: PostMessage_def async_ok_def push_size)
qed

lemma async_run_spec:
  "async_ok a \<Longrightarrow> \<exists>ms a'. async_run h es a = Some (ms, a') \<and> async_ok a'
     \<and> dbq_content (as_queue a) @ sent_outside es = ms @ dbq_content (as_queue a')"
proof (induction es arbitrary: a)
  case (Cons e es)
  show ?case
  proof (cases e)
    case (Post_outside m)
    obtain a1 where a1: "PostMessage h False m a = Some a1" "async_ok a1" "dbq_content (as_queue a1) = dbq_content (as_queue a) @ [m]"
      using Post_outside_spec[OF Cons.prems] by blast
    then show ?thesis using Cons.IH[OF a1(2)] Post_outside by (auto simp: sent_outside_def)
  next
    case (Post_inside m)
    have p: "PostMessage h True m a = Some (a\<lparr> as_owner := h m (as_owner a) \<rparr>)" "async_ok (a\<lparr> as_owner := h m (as_owner a) \<rparr>)"
      using Cons.prems by (simp_all add: PostMessage_def async_ok_def)
    then show ?thesis using Cons.IH[OF p(2)] Post_inside by (auto simp: sent_outside_def)
  next
    case Turn
    show ?thesis
    proof (cases "as_signal a")
      case True
      obtain a1 where a1: "async_callback h a = Some (dbq_content (as_queue a), a1)" "async_ok a1" "dbq_content (as_queue a1) = []"
        using async_callback_spec[OF Cons.prems] by blast
      then show ?thesis using Cons.IH[OF a1(2)] Turn True by (auto simp: sent_outside_def)
    next
      case False
      then show ?thesis using Cons.IH[OF Cons.prems] Turn by (auto simp: sent_outside_def)
    qed
  qed
qed (simp add: sent_outside_def)

subsection \<open>The server\<close>

datatype server_message = SERVER_MESSAGE_STOP | Other_message int

record server_state =
  sv_thread :: bool
  sv_running :: bool
  sv_stopped :: bool   \<comment> \<open>\<open>uv_stop\<close> has been called\<close>

type_synonym server = "(server_message, server_state) async"

definition Server_new :: server where
  "Server_new = Async_new \<lparr> sv_thread = False, sv_running = False, sv_stopped = False \<rparr>"

text \<open>\<open>Stop\<close> in the server's own thread, which is what \<open>OnMessage\<close> calls.\<close>

definition stop_inside :: "server_state \<Rightarrow> server_state" where
  "stop_inside s = (if \<not> sv_thread s then s else s\<lparr> sv_stopped := True, sv_running := False \<rparr>)"

definition Server_OnMessage :: "server_message \<Rightarrow> server_state \<Rightarrow> server_state" where
  "Server_OnMessage m s = (case m of SERVER_MESSAGE_STOP \<Rightarrow> stop_inside s | Other_message _ \<Rightarrow> s)"

definition Server_Init :: "server \<Rightarrow> bool \<times> server" where
  "Server_Init a = (True, a\<lparr> as_loop := True \<rparr>)"

definition Server_Start :: "server \<Rightarrow> bool \<times> server" where
  "Server_Start a = (True, a\<lparr> as_owner := (as_owner a)\<lparr> sv_thread := True, sv_running := True \<rparr> \<rparr>)"

text \<open>\<open>Stop\<close> from another thread posts a message and joins the thread, which turns until it is stopped; turns before the
  signal do nothing.  Joining returns when the loop has ended.\<close>

definition Server_Stop :: "server \<Rightarrow> (bool \<times> server) option" where
  "Server_Stop a =
     (if \<not> sv_thread (as_owner a) then Some (True, a)
      else do {
        a1 \<leftarrow> PostMessage Server_OnMessage False SERVER_MESSAGE_STOP a;
        (_, a2) \<leftarrow> async_callback Server_OnMessage a1;
        (if sv_stopped (as_owner a2) then Some (True, a2) else None) })"

definition Server_IsRunning :: "server \<Rightarrow> bool" where
  "Server_IsRunning a \<longleftrightarrow> sv_running (as_owner a)"

text \<open>The messages other threads post are handled once each and in order, and when there is no signal left none is queued;
  nothing in a run is undefined once the loop exists.\<close>

theorem messages_in_order:
  "case async_run h es ((Async_new s)\<lparr> as_loop := True \<rparr>) of None \<Rightarrow> False
   | Some (handled, a) \<Rightarrow> sent_outside es = handled @ dbq_content (as_queue a) \<and> (\<not> as_signal a \<longrightarrow> handled = sent_outside es)"
proof -
  have "async_ok ((Async_new s)\<lparr> as_loop := True \<rparr>)" by (simp add: async_ok_def Async_new_def dbq_size_def dbq_new_def dbq_ok_def)
      (simp add: dbq_content_def NextQueueIndex_def)
  from async_run_spec[OF this, of h es] show ?thesis
    by (auto simp: async_ok_def Async_new_def)
qed

lemma Server_OnMessage_stops:
  "sv_thread s \<Longrightarrow> SERVER_MESSAGE_STOP \<in> set ms \<Longrightarrow> sv_stopped (fold Server_OnMessage ms s) \<and> \<not> sv_running (fold Server_OnMessage ms s)"
proof -
  have keep: "sv_stopped t \<and> \<not> sv_running t \<Longrightarrow> sv_stopped (fold Server_OnMessage ms t) \<and> \<not> sv_running (fold Server_OnMessage ms t)" for ms t
    by (induction ms arbitrary: t) (auto simp: Server_OnMessage_def stop_inside_def split: server_message.splits)
  have thread: "sv_thread (Server_OnMessage m t) = sv_thread t" for m t by (simp add: Server_OnMessage_def stop_inside_def split: server_message.splits)
  show "sv_thread s \<Longrightarrow> SERVER_MESSAGE_STOP \<in> set ms \<Longrightarrow> sv_stopped (fold Server_OnMessage ms s) \<and> \<not> sv_running (fold Server_OnMessage ms s)"
  proof (induction ms arbitrary: s)
    case (Cons m ms)
    show ?case
    proof (cases "m = SERVER_MESSAGE_STOP")
      case True
      then have "Server_OnMessage m s = s\<lparr> sv_stopped := True, sv_running := False \<rparr>"
        using Cons.prems by (simp add: Server_OnMessage_def stop_inside_def)
      then show ?thesis using keep[of "Server_OnMessage m s" ms] by simp
    next
      case False
      then show ?thesis using Cons thread by simp
    qed
  qed simp
qed

text \<open>\<open>Stop\<close> from outside returns, after all messages posted before it have been handled, and the server has stopped.\<close>

lemma stop_from_outside:
  assumes "async_ok a" "sv_thread (as_owner a)"
  shows "\<exists>a'. Server_Stop a = Some (True, a') \<and> \<not> Server_IsRunning a' \<and> dbq_content (as_queue a') = []"
proof -
  obtain a1 where a1: "PostMessage Server_OnMessage False SERVER_MESSAGE_STOP a = Some a1" "async_ok a1"
      "dbq_content (as_queue a1) = dbq_content (as_queue a) @ [SERVER_MESSAGE_STOP]"
    using Post_outside_spec[OF assms(1)] by blast
  have o1: "as_owner a1 = as_owner a" using a1(1) by (auto simp: PostMessage_def split: if_splits)
  obtain a2 where a2: "async_callback Server_OnMessage a1 = Some (dbq_content (as_queue a1), a2)" "dbq_content (as_queue a2) = []"
      "as_owner a2 = fold Server_OnMessage (dbq_content (as_queue a1)) (as_owner a1)"
    using async_callback_spec[OF a1(2)] by blast
  have "sv_stopped (as_owner a2) \<and> \<not> sv_running (as_owner a2)" unfolding a2(3) o1 a1(3) by (rule Server_OnMessage_stops) (use assms(2) in simp_all)
  then show ?thesis using a1(1) a2 assms(2) by (simp add: Server_Stop_def Server_IsRunning_def)
qed

lemma started_ok: "async_ok (snd (Server_Start (snd (Server_Init Server_new))))"
  by (simp add: async_ok_def Server_Start_def Server_Init_def Server_new_def Async_new_def dbq_size_def dbq_new_def dbq_ok_def)
    (simp add: dbq_content_def NextQueueIndex_def)

end
