(* ===== verification/Http_Response.thy ===== *)
theory Http_Response
  imports C_Text Json
begin

text \<open>
  Answers to HTTP requests (\<open>http_response.cpp\<close>): the text collected, and what is sent through mongoose.  The table of
  reasons that the constructor fills is static, so every destructor empties it for all answers (\<open>shared_reasons\<close>).
\<close>

record http_response =
  hp_type :: "byte list"
  hp_content :: "byte list"
  hp_code :: u32

definition reasons :: "(nat \<times> string) list" where
  "reasons =
     [(201, ''Created''), (202, ''Accept''), (203, ''Non-Authoritative Information''), (204, ''No Content''), (205, ''Reset Content''),
      (206, ''Partial Content''), (300, ''Multiple Choices''), (301, ''Moved Permanently''), (302, ''Found''), (303, ''See Other''),
      (304, ''Not Modified''), (305, ''Use Proxy''), (306, ''Unused''), (307, ''Temporary Redirect''), (400, ''Bad Request''),
      (401, ''Unauthorized''), (402, ''Payment Required''), (403, ''Forbidden''), (404, ''Not Found''), (405, ''Method Not Allowed''),
      (406, ''Not Acceptable''), (407, ''Proxy Authentication Required''), (408, ''Request Timeout''), (409, ''Conflict''), (410, ''Go''),
      (411, ''Length Required''), (412, ''Precondition Failed''), (413, ''Request Entity Too Large''), (414, ''Request-URI Too Long''),
      (415, ''Unsupported Media Type''), (416, ''Requested Range Not Satisfiable''), (417, ''Expectation Failed''),
      (500, ''Internal Server Error''), (501, ''Not Implemented''), (502, ''Bad Gateway''), (503, ''Service Unavailable''),
      (504, ''Gateway Timeout''), (505, ''HTTP Version Not Supported'')]"

text \<open>The constructor and the destructor work on the table too.\<close>

type_synonym code_msgs = "nat \<rightharpoonup> string"

definition InitCodeMsgs :: "code_msgs \<Rightarrow> code_msgs" where
  "InitCodeMsgs t = fold (\<lambda>(c, m) t. t(c \<mapsto> m)) reasons t"

definition HttpResponse_new :: "code_msgs \<Rightarrow> http_response \<times> code_msgs" where
  "HttpResponse_new t = (\<lparr> hp_type = bytes ''text/plain'', hp_content = [], hp_code = 200 \<rparr>, InitCodeMsgs t)"

definition HttpResponse_destroy :: "code_msgs \<Rightarrow> code_msgs" where
  "HttpResponse_destroy t = Map.empty"

definition SetStatusCode :: "u32 \<Rightarrow> http_response \<Rightarrow> http_response" where
  "SetStatusCode code r = r\<lparr> hp_code := code \<rparr>"

text \<open>Both overloads of each: a C string ends at its NUL.\<close>

definition SetContentType :: "byte list \<Rightarrow> http_response \<Rightarrow> http_response" where
  "SetContentType t r = r\<lparr> hp_type := t \<rparr>"

definition SetContentType_c :: "byte list \<Rightarrow> http_response \<Rightarrow> http_response" where
  "SetContentType_c t = SetContentType (cstr t)"

definition AppendContent :: "byte list \<Rightarrow> http_response \<Rightarrow> http_response" where
  "AppendContent c r = r\<lparr> hp_content := hp_content r @ c \<rparr>"

definition AppendContent_c :: "byte list \<Rightarrow> http_response \<Rightarrow> http_response" where
  "AppendContent_c c = AppendContent (cstr c)"

datatype mg_call = Send_status u32 | Send_header "byte list" "byte list" | Send_data "byte list"

definition Flush :: "http_response \<Rightarrow> mg_call list" where
  "Flush r =
     [Send_status (hp_code r),
      Send_header (bytes ''Content-Type'') (cstr (hp_type r)),
      Send_header (bytes ''Content-Length'') (take 127 (decimal (length (hp_content r)))),
      Send_data (hp_content r)]"

subsection \<open>What is sent\<close>

lemma decimal_short: "n < 10 ^ 127 \<Longrightarrow> length (decimal n) \<le> 127"
proof -
  have "n < 10 ^ k \<Longrightarrow> k > 0 \<Longrightarrow> length (decimal n) \<le> k" for k n
  proof (induction k arbitrary: n)
    case (Suc k)
    show ?case
    proof (cases "n < 10")
      case True
      then show ?thesis by (subst decimal.simps) simp
    next
      case False
      then have "k > 0" using Suc.prems by (cases k) simp_all
      moreover have "n div 10 < 10 ^ k" using Suc.prems by (simp add: less_mult_imp_div_less mult.commute)
      ultimately have "length (decimal (n div 10)) \<le> k" by (intro Suc.IH)
      then show ?thesis using False by (subst decimal.simps) simp
    qed
  qed simp
  from this[of n 127] show "n < 10 ^ 127 \<Longrightarrow> length (decimal n) \<le> 127" by simp
qed

text \<open>The pieces come out in order, whatever is set in between, and the announced length is the length of what follows.\<close>

lemma flush_content:
  assumes "length (concat cs) < 2 ^ 64"
  shows "Flush (SetStatusCode code (SetContentType t (fold AppendContent cs (fst (HttpResponse_new m))))) =
     [Send_status code, Send_header (bytes ''Content-Type'') (cstr t), Send_header (bytes ''Content-Length'') (decimal (length (concat cs))),
      Send_data (concat cs)]"
proof -
  have f: "fold AppendContent cs r = r\<lparr> hp_content := hp_content r @ concat cs \<rparr>" for r :: http_response
    by (induction cs arbitrary: r) (simp_all add: AppendContent_def)
  have "length (concat cs) < 10 ^ 127" using assms by (rule less_le_trans) simp
  from decimal_short[OF this] show ?thesis
    by (simp add: Flush_def SetStatusCode_def SetContentType_def f HttpResponse_new_def)
qed

text \<open>While one answer is being made the destruction of another empties the table; 200, the code of every new answer, is
  not in it at all.\<close>

lemma shared_reasons:
  "HttpResponse_destroy (snd (HttpResponse_new (snd (HttpResponse_new t)))) c = None"
  "InitCodeMsgs Map.empty 404 = Some ''Not Found''" "InitCodeMsgs Map.empty 200 = None"
  by (simp_all add: HttpResponse_destroy_def InitCodeMsgs_def reasons_def)

end
