(* ===== verification/Json_Utility.thy ===== *)
theory Json_Utility
  imports Json
begin

text \<open>
  Reading JSON with checks (\<open>rapidjson_utility.cpp\<close>) and the messages about characters that are made of it
  (\<open>character_opcode_def.cpp\<close>).  Some checks and the conversions after them do not fit: a conversion asserts its own
  kind of number, which is \<^const>\<open>None\<close> here.
\<close>

subsection \<open>Configuration files\<close>

text \<open>The file is its bytes, if it can be opened, and the error of the stream.  A text that is no JSON is no error.\<close>

definition ReadConfFile :: "('j, 'z) json_api_scheme \<Rightarrow> (byte list \<times> int) option \<Rightarrow> 'j \<Rightarrow> bool \<times> 'j" where
  "ReadConfFile J file conf =
     (case file of None \<Rightarrow> (False, conf)
      | Some (text, err) \<Rightarrow> if length text \<ge> 102400 \<or> err \<noteq> 0 then (False, conf) else (True, js_parse J (cstr text)))"

subsection \<open>Members\<close>

text \<open>\<open>ok\<close> is the check of the code, \<open>conv\<close> the conversion.\<close>

definition get_value :: "('j, 'z) json_api_scheme \<Rightarrow> ('j \<Rightarrow> bool) \<Rightarrow> ('j \<Rightarrow> 'a option) \<Rightarrow> 'j \<Rightarrow> byte list \<Rightarrow> 'a \<Rightarrow> (bool \<times> 'a) option" where
  "get_value J ok conv json name old =
     (if \<not> js_is_object J json then Some (False, old)
      else case js_member J json (cstr name) of
        None \<Rightarrow> Some (False, old)
      | Some v \<Rightarrow> if ok v then map_option (\<lambda>x. (True, x)) (conv v) else Some (False, old))"

definition GetStringValue :: "('j, 'z) json_api_scheme \<Rightarrow> 'j \<Rightarrow> byte list \<Rightarrow> byte list \<Rightarrow> (bool \<times> byte list) option" where
  "GetStringValue J = get_value J (\<lambda>v. get_String J v \<noteq> None) (get_String J)"

definition GetIntValue :: "('j, 'z) json_api_scheme \<Rightarrow> 'j \<Rightarrow> byte list \<Rightarrow> int \<Rightarrow> (bool \<times> int) option" where
  "GetIntValue J = get_value J (\<lambda>v. get_Int J v \<noteq> None \<or> get_Uint J v \<noteq> None) (get_Int J)"

definition GetInt64Value :: "('j, 'z) json_api_scheme \<Rightarrow> 'j \<Rightarrow> byte list \<Rightarrow> int \<Rightarrow> (bool \<times> int) option" where
  "GetInt64Value J = get_value J (\<lambda>v. get_Int64 J v \<noteq> None \<or> get_Uint64 J v \<noteq> None) (get_Int64 J)"

definition GetUintValue :: "('j, 'z) json_api_scheme \<Rightarrow> 'j \<Rightarrow> byte list \<Rightarrow> int \<Rightarrow> (bool \<times> int) option" where
  "GetUintValue J = get_value J (\<lambda>v. get_Int J v \<noteq> None) (get_Uint J)"

definition GetUint64Value :: "('j, 'z) json_api_scheme \<Rightarrow> 'j \<Rightarrow> byte list \<Rightarrow> int \<Rightarrow> (bool \<times> int) option" where
  "GetUint64Value J = get_value J (\<lambda>v. get_Uint64 J v \<noteq> None) (get_Uint64 J)"

text \<open>The result is cut to a byte.\<close>

definition GetUint8Value :: "('j, 'z) json_api_scheme \<Rightarrow> 'j \<Rightarrow> byte list \<Rightarrow> byte \<Rightarrow> (bool \<times> byte) option" where
  "GetUint8Value J = get_value J (\<lambda>v. get_Uint64 J v \<noteq> None) (\<lambda>v. map_option word_of_int (get_Uint64 J v))"

lemma get_value_num:
  assumes "json_ok J" "0 \<notin> set k" "- (2 ^ 63) \<le> i" "i < 2 ^ 64"
  shows "get_value J ok conv (js_obj J [(k, js_num J i)]) k old = (if ok (js_num J i) then map_option (\<lambda>x. (True, x)) (conv (js_num J i)) else Some (False, old))"
  using assms js_obj_members[OF assms(1), of "[(k, js_num J i)]"] js_obj_member[OF assms(1), of "[(k, js_num J i)]"]
  by (simp add: get_value_def cstr_id)

text \<open>For which numbers each reader answers, refuses, or asserts.\<close>

lemma number_readers:
  assumes "json_ok J" "0 \<notin> set k" "- (2 ^ 63) \<le> i" "i < 2 ^ 64"
  shows "GetIntValue J (js_obj J [(k, js_num J i)]) k d =
      (if - (2 ^ 31) \<le> i \<and> i < 2 ^ 31 then Some (True, i) else if 2 ^ 31 \<le> i \<and> i < 2 ^ 32 then None else Some (False, d))"
    and "GetInt64Value J (js_obj J [(k, js_num J i)]) k d = (if i < 2 ^ 63 then Some (True, i) else None)"
    and "GetUintValue J (js_obj J [(k, js_num J i)]) k d =
      (if 0 \<le> i \<and> i < 2 ^ 31 then Some (True, i) else if - (2 ^ 31) \<le> i \<and> i < 0 then None else Some (False, d))"
    and "GetUint64Value J (js_obj J [(k, js_num J i)]) k d = (if 0 \<le> i then Some (True, i) else Some (False, d))"
    and "GetUint8Value J (js_obj J [(k, js_num J i)]) k b = (if 0 \<le> i then Some (True, word_of_int i) else Some (False, b))"
  using assms by (auto simp: GetIntValue_def GetInt64Value_def GetUintValue_def GetUint64Value_def GetUint8Value_def get_value_num get_num)

subsection \<open>Messages about characters\<close>

text \<open>The printer of rapidjson is \<open>print\<close>, \<open>now\<close> the clock, \<open>seq\<close> the sequence number, which is incremented.\<close>

definition GET_CHARACTER_INFO_REQ :: int where "GET_CHARACTER_INFO_REQ = 1"

definition UPDATE_CHARACTER_INFO_REQ :: int where "UPDATE_CHARACTER_INFO_REQ = 2"

record character_req =
  cr_account :: u32
  cr_game :: "byte list"
  cr_resp_type :: u32

definition message_text :: "('j \<Rightarrow> byte list) \<Rightarrow> int \<Rightarrow> 'j \<Rightarrow> byte list" where
  "message_text print opcode req = take 9 (show_int opcode) @ 0x3A # cstr (print req)"

definition CharacterInfoReq_ToJson :: "('j, 'z) json_api_scheme \<Rightarrow> ('j \<Rightarrow> byte list) \<Rightarrow> int \<Rightarrow> character_req \<Rightarrow> u32 \<Rightarrow> byte list \<times> u32" where
  "CharacterInfoReq_ToJson J print now r seq =
     (message_text print GET_CHARACTER_INFO_REQ (js_obj J
        [(bytes ''accountId'', js_num J (uint (cr_account r))), (bytes ''gameId'', js_str J (cstr (cr_game r))),
         (bytes ''respMsgType'', js_num J (uint (cr_resp_type r))), (bytes ''messageCreateTime'', js_num J (sint (word_of_int now :: 32 word))),
         (bytes ''csSeqID'', js_num J (uint (seq + 1)))]), seq + 1)"

text \<open>\<open>info\<close> is the document of the player's character.\<close>

definition CharacterInfoUpdateReq_ToJson :: "('j, 'z) json_api_scheme \<Rightarrow> ('j \<Rightarrow> byte list) \<Rightarrow> int \<Rightarrow> 'j \<Rightarrow> character_req \<Rightarrow> u32 \<Rightarrow> byte list \<times> u32" where
  "CharacterInfoUpdateReq_ToJson J print now info r seq =
     (message_text print UPDATE_CHARACTER_INFO_REQ (js_obj J
        [(bytes ''accountId'', js_num J (uint (cr_account r))), (bytes ''gameId'', js_str J (cstr (cr_game r))),
         (bytes ''characterInfo'', info), (bytes ''respMsgType'', js_num J (uint (cr_resp_type r))),
         (bytes ''messageCreateTime'', js_num J (sint (word_of_int now :: 32 word))), (bytes ''csSeqID'', js_num J (uint (seq + 1)))]), seq + 1)"

record 'j character_resp =
  cs_account :: u32
  cs_info :: 'j
  cs_create_time :: "32 word"

text \<open>\<open>IsInt\<close> keeps an account from \<open>2^31\<close> on from being read.\<close>

definition CharacterInfoResp_FromJson :: "('j, 'z) json_api_scheme \<Rightarrow> 'j \<Rightarrow> 'j character_resp \<Rightarrow> 'j character_resp" where
  "CharacterInfoResp_FromJson J response r =
     (if \<not> js_is_object J response then r
      else r\<lparr> cs_account := get_if J response ''accountId'' (get_word_of (get_Int J)) (cs_account r),
              cs_info := get_if J response ''characterInfo'' (\<lambda>v. if js_is_object J v then Some v else None) (cs_info r),
              cs_create_time := get_if J response ''createMessageRespTime'' (get_word_of (get_Int J)) (cs_create_time r) \<rparr>)"

definition CharacterInfoUpdateResp_FromJson :: "('j, 'z) json_api_scheme \<Rightarrow> 'j \<Rightarrow> 'j character_resp \<Rightarrow> 'j character_resp" where
  "CharacterInfoUpdateResp_FromJson J response r =
     (if \<not> js_is_object J response then r
      else r\<lparr> cs_account := get_if J response ''accountId'' (get_word_of (get_Int J)) (cs_account r),
              cs_create_time := get_if J response ''createMessageRespTime'' (get_word_of (get_Int J)) (cs_create_time r) \<rparr>)"

text \<open>The answer to a request for a character is read back, unless the account is \<open>2^31\<close> or more: then the old one stays.\<close>

lemma character_answer:
  assumes "json_ok J" "js_is_object J info"
  shows "CharacterInfoResp_FromJson J (js_obj J [(bytes ''accountId'', js_num J (uint acc)), (bytes ''characterInfo'', info),
      (bytes ''createMessageRespTime'', js_num J (sint t))]) r =
    r\<lparr> cs_account := (if acc < 2 ^ 31 then acc else cs_account r), cs_info := info, cs_create_time := t \<rparr>"
proof -
  let ?kvs = "[(bytes ''accountId'', js_num J (uint acc)), (bytes ''characterInfo'', info), (bytes ''createMessageRespTime'', js_num J (sint t))]"
  have o: "js_is_object J (js_obj J ?kvs)" using js_obj_members[OF assms(1)] by blast
  have m: "js_member J (js_obj J ?kvs) k = map_of ?kvs k" for k by (rule js_obj_member[OF assms(1)]) simp
  have range: "0 \<le> u \<Longrightarrow> u < 2 ^ 32 \<Longrightarrow> - (2 ^ 63) \<le> u \<and> u < 2 ^ 64" for u :: int by simp
  have a: "- (2 ^ 63) \<le> uint acc \<and> uint acc < 2 ^ 64" by (rule range) (use uint_bounded[of acc] in simp_all)
  have low: "- (2 ^ 31) \<le> uint acc" using order_trans[of "- (2 ^ 31)" 0 "uint acc"] by simp
  have b: "uint acc < 2 ^ 31 \<longleftrightarrow> acc < 2 ^ 31" by (simp add: word_less_def)
  have t: "- (2 ^ 31) \<le> sint t" "sint t < 2 ^ 31" using sint_greater_eq[of t] sint_less[of t] by simp_all
  have g: "get_Int J (js_num J (uint acc)) = (if acc < 2 ^ 31 then Some (uint acc) else None)"
    using get_num(1)[OF assms(1) conjunct1[OF a] conjunct2[OF a]] b low by simp
  have "- (2 ^ 63) \<le> sint t" "sint t < 2 ^ 64" using t by simp_all
  then have h: "get_Int J (js_num J (sint t)) = Some (sint t)" using get_num(1)[OF assms(1), of "sint t"] t by simp
  show ?thesis
    using o assms(2) by (cases r) (simp add: CharacterInfoResp_FromJson_def get_if_def read_member_def m g h get_word_of_def)
qed

end
