(* ===== verification/Csv_Parser.thy ===== *)
theory Csv_Parser
  imports Json
begin

text \<open>
  The parser of CSV files (\<open>csv_parser.cpp\<close>, \<open>csv_parser.h\<close>): lines of the file, and the fields of a line in its three
  modes.  A line is the block the code allocates for it, with its terminator and a NUL.  Undefined is \<^const>\<open>None\<close>:
  an access outside the line or the block for the field, a block that was not allocated, reading without a file.
\<close>

subsection \<open>The parser\<close>

datatype enclosure = ENCLOSURE_TYPE_BEGIN | ENCLOSURE_NONE | ENCLOSURE_REQUIRED | ENCLOSURE_OPTIONAL | ENCLOSURE_TYPE_END

record csv_dialect =
  enclosed_char :: byte
  escaped_char :: byte
  field_term_char :: byte
  line_term_char :: byte
  enclosed_length :: u32
  escaped_length :: u32
  field_term_length :: u32
  line_term_length :: u32
  enclosure_type :: enclosure

text \<open>The file is its bytes and the position in it.\<close>

record csv =
  cp_dialect :: csv_dialect
  cp_ignore :: u32
  cp_count :: u32
  cp_fp :: "(byte list \<times> nat) option"
  cp_filename :: "byte list option"
  cp_more :: bool

definition csv_new :: csv where
  "csv_new =
     \<lparr> cp_dialect = \<lparr> enclosed_char = 0, escaped_char = 0x5C, field_term_char = 0x2C, line_term_char = 0x0A, enclosed_length = 0,
         escaped_length = 1, field_term_length = 1, line_term_length = 1, enclosure_type = ENCLOSURE_NONE \<rparr>,
       cp_ignore = 0, cp_count = 0, cp_fp = None, cp_filename = None, cp_more = False \<rparr>"

definition set_enclosed_char :: "byte \<Rightarrow> enclosure \<Rightarrow> csv \<Rightarrow> csv" where
  "set_enclosed_char b m c =
     (if b \<noteq> 0 then c\<lparr> cp_dialect := (cp_dialect c)\<lparr> enclosed_char := b, enclosed_length := 1, enclosure_type := m \<rparr> \<rparr> else c)"

definition set_field_term_char :: "byte \<Rightarrow> csv \<Rightarrow> csv" where
  "set_field_term_char b c =
     (if b \<noteq> 0 then c\<lparr> cp_dialect := (cp_dialect c)\<lparr> field_term_char := b, field_term_length := 1 \<rparr> \<rparr> else c)"

definition set_line_term_char :: "byte \<Rightarrow> csv \<Rightarrow> csv" where
  "set_line_term_char b c =
     (if b \<noteq> 0 then c\<lparr> cp_dialect := (cp_dialect c)\<lparr> line_term_char := b, line_term_length := 1 \<rparr> \<rparr> else c)"

definition has_more_rows :: "csv \<Rightarrow> bool" where
  "has_more_rows c = cp_more c"

definition set_skip_lines :: "u32 \<Rightarrow> csv \<Rightarrow> csv" where
  "set_skip_lines n c = c\<lparr> cp_ignore := n \<rparr>"

definition get_record_count :: "csv \<Rightarrow> u32" where
  "get_record_count c = cp_count c"

definition reset_record_count :: "csv \<Rightarrow> csv" where
  "reset_record_count c = c\<lparr> cp_count := 0 \<rparr>"

subsection \<open>The fields of a line\<close>

text \<open>\<open>memcpy\<close> into the block of the field, which is as long as the line, the NUL behind it, and the string up to its first
  NUL.\<close>

definition copy_field :: "byte list \<Rightarrow> nat \<Rightarrow> nat \<Rightarrow> byte list option" where
  "copy_field line from w = do { s \<leftarrow> mem_read line from w; if w < length line then Some (cstr s) else None }"

text \<open>The field of \<open>w\<close> bytes at \<open>from\<close> without enclosure, and with an optional one: there its last byte is looked up at
  the unsigned \<open>field_width - 1\<close>.\<close>

definition plain_field :: "csv_dialect \<Rightarrow> byte list \<Rightarrow> nat \<Rightarrow> nat \<Rightarrow> byte list option" where
  "plain_field d line from w = copy_field line from w"

definition line_at :: "byte list \<Rightarrow> nat \<Rightarrow> byte option" where
  "line_at line i = (if i < length line then Some (line ! i) else None)"

definition optional_field :: "csv_dialect \<Rightarrow> byte list \<Rightarrow> nat \<Rightarrow> nat \<Rightarrow> byte list option" where
  "optional_field d line from w = do {
     a \<leftarrow> line_at line from;
     z \<leftarrow> line_at line (from + unat (word_of_nat w - 1 :: u32));
     let first = (if a = enclosed_char d then 1 else 0);
     let final = (if z = enclosed_char d then 2 else 0);
     let width = (if 2 < w then w - final else w);
     copy_field line (from + first) width }"

text \<open>One byte of the loop: at a terminator the field is taken.  The state is where the field starts and the row.\<close>

definition sep_char ::
  "(csv_dialect \<Rightarrow> byte list \<Rightarrow> nat \<Rightarrow> nat \<Rightarrow> byte list option) \<Rightarrow> csv_dialect \<Rightarrow> byte list \<Rightarrow> nat \<Rightarrow> nat \<times> byte list list
    \<Rightarrow> (nat \<times> byte list list) option" where
  "sep_char field d line pos st =
     (let (from, row) = st; curr = line ! pos in
      if curr = field_term_char d then do { f \<leftarrow> field d line from (pos - from); Some (pos + 1, row @ [f]) }
      else if curr = line_term_char d then do { f \<leftarrow> field d line from (pos - from); Some (from, row @ [f]) }
      else Some st)"

definition alloc :: "heap_env \<Rightarrow> nat \<Rightarrow> unit option" where
  "alloc H n = (if he_ok H n then Some () else None)"

definition get_fields_without_enclosure :: "heap_env \<Rightarrow> csv_dialect \<Rightarrow> byte list \<Rightarrow> byte list list option" where
  "get_fields_without_enclosure H d line =
     (if length line > 0 then do {
        alloc H (length line);
        st \<leftarrow> each (sep_char plain_field d line) [0..<length line] (0, []);
        Some (snd st) }
      else Some [])"

definition get_fields_with_optional_enclosure :: "heap_env \<Rightarrow> csv_dialect \<Rightarrow> byte list \<Rightarrow> byte list list option" where
  "get_fields_with_optional_enclosure H d line =
     (if length line > 0 then do {
        alloc H (length line);
        st \<leftarrow> each (sep_char optional_field d line) [0..<length line] (0, []);
        Some (snd st) }
      else Some [])"

text \<open>With enclosures the state counts them: 1 inside a field.  An escaped one is not counted.\<close>

definition enclosed_step :: "csv_dialect \<Rightarrow> byte list \<Rightarrow> nat \<Rightarrow> nat \<times> nat \<times> byte list list \<Rightarrow> (nat \<times> nat \<times> byte list list) option" where
  "enclosed_step d line pos st =
     (let (state, from, row) = st in
      if line ! pos = enclosed_char d then
        let previous = (if pos > 0 then line ! (pos - 1) else 0);
            state' = (if pos > 0 \<and> previous = escaped_char d then state else state + 1)
        in if state' = 1 \<and> previous \<noteq> escaped_char d then Some (state', pos, row)
           else if state' = 2 then do { f \<leftarrow> copy_field line (from + 1) (pos - from - 1); Some (0, from, row @ [f]) }
           else Some (state', from, row)
      else Some st)"

definition get_fields_with_enclosure :: "heap_env \<Rightarrow> csv_dialect \<Rightarrow> byte list \<Rightarrow> byte list list option" where
  "get_fields_with_enclosure H d line =
     (if length line > 0 then do {
        alloc H (length line);
        (state, from, row) \<leftarrow> each (enclosed_step d line) [0..<length line] (0, 0, []);
        if row = [] then Some [cstr line]
        else if state = 1 then do { f \<leftarrow> copy_field line (from + 1) (length line - from - 1); Some (row @ [f]) }
        else Some row }
      else Some [])"

definition get_fields :: "heap_env \<Rightarrow> csv_dialect \<Rightarrow> byte list \<Rightarrow> byte list list option" where
  "get_fields H d line = (case enclosure_type d of
     ENCLOSURE_NONE \<Rightarrow> get_fields_without_enclosure H d line
   | ENCLOSURE_REQUIRED \<Rightarrow> get_fields_with_enclosure H d line
   | _ \<Rightarrow> get_fields_with_optional_enclosure H d line)"

subsection \<open>Lines and rows\<close>

text \<open>The bytes up to the terminator, which is a signed \<open>char\<close> compared to the \<open>int\<close> of \<open>fgetc\<close>; whether it was met.\<close>

primrec line_end :: "byte \<Rightarrow> byte list \<Rightarrow> nat \<times> bool" where
  "line_end t [] = (0, False)"
| "line_end t (b # bs) = (if uint b = sint t then (1, True) else (let (n, met) = line_end t bs in (n + 1, met)))"

text \<open>The length is cut to 32 bits where the block is allocated, so that longer lines overrun it.\<close>

definition read_single_line :: "heap_env \<Rightarrow> csv \<Rightarrow> (byte list \<times> csv) option" where
  "read_single_line H c = do {
     (file, pos) \<leftarrow> cp_fp c;
     let (n, met) = line_end (line_term_char (cp_dialect c)) (drop pos file);
     let more = (cp_more c \<and> met \<and> pos + n < length file);
     if n > 0 then do {
       alloc H (n + 1);
       _ \<leftarrow> (if n + 1 < 2 ^ 32 then Some () else None);
       Some (take n (drop pos file) @ [0], c\<lparr> cp_fp := Some (file, pos + n), cp_more := more \<rparr>) }
     else Some ([], c\<lparr> cp_more := more \<rparr>) }"

definition get_row :: "heap_env \<Rightarrow> csv \<Rightarrow> (byte list list \<times> csv) option" where
  "get_row H c = do {
     (line, c1) \<leftarrow> read_single_line H c;
     row \<leftarrow> get_fields H (cp_dialect c1) line;
     Some (row, c1\<lparr> cp_count := cp_count c1 + 1 \<rparr>) }"

primrec skip_rows :: "heap_env \<Rightarrow> nat \<Rightarrow> csv \<Rightarrow> csv option" where
  "skip_rows H 0 c = Some c"
| "skip_rows H (Suc n) c = (if has_more_rows c then do { (_, c1) \<leftarrow> get_row H c; skip_rows H n c1 } else Some c)"

text \<open>The \<open>abs\<close> of the least \<open>int\<close> is undefined.\<close>

definition skip_lines :: "heap_env \<Rightarrow> csv \<Rightarrow> csv option" where
  "skip_lines H c = do {
     _ \<leftarrow> (if cp_ignore c = 0x80000000 then None else Some ());
     c1 \<leftarrow> skip_rows H (nat \<bar>sint (cp_ignore c)\<bar>) c;
     Some (c1\<lparr> cp_count := 0 \<rparr>) }"

text \<open>\<open>init\<close> with an open file, and with a name that \<open>fopen\<close> opens.\<close>

definition csv_init_file :: "heap_env \<Rightarrow> byte list option \<Rightarrow> csv \<Rightarrow> (bool \<times> csv) option" where
  "csv_init_file H f c = (case f of
     None \<Rightarrow> Some (False, c\<lparr> cp_fp := None \<rparr>)
   | Some file \<Rightarrow> do { c1 \<leftarrow> skip_lines H (c\<lparr> cp_fp := Some (file, 0), cp_more := True \<rparr>); Some (True, c1) })"

definition csv_init_name :: "heap_env \<Rightarrow> (byte list \<Rightarrow> byte list option) \<Rightarrow> byte list \<Rightarrow> csv \<Rightarrow> (bool \<times> csv) option" where
  "csv_init_name H fopen name c =
     (if cstr name = [] then Some (False, c)
      else if \<not> he_ok H (length (cstr name) + 1) then Some (False, c\<lparr> cp_filename := None \<rparr>)
      else case fopen (cstr name) of
        None \<Rightarrow> Some (False, c\<lparr> cp_filename := None, cp_fp := None \<rparr>)
      | Some file \<Rightarrow> do {
          c1 \<leftarrow> skip_lines H (c\<lparr> cp_filename := Some (cstr name), cp_fp := Some (file, 0), cp_more := True \<rparr>);
          Some (True, c1) })"

text \<open>The loop the header asks for: \<open>get_row\<close> while \<open>has_more_rows\<close>.\<close>

partial_function (option) all_rows :: "heap_env \<Rightarrow> csv \<Rightarrow> (byte list list list \<times> csv) option" where
  "all_rows H c =
     (if has_more_rows c then do {
        rc \<leftarrow> get_row H c;
        rest \<leftarrow> all_rows H (snd rc);
        Some (fst rc # fst rest, snd rest) }
      else Some ([], c))"

end
