(* ===== verification/Csv_Props.thy ===== *)
theory Csv_Props
  imports Csv_Parser
begin

text \<open>
  What the parser of CSV files returns: the interface \<open>csv_mode\<close> (a mode reads a line back that was written for it),
  interpreted for the three modes, gives the rows of a whole file.  Then what it does to lines that are not of this form.
\<close>

subsection \<open>Loops over positions\<close>

lemma each_skip: "(\<And>i. i \<in> set xs \<Longrightarrow> F i s = Some s) \<Longrightarrow> each F xs s = Some s"
  by (induction xs) auto

lemma each_block:
  assumes "\<And>i. a \<le> i \<Longrightarrow> i < b \<Longrightarrow> F i s = Some s" "a \<le> b" "b < n"
  shows "each F [a..<n] s = do { s' \<leftarrow> F b s; each F [Suc b..<n] s' }"
proof -
  have "[a..<n] = [a..<b] @ [b..<n]" using upt_add_eq_append[of a b "n - b"] assms(2,3) by simp
  then have "[a..<n] = [a..<b] @ b # [Suc b..<n]" using assms(3) by (simp add: upt_conv_Cons)
  moreover have "each F [a..<b] s = Some s" using assms(1) by (intro each_skip) auto
  ultimately show ?thesis by (simp add: each_append)
qed

fun csv_join :: "byte \<Rightarrow> byte list list \<Rightarrow> byte list" where
  "csv_join t [] = []"
| "csv_join t [f] = f"
| "csv_join t (f # g # fs) = f @ t # csv_join t (g # fs)"

lemma set_csv_join: "set (csv_join t fs) \<subseteq> insert t (\<Union> (set ` set fs))"
  by (induction t fs rule: csv_join.induct) auto

lemma cstr_id': "0 \<notin> set f \<Longrightarrow> cstr f = f"
  by (auto simp: cstr_def takeWhile_eq_all_conv)

lemma copy_field_mid:
  "line = pre @ f @ post \<Longrightarrow> from = length pre \<Longrightarrow> w = length f \<Longrightarrow> 0 \<notin> set f \<Longrightarrow> pre @ post \<noteq> []
    \<Longrightarrow> copy_field line from w = Some f"
  by (cases pre; cases post) (auto simp: copy_field_def mem_read_def cstr_id')

subsection \<open>Separated fields\<close>

lemma sep_field:
  assumes "t = field_term_char d \<or> t = line_term_char d" "line = pre @ e @ t # post"
    "field_term_char d \<notin> set e" "line_term_char d \<notin> set e" "field d line (length pre) (length e) = Some f"
  shows "each (sep_char field d line) [length pre..<length line] (length pre, row) =
     each (sep_char field d line) [Suc (length pre + length e)..<length line]
       (if t = field_term_char d then Suc (length pre + length e) else length pre, row @ [f])"
proof -
  have skip: "sep_char field d line i (length pre, row) = Some (length pre, row)" if "length pre \<le> i" "i < length pre + length e" for i
  proof -
    have "i - length pre < length e" using that by linarith
    then have "line ! i = e ! (i - length pre)" using that(1) assms(2) by (simp add: nth_append)
    moreover have "e ! (i - length pre) \<in> set e" using that by simp
    ultimately show ?thesis using assms(3,4) by (auto simp: sep_char_def Let_def)
  qed
  have "line ! (length pre + length e) = t" using assms(2) by (simp add: nth_append)
  then have "sep_char field d line (length pre + length e) (length pre, row) =
      Some (if t = field_term_char d then Suc (length pre + length e) else length pre, row @ [f])"
    using assms(1,5) by (auto simp: sep_char_def)
  then show ?thesis using each_block[of "length pre" "length pre + length e" "sep_char field d line" "(length pre, row)" "length line"]
      skip assms(2) by simp
qed

lemma sep_loop_row:
  assumes "field_term_char d \<noteq> line_term_char d" "field_term_char d \<noteq> 0" "line_term_char d \<noteq> 0"
    "fs \<noteq> []" "line = pre @ csv_join (field_term_char d) (map e fs) @ [line_term_char d, 0]"
    "\<And>f. f \<in> set fs \<Longrightarrow> field_term_char d \<notin> set (e f) \<and> line_term_char d \<notin> set (e f)"
    "\<And>f pre' t post. f \<in> set fs \<Longrightarrow> line = pre' @ e f @ t # post \<Longrightarrow> field d line (length pre') (length (e f)) = Some f"
  shows "\<exists>s. each (sep_char field d line) [length pre..<length line] (length pre, row) = Some (s, row @ fs)"
  using assms(4-)
proof (induction fs arbitrary: pre row rule: list_nonempty_induct)
  case (single f)
  have l: "line = pre @ e f @ line_term_char d # [0]" using single.prems(1) by simp
  have "each (sep_char field d line) [Suc (length pre + length (e f))..<length line] st = Some st" for st
    using assms(2,3) unfolding l by (intro each_skip) (auto simp: sep_char_def nth_append split: prod.splits)
  moreover have "field d line (length pre) (length (e f)) = Some f" using single.prems(3)[OF _ l] by simp
  ultimately show ?case
    using sep_field[of "line_term_char d" d line pre "e f" "[0]" field f row] l single.prems(2) assms(1) by auto
next
  case (cons f fs)
  obtain g gs where fs: "fs = g # gs" using cons.hyps by (cases fs) auto
  let ?pre = "pre @ e f @ [field_term_char d]"
  have l: "line = pre @ e f @ field_term_char d # csv_join (field_term_char d) (map e fs) @ [line_term_char d, 0]"
    using cons.prems(1) fs by simp
  have l': "line = ?pre @ csv_join (field_term_char d) (map e fs) @ [line_term_char d, 0]" using l by simp
  have "\<exists>s. each (sep_char field d line) [length ?pre..<length line] (length ?pre, row @ [f]) = Some (s, (row @ [f]) @ fs)"
    using cons.IH[OF l', of "row @ [f]"] cons.prems(2,3) by (metis list.set_intros(2))
  moreover have "field d line (length pre) (length (e f)) = Some f" using cons.prems(3)[OF _ l] by simp
  ultimately show ?case
    using sep_field[of "field_term_char d" d line pre "e f" _ field f row, OF _ l] cons.prems(2)[of f] by auto
qed

lemma sep_loop:
  assumes "field_term_char d \<noteq> line_term_char d" "field_term_char d \<noteq> 0" "line_term_char d \<noteq> 0"
    "fs \<noteq> []" "line = csv_join (field_term_char d) (map e fs) @ [line_term_char d, 0]"
    "\<And>f. f \<in> set fs \<Longrightarrow> field_term_char d \<notin> set (e f) \<and> line_term_char d \<notin> set (e f)"
    "\<And>f pre' t post. f \<in> set fs \<Longrightarrow> line = pre' @ e f @ t # post \<Longrightarrow> field d line (length pre') (length (e f)) = Some f"
  shows "\<exists>s. each (sep_char field d line) [0..<length line] (0, []) = Some (s, fs)"
  using sep_loop_row[of d fs line "[]" e field "[]", OF assms(1-4) _ assms(6,7)] assms(5) by simp

subsection \<open>The three modes\<close>

definition chars_ok :: "csv_dialect \<Rightarrow> bool" where
  "chars_ok d \<longleftrightarrow> field_term_char d \<noteq> line_term_char d \<and> field_term_char d \<noteq> 0 \<and> line_term_char d \<noteq> 0 \<and> line_term_char d < 0x80"

abbreviation csv_line :: "csv_dialect \<Rightarrow> (byte list \<Rightarrow> byte list) \<Rightarrow> byte list list \<Rightarrow> byte list" where
  "csv_line d e r \<equiv> csv_join (field_term_char d) (map e r) @ [line_term_char d]"

definition enclose :: "csv_dialect \<Rightarrow> byte list \<Rightarrow> byte list" where
  "enclose d f = enclosed_char d # f @ [enclosed_char d]"

lemma line_end_line:
  assumes "t < 0x80" "t \<notin> set xs"
  shows "line_end t (xs @ t # ys) = (length xs + 1, True)"
proof -
  have "sint t = uint t" using assms(1) signed_take_bit_int_eq_self[of 7 "uint t"] order_trans[of "-128" 0 "uint t"]
    by (simp add: sint_uint word_less_alt)
  then show ?thesis using assms(2) by (induction xs) (auto simp: word_uint_eq_iff)
qed

definition csv_text :: "csv_dialect \<Rightarrow> (byte list \<Rightarrow> byte list) \<Rightarrow> byte list list list \<Rightarrow> byte list" where
  "csv_text d e rs = concat (map (csv_line d e) rs)"

lemma csv_text_simps [simp]: "csv_text d e [] = []" "csv_text d e (r # rs) = csv_line d e r @ csv_text d e rs"
  "csv_text d e rs = [] \<longleftrightarrow> rs = []"
  by (auto simp: csv_text_def)

lemma csv_text_append: "csv_text d e (rs @ rs') = csv_text d e rs @ csv_text d e rs'"
  by (simp add: csv_text_def)

text \<open>The parser at a position of a file, and reading a whole file after \<open>init\<close>.\<close>

definition at_row :: "csv \<Rightarrow> byte list \<Rightarrow> byte list \<Rightarrow> u32 \<Rightarrow> csv" where
  "at_row c pre post n = c\<lparr> cp_fp := Some (pre @ post, length pre), cp_more := post \<noteq> [], cp_count := n \<rparr>"

definition read_file :: "heap_env \<Rightarrow> byte list \<Rightarrow> csv \<Rightarrow> (byte list list list \<times> u32) option" where
  "read_file H file c = do {
     i \<leftarrow> csv_init_file H (Some file) c;
     rc \<leftarrow> all_rows H (snd i);
     Some (fst rc, get_record_count (snd rc)) }"

locale csv_mode =
  fixes mode :: "csv_dialect \<Rightarrow> bool"
    and enc :: "csv_dialect \<Rightarrow> byte list \<Rightarrow> byte list"
    and good :: "csv_dialect \<Rightarrow> byte list \<Rightarrow> bool"
  assumes mode_chars: "mode d \<Longrightarrow> chars_ok d"
    and fields_line: "mode d \<Longrightarrow> r \<noteq> [] \<Longrightarrow> \<forall>f \<in> set r. good d f \<Longrightarrow> heap_ok H \<Longrightarrow> length (csv_line d (enc d) r) + 1 < 2 ^ 32
      \<Longrightarrow> get_fields H d (csv_line d (enc d) r @ [0]) = Some r"
    and one_line: "mode d \<Longrightarrow> good d f \<Longrightarrow> line_term_char d \<notin> set (enc d f)"
begin

lemma line_free:
  assumes "mode d" "\<forall>f \<in> set r. good d f"
  shows "line_term_char d \<notin> set (csv_join (field_term_char d) (map (enc d) r))"
  using set_csv_join[of "field_term_char d" "map (enc d) r"] one_line assms mode_chars by (fastforce simp: chars_ok_def)

lemma get_row_line:
  assumes "mode (cp_dialect c)" "r \<noteq> []" "\<forall>f \<in> set r. good (cp_dialect c) f" "heap_ok H"
    "length (csv_line (cp_dialect c) (enc (cp_dialect c)) r) + 1 < 2 ^ 32"
  shows "get_row H (at_row c pre (csv_line (cp_dialect c) (enc (cp_dialect c)) r @ post) n) =
     Some (r, at_row c (pre @ csv_line (cp_dialect c) (enc (cp_dialect c)) r) post (n + 1))"
proof -
  let ?d = "cp_dialect c"
  let ?xs = "csv_join (field_term_char ?d) (map (enc ?d) r)"
  have e: "line_end (line_term_char ?d) (?xs @ line_term_char ?d # post) = (length ?xs + 1, True)"
    using line_free[OF assms(1,3)] mode_chars[OF assms(1)] by (intro line_end_line) (auto simp: chars_ok_def)
  have "get_fields H ?d (?xs @ [line_term_char ?d, 0]) = Some r" using fields_line[OF assms(1-5)] by simp
  then show ?thesis using e assms(4,5)
    by (simp add: get_row_def read_single_line_def at_row_def alloc_def heap_okD)
qed

lemma rows_at:
  assumes "mode (cp_dialect c)" "\<forall>r \<in> set rs. r \<noteq> [] \<and> (\<forall>f \<in> set r. good (cp_dialect c) f)" "heap_ok H"
    "length (csv_text (cp_dialect c) (enc (cp_dialect c)) rs) + 1 < 2 ^ 32"
  shows "all_rows H (at_row c pre (csv_text (cp_dialect c) (enc (cp_dialect c)) rs) n) =
     Some (rs, at_row c (pre @ csv_text (cp_dialect c) (enc (cp_dialect c)) rs) [] (n + word_of_nat (length rs)))"
  using assms
proof (induction rs arbitrary: pre n)
  case Nil
  then show ?case by (subst all_rows.simps) (simp add: has_more_rows_def at_row_def)
next
  case (Cons r rs)
  note row = get_row_line[of c r H pre "csv_text (cp_dialect c) (enc (cp_dialect c)) rs" n]
  have "all_rows H (at_row c (pre @ csv_line (cp_dialect c) (enc (cp_dialect c)) r) (csv_text (cp_dialect c) (enc (cp_dialect c)) rs) (n + 1)) =
    Some (rs, at_row c (pre @ csv_text (cp_dialect c) (enc (cp_dialect c)) (r # rs)) [] (n + 1 + word_of_nat (length rs)))"
    using Cons.IH[of "pre @ csv_line (cp_dialect c) (enc (cp_dialect c)) r" "n + 1"] Cons.prems by simp
  moreover have "has_more_rows (at_row c pre (csv_text (cp_dialect c) (enc (cp_dialect c)) (r # rs)) n)"
    by (simp add: has_more_rows_def at_row_def)
  ultimately show ?case using row Cons.prems by (subst all_rows.simps) (simp add: add.assoc add.commute[of 1] add.left_commute[of 1])
qed

lemma skip_at:
  assumes "mode (cp_dialect c)" "\<forall>r \<in> set rs. r \<noteq> [] \<and> (\<forall>f \<in> set r. good (cp_dialect c) f)" "heap_ok H"
    "length (csv_text (cp_dialect c) (enc (cp_dialect c)) rs) + 1 < 2 ^ 32"
  shows "\<exists>pre' n'. skip_rows H k (at_row c pre (csv_text (cp_dialect c) (enc (cp_dialect c)) rs) n) =
     Some (at_row c pre' (csv_text (cp_dialect c) (enc (cp_dialect c)) (drop k rs)) n')"
  using assms
proof (induction k arbitrary: rs pre n)
  case (Suc k)
  show ?case
  proof (cases rs)
    case (Cons r rs')
    then show ?thesis
      using Suc.IH[of rs' "pre @ csv_line (cp_dialect c) (enc (cp_dialect c)) r" "n + 1"] Suc.prems
        get_row_line[of c r H pre "csv_text (cp_dialect c) (enc (cp_dialect c)) rs'" n]
      by (auto simp: has_more_rows_def) (auto simp: at_row_def)
  qed (auto simp: has_more_rows_def at_row_def)
qed auto

lemma read_text:
  assumes "mode (cp_dialect c)" "\<forall>r \<in> set rs. r \<noteq> [] \<and> (\<forall>f \<in> set r. good (cp_dialect c) f)" "heap_ok H"
    "length (csv_text (cp_dialect c) (enc (cp_dialect c)) rs) + 1 < 2 ^ 32" "rs \<noteq> []" "cp_ignore c < 0x80000000"
  shows "read_file H (csv_text (cp_dialect c) (enc (cp_dialect c)) rs) c =
     Some (drop (unat (cp_ignore c)) rs, word_of_nat (length rs - unat (cp_ignore c)))"
proof -
  let ?t = "csv_text (cp_dialect c) (enc (cp_dialect c))" and ?k = "unat (cp_ignore c)"
  obtain pre' n' where sk: "skip_rows H ?k (at_row c [] (?t rs) (cp_count c)) = Some (at_row c pre' (?t (drop ?k rs)) n')"
    using skip_at[OF assms(1-4)] by blast
  have "sint (cp_ignore c) = uint (cp_ignore c)" using assms(6) signed_take_bit_int_eq_self[of 31 "uint (cp_ignore c)"]
      order_trans[of "- (2 ^ 31)" 0 "uint (cp_ignore c)"] by (simp add: sint_uint word_less_alt)
  then have k: "nat \<bar>sint (cp_ignore c)\<bar> = ?k" by simp
  have s: "c\<lparr> cp_fp := Some (?t rs, 0), cp_more := True \<rparr> = at_row c [] (?t rs) (cp_count c)" using assms(5) by (simp add: at_row_def)
  have z: "(at_row c pre' (?t (drop ?k rs)) n')\<lparr> cp_count := 0 \<rparr> = at_row c pre' (?t (drop ?k rs)) 0" by (simp add: at_row_def)
  have "cp_ignore (at_row c [] (?t rs) (cp_count c)) = cp_ignore c" by (simp add: at_row_def)
  then have i: "csv_init_file H (Some (?t rs)) c = Some (True, at_row c pre' (?t (drop ?k rs)) 0)"
    using assms(6) sk by (auto simp: csv_init_file_def skip_lines_def s k z)
  have "length (?t rs) = length (?t (take ?k rs)) + length (?t (drop ?k rs))"
    using csv_text_append[of _ _ "take ?k rs" "drop ?k rs"] by (metis append_take_drop_id length_append)
  then have "all_rows H (at_row c pre' (?t (drop ?k rs)) 0) =
      Some (drop ?k rs, at_row c (pre' @ ?t (drop ?k rs)) [] (0 + word_of_nat (length (drop ?k rs))))"
    using assms(1-4) by (intro rows_at) (auto dest: in_set_dropD)
  then show ?thesis by (simp add: read_file_def i get_record_count_def) (simp add: at_row_def)
qed

end

text \<open>Without enclosures: no terminator in a field.\<close>

definition unenclosed :: "csv_dialect \<Rightarrow> bool" where
  "unenclosed d \<longleftrightarrow> chars_ok d \<and> enclosure_type d = ENCLOSURE_NONE"

definition plain_ok :: "csv_dialect \<Rightarrow> byte list \<Rightarrow> bool" where
  "plain_ok d f \<longleftrightarrow> field_term_char d \<notin> set f \<and> line_term_char d \<notin> set f \<and> 0 \<notin> set f"

lemma get_fields_none:
  assumes "unenclosed d" "r \<noteq> []" "\<forall>f \<in> set r. plain_ok d f" "heap_ok H"
  shows "get_fields H d (csv_line d (\<lambda>f. f) r @ [0]) = Some r"
proof -
  have "\<exists>s. each (sep_char plain_field d (csv_line d (\<lambda>f. f) r @ [0])) [0..<length (csv_line d (\<lambda>f. f) r @ [0])]
      (0, []) = Some (s, r)"
  proof (rule sep_loop[where e = "\<lambda>f. f"])
    fix f pre' t post assume "f \<in> set r" "csv_line d (\<lambda>f. f) r @ [0] = pre' @ f @ t # post"
    then show "plain_field d (csv_line d (\<lambda>f. f) r @ [0]) (length pre') (length f) = Some f"
      unfolding plain_field_def using assms(3) by (intro copy_field_mid[of _ pre' _ "t # post"]) (auto simp: plain_ok_def)
  qed (use assms(1-3) in \<open>auto simp: unenclosed_def chars_ok_def plain_ok_def\<close>)
  then show ?thesis using assms(1,4) by (auto simp: get_fields_def unenclosed_def get_fields_without_enclosure_def alloc_def heap_okD)
qed

interpretation csv_none: csv_mode unenclosed "\<lambda>d f. f" plain_ok
  by unfold_locales (use get_fields_none in \<open>auto simp: unenclosed_def plain_ok_def\<close>)

text \<open>With optional ones: a field may hold the enclosure, but not be empty.\<close>

definition optional_mode :: "csv_dialect \<Rightarrow> bool" where
  "optional_mode d \<longleftrightarrow> chars_ok d \<and> enclosed_char d \<notin> {0, field_term_char d, line_term_char d}
     \<and> enclosure_type d \<noteq> ENCLOSURE_NONE \<and> enclosure_type d \<noteq> ENCLOSURE_REQUIRED"

definition optional_ok :: "csv_dialect \<Rightarrow> byte list \<Rightarrow> bool" where
  "optional_ok d f \<longleftrightarrow> plain_ok d f \<and> f \<noteq> []"

lemma optional_field_enclosed:
  assumes "line = pre @ enclose d f @ t # post" "f \<noteq> []" "0 \<notin> set f" "length line < 2 ^ 32"
  shows "optional_field d line (length pre) (length (enclose d f)) = Some f"
proof -
  have n: "length (enclose d f) = length f + 2" by (simp add: enclose_def)
  have w: "unat (word_of_nat (length (enclose d f)) - 1 :: u32) = length f + 1"
  proof -
    have "(word_of_nat (length (enclose d f)) - 1 :: u32) = word_of_nat (length f + 1)" by (simp add: n)
    then show ?thesis using assms(1,4) n by (simp add: unat_of_nat take_bit_nat_eq_self_iff del: of_nat_add of_nat_Suc)
  qed
  have "line_at line (length pre) = Some (enclosed_char d)" "line_at line (length pre + (length f + 1)) = Some (enclosed_char d)"
    using assms(1) by (auto simp: line_at_def enclose_def nth_append)
  moreover have "copy_field line (length pre + 1) (length f) = Some f"
    using assms(1,3) by (intro copy_field_mid[of _ "pre @ [enclosed_char d]" _ "enclosed_char d # t # post"]) (auto simp: enclose_def)
  ultimately show ?thesis using assms(2) n w by (simp add: optional_field_def)
qed

lemma get_fields_optional:
  assumes "optional_mode d" "r \<noteq> []" "\<forall>f \<in> set r. optional_ok d f" "heap_ok H" "length (csv_line d (enclose d) r) + 1 < 2 ^ 32"
  shows "get_fields H d (csv_line d (enclose d) r @ [0]) = Some r"
proof -
  let ?l = "csv_line d (enclose d) r @ [0]"
  have "\<exists>s. each (sep_char optional_field d ?l) [0..<length ?l] (0, []) = Some (s, r)"
  proof (rule sep_loop[where e = "enclose d"])
    fix f pre' t post assume "f \<in> set r" "?l = pre' @ enclose d f @ t # post"
    moreover have "length ?l < 2 ^ 32" using assms(5) by simp
    ultimately show "optional_field d ?l (length pre') (length (enclose d f)) = Some f"
      using assms(3) by (intro optional_field_enclosed[of _ pre' d f t post]) (auto simp: plain_ok_def optional_ok_def)
  qed (use assms(1-3) in \<open>auto simp: optional_mode_def chars_ok_def plain_ok_def optional_ok_def enclose_def\<close>)
  then show ?thesis using assms(1,4)
    by (cases "enclosure_type d")
      (auto simp: get_fields_def optional_mode_def get_fields_with_optional_enclosure_def alloc_def heap_okD)
qed

interpretation csv_optional: csv_mode optional_mode enclose optional_ok
  by unfold_locales (use get_fields_optional in \<open>auto simp: optional_mode_def optional_ok_def plain_ok_def enclose_def\<close>)

text \<open>With enclosures: a field may hold the separator, but not the enclosure, nor end in the escape.\<close>

definition required_mode :: "csv_dialect \<Rightarrow> bool" where
  "required_mode d \<longleftrightarrow> chars_ok d \<and> enclosed_char d \<notin> {0, field_term_char d, line_term_char d, escaped_char d} \<and> escaped_char d \<noteq> 0
     \<and> field_term_char d \<noteq> escaped_char d \<and> enclosure_type d = ENCLOSURE_REQUIRED"

definition required_ok :: "csv_dialect \<Rightarrow> byte list \<Rightarrow> bool" where
  "required_ok d f \<longleftrightarrow> enclosed_char d \<notin> set f \<and> line_term_char d \<notin> set f \<and> 0 \<notin> set f \<and> (f \<noteq> [] \<longrightarrow> last f \<noteq> escaped_char d)"

lemma enclosed_field:
  assumes "line = pre @ enclose d f @ post" "required_ok d f" "enclosed_char d \<noteq> escaped_char d" "escaped_char d \<noteq> 0" "pre \<noteq> [] \<Longrightarrow> last pre \<noteq> escaped_char d"
  shows "\<exists>s. each (enclosed_step d line) [length pre..<length line] (0, k, row) =
     each (enclosed_step d line) [length pre + length f + 2..<length line] (0, s, row @ [f])"
proof -
  let ?q = "enclosed_char d" and ?F = "enclosed_step d line" and ?a = "length pre"
  have n: "length line = ?a + length f + 2 + length post" using assms(1) by (simp add: enclose_def)
  have at: "line ! ?a = ?q" "line ! (?a + 1 + length f) = ?q" using assms(1) by (auto simp: enclose_def nth_append)
  have prev: "?a > 0 \<Longrightarrow> line ! (?a - 1) \<noteq> escaped_char d"
    using assms(1,5) by (cases pre rule: rev_cases) (auto simp: nth_append)
  have first: "?F ?a (0, k, row) = Some (1, ?a, row)" using at(1) prev assms(3,4)
    by (cases "?a = 0") (auto simp: enclosed_step_def Let_def)
  have skip: "?F i (1, ?a, row) = Some (1, ?a, row)" if "Suc ?a \<le> i" "i < ?a + 1 + length f" for i
  proof -
    have "i - ?a - 1 < length f" using that by linarith
    then have "line ! i = f ! (i - ?a - 1)" using that(1) assms(1) by (simp add: enclose_def nth_append nth_Cons')
    moreover have "f ! (i - ?a - 1) \<in> set f" using that by simp
    ultimately show ?thesis using assms(2) by (auto simp: enclosed_step_def required_ok_def)
  qed
  have before: "line ! (?a + length f) \<noteq> escaped_char d"
  proof (cases f rule: rev_cases)
    case Nil
    then show ?thesis using at(1) assms(3) by simp
  next
    case (snoc g b)
    then show ?thesis using assms(1,2) by (simp add: enclose_def nth_append required_ok_def)
  qed
  have "copy_field line (?a + 1) (length f) = Some f" using assms(1,2)
    by (intro copy_field_mid[of _ "pre @ [enclosed_char d]" _ "enclosed_char d # post"]) (auto simp: enclose_def required_ok_def)
  then have last: "?F (?a + 1 + length f) (1, ?a, row) = Some (0, ?a, row @ [f])" using at(2) before
    by (simp add: enclosed_step_def Let_def)
  have "each ?F [?a..<length line] (0, k, row) = each ?F [Suc ?a..<length line] (1, ?a, row)"
  proof -
    have "?a < length line" using n by simp
    then have "[?a..<length line] = ?a # [Suc ?a..<length line]" by (rule upt_conv_Cons)
    then show ?thesis using first by (simp only: each.simps bind.bind_lunit)
  qed
  also have "\<dots> = each ?F [Suc (?a + 1 + length f)..<length line] (0, ?a, row @ [f])"
    using each_block[of "Suc ?a" "?a + 1 + length f" ?F "(1, ?a, row)" "length line"] skip last n by simp
  finally show ?thesis by (intro exI[of _ ?a]) simp
qed

lemma enclosed_row:
  assumes "required_mode d" "fs \<noteq> []" "\<forall>f \<in> set fs. required_ok d f" "line = pre @ csv_join (field_term_char d) (map (enclose d) fs) @ post"
    "enclosed_char d \<notin> set post" "pre \<noteq> [] \<Longrightarrow> last pre \<noteq> escaped_char d"
  shows "\<exists>s. each (enclosed_step d line) [length pre..<length line] (0, k, row) = Some (0, s, row @ fs)"
  using assms(2-4,6)
proof (induction fs arbitrary: pre k row rule: list_nonempty_induct)
  case (single f)
  have l: "line = pre @ enclose d f @ post" using single.prems(2) by simp
  have "enclosed_step d line i (0, s, r) = Some (0, s, r)" if "length pre + length f + 2 \<le> i" "i < length line" for i s r
  proof -
    have "line ! i = post ! (i - (length pre + length f + 2))" "i - (length pre + length f + 2) < length post"
      using that nth_append[of "pre @ enclose d f" post i] unfolding l by (auto simp: enclose_def)
    then have "line ! i \<in> set post" by simp
    then show ?thesis using assms(5) by (auto simp: enclosed_step_def)
  qed
  then have "each (enclosed_step d line) [length pre + length f + 2..<length line] (0, s, r) = Some (0, s, r)" for s r
    by (intro each_skip) auto
  then show ?case using enclosed_field[OF l, of k row] single.prems assms(1) by (auto simp: required_mode_def)
next
  case (cons f fs)
  obtain g gs where fs: "fs = g # gs" using cons.hyps by (cases fs) auto
  let ?pre = "pre @ enclose d f @ [field_term_char d]" and ?F = "enclosed_step d line"
  have l: "line = pre @ enclose d f @ field_term_char d # csv_join (field_term_char d) (map (enclose d) fs) @ post"
    using cons.prems(2) fs by simp
  have l': "line = ?pre @ csv_join (field_term_char d) (map (enclose d) fs) @ post" using l by simp
  have n: "length pre + length f + 2 < length line" "length ?pre = Suc (length pre + length f + 2)" using l by (auto simp: enclose_def)
  have "line ! (length pre + length f + 2) = field_term_char d" using l by (simp add: enclose_def nth_append)
  then have "?F (length pre + length f + 2) (0, s, r) = Some (0, s, r)" for s r
    using assms(1) by (auto simp: enclosed_step_def required_mode_def)
  then have sep: "each ?F [length pre + length f + 2..<length line] (0, s, r) = each ?F [length ?pre..<length line] (0, s, r)" for s r
    using n by (simp add: upt_conv_Cons)
  have "\<exists>s'. each ?F [length ?pre..<length line] (0, s, row @ [f]) = Some (0, s', (row @ [f]) @ fs)" for s
    using cons.IH[OF _ l', of s "row @ [f]"] cons.prems(1) assms(1) by (auto simp: required_mode_def)
  then show ?case using enclosed_field[OF l, of k row] sep cons.prems(1,3) assms(1) by (auto simp: required_mode_def)
qed

lemma get_fields_required:
  assumes "required_mode d" "r \<noteq> []" "\<forall>f \<in> set r. required_ok d f" "heap_ok H"
  shows "get_fields H d (csv_line d (enclose d) r @ [0]) = Some r"
proof -
  let ?l = "csv_line d (enclose d) r @ [0]"
  obtain s where "each (enclosed_step d ?l) [0..<length ?l] (0, 0, []) = Some (0, s, r)"
    using enclosed_row[OF assms(1-3), of ?l "[]" "[line_term_char d, 0]" 0 "[]"] assms(1) by (auto simp: required_mode_def)
  then show ?thesis using assms(1,2,4)
    by (simp add: get_fields_def required_mode_def get_fields_with_enclosure_def alloc_def heap_okD)
qed

interpretation csv_required: csv_mode required_mode enclose required_ok
  by unfold_locales (use get_fields_required in \<open>auto simp: required_mode_def required_ok_def enclose_def\<close>)

subsection \<open>Whole files\<close>

definition csv_write :: "csv_dialect \<Rightarrow> byte list \<Rightarrow> byte list" where
  "csv_write d = (if enclosure_type d = ENCLOSURE_NONE then (\<lambda>f. f) else enclose d)"

definition dialect_ok :: "csv_dialect \<Rightarrow> bool" where
  "dialect_ok d \<longleftrightarrow> unenclosed d \<or> optional_mode d \<or> required_mode d"

definition field_ok :: "csv_dialect \<Rightarrow> byte list \<Rightarrow> bool" where
  "field_ok d = (case enclosure_type d of ENCLOSURE_NONE \<Rightarrow> plain_ok d | ENCLOSURE_REQUIRED \<Rightarrow> required_ok d | _ \<Rightarrow> optional_ok d)"


text \<open>Two rows, quoted, with a comma inside a field; the first row is skipped.\<close>

definition demo_csv :: csv where
  "demo_csv = set_skip_lines 1 (set_enclosed_char 0x22 ENCLOSURE_REQUIRED csv_new)"


subsection \<open>Other lines\<close>

text \<open>Every file is read to its end without enclosures or with required ones: no access is out of bounds, and the loop ends.\<close>

lemma copy_field_Some: "from + w \<le> length line \<Longrightarrow> w < length line \<Longrightarrow> \<exists>f. copy_field line from w = Some f"
  by (simp add: copy_field_def mem_read_def)

lemma without_enclosure_total:
  assumes "heap_ok H"
  shows "\<exists>r. get_fields_without_enclosure H d line = Some r"
proof -
  have "\<exists>st. each (sep_char plain_field d line) [0..<length line] (0, []) = Some st \<and> fst st \<le> length line"
  proof (rule each_total)
    fix pos and st :: "nat \<times> byte list list" assume a: "pos \<in> set [0..<length line]" "fst st \<le> length line"
    obtain k row where st: "st = (k, row)" by (cases st)
    have "\<exists>f. plain_field d line k (pos - k) = Some f" unfolding plain_field_def using a st by (intro copy_field_Some) auto
    then show "\<exists>st'. sep_char plain_field d line pos st = Some st' \<and> fst st' \<le> length line"
      using a st by (auto simp: sep_char_def Let_def)
  qed simp
  then obtain st where "each (sep_char plain_field d line) [0..<length line] (0, []) = Some st" by blast
  then show ?thesis using assms by (simp add: get_fields_without_enclosure_def alloc_def heap_okD)
qed

lemma with_enclosure_total:
  assumes "heap_ok H"
  shows "\<exists>r. get_fields_with_enclosure H d line = Some r"
proof (cases "line = []")
  case False
  have "\<exists>st. each (enclosed_step d line) [0..<length line] (0, 0, []) = Some st \<and> fst (snd st) < length line"
  proof (rule each_total)
    fix pos and st :: "nat \<times> nat \<times> byte list list" assume a: "pos \<in> set [0..<length line]" "fst (snd st) < length line"
    obtain q k row where st: "st = (q, k, row)" by (cases st)
    have p: "pos < length line" "k < length line" using a st by auto
    then have "k + 1 + (pos - k - 1) \<le> length line" "pos - k - 1 < length line" by linarith+
    then obtain f where f: "copy_field line (k + 1) (pos - k - 1) = Some f" using copy_field_Some by blast
    define pv where "pv = (if pos > 0 then line ! (pos - 1) else 0)"
    define qn where "qn = (if pos > 0 \<and> pv = escaped_char d then q else q + 1)"
    have "enclosed_step d line pos st = (if line ! pos = enclosed_char d
        then if qn = 1 \<and> pv \<noteq> escaped_char d then Some (qn, pos, row) else if qn = 2 then Some (0, k, row @ [f]) else Some (qn, k, row)
        else Some (q, k, row))"
      unfolding st enclosed_step_def Let_def prod.case f bind.bind_lunit qn_def pv_def by (rule refl)
    then show "\<exists>st'. enclosed_step d line pos st = Some st' \<and> fst (snd st') < length line"
      using p by (cases "line ! pos = enclosed_char d"; cases "qn = 1 \<and> pv \<noteq> escaped_char d"; cases "qn = 2") simp_all
  qed (use False in simp)
  then obtain q k row where e: "each (enclosed_step d line) [0..<length line] (0, 0, []) = Some (q, k, row)" "k < length line"
    by auto
  have "k + 1 + (length line - k - 1) \<le> length line" "length line - k - 1 < length line" using e(2) by linarith+
  then obtain f where "copy_field line (k + 1) (length line - k - 1) = Some f" using copy_field_Some by blast
  moreover have "alloc H (length line) = Some ()" using assms by (simp add: alloc_def heap_okD)
  ultimately show ?thesis unfolding get_fields_with_enclosure_def e(1) using False by simp
qed (simp add: get_fields_with_enclosure_def)

lemma get_fields_total:
  assumes "heap_ok H" "enclosure_type d = ENCLOSURE_NONE \<or> enclosure_type d = ENCLOSURE_REQUIRED"
  shows "\<exists>r. get_fields H d line = Some r"
  using without_enclosure_total[OF assms(1)] with_enclosure_total[OF assms(1)] assms(2) by (auto simp: get_fields_def)

lemma line_end_bounds: "line_end t bs = (n, met) \<Longrightarrow> n \<le> length bs \<and> (met \<longrightarrow> 0 < n)"
  by (induction bs arbitrary: n) (fastforce split: if_splits prod.splits)+



text \<open>With optional enclosures an empty field, or an empty line, is undefined: its last byte is looked up
  4294967295 bytes behind its first.\<close>

theorem csv_empty_field_undefined:
  assumes "j < length line" "line ! j = field_term_char d \<or> line ! j = line_term_char d"
    "j = 0 \<or> line ! (j - 1) = field_term_char d" "length line < 2 ^ 32"
  shows "get_fields_with_optional_enclosure H d line = None"
proof -
  let ?F = "sep_char optional_field d line"
  have start: "st = (j, snd st)" if "each ?F [0..<j] (0, []) = Some st" for st
  proof (cases j)
    case 0
    then show ?thesis using that by auto
  next
    case (Suc i)
    then have "line ! i = field_term_char d" using assms(3) by simp
    then show ?thesis using that Suc by (auto simp: each_append sep_char_def Let_def split: Option.bind_splits prod.splits)
  qed
  have "optional_field d line j 0 = None" using assms(1,4) unat_minus_one[of "0 :: u32"]
    by (simp add: optional_field_def line_at_def unsigned_minus_1_eq_mask mask_eq_exp_minus_1)
  then have "?F j (j, row) = None" for row using assms(2) by (auto simp: sep_char_def Let_def)
  then have step: "each ?F (j # [Suc j..<length line]) (j, row) = None" for row by simp
  have "each ?F ([0..<j] @ j # [Suc j..<length line]) (0, []) = None"
  proof (cases "each ?F [0..<j] (0, [])")
    case None
    then show ?thesis by (simp add: each_append del: each.simps)
  next
    case (Some st)
    then show ?thesis using start[OF Some] step[of "snd st"] by (simp add: each_append del: each.simps)
  qed
  moreover have "[0..<length line] = [0..<j] @ j # [Suc j..<length line]"
    using assms(1) upt_add_eq_append[of 0 j "length line - j"] by (simp add: upt_conv_Cons)
  ultimately show ?thesis using assms(1) by (auto simp: get_fields_with_optional_enclosure_def simp del: each.simps)
qed

lemma csv_empty_field_undefined_witness:
  "get_fields plenty (cp_dialect (set_enclosed_char 0x22 ENCLOSURE_OPTIONAL csv_new)) [0x61, 0x2C, 0x2C, 0x62, 0x0A, 0] = None"
  using csv_empty_field_undefined[of 2 "[0x61, 0x2C, 0x2C, 0x62, 0x0A, 0]" "cp_dialect (set_enclosed_char 0x22 ENCLOSURE_OPTIONAL csv_new)"
      plenty] by (simp add: get_fields_def set_enclosed_char_def csv_new_def)

text \<open>The last line of a file that does not end in a terminator loses its last field: the loops take a field only at one.
  An enclosed empty field keeps its closing enclosure and the separator.\<close>

lemma csv_unterminated:
  "get_fields plenty (cp_dialect csv_new) (bytes ''1,2,3'' @ [0]) = Some [bytes ''1'', bytes ''2'']"
  by code_simp

lemma csv_enclosed_empty:
  "get_fields plenty (cp_dialect (set_enclosed_char 0x22 ENCLOSURE_OPTIONAL csv_new)) ([0x22, 0x22, 0x2C, 0x61, 0x0A, 0])
     = Some [[0x22, 0x2C], [0x61]]"
  by code_simp

text \<open>With required enclosures a line without any is one field, terminator included; a terminator inside a field ends the row.\<close>

lemma csv_bare_line:
  "get_fields plenty (cp_dialect (set_enclosed_char 0x22 ENCLOSURE_REQUIRED csv_new)) (bytes ''a,b'' @ [0x0A, 0]) = Some [bytes ''a,b'' @ [0x0A]]"
  by code_simp

end
